(* ===== verification/Prelude.thy ===== *)
theory Prelude
  imports Main "HOL-Library.Word" "HOL-Library.Multiset"
begin

text \<open>
  Shared vocabulary of the development: byte strings, results with an error value, loops that
  stop at the first failure, and the generic lemmas on lists and maps the component theories
  use. The parts of Go's standard library the program calls are in the theories \<open>Go_Bytes\<close>,
  \<open>Go_Strings\<close> and \<open>Go_Float\<close>.

  A Go \<open>[]byte\<close> is a list of 8-bit words. A Go \<open>string\<close> is a HOL \<open>string\<close>, whose
  characters are the bytes of the Go string. A Go function with an \<open>error\<close> result returns
  a sum, \<open>Inl\<close> for the error.
\<close>

section \<open>Types and collections of facts\<close>

type_synonym byte = "8 word"
type_synonym bytes = "8 word list"
type_synonym ('e, 'a) result = "'e + 'a"

named_theorems codec_simps \<open>round-trip equations of encoders and decoders\<close>
named_theorems size_simps \<open>lengths of encoded forms\<close>

definition bind_result :: "('e, 'a) result \<Rightarrow> ('a \<Rightarrow> ('e, 'b) result) \<Rightarrow> ('e, 'b) result" where
  "bind_result r f = (case r of Inl e \<Rightarrow> Inl e | Inr x \<Rightarrow> f x)"

lemma bind_result_simps [simp]:
  "bind_result (Inl e) f = Inl e"
  "bind_result (Inr x) f = f x"
  by (simp_all add: bind_result_def)

lemma bind_result_Inr_iff:
  "bind_result r f = Inr y \<longleftrightarrow> (\<exists>x. r = Inr x \<and> f x = Inr y)"
  by (cases r) auto

lemma bind_result_Inl_iff:
  "bind_result r f = Inl e \<longleftrightarrow> r = Inl e \<or> (\<exists>x. r = Inr x \<and> f x = Inl e)"
  by (cases r) auto

definition is_ok :: "('e, 'a) result \<Rightarrow> bool" where
  "is_ok r = (case r of Inl _ \<Rightarrow> False | Inr _ \<Rightarrow> True)"

lemma is_ok_simps [simp]: "is_ok (Inr x)" "\<not> is_ok (Inl e)"
  by (simp_all add: is_ok_def)

lemma is_ok_iff: "is_ok r \<longleftrightarrow> (\<exists>x. r = Inr x)"
  by (cases r) auto

section \<open>Bytes and Go strings\<close>

definition string_bytes :: "string \<Rightarrow> bytes" where
  "string_bytes s = map (\<lambda>c. of_nat (of_char c)) s"

definition bytes_string :: "bytes \<Rightarrow> string" where
  "bytes_string b = map (\<lambda>x. char_of (unat x)) b"

lemma unat_byte_less [simp]: "unat (b :: byte) < 256"
  using unsigned_less [of b] by simp

lemma unat_of_nat_byte [simp]: "n < 256 \<Longrightarrow> unat (of_nat n :: byte) = n"
  by (simp add: unat_of_nat take_bit_nat_eq_self)

lemma char_of_unat_of_char [simp]: "char_of (unat (of_nat (of_char c) :: byte)) = c"
proof -
  have "(of_char c :: nat) mod 256 < 256"
    by (rule mod_less_divisor) simp
  then have "(of_char c :: nat) < 256"
    by simp
  then show ?thesis
    by simp
qed

lemma of_char_char_of_unat [simp]: "(of_nat (of_char (char_of (unat (b :: byte)))) :: byte) = b"
  by simp

lemma bytes_string_bytes [simp, codec_simps]: "bytes_string (string_bytes s) = s"
  by (simp add: bytes_string_def string_bytes_def o_def)

lemma string_bytes_string [simp, codec_simps]: "string_bytes (bytes_string b) = b"
  by (simp add: bytes_string_def string_bytes_def o_def)

lemma length_string_bytes [simp, size_simps]: "length (string_bytes s) = length s"
  by (simp add: string_bytes_def)

lemma length_bytes_string [simp, size_simps]: "length (bytes_string b) = length b"
  by (simp add: bytes_string_def)

section \<open>Lists read through a partial function\<close>

text \<open>
  A loop that converts every element and stops at the first failure.
\<close>

fun map_result :: "('a \<Rightarrow> ('e, 'b) result) \<Rightarrow> 'a list \<Rightarrow> ('e, 'b list) result" where
  "map_result f [] = Inr []"
| "map_result f (x # xs) =
     bind_result (f x) (\<lambda>y. bind_result (map_result f xs) (\<lambda>ys. Inr (y # ys)))"

lemma map_result_Inr_iff:
  "map_result f xs = Inr ys \<longleftrightarrow> list_all2 (\<lambda>x y. f x = Inr y) xs ys"
  by (induction xs arbitrary: ys)
    (auto simp: bind_result_Inr_iff list_all2_Cons1)

lemma map_result_total:
  "(\<And>x. x \<in> set xs \<Longrightarrow> f x = Inr (g x)) \<Longrightarrow> map_result f xs = Inr (map g xs)"
  by (induction xs) auto

text \<open>
  A loop that checks every element and returns the first error.
\<close>

fun check_all :: "('a \<Rightarrow> 'e option) \<Rightarrow> 'a list \<Rightarrow> 'e option" where
  "check_all f [] = None"
| "check_all f (x # xs) = (case f x of Some e \<Rightarrow> Some e | None \<Rightarrow> check_all f xs)"

lemma check_all_cong [fundef_cong]:
  "xs = ys \<Longrightarrow> (\<And>x. x \<in> set ys \<Longrightarrow> f x = g x) \<Longrightarrow> check_all f xs = check_all g ys"
  by (induction xs arbitrary: ys) (auto split: option.splits)

lemma check_all_None_iff: "check_all f xs = None \<longleftrightarrow> (\<forall>x \<in> set xs. f x = None)"
  by (induction xs) (auto split: option.splits)

lemma check_all_SomeD:
  "check_all f xs = Some e \<Longrightarrow>
   \<exists>ys x zs. xs = ys @ x # zs \<and> (\<forall>y \<in> set ys. f y = None) \<and> f x = Some e"
proof (induction xs)
  case (Cons x xs)
  show ?case
  proof (cases "f x")
    case None
    with Cons obtain ys z zs where "xs = ys @ z # zs" "\<forall>y \<in> set ys. f y = None" "f z = Some e"
      by auto
    with None have "x # xs = (x # ys) @ z # zs \<and> (\<forall>y \<in> set (x # ys). f y = None) \<and> f z = Some e"
      by simp
    then show ?thesis by blast
  next
    case (Some e')
    with Cons.prems have "x # xs = [] @ x # xs \<and> (\<forall>y \<in> set []. f y = None) \<and> f x = Some e"
      by simp
    then show ?thesis by blast
  qed
qed simp

section \<open>First occurrences\<close>

text \<open>The elements of a list in the order in which each is first met.\<close>

definition firsts :: "'a list \<Rightarrow> 'a list" where
  "firsts xs = rev (remdups (rev xs))"

lemma firsts_Nil [simp]: "firsts [] = []"
  by (simp add: firsts_def)

lemma firsts_snoc: "firsts (xs @ [x]) = (if x \<in> set xs then firsts xs else firsts xs @ [x])"
  by (simp add: firsts_def)

lemma set_firsts [simp]: "set (firsts xs) = set xs"
  by (simp add: firsts_def)

lemma distinct_firsts [simp]: "distinct (firsts xs)"
  by (simp add: firsts_def)

end
