(* ===== verification/Go_Bytes.thy ===== *)
theory Go_Bytes
  imports Prelude
begin

text \<open>
  What the program uses of Go's \<open>encoding/binary\<close> and \<open>encoding/hex\<close>: unsigned varints,
  little-endian integers of a fixed number of bytes, and hexadecimal text. Each encoder
  comes with its round trip and its length.
\<close>

section \<open>Little-endian integers\<close>

fun le_bytes :: "nat \<Rightarrow> nat \<Rightarrow> bytes" where
  "le_bytes 0 x = []"
| "le_bytes (Suc k) x = of_nat (x mod 256) # le_bytes k (x div 256)"

fun le_nat :: "bytes \<Rightarrow> nat" where
  "le_nat [] = 0"
| "le_nat (b # bs) = unat b + 256 * le_nat bs"

lemma length_le_bytes [simp, size_simps]: "length (le_bytes k x) = k"
  by (induction k arbitrary: x) auto

lemma le_nat_le_bytes [codec_simps]: "le_nat (le_bytes k x) = x mod 256 ^ k"
  by (induction k arbitrary: x) (auto simp: mod_mult2_eq)

lemma le_nat_le_bytes_small [simp]: "x < 256 ^ k \<Longrightarrow> le_nat (le_bytes k x) = x"
  by (simp add: le_nat_le_bytes)

lemma le_nat_less: "le_nat bs < 256 ^ length bs"
proof (induction bs)
  case (Cons b bs)
  have "le_nat (b # bs) < 256 * Suc (le_nat bs)"
    using unat_byte_less [of b] unfolding le_nat.simps mult_Suc_right by (rule add_strict_right_mono)
  also have "\<dots> \<le> 256 * 256 ^ length bs"
    using Cons.IH by (intro mult_le_mono2 Suc_leI)
  finally show ?case by simp
qed simp

lemma le_bytes_le_nat [simp, codec_simps]: "le_bytes (length bs) (le_nat bs) = bs"
proof (induction bs)
  case (Cons b bs)
  have "(unat b + 256 * le_nat bs) mod 256 = unat b" "(unat b + 256 * le_nat bs) div 256 = le_nat bs"
    by simp_all
  with Cons.IH show ?case
    by simp
qed simp

section \<open>Unsigned varints\<close>

text \<open>
  \<open>binary.AppendUvarint\<close>: seven bits per byte, least significant first, the top bit of
  every byte but the last set.
\<close>

fun put_uvarint :: "nat \<Rightarrow> bytes" where
  "put_uvarint x =
     (if x < 128 then [of_nat x] else of_nat (x mod 128 + 128) # put_uvarint (x div 128))"

declare put_uvarint.simps [simp del]

text \<open>\<open>binary.MaxVarintLen64\<close>.\<close>

definition MaxVarintLen64 :: nat where
  "MaxVarintLen64 = 10"

text \<open>
  \<open>binary.Uvarint\<close>: the value and the number of bytes read. A count of zero means the
  buffer was too small, a negative one that the value overflows 64 bits; both come with
  the value 0. The loop counter \<open>i\<close>, the value so far \<open>x\<close> and the shift \<open>s\<close> are the
  loop's variables.
\<close>

fun uvarint_loop :: "nat \<Rightarrow> nat \<Rightarrow> nat \<Rightarrow> bytes \<Rightarrow> nat \<times> int" where
  "uvarint_loop i x s [] = (0, 0)"
| "uvarint_loop i x s (b # bs) =
     (if i = MaxVarintLen64 then (0, - (int i + 1))
      else if unat b < 128 then
        (if i = MaxVarintLen64 - 1 \<and> unat b > 1 then (0, - (int i + 1))
         else ((x + unat b * 2 ^ s) mod 2 ^ 64, int i + 1))
      else uvarint_loop (i + 1) ((x + (unat b mod 128) * 2 ^ s) mod 2 ^ 64) (s + 7) bs)"

definition get_uvarint :: "bytes \<Rightarrow> nat \<times> int" where
  "get_uvarint b = uvarint_loop 0 0 0 b"

lemma put_uvarint_nonempty [simp]: "put_uvarint x \<noteq> []"
  by (subst put_uvarint.simps) simp

lemma length_put_uvarint_pos [simp]: "0 < length (put_uvarint x)"
  by simp

lemma length_put_uvarint_le: "0 < n \<Longrightarrow> x < 128 ^ n \<Longrightarrow> length (put_uvarint x) \<le> n"
proof (induction n arbitrary: x)
  case (Suc n)
  show ?case
  proof (cases "x < 128")
    case True
    then show ?thesis by (simp add: put_uvarint.simps [of x])
  next
    case False
    then have "0 < n"
      using Suc.prems by (cases n) auto
    moreover have "x div 128 < 128 ^ n"
      using Suc.prems by (simp add: less_mult_imp_div_less mult.commute)
    ultimately have "length (put_uvarint (x div 128)) \<le> n"
      by (rule Suc.IH)
    with False show ?thesis
      by (simp add: put_uvarint.simps [of x])
  qed
qed simp

lemma unat_continuation: "unat (of_nat (n mod 128) + 128 :: byte) = n mod 128 + 128"
proof -
  have "n mod 128 < 128"
    by simp
  then have "n mod 128 + 128 < 256"
    by linarith
  then have "unat (of_nat (n mod 128 + 128) :: byte) = n mod 128 + 128"
    by (rule unat_of_nat_byte)
  then show ?thesis by simp
qed

lemmas unat_continuations = unat_continuation unat_continuation [unfolded add.commute [of _ 128]]

lemma uvarint_loop_put:
  assumes "y * 2 ^ (7 * i) + x < 2 ^ 64" and "i < 10" and "y = 0 \<longrightarrow> i = 0"
  shows "uvarint_loop i x (7 * i) (put_uvarint y @ rest) =
    (y * 2 ^ (7 * i) + x, int (i + length (put_uvarint y)))"
  using assms
proof (induction y arbitrary: i x rule: put_uvarint.induct)
  case (1 y)
  show ?case
  proof (cases "y < 128")
    case True
    have "\<not> (i = 9 \<and> y > 1)"
    proof
      assume "i = 9 \<and> y > 1"
      then have "2 * 2 ^ 63 \<le> y * 2 ^ (7 * i)"
        by simp
      with "1.prems"(1) show False by simp
    qed
    with True "1.prems" show ?thesis
      by (simp add: put_uvarint.simps [of y] MaxVarintLen64_def add.commute mult.commute)
  next
    case False
    let ?x = "x + (y mod 128) * 2 ^ (7 * i)"
    have split: "y * 2 ^ (7 * i) = (y div 128) * 2 ^ (7 * (i + 1)) + (y mod 128) * 2 ^ (7 * i)"
    proof -
      have "y * 2 ^ (7 * i) = (y div 128 * 128 + y mod 128) * 2 ^ (7 * i)"
        by simp
      also have "\<dots> = (y div 128) * (2 ^ 7 * 2 ^ (7 * i)) + (y mod 128) * 2 ^ (7 * i)"
        unfolding add_mult_distrib by simp
      also have "2 ^ 7 * 2 ^ (7 * i) = (2 :: nat) ^ (7 * (i + 1))"
        by (simp add: power_add)
      finally show ?thesis .
    qed
    have small: "(y div 128) * 2 ^ (7 * (i + 1)) + ?x < 2 ^ 64"
      using "1.prems"(1) split by simp
    have pos: "1 \<le> y div 128"
      using False by simp
    have "i + 1 < 10"
    proof (rule ccontr)
      assume "\<not> i + 1 < 10"
      with "1.prems"(2) have "i = 9" by simp
      with small have "(y div 128) * 2 ^ 70 < (2 :: nat) ^ 64" by simp
      moreover have "1 * 2 ^ 70 \<le> (y div 128) * (2 :: nat) ^ 70"
        using pos by (rule mult_le_mono1)
      ultimately show False by simp
    qed
    moreover have "?x < 2 ^ 64"
      using small by simp
    moreover have "7 * i + 7 = 7 * (i + 1)"
      by simp
    ultimately show ?thesis
      using False "1.prems" small pos split
        "1.IH" [OF False, of "i + 1" ?x]
      by (simp add: put_uvarint.simps [of y] MaxVarintLen64_def unat_continuations algebra_simps)
  qed
qed

lemma get_put_uvarint [codec_simps]:
  "x < 2 ^ 64 \<Longrightarrow> get_uvarint (put_uvarint x @ rest) = (x, int (length (put_uvarint x)))"
  using uvarint_loop_put [of x 0 0 rest] by (simp add: get_uvarint_def)

text \<open>A positive count is never more than the buffer holds, and the value is below \<open>2 ^ 64\<close>.\<close>

lemma uvarint_loop_bounds:
  "uvarint_loop i x s bs = (v, n) \<Longrightarrow> 0 < n \<Longrightarrow> int i < n \<and> n \<le> int (i + length bs) \<and> v < 2 ^ 64"
proof (induction i x s bs rule: uvarint_loop.induct)
  case (2 i x s b bs)
  then show ?case
    by (auto split: if_splits)
qed simp

lemma get_uvarint_bounds:
  assumes "get_uvarint b = (v, n)" and "0 < n"
  shows "nat n \<le> length b" and "0 < nat n" and "v < 2 ^ 64"
  using uvarint_loop_bounds [of 0 0 0 b v n] assms by (auto simp: get_uvarint_def)

text \<open>A varint whose last bytes are missing is not read: the count is not positive.\<close>

lemma uvarint_loop_truncated:
  "n < length (put_uvarint y) \<Longrightarrow> snd (uvarint_loop i x s (take n (put_uvarint y))) \<le> 0"
proof (induction y arbitrary: i x s n rule: put_uvarint.induct)
  case (1 y)
  show ?case
  proof (cases "y < 128 \<or> n = 0")
    case True
    with "1.prems" show ?thesis by (auto simp: put_uvarint.simps [of y])
  next
    case False
    then obtain k where k: "n = Suc k" and big: "\<not> y < 128" by (cases n) auto
    have "k < length (put_uvarint (y div 128))"
      using "1.prems" k big by (simp add: put_uvarint.simps [of y])
    from "1.IH" [OF big this] show ?thesis
      using k big by (simp add: put_uvarint.simps [of y] unat_continuations)
  qed
qed

lemma get_uvarint_truncated:
  "n < length (put_uvarint y) \<Longrightarrow> snd (get_uvarint (take n (put_uvarint y))) \<le> 0"
  by (simp add: get_uvarint_def uvarint_loop_truncated)

section \<open>Hexadecimal text\<close>

definition hex_digit :: "nat \<Rightarrow> char" where
  "hex_digit n = (if n < 10 then char_of (48 + n) else char_of (87 + n))"

definition hex_value :: "char \<Rightarrow> nat option" where
  "hex_value c =
     (let n = of_char c in
      if 48 \<le> n \<and> n \<le> 57 then Some (n - 48)
      else if 97 \<le> n \<and> n \<le> 102 then Some (n - 87)
      else if 65 \<le> n \<and> n \<le> 70 then Some (n - 55)
      else None)"

text \<open>\<open>hex.EncodeToString\<close> and \<open>hex.DecodeString\<close>, the error reduced to \<open>None\<close>.\<close>

fun hex_encode :: "bytes \<Rightarrow> string" where
  "hex_encode [] = []"
| "hex_encode (b # bs) = hex_digit (unat b div 16) # hex_digit (unat b mod 16) # hex_encode bs"

fun hex_decode :: "string \<Rightarrow> bytes option" where
  "hex_decode [] = Some []"
| "hex_decode [c] = None"
| "hex_decode (c # d # cs) =
     (case (hex_value c, hex_value d) of
        (Some h, Some l) \<Rightarrow> map_option ((#) (of_nat (16 * h + l))) (hex_decode cs)
      | _ \<Rightarrow> None)"

lemma of_char_char_of_small: "n < 256 \<Longrightarrow> of_char (char_of n) = (n :: nat)"
  by simp

lemma hex_value_digit [simp]: "n < 16 \<Longrightarrow> hex_value (hex_digit n) = Some n"
  by (auto simp: hex_value_def hex_digit_def Let_def)

lemma hex_value_less: "hex_value c = Some n \<Longrightarrow> n < 16"
  by (auto simp: hex_value_def Let_def split: if_splits)

lemma hex_decode_encode [simp, codec_simps]: "hex_decode (hex_encode b) = Some b"
proof (induction b)
  case (Cons b bs)
  have "unat b < 256"
    by simp
  then have "unat b div 16 < 16"
    by (simp add: less_mult_imp_div_less)
  moreover have "(of_nat (16 * (unat b div 16) + unat b mod 16) :: byte) = b"
    by simp
  ultimately show ?case
    using Cons.IH by simp
qed simp

lemma length_hex_encode [simp, size_simps]: "length (hex_encode b) = 2 * length b"
  by (induction b) auto

lemma hex_decode_length: "hex_decode s = Some b \<Longrightarrow> length s = 2 * length b"
  by (induction s arbitrary: b rule: hex_decode.induct) (auto split: option.splits)

lemma hex_encode_inj [simp]: "hex_encode a = hex_encode b \<longleftrightarrow> a = b"
  by (metis hex_decode_encode option.inject)

end
