(* ===== verification/Go_Strings.thy ===== *)
theory Go_Strings
  imports Prelude
begin

text \<open>
  The functions of Go's package \<open>strings\<close> the program calls, on byte strings: \<open>TrimSpace\<close>
  with the UTF-8 forms of every rune \<open>unicode.IsSpace\<close> accepts, \<open>Cut\<close>, \<open>Join\<close>, and
  \<open>ToLower\<close>, whose behaviour on bytes outside ASCII is the argument \<open>unicode_lower\<close>.
\<close>

section \<open>TrimSpace\<close>

definition ascii_space :: "nat \<Rightarrow> bool" where
  "ascii_space n \<longleftrightarrow> n \<in> {9, 10, 11, 12, 13, 32}"

definition spaces2 :: "nat list list" where
  "spaces2 = [[194, 133], [194, 160]]"

definition spaces3 :: "nat list list" where
  "spaces3 = [225, 154, 128] # map (\<lambda>n. [226, 128, n]) [128..<139] @
     [[226, 128, 168], [226, 128, 169], [226, 128, 175], [226, 129, 159], [227, 128, 128]]"

text \<open>The number of bytes of the space rune a string begins with, 0 when it begins with none.\<close>

definition space_rune :: "nat list \<Rightarrow> nat" where
  "space_rune xs =
     (if xs \<noteq> [] \<and> ascii_space (hd xs) then 1
      else if take 2 xs \<in> set spaces2 then 2
      else if take 3 xs \<in> set spaces3 then 3
      else 0)"

definition space_rune_end :: "nat list \<Rightarrow> nat" where
  "space_rune_end rs =
     (if rs \<noteq> [] \<and> ascii_space (hd rs) then 1
      else if rev (take 2 rs) \<in> set spaces2 then 2
      else if rev (take 3 rs) \<in> set spaces3 then 3
      else 0)"

lemma space_rune_Nil [simp]: "space_rune [] = 0" "space_rune_end [] = 0"
  by (simp_all add: space_rune_def space_rune_end_def spaces2_def spaces3_def)

function trim_with :: "(nat list \<Rightarrow> nat) \<Rightarrow> nat list \<Rightarrow> nat list" where
  "trim_with f xs = (if xs = [] \<or> f xs = 0 then xs else trim_with f (drop (f xs) xs))"
  by pat_completeness auto
termination
  by (relation "measure (\<lambda>(f, xs). length xs)") auto

declare trim_with.simps [simp del]

definition codes :: "string \<Rightarrow> nat list" where
  "codes s = map of_char s"

definition of_codes :: "nat list \<Rightarrow> string" where
  "of_codes xs = map char_of xs"

lemma of_codes_codes [simp]: "of_codes (codes s) = s"
  by (simp add: of_codes_def codes_def o_def)

lemma codes_Nil [simp]: "codes [] = []" "of_codes [] = []"
  by (simp_all add: codes_def of_codes_def)

lemma codes_drop: "drop n (codes s) = codes (drop n s)"
  by (simp add: codes_def drop_map)

lemma codes_take: "take n (codes s) = codes (take n s)"
  by (simp add: codes_def take_map)

lemma codes_rev: "rev (codes s) = codes (rev s)"
  by (simp add: codes_def rev_map)

definition TrimSpace :: "string \<Rightarrow> string" where
  "TrimSpace s =
     of_codes (rev (trim_with space_rune_end (rev (trim_with space_rune (codes s)))))"

lemma trim_with_suffix: "\<exists>n. trim_with f xs = drop n xs"
proof (induction f xs rule: trim_with.induct)
  case (1 f xs)
  show ?case
  proof (cases "xs = [] \<or> f xs = 0")
    case True
    then have "trim_with f xs = drop 0 xs"
      by (simp add: trim_with.simps [of f xs])
    then show ?thesis by blast
  next
    case False
    with "1.IH" obtain n where "trim_with f (drop (f xs) xs) = drop n (drop (f xs) xs)"
      by blast
    with False have "trim_with f xs = drop (n + f xs) xs"
      by (simp add: trim_with.simps [of f xs])
    then show ?thesis by blast
  qed
qed

lemma trim_with_stops: "f [] = 0 \<Longrightarrow> f (trim_with f xs) = 0"
proof (induction f xs rule: trim_with.induct)
  case (1 f xs)
  then show ?case
    by (cases "xs = [] \<or> f xs = 0") (auto simp: trim_with.simps [of f xs])
qed

lemma trim_with_id: "f xs = 0 \<Longrightarrow> trim_with f xs = xs"
  by (simp add: trim_with.simps [of f xs])

text \<open>A string no space rune begins keeps that property when bytes are taken off its end.\<close>

lemma length_spaces:
  "ys \<in> set spaces2 \<Longrightarrow> length ys = 2" "ys \<in> set spaces3 \<Longrightarrow> length ys = 3"
  by (auto simp: spaces2_def spaces3_def)

lemma take_take_prefix: "length (take n (take m xs)) = n \<Longrightarrow> take n (take m xs) = take n xs"
  by (simp add: min_def split: if_splits)

lemma space_rune_take: "space_rune xs = 0 \<Longrightarrow> space_rune (take m xs) = 0"
proof -
  assume z: "space_rune xs = 0"
  have "\<not> (take m xs \<noteq> [] \<and> ascii_space (hd (take m xs)))"
    using z by (auto simp: space_rune_def split: if_splits)
  moreover have "take 2 (take m xs) \<notin> set spaces2"
  proof
    assume a: "take 2 (take m xs) \<in> set spaces2"
    then have "take 2 (take m xs) = take 2 xs"
      by (intro take_take_prefix length_spaces)
    with a z show False
      by (simp add: space_rune_def split: if_splits)
  qed
  moreover have "take 3 (take m xs) \<notin> set spaces3"
  proof
    assume a: "take 3 (take m xs) \<in> set spaces3"
    then have "take 3 (take m xs) = take 3 xs"
      by (intro take_take_prefix length_spaces)
    with a z show False
      by (simp add: space_rune_def split: if_splits)
  qed
  ultimately show ?thesis
    by (auto simp: space_rune_def)
qed

lemma codes_of_codes: "\<forall>x \<in> set xs. x < 256 \<Longrightarrow> codes (of_codes xs) = xs"
  by (simp add: codes_def of_codes_def map_idI)

lemma codes_less: "x \<in> set (codes s) \<Longrightarrow> x < 256"
proof -
  assume "x \<in> set (codes s)"
  then obtain c where "x = of_char c" by (auto simp: codes_def)
  then have "x mod 256 = x" by simp
  then show ?thesis by (metis mod_less_divisor zero_less_numeral)
qed

lemma TrimSpace_codes:
  "codes (TrimSpace s) = rev (trim_with space_rune_end (rev (trim_with space_rune (codes s))))"
proof -
  obtain n where n: "trim_with space_rune (codes s) = drop n (codes s)"
    using trim_with_suffix by blast
  obtain m where m: "trim_with space_rune_end (rev (drop n (codes s))) = drop m (rev (drop n (codes s)))"
    using trim_with_suffix by blast
  have "set (rev (trim_with space_rune_end (rev (trim_with space_rune (codes s))))) \<subseteq> set (codes s)"
    unfolding n m by (metis (no_types, opaque_lifting) set_drop_subset set_rev subset_trans)
  then show ?thesis
    unfolding TrimSpace_def by (intro codes_of_codes ballI) (auto dest: codes_less)
qed

lemma TrimSpace_trimmed:
  "space_rune (codes (TrimSpace s)) = 0" "space_rune_end (rev (codes (TrimSpace s))) = 0"
proof -
  let ?l = "trim_with space_rune (codes s)"
  have "space_rune ?l = 0"
    by (rule trim_with_stops) simp
  moreover obtain m where "trim_with space_rune_end (rev ?l) = drop m (rev ?l)"
    using trim_with_suffix by blast
  then have "codes (TrimSpace s) = take (length ?l - m) ?l"
    by (simp add: TrimSpace_codes rev_drop)
  ultimately show "space_rune (codes (TrimSpace s)) = 0"
    by (simp add: space_rune_take)
  show "space_rune_end (rev (codes (TrimSpace s))) = 0"
    unfolding TrimSpace_codes rev_rev_ident by (rule trim_with_stops) simp
qed

lemma TrimSpace_idI:
  "space_rune (codes s) = 0 \<Longrightarrow> space_rune_end (rev (codes s)) = 0 \<Longrightarrow> TrimSpace s = s"
  by (simp add: TrimSpace_def trim_with_id)

lemma TrimSpace_idem [simp]: "TrimSpace (TrimSpace s) = TrimSpace s"
  by (rule TrimSpace_idI) (rule TrimSpace_trimmed)+

lemma TrimSpace_Nil [simp]: "TrimSpace [] = []"
  by (rule TrimSpace_idI) simp_all

text \<open>Trimming never makes a string longer.\<close>

lemma length_TrimSpace_le: "length (TrimSpace s) \<le> length s"
proof -
  obtain n m where
    n: "trim_with space_rune (codes s) = drop n (codes s)" and
    m: "trim_with space_rune_end (rev (drop n (codes s))) = drop m (rev (drop n (codes s)))"
    using trim_with_suffix by metis
  have "length (TrimSpace s) = length (codes (TrimSpace s))"
    by (simp add: codes_def)
  also have "\<dots> \<le> length (codes s)"
    unfolding TrimSpace_codes n m by simp
  finally show ?thesis
    by (simp add: codes_def)
qed

section \<open>Cut and Join\<close>

text \<open>\<open>strings.Cut\<close>: around the first occurrence of the separator, \<open>None\<close> when there is none.\<close>

fun Cut :: "string \<Rightarrow> string \<Rightarrow> (string \<times> string) option" where
  "Cut sep [] = (if sep = [] then Some ([], []) else None)"
| "Cut sep (c # cs) =
     (if take (length sep) (c # cs) = sep then Some ([], drop (length sep) (c # cs))
      else map_option (\<lambda>(a, b). (c # a, b)) (Cut sep cs))"

lemma Cut_Some: "Cut sep s = Some (a, b) \<Longrightarrow> s = a @ sep @ b"
proof (induction sep s arbitrary: a rule: Cut.induct)
  case (2 sep c cs)
  show ?case
  proof (cases "take (length sep) (c # cs) = sep")
    case True
    with "2.prems" have "a = []" "b = drop (length sep) (c # cs)" by auto
    with True show ?thesis by (metis append_Nil append_take_drop_id)
  next
    case False
    with "2.prems" obtain a' where "Cut sep cs = Some (a', b)" "a = c # a'" by auto
    with "2.IH" [OF False] show ?thesis by simp
  qed
qed (simp split: if_splits)

fun Join :: "string \<Rightarrow> string list \<Rightarrow> string" where
  "Join sep [] = []"
| "Join sep [x] = x"
| "Join sep (x # y # ys) = x @ sep @ Join sep (y # ys)"

section \<open>ToLower\<close>

definition ascii_lower :: "char \<Rightarrow> char" where
  "ascii_lower c = (let n = of_char c in if 65 \<le> n \<and> n \<le> 90 then char_of (n + 32 :: nat) else c)"

definition is_ascii :: "string \<Rightarrow> bool" where
  "is_ascii s \<longleftrightarrow> list_all (\<lambda>c. of_char c < (128 :: nat)) s"

text \<open>
  \<open>strings.ToLower\<close> lowers an ASCII string byte by byte and maps the runes of any other
  string through the Unicode tables, which \<open>unicode_lower\<close> stands for.
\<close>

definition ToLower :: "(string \<Rightarrow> string) \<Rightarrow> string \<Rightarrow> string" where
  "ToLower unicode_lower s = (if is_ascii s then map ascii_lower s else unicode_lower s)"

lemma ascii_lower_idem [simp]: "ascii_lower (ascii_lower c) = ascii_lower c"
  by (auto simp: ascii_lower_def Let_def)

lemma is_ascii_lower: "is_ascii s \<Longrightarrow> is_ascii (map ascii_lower s)"
  by (auto simp: is_ascii_def list_all_iff ascii_lower_def Let_def)

lemma ToLower_ascii_idem: "is_ascii s \<Longrightarrow> ToLower u (ToLower u s) = ToLower u s"
  by (simp add: ToLower_def is_ascii_lower o_def)

section \<open>Split\<close>

text \<open>\<open>strings.Split\<close> on a separator of one byte.\<close>

fun Split :: "char \<Rightarrow> string \<Rightarrow> string list" where
  "Split sep [] = [[]]"
| "Split sep (c # s) =
     (if c = sep then [] # Split sep s
      else case Split sep s of [] \<Rightarrow> [[c]] | w # ws \<Rightarrow> (c # w) # ws)"

lemma Split_not_Nil [simp]: "Split sep s \<noteq> []"
  by (induction s) (auto split: list.splits)

lemma Split_word: "sep \<notin> set w \<Longrightarrow> Split sep w = [w]"
  by (induction w) auto

lemma Split_append: "sep \<notin> set w \<Longrightarrow> Split sep (w @ sep # s) = w # Split sep s"
  by (induction w) auto

lemma Split_Join:
  assumes "\<forall>w \<in> set ws. sep \<notin> set w" "ws \<noteq> []"
  shows "Split sep (Join [sep] ws) = ws"
  using assms by (induction "[sep]" ws rule: Join.induct) (auto simp: Split_word Split_append)

section \<open>Contains\<close>

fun strings_Contains :: "string \<Rightarrow> string \<Rightarrow> bool" where
  "strings_Contains [] sub \<longleftrightarrow> sub = []"
| "strings_Contains (c # s) sub \<longleftrightarrow> take (length sub) (c # s) = sub \<or> strings_Contains s sub"

lemma strings_Contains_iff: "strings_Contains s sub \<longleftrightarrow> (\<exists>a b. s = a @ sub @ b)"
proof (induction s)
  case (Cons c s)
  have "take (length sub) (c # s) = sub \<longleftrightarrow> (\<exists>b. c # s = sub @ b)"
    by (metis append_eq_conv_conj append_take_drop_id)
  then show ?case using Cons.IH by (auto simp: Cons_eq_append_conv)
qed simp

end
