(* ===== verification/Go_Float.thy ===== *)
theory Go_Float
  imports Prelude
begin

text \<open>
  Go's \<open>float32\<close> and \<open>float64\<close> as their IEEE 754 bit patterns. Comparison is that of the
  standard (a NaN compares with nothing, the two zeros are equal); \<open>float32\<close> addition,
  multiplication, division and the conversion from an integer are exact on the integer
  significands and then rounded once, to nearest with ties to even, as the language
  specifies for each single operation.
\<close>

section \<open>Comparison\<close>

type_synonym float32 = "32 word"
type_synonym float64 = "64 word"

definition f32_nan :: "float32 \<Rightarrow> bool" where
  "f32_nan w \<longleftrightarrow> unat w mod 2147483648 > 2139095040"

definition f32_key :: "float32 \<Rightarrow> int" where
  "f32_key w =
     (if unat w < 2147483648 then int (unat w) else - int (unat w - 2147483648))"

definition f32_lt :: "float32 \<Rightarrow> float32 \<Rightarrow> bool" where
  "f32_lt a b \<longleftrightarrow> \<not> f32_nan a \<and> \<not> f32_nan b \<and> f32_key a < f32_key b"

definition f32_eq :: "float32 \<Rightarrow> float32 \<Rightarrow> bool" where
  "f32_eq a b \<longleftrightarrow> \<not> f32_nan a \<and> \<not> f32_nan b \<and> f32_key a = f32_key b"

definition f64_nan :: "float64 \<Rightarrow> bool" where
  "f64_nan w \<longleftrightarrow> unat w mod 9223372036854775808 > 9218868437227405312"

definition f64_key :: "float64 \<Rightarrow> int" where
  "f64_key w =
     (if unat w < 9223372036854775808 then int (unat w)
      else - int (unat w - 9223372036854775808))"

definition f64_lt :: "float64 \<Rightarrow> float64 \<Rightarrow> bool" where
  "f64_lt a b \<longleftrightarrow> \<not> f64_nan a \<and> \<not> f64_nan b \<and> f64_key a < f64_key b"

text \<open>The bit pattern of 1: the exponent bias in the exponent field, the rest 0.\<close>

definition f64_one :: float64 where
  "f64_one = 4607182418800017408"

lemma f32_lt_irrefl [simp]: "\<not> f32_lt a a"
  by (simp add: f32_lt_def)

lemma f32_lt_trans: "f32_lt a b \<Longrightarrow> f32_lt b c \<Longrightarrow> f32_lt a c"
  by (simp add: f32_lt_def)

lemma f32_not_lt_trans:
  "\<not> f32_nan b \<Longrightarrow> \<not> f32_lt a b \<Longrightarrow> \<not> f32_lt b c \<Longrightarrow> \<not> f32_lt a c"
  by (auto simp: f32_lt_def)

lemma f32_total: "\<not> f32_nan a \<Longrightarrow> \<not> f32_nan b \<Longrightarrow> f32_lt a b \<or> f32_eq a b \<or> f32_lt b a"
  by (auto simp: f32_lt_def f32_eq_def)

lemma f32_eq_refl [simp]: "f32_eq a a \<longleftrightarrow> \<not> f32_nan a"
  by (simp add: f32_eq_def)

section \<open>Rounding\<close>

fun bitlen :: "nat \<Rightarrow> nat" where
  "bitlen n = (if n = 0 then 0 else Suc (bitlen (n div 2)))"

declare bitlen.simps [simp del]

definition f32_bits :: "bool \<Rightarrow> nat \<Rightarrow> float32" where
  "f32_bits neg b = of_nat (if neg then b + 2147483648 else b)"

text \<open>A significand below \<open>2 ^ 24\<close> and its exponent, as a bit pattern; too large is infinity.\<close>

definition f32_encode :: "bool \<Rightarrow> nat \<Rightarrow> int \<Rightarrow> float32" where
  "f32_encode neg q e =
     (if q < 8388608 then f32_bits neg q
      else if e + 150 \<ge> 255 then f32_bits neg 2139095040
      else f32_bits neg (nat (e + 150) * 8388608 + (q - 8388608)))"

text \<open>
  The nearest \<open>float32\<close> to \<open>m * 2 ^ e\<close>, or to a value a little above it when \<open>sticky\<close> holds.
  \<open>k\<close> bits do not fit, either beyond the 24 of a significand or below the least exponent.
\<close>

definition f32_round :: "bool \<Rightarrow> nat \<Rightarrow> int \<Rightarrow> bool \<Rightarrow> float32" where
  "f32_round neg m e sticky =
     (let k = max (int (bitlen m) - 24) (- 149 - e) in
      if k \<le> 0 then
        (let j = nat (min (24 - int (bitlen m)) (e + 149)) in
         f32_encode neg (m * 2 ^ j) (e - int j))
      else
        (let p = 2 ^ nat k; q = m div p; r = m mod p; half = p div 2;
             up = (half < r \<or> (r = half \<and> (sticky \<or> odd q)));
             q' = (if up then q + 1 else q)
         in if q' = 16777216 then f32_encode neg 8388608 (e + k + 1)
            else f32_encode neg q' (e + k)))"

section \<open>Arithmetic\<close>

definition f32_neg :: "float32 \<Rightarrow> bool" where
  "f32_neg w \<longleftrightarrow> 2147483648 \<le> unat w"

definition f32_inf :: "float32 \<Rightarrow> bool" where
  "f32_inf w \<longleftrightarrow> unat w mod 2147483648 = 2139095040"

definition f32_sig :: "float32 \<Rightarrow> nat" where
  "f32_sig w =
     (let b = unat w mod 2147483648 in
      if b div 8388608 = 0 then b else b mod 8388608 + 8388608)"

definition f32_exp :: "float32 \<Rightarrow> int" where
  "f32_exp w =
     (let x = (unat w mod 2147483648) div 8388608 in if x = 0 then - 149 else int x - 150)"

definition f32_NaN :: float32 where
  "f32_NaN = 2143289344"

definition f32_add :: "float32 \<Rightarrow> float32 \<Rightarrow> float32" where
  "f32_add a b =
     (if f32_nan a \<or> f32_nan b then f32_NaN
      else if f32_inf a then (if f32_inf b \<and> f32_neg a \<noteq> f32_neg b then f32_NaN else a)
      else if f32_inf b then b
      else
        (let e = min (f32_exp a) (f32_exp b);
             x = int (f32_sig a) * 2 ^ nat (f32_exp a - e);
             y = int (f32_sig b) * 2 ^ nat (f32_exp b - e);
             s = (if f32_neg a then - x else x) + (if f32_neg b then - y else y)
         in if s = 0 then f32_bits (f32_neg a \<and> f32_neg b) 0
            else f32_round (s < 0) (nat \<bar>s\<bar>) e False))"

definition f32_mul :: "float32 \<Rightarrow> float32 \<Rightarrow> float32" where
  "f32_mul a b =
     (let neg = (f32_neg a \<noteq> f32_neg b) in
      if f32_nan a \<or> f32_nan b then f32_NaN
      else if f32_inf a \<or> f32_inf b then
        (if f32_sig a = 0 \<or> f32_sig b = 0 then f32_NaN else f32_bits neg 2139095040)
      else if f32_sig a = 0 \<or> f32_sig b = 0 then f32_bits neg 0
      else f32_round neg (f32_sig a * f32_sig b) (f32_exp a + f32_exp b) False)"

definition f32_div :: "float32 \<Rightarrow> float32 \<Rightarrow> float32" where
  "f32_div a b =
     (let neg = (f32_neg a \<noteq> f32_neg b) in
      if f32_nan a \<or> f32_nan b then f32_NaN
      else if f32_inf a then (if f32_inf b then f32_NaN else f32_bits neg 2139095040)
      else if f32_inf b then f32_bits neg 0
      else if f32_sig b = 0 then
        (if f32_sig a = 0 then f32_NaN else f32_bits neg 2139095040)
      else if f32_sig a = 0 then f32_bits neg 0
      else
        (let n = f32_sig a * 2 ^ 60 in
         f32_round neg (n div f32_sig b) (f32_exp a - f32_exp b - 60) (n mod f32_sig b \<noteq> 0)))"

text \<open>\<open>float32(n)\<close> of a non-negative integer.\<close>

definition f32_of_nat :: "nat \<Rightarrow> float32" where
  "f32_of_nat n = (if n = 0 then 0 else f32_round False n 0 False)"

text \<open>Evaluation of single operations on literals.\<close>

lemma bitlen_eval: "bitlen (Suc 0) = 1" "bitlen (numeral w) = Suc (bitlen (numeral w div 2))"
  by (subst bitlen.simps, simp add: bitlen.simps [of 0])+

lemmas f32_eval = f32_of_nat_def f32_round_def f32_add_def Let_def f32_nan_def f32_inf_def f32_div_def
  f32_mul_def f32_sig_def f32_exp_def f32_encode_def f32_bits_def f32_neg_def f32_lt_def f32_eq_def
  f32_key_def bitlen_eval

end
