(* ===== verification/Rec_Core.thy ===== *)
theory Rec_Core
  imports Go_Bytes Go_Strings Go_Float
begin

text \<open>
  Package \<open>record\<close>, first part: record ids (\<open>record/id.go\<close>), the kind and type vocabularies
  (\<open>record/kind.go\<close>), the memory record (\<open>record/memory.go\<close>) and the checks a memory passes
  before it is stored (\<open>record/validate.go\<close>). Times are milliseconds since Go's zero time, so
  the unset time is 0.
\<close>

section \<open>Record ids\<close>

type_synonym ID = bytes
type_synonym Kind = string
type_synonym RecType = string
type_synonym Time = int

definition IDSize :: nat where
  "IDSize = 16"

definition ID_IsZero :: "ID \<Rightarrow> bool" where
  "ID_IsZero i \<longleftrightarrow> i = replicate IDSize 0"

definition ID_String :: "ID \<Rightarrow> string" where
  "ID_String i = hex_encode i"

datatype id_error = NotHex | IDLength nat

definition ParseID :: "string \<Rightarrow> (id_error, ID) result" where
  "ParseID s =
     (case hex_decode s of
        None \<Rightarrow> Inl NotHex
      | Some b \<Rightarrow> if length b \<noteq> IDSize then Inl (IDLength (length b)) else Inr b)"

definition wf_id :: "ID \<Rightarrow> bool" where
  "wf_id i \<longleftrightarrow> length i = IDSize"

lemma ParseID_ID_String: "wf_id i \<Longrightarrow> ParseID (ID_String i) = Inr i"
  by (simp add: ParseID_def ID_String_def wf_id_def)

lemma ID_String_inj [simp]: "ID_String a = ID_String b \<longleftrightarrow> a = b"
  by (simp add: ID_String_def)

text \<open>Reading a hexadecimal digit back gives its lower-case form.\<close>

lemma hex_digit_value: "hex_value c = Some n \<Longrightarrow> hex_digit n = ascii_lower c"
proof -
  assume "hex_value c = Some n"
  then have "of_char (hex_digit n) = (of_char (ascii_lower c) :: nat)"
    by (auto simp: hex_value_def hex_digit_def ascii_lower_def Let_def split: if_splits)
  then show ?thesis by simp
qed

lemma hex_encode_decode: "hex_decode s = Some b \<Longrightarrow> hex_encode b = map ascii_lower s"
proof (induction s arbitrary: b rule: hex_decode.induct)
  case (3 c d cs)
  then obtain h l b' where hl: "hex_value c = Some h" "hex_value d = Some l"
    and b': "hex_decode cs = Some b'" and b: "b = of_nat (16 * h + l) # b'"
    by (auto split: option.splits)
  have lt: "h < 16" "l < 16"
    using hl by (auto dest: hex_value_less)
  then have "16 * h + l < 256" by linarith
  then have u: "unat (of_nat (16 * h + l) :: byte) = 16 * h + l"
    by (rule unat_of_nat_byte)
  have "(16 * h + l) div 16 = h" "(16 * h + l) mod 16 = l"
    using lt by simp_all
  then have "hex_encode b = hex_digit h # hex_digit l # hex_encode b'"
    unfolding b hex_encode.simps u by simp
  with hl "3.IH" [OF refl hl b'] show ?case
    by (simp add: hex_digit_value)
qed auto

text \<open>
  A record id survives its text form, and text that parses is the id's text form up to
  letter case: \<open>ParseID\<close> accepts exactly the 32-digit hexadecimal strings that name an id of
  16 bytes, and \<open>String\<close> of the result is the lower-case spelling of the input.
\<close>

theorem ParseID_roundtrip:
  "(wf_id i \<longrightarrow> ParseID (ID_String i) = Inr i) \<and>
   (ParseID s = Inr j \<longrightarrow> wf_id j \<and> length s = 32 \<and> ID_String j = map ascii_lower s)"
proof (intro conjI impI)
  assume "wf_id i"
  then show "ParseID (ID_String i) = Inr i" by (rule ParseID_ID_String)
next
  assume "ParseID s = Inr j"
  then have d: "hex_decode s = Some j" and l: "length j = IDSize"
    by (auto simp: ParseID_def split: option.splits if_splits)
  show "wf_id j" using l by (simp add: wf_id_def)
  show "length s = 32" using hex_decode_length [OF d] l by (simp add: IDSize_def)
  show "ID_String j = map ascii_lower s"
    unfolding ID_String_def by (rule hex_encode_decode [OF d])
qed

theorem ParseID_roundtrip_witness:
  "ParseID ''000102030405060708090A0B0C0D0E0F'' = Inr (map of_nat [0..<16]) \<and>
   ID_String (map of_nat [0..<16]) = ''000102030405060708090a0b0c0d0e0f''"
proof -
  have p: "ParseID ''000102030405060708090A0B0C0D0E0F'' = Inr (map of_nat [0..<16])"
    by (simp add: ParseID_def hex_value_def IDSize_def upt_rec)
  have "ID_String (map of_nat [0..<16]) = map ascii_lower ''000102030405060708090A0B0C0D0E0F''"
    using ParseID_roundtrip [of "[]" "''000102030405060708090A0B0C0D0E0F''" "map of_nat [0..<16]"] p
    by blast
  moreover have "map ascii_lower ''000102030405060708090A0B0C0D0E0F'' =
      ''000102030405060708090a0b0c0d0e0f''"
    by code_simp
  ultimately have "ID_String (map of_nat [0..<16]) = ''000102030405060708090a0b0c0d0e0f''"
    by simp
  with p show ?thesis by blast
qed

section \<open>Vocabularies\<close>

definition KindMemory :: Kind where "KindMemory = ''memory''"
definition KindSession :: Kind where "KindSession = ''session''"
definition KindChunk :: Kind where "KindChunk = ''chunk''"

lemmas kind_defs = KindMemory_def KindSession_def KindChunk_def

definition Types :: "RecType list" where
  "Types = [''fact'', ''preference'', ''insight'', ''doc'', ''profile'', ''correction'']"

fun member_loop :: "string list \<Rightarrow> string \<Rightarrow> bool" where
  "member_loop [] t = False"
| "member_loop (known # ks) t = (if t = known then True else member_loop ks t)"

lemma member_loop_iff [simp]: "member_loop ks t \<longleftrightarrow> t \<in> set ks"
  by (induction ks) auto

definition Type_Valid :: "RecType \<Rightarrow> bool" where
  "Type_Valid t = member_loop Types t"

section \<open>The memory record\<close>

definition SchemaVersion :: int where
  "SchemaVersion = 1"

record Entity =
  ent_Name :: string
  ent_Type :: string

record Source =
  src_Origin :: string
  src_SessionID :: string
  src_Span :: string
  src_Client :: string

record Embedding =
  emb_Model :: string
  emb_Dim :: int

record Memory =
  mem_ID :: ID
  mem_Kind :: Kind
  mem_Type :: RecType
  mem_SchemaVersion :: int
  mem_Version :: int
  mem_Statement :: string
  mem_Context :: string
  mem_Keywords :: "string list"
  mem_Tags :: "string list"
  mem_Entities :: "Entity list"
  mem_CreatedAt :: Time
  mem_UpdatedAt :: Time
  mem_ValidFrom :: "Time option"
  mem_ValidUntil :: "Time option"
  mem_LastRecalledAt :: "Time option"
  mem_RecallCount :: int
  mem_Importance :: float64
  mem_Confidence :: float64
  mem_Supersedes :: "ID option"
  mem_SupersededBy :: "ID option"
  mem_Links :: "string list"
  mem_Source :: Source
  mem_Embedding :: Embedding

definition Memory_IndexText :: "Memory \<Rightarrow> string" where
  "Memory_IndexText m =
     (if mem_Context m = [] then mem_Statement m
      else mem_Statement m @ [CHR 0x0A, CHR 0x0A] @ mem_Context m)"

section \<open>Validation of a memory\<close>

definition MaxStatementBytes :: nat where "MaxStatementBytes = 8192"
definition MaxContextBytes :: nat where "MaxContextBytes = 8192"
definition MaxTags :: nat where "MaxTags = 32"
definition MaxTagBytes :: nat where "MaxTagBytes = 64"

lemmas limit_defs = MaxStatementBytes_def MaxContextBytes_def MaxTags_def MaxTagBytes_def

text \<open>Why a record is refused: one constructor per \<open>ErrInvalid\<close> of the package.\<close>

datatype invalid =
    MissingId
  | WrongKind string
  | MissingSchemaVersion
  | UnknownType string
  | StatementEmpty
  | StatementLong nat
  | ContextEmpty
  | ContextLong nat
  | TooManyTags nat
  | EmptyTag
  | TagLong string nat
  | ImportanceRange
  | ConfidenceRange
  | ValidityInverted
  | MessageNoId
  | MessageIdLong nat
  | MessageRole string string
  | MessageNoParts string
  | MessageManyParts string nat
  | PartNoType string
  | PartNoCallId string string
  | WrongSchema string
  | ChunkNoSession
  | ChunkNegativeSeq int
  | ChunkNoMessages
  | VersionNotPositive int
  | UnknownSessionKind string
  | NoTitle
  | TitleLong nat
  | SummaryLong nat
  | SubagentWithoutParent
  | ChunkRefNoId nat
  | ChunkRefSeq nat int

text \<open>The loop over the tags, which memories and session heads share.\<close>

definition check_tag :: "string \<Rightarrow> invalid option" where
  "check_tag tag =
     (if TrimSpace tag = [] then Some EmptyTag
      else if length tag > MaxTagBytes then Some (TagLong tag (length tag))
      else None)"

definition Memory_Validate :: "Memory \<Rightarrow> invalid option" where
  "Memory_Validate m =
     (if ID_IsZero (mem_ID m) then Some MissingId
      else if mem_Kind m \<noteq> KindMemory then Some (WrongKind (mem_Kind m))
      else if mem_SchemaVersion m \<le> 0 then Some MissingSchemaVersion
      else if \<not> Type_Valid (mem_Type m) then Some (UnknownType (mem_Type m))
      else if TrimSpace (mem_Statement m) = [] then Some StatementEmpty
      else if length (mem_Statement m) > MaxStatementBytes
        then Some (StatementLong (length (mem_Statement m)))
      else if TrimSpace (mem_Context m) = [] then Some ContextEmpty
      else if length (mem_Context m) > MaxContextBytes
        then Some (ContextLong (length (mem_Context m)))
      else if length (mem_Tags m) > MaxTags then Some (TooManyTags (length (mem_Tags m)))
      else case check_all check_tag (mem_Tags m) of
        Some e \<Rightarrow> Some e
      | None \<Rightarrow>
          (if f64_lt (mem_Importance m) 0 \<or> f64_lt f64_one (mem_Importance m)
             then Some ImportanceRange
           else if f64_lt (mem_Confidence m) 0 \<or> f64_lt f64_one (mem_Confidence m)
             then Some ConfidenceRange
           else case (mem_ValidFrom m, mem_ValidUntil m) of
             (Some f, Some u) \<Rightarrow> if u < f then Some ValidityInverted else None
           | _ \<Rightarrow> None))"

definition wf_tags :: "string list \<Rightarrow> bool" where
  "wf_tags tags \<longleftrightarrow>
     length tags \<le> MaxTags \<and> (\<forall>t \<in> set tags. TrimSpace t \<noteq> [] \<and> length t \<le> MaxTagBytes)"

lemma check_tag_None_iff:
  "check_tag t = None \<longleftrightarrow> TrimSpace t \<noteq> [] \<and> length t \<le> MaxTagBytes"
  by (auto simp: check_tag_def)

lemma check_tags_None_iff:
  "length tags \<le> MaxTags \<and> check_all check_tag tags = None \<longleftrightarrow> wf_tags tags"
  by (auto simp: wf_tags_def check_all_None_iff check_tag_None_iff)

text \<open>A score a caller may give: not below 0 and not above 1, which a NaN satisfies too.\<close>

definition score_in_range :: "float64 \<Rightarrow> bool" where
  "score_in_range x \<longleftrightarrow> \<not> f64_lt x 0 \<and> \<not> f64_lt f64_one x"

definition wf_memory :: "Memory \<Rightarrow> bool" where
  "wf_memory m \<longleftrightarrow>
     \<not> ID_IsZero (mem_ID m) \<and> mem_Kind m = KindMemory \<and> 0 < mem_SchemaVersion m \<and>
     mem_Type m \<in> set Types \<and>
     TrimSpace (mem_Statement m) \<noteq> [] \<and> length (mem_Statement m) \<le> MaxStatementBytes \<and>
     TrimSpace (mem_Context m) \<noteq> [] \<and> length (mem_Context m) \<le> MaxContextBytes \<and>
     wf_tags (mem_Tags m) \<and>
     score_in_range (mem_Importance m) \<and> score_in_range (mem_Confidence m) \<and>
     (\<forall>f u. mem_ValidFrom m = Some f \<and> mem_ValidUntil m = Some u \<longrightarrow> f \<le> u)"

text \<open>
  \<open>Memory.Validate\<close> accepts exactly the well-formed memories: an id, the memory kind, a
  schema version, a type of the closed vocabulary, a statement and a context that are neither
  blank nor over their limits, at most 32 tags none of which is blank or over 64 bytes, scores
  that are not outside [0, 1], and a validity interval that does not end before it starts.
\<close>

theorem Memory_Validate_correct: "Memory_Validate m = None \<longleftrightarrow> wf_memory m"
  unfolding Memory_Validate_def wf_memory_def Type_Valid_def member_loop_iff score_in_range_def
    check_tags_None_iff [symmetric]
  by (auto split: option.splits if_splits)

text \<open>
  A memory whose importance is not a number passes validation: both comparisons of the range
  check are false on a NaN.
\<close>

theorem Validate_accepts_NaN:
  "Memory_Validate m = None \<Longrightarrow>
   Memory_Validate (m\<lparr>mem_Importance := 9221120237041090561\<rparr>) = None"
  by (simp add: Memory_Validate_correct wf_memory_def score_in_range_def f64_lt_def f64_nan_def)

end
