(* ===== verification/Rec_Message.thy ===== *)
theory Rec_Message
  imports Rec_Core
begin

text \<open>
  Package \<open>record\<close>, second part: the messages of a transcript (\<open>record/message.go\<close>), the
  chunks that hold them (\<open>record/chunk.go\<close>) and the spans that name a run of turns
  (\<open>record/span.go\<close>). A part is one constructor with the fifteen fields of the Go struct; its
  \<open>Content\<close> is again a list of parts, so the walks over parts are recursive as in the code.
\<close>

section \<open>Messages and parts\<close>

definition MessageSchema :: string where
  "MessageSchema = ''sennit.session/1''"

type_synonym Role = string
type_synonym PartType = string
type_synonym Ext = "string \<rightharpoonup> string"

definition Roles :: "Role list" where
  "Roles = [''user'', ''assistant'', ''system'', ''tool'']"

definition Role_Valid :: "Role \<Rightarrow> bool" where
  "Role_Valid r = member_loop Roles r"

definition PartToolCall :: PartType where "PartToolCall = ''toolCall''"
definition PartToolResult :: PartType where "PartToolResult = ''toolResult''"

definition PartTypes :: "PartType list" where
  "PartTypes = [''text'', ''reasoning'', PartToolCall, PartToolResult, ''file'', ''resourceLink'']"

definition PartType_Valid :: "PartType \<Rightarrow> bool" where
  "PartType_Valid t = member_loop PartTypes t"

datatype Part = Part
  (part_Type: PartType)
  (part_Text: string)
  (part_Signature: string)
  (part_CallID: string)
  (part_Name: string)
  (part_Input: string)
  (part_Content: "Part list")
  (part_IsError: bool)
  (part_MediaType: string)
  (part_Ref: string)
  (part_Filename: string)
  (part_Bytes: int)
  (part_SHA256: string)
  (part_URI: string)
  (part_Ext: Ext)

text \<open>The zero value of the struct.\<close>

definition zero_Part :: Part where
  "zero_Part = Part [] [] [] [] [] [] [] False [] [] [] 0 [] [] Map.empty"

record Usage =
  use_InputTokens :: int
  use_OutputTokens :: int
  use_CacheReadTokens :: int
  use_CacheWriteTokens :: int
  use_ReasoningTokens :: int

record MessageMeta =
  meta_Model :: string
  meta_StopReason :: string
  meta_Usage :: Usage
  meta_Agent :: string
  meta_Skill :: string
  meta_MemoryRefs :: "ID list"

record Message =
  msg_ID :: string
  msg_Role :: Role
  msg_Parts :: "Part list"
  msg_Created :: Time
  msg_Parent :: string
  msg_Meta :: MessageMeta
  msg_Ext :: Ext

lemma part_Content_size: "q \<in> set (part_Content p) \<Longrightarrow> size q < size p"
  using size_list_estimation' [of q "part_Content p" "size q" size]
  by (cases p) simp

section \<open>Validation of a message\<close>

definition MaxMessageIDBytes :: nat where "MaxMessageIDBytes = 256"
definition MaxPartsPerMessage :: nat where "MaxPartsPerMessage = 1024"

function Part_validate :: "string \<Rightarrow> Part \<Rightarrow> invalid option" where
  "Part_validate messageID p =
     (if TrimSpace (part_Type p) = [] then Some (PartNoType messageID)
      else if (part_Type p = PartToolCall \<or> part_Type p = PartToolResult) \<and>
              TrimSpace (part_CallID p) = []
        then Some (PartNoCallId messageID (part_Type p))
      else check_all (Part_validate messageID) (part_Content p))"
  by pat_completeness auto
termination
  by (relation "measure (\<lambda>(m, p). size p)") (auto simp: part_Content_size)

declare Part_validate.simps [simp del]

definition Message_Validate :: "Message \<Rightarrow> invalid option" where
  "Message_Validate m =
     (if TrimSpace (msg_ID m) = [] then Some MessageNoId
      else if length (msg_ID m) > MaxMessageIDBytes then Some (MessageIdLong (length (msg_ID m)))
      else if \<not> Role_Valid (msg_Role m) then Some (MessageRole (msg_ID m) (msg_Role m))
      else if length (msg_Parts m) = 0 then Some (MessageNoParts (msg_ID m))
      else if length (msg_Parts m) > MaxPartsPerMessage
        then Some (MessageManyParts (msg_ID m) (length (msg_Parts m)))
      else check_all (Part_validate (msg_ID m)) (msg_Parts m))"

text \<open>
  Every part of a message, nested ones included, in the order a walk meets them: a part
  before its content, its content before the next part.
\<close>

function parts_flat :: "Part list \<Rightarrow> Part list" where
  "parts_flat [] = []"
| "parts_flat (p # ps) = p # parts_flat (part_Content p) @ parts_flat ps"
  by pat_completeness auto
termination
proof (relation "measure (size_list size)")
  fix p :: Part and ps :: "Part list"
  show "(part_Content p, p # ps) \<in> measure (size_list size)"
    by (cases p) simp
qed simp_all

lemma parts_flat_append [simp]: "parts_flat (ps @ qs) = parts_flat ps @ parts_flat qs"
  by (induction ps) auto

lemma set_parts_flat: "set (parts_flat ps) = (\<Union>p \<in> set ps. insert p (set (parts_flat (part_Content p))))"
  by (induction ps) auto

definition wf_part :: "Part \<Rightarrow> bool" where
  "wf_part p \<longleftrightarrow>
     TrimSpace (part_Type p) \<noteq> [] \<and>
     (part_Type p \<in> {PartToolCall, PartToolResult} \<longrightarrow> TrimSpace (part_CallID p) \<noteq> [])"

lemma Part_validate_None_iff:
  "Part_validate mid p = None \<longleftrightarrow> wf_part p \<and> (\<forall>q \<in> set (parts_flat (part_Content p)). wf_part q)"
proof (induction "size p" arbitrary: p rule: less_induct)
  case less
  have IH: "Part_validate mid q = None \<longleftrightarrow>
      wf_part q \<and> (\<forall>r \<in> set (parts_flat (part_Content q)). wf_part r)"
    if "q \<in> set (part_Content p)" for q
    by (rule less.hyps) (rule part_Content_size [OF that])
  have "Part_validate mid p = None \<longleftrightarrow>
      wf_part p \<and> (\<forall>q \<in> set (part_Content p). Part_validate mid q = None)"
    by (subst Part_validate.simps) (auto simp: wf_part_def check_all_None_iff)
  also have "\<dots> \<longleftrightarrow> wf_part p \<and> (\<forall>q \<in> set (parts_flat (part_Content p)). wf_part q)"
    by (auto simp: IH set_parts_flat [of "part_Content p"])
  finally show ?case .
qed

definition wf_message :: "Message \<Rightarrow> bool" where
  "wf_message m \<longleftrightarrow>
     TrimSpace (msg_ID m) \<noteq> [] \<and> length (msg_ID m) \<le> MaxMessageIDBytes \<and>
     msg_Role m \<in> set Roles \<and>
     msg_Parts m \<noteq> [] \<and> length (msg_Parts m) \<le> MaxPartsPerMessage \<and>
     (\<forall>p \<in> set (parts_flat (msg_Parts m)). wf_part p)"

lemma Message_Validate_None_iff: "Message_Validate m = None \<longleftrightarrow> wf_message m"
proof -
  have "check_all (Part_validate (msg_ID m)) (msg_Parts m) = None \<longleftrightarrow>
      (\<forall>p \<in> set (parts_flat (msg_Parts m)). wf_part p)"
    by (auto simp: check_all_None_iff Part_validate_None_iff set_parts_flat [of "msg_Parts m"])
  then show ?thesis
    by (auto simp: Message_Validate_def wf_message_def Role_Valid_def)
qed

text \<open>
  \<open>Message.Validate\<close> accepts exactly the messages with an id that is neither blank nor
  over its limit, a role of the vocabulary, between 1 and 1024 parts, and, at every depth of
  nesting, parts that have a type and, for tool calls and results, a correlation id.
\<close>

theorem Message_Validate_correct: "Message_Validate m = None \<longleftrightarrow> wf_message m"
  by (rule Message_Validate_None_iff)

section \<open>Tool exchanges\<close>

record ToolExchange =
  tx_CallID :: string
  tx_Name :: string
  tx_CallMessage :: string
  tx_ResultMessage :: string
  tx_Call :: Part
  tx_Result :: Part
  tx_Matched :: bool

definition zero_ToolExchange :: ToolExchange where
  "zero_ToolExchange =
     \<lparr>tx_CallID = [], tx_Name = [], tx_CallMessage = [], tx_ResultMessage = [],
      tx_Call = zero_Part, tx_Result = zero_Part, tx_Matched = False\<rparr>"

text \<open>The two variables the closure captures: \<open>order\<close> and \<open>byCall\<close>.\<close>

type_synonym exchanges = "string list \<times> (string \<rightharpoonup> ToolExchange)"

definition visit_part :: "string \<Rightarrow> Part \<Rightarrow> exchanges \<Rightarrow> exchanges" where
  "visit_part messageID part s =
     (let (order, byCall) = s; cid = part_CallID part in
      if part_Type part = PartToolCall then
        (case byCall cid of
           Some _ \<Rightarrow> (order, byCall)
         | None \<Rightarrow>
             (order @ [cid],
              byCall(cid \<mapsto> zero_ToolExchange
                \<lparr>tx_CallID := cid, tx_Name := part_Name part, tx_CallMessage := messageID,
                 tx_Call := part\<rparr>)))
      else if part_Type part = PartToolResult then
        (let (order', exchange) =
           (case byCall cid of
              Some exchange \<Rightarrow> (order, exchange)
            | None \<Rightarrow> (order @ [cid], zero_ToolExchange\<lparr>tx_CallID := cid\<rparr>))
         in (order', byCall(cid \<mapsto> exchange
              \<lparr>tx_ResultMessage := messageID, tx_Result := part, tx_Matched := True\<rparr>)))
      else s)"

function walk_parts :: "string \<Rightarrow> Part list \<Rightarrow> exchanges \<Rightarrow> exchanges" where
  "walk_parts messageID [] s = s"
| "walk_parts messageID (part # parts) s =
     (let s' = visit_part messageID part s;
          s'' = (if length (part_Content part) > 0
                 then walk_parts messageID (part_Content part) s' else s')
      in walk_parts messageID parts s'')"
  by pat_completeness auto
termination
proof (relation "measure (\<lambda>(m, ps, s). size_list size ps)")
  fix m :: string and p :: Part and ps :: "Part list" and s x :: exchanges
  show "((m, part_Content p, x), m, p # ps, s) \<in> measure (\<lambda>(m, ps, s). size_list size ps)"
    by (cases p) simp
qed simp_all

definition ToolExchanges :: "Message list \<Rightarrow> ToolExchange list" where
  "ToolExchanges messages =
     (let (order, byCall) =
        fold (\<lambda>m s. walk_parts (msg_ID m) (msg_Parts m) s) messages ([], Map.empty)
      in map (\<lambda>callID. the (byCall callID)) order)"

text \<open>
  The specification: over the parts of the messages in walking order, with the message each
  was found in, one exchange per correlation id in the order the ids are first met. The call
  is the first tool part with the id when that is a call; the result is the last result with
  the id.
\<close>

definition tool_events :: "Message list \<Rightarrow> (string \<times> Part) list" where
  "tool_events messages =
     filter (\<lambda>(m, p). part_Type p \<in> {PartToolCall, PartToolResult})
       (concat (map (\<lambda>m. map (Pair (msg_ID m)) (parts_flat (msg_Parts m))) messages))"

definition exchange_spec :: "(string \<times> Part) list \<Rightarrow> string \<Rightarrow> ToolExchange" where
  "exchange_spec evs cid =
     (let mine = filter (\<lambda>(m, p). part_CallID p = cid) evs;
          (m0, p0) = hd mine;
          results = filter (\<lambda>(m, p). part_Type p = PartToolResult) mine;
          called = (if part_Type p0 = PartToolCall
             then zero_ToolExchange\<lparr>tx_CallID := cid, tx_Name := part_Name p0,
                    tx_CallMessage := m0, tx_Call := p0\<rparr>
             else zero_ToolExchange\<lparr>tx_CallID := cid\<rparr>)
      in if results = [] then called
         else called\<lparr>tx_ResultMessage := fst (last results), tx_Result := snd (last results),
                tx_Matched := True\<rparr>)"

lemma walk_parts_fold: "walk_parts mid ps s = fold (visit_part mid) (parts_flat ps) s"
  by (induction mid ps s rule: walk_parts.induct) (auto simp: Let_def)

lemma visit_part_skip:
  "part_Type p \<noteq> PartToolCall \<Longrightarrow> part_Type p \<noteq> PartToolResult \<Longrightarrow> visit_part mid p s = s"
  by (auto simp: visit_part_def Let_def split: prod.splits)

lemma tool_types_distinct [simp]: "PartToolCall \<noteq> PartToolResult" "PartToolResult \<noteq> PartToolCall"
  by (simp_all add: PartToolCall_def PartToolResult_def)

lemma fold_visit_filter:
  "fold (\<lambda>(m, p). visit_part m p) evs s =
   fold (\<lambda>(m, p). visit_part m p)
     (filter (\<lambda>(m, p). part_Type p \<in> {PartToolCall, PartToolResult}) evs) s"
proof (induction evs arbitrary: s)
  case (Cons e evs)
  obtain m p where e: "e = (m, p)" by (cases e)
  show ?case
    by (cases "part_Type p \<in> {PartToolCall, PartToolResult}")
      (auto simp: e visit_part_skip Cons.IH)
qed simp

lemma fold_messages_events:
  "fold (\<lambda>m s. walk_parts (msg_ID m) (msg_Parts m) s) messages s =
   fold (\<lambda>(m, p). visit_part m p) (tool_events messages) s"
proof -
  have "fold (visit_part mid) ps s = fold (\<lambda>(m, p). visit_part m p) (map (Pair mid) ps) s"
    for mid ps s
    by (induction ps arbitrary: s) auto
  then have "fold (\<lambda>m s. walk_parts (msg_ID m) (msg_Parts m) s) messages s =
      fold (\<lambda>(m, p). visit_part m p)
        (concat (map (\<lambda>m. map (Pair (msg_ID m)) (parts_flat (msg_Parts m))) messages)) s"
    by (induction messages arbitrary: s) (auto simp: walk_parts_fold)
  then show ?thesis
    unfolding tool_events_def by (simp only: fold_visit_filter [symmetric])
qed

lemma visit_events:
  assumes "\<forall>(m, p) \<in> set evs. part_Type p \<in> {PartToolCall, PartToolResult}"
  defines "ids \<equiv> map (part_CallID \<circ> snd) evs"
  shows "fold (\<lambda>(m, p). visit_part m p) evs ([], Map.empty) =
    (firsts ids, \<lambda>cid. if cid \<in> set ids then Some (exchange_spec evs cid) else None)"
  using assms(1) unfolding ids_def
proof (induction evs rule: rev_induct)
  case (snoc e evs)
  obtain m p where e: "e = (m, p)" by (cases e)
  let ?ids = "map (part_CallID \<circ> snd) evs"
  have ty: "part_Type p = PartToolCall \<or> part_Type p = PartToolResult"
    using snoc.prems e by auto
  have other: "exchange_spec (evs @ [e]) cid = exchange_spec evs cid" if "cid \<noteq> part_CallID p" for cid
    using that by (simp add: exchange_spec_def e)
  have mem: "cid \<in> set ?ids \<longleftrightarrow> filter (\<lambda>(m, p). part_CallID p = cid) evs \<noteq> []" for cid
    by (force simp: filter_empty_conv)
  have old: "exchange_spec (evs @ [e]) (part_CallID p) =
      (if part_Type p = PartToolCall then exchange_spec evs (part_CallID p)
       else (exchange_spec evs (part_CallID p))
         \<lparr>tx_ResultMessage := m, tx_Result := p, tx_Matched := True\<rparr>)"
    if "part_CallID p \<in> set ?ids"
    using that ty unfolding mem
    by (auto simp: exchange_spec_def e hd_append Let_def split: prod.splits)
  have same: "exchange_spec (evs @ [e]) cid = exchange_spec evs cid"
    if "part_CallID p \<in> set ?ids" "part_Type p = PartToolCall" for cid
    using that other old by (cases "cid = part_CallID p") simp_all
  have new: "exchange_spec (evs @ [e]) (part_CallID p) =
      (if part_Type p = PartToolCall
       then zero_ToolExchange\<lparr>tx_CallID := part_CallID p, tx_Name := part_Name p,
              tx_CallMessage := m, tx_Call := p\<rparr>
       else zero_ToolExchange\<lparr>tx_CallID := part_CallID p, tx_ResultMessage := m,
              tx_Result := p, tx_Matched := True\<rparr>)"
    if "part_CallID p \<notin> set ?ids"
    using that ty unfolding mem
    by (auto simp: exchange_spec_def e)
  have IH: "fold (\<lambda>(m, p). visit_part m p) evs ([], Map.empty) =
      (firsts ?ids, \<lambda>cid. if cid \<in> set ?ids then Some (exchange_spec evs cid) else None)"
    using snoc.prems by (intro snoc.IH) simp
  have "fold (\<lambda>(m, p). visit_part m p) (evs @ [e]) ([], Map.empty) =
      visit_part m p (firsts ?ids, \<lambda>cid. if cid \<in> set ?ids then Some (exchange_spec evs cid) else None)"
    by (simp only: fold_append IH comp_apply) (simp add: e)
  also have "\<dots> = (firsts (?ids @ [part_CallID p]),
      \<lambda>cid. if cid \<in> set (?ids @ [part_CallID p]) then Some (exchange_spec (evs @ [e]) cid) else None)"
    using ty
    by (cases "part_CallID p \<in> set ?ids")
      (auto simp: visit_part_def Let_def firsts_snoc fun_eq_iff other old same new simp del: set_map)
  finally show ?case by (simp add: e o_def)
qed simp

text \<open>
  \<open>ToolExchanges\<close> returns, for every correlation id that occurs in a tool part at any
  depth of any message, exactly one exchange, in the order the ids are first met; the exchange
  is the one the specification gives: the call is the first part with the id when that part is
  a call, the result is the last result with the id, and it is matched exactly when there is
  a result.
\<close>

theorem ToolExchanges_correct:
  "ToolExchanges messages =
     map (exchange_spec (tool_events messages))
       (firsts (map (part_CallID \<circ> snd) (tool_events messages)))"
proof -
  have "\<forall>(m, p) \<in> set (tool_events messages). part_Type p \<in> {PartToolCall, PartToolResult}"
    by (auto simp: tool_events_def)
  then show ?thesis
    unfolding ToolExchanges_def fold_messages_events
    by (subst visit_events) (simp_all add: Let_def)
qed

end
