(* ===== verification/Rec_Chunk.thy ===== *)
theory Rec_Chunk
  imports Rec_Message
begin

text \<open>
  Package \<open>record\<close>, third part: the chunks a transcript is stored in (\<open>record/chunk.go\<close>) and
  the spans that name a run of its turns (\<open>record/span.go\<close>). The JSON encoder a message is
  measured with is the argument \<open>marshal\<close>.
\<close>

section \<open>Chunks\<close>

definition ChunkTargetBytes :: int where
  "ChunkTargetBytes = 262144"

record Chunk =
  chk_ID :: ID
  chk_Kind :: Kind
  chk_Schema :: string
  chk_SchemaVersion :: int
  chk_Session :: ID
  chk_Seq :: int
  chk_Messages :: "Message list"

record ChunkRef =
  ref_ID :: ID
  ref_Seq :: int
  ref_First :: string
  ref_Last :: string
  ref_N :: int
  ref_Bytes :: int
  ref_CID :: string

definition Chunk_Validate :: "Chunk \<Rightarrow> invalid option" where
  "Chunk_Validate c =
     (if ID_IsZero (chk_ID c) then Some MissingId
      else if chk_Kind c \<noteq> KindChunk then Some (WrongKind (chk_Kind c))
      else if chk_Schema c \<noteq> MessageSchema then Some (WrongSchema (chk_Schema c))
      else if chk_SchemaVersion c \<le> 0 then Some MissingSchemaVersion
      else if ID_IsZero (chk_Session c) then Some ChunkNoSession
      else if chk_Seq c < 0 then Some (ChunkNegativeSeq (chk_Seq c))
      else if length (chk_Messages c) = 0 then Some ChunkNoMessages
      else check_all Message_Validate (chk_Messages c))"

definition messageBytes :: "(Message \<Rightarrow> ('e, bytes) result) \<Rightarrow> Message \<Rightarrow> ('e, int) result" where
  "messageBytes marshal m = bind_result (marshal m) (\<lambda>encoded. Inr (int (length encoded)))"

fun split_loop ::
  "(Message \<Rightarrow> ('e, bytes) result) \<Rightarrow> int \<Rightarrow> Message list list \<Rightarrow> Message list \<Rightarrow> int \<Rightarrow>
   Message list \<Rightarrow> ('e, Message list list) result" where
  "split_loop marshal target out grp groupBytes [] =
     Inr (if length grp > 0 then out @ [grp] else out)"
| "split_loop marshal target out grp groupBytes (m # ms) =
     bind_result (messageBytes marshal m) (\<lambda>size.
       let (out', grp', groupBytes') =
         (if length grp > 0 \<and> groupBytes + size > target then (out @ [grp], [], 0)
          else (out, grp, groupBytes))
       in split_loop marshal target out' (grp' @ [m]) (groupBytes' + size) ms)"

definition SplitMessages ::
  "(Message \<Rightarrow> ('e, bytes) result) \<Rightarrow> Message list \<Rightarrow> int \<Rightarrow> ('e, Message list list) result" where
  "SplitMessages marshal messages target =
     split_loop marshal (if target \<le> 0 then ChunkTargetBytes else target) [] [] 0 messages"

text \<open>What a chunk has to satisfy, and the stored size of a message and of a group.\<close>

definition wf_chunk :: "Chunk \<Rightarrow> bool" where
  "wf_chunk c \<longleftrightarrow>
     \<not> ID_IsZero (chk_ID c) \<and> chk_Kind c = KindChunk \<and> chk_Schema c = MessageSchema \<and>
     0 < chk_SchemaVersion c \<and> \<not> ID_IsZero (chk_Session c) \<and> 0 \<le> chk_Seq c \<and>
     chk_Messages c \<noteq> [] \<and> (\<forall>m \<in> set (chk_Messages c). wf_message m)"

text \<open>
  \<open>Chunk.Validate\<close> accepts exactly the chunks that carry an id, the chunk kind, the
  message schema of this build, a schema version, a session, a sequence number that is not
  negative, and at least one message, every one of them well formed.
\<close>

theorem Chunk_Validate_correct: "Chunk_Validate c = None \<longleftrightarrow> wf_chunk c"
  by (auto simp: Chunk_Validate_def wf_chunk_def check_all_None_iff Message_Validate_None_iff)

section \<open>Splitting a run of messages\<close>

definition stored_size :: "(Message \<Rightarrow> ('e, bytes) result) \<Rightarrow> Message \<Rightarrow> int" where
  "stored_size marshal m = (case marshal m of Inl _ \<Rightarrow> 0 | Inr b \<Rightarrow> int (length b))"

definition group_size :: "(Message \<Rightarrow> ('e, bytes) result) \<Rightarrow> Message list \<Rightarrow> int" where
  "group_size marshal g = sum_list (map (stored_size marshal) g)"

text \<open>
  A division into groups none of which is empty, of which only a group of one message exceeds
  the target, and of which each would exceed the target with the next group's first message.
\<close>

definition good_split :: "(Message \<Rightarrow> ('e, bytes) result) \<Rightarrow> int \<Rightarrow> Message list list \<Rightarrow> bool" where
  "good_split marshal target gs \<longleftrightarrow>
     (\<forall>g \<in> set gs. g \<noteq> [] \<and> (length g = 1 \<or> group_size marshal g \<le> target)) \<and>
     successively (\<lambda>g h. target < group_size marshal g + stored_size marshal (hd h)) gs"

lemma messageBytes_Inr_iff:
  "messageBytes marshal m = Inr n \<longleftrightarrow> is_ok (marshal m) \<and> n = stored_size marshal m"
  by (cases "marshal m") (auto simp: messageBytes_def stored_size_def)

lemma good_split_snoc:
  "good_split marshal t (gs @ [g]) \<longleftrightarrow>
     good_split marshal t gs \<and> g \<noteq> [] \<and> (length g = 1 \<or> group_size marshal g \<le> t) \<and>
     (gs = [] \<or> t < group_size marshal (last gs) + stored_size marshal (hd g))"
  by (auto simp: good_split_def successively_append_iff)

text \<open>
  The loop invariant: what is finished together with the open group is a good division, and
  \<open>groupBytes\<close> is the size of the open group, which is only empty at the start.
\<close>

lemma split_loop_good:
  assumes "split_loop marshal t out grp gb ms = Inr gs"
    and "gb = group_size marshal grp"
    and "if grp = [] then out = [] else good_split marshal t (out @ [grp])"
  shows "concat gs = concat out @ grp @ ms \<and> good_split marshal t gs"
  using assms
proof (induction ms arbitrary: out grp gb)
  case Nil
  then show ?case
    by (auto simp: good_split_def split: if_splits)
next
  case (Cons m ms)
  define s where "s = stored_size marshal m"
  have sz: "messageBytes marshal m = Inr s"
    using Cons.prems(1) by (auto simp: bind_result_Inr_iff messageBytes_Inr_iff s_def)
  let ?cut = "grp \<noteq> [] \<and> gb + s > t"
  let ?out = "if ?cut then out @ [grp] else out"
  let ?grp = "(if ?cut then [] else grp) @ [m]"
  have run: "split_loop marshal t ?out ?grp (group_size marshal ?grp) ms = Inr gs"
    using Cons.prems(1,2) sz by (auto simp: group_size_def s_def split: if_splits)
  have good: "good_split marshal t (?out @ [?grp])"
    using Cons.prems(2,3)
    by (auto simp: good_split_snoc s_def group_size_def good_split_def [of _ _ "[]"] split: if_splits)
  have "concat gs = concat ?out @ ?grp @ ms \<and> good_split marshal t gs"
    by (rule Cons.IH [OF run refl]) (use good in simp)
  then show ?case by (auto split: if_splits)
qed

lemma split_loop_total:
  "is_ok (split_loop marshal t out grp gb ms) \<longleftrightarrow> (\<forall>m \<in> set ms. is_ok (marshal m))"
proof (induction ms arbitrary: out grp gb)
  case (Cons m ms)
  show ?case
    by (cases "marshal m") (auto simp: Cons.IH messageBytes_def Let_def split: prod.splits if_splits)
qed simp

text \<open>
  C40. \<open>SplitMessages\<close> fails exactly when some message cannot be encoded. When it succeeds the
  groups, put one after the other, are the messages in order, no message is split or lost, no
  group is empty, a group exceeds the target only when it is a single message, and no group
  could have taken the next message: the division is the greedy one. A target that is not
  positive stands for 256 KiB.
\<close>

theorem SplitMessages_correct:
  "(is_ok (SplitMessages marshal messages target) \<longleftrightarrow> (\<forall>m \<in> set messages. is_ok (marshal m))) \<and>
   (SplitMessages marshal messages target = Inr gs \<longrightarrow>
      concat gs = messages \<and>
      good_split marshal (if target \<le> 0 then ChunkTargetBytes else target) gs)"
  unfolding SplitMessages_def
  by (auto simp: split_loop_total group_size_def dest!: split_loop_good)

text \<open>A message with an id and nothing else, and an encoder whose output is the id.\<close>

definition sample_message :: "string \<Rightarrow> Message" where
  "sample_message i =
     \<lparr>msg_ID = i, msg_Role = ''user'', msg_Parts = [], msg_Created = 0, msg_Parent = [],
      msg_Meta = \<lparr>meta_Model = [], meta_StopReason = [],
        meta_Usage = \<lparr>use_InputTokens = 0, use_OutputTokens = 0, use_CacheReadTokens = 0,
          use_CacheWriteTokens = 0, use_ReasoningTokens = 0\<rparr>,
        meta_Agent = [], meta_Skill = [], meta_MemoryRefs = []\<rparr>, msg_Ext = Map.empty\<rparr>"

definition sample_marshal :: "Message \<Rightarrow> (unit, bytes) result" where
  "sample_marshal m = Inr (string_bytes (msg_ID m))"

theorem SplitMessages_correct_witness:
  "SplitMessages sample_marshal (map sample_message [''aa'', ''b'', ''cccccc'', ''d'']) 4 =
     Inr (map (map sample_message) [[''aa'', ''b''], [''cccccc''], [''d'']]) \<and>
   good_split sample_marshal 4 (map (map sample_message) [[''aa'', ''b''], [''cccccc''], [''d'']])"
proof -
  have run: "SplitMessages sample_marshal (map sample_message [''aa'', ''b'', ''cccccc'', ''d'']) 4 =
     Inr (map (map sample_message) [[''aa'', ''b''], [''cccccc''], [''d'']])"
    by (simp add: SplitMessages_def messageBytes_def sample_marshal_def sample_message_def)
  then show ?thesis
    using SplitMessages_correct [of sample_marshal
        "map sample_message [''aa'', ''b'', ''cccccc'', ''d'']" 4
        "map (map sample_message) [[''aa'', ''b''], [''cccccc''], [''d'']]"]
    by simp
qed

section \<open>Spans\<close>

definition spanSeparator :: string where
  "spanSeparator = ''..''"

record Span =
  sp_First :: string
  sp_Last :: string

definition NewSpan :: "string \<Rightarrow> string \<Rightarrow> Span" where
  "NewSpan fst_id lst_id = \<lparr>sp_First = fst_id, sp_Last = lst_id\<rparr>"

definition ParseSpan :: "string \<Rightarrow> Span" where
  "ParseSpan s0 =
     (let s = TrimSpace s0 in
      if s = [] then NewSpan [] []
      else case Cut spanSeparator s of
        None \<Rightarrow> NewSpan s s
      | Some (first0, last0) \<Rightarrow>
          (let first1 = TrimSpace first0; last1 = TrimSpace last0
           in NewSpan first1 (if last1 = [] then first1 else last1)))"

definition Span_String :: "Span \<Rightarrow> string" where
  "Span_String s =
     (if sp_First s = [] \<and> sp_Last s = [] then []
      else if sp_First s = sp_Last s then sp_First s
      else sp_First s @ spanSeparator @ sp_Last s)"

definition Span_Empty :: "Span \<Rightarrow> bool" where
  "Span_Empty s \<longleftrightarrow> sp_First s = [] \<and> sp_Last s = []"

text \<open>The position of the first message with an id, as the two loops of \<open>Select\<close> find it.\<close>

fun find_message :: "string \<Rightarrow> nat \<Rightarrow> Message list \<Rightarrow> nat option" where
  "find_message x i [] = None"
| "find_message x i (m # ms) = (if msg_ID m = x then Some i else find_message x (i + 1) ms)"

definition Span_Select :: "Span \<Rightarrow> Message list \<Rightarrow> Message list" where
  "Span_Select s messages =
     (if Span_Empty s then []
      else case find_message (sp_First s) 0 messages of
        None \<Rightarrow> []
      | Some first \<Rightarrow>
          (let last_pos = (case find_message (sp_Last s) first (drop first messages) of
                             None \<Rightarrow> first | Some i \<Rightarrow> i)
           in drop first (take (last_pos + 1) messages)))"

text \<open>
  When a span's ends can be written and read back: both are set and carry no surrounding
  space, the first holds no separator and does not end in a dot that would move it.
\<close>

definition span_writable :: "Span \<Rightarrow> bool" where
  "span_writable s \<longleftrightarrow>
     Span_Empty s \<or>
     sp_First s \<noteq> [] \<and> sp_Last s \<noteq> [] \<and>
     TrimSpace (sp_First s) = sp_First s \<and> TrimSpace (sp_Last s) = sp_Last s \<and>
     Cut spanSeparator (sp_First s) = None \<and>
     (sp_First s \<noteq> sp_Last s \<longrightarrow> last (sp_First s) \<noteq> CHR ''.'')"

lemma Cut_at_separator:
  "Cut ''..'' a = None \<Longrightarrow> a = [] \<or> last a \<noteq> CHR ''.'' \<Longrightarrow> Cut ''..'' (a @ ''..'' @ b) = Some (a, b)"
proof (induction a)
  case (Cons c a)
  then show ?case
    by (cases a) (auto split: if_splits)
qed simp

text \<open>A dot is part of no space rune, so text around one is trimmed as its two ends are.\<close>

lemma dot_not_space:
  "xs \<in> set spaces2 \<union> set spaces3 \<Longrightarrow> 46 \<notin> set xs"
  by (auto simp: spaces2_def spaces3_def)

lemma take_with_dot:
  "46 \<notin> set (take n (xs @ 46 # ys)) \<Longrightarrow> take n (xs @ 46 # ys) = take n xs"
  by (cases "n \<le> length xs") (auto simp: take_Cons split: nat.splits)

lemma space_rune_dot:
  assumes "xs \<noteq> []" "space_rune xs = 0"
  shows "space_rune (xs @ 46 # ys) = 0"
proof -
  have "take 2 (xs @ 46 # ys) \<notin> set spaces2"
  proof
    assume a: "take 2 (xs @ 46 # ys) \<in> set spaces2"
    then have "take 2 (xs @ 46 # ys) = take 2 xs"
      by (intro take_with_dot dot_not_space) simp
    with a assms show False by (simp add: space_rune_def split: if_splits)
  qed
  moreover have "take 3 (xs @ 46 # ys) \<notin> set spaces3"
  proof
    assume a: "take 3 (xs @ 46 # ys) \<in> set spaces3"
    then have "take 3 (xs @ 46 # ys) = take 3 xs"
      by (intro take_with_dot dot_not_space) simp
    with a assms show False by (simp add: space_rune_def split: if_splits)
  qed
  ultimately show ?thesis
    using assms by (auto simp: space_rune_def split: if_splits)
qed

lemma space_rune_end_dot:
  assumes "xs \<noteq> []" "space_rune_end xs = 0"
  shows "space_rune_end (xs @ 46 # ys) = 0"
proof -
  have "rev (take 2 (xs @ 46 # ys)) \<notin> set spaces2"
  proof
    assume a: "rev (take 2 (xs @ 46 # ys)) \<in> set spaces2"
    then have "take 2 (xs @ 46 # ys) = take 2 xs"
      by (intro take_with_dot) (metis UnCI dot_not_space set_rev)
    with a assms show False by (simp add: space_rune_end_def split: if_splits)
  qed
  moreover have "rev (take 3 (xs @ 46 # ys)) \<notin> set spaces3"
  proof
    assume a: "rev (take 3 (xs @ 46 # ys)) \<in> set spaces3"
    then have "take 3 (xs @ 46 # ys) = take 3 xs"
      by (intro take_with_dot) (metis UnCI dot_not_space set_rev)
    with a assms show False by (simp add: space_rune_end_def split: if_splits)
  qed
  ultimately show ?thesis
    using assms by (auto simp: space_rune_end_def split: if_splits)
qed

lemma TrimSpace_around_dots:
  assumes "a \<noteq> []" "b \<noteq> []" "TrimSpace a = a" "TrimSpace b = b"
  shows "TrimSpace (a @ ''..'' @ b) = a @ ''..'' @ b"
proof (rule TrimSpace_idI)
  have c: "codes (a @ ''..'' @ b) = codes a @ 46 # 46 # codes b"
    by (simp add: codes_def)
  show "space_rune (codes (a @ ''..'' @ b)) = 0"
    unfolding c using assms TrimSpace_trimmed(1) [of a]
    by (intro space_rune_dot) (auto simp: codes_def)
  have "rev (codes (a @ ''..'' @ b)) = rev (codes b) @ 46 # 46 # rev (codes a)"
    unfolding c by simp
  then show "space_rune_end (rev (codes (a @ ''..'' @ b))) = 0"
    using assms TrimSpace_trimmed(2) [of b]
    by (auto intro!: space_rune_end_dot simp: codes_def)
qed

text \<open>
  A span written with \<open>String\<close> reads back with \<open>ParseSpan\<close> as the same span, provided it
  names no turn at all, or both its ends are set, have no surrounding space, the first holds
  no \<open>..\<close> and, when the ends differ, does not end in a dot.
\<close>

theorem ParseSpan_String:
  assumes "span_writable s"
  shows "ParseSpan (Span_String s) = s"
proof (cases "Span_Empty s")
  case True
  then show ?thesis
    by (cases s) (simp add: Span_Empty_def Span_String_def ParseSpan_def NewSpan_def)
next
  case False
  with assms have w: "sp_First s \<noteq> []" "sp_Last s \<noteq> []" "TrimSpace (sp_First s) = sp_First s"
    "TrimSpace (sp_Last s) = sp_Last s" "Cut ''..'' (sp_First s) = None"
    "sp_First s \<noteq> sp_Last s \<longrightarrow> last (sp_First s) \<noteq> CHR ''.''"
    by (auto simp: span_writable_def spanSeparator_def)
  show ?thesis
  proof (cases "sp_First s = sp_Last s")
    case True
    with w show ?thesis
      by (cases s) (simp add: Span_String_def ParseSpan_def NewSpan_def spanSeparator_def)
  next
    case False
    have "Cut ''..'' (sp_First s @ ''..'' @ sp_Last s) = Some (sp_First s, sp_Last s)"
      using w False by (intro Cut_at_separator) auto
    moreover have "TrimSpace (sp_First s @ ''..'' @ sp_Last s) = sp_First s @ ''..'' @ sp_Last s"
      using w by (intro TrimSpace_around_dots)
    moreover have "Span_String s = sp_First s @ ''..'' @ sp_Last s"
      using w False by (simp add: Span_String_def spanSeparator_def)
    ultimately show ?thesis
      using w by (cases s) (simp add: ParseSpan_def NewSpan_def spanSeparator_def)
  qed
qed

lemma sample_trim [simp]:
  "TrimSpace ''a..b'' = ''a..b''" "TrimSpace ''a'' = ''a''" "TrimSpace ''b'' = ''b''"
  by (intro TrimSpace_idI; simp add: codes_def space_rune_def space_rune_end_def ascii_space_def
      spaces2_def spaces3_def upt_rec)+

theorem ParseSpan_String_witness:
  "span_writable (NewSpan ''a'' ''b'') \<and>
   ParseSpan (Span_String (NewSpan ''a'' ''b'')) = NewSpan ''a'' ''b''"
proof -
  have "span_writable (NewSpan ''a'' ''b'')"
    by (simp add: span_writable_def NewSpan_def spanSeparator_def)
  then show ?thesis by (simp add: ParseSpan_String)
qed

text \<open>
  A turn whose id contains the separator is not read back: the single turn \<open>a..b\<close> becomes the
  run from \<open>a\<close> to \<open>b\<close>, although a message with that id is well formed.
\<close>

lemma ParseSpan_String_not_inverse:
  "ParseSpan (Span_String (NewSpan ''a..b'' ''a..b'')) = NewSpan ''a'' ''b''"
  by (simp add: ParseSpan_def Span_String_def NewSpan_def spanSeparator_def)

lemma find_message_Some:
  assumes "find_message x i ms = Some k"
  shows "i \<le> k \<and> k - i < length ms \<and> msg_ID (ms ! (k - i)) = x \<and>
    (\<forall>m \<in> set (take (k - i) ms). msg_ID m \<noteq> x)"
proof -
  have "\<exists>d. k = i + d \<and> d < length ms \<and> msg_ID (ms ! d) = x \<and>
      (\<forall>m \<in> set (take d ms). msg_ID m \<noteq> x)"
    using assms
  proof (induction ms arbitrary: i)
    case (Cons m ms)
    show ?case
    proof (cases "msg_ID m = x")
      case False
      with Cons.prems have "find_message x (i + 1) ms = Some k" by simp
      from Cons.IH [OF this] obtain d where "k = i + 1 + d" "d < length ms" "msg_ID (ms ! d) = x"
        "\<forall>m \<in> set (take d ms). msg_ID m \<noteq> x" by blast
      with False show ?thesis by (intro exI [of _ "Suc d"]) simp
    qed (use Cons.prems in simp)
  qed simp
  then show ?thesis by auto
qed

lemma find_message_None: "find_message x i ms = None \<longleftrightarrow> (\<forall>m \<in> set ms. msg_ID m \<noteq> x)"
  by (induction ms arbitrary: i) auto

text \<open>
  \<open>Span.Select\<close> returns nothing when the span is empty or its first turn is absent.
  Otherwise it returns a contiguous run of the transcript that starts at the first message
  with the first id; when the last id occurs from there on the run ends at its first
  occurrence, and when it does not the run is the first turn alone.
\<close>

theorem Span_Select_correct:
  assumes "\<not> Span_Empty s" and "sp_First s \<in> msg_ID ` set messages"
  shows "\<exists>pre run post. messages = pre @ run @ post \<and> Span_Select s messages = run \<and>
    run \<noteq> [] \<and> msg_ID (hd run) = sp_First s \<and> sp_First s \<notin> msg_ID ` set pre \<and>
    (if sp_Last s \<in> msg_ID ` set (run @ post)
     then msg_ID (last run) = sp_Last s \<and> sp_Last s \<notin> msg_ID ` set (butlast run)
     else length run = 1)"
proof -
  obtain f where f: "find_message (sp_First s) 0 messages = Some f"
    using assms(2) find_message_None [of "sp_First s" 0 messages] by fastforce
  note F = find_message_Some [OF f, simplified]
  define rest where "rest = drop f messages"
  have split: "messages = take f messages @ rest" by (simp add: rest_def)
  have r0: "rest \<noteq> []" "hd rest = messages ! f"
    using F by (auto simp: rest_def hd_drop_conv_nth)
  define k where "k = (case find_message (sp_Last s) f rest of None \<Rightarrow> 0 | Some i \<Rightarrow> i - f)"
  define run where "run = take (k + 1) rest"
  have "(case find_message (sp_Last s) f rest of None \<Rightarrow> f | Some i \<Rightarrow> i) = f + k"
    by (auto simp: k_def dest!: find_message_Some split: option.splits)
  then have sel: "Span_Select s messages = run"
    using assms(1) f by (simp add: Span_Select_def rest_def run_def drop_take)
  have "if sp_Last s \<in> msg_ID ` set rest
     then msg_ID (last run) = sp_Last s \<and> sp_Last s \<notin> msg_ID ` set (butlast run)
     else length run = 1"
  proof (cases "find_message (sp_Last s) f rest")
    case None
    then show ?thesis
      using r0 find_message_None [of "sp_Last s" f rest]
      by (cases rest) (auto simp: run_def k_def)
  next
    case (Some i)
    note L = find_message_Some [OF Some]
    have "last run = rest ! k" "butlast run = take k rest"
      using L Some by (auto simp: run_def k_def take_Suc_conv_app_nth)
    moreover have "sp_Last s \<in> msg_ID ` set rest"
      using L by (metis image_eqI nth_mem)
    ultimately show ?thesis using L Some by (auto simp: k_def)
  qed
  moreover have join: "run @ drop (k + 1) rest = rest" by (simp add: run_def)
  moreover have "run \<noteq> []" "hd run = messages ! f" using r0 by (simp_all add: run_def)
  moreover have "messages = take f messages @ run @ drop (k + 1) rest"
    using split unfolding join .
  moreover have "sp_First s \<notin> msg_ID ` set (take f messages)" "msg_ID (messages ! f) = sp_First s"
    using F by auto
  ultimately show ?thesis
    using sel by metis
qed

theorem Span_Select_correct_witness:
  "Span_Select (NewSpan ''b'' ''c'') (map sample_message [''a'', ''b'', ''x'', ''c'', ''d'']) =
     map sample_message [''b'', ''x'', ''c''] \<and>
   (\<exists>pre run post. map sample_message [''a'', ''b'', ''x'', ''c'', ''d''] = pre @ run @ post \<and>
      Span_Select (NewSpan ''b'' ''c'') (map sample_message [''a'', ''b'', ''x'', ''c'', ''d'']) = run)"
proof
  show "Span_Select (NewSpan ''b'' ''c'') (map sample_message [''a'', ''b'', ''x'', ''c'', ''d'']) =
     map sample_message [''b'', ''x'', ''c'']"
    by (simp add: Span_Select_def Span_Empty_def NewSpan_def sample_message_def)
  show "\<exists>pre run post. map sample_message [''a'', ''b'', ''x'', ''c'', ''d''] = pre @ run @ post \<and>
      Span_Select (NewSpan ''b'' ''c'') (map sample_message [''a'', ''b'', ''x'', ''c'', ''d'']) = run"
    using Span_Select_correct [of "NewSpan ''b'' ''c''"
        "map sample_message [''a'', ''b'', ''x'', ''c'', ''d'']"]
    by (auto simp: Span_Empty_def NewSpan_def sample_message_def)
qed

end
