(* ===== verification/Rec_Session.thy ===== *)
theory Rec_Session
  imports Rec_Chunk
begin

text \<open>
  Package \<open>record\<close>, last part: the head of a stored conversation (\<open>record/session.go\<close>), the
  text it is indexed by, the totals it reports and the checks it passes before it is stored.
\<close>

section \<open>The session head\<close>

type_synonym SessionKind = string

definition SessionMain :: SessionKind where "SessionMain = ''main''"
definition SessionSubagent :: SessionKind where "SessionSubagent = ''subagent''"
definition SessionBackground :: SessionKind where "SessionBackground = ''background''"

definition SessionKinds :: "SessionKind list" where
  "SessionKinds = [SessionMain, SessionSubagent, SessionBackground]"

definition SessionKind_Valid :: "SessionKind \<Rightarrow> bool" where
  "SessionKind_Valid k = member_loop SessionKinds k"

record Project =
  prj_CWD :: string
  prj_Repo :: string
  prj_Branch :: string

definition Project_Empty :: "Project \<Rightarrow> bool" where
  "Project_Empty p \<longleftrightarrow> p = \<lparr>prj_CWD = [], prj_Repo = [], prj_Branch = []\<rparr>"

record Agent =
  agt_Name :: string
  agt_Version :: string

record AgentRef =
  aref_ID :: string
  aref_Name :: string
  aref_Role :: string

record Counts =
  cnt_Messages :: int
  cnt_Chunks :: int
  cnt_Bytes :: int
  cnt_TokensIn :: int
  cnt_TokensOut :: int
  cnt_DurationMS :: int

record Fork =
  frk_SessionID :: ID
  frk_MessageID :: string

record Lineage =
  lin_ParentSession :: "ID option"
  lin_ForkedFrom :: "Fork option"
  lin_ResumedFrom :: "ID option"
  lin_Children :: "ID list"

definition Lineage_Empty :: "Lineage \<Rightarrow> bool" where
  "Lineage_Empty l \<longleftrightarrow>
     lin_ParentSession l = None \<and> lin_ForkedFrom l = None \<and> lin_ResumedFrom l = None \<and>
     length (lin_Children l) = 0"

record SessionLinks =
  lnk_Memories :: "ID list"

definition SessionLinks_Empty :: "SessionLinks \<Rightarrow> bool" where
  "SessionLinks_Empty l \<longleftrightarrow> length (lnk_Memories l) = 0"

record Session =
  ses_ID :: ID
  ses_Schema :: string
  ses_SchemaVersion :: int
  ses_Version :: int
  ses_Title :: string
  ses_Summary :: string
  ses_Tags :: "string list"
  ses_Project :: Project
  ses_Created :: Time
  ses_Updated :: Time
  ses_Archived :: bool
  ses_Agent :: Agent
  ses_Models :: "string list"
  ses_Counts :: Counts
  ses_Kind :: SessionKind
  ses_AgentRef :: "AgentRef option"
  ses_Lineage :: Lineage
  ses_HeadMessage :: string
  ses_PreservedTail :: "string list"
  ses_Chunks :: "ChunkRef list"
  ses_Links :: SessionLinks
  ses_Embedding :: Embedding

definition Session_RecordKind :: "Session \<Rightarrow> Kind" where
  "Session_RecordKind s = KindSession"

definition Session_IndexText :: "Session \<Rightarrow> string" where
  "Session_IndexText s =
     (let parts0 = (if ses_Title s \<noteq> [] then [ses_Title s] else []);
          parts1 = (if ses_Summary s \<noteq> [] then parts0 @ [ses_Summary s] else parts0);
          parts2 = (if length (ses_Tags s) > 0 then parts1 @ [Join '' '' (ses_Tags s)] else parts1)
      in Join [CHR 0x0A, CHR 0x0A] parts2)"

definition Session_Messages :: "Session \<Rightarrow> int" where
  "Session_Messages s = fold (\<lambda>chunk n. n + ref_N chunk) (ses_Chunks s) 0"

definition Session_ChunkBytes :: "Session \<Rightarrow> int" where
  "Session_ChunkBytes s = fold (\<lambda>chunk n. n + ref_Bytes chunk) (ses_Chunks s) 0"

section \<open>Validation of a session head\<close>

definition MaxTitleBytes :: nat where "MaxTitleBytes = 512"
definition MaxSummaryBytes :: nat where "MaxSummaryBytes = 16384"

fun check_chunk_refs :: "nat \<Rightarrow> ChunkRef list \<Rightarrow> invalid option" where
  "check_chunk_refs i [] = None"
| "check_chunk_refs i (chunk # chunks) =
     (if ID_IsZero (ref_ID chunk) then Some (ChunkRefNoId i)
      else if ref_Seq chunk \<noteq> int i then Some (ChunkRefSeq i (ref_Seq chunk))
      else check_chunk_refs (i + 1) chunks)"

definition Session_Validate :: "Session \<Rightarrow> invalid option" where
  "Session_Validate s =
     (if ID_IsZero (ses_ID s) then Some MissingId
      else if ses_Schema s \<noteq> MessageSchema then Some (WrongSchema (ses_Schema s))
      else if ses_SchemaVersion s \<le> 0 then Some MissingSchemaVersion
      else if ses_Version s \<le> 0 then Some (VersionNotPositive (ses_Version s))
      else if \<not> SessionKind_Valid (ses_Kind s) then Some (UnknownSessionKind (ses_Kind s))
      else if TrimSpace (ses_Title s) = [] then Some NoTitle
      else if length (ses_Title s) > MaxTitleBytes then Some (TitleLong (length (ses_Title s)))
      else if length (ses_Summary s) > MaxSummaryBytes
        then Some (SummaryLong (length (ses_Summary s)))
      else if length (ses_Tags s) > MaxTags then Some (TooManyTags (length (ses_Tags s)))
      else case check_all check_tag (ses_Tags s) of
        Some e \<Rightarrow> Some e
      | None \<Rightarrow>
          (if ses_Kind s = SessionSubagent \<and> lin_ParentSession (ses_Lineage s) = None
             then Some SubagentWithoutParent
           else check_chunk_refs 0 (ses_Chunks s)))"

definition wf_session :: "Session \<Rightarrow> bool" where
  "wf_session s \<longleftrightarrow>
     \<not> ID_IsZero (ses_ID s) \<and> ses_Schema s = MessageSchema \<and>
     0 < ses_SchemaVersion s \<and> 0 < ses_Version s \<and> ses_Kind s \<in> set SessionKinds \<and>
     TrimSpace (ses_Title s) \<noteq> [] \<and> length (ses_Title s) \<le> MaxTitleBytes \<and>
     length (ses_Summary s) \<le> MaxSummaryBytes \<and> wf_tags (ses_Tags s) \<and>
     (ses_Kind s = SessionSubagent \<longrightarrow> lin_ParentSession (ses_Lineage s) \<noteq> None) \<and>
     (\<forall>i < length (ses_Chunks s).
        \<not> ID_IsZero (ref_ID (ses_Chunks s ! i)) \<and> ref_Seq (ses_Chunks s ! i) = int i)"

lemma check_chunk_refs_None_iff:
  "check_chunk_refs k cs = None \<longleftrightarrow>
   (\<forall>i < length cs. \<not> ID_IsZero (ref_ID (cs ! i)) \<and> ref_Seq (cs ! i) = int (k + i))"
proof (induction cs arbitrary: k)
  case (Cons c cs)
  show ?case
    by (auto simp: Cons.IH All_less_Suc2)
qed simp

lemma Session_Validate_None_iff: "Session_Validate s = None \<longleftrightarrow> wf_session s"
  unfolding Session_Validate_def wf_session_def SessionKind_Valid_def member_loop_iff
    check_tags_None_iff [symmetric]
  by (auto simp: check_chunk_refs_None_iff split: option.splits if_splits)

text \<open>
  \<open>Session.Validate\<close> accepts exactly the well-formed heads: an id, the schema of this
  build, positive schema version and head version, a kind of the vocabulary, a title that is
  not blank, title, summary and tags within their limits, a parent for a sub-agent run, and
  chunk references that all name a record and are numbered 0, 1, 2, ... in order.
\<close>

theorem Session_Validate_correct: "Session_Validate s = None \<longleftrightarrow> wf_session s"
  by (rule Session_Validate_None_iff)

lemma fold_add_sum: "fold (\<lambda>c n. n + f c) xs (a :: int) = a + sum_list (map f xs)"
  by (induction xs arbitrary: a) auto

lemma Session_totals:
  "Session_Messages s = sum_list (map ref_N (ses_Chunks s))"
  "Session_ChunkBytes s = sum_list (map ref_Bytes (ses_Chunks s))"
  by (simp_all add: Session_Messages_def Session_ChunkBytes_def fold_add_sum)

text \<open>
  Appending chunks numbered on from the present ones keeps a head well formed, and both
  totals grow by what the new chunks report: what an append to a conversation relies on.
\<close>

lemma append_chunks_wf:
  assumes "wf_session s" and "0 < v"
    and "\<forall>i < length cs. \<not> ID_IsZero (ref_ID (cs ! i)) \<and>
           ref_Seq (cs ! i) = int (length (ses_Chunks s) + i)"
  shows "wf_session (s\<lparr>ses_Version := v, ses_Chunks := ses_Chunks s @ cs\<rparr>)"
proof -
  have "\<not> ID_IsZero (ref_ID ((ses_Chunks s @ cs) ! i)) \<and> ref_Seq ((ses_Chunks s @ cs) ! i) = int i"
    if "i < length (ses_Chunks s @ cs)" for i
  proof (cases "i < length (ses_Chunks s)")
    case True
    with assms(1) show ?thesis by (simp add: wf_session_def nth_append)
  next
    case False
    with that assms(3) [rule_format, of "i - length (ses_Chunks s)"] show ?thesis
      by (simp add: nth_append)
  qed
  with assms(1,2) show ?thesis by (simp add: wf_session_def)
qed

end
