(* ===== verification/Framing.thy ===== *)
theory Framing
  imports Prelude
begin

text \<open>
  The interface of a self-delimiting record format and of a reader that walks a blob of
  records forward and keeps what it read before a fault. The packed blobs of package \<open>seal\<close>
  provide it; the lemmas here are what a client relies on: whole records are all recovered,
  whatever follows them, and a blob cut at any byte gives exactly the records that lie wholly
  before the cut, with an error exactly when the cut is inside a record.
\<close>

locale framing =
  fixes enc :: "'r \<Rightarrow> bytes"
    and dec :: "bytes \<Rightarrow> ('e, 'r \<times> bytes) result"
    and ok :: "'r \<Rightarrow> bool"
    and walk :: "bytes \<Rightarrow> 'r list \<times> 'e option"
  assumes dec_enc: "ok r \<Longrightarrow> dec (enc r @ rest) = Inr (r, rest)"
    and dec_truncated: "ok r \<Longrightarrow> 0 < n \<Longrightarrow> n < length (enc r) \<Longrightarrow> \<exists>e. dec (take n (enc r)) = Inl e"
    and enc_nonempty: "ok r \<Longrightarrow> enc r \<noteq> []"
    and walk_Nil: "walk [] = ([], None)"
    and walk_error: "b \<noteq> [] \<Longrightarrow> dec b = Inl e \<Longrightarrow> walk b = ([], Some e)"
    and walk_step: "b \<noteq> [] \<Longrightarrow> dec b = Inr (r, rest) \<Longrightarrow>
      walk b = (r # fst (walk rest), snd (walk rest))"
begin

lemma walk_cons: "ok r \<Longrightarrow> walk (enc r @ tail) = (r # fst (walk tail), snd (walk tail))"
  by (intro walk_step) (simp_all add: enc_nonempty dec_enc)

lemma walk_concat:
  "\<forall>r \<in> set rs. ok r \<Longrightarrow>
   walk (concat (map enc rs) @ tail) = (rs @ fst (walk tail), snd (walk tail))"
  by (induction rs) (simp_all add: walk_cons)

lemma walk_whole: "\<forall>r \<in> set rs. ok r \<Longrightarrow> walk (concat (map enc rs)) = (rs, None)"
  using walk_concat [of rs "[]"] by (simp add: walk_Nil)

lemma walk_truncated:
  assumes "\<forall>r \<in> set rs. ok r"
  shows "\<exists>k \<le> length rs.
    length (concat (map enc (take k rs))) \<le> n \<and>
    (k < length rs \<longrightarrow> n < length (concat (map enc (take (Suc k) rs)))) \<and>
    fst (walk (take n (concat (map enc rs)))) = take k rs \<and>
    (k < length rs \<longrightarrow>
       (snd (walk (take n (concat (map enc rs)))) = None \<longleftrightarrow>
        n = length (concat (map enc (take k rs)))))"
  using assms
proof (induction rs arbitrary: n)
  case Nil
  show ?case by (simp add: walk_Nil)
next
  case (Cons r rs)
  then have r: "ok r" by simp
  show ?case
  proof (cases "n < length (enc r)")
    case True
    then have t: "take n (concat (map enc (r # rs))) = take n (enc r)" by simp
    show ?thesis
    proof (cases "n = 0")
      case True
      with t r show ?thesis by (intro exI [of _ 0]) (simp add: walk_Nil enc_nonempty)
    next
      case False
      then obtain e where "dec (take n (enc r)) = Inl e"
        using dec_truncated [OF r] True by blast
      then have "walk (take n (enc r)) = ([], Some e)"
        using False enc_nonempty [OF r] by (intro walk_error) auto
      with t True False show ?thesis by (intro exI [of _ 0]) simp
    qed
  next
    case False
    define m where "m = n - length (enc r)"
    have n: "n = length (enc r) + m" using False by (simp add: m_def)
    obtain k where k: "k \<le> length rs"
      "length (concat (map enc (take k rs))) \<le> m"
      "k < length rs \<longrightarrow> m < length (concat (map enc (take (Suc k) rs)))"
      "fst (walk (take m (concat (map enc rs)))) = take k rs"
      "k < length rs \<longrightarrow> (snd (walk (take m (concat (map enc rs)))) = None \<longleftrightarrow>
        m = length (concat (map enc (take k rs))))"
      using Cons.IH [of m] Cons.prems by auto
    have "walk (take n (concat (map enc (r # rs)))) =
        (r # fst (walk (take m (concat (map enc rs)))), snd (walk (take m (concat (map enc rs)))))"
      by (simp add: n walk_cons [OF r])
    with k show ?thesis by (intro exI [of _ "Suc k"]) (simp add: n)
  qed
qed

end

end
