(* ===== verification/Seal_Frame.thy ===== *)
theory Seal_Frame
  imports Rec_Core Framing
begin

text \<open>
  Package \<open>seal\<close>: the authenticated envelope of a record body (\<open>seal/seal.go\<close>), its keyed
  content address (\<open>seal/cid.go\<close>) and the frames that carry records in a packed blob
  (\<open>seal/frame.go\<close>).

  The cipher, the compressor and the hash are third-party packages. They are the fields of
  the record \<open>crypto\<close>, and \<open>crypto_ok\<close> collects what their documentation promises: a
  compressed body decompresses to itself, what was sealed with a key and a nonce opens with
  them, opening anything else fails, the tag adds 16 bytes, and a digest has 32.
\<close>

section \<open>The libraries the package calls\<close>

record crypto =
  zstd_encode :: "bytes \<Rightarrow> bytes"
  zstd_decode :: "bytes \<Rightarrow> bytes option"
  aead_seal :: "bytes \<Rightarrow> bytes \<Rightarrow> bytes \<Rightarrow> bytes"
  aead_open :: "bytes \<Rightarrow> bytes \<Rightarrow> bytes \<Rightarrow> bytes option"
  blake2b256 :: "bytes \<Rightarrow> bytes \<Rightarrow> bytes"

definition NonceSize :: nat where "NonceSize = 24"
definition TagSize :: nat where "TagSize = 16"
definition Overhead :: nat where "Overhead = NonceSize + TagSize"
definition KeySize :: nat where "KeySize = 32"

definition zstd_ok :: "crypto \<Rightarrow> bool" where
  "zstd_ok C \<longleftrightarrow> (\<forall>p. zstd_decode C (zstd_encode C p) = Some p)"

definition aead_ok :: "crypto \<Rightarrow> bool" where
  "aead_ok C \<longleftrightarrow>
     (\<forall>k n p. length k = KeySize \<and> length n = NonceSize \<longrightarrow>
        aead_open C k n (aead_seal C k n p) = Some p \<and>
        length (aead_seal C k n p) = length p + TagSize)"

text \<open>A ciphertext that opens under a key and a nonce is the sealing of what it opens to.\<close>

definition aead_authentic :: "crypto \<Rightarrow> bool" where
  "aead_authentic C \<longleftrightarrow>
     (\<forall>k n c p. length k = KeySize \<and> length n = NonceSize \<and> aead_open C k n c = Some p \<longrightarrow>
        c = aead_seal C k n p)"

definition crypto_ok :: "crypto \<Rightarrow> bool" where
  "crypto_ok C \<longleftrightarrow> zstd_ok C \<and> aead_ok C"

section \<open>The sealer\<close>

record Sealer =
  slr_record :: bytes
  slr_content :: bytes

datatype seal_error =
    ShortBlob nat
  | AuthFailed
  | Decompress
  | AeadKey
  | NonceRead
  | FrameLength
  | FrameClaims nat nat
  | FrameHeader
  | FrameMagic
  | FrameVersion nat
  | FrameKindCode nat
  | FrameIDTruncated
  | FrameIDLen nat
  | FrameUnknownKind Kind
  | CIDHex
  | CIDLen nat
  | CIDKey

text \<open>The errors that wrap \<open>ErrCorrupt\<close>.\<close>

definition is_corrupt :: "seal_error \<Rightarrow> bool" where
  "is_corrupt e \<longleftrightarrow>
     (case e of AeadKey \<Rightarrow> False | NonceRead \<Rightarrow> False | FrameUnknownKind _ \<Rightarrow> False
      | CIDHex \<Rightarrow> False | CIDLen _ \<Rightarrow> False | CIDKey \<Rightarrow> False | _ \<Rightarrow> True)"

text \<open>The nonce is what the system's random source returned, \<open>None\<close> when reading it failed.\<close>

definition Seal :: "crypto \<Rightarrow> Sealer \<Rightarrow> bytes option \<Rightarrow> bytes \<Rightarrow> (seal_error, bytes) result" where
  "Seal C s nonce plaintext =
     (let compressed = zstd_encode C plaintext in
      if length (slr_record s) \<noteq> KeySize then Inl AeadKey
      else case nonce of
        None \<Rightarrow> Inl NonceRead
      | Some n \<Rightarrow> Inr (n @ aead_seal C (slr_record s) n compressed))"

definition Open :: "crypto \<Rightarrow> Sealer \<Rightarrow> bytes \<Rightarrow> (seal_error, bytes) result" where
  "Open C s sealed =
     (if length sealed < Overhead then Inl (ShortBlob (length sealed))
      else if length (slr_record s) \<noteq> KeySize then Inl AeadKey
      else let nonce = take NonceSize sealed; ciphertext = drop NonceSize sealed in
        case aead_open C (slr_record s) nonce ciphertext of
          None \<Rightarrow> Inl AuthFailed
        | Some compressed \<Rightarrow>
            (case zstd_decode C compressed of
               None \<Rightarrow> Inl Decompress
             | Some plaintext \<Rightarrow> Inr plaintext))"

text \<open>A sealer as \<open>New\<close> builds it: both keys are 32 bytes, as the type \<open>keys.Key\<close> says.\<close>

definition wf_sealer :: "Sealer \<Rightarrow> bool" where
  "wf_sealer s \<longleftrightarrow> length (slr_record s) = KeySize \<and> length (slr_content s) = KeySize"

definition wf_nonce :: "bytes option \<Rightarrow> bool" where
  "wf_nonce n \<longleftrightarrow> (\<exists>b. n = Some b \<and> length b = NonceSize)"

lemmas size_defs = NonceSize_def TagSize_def Overhead_def KeySize_def

section \<open>Content addresses\<close>

type_synonym CID = bytes

definition CIDSize :: nat where "CIDSize = 32"

definition CID_String :: "CID \<Rightarrow> string" where
  "CID_String c = hex_encode c"

definition ParseCID :: "string \<Rightarrow> (seal_error, CID) result" where
  "ParseCID s =
     (case hex_decode s of
        None \<Rightarrow> Inl CIDHex
      | Some b \<Rightarrow> if length b \<noteq> CIDSize then Inl (CIDLen (length b)) else Inr b)"

definition Sealer_CID :: "crypto \<Rightarrow> Sealer \<Rightarrow> bytes \<Rightarrow> (seal_error, CID) result" where
  "Sealer_CID C s plaintext =
     (if length (slr_content s) > 64 then Inl CIDKey
      else Inr (blake2b256 C (slr_content s) plaintext))"

lemma ParseCID_String: "length c = CIDSize \<Longrightarrow> ParseCID (CID_String c) = Inr c"
  by (simp add: ParseCID_def CID_String_def)

section \<open>Frames\<close>

definition frameVersion :: byte where "frameVersion = 1"
definition frameIDLen :: nat where "frameIDLen = IDSize"
definition frameMagic0 :: byte where "frameMagic0 = 77"
definition frameMagic1 :: byte where "frameMagic1 = 110"

definition kindCode :: "Kind \<Rightarrow> (seal_error, byte) result" where
  "kindCode kind =
     (if kind = KindMemory then Inr 1
      else if kind = KindSession then Inr 2
      else if kind = KindChunk then Inr 3
      else Inl (FrameUnknownKind kind))"

definition kindFromCode :: "byte \<Rightarrow> (seal_error, Kind) result" where
  "kindFromCode code =
     (if code = 1 then Inr KindMemory
      else if code = 2 then Inr KindSession
      else if code = 3 then Inr KindChunk
      else Inl (FrameKindCode (unat code)))"

record Frame =
  frm_Kind :: Kind
  frm_ID :: ID
  frm_Sealed :: bytes

definition FrameRecord :: "Kind \<Rightarrow> ID \<Rightarrow> bytes \<Rightarrow> (seal_error, bytes) result" where
  "FrameRecord kind i sealed =
     bind_result (kindCode kind) (\<lambda>code.
       let body = [frameMagic0, frameMagic1, frameVersion, code, of_nat frameIDLen] @ i @ sealed
       in Inr (put_uvarint (length body) @ body))"

definition Unframe :: "bytes \<Rightarrow> (seal_error, Frame \<times> bytes) result" where
  "Unframe b0 =
     (let (len, n) = get_uvarint b0 in
      if n \<le> 0 then Inl FrameLength
      else let b = drop (nat n) b0 in
        if length b < len then Inl (FrameClaims len (length b))
        else let body = take len b; rest = drop len b in
          if length body < 5 then Inl FrameHeader
          else if body ! 0 \<noteq> frameMagic0 \<or> body ! 1 \<noteq> frameMagic1 then Inl FrameMagic
          else if body ! 2 \<noteq> frameVersion then Inl (FrameVersion (unat (body ! 2)))
          else bind_result (kindFromCode (body ! 3)) (\<lambda>kind.
            let idLen = unat (body ! 4) in
            if length body < 5 + idLen then Inl FrameIDTruncated
            else if idLen \<noteq> frameIDLen then Inl (FrameIDLen idLen)
            else Inr (\<lparr>frm_Kind = kind, frm_ID = take idLen (drop 5 body),
                        frm_Sealed = drop (5 + idLen) body\<rparr>, rest)))"

lemma Unframe_shorter:
  assumes "Unframe b = Inr (f, rest)"
  shows "length rest < length b"
proof -
  obtain len n where g: "get_uvarint b = (len, n)" by (cases "get_uvarint b")
  with assms have n: "0 < n" and r: "rest = drop len (drop (nat n) b)"
    by (auto simp: Unframe_def Let_def bind_result_Inr_iff split: if_splits)
  then show ?thesis
    using get_uvarint_bounds [OF g n] by simp
qed

text \<open>The records recovered and, when the walk stopped early, why.\<close>

function Frames_loop :: "Frame list \<Rightarrow> bytes \<Rightarrow> Frame list \<times> seal_error option" where
  "Frames_loop out blob =
     (if length blob > 0 then
        (case Unframe blob of
           Inl err \<Rightarrow> (out, Some err)
         | Inr (frame, rest) \<Rightarrow> Frames_loop (out @ [frame]) rest)
      else (out, None))"
  by pat_completeness auto
termination
  by (relation "measure (\<lambda>(out, blob). length blob)") (auto dest: Unframe_shorter)

declare Frames_loop.simps [simp del]

definition Frames :: "bytes \<Rightarrow> Frame list \<times> seal_error option" where
  "Frames blob = Frames_loop [] blob"

definition FrameOverhead :: "nat \<Rightarrow> nat" where
  "FrameOverhead sealedLen =
     (let body = 5 + frameIDLen + sealedLen
      in length (put_uvarint body) + body - sealedLen)"

section \<open>Round trips of the envelope\<close>

text \<open>
  What a client of the envelope relies on, whatever the nonces: sealing succeeds and opening
  gives back the body.
\<close>

locale envelope =
  fixes seal :: "'s \<Rightarrow> 'n \<Rightarrow> bytes \<Rightarrow> ('e, bytes) result"
    and unseal :: "'s \<Rightarrow> bytes \<Rightarrow> ('e, bytes) result"
    and good :: "'s \<Rightarrow> bool"
    and fresh :: "'n \<Rightarrow> bool"
  assumes seal_total: "good s \<Longrightarrow> fresh n \<Longrightarrow> \<exists>b. seal s n p = Inr b"
    and unseal_seal: "good s \<Longrightarrow> fresh n \<Longrightarrow> seal s n p = Inr b \<Longrightarrow> unseal s b = Inr p"
begin

lemma seal_determines:
  "good s \<Longrightarrow> fresh n \<Longrightarrow> fresh n' \<Longrightarrow> seal s n p = Inr b \<Longrightarrow> seal s n' p' = Inr b \<Longrightarrow> p = p'"
  using unseal_seal [of s n p b] unseal_seal [of s n' p' b] by simp

lemma unseal_all:
  "good s \<Longrightarrow> list_all2 (\<lambda>p b. \<exists>n. fresh n \<and> seal s n p = Inr b) ps bs \<Longrightarrow>
   map_result (unseal s) bs = Inr ps"
  unfolding map_result_Inr_iff
  by (auto simp: list_all2_conv_all_nth dest: unseal_seal)

end

lemma Open_Seal:
  assumes "crypto_ok C" "wf_sealer s" "wf_nonce n" "Seal C s n p = Inr b"
  shows "Open C s b = Inr p"
proof -
  obtain nb where nb: "n = Some nb" "length nb = NonceSize"
    using assms(3) by (auto simp: wf_nonce_def)
  with assms have b: "b = nb @ aead_seal C (slr_record s) nb (zstd_encode C p)"
    by (simp add: Seal_def Let_def wf_sealer_def)
  from assms nb have "aead_open C (slr_record s) nb (aead_seal C (slr_record s) nb (zstd_encode C p))
      = Some (zstd_encode C p)"
    "length (aead_seal C (slr_record s) nb (zstd_encode C p)) = length (zstd_encode C p) + TagSize"
    by (auto simp: crypto_ok_def aead_ok_def wf_sealer_def)
  with assms nb b show ?thesis
    by (simp add: Open_def Overhead_def wf_sealer_def crypto_ok_def zstd_ok_def)
qed

lemma Seal_total:
  "wf_sealer s \<Longrightarrow> wf_nonce n \<Longrightarrow> \<exists>b. Seal C s n p = Inr b"
  by (auto simp: Seal_def wf_sealer_def wf_nonce_def)

interpretation env: envelope "\<lambda>(C, s). Seal C s" "\<lambda>(C, s). Open C s"
  "\<lambda>(C, s). crypto_ok C \<and> wf_sealer s" wf_nonce
  by unfold_locales (auto intro: Open_Seal Seal_total)

lemma length_Seal:
  assumes "crypto_ok C" "wf_sealer s" "wf_nonce n" "Seal C s n p = Inr b"
  shows "length b = length (zstd_encode C p) + Overhead"
  using assms
  by (auto simp: Seal_def wf_sealer_def wf_nonce_def crypto_ok_def aead_ok_def Overhead_def)

text \<open>
  C6. What is sealed opens to the same body, and costs exactly the 40 bytes of envelope over
  its compressed form. What opens at all is authentic: it is the nonce it carries followed by
  the sealing, under the vault's record key and that nonce, of a body that decompresses to the
  result; a blob shorter than the envelope is refused as corrupt.
\<close>

theorem Open_Seal_correct:
  assumes "crypto_ok C" and "aead_authentic C" and "wf_sealer s"
  shows "(wf_nonce n \<longrightarrow> (\<exists>b. Seal C s n p = Inr b \<and> Open C s b = Inr p \<and>
            length b = length (zstd_encode C p) + 40)) \<and>
    (Open C s c = Inr q \<longrightarrow>
       (\<exists>z. zstd_decode C z = Some q \<and>
          c = take 24 c @ aead_seal C (slr_record s) (take 24 c) z)) \<and>
    (length c < 40 \<longrightarrow> (\<exists>e. Open C s c = Inl e \<and> is_corrupt e))"
proof (intro conjI impI)
  assume n: "wf_nonce n"
  then obtain b where b: "Seal C s n p = Inr b" using Seal_total [OF assms(3)] by blast
  show "\<exists>b. Seal C s n p = Inr b \<and> Open C s b = Inr p \<and> length b = length (zstd_encode C p) + 40"
    using b Open_Seal [OF assms(1,3) n b] length_Seal [OF assms(1,3) n b] by (simp add: size_defs)
next
  assume "Open C s c = Inr q"
  then obtain z where z: "\<not> length c < Overhead" "zstd_decode C z = Some q"
    "aead_open C (slr_record s) (take NonceSize c) (drop NonceSize c) = Some z"
    by (auto simp: Open_def Let_def split: if_splits option.splits)
  then have "drop NonceSize c = aead_seal C (slr_record s) (take NonceSize c) z"
    using assms(2,3) by (simp add: aead_authentic_def wf_sealer_def size_defs)
  then have "c = take 24 c @ aead_seal C (slr_record s) (take 24 c) z"
    by (metis append_take_drop_id NonceSize_def)
  with z(2) show "\<exists>z. zstd_decode C z = Some q \<and>
      c = take 24 c @ aead_seal C (slr_record s) (take 24 c) z" by blast
next
  assume "length c < 40"
  then show "\<exists>e. Open C s c = Inl e \<and> is_corrupt e"
    by (simp add: Open_def size_defs is_corrupt_def)
qed

text \<open>
  A concrete instance of the libraries that has the promised behaviour, for the witnesses: no
  compression, and a tag that is sixteen copies of the sum of the key, the nonce and the body.
\<close>

definition sample_tag :: "bytes \<Rightarrow> bytes \<Rightarrow> bytes \<Rightarrow> bytes" where
  "sample_tag k n p = replicate TagSize (sum_list (k @ n @ p))"

definition sample_crypto :: crypto where
  "sample_crypto =
     \<lparr>zstd_encode = (\<lambda>p. p), zstd_decode = Some,
      aead_seal = (\<lambda>k n p. p @ sample_tag k n p),
      aead_open = (\<lambda>k n c. let p = take (length c - TagSize) c in
         if c = p @ sample_tag k n p then Some p else None),
      blake2b256 = (\<lambda>k p. replicate CIDSize (sum_list (k @ p)))\<rparr>"

definition sample_sealer :: Sealer where
  "sample_sealer = \<lparr>slr_record = replicate 32 1, slr_content = replicate 32 2\<rparr>"

lemma sample_crypto_ok: "crypto_ok sample_crypto" "aead_authentic sample_crypto"
  by (auto simp: crypto_ok_def zstd_ok_def aead_ok_def aead_authentic_def sample_crypto_def
      sample_tag_def Let_def split: if_splits)

lemma sample_sealer_ok: "wf_sealer sample_sealer"
  by (simp add: wf_sealer_def sample_sealer_def KeySize_def)

theorem Open_Seal_correct_witness:
  "\<exists>b. Seal sample_crypto sample_sealer (Some (replicate 24 7)) [1, 2, 3] = Inr b \<and>
     Open sample_crypto sample_sealer b = Inr [1, 2, 3] \<and> length b = 43"
  using Open_Seal_correct [OF sample_crypto_ok sample_sealer_ok,
      of "Some (replicate 24 7)" "[1, 2, 3]" "[]" "[]"]
  by (simp add: wf_nonce_def NonceSize_def sample_crypto_def)

section \<open>Round trips of the frames\<close>

lemma kindFromCode_kindCode: "kindCode k = Inr c \<Longrightarrow> kindFromCode c = Inr k"
  by (auto simp: kindCode_def kindFromCode_def split: if_splits)

lemma kindCode_ok_iff: "is_ok (kindCode k) \<longleftrightarrow> k \<in> {KindMemory, KindSession, KindChunk}"
  by (simp add: kindCode_def)

text \<open>A record that can be framed: a known kind, an id of 16 bytes and a body in memory.\<close>

definition wf_frame :: "Frame \<Rightarrow> bool" where
  "wf_frame f \<longleftrightarrow>
     frm_Kind f \<in> {KindMemory, KindSession, KindChunk} \<and> wf_id (frm_ID f) \<and>
     21 + length (frm_Sealed f) < 2 ^ 64"

definition frame_bytes :: "Frame \<Rightarrow> bytes" where
  "frame_bytes f =
     (case FrameRecord (frm_Kind f) (frm_ID f) (frm_Sealed f) of Inl _ \<Rightarrow> [] | Inr b \<Rightarrow> b)"

lemma FrameRecord_layout:
  assumes "wf_frame f"
  obtains code where "kindFromCode code = Inr (frm_Kind f)"
    and "FrameRecord (frm_Kind f) (frm_ID f) (frm_Sealed f) = Inr (frame_bytes f)"
    and "frame_bytes f = put_uvarint (21 + length (frm_Sealed f)) @
      [frameMagic0, frameMagic1, frameVersion, code, 16] @ frm_ID f @ frm_Sealed f"
proof -
  obtain code where c: "kindCode (frm_Kind f) = Inr code"
    using assms kindCode_ok_iff [of "frm_Kind f"] by (auto simp: wf_frame_def is_ok_iff)
  have "length ([frameMagic0, frameMagic1, frameVersion, code, 16] @ frm_ID f @ frm_Sealed f) =
      21 + length (frm_Sealed f)"
    using assms by (simp add: wf_frame_def wf_id_def IDSize_def)
  then show thesis
    using that [of code] c kindFromCode_kindCode [OF c]
    by (simp add: frame_bytes_def FrameRecord_def Let_def frameIDLen_def IDSize_def)
qed

lemma Unframe_frame_bytes:
  assumes "wf_frame f"
  shows "Unframe (frame_bytes f @ rest) = Inr (f, rest)"
proof -
  obtain code where k: "kindFromCode code = Inr (frm_Kind f)"
    and l: "frame_bytes f = put_uvarint (21 + length (frm_Sealed f)) @
      [frameMagic0, frameMagic1, frameVersion, code, 16] @ frm_ID f @ frm_Sealed f"
    using FrameRecord_layout [OF assms] by metis
  have g: "get_uvarint (frame_bytes f @ rest) =
      (21 + length (frm_Sealed f), int (length (put_uvarint (21 + length (frm_Sealed f)))))"
    unfolding l append_assoc using assms by (intro get_put_uvarint) (simp add: wf_frame_def)
  have id: "length (frm_ID f) = 16"
    using assms by (simp add: wf_frame_def wf_id_def IDSize_def)
  let ?body = "[frameMagic0, frameMagic1, frameVersion, code, 16] @ frm_ID f @ frm_Sealed f"
  have b: "length ?body = 21 + length (frm_Sealed f)"
    by (simp add: id)
  have d: "drop (length (put_uvarint (21 + length (frm_Sealed f)))) (frame_bytes f @ rest) = ?body @ rest"
    by (simp add: l)
  have t: "take (21 + length (frm_Sealed f)) (?body @ rest) = ?body"
    "drop (21 + length (frm_Sealed f)) (?body @ rest) = rest"
    unfolding b [symmetric] by simp_all
  have p: "take 16 (drop 5 ?body) = frm_ID f" "drop (5 + 16) ?body = frm_Sealed f"
    by (simp_all add: id drop_Cons')
  have h: "?body ! 0 = frameMagic0" "?body ! 1 = frameMagic1" "?body ! 2 = frameVersion"
    "?body ! 3 = code" "?body ! 4 = 16"
    by (simp_all add: nth_Cons')
  have u: "unat (16 :: byte) = 16" "\<not> length (?body @ rest) < 21 + length (frm_Sealed f)"
    "\<not> length ?body < 5" "\<not> length ?body < 5 + 16"
    by (simp_all add: id)
  show ?thesis
    unfolding Unframe_def g prod.case Let_def nat_int d t h k u p bind_result_simps
    using u by (simp add: frameIDLen_def IDSize_def)
qed

lemma Unframe_truncated:
  assumes "wf_frame f" "n < length (frame_bytes f)"
  shows "\<exists>e. Unframe (take n (frame_bytes f)) = Inl e"
proof -
  let ?len = "21 + length (frm_Sealed f)"
  obtain code where l: "frame_bytes f = put_uvarint ?len @
      [frameMagic0, frameMagic1, frameVersion, code, 16] @ frm_ID f @ frm_Sealed f" (is "_ = _ @ ?body")
    using FrameRecord_layout [OF assms(1)] by metis
  have lb: "length ?body = ?len"
    using assms by (simp add: wf_frame_def wf_id_def IDSize_def)
  show ?thesis
  proof (cases "n < length (put_uvarint ?len)")
    case True
    then have "snd (get_uvarint (take n (frame_bytes f))) \<le> 0"
      using get_uvarint_truncated [OF True] by (simp add: l)
    then show ?thesis by (auto simp: Unframe_def split: prod.splits)
  next
    case False
    then have "take n (frame_bytes f) = put_uvarint ?len @ take (n - length (put_uvarint ?len)) ?body"
      by (simp add: l)
    moreover have "get_uvarint \<dots> = (?len, int (length (put_uvarint ?len)))"
      using assms by (intro get_put_uvarint) (simp add: wf_frame_def)
    moreover have "length (take (n - length (put_uvarint ?len)) ?body) < ?len"
      using assms(2) lb by (simp add: l)
    ultimately show ?thesis by (auto simp: Unframe_def Let_def)
  qed
qed

lemma Frames_loop_prefix:
  "Frames_loop (a @ out) blob = (a @ fst (Frames_loop out blob), snd (Frames_loop out blob))"
proof (induction out blob rule: Frames_loop.induct)
  case (1 out blob)
  then show ?case
    by (cases "Unframe blob")
      (auto simp: Frames_loop.simps [of _ blob] split: prod.splits)
qed

lemma Frames_step:
  "b \<noteq> [] \<Longrightarrow> Unframe b = Inr (f, rest) \<Longrightarrow> Frames b = (f # fst (Frames rest), snd (Frames rest))"
  using Frames_loop_prefix [of "[f]" "[]" rest] by (simp add: Frames_def Frames_loop.simps [of _ b])

lemma Frames_base:
  "Frames [] = ([], None)"
  "b \<noteq> [] \<Longrightarrow> Unframe b = Inl e \<Longrightarrow> Frames b = ([], Some e)"
  by (simp_all add: Frames_def Frames_loop.simps)

interpretation fr: framing frame_bytes Unframe wf_frame Frames
proof unfold_locales
  show "frame_bytes r \<noteq> []" if "wf_frame r" for r
    using FrameRecord_layout [OF that] by (metis append_is_Nil_conv put_uvarint_nonempty)
qed (auto simp: Unframe_frame_bytes Unframe_truncated Frames_base Frames_step)

text \<open>
  C7. A frame reads back as the record it was made from, with whatever follows it untouched:
  kind, id and sealed body survive \<open>FrameRecord\<close> then \<open>Unframe\<close>, and the frame is exactly
  \<open>FrameOverhead\<close> bytes longer than the body. A kind outside the vocabulary cannot be framed.
\<close>

theorem Unframe_FrameRecord:
  assumes "wf_id i" and "21 + length sealed < 2 ^ 64"
  shows "(k \<in> {KindMemory, KindSession, KindChunk} \<longrightarrow>
      (\<exists>b. FrameRecord k i sealed = Inr b \<and>
        Unframe (b @ rest) = Inr (\<lparr>frm_Kind = k, frm_ID = i, frm_Sealed = sealed\<rparr>, rest) \<and>
        length b = length sealed + FrameOverhead (length sealed))) \<and>
    (k \<notin> {KindMemory, KindSession, KindChunk} \<longrightarrow> FrameRecord k i sealed = Inl (FrameUnknownKind k))"
proof (intro conjI impI)
  assume k: "k \<in> {KindMemory, KindSession, KindChunk}"
  let ?f = "\<lparr>frm_Kind = k, frm_ID = i, frm_Sealed = sealed\<rparr>"
  have w: "wf_frame ?f" using k assms by (simp add: wf_frame_def)
  obtain code where "FrameRecord k i sealed = Inr (frame_bytes ?f)"
    "frame_bytes ?f = put_uvarint (21 + length sealed) @
      [frameMagic0, frameMagic1, frameVersion, code, 16] @ i @ sealed"
    using FrameRecord_layout [OF w] by auto
  moreover from this have "length (frame_bytes ?f) = length sealed + FrameOverhead (length sealed)"
    using assms(1) by (simp add: FrameOverhead_def frameIDLen_def IDSize_def wf_id_def)
  ultimately show "\<exists>b. FrameRecord k i sealed = Inr b \<and> Unframe (b @ rest) = Inr (?f, rest) \<and>
      length b = length sealed + FrameOverhead (length sealed)"
    using Unframe_frame_bytes [OF w] by blast
qed (simp add: FrameRecord_def kindCode_def)

definition sample_id :: "nat \<Rightarrow> ID" where
  "sample_id n = replicate 15 0 @ [of_nat n]"

lemma sample_id_ok [simp]: "wf_id (sample_id n)"
  by (simp add: sample_id_def wf_id_def IDSize_def)

theorem Unframe_FrameRecord_witness:
  "\<exists>b. FrameRecord KindChunk (sample_id 1) [1, 2, 3] = Inr b \<and>
     Unframe (b @ [9]) =
       Inr (\<lparr>frm_Kind = KindChunk, frm_ID = sample_id 1, frm_Sealed = [1, 2, 3]\<rparr>, [9]) \<and>
     length b = 3 + FrameOverhead 3"
  using Unframe_FrameRecord [of "sample_id 1" "[1, 2, 3]" KindChunk "[9]"]
  by (simp add: numeral_3_eq_3)

text \<open>
  C2. A damaged blob yields every record before the damage. Whatever bytes follow the whole
  frames of a blob, \<open>Frames\<close> returns the framed records first and in order; and a blob of
  frames cut at any byte gives exactly the records that lie wholly before the cut, and an
  error exactly when the cut is inside a frame.
\<close>

theorem Frames_recovers:
  assumes "\<forall>r \<in> set rs. wf_frame r"
  shows "(\<exists>more. fst (Frames (concat (map frame_bytes rs) @ junk)) = rs @ more) \<and>
    Frames (concat (map frame_bytes rs)) = (rs, None) \<and>
    (\<exists>k \<le> length rs.
       length (concat (map frame_bytes (take k rs))) \<le> n \<and>
       (k < length rs \<longrightarrow> n < length (concat (map frame_bytes (take (Suc k) rs)))) \<and>
       fst (Frames (take n (concat (map frame_bytes rs)))) = take k rs \<and>
       (k < length rs \<longrightarrow>
          (snd (Frames (take n (concat (map frame_bytes rs)))) = None \<longleftrightarrow>
           n = length (concat (map frame_bytes (take k rs))))))"
  using fr.walk_concat [OF assms, of junk] fr.walk_whole [OF assms] fr.walk_truncated [OF assms, of n]
  by auto

theorem Frames_recovers_witness:
  "fst (Frames (concat (map frame_bytes
      [\<lparr>frm_Kind = KindMemory, frm_ID = sample_id 1, frm_Sealed = [5, 6]\<rparr>]) @ [200])) \<noteq> []"
  using Frames_recovers [of "[\<lparr>frm_Kind = KindMemory, frm_ID = sample_id 1, frm_Sealed = [5, 6]\<rparr>]"
      "[200]" 0]
  by (auto simp: wf_frame_def)

end
