(* ===== verification/Go_Base64.thy ===== *)
theory Go_Base64
  imports Prelude
begin

text \<open>
  Go's \<open>base64.StdEncoding\<close>: the padded encoding of a byte string and its decoder, which
  skips carriage returns and newlines and refuses any other text that is not whole quanta.
\<close>

definition b64_char :: "nat \<Rightarrow> byte" where
  "b64_char n =
     of_nat (if n < 26 then n + 65 else if n < 52 then n + 71 else if n < 62 then n - 4
             else if n = 62 then 43 else 47)"

definition b64_pad :: byte where
  "b64_pad = 61"

definition b64_value :: "byte \<Rightarrow> nat option" where
  "b64_value c =
     (let m = unat c in
      if 65 \<le> m \<and> m \<le> 90 then Some (m - 65)
      else if 97 \<le> m \<and> m \<le> 122 then Some (m - 71)
      else if 48 \<le> m \<and> m \<le> 57 then Some (m + 4)
      else if m = 43 then Some 62
      else if m = 47 then Some 63
      else None)"

fun b64_encode :: "bytes \<Rightarrow> bytes" where
  "b64_encode [] = []"
| "b64_encode [x] =
     (let a = unat x in [b64_char (a div 4), b64_char (a mod 4 * 16), b64_pad, b64_pad])"
| "b64_encode [x, y] =
     (let a = unat x; b = unat y in
      [b64_char (a div 4), b64_char (a mod 4 * 16 + b div 16), b64_char (b mod 16 * 4), b64_pad])"
| "b64_encode (x # y # z # zs) =
     (let a = unat x; b = unat y; c = unat z in
      [b64_char (a div 4), b64_char (a mod 4 * 16 + b div 16), b64_char (b mod 16 * 4 + c div 64),
       b64_char (c mod 64)] @ b64_encode zs)"

fun b64_quanta :: "bytes \<Rightarrow> bytes option" where
  "b64_quanta [] = Some []"
| "b64_quanta (p # q # r # s # rest) =
     (case (b64_value p, b64_value q) of
        (Some u, Some v) \<Rightarrow>
          (let x = of_nat (u * 4 + v div 16) in
           if s = b64_pad then
             (if rest \<noteq> [] then None
              else if r = b64_pad then Some [x]
              else case b64_value r of
                None \<Rightarrow> None
              | Some w \<Rightarrow> Some [x, of_nat (v mod 16 * 16 + w div 4)])
           else case (b64_value r, b64_value s) of
             (Some w, Some t) \<Rightarrow>
               map_option (\<lambda>tl. x # of_nat (v mod 16 * 16 + w div 4) # of_nat (w mod 4 * 64 + t) # tl)
                 (b64_quanta rest)
           | _ \<Rightarrow> None)
      | _ \<Rightarrow> None)"
| "b64_quanta _ = None"

definition b64_decode :: "bytes \<Rightarrow> bytes option" where
  "b64_decode t = b64_quanta (filter (\<lambda>c. c \<noteq> 10 \<and> c \<noteq> 13) t)"

section \<open>The decoder reads what the encoder wrote\<close>

lemma unat_b64_char:
  "n < 64 \<Longrightarrow> unat (b64_char n) =
     (if n < 26 then n + 65 else if n < 52 then n + 71 else if n < 62 then n - 4
      else if n = 62 then 43 else 47)"
  unfolding b64_char_def by (rule unat_of_nat_byte) auto

lemma b64_value_char [simp]: "n < 64 \<Longrightarrow> b64_value (b64_char n) = Some n"
  unfolding b64_value_def unat_b64_char Let_def by auto

lemma b64_char_special:
  assumes "n < 64"
  shows "b64_char n \<noteq> b64_pad" "b64_char n \<noteq> 10" "b64_char n \<noteq> 13"
proof -
  have "unat (b64_char n) \<noteq> 61 \<and> unat (b64_char n) \<noteq> 10 \<and> unat (b64_char n) \<noteq> 13"
    unfolding unat_b64_char [OF assms] using assms by auto
  then show "b64_char n \<noteq> b64_pad" "b64_char n \<noteq> 10" "b64_char n \<noteq> 13"
    by (auto simp: b64_pad_def)
qed

lemma two_digits: "r < n \<Longrightarrow> (q * n + r) div n = q" "r < n \<Longrightarrow> (q * n + r) mod n = (r :: nat)"
  by simp_all

lemma sextets:
  assumes "a < 256" "b < 256" "c < (256 :: nat)"
  shows "a div 4 < 64" "a mod 4 * 16 + b div 16 < 64" "b mod 16 * 4 + c div 64 < 64" "c mod 64 < 64"
    "a mod 4 * 16 < 64" "b mod 16 * 4 < 64"
    "a div 4 * 4 + (a mod 4 * 16 + b div 16) div 16 = a"
    "(a mod 4 * 16 + b div 16) mod 16 * 16 + (b mod 16 * 4 + c div 64) div 4 = b"
    "(b mod 16 * 4 + c div 64) mod 4 * 64 + c mod 64 = c"
proof -
  have small: "b div 16 < 16" "c div 64 < 4" "a mod 4 < 4" "b mod 16 < 16"
    using assms by (simp_all add: less_mult_imp_div_less)
  show "a div 4 < 64" using assms by (simp add: less_mult_imp_div_less)
  show "a mod 4 * 16 + b div 16 < 64" "b mod 16 * 4 + c div 64 < 64" "c mod 64 < 64"
    "a mod 4 * 16 < 64" "b mod 16 * 4 < 64"
    using small by linarith+
  show "a div 4 * 4 + (a mod 4 * 16 + b div 16) div 16 = a"
    "(a mod 4 * 16 + b div 16) mod 16 * 16 + (b mod 16 * 4 + c div 64) div 4 = b"
    "(b mod 16 * 4 + c div 64) mod 4 * 64 + c mod 64 = c"
    unfolding two_digits(1) [OF small(1)] two_digits(2) [OF small(1)] two_digits(1) [OF small(2)]
      two_digits(2) [OF small(2)] by simp_all
qed

lemma b64_encode_chars: "c \<in> set (b64_encode s) \<Longrightarrow> c \<noteq> 10 \<and> c \<noteq> 13"
proof (induction s rule: b64_encode.induct)
  case (2 x)
  then show ?case
    using sextets [of "unat x" 0 0] by (auto simp: Let_def b64_pad_def b64_char_special)
next
  case (3 x y)
  then show ?case
    using sextets [of "unat x" "unat y" 0] by (auto simp: Let_def b64_pad_def b64_char_special)
next
  case (4 x y z zs)
  then show ?case
    using sextets [of "unat x" "unat y" "unat z"] by (auto simp: Let_def b64_char_special)
qed simp

lemma b64_quanta_chars:
  "u < 64 \<Longrightarrow> v < 64 \<Longrightarrow> w < 64 \<Longrightarrow> t < 64 \<Longrightarrow>
   b64_quanta (b64_char u # b64_char v # b64_char w # b64_char t # rest) =
     map_option (\<lambda>tl. of_nat (u * 4 + v div 16) # of_nat (v mod 16 * 16 + w div 4) #
       of_nat (w mod 4 * 64 + t) # tl) (b64_quanta rest)"
  by (simp add: b64_char_special Let_def)

lemma b64_quanta_encode: "b64_quanta (b64_encode s) = Some s"
proof (induction s rule: b64_encode.induct)
  case (2 x)
  show ?case
    using sextets [of "unat x" 0 0] by (simp add: Let_def b64_char_special)
next
  case (3 x y)
  show ?case
    using sextets [of "unat x" "unat y" 0] b64_char_special(1) [of "unat y mod 16 * 4"]
    by (simp add: Let_def)
next
  case (4 x y z zs)
  note S = sextets [OF unat_byte_less [of x] unat_byte_less [of y] unat_byte_less [of z]]
  show ?case
    unfolding b64_encode.simps Let_def append_Cons append_Nil b64_quanta_chars [OF S(1-4)] S(7-9)
    using 4 by simp
qed simp

lemma b64_decode_encode [simp, codec_simps]: "b64_decode (b64_encode s) = Some s"
proof -
  have "filter (\<lambda>c. c \<noteq> 10 \<and> c \<noteq> 13) (b64_encode s) = b64_encode s"
    by (auto simp: filter_id_conv dest: b64_encode_chars)
  then show ?thesis by (simp add: b64_decode_def b64_quanta_encode)
qed

lemma length_b64_encode [size_simps]: "length (b64_encode s) = 4 * ((length s + 2) div 3)"
proof (induction s rule: b64_encode.induct)
  case (4 x y z zs)
  have "(length (x # y # z # zs) + 2) div 3 = (length zs + 2) div 3 + 1" by simp
  with 4 show ?case by (simp add: Let_def)
qed (simp_all add: Let_def)

lemma b64_encode_Nil_iff [simp]: "b64_encode s = [] \<longleftrightarrow> s = []"
  by (cases s rule: b64_encode.cases) (auto simp: Let_def)

section \<open>A truncated encoding\<close>

lemma b64_quanta_length: "b64_quanta t = Some s \<Longrightarrow> 4 dvd length t"
proof (induction t arbitrary: s rule: b64_quanta.induct)
  case (2 p q r v rest)
  show ?case
  proof (cases "rest = []")
    case False
    with "2.prems" obtain s' where "b64_quanta rest = Some s'"
      by (auto simp: Let_def split: option.splits if_splits)
    with "2.IH" have "4 dvd length rest"
      using "2.prems" False by (auto simp: Let_def split: option.splits if_splits)
    then have "4 dvd 4 + length rest" by (simp only: dvd_add_right_iff [OF dvd_refl])
    moreover have "length (p # q # r # v # rest) = 4 + length rest" by simp
    ultimately show ?thesis by (simp only:)
  qed (simp add: numeral_eq_Suc)
qed simp_all

text \<open>
  What a proper prefix of an encoding decodes to, when it decodes at all, is a proper prefix
  of what was encoded.
\<close>

lemma take_b64_encode:
  "4 dvd j \<Longrightarrow> j < length (b64_encode s) \<Longrightarrow>
   take j (b64_encode s) = b64_encode (take (j div 4 * 3) s) \<and> j div 4 * 3 < length s"
proof (induction s arbitrary: j rule: b64_encode.induct)
  case (4 x y z zs)
  show ?case
  proof (cases "j = 0")
    case False
    define i where "i = j - 4"
    have "4 \<le> j" using "4.prems"(1) False by (auto dest: dvd_imp_le)
    then have i: "j = 4 + i" "4 dvd i"
      using "4.prems"(1) by (simp_all add: i_def dvd_diff_nat)
    with "4.prems" have "take i (b64_encode zs) = b64_encode (take (i div 4 * 3) zs) \<and>
        i div 4 * 3 < length zs"
      by (intro "4.IH") (auto simp: Let_def)
    moreover have "j div 4 * 3 = 3 + i div 4 * 3" using i by simp
    moreover have "take (4 + i) (p # q # r # u # t) = p # q # r # u # take i t"
      "take (3 + k) (x # y # z # zs) = x # y # z # take k zs" for p q r u and t :: bytes and k
      by (simp_all add: numeral_eq_Suc)
    ultimately show ?thesis using i by (simp add: Let_def)
  qed simp
qed (auto simp: Let_def dvd_def)

lemma b64_decode_truncated:
  assumes "j < length (b64_encode s)" "b64_decode (take j (b64_encode s)) = Some t"
  shows "\<exists>k < length s. t = take k s"
proof -
  let ?j = "j div 4 * 3"
  have "filter (\<lambda>c. c \<noteq> 10 \<and> c \<noteq> 13) (take j (b64_encode s)) = take j (b64_encode s)"
    by (auto simp: filter_id_conv dest!: in_set_takeD b64_encode_chars)
  with assms(2) have q: "b64_quanta (take j (b64_encode s)) = Some t"
    by (simp add: b64_decode_def)
  with assms(1) have "4 dvd j" using b64_quanta_length [OF q] by (simp add: min_def)
  with assms(1) have "take j (b64_encode s) = b64_encode (take ?j s)" "?j < length s"
    using take_b64_encode by blast+
  with q show ?thesis by (auto simp: b64_quanta_encode)
qed

end
