(* ===== verification/Go_IO.thy ===== *)
theory Go_IO
  imports Prelude
begin

text \<open>
  Sequences of system calls. An operation maps the state of a machine to a result and the
  state after it; a Go function that returns early with an error is a bind that stops.

  Which calls fail is not decided by the model: \<open>mc_plan\<close> gives, for the n-th system call of
  the run, whether it succeeds or fails, and for a write that fails how many of its bytes had
  reached the file. A process that dies at some point is the plan in which every later call
  fails, so a statement about every plan covers every crash of the process. The plan also
  supplies the random bytes of the n-th call.
\<close>

section \<open>Operations\<close>

type_synonym ('s, 'e, 'a) io = "'s \<Rightarrow> ('e, 'a) result \<times> 's"

definition ret_io :: "'a \<Rightarrow> ('s, 'e, 'a) io" where
  "ret_io x s = (Inr x, s)"

definition fail_io :: "'e \<Rightarrow> ('s, 'e, 'a) io" where
  "fail_io e s = (Inl e, s)"

definition bind_io :: "('s, 'e, 'a) io \<Rightarrow> ('a \<Rightarrow> ('s, 'e, 'b) io) \<Rightarrow> ('s, 'e, 'b) io" where
  "bind_io m f s = (case m s of (Inl e, s') \<Rightarrow> (Inl e, s') | (Inr x, s') \<Rightarrow> f x s')"

definition get_io :: "('s \<Rightarrow> 'a) \<Rightarrow> ('s, 'e, 'a) io" where
  "get_io f s = (Inr (f s), s)"

definition put_io :: "('s \<Rightarrow> 's) \<Rightarrow> ('s, 'e, unit) io" where
  "put_io f s = (Inr (), f s)"

definition lift_io :: "('e, 'a) result \<Rightarrow> ('s, 'e, 'a) io" where
  "lift_io r s = (r, s)"

text \<open>A deferred call: it runs however the body ended, and its error counts too.\<close>

definition finally_io :: "('s, 'e, 'a) io \<Rightarrow> ('s, 'e, unit) io \<Rightarrow> ('s, 'e, 'a) io" where
  "finally_io m c s =
     (case m s of
        (Inl e, s1) \<Rightarrow> (Inl e, snd (c s1))
      | (Inr x, s1) \<Rightarrow> (case c s1 of (Inl e, s2) \<Rightarrow> (Inl e, s2) | (Inr _, s2) \<Rightarrow> (Inr x, s2)))"

text \<open>An error that is returned after a clean-up was tried.\<close>

definition fail_after :: "'e \<Rightarrow> ('s, 'e, unit) io \<Rightarrow> ('s, 'e, 'a) io" where
  "fail_after e c s = (Inl e, snd (c s))"

definition catch_io :: "('s, 'e, 'a) io \<Rightarrow> ('e \<Rightarrow> ('s, 'e, 'a) io) \<Rightarrow> ('s, 'e, 'a) io" where
  "catch_io m h s = (case m s of (Inl e, s') \<Rightarrow> h e s' | (Inr x, s') \<Rightarrow> (Inr x, s'))"

lemma bind_lift_io [simp]:
  "bind_io (lift_io (Inr x)) f = f x" "bind_io (lift_io (Inl e)) f = fail_io e"
  by (simp_all add: bind_io_def lift_io_def fail_io_def fun_eq_iff)

section \<open>System calls and their faults\<close>

datatype fault = NoFault | Fault nat

record machine =
  mc_plan :: "nat \<Rightarrow> fault"
  mc_rand :: "nat \<Rightarrow> bytes"
  mc_step :: nat

definition next_fault :: "('z machine_scheme, 'e, fault) io" where
  "next_fault s = (Inr (mc_plan s (mc_step s)), s\<lparr>mc_step := mc_step s + 1\<rparr>)"

text \<open>A call that changes no file the model keeps: it succeeds or it fails.\<close>

definition syscall :: "'e \<Rightarrow> ('z machine_scheme, 'e, unit) io" where
  "syscall e = bind_io next_fault (\<lambda>f. if f = NoFault then ret_io () else fail_io e)"

text \<open>A call that changes the state when it succeeds.\<close>

definition effect :: "'e \<Rightarrow> ('z machine_scheme \<Rightarrow> 'z machine_scheme) \<Rightarrow> ('z machine_scheme, 'e, unit) io" where
  "effect e f = bind_io (syscall e) (\<lambda>_. put_io f)"

definition read_rand :: "('z machine_scheme, 'e, bytes option) io" where
  "read_rand s =
     (Inr (if mc_plan s (mc_step s) = NoFault then Some (mc_rand s (mc_step s)) else None),
      s\<lparr>mc_step := mc_step s + 1\<rparr>)"

text \<open>\<open>Truncate\<close>: a file made longer is filled with zeros.\<close>

definition truncate_to :: "nat \<Rightarrow> bytes \<Rightarrow> bytes" where
  "truncate_to sz b = take sz b @ replicate (sz - length b) 0"

lemma truncate_to_take: "n \<le> length d \<Longrightarrow> truncate_to n d = take n d"
  by (simp add: truncate_to_def)

section \<open>Triples\<close>

text \<open>
  From a state with the precondition, a run that returns ends with the postcondition of its
  value and a run that fails ends with the exceptional postcondition.
\<close>

definition triple ::
  "('s \<Rightarrow> bool) \<Rightarrow> ('s, 'e, 'a) io \<Rightarrow> ('a \<Rightarrow> 's \<Rightarrow> bool) \<Rightarrow> ('s \<Rightarrow> bool) \<Rightarrow> bool" where
  "triple P m Q E \<longleftrightarrow>
     (\<forall>s. P s \<longrightarrow>
        (\<forall>x s'. m s = (Inr x, s') \<longrightarrow> Q x s') \<and> (\<forall>e s'. m s = (Inl e, s') \<longrightarrow> E s'))"

lemma tripleI:
  "(\<And>s x s'. P s \<Longrightarrow> m s = (Inr x, s') \<Longrightarrow> Q x s') \<Longrightarrow>
   (\<And>s e s'. P s \<Longrightarrow> m s = (Inl e, s') \<Longrightarrow> E s') \<Longrightarrow> triple P m Q E"
  by (simp add: triple_def)

lemma tripleD:
  assumes "triple P m Q E" "P s"
  shows "m s = (Inr x, s') \<Longrightarrow> Q x s'" "m s = (Inl e, s') \<Longrightarrow> E s'"
  using assms by (simp_all add: triple_def)

lemma triple_conseq:
  "triple P m Q E \<Longrightarrow> (\<And>s. P' s \<Longrightarrow> P s) \<Longrightarrow> (\<And>x s. Q x s \<Longrightarrow> Q' x s) \<Longrightarrow>
   (\<And>s. E s \<Longrightarrow> E' s) \<Longrightarrow> triple P' m Q' E'"
  unfolding triple_def by blast

lemma triple_bind:
  assumes "triple P m R E" and "\<And>x. triple (R x) (f x) Q E"
  shows "triple P (bind_io m f) Q E"
proof (rule tripleI)
  fix s y s' assume s: "P s" "bind_io m f s = (Inr y, s')"
  then obtain x s1 where "m s = (Inr x, s1)" "f x s1 = (Inr y, s')"
    by (auto simp: bind_io_def split: prod.splits sum.splits)
  with s assms show "Q y s'" by (meson tripleD(1))
next
  fix s e s' assume s: "P s" "bind_io m f s = (Inl e, s')"
  then consider "m s = (Inl e, s')" | x s1 where "m s = (Inr x, s1)" "f x s1 = (Inl e, s')"
    by (auto simp: bind_io_def split: prod.splits sum.splits)
  then show "E s'" using s assms by cases (meson tripleD)+
qed

lemma triple_ret: "(\<And>s. P s \<Longrightarrow> Q x s) \<Longrightarrow> triple P (ret_io x) Q E"
  by (simp add: triple_def ret_io_def)

lemma triple_fail: "(\<And>s. P s \<Longrightarrow> E s) \<Longrightarrow> triple P (fail_io e) Q E"
  by (simp add: triple_def fail_io_def)

lemma triple_get: "(\<And>s. P s \<Longrightarrow> Q (f s) s) \<Longrightarrow> triple P (get_io f) Q E"
  by (simp add: triple_def get_io_def)

lemma triple_put: "(\<And>s. P s \<Longrightarrow> Q () (f s)) \<Longrightarrow> triple P (put_io f) Q E"
  by (simp add: triple_def put_io_def)

lemma triple_lift:
  "(\<And>s x. P s \<Longrightarrow> r = Inr x \<Longrightarrow> Q x s) \<Longrightarrow> (\<And>s e. P s \<Longrightarrow> r = Inl e \<Longrightarrow> E s) \<Longrightarrow>
   triple P (lift_io r) Q E"
  by (cases r) (auto simp: triple_def lift_io_def)

lemma triple_fail_after:
  assumes "triple P c (\<lambda>_. E) E"
  shows "triple P (fail_after e c) Q E"
proof (rule tripleI)
  fix s e' s' assume "P s" "fail_after e c s = (Inl e', s')"
  moreover obtain r s1 where "c s = (r, s1)" by (cases "c s")
  ultimately show "E s'"
    using tripleD [OF assms] by (cases r) (auto simp: fail_after_def)
qed (simp add: fail_after_def)

lemma triple_finally:
  assumes "triple P m R E'"
    and "\<And>x. triple (R x) c (\<lambda>_. Q x) E"
    and "triple E' c (\<lambda>_. E) E"
  shows "triple P (finally_io m c) Q E"
proof (rule tripleI)
  fix s x s' assume s: "P s" "finally_io m c s = (Inr x, s')"
  then obtain s1 where "m s = (Inr x, s1)" "c s1 = (Inr (), s')"
    by (auto simp: finally_io_def split: prod.splits sum.splits)
  with s assms(1,2) show "Q x s'" by (meson tripleD(1))
next
  fix s e s' assume s: "P s" "finally_io m c s = (Inl e, s')"
  then consider s1 where "m s = (Inl e, s1)" "s' = snd (c s1)"
    | x s1 where "m s = (Inr x, s1)" "c s1 = (Inl e, s')"
    by (auto simp: finally_io_def split: prod.splits sum.splits)
  then show "E s'"
  proof cases
    case 1
    with s assms(1) have "E' s1" by (meson tripleD(2))
    moreover obtain r where "c s1 = (r, s')" using 1 by (cases "c s1") auto
    ultimately show ?thesis using assms(3) by (cases r) (auto simp: triple_def)
  next
    case 2
    with s assms(1,2) show ?thesis by (meson tripleD)
  qed
qed

lemma triple_catch:
  assumes "triple P m Q E'" and "\<And>e. triple E' (h e) Q E"
  shows "triple P (catch_io m h) Q E"
proof (rule tripleI)
  fix s x s' assume s: "P s" "catch_io m h s = (Inr x, s')"
  then consider "m s = (Inr x, s')" | e s1 where "m s = (Inl e, s1)" "h e s1 = (Inr x, s')"
    by (auto simp: catch_io_def split: prod.splits sum.splits)
  then show "Q x s'" using s assms by cases (meson tripleD)+
next
  fix s e s' assume s: "P s" "catch_io m h s = (Inl e, s')"
  then obtain e1 s1 where "m s = (Inl e1, s1)" "h e1 s1 = (Inl e, s')"
    by (auto simp: catch_io_def split: prod.splits sum.splits)
  then show "E s'" using s assms by (meson tripleD(2))
qed

lemma next_fault_runs:
  "next_fault s = (Inr (mc_plan s (mc_step s)), s\<lparr>mc_step := mc_step s + 1\<rparr>)"
  by (simp add: next_fault_def)

lemma syscall_runs:
  "syscall e s =
     (if mc_plan s (mc_step s) = NoFault then Inr () else Inl e, s\<lparr>mc_step := mc_step s + 1\<rparr>)"
  by (simp add: syscall_def next_fault_def bind_io_def ret_io_def fail_io_def)

text \<open>Reading a part of the state whose value the precondition fixes.\<close>

lemma triple_bind_get:
  "(\<And>s. P s \<Longrightarrow> f s = a) \<Longrightarrow> triple P (g a) Q E \<Longrightarrow> triple P (bind_io (get_io f) g) Q E"
  by (simp add: triple_def bind_io_def get_io_def)

lemma triple_split: "(\<And>x. triple (\<lambda>s. P s \<and> f s = x) m Q E) \<Longrightarrow> triple P m Q E"
  by (simp add: triple_def)

lemma triple_satisfiable: "(\<And>s0. P s0 \<Longrightarrow> triple P m Q E) \<Longrightarrow> triple P m Q E"
  unfolding triple_def by blast

lemma triple_assume: "(A \<Longrightarrow> triple P m Q E) \<Longrightarrow> triple (\<lambda>s. P s \<and> A) m Q E"
  unfolding triple_def by blast

text \<open>
  Predicates on the part of the state the calls themselves do not count on, under a fixed
  plan: what a call that changes no file keeps.
\<close>

definition stable :: "(nat \<Rightarrow> fault) \<Rightarrow> ('z machine_scheme \<Rightarrow> bool) \<Rightarrow> bool" where
  "stable pl P \<longleftrightarrow> (\<forall>s k. P (s\<lparr>mc_step := k\<rparr>) = P s) \<and> (\<forall>s. P s \<longrightarrow> mc_plan s = pl)"

definition no_faults :: "(nat \<Rightarrow> fault) \<Rightarrow> bool" where
  "no_faults pl \<longleftrightarrow> (\<forall>i. pl i = NoFault)"

lemma stable_or: "stable pl P \<Longrightarrow> stable pl Q \<Longrightarrow> stable pl (\<lambda>s. P s \<or> Q s)"
  by (simp add: stable_def)

lemma stable_and: "stable pl P \<Longrightarrow> stable pl (\<lambda>s. P s \<and> A)"
  by (simp add: stable_def)

lemma triple_call:
  "stable pl P \<Longrightarrow> triple P (syscall e) (\<lambda>_. P) (\<lambda>s. P s \<and> \<not> no_faults pl)"
  by (auto simp: triple_def syscall_runs no_faults_def stable_def split: if_splits)

lemma triple_change:
  assumes "stable pl P" "\<And>s. P s \<Longrightarrow> Q () (f s)"
  shows "triple P (effect e f) Q (\<lambda>s. P s \<and> \<not> no_faults pl)"
  unfolding effect_def
  by (rule triple_bind [OF triple_call [OF assms(1)]]) (simp add: triple_put assms(2))

lemma triple_outcome:
  "stable pl P \<Longrightarrow> triple P next_fault (\<lambda>f s. P s \<and> (f = NoFault \<or> \<not> no_faults pl)) E"
  by (auto simp: triple_def next_fault_def stable_def no_faults_def)

lemma triple_random:
  "stable pl P \<Longrightarrow> triple P read_rand
    (\<lambda>r s. P s \<and> (case r of None \<Rightarrow> \<not> no_faults pl | Some b \<Rightarrow> \<exists>k. b = mc_rand s k)) E"
  by (auto simp: triple_def read_rand_def stable_def no_faults_def)

text \<open>A run whose failures all need a fault returns when there is none.\<close>

lemma triple_returns:
  assumes "triple P m Q (\<lambda>s. E s \<and> F)" "P s" "\<not> F"
  shows "\<exists>x s'. m s = (Inr x, s') \<and> Q x s'"
proof -
  obtain r s' where m: "m s = (r, s')" by (cases "m s")
  with assms show ?thesis
    by (cases r) (auto simp: triple_def)
qed

end
