(* ===== verification/Man_Lines.thy ===== *)
theory Man_Lines
  imports Seal_Frame Go_Base64 Go_IO
begin

text \<open>
  Package \<open>manifest\<close>, the durable form of the catalog (\<open>manifest/entry.go\<close>,
  \<open>manifest/lines.go\<close>): one sealed entry per line, and the reader that replays a stream of
  lines into the current entry per record and the order records first appeared.

  The JSON codec of an entry is a parameter (\<open>cd_marshal\<close>, \<open>cd_unmarshal\<close>), as are the
  libraries of package \<open>seal\<close>; \<open>entry_ok\<close> says of an entry that it survives the codec and
  that its line is within the reader's limit. The buffered scanner of the standard library is
  modelled on the whole remaining stream: it delivers the tokens \<open>scanLine\<close> cuts, until a
  line does not fit its buffer of \<open>maxLineBytes\<close>.
\<close>

section \<open>Entries and their lines\<close>

record Entry =
  me_ID :: ID
  me_Kind :: Kind
  me_Type :: RecType
  me_Version :: int
  me_CID :: CID
  me_ObjectRef :: string
  me_SlabID :: string
  me_Bytes :: int
  me_Tags :: "string list"
  me_WrittenAt :: Time
  me_Deleted :: bool

record codec =
  cd_crypto :: crypto
  cd_sealer :: Sealer
  cd_marshal :: "Entry \<Rightarrow> bytes option"
  cd_unmarshal :: "bytes \<Rightarrow> Entry option"

definition maxLineBytes :: nat where
  "maxLineBytes = 1048576"

datatype line_error = BadBase64 | BadSeal seal_error | BadJSON

datatype man_error =
    MarshalFailed ID
  | SealFailed ID seal_error
  | LineUnreadable string nat line_error
  | LineTooLong string
  | IOFailed string
  | NoLineBreak
  | EntryNotFound ID

definition encodeEntry :: "codec \<Rightarrow> bytes option \<Rightarrow> Entry \<Rightarrow> (man_error, bytes) result" where
  "encodeEntry C nonce entry =
     (case cd_marshal C entry of
        None \<Rightarrow> Inl (MarshalFailed (me_ID entry))
      | Some plaintext \<Rightarrow>
          (case Seal (cd_crypto C) (cd_sealer C) nonce plaintext of
             Inl err \<Rightarrow> Inl (SealFailed (me_ID entry) err)
           | Inr sealed \<Rightarrow> Inr (b64_encode sealed @ [10])))"

definition decodeLine :: "codec \<Rightarrow> bytes \<Rightarrow> (line_error, Entry) result" where
  "decodeLine C txt =
     (case b64_decode txt of
        None \<Rightarrow> Inl BadBase64
      | Some sealed \<Rightarrow>
          (case Open (cd_crypto C) (cd_sealer C) sealed of
             Inl err \<Rightarrow> Inl (BadSeal err)
           | Inr plaintext \<Rightarrow>
               (case cd_unmarshal C plaintext of
                  None \<Rightarrow> Inl BadJSON
                | Some entry \<Rightarrow> Inr entry)))"

section \<open>Lines of a stream\<close>

fun IndexByte :: "bytes \<Rightarrow> byte \<Rightarrow> nat option" where
  "IndexByte [] c = None"
| "IndexByte (b # bs) c = (if b = c then Some 0 else map_option Suc (IndexByte bs c))"

definition scanLine :: "bytes \<Rightarrow> bool \<Rightarrow> nat \<times> bytes option" where
  "scanLine data atEOF =
     (case IndexByte data 10 of
        Some i \<Rightarrow> (i + 1, Some (take (i + 1) data))
      | None \<Rightarrow> if atEOF \<and> length data > 0 then (length data, Some data) else (0, None))"

definition trim_suffix :: "bytes \<Rightarrow> byte \<Rightarrow> bytes" where
  "trim_suffix t c = (if t \<noteq> [] \<and> last t = c then butlast t else t)"

definition trimLine :: "bytes \<Rightarrow> bytes" where
  "trimLine token = trim_suffix (trim_suffix token 10) 13"

lemma IndexByte_None_iff: "IndexByte bs c = None \<longleftrightarrow> c \<notin> set bs"
  by (induction bs) auto

lemma IndexByte_split: "c \<notin> set l \<Longrightarrow> IndexByte (l @ c # rest) c = Some (length l)"
  by (induction l) auto

lemma scanLine_advance:
  "scanLine data b = (n, Some t) \<Longrightarrow> length (drop n data) < length data"
  by (cases data) (auto simp: scanLine_def split: option.splits if_splits)

text \<open>
  The tokens of a stream, and whether the scanner stopped at a line that does not fit: a line
  with its newline may take the whole buffer, one without is refused once the buffer is full.
\<close>

function scan_lines :: "bytes \<Rightarrow> bytes list \<times> bool" where
  "scan_lines data =
     (case scanLine data True of
        (n, Some token) \<Rightarrow>
          (if length token > maxLineBytes \<or> last token \<noteq> 10 \<and> length token = maxLineBytes
           then ([], True)
           else (token # fst (scan_lines (drop n data)), snd (scan_lines (drop n data))))
      | (n, None) \<Rightarrow> ([], False))"
  by pat_completeness auto
termination
  by (relation "measure length") (auto dest!: sym [of _ "scanLine _ _"] scanLine_advance)

declare scan_lines.simps [simp del]

section \<open>Replaying lines\<close>

type_synonym catalog = "(ID \<rightharpoonup> Entry) \<times> ID list"

record replay =
  rp_end :: nat
  rp_cutOff :: "man_error option"

text \<open>The current entry per record and the order records first appeared, with one more entry.\<close>

definition note_entry :: "Entry \<Rightarrow> catalog \<Rightarrow> catalog" where
  "note_entry e c =
     (let (entries, order) = c in
      (entries(me_ID e \<mapsto> e), if entries (me_ID e) = None then order @ [me_ID e] else order))"

fun read_lines ::
  "codec \<Rightarrow> string \<Rightarrow> nat \<Rightarrow> nat \<Rightarrow> bytes list \<Rightarrow> catalog \<Rightarrow> replay \<Rightarrow>
   (man_error, catalog \<times> replay) result" where
  "read_lines C name line offset [] cat read = Inr (cat, read)"
| "read_lines C name line offset (token # tokens) cat read =
     (let offset' = offset + length token; txt = trimLine token in
      if length txt = 0 then read_lines C name (line + 1) offset' tokens cat read
      else case rp_cutOff read of
        Some err \<Rightarrow> Inl err
      | None \<Rightarrow>
          (case decodeLine C txt of
             Inl err \<Rightarrow>
               read_lines C name (line + 1) offset' tokens cat
                 (read\<lparr>rp_cutOff := Some (LineUnreadable name line err)\<rparr>)
           | Inr entry \<Rightarrow>
               read_lines C name (line + 1) offset' tokens (note_entry entry cat)
                 (read\<lparr>rp_end := offset'\<rparr>)))"

definition readEntries ::
  "codec \<Rightarrow> string \<Rightarrow> bytes \<Rightarrow> catalog \<Rightarrow> (man_error, catalog \<times> replay) result" where
  "readEntries C name data cat =
     (let (tokens, tooLong) = scan_lines data in
      bind_result (read_lines C name 1 0 tokens cat \<lparr>rp_end = 0, rp_cutOff = None\<rparr>)
        (\<lambda>r. if tooLong then Inl (LineTooLong name) else Inr r))"

section \<open>The lines the scanner delivers\<close>

text \<open>A stream that ends where a line ends.\<close>

definition closed :: "bytes \<Rightarrow> bool" where
  "closed data \<longleftrightarrow> data = [] \<or> last data = 10"

lemma closed_simps [simp]: "closed []" "closed (l @ [10])"
  by (simp_all add: closed_def)

lemma closed_line: "closed (l @ 10 # r) \<longleftrightarrow> closed r"
  by (auto simp: closed_def)

lemma line_induct [case_names Nil tail line]:
  assumes "P []" and "\<And>l. l \<noteq> [] \<Longrightarrow> 10 \<notin> set l \<Longrightarrow> P l"
    and "\<And>l r. 10 \<notin> set l \<Longrightarrow> P r \<Longrightarrow> P (l @ 10 # r)"
  shows "P (data :: bytes)"
proof (induction "length data" arbitrary: data rule: less_induct)
  case less
  show ?case
  proof (cases "10 \<in> set data")
    case True
    then obtain l r where d: "data = l @ 10 # r" "10 \<notin> set l"
      using split_list_first [OF True] by blast
    then have "P r" by (intro less.hyps) simp
    with d show ?thesis using assms(3) by blast
  next
    case False
    then show ?thesis using assms(1,2) by (cases "data = []") auto
  qed
qed

lemma scan_Nil [simp]: "scan_lines [] = ([], False)"
  by (simp add: scan_lines.simps scanLine_def)

lemma scan_tail:
  "l \<noteq> [] \<Longrightarrow> 10 \<notin> set l \<Longrightarrow>
   scan_lines l = (if length l < maxLineBytes then ([l], False) else ([], True))"
proof -
  assume l: "l \<noteq> []" "10 \<notin> set l"
  then have "last l \<noteq> 10" by (metis last_in_set)
  with l show ?thesis
    by (auto simp: scan_lines.simps [of l] scanLine_def IndexByte_None_iff [THEN iffD2])
qed

lemma scan_line:
  "10 \<notin> set l \<Longrightarrow>
   scan_lines (l @ 10 # r) =
     (if length l < maxLineBytes then ((l @ [10]) # fst (scan_lines r), snd (scan_lines r))
      else ([], True))"
  by (subst scan_lines.simps) (auto simp: scanLine_def IndexByte_split)

lemmas scan_simps = scan_tail scan_line

lemma scan_append:
  "closed a \<Longrightarrow> \<not> snd (scan_lines a) \<Longrightarrow>
   scan_lines (a @ b) = (fst (scan_lines a) @ fst (scan_lines b), snd (scan_lines b))"
proof (induction a rule: line_induct)
  case (tail l)
  then show ?case by (auto simp: closed_def dest: last_in_set)
next
  case (line l r)
  then show ?case by (auto simp: scan_line closed_line split: if_splits)
qed simp

lemma scan_concat: "\<not> snd (scan_lines a) \<Longrightarrow> concat (fst (scan_lines a)) = a"
  by (induction a rule: line_induct) (auto simp: scan_simps split: if_splits)

lemma scan_prefix:
  "fst (scan_lines a) = ts @ t # us \<Longrightarrow>
   scan_lines (concat ts) = (ts, False) \<and> closed (concat ts)"
proof (induction a arbitrary: ts rule: line_induct)
  case (tail l)
  then show ?case by (cases ts) (auto simp: scan_simps split: if_splits)
next
  case (line l r)
  show ?case
  proof (cases ts)
    case (Cons t' ts')
    with line.prems line.hyps have t': "t' = l @ [10]" "fst (scan_lines r) = ts' @ t # us"
      "length l < maxLineBytes"
      by (auto simp: scan_line split: if_splits)
    from line.IH [OF t'(2)] show ?thesis
      using t' Cons line.hyps by (simp add: scan_line closed_line)
  qed simp
qed simp

section \<open>Reading lines that are all readable\<close>

fun read_clean :: "codec \<Rightarrow> bytes list \<Rightarrow> catalog \<Rightarrow> catalog option" where
  "read_clean C [] cat = Some cat"
| "read_clean C (token # tokens) cat =
     (if trimLine token = [] then read_clean C tokens cat
      else case decodeLine C (trimLine token) of
        Inl _ \<Rightarrow> None
      | Inr entry \<Rightarrow> read_clean C tokens (note_entry entry cat))"

lemma read_clean_append:
  "read_clean C (ts @ us) cat = Option.bind (read_clean C ts cat) (read_clean C us)"
  by (induction C ts cat rule: read_clean.induct) (auto split: sum.splits)

lemma read_lines_clean:
  "read_clean C ts cat = Some cat' \<Longrightarrow> rp_cutOff read = None \<Longrightarrow>
   \<exists>e. read_lines C name k off (ts @ us) cat read =
       read_lines C name (k + length ts) (off + length (concat ts)) us cat' (read\<lparr>rp_end := e\<rparr>)"
proof (induction ts arbitrary: k off cat read)
  case Nil
  then show ?case by (auto intro!: exI [of _ "rp_end read"])
next
  case (Cons t ts)
  show ?case
  proof (cases "trimLine t = []")
    case True
    then show ?thesis
      using Cons.IH [of cat read "k + 1" "off + length t"] Cons.prems by (simp add: algebra_simps)
  next
    case False
    with Cons.prems obtain entry where d: "decodeLine C (trimLine t) = Inr entry"
      "read_clean C ts (note_entry entry cat) = Some cat'"
      by (auto split: sum.splits)
    then show ?thesis
      using Cons.IH [of "note_entry entry cat" "read\<lparr>rp_end := off + length t\<rparr>" "k + 1" "off + length t"]
        Cons.prems False by (simp add: algebra_simps Let_def)
  qed
qed

lemma read_lines_after_cut:
  "rp_cutOff read = Some err \<Longrightarrow> read_lines C name k off ts cat read = Inr (cat', read') \<Longrightarrow>
   cat' = cat \<and> read' = read"
  by (induction ts arbitrary: k off) (auto simp: Let_def split: if_splits)

text \<open>
  What a replay that did not fail has read: the clean lines before the one it was cut off at,
  if it was, and \<open>end\<close> is where the last of them that holds a change ends.
\<close>

lemma read_lines_result:
  "read_lines C name k off ts cat read = Inr (cat', read') \<Longrightarrow> rp_cutOff read = None \<Longrightarrow>
   if rp_cutOff read' = None then read_clean C ts cat = Some cat'
   else \<exists>us t vs. ts = us @ t # vs \<and> read_clean C us cat = Some cat' \<and>
     rp_end read' = (if us = [] then rp_end read else off + length (concat us))"
proof (induction ts arbitrary: k off cat read)
  case (Cons t ts)
  show ?case
  proof (cases "trimLine t = []")
    case True
    with Cons.prems have r: "read_lines C name (k + 1) (off + length t) ts cat read = Inr (cat', read')"
      by simp
    show ?thesis
    proof (cases "rp_cutOff read' = None")
      case False
      with Cons.IH [OF r Cons.prems(2)] obtain us u vs where I: "ts = us @ u # vs"
        "read_clean C us cat = Some cat'"
        "rp_end read' = (if us = [] then rp_end read else off + length t + length (concat us))"
        by (simp only: if_False) blast
      show ?thesis
      proof (cases "us = []")
        case True
        with I have "t # ts = [] @ t # ts \<and> read_clean C [] cat = Some cat' \<and>
            rp_end read' = (if [] = [] then rp_end read else off + length (concat []))"
          by simp
        with False show ?thesis by metis
      next
        case us: False
        have "t # ts = (t # us) @ u # vs \<and> read_clean C (t # us) cat = Some cat' \<and>
            rp_end read' = (if t # us = [] then rp_end read else off + length (concat (t # us)))"
          using I us True by simp
        with False show ?thesis by metis
      qed
    qed (use Cons.IH [OF r Cons.prems(2)] True in simp)
  next
    case nb: False
    show ?thesis
    proof (cases "decodeLine C (trimLine t)")
      case (Inl err)
      let ?read = "read\<lparr>rp_cutOff := Some (LineUnreadable name k err)\<rparr>"
      have "read_lines C name (k + 1) (off + length t) ts cat ?read = Inr (cat', read')"
        using Cons.prems nb Inl by simp
      then have "cat' = cat" "read' = ?read"
        using read_lines_after_cut [of ?read] by simp_all
      then show ?thesis
        by (simp add: exI [of _ "[]"])
    next
      case (Inr entry)
      let ?read = "read\<lparr>rp_end := off + length t\<rparr>"
      have r: "read_lines C name (k + 1) (off + length t) ts (note_entry entry cat) ?read =
          Inr (cat', read')"
        using Cons.prems nb Inr by (simp add: Let_def)
      have c: "rp_cutOff ?read = None" using Cons.prems by simp
      show ?thesis
      proof (cases "rp_cutOff read' = None")
        case False
        with Cons.IH [OF r c] obtain us u vs where I: "ts = us @ u # vs"
          "read_clean C us (note_entry entry cat) = Some cat'"
          "rp_end read' = (if us = [] then rp_end ?read else off + length t + length (concat us))"
          by (simp only: if_False) blast
        have "t # ts = (t # us) @ u # vs \<and> read_clean C (t # us) cat = Some cat' \<and>
            rp_end read' = (if t # us = [] then rp_end read else off + length (concat (t # us)))"
          using I nb Inr by auto
        with False show ?thesis by metis
      qed (use Cons.IH [OF r c] nb Inr in simp)
    qed
  qed
qed simp

section \<open>Entries survive their lines\<close>

definition codec_ok :: "codec \<Rightarrow> bool" where
  "codec_ok C \<longleftrightarrow> crypto_ok (cd_crypto C) \<and> wf_sealer (cd_sealer C)"

definition entry_ok :: "codec \<Rightarrow> Entry \<Rightarrow> bool" where
  "entry_ok C e \<longleftrightarrow>
     (\<exists>p. cd_marshal C e = Some p \<and> cd_unmarshal C p = Some e \<and>
        4 * ((length (zstd_encode (cd_crypto C) p) + 42) div 3) < maxLineBytes)"

text \<open>
  No proper prefix of a sealing of the entry opens: what authenticated encryption promises of
  a blob whose end is missing.
\<close>

definition torn_detected :: "codec \<Rightarrow> Entry \<Rightarrow> bool" where
  "torn_detected C e \<longleftrightarrow>
     (\<forall>p n b k. cd_marshal C e = Some p \<and> wf_nonce n \<and>
        Seal (cd_crypto C) (cd_sealer C) n p = Inr b \<and> k < length b \<longrightarrow>
        \<not> is_ok (Open (cd_crypto C) (cd_sealer C) (take k b)))"

lemma trimLine_plain:
  "10 \<notin> set l \<Longrightarrow> 13 \<notin> set l \<Longrightarrow> trimLine (l @ [10]) = l \<and> trimLine l = l"
  by (cases "l = []") (auto simp: trimLine_def trim_suffix_def dest: last_in_set)

lemma encodeEntry_line:
  assumes "codec_ok C" "entry_ok C e" "wf_nonce n"
  obtains l where "encodeEntry C n e = Inr (l @ [10])" "l \<noteq> []" "10 \<notin> set l" "13 \<notin> set l"
    "length l < maxLineBytes" "decodeLine C l = Inr e"
    "torn_detected C e \<Longrightarrow> (\<And>j. 0 < j \<Longrightarrow> j < length l \<Longrightarrow> \<not> is_ok (decodeLine C (take j l)))"
proof -
  obtain p where p: "cd_marshal C e = Some p" "cd_unmarshal C p = Some e"
    "4 * ((length (zstd_encode (cd_crypto C) p) + 42) div 3) < maxLineBytes"
    using assms(2) by (auto simp: entry_ok_def)
  have C: "crypto_ok (cd_crypto C)" "wf_sealer (cd_sealer C)"
    using assms(1) by (simp_all add: codec_ok_def)
  obtain b where b: "Seal (cd_crypto C) (cd_sealer C) n p = Inr b"
    using Seal_total [OF C(2) assms(3)] by blast
  note o = Open_Seal [OF C assms(3) b] and len = length_Seal [OF C assms(3) b]
  show thesis
  proof (rule that [of "b64_encode b"])
    show "encodeEntry C n e = Inr (b64_encode b @ [10])"
      using p b by (simp add: encodeEntry_def)
    show "b64_encode b \<noteq> []" using len by (auto simp: Overhead_def NonceSize_def)
    show "10 \<notin> set (b64_encode b)" "13 \<notin> set (b64_encode b)"
      using b64_encode_chars [of _ b] by auto
    show "length (b64_encode b) < maxLineBytes"
      using p(3) by (simp add: length_b64_encode len size_defs algebra_simps)
    show "decodeLine C (b64_encode b) = Inr e"
      by (simp add: decodeLine_def o p)
    fix j assume t: "torn_detected C e" "0 < j" "j < length (b64_encode b)"
    show "\<not> is_ok (decodeLine C (take j (b64_encode b)))"
    proof (cases "b64_decode (take j (b64_encode b))")
      case (Some q)
      then obtain k where "k < length b" "q = take k b"
        using b64_decode_truncated [OF t(3)] by blast
      then have "\<not> is_ok (Open (cd_crypto C) (cd_sealer C) q)"
        using t(1) p b assms(3) by (auto simp: torn_detected_def)
      with Some show ?thesis
        by (auto simp: decodeLine_def is_ok_iff split: sum.splits)
    qed (simp add: decodeLine_def)
  qed
qed

end
