(* ===== verification/Man_Log.thy ===== *)
theory Man_Log
  imports Man_Lines
begin

text \<open>
  Package \<open>manifest\<close>, the log and the snapshot on disk and the catalog over them
  (\<open>manifest/log.go\<close>, \<open>manifest/snapshot.go\<close>, \<open>manifest/manifest.go\<close>).

  The state of an operation is the files (\<open>dk_log\<close>, \<open>dk_snapshot\<close>, \<open>dk_pending\<close>), the
  counters of the \<open>Log\<close> and the \<open>Manifest\<close> of the process that runs it, and the machine
  that decides which system calls fail. Every operation runs under the catalog's file lock
  from its first look at the files to its last change of them, so operations of several
  processes follow each other; each brings its own \<open>Log\<close> and \<open>Manifest\<close> to the same files.
\<close>

section \<open>State\<close>

record Log =
  lg_logBytes :: int
  lg_snapshotBytes :: int
  lg_written :: int
  lg_compactions :: int
  lg_dropped :: int

record Manifest =
  mf_entries :: "ID \<rightharpoonup> Entry"
  mf_order :: "ID list"

record man_state = machine +
  st_log :: Log
  st_man :: Manifest
  dk_log :: bytes
  dk_snapshot :: "bytes option"
  dk_pending :: "bytes option"

type_synonym 'a man_op = "(man_state, man_error, 'a) io"

definition LogName :: string where "LogName = ''manifest.log''"
definition SnapshotName :: string where "SnapshotName = ''manifest.snapshot''"

section \<open>The log file\<close>

definition Log_cut :: "nat \<Rightarrow> unit man_op" where
  "Log_cut sz =
     bind_io (syscall (IOFailed ''open for cut'')) (\<lambda>_.
     bind_io (effect (IOFailed ''truncate'') (\<lambda>s. s\<lparr>dk_log := truncate_to sz (dk_log s)\<rparr>)) (\<lambda>_.
     bind_io (syscall (IOFailed ''sync'')) (\<lambda>_.
     syscall (IOFailed ''close''))))"

text \<open>A write through the append handle: a failed one leaves the bytes that reached the file.\<close>

definition write_log :: "bytes \<Rightarrow> unit man_op" where
  "write_log bs =
     bind_io next_fault (\<lambda>f.
       case f of
         NoFault \<Rightarrow> put_io (\<lambda>s. s\<lparr>dk_log := dk_log s @ bs\<rparr>)
       | Fault n \<Rightarrow>
           bind_io (put_io (\<lambda>s. s\<lparr>dk_log := dk_log s @ take n bs\<rparr>)) (\<lambda>_.
             fail_io (IOFailed ''write'')))"

fun LastIndexByte :: "bytes \<Rightarrow> byte \<Rightarrow> nat option" where
  "LastIndexByte [] c = None"
| "LastIndexByte (b # bs) c =
     (case LastIndexByte bs c of
        Some i \<Rightarrow> Some (Suc i)
      | None \<Rightarrow> if b = c then Some 0 else None)"

definition blockBytes :: nat where "blockBytes = 65536"

function Log_lineStart :: "nat \<Rightarrow> nat \<Rightarrow> nat man_op" where
  "Log_lineStart sz pos s =
     (if pos > 0 then
        (if sz - pos > maxLineBytes then fail_io NoLineBreak s
         else let start = pos - blockBytes in
           bind_io (syscall (IOFailed ''read'')) (\<lambda>_ s'.
             case LastIndexByte (take (pos - start) (drop start (dk_log s'))) 10 of
               Some i \<Rightarrow> (Inr (start + i + 1), s')
             | None \<Rightarrow> Log_lineStart sz start s') s)
      else (Inr 0, s))"
  by pat_completeness auto
termination
  by (relation "measure (\<lambda>(sz, pos, s). pos)") (auto simp: blockBytes_def)

declare Log_lineStart.simps [simp del]

definition drop_counted :: "man_state \<Rightarrow> man_state" where
  "drop_counted s = s\<lparr>st_log := (st_log s)\<lparr>lg_dropped := lg_dropped (st_log s) + 1\<rparr>\<rparr>"

definition bytes_counted :: "nat \<Rightarrow> man_state \<Rightarrow> man_state" where
  "bytes_counted n s =
     s\<lparr>st_log := (st_log s)\<lparr>lg_logBytes := lg_logBytes (st_log s) + int n,
                           lg_written := lg_written (st_log s) + int n\<rparr>\<rparr>"

definition Log_settle :: "codec \<Rightarrow> nat man_op" where
  "Log_settle C =
     bind_io (syscall (IOFailed ''stat'')) (\<lambda>_.
     bind_io (get_io (\<lambda>s. length (dk_log s))) (\<lambda>sz.
       if sz = 0 then ret_io 0
       else
         bind_io (syscall (IOFailed ''read'')) (\<lambda>_.
         bind_io (get_io (\<lambda>s. dk_log s ! (sz - 1))) (\<lambda>last_byte.
           if last_byte = 10 then ret_io sz
           else
             bind_io (Log_lineStart sz sz) (\<lambda>start.
             bind_io (syscall (IOFailed ''read'')) (\<lambda>_.
             bind_io (get_io (\<lambda>s. trimLine (take (sz - start) (drop start (dk_log s))))) (\<lambda>txt.
               if length txt > 0 \<and> \<not> is_ok (decodeLine C txt) then
                 bind_io (Log_cut start) (\<lambda>_.
                 bind_io (put_io drop_counted) (\<lambda>_. ret_io start))
               else
                 bind_io (catch_io (write_log [10]) (\<lambda>err. fail_after err (Log_cut sz))) (\<lambda>_.
                 bind_io (put_io (bytes_counted 1)) (\<lambda>_. ret_io (sz + 1))))))))))"

definition encode_io :: "codec \<Rightarrow> Entry \<Rightarrow> bytes man_op" where
  "encode_io C entry = bind_io read_rand (\<lambda>nonce. lift_io (encodeEntry C nonce entry))"

definition Log_Append :: "codec \<Rightarrow> Entry \<Rightarrow> unit man_op" where
  "Log_Append C entry =
     bind_io (encode_io C entry) (\<lambda>line.
     bind_io (syscall (IOFailed ''lock'')) (\<lambda>_.
     finally_io
       (bind_io (Log_settle C) (\<lambda>pos.
        bind_io (catch_io (write_log line) (\<lambda>err. fail_after err (Log_cut pos))) (\<lambda>_.
        bind_io (syscall (IOFailed ''sync'')) (\<lambda>_.
        put_io (bytes_counted (length line))))))
       (syscall (IOFailed ''unlock''))))"

definition read_snapshot :: "codec \<Rightarrow> catalog man_op" where
  "read_snapshot C =
     bind_io (syscall (IOFailed ''open snapshot'')) (\<lambda>_.
     bind_io (get_io dk_snapshot) (\<lambda>snapshot.
       case snapshot of
         None \<Rightarrow> ret_io (Map.empty, [])
       | Some data \<Rightarrow>
           bind_io (syscall (IOFailed ''read snapshot'')) (\<lambda>_.
           bind_io (lift_io (readEntries C SnapshotName data (Map.empty, []))) (\<lambda>(cat, read).
             case rp_cutOff read of
               Some err \<Rightarrow> fail_io err
             | None \<Rightarrow> ret_io cat))))"

definition set_logBytes :: "nat \<Rightarrow> man_state \<Rightarrow> man_state" where
  "set_logBytes n s = s\<lparr>st_log := (st_log s)\<lparr>lg_logBytes := int n\<rparr>\<rparr>"

definition Log_replay :: "codec \<Rightarrow> catalog man_op" where
  "Log_replay C =
     bind_io (read_snapshot C) (\<lambda>cat0.
     bind_io (syscall (IOFailed ''seek'')) (\<lambda>_.
     bind_io (syscall (IOFailed ''read'')) (\<lambda>_.
     bind_io (get_io dk_log) (\<lambda>data.
     bind_io (lift_io (readEntries C LogName data cat0)) (\<lambda>(cat, read).
     bind_io
       (if rp_cutOff read \<noteq> None
        then bind_io (Log_cut (rp_end read)) (\<lambda>_. put_io drop_counted) else ret_io ()) (\<lambda>_.
     bind_io (Log_settle C) (\<lambda>sz.
     bind_io (put_io (set_logBytes sz)) (\<lambda>_.
     bind_io (syscall (IOFailed ''seek'')) (\<lambda>_.
     ret_io cat)))))))))"

definition Log_Replay :: "codec \<Rightarrow> catalog man_op" where
  "Log_Replay C =
     bind_io (syscall (IOFailed ''lock'')) (\<lambda>_.
       finally_io (Log_replay C) (syscall (IOFailed ''unlock'')))"

definition OpenLog :: "unit man_op" where
  "OpenLog =
     bind_io (syscall (IOFailed ''mkdir'')) (\<lambda>_.
     bind_io (syscall (IOFailed ''open log'')) (\<lambda>_.
     bind_io (syscall (IOFailed ''open lock'')) (\<lambda>_.
     bind_io (syscall (IOFailed ''stat log'')) (\<lambda>_.
     bind_io (syscall (IOFailed ''stat snapshot'')) (\<lambda>_.
     put_io (\<lambda>s. s\<lparr>st_log :=
       \<lparr>lg_logBytes = int (length (dk_log s)),
        lg_snapshotBytes = (case dk_snapshot s of None \<Rightarrow> 0 | Some b \<Rightarrow> int (length b)),
        lg_written = 0, lg_compactions = 0, lg_dropped = 0\<rparr>\<rparr>))))))"

section \<open>Compaction\<close>

definition MinCompactBytes :: int where "MinCompactBytes = 65536"

text \<open>
  \<open>float64(logBytes) > 0.25 * float64(snapshotBytes)\<close>: the conversions and the product are
  exact for file sizes below \<open>2 ^ 53\<close>, so the comparison is the one on integers.
\<close>

definition dueForCompaction :: "Log \<Rightarrow> bool" where
  "dueForCompaction l \<longleftrightarrow>
     \<not> lg_logBytes l < MinCompactBytes \<and> 4 * lg_logBytes l > lg_snapshotBytes l"

definition write_pending :: "bytes \<Rightarrow> unit man_op" where
  "write_pending bs =
     bind_io next_fault (\<lambda>f.
       case f of
         NoFault \<Rightarrow> put_io (\<lambda>s. s\<lparr>dk_pending := map_option (\<lambda>b. b @ bs) (dk_pending s)\<rparr>)
       | Fault n \<Rightarrow>
           bind_io (put_io (\<lambda>s. s\<lparr>dk_pending := map_option (\<lambda>b. b @ take n bs) (dk_pending s)\<rparr>)) (\<lambda>_.
             fail_io (IOFailed ''write snapshot'')))"

fun write_entries :: "codec \<Rightarrow> Entry list \<Rightarrow> nat \<Rightarrow> nat man_op" where
  "write_entries C [] written = ret_io written"
| "write_entries C (entry # entries) written =
     bind_io (encode_io C entry) (\<lambda>line.
     bind_io (write_pending line) (\<lambda>_.
     write_entries C entries (written + length line)))"

definition rename_pending :: "unit man_op" where
  "rename_pending =
     effect (IOFailed ''rename'') (\<lambda>s. s\<lparr>dk_snapshot := dk_pending s, dk_pending := None\<rparr>)"

definition remove_pending :: "unit man_op" where
  "remove_pending =
     catch_io (effect (IOFailed ''remove'') (\<lambda>s. s\<lparr>dk_pending := None\<rparr>)) (\<lambda>_. ret_io ())"

definition compacted :: "nat \<Rightarrow> man_state \<Rightarrow> man_state" where
  "compacted written s =
     s\<lparr>st_log := (st_log s)\<lparr>lg_snapshotBytes := int written, lg_logBytes := 0,
         lg_written := lg_written (st_log s) + int written,
         lg_compactions := lg_compactions (st_log s) + 1\<rparr>\<rparr>"

definition Log_compact :: "codec \<Rightarrow> unit man_op" where
  "Log_compact C =
     bind_io (syscall (IOFailed ''lock'')) (\<lambda>_.
     finally_io
       (bind_io (Log_replay C) (\<lambda>(held, order).
        bind_io (effect (IOFailed ''open pending'') (\<lambda>s. s\<lparr>dk_pending := Some []\<rparr>)) (\<lambda>_.
        finally_io
          (bind_io (write_entries C (map (\<lambda>i. the (held i)) order) 0) (\<lambda>written.
           bind_io (syscall (IOFailed ''sync snapshot'')) (\<lambda>_.
           bind_io (syscall (IOFailed ''close snapshot'')) (\<lambda>_.
           bind_io rename_pending (\<lambda>_.
           bind_io (Log_cut 0) (\<lambda>_.
           bind_io (syscall (IOFailed ''seek'')) (\<lambda>_.
           put_io (compacted written))))))))
          remove_pending)))
       (syscall (IOFailed ''unlock'')))"

section \<open>The catalog of a process\<close>

definition Load :: "codec \<Rightarrow> unit man_op" where
  "Load C =
     bind_io (Log_Replay C) (\<lambda>(entries, order).
       put_io (\<lambda>s. s\<lparr>st_man := \<lparr>mf_entries = entries, mf_order = order\<rparr>\<rparr>))"

definition Manifest_note :: "Entry \<Rightarrow> Manifest \<Rightarrow> Manifest" where
  "Manifest_note entry m =
     m\<lparr>mf_order := (if mf_entries m (me_ID entry) = None then mf_order m @ [me_ID entry]
                    else mf_order m),
       mf_entries := (mf_entries m)(me_ID entry \<mapsto> entry)\<rparr>"

definition Manifest_append :: "codec \<Rightarrow> Entry \<Rightarrow> unit man_op" where
  "Manifest_append C entry =
     bind_io (Log_Append C entry) (\<lambda>_.
       put_io (\<lambda>s. s\<lparr>st_man := Manifest_note entry (st_man s)\<rparr>))"

definition Manifest_Append :: "codec \<Rightarrow> Entry \<Rightarrow> unit man_op" where
  "Manifest_Append C entry =
     bind_io (Manifest_append C entry) (\<lambda>_.
     bind_io (get_io st_log) (\<lambda>l.
       if \<not> dueForCompaction l then ret_io () else Log_compact C))"

definition Manifest_Lookup :: "Manifest \<Rightarrow> ID \<Rightarrow> (man_error, Entry) result" where
  "Manifest_Lookup m i =
     (case mf_entries m i of
        None \<Rightarrow> Inl (EntryNotFound i)
      | Some entry \<Rightarrow> if me_Deleted entry then Inl (EntryNotFound i) else Inr entry)"

definition Manifest_Remove :: "codec \<Rightarrow> Time \<Rightarrow> ID \<Rightarrow> unit man_op" where
  "Manifest_Remove C now i =
     bind_io (get_io st_man) (\<lambda>m.
     bind_io (lift_io (Manifest_Lookup m i)) (\<lambda>entry.
       Manifest_Append C (entry\<lparr>me_Deleted := True, me_WrittenAt := now\<rparr>)))"

definition Manifest_Entries :: "Manifest \<Rightarrow> Entry list" where
  "Manifest_Entries m =
     filter (\<lambda>e. \<not> me_Deleted e) (map (\<lambda>i. the (mf_entries m i)) (mf_order m))"

definition Manifest_Len :: "Manifest \<Rightarrow> nat" where
  "Manifest_Len m = card {i. \<exists>e. mf_entries m i = Some e \<and> \<not> me_Deleted e}"

definition Manifest_Named :: "Manifest \<Rightarrow> nat" where
  "Manifest_Named m = card (dom (mf_entries m))"

record Stats =
  sta_Records :: nat
  sta_LogBytes :: int
  sta_SnapshotBytes :: int
  sta_Written :: int
  sta_Compactions :: int

definition Manifest_Stats :: "man_state \<Rightarrow> Stats" where
  "Manifest_Stats s =
     \<lparr>sta_Records = Manifest_Len (st_man s), sta_LogBytes = lg_logBytes (st_log s),
      sta_SnapshotBytes = lg_snapshotBytes (st_log s), sta_Written = lg_written (st_log s),
      sta_Compactions = lg_compactions (st_log s)\<rparr>"

definition Manifest_Dropped :: "man_state \<Rightarrow> int" where
  "Manifest_Dropped s = lg_dropped (st_log s)"

end
