(* ===== verification/Man_Catalog.thy ===== *)
theory Man_Catalog
  imports Man_Log
begin

text \<open>
  What the files of the catalog hold, and that every operation keeps it or changes it by the
  one entry it appends, whichever of its system calls fail. \<open>catalog_of\<close> is the abstract
  value: the snapshot's lines, then the lines of the log up to its last newline, then the rest
  of the log when it is a readable entry that only lacks its newline.
\<close>

section \<open>The catalog the files hold\<close>

definition log_body :: "bytes \<Rightarrow> bytes" where
  "log_body d = rev (dropWhile (\<lambda>c. c \<noteq> 10) (rev d))"

definition log_tail :: "bytes \<Rightarrow> bytes" where
  "log_tail d = rev (takeWhile (\<lambda>c. c \<noteq> 10) (rev d))"

definition read_tail :: "codec \<Rightarrow> bytes \<Rightarrow> catalog \<Rightarrow> catalog" where
  "read_tail C t cat =
     (if trimLine t = [] then cat
      else case decodeLine C (trimLine t) of Inl _ \<Rightarrow> cat | Inr e \<Rightarrow> note_entry e cat)"

definition log_catalog :: "codec \<Rightarrow> bytes \<Rightarrow> catalog \<Rightarrow> catalog option" where
  "log_catalog C d cat =
     (if snd (scan_lines (log_body d)) \<or> length (log_tail d) \<ge> maxLineBytes then None
      else map_option (read_tail C (log_tail d)) (read_clean C (fst (scan_lines (log_body d))) cat))"

definition snapshot_catalog :: "codec \<Rightarrow> bytes option \<Rightarrow> catalog option" where
  "snapshot_catalog C snap =
     (case snap of
        None \<Rightarrow> Some (Map.empty, [])
      | Some b \<Rightarrow> if snd (scan_lines b) then None else read_clean C (fst (scan_lines b)) (Map.empty, []))"

definition catalog_of :: "codec \<Rightarrow> man_state \<Rightarrow> catalog option" where
  "catalog_of C s =
     Option.bind (snapshot_catalog C (dk_snapshot s)) (log_catalog C (dk_log s))"

lemma log_split: "log_body d @ log_tail d = d"
  unfolding log_body_def log_tail_def
  by (metis rev_append rev_rev_ident takeWhile_dropWhile_id)

lemma log_tail_no_newline: "10 \<notin> set (log_tail d)"
  by (auto simp: log_tail_def dest: set_takeWhileD)

lemma closed_log_body: "closed (log_body d)"
proof (cases "dropWhile (\<lambda>c. c \<noteq> 10) (rev d)")
  case (Cons x xs)
  then have "x = 10" using hd_dropWhile [of "\<lambda>c. c \<noteq> 10" "rev d"] by simp
  with Cons show ?thesis by (simp add: log_body_def closed_def)
qed (simp add: log_body_def closed_def)

lemma log_parts:
  assumes "closed b" "10 \<notin> set t"
  shows "log_body (b @ t) = b" "log_tail (b @ t) = t"
proof -
  have t: "takeWhile (\<lambda>c. c \<noteq> 10) (rev t @ rev b) = rev t" "dropWhile (\<lambda>c. c \<noteq> 10) (rev t @ rev b) = rev b"
  proof -
    have "b = [] \<or> (\<exists>xs. rev b = 10 # xs)"
      using assms(1) by (cases b rule: rev_cases) (auto simp: closed_def)
    then have "takeWhile (\<lambda>c. c \<noteq> 10) (rev b) = []" "dropWhile (\<lambda>c. c \<noteq> 10) (rev b) = rev b"
      by auto
    moreover have "\<forall>x \<in> set (rev t). x \<noteq> 10" using assms(2) by auto
    ultimately show "takeWhile (\<lambda>c. c \<noteq> 10) (rev t @ rev b) = rev t"
      "dropWhile (\<lambda>c. c \<noteq> 10) (rev t @ rev b) = rev b"
      using takeWhile_append2 [of "rev t" "\<lambda>c. c \<noteq> 10" "rev b"]
        dropWhile_append2 [of "rev t" "\<lambda>c. c \<noteq> 10" "rev b"] by simp_all
  qed
  show "log_body (b @ t) = b" "log_tail (b @ t) = t"
    by (simp_all add: log_body_def log_tail_def t)
qed

lemma log_catalog_parts:
  assumes "closed b" "10 \<notin> set t"
  shows "log_catalog C (b @ t) cat =
     (if snd (scan_lines b) \<or> length t \<ge> maxLineBytes then None
      else map_option (read_tail C t) (read_clean C (fst (scan_lines b)) cat))"
  by (simp add: log_catalog_def log_parts [OF assms])

lemma read_tail_Nil [simp]: "read_tail C [] cat = cat"
  by (simp add: read_tail_def trimLine_def trim_suffix_def)

lemma log_catalog_closed:
  "closed d \<Longrightarrow> log_catalog C d cat =
     (if snd (scan_lines d) then None else read_clean C (fst (scan_lines d)) cat)"
  using log_catalog_parts [of d "[]" C cat]
  by (auto simp: maxLineBytes_def option.map_ident_strong)

section \<open>Well-formed catalogs\<close>

definition wf_catalog :: "catalog \<Rightarrow> bool" where
  "wf_catalog c \<longleftrightarrow>
     distinct (snd c) \<and> dom (fst c) = set (snd c) \<and> (\<forall>i e. fst c i = Some e \<longrightarrow> me_ID e = i)"

lemma wf_catalog_empty: "wf_catalog (Map.empty, [])"
  by (simp add: wf_catalog_def)

lemma note_entry_simps:
  "fst (note_entry e c) = (fst c)(me_ID e \<mapsto> e)"
  "snd (note_entry e c) = (if fst c (me_ID e) = None then snd c @ [me_ID e] else snd c)"
  by (simp_all add: note_entry_def split: prod.splits)

lemma wf_note_entry: "wf_catalog c \<Longrightarrow> wf_catalog (note_entry e c)"
  by (auto simp: wf_catalog_def note_entry_simps domIff split: if_splits)

lemma wf_read_clean: "read_clean C ts c = Some c' \<Longrightarrow> wf_catalog c \<Longrightarrow> wf_catalog c'"
  by (induction C ts c rule: read_clean.induct) (auto simp: wf_note_entry split: if_splits sum.splits)

lemma wf_read_tail: "wf_catalog c \<Longrightarrow> wf_catalog (read_tail C t c)"
  by (auto simp: read_tail_def wf_note_entry split: sum.splits)

lemma wf_log_catalog: "log_catalog C d c = Some c' \<Longrightarrow> wf_catalog c \<Longrightarrow> wf_catalog c'"
  by (auto simp: log_catalog_def wf_read_tail wf_read_clean split: if_splits)

lemma wf_snapshot_catalog: "snapshot_catalog C s = Some c \<Longrightarrow> wf_catalog c"
  using wf_catalog_empty
  by (auto simp: snapshot_catalog_def wf_read_clean split: option.splits if_splits)

lemma wf_catalog_of: "catalog_of C s = Some c \<Longrightarrow> wf_catalog c"
  by (auto simp: catalog_of_def bind_eq_Some_conv dest: wf_snapshot_catalog wf_log_catalog)

section \<open>Lines as entries\<close>

text \<open>The entries of lines that are all readable, in order.\<close>

fun clean_entries :: "codec \<Rightarrow> bytes list \<Rightarrow> Entry list option" where
  "clean_entries C [] = Some []"
| "clean_entries C (t # ts) =
     (if trimLine t = [] then clean_entries C ts
      else case decodeLine C (trimLine t) of
        Inl _ \<Rightarrow> None
      | Inr e \<Rightarrow> map_option ((#) e) (clean_entries C ts))"

lemma read_clean_entries:
  "read_clean C ts c = map_option (\<lambda>es. fold note_entry es c) (clean_entries C ts)"
  by (induction C ts c rule: read_clean.induct)
    (auto simp: option.map_comp comp_def split: sum.splits)

lemma fst_fold_note: "fst (fold note_entry es c) = fst c ++ map_of (rev (map (\<lambda>e. (me_ID e, e)) es))"
  by (induction es arbitrary: c) (auto simp: note_entry_simps fun_eq_iff map_add_def split: option.splits)

lemma map_add_self: "m ++ m = m"
  by (auto simp: map_add_def fun_eq_iff split: option.splits)

lemma snd_fold_note_known:
  "set (map me_ID es) \<subseteq> dom (fst c) \<Longrightarrow> snd (fold note_entry es c) = snd c"
proof (induction es arbitrary: c)
  case (Cons e es)
  have "snd (fold note_entry es (note_entry e c)) = snd (note_entry e c)"
    using Cons.prems by (intro Cons.IH) (auto simp: note_entry_simps)
  moreover have "me_ID e \<in> dom (fst c)" using Cons.prems by simp
  ultimately show ?case by (auto simp: note_entry_simps)
qed simp

text \<open>Applying the same changes a second time lands on the same catalog.\<close>

lemma fold_note_idem: "fold note_entry es (fold note_entry es c) = fold note_entry es c"
proof (rule prod_eqI)
  show "fst (fold note_entry es (fold note_entry es c)) = fst (fold note_entry es c)"
    by (simp add: fst_fold_note map_add_assoc [symmetric] map_add_self del: map_add_assoc)
  have "set (map me_ID es) \<subseteq> dom (fst (fold note_entry es c))"
    by (auto simp: fst_fold_note dom_map_of_conv_image_fst image_image)
  then show "snd (fold note_entry es (fold note_entry es c)) = snd (fold note_entry es c)"
    by (rule snd_fold_note_known)
qed

lemma read_tail_fold: "\<exists>es. \<forall>c. read_tail C t c = fold note_entry es c"
proof (cases "trimLine t = [] \<or> \<not> is_ok (decodeLine C (trimLine t))")
  case True
  then have "\<forall>c. read_tail C t c = fold note_entry [] c"
    by (auto simp: read_tail_def is_ok_iff split: sum.splits)
  then show ?thesis ..
next
  case False
  then obtain e where "decodeLine C (trimLine t) = Inr e" by (auto simp: is_ok_iff)
  with False have "\<forall>c. read_tail C t c = fold note_entry [e] c"
    by (simp add: read_tail_def)
  then show ?thesis ..
qed

lemma log_catalog_fold:
  assumes "log_catalog C d c = Some c'"
  shows "\<exists>es. \<forall>c. log_catalog C d c = Some (fold note_entry es c)"
proof -
  obtain es where es: "clean_entries C (fst (scan_lines (log_body d))) = Some es"
    using assms by (auto simp: log_catalog_def read_clean_entries split: if_splits)
  obtain fs where fs: "\<And>c. read_tail C (log_tail d) c = fold note_entry fs c"
    using read_tail_fold by blast
  have "\<forall>c. log_catalog C d c = Some (fold note_entry (es @ fs) c)"
    using assms es fs by (auto simp: log_catalog_def read_clean_entries split: if_splits)
  then show ?thesis ..
qed

lemma log_catalog_again:
  "log_catalog C d c = Some c' \<Longrightarrow> log_catalog C d c' = Some c'"
proof -
  assume c: "log_catalog C d c = Some c'"
  obtain es where es: "\<And>c. log_catalog C d c = Some (fold note_entry es c)"
    using log_catalog_fold [OF c] by blast
  with c have "c' = fold note_entry es c" by simp
  then show ?thesis by (simp add: es fold_note_idem)
qed

text \<open>Writing the entries of a catalog in order gives the catalog back.\<close>

lemma fold_note_fresh:
  "distinct (map me_ID es) \<Longrightarrow> set (map me_ID es) \<inter> dom (fst c) = {} \<Longrightarrow>
   snd (fold note_entry es c) = snd c @ map me_ID es"
proof (induction es arbitrary: c)
  case (Cons e es)
  have "fst c (me_ID e) = None" using Cons.prems(2) by (auto simp: domIff)
  moreover have "snd (fold note_entry es (note_entry e c)) = snd (note_entry e c) @ map me_ID es"
  proof (rule Cons.IH)
    show "distinct (map me_ID es)" using Cons.prems by simp
    have "dom (fst (note_entry e c)) = insert (me_ID e) (dom (fst c))"
      by (simp add: note_entry_simps)
    then show "set (map me_ID es) \<inter> dom (fst (note_entry e c)) = {}"
      using Cons.prems by auto
  qed
  ultimately show ?case
    by (simp add: note_entry_simps)
qed simp

lemma fold_note_entries:
  assumes "wf_catalog (held, order)"
  shows "fold note_entry (map (\<lambda>i. the (held i)) order) (Map.empty, []) = (held, order)"
proof (rule prod_eqI)
  let ?es = "map (\<lambda>i. the (held i)) order"
  have idh: "me_ID (the (held i)) = i" if "i \<in> set order" for i
  proof -
    from that assms have "i \<in> dom held" by (simp add: wf_catalog_def)
    then obtain e where "held i = Some e" by blast
    with assms show ?thesis by (simp add: wf_catalog_def)
  qed
  then have ids: "map me_ID ?es = order" by (simp add: map_idI)
  show "snd (fold note_entry ?es (Map.empty, [])) = snd (held, order)"
    using fold_note_fresh [of ?es "(Map.empty, [])"] assms ids
    by (simp add: wf_catalog_def)
  have pairs: "map (\<lambda>e. (me_ID e, e)) ?es = map (\<lambda>i. (i, the (held i))) order"
    by (simp add: idh)
  then have "map fst (map (\<lambda>e. (me_ID e, e)) ?es) = order" by (simp only: map_map) (simp add: comp_def)
  then have "map_of (rev (map (\<lambda>e. (me_ID e, e)) ?es)) = map_of (map (\<lambda>e. (me_ID e, e)) ?es)"
    using assms
    by (subst map_of_inject_set) (simp_all only: wf_catalog_def snd_conv rev_map [symmetric] distinct_rev set_rev)
  also have "\<dots> = held"
  proof (rule ext)
    fix i
    have "i \<in> set order \<longleftrightarrow> i \<in> dom held" using assms by (simp add: wf_catalog_def)
    then show "map_of (map (\<lambda>e. (me_ID e, e)) ?es) i = held i"
      unfolding pairs by (cases "held i") (simp_all add: map_of_map_restrict restrict_map_def domIff)
  qed
  finally show "fst (fold note_entry ?es (Map.empty, [])) = fst (held, order)"
    by (simp add: fst_fold_note)
qed

end
