(* ===== verification/Journal.thy ===== *)
theory Journal
  imports Prelude
begin

text \<open>
  The interface of a store that keeps a value in files and changes it by operations that may
  fail. An operation is a list of changes; one that is acknowledged has made them all, one
  that is not has made some first part of them, and nothing else happens to the value. The
  client's lemma is about any sequence of operations: the value is what the changes of the
  acknowledged ones make of it, with first parts of the failed ones where they were tried.

  The catalog of package \<open>manifest\<close> and the persisted vectors of package \<open>index\<close> provide it.
\<close>

text \<open>Running operations one after the other, with whether each was acknowledged.\<close>

fun run_ops :: "('op \<Rightarrow> 's \<Rightarrow> bool \<times> 's) \<Rightarrow> 'op list \<Rightarrow> 's \<Rightarrow> (bool \<times> 'op) list \<times> 's" where
  "run_ops step [] s = ([], s)"
| "run_ops step (p # ps) s =
     (let (ok, s1) = step p s; (h, s2) = run_ops step ps s1 in ((ok, p) # h, s2))"

text \<open>Every operation is one the store may be asked for in the state it is tried in.\<close>

fun valid_run :: "('op \<Rightarrow> 's \<Rightarrow> bool \<times> 's) \<Rightarrow> ('op \<Rightarrow> 's \<Rightarrow> bool) \<Rightarrow> 'op list \<Rightarrow> 's \<Rightarrow> bool" where
  "valid_run step valid [] s \<longleftrightarrow> True"
| "valid_run step valid (p # ps) s \<longleftrightarrow> valid p s \<and> valid_run step valid ps (snd (step p s))"

lemma valid_run_always: "\<forall>p \<in> set ps. \<forall>s. valid p s \<Longrightarrow> valid_run step valid ps s"
  by (induction ps arbitrary: s) auto

text \<open>
  The changes made, operation by operation, given the history: all of an acknowledged one,
  a first part of another.
\<close>

definition survives :: "('op \<Rightarrow> 'a list) \<Rightarrow> (bool \<times> 'op) list \<Rightarrow> 'a list list \<Rightarrow> bool" where
  "survives changes h made \<longleftrightarrow>
     list_all2 (\<lambda>(ok, p) as. if ok then as = changes p else (\<exists>k. as = take k (changes p))) h made"

lemma survives_Nil [simp]: "survives changes [] made \<longleftrightarrow> made = []"
  by (simp add: survives_def)

lemma survives_Cons:
  "survives changes ((ok, p) # h) made \<longleftrightarrow>
     (\<exists>as made'. made = as # made' \<and> survives changes h made' \<and>
        (if ok then as = changes p else (\<exists>k. as = take k (changes p))))"
  by (auto simp: survives_def list_all2_Cons1)

lemma survives_acked:
  "survives changes h made \<Longrightarrow> (True, p) \<in> set h \<Longrightarrow> a \<in> set (changes p) \<Longrightarrow> a \<in> set (concat made)"
  by (induction h arbitrary: made) (auto simp: survives_Cons)

lemma survives_only:
  "survives changes h made \<Longrightarrow> a \<in> set (concat made) \<Longrightarrow> \<exists>p \<in> snd ` set h. a \<in> set (changes p)"
proof (induction h arbitrary: made)
  case (Cons x h)
  obtain ok p where x: "x = (ok, p)" by (cases x)
  obtain as made' where m: "made = as # made'" "survives changes h made'" "set as \<subseteq> set (changes p)"
    using Cons.prems(1) by (auto simp: x survives_Cons split: if_splits dest: in_set_takeD)
  then show ?case
    using Cons.prems(2) Cons.IH [OF m(2)] by (auto simp: x)
qed simp

lemma survives_all_acked:
  "survives changes h made \<Longrightarrow> \<forall>(ok, p) \<in> set h. ok \<Longrightarrow> made = map (changes \<circ> snd) h"
  by (induction h arbitrary: made) (auto simp: survives_Cons)

locale journal =
  fixes abs :: "'s \<Rightarrow> 'v option"
    and step :: "'op \<Rightarrow> 's \<Rightarrow> bool \<times> 's"
    and changes :: "'op \<Rightarrow> 'a list"
    and app :: "'a \<Rightarrow> 'v \<Rightarrow> 'v"
    and valid :: "'op \<Rightarrow> 's \<Rightarrow> bool"
    and inv :: "'v \<Rightarrow> bool"
  assumes acked: "valid p s \<Longrightarrow> inv v \<Longrightarrow> abs s = Some v \<Longrightarrow> step p s = (True, s') \<Longrightarrow>
      abs s' = Some (fold app (changes p) v)"
    and unacked: "valid p s \<Longrightarrow> inv v \<Longrightarrow> abs s = Some v \<Longrightarrow> step p s = (False, s') \<Longrightarrow>
      \<exists>k. abs s' = Some (fold app (take k (changes p)) v)"
    and inv_app: "valid p s \<Longrightarrow> inv v \<Longrightarrow> a \<in> set (changes p) \<Longrightarrow> inv (app a v)"
begin

lemma inv_fold: "valid p s \<Longrightarrow> inv v \<Longrightarrow> set as \<subseteq> set (changes p) \<Longrightarrow> inv (fold app as v)"
  by (induction as arbitrary: v) (auto intro: inv_app)

lemma one_step:
  assumes "valid p s" "inv v" "abs s = Some v" "step p s = (ok, s')"
  shows "\<exists>as. abs s' = Some (fold app as v) \<and> inv (fold app as v) \<and>
    (if ok then as = changes p else (\<exists>k. as = take k (changes p)))"
proof (cases ok)
  case True
  then show ?thesis using acked [OF assms(1-3)] inv_fold [OF assms(1,2)] assms(4) by auto
next
  case False
  then obtain k where "abs s' = Some (fold app (take k (changes p)) v)"
    using unacked [OF assms(1-3)] assms(4) by auto
  then show ?thesis using False inv_fold [OF assms(1,2) set_take_subset] by auto
qed

lemma history:
  "valid_run step valid ps s \<Longrightarrow> inv v \<Longrightarrow> abs s = Some v \<Longrightarrow>
   \<exists>made. survives changes (fst (run_ops step ps s)) made \<and>
     abs (snd (run_ops step ps s)) = Some (fold app (concat made) v) \<and> inv (fold app (concat made) v)"
proof (induction ps arbitrary: s v)
  case (Cons p ps)
  obtain ok s1 where p: "step p s = (ok, s1)" by (cases "step p s")
  obtain as where as: "abs s1 = Some (fold app as v)" "inv (fold app as v)"
    "if ok then as = changes p else (\<exists>k. as = take k (changes p))"
    using one_step [OF _ Cons.prems(2,3) p] Cons.prems(1) by auto
  obtain made where "survives changes (fst (run_ops step ps s1)) made"
    "abs (snd (run_ops step ps s1)) = Some (fold app (concat made) (fold app as v))"
    "inv (fold app (concat made) (fold app as v))"
    using Cons.IH [OF _ as(2,1)] Cons.prems(1) p by auto
  with as(3) p show ?case
    by (intro exI [of _ "as # made"]) (auto simp: survives_Cons split_beta Let_def)
qed simp

end

end
