(* ===== verification/Man_Safety.thy ===== *)
theory Man_Safety
  imports Man_Catalog Journal
begin

text \<open>
  The operations of the catalog against what its files hold, for every plan of system call
  failures: replay returns what the files hold, an append adds its entry or leaves the files
  as they read before, and a compaction never changes what they hold.
\<close>

section \<open>What the reader returns\<close>

lemma readEntries_catalog:
  assumes "log_catalog C d c = Some c'"
  shows "\<exists>r. readEntries C name d c = Inr (c', r)"
proof -
  let ?b = "log_body d" and ?t = "log_tail d"
  let ?r0 = "\<lparr>rp_end = 0, rp_cutOff = None\<rparr>"
  obtain c1 where b: "\<not> snd (scan_lines ?b)" "length ?t < maxLineBytes"
    "read_clean C (fst (scan_lines ?b)) c = Some c1" "c' = read_tail C ?t c1"
    using assms by (auto simp: log_catalog_def split: if_splits)
  have s: "scan_lines d = (fst (scan_lines ?b) @ fst (scan_lines ?t), snd (scan_lines ?t))"
    using scan_append [OF closed_log_body b(1), of ?t] by (simp add: log_split)
  show ?thesis
  proof (cases "?t = []")
    case True
    with b s read_lines_clean [OF b(3), of ?r0 name 1 0 "[]"] show ?thesis
      by (auto simp: readEntries_def)
  next
    case False
    then have t: "scan_lines ?t = ([?t], False)"
      using log_tail_no_newline [of d] b(2) by (simp add: scan_tail)
    obtain e where "read_lines C name 1 0 (fst (scan_lines ?b) @ [?t]) c ?r0 =
        read_lines C name (1 + length (fst (scan_lines ?b))) (length (concat (fst (scan_lines ?b))))
          [?t] c1 (?r0\<lparr>rp_end := e\<rparr>)"
      using read_lines_clean [OF b(3), of ?r0 name 1 0 "[?t]"] by auto
    with s t b(4) show ?thesis
      by (auto simp: readEntries_def read_tail_def Let_def split: sum.splits)
  qed
qed

lemma read_clean_tail: "read_clean C [t] c = Some c' \<Longrightarrow> read_tail C t c = c'"
  by (simp add: read_tail_def split: if_splits sum.splits)

lemma readEntries_clean_catalog:
  assumes "readEntries C name d c = Inr (c', r)" "rp_cutOff r = None"
  shows "\<not> snd (scan_lines d)" "read_clean C (fst (scan_lines d)) c = Some c'"
    "log_catalog C d c = Some c'"
proof -
  show s: "\<not> snd (scan_lines d)"
    using assms(1) by (auto simp: readEntries_def bind_result_Inr_iff split: prod.splits if_splits)
  have "read_lines C name 1 0 (fst (scan_lines d)) c \<lparr>rp_end = 0, rp_cutOff = None\<rparr> = Inr (c', r)"
    using assms(1) by (auto simp: readEntries_def bind_result_Inr_iff split: prod.splits if_splits)
  from read_lines_result [OF this] assms(2)
  show c: "read_clean C (fst (scan_lines d)) c = Some c'" by simp
  let ?b = "log_body d" and ?t = "log_tail d"
  have "\<not> snd (scan_lines ?b) \<and> length ?t < maxLineBytes \<and>
      fst (scan_lines d) = fst (scan_lines ?b) @ (if ?t = [] then [] else [?t])"
  proof (cases "snd (scan_lines ?b)")
    case True
    have "snd (scan_lines (b @ x))" if "closed b" "snd (scan_lines b)" for b x
      using that
      by (induction b rule: line_induct) (auto simp: scan_simps closed_line closed_def split: if_splits dest: last_in_set)
    from this [OF closed_log_body True, of ?t] s show ?thesis by (simp add: log_split)
  next
    case False
    with scan_append [OF closed_log_body False, of ?t] s scan_tail [of ?t] log_tail_no_newline [of d]
    show ?thesis
      using log_split [of d]
      by (cases "?t = []") (auto simp: maxLineBytes_def split: if_splits)
  qed
  then have parts: "\<not> snd (scan_lines ?b)" "length ?t < maxLineBytes"
    "fst (scan_lines d) = fst (scan_lines ?b) @ (if ?t = [] then [] else [?t])" by blast+
  obtain c1 where c1: "read_clean C (fst (scan_lines ?b)) c = Some c1"
    "read_clean C (if ?t = [] then [] else [?t]) c1 = Some c'"
    using c unfolding parts(3) read_clean_append by (meson bind_eq_Some_conv)
  have "read_tail C ?t c1 = c'"
    using c1(2) read_clean_tail by (cases "?t = []") auto
  with parts c1(1) show "log_catalog C d c = Some c'"
    by (simp add: log_catalog_def)
qed

lemma readEntries_cut_catalog:
  assumes "readEntries C name d c = Inr (c', r)" "rp_cutOff r \<noteq> None"
  shows "log_catalog C (take (rp_end r) d) c = Some c'" "closed (take (rp_end r) d)"
    "rp_end r \<le> length d"
proof -
  have s: "\<not> snd (scan_lines d)"
    using assms(1) by (auto simp: readEntries_def bind_result_Inr_iff split: prod.splits if_splits)
  have "read_lines C name 1 0 (fst (scan_lines d)) c \<lparr>rp_end = 0, rp_cutOff = None\<rparr> = Inr (c', r)"
    using assms(1) by (auto simp: readEntries_def bind_result_Inr_iff split: prod.splits if_splits)
  from read_lines_result [OF this] assms(2)
  obtain us t vs where u: "fst (scan_lines d) = us @ t # vs" "read_clean C us c = Some c'"
    "rp_end r = (if us = [] then 0 else length (concat us))"
    by auto
  have d: "d = concat us @ t @ concat vs"
    using scan_concat [OF s] u(1) by simp
  have e: "rp_end r = length (concat us)" using u(3) by auto
  then have "take (rp_end r) d = concat us" by (subst d) simp
  moreover note scan_prefix [OF u(1)]
  ultimately show "log_catalog C (take (rp_end r) d) c = Some c'" "closed (take (rp_end r) d)"
    using u(2) by (simp_all add: log_catalog_closed)
  show "rp_end r \<le> length d" unfolding e by (subst d) simp
qed

section \<open>Changes at the end of the log\<close>

lemma trimLine_tail: "10 \<notin> set t \<Longrightarrow> trimLine (t @ [10]) = trimLine t"
  by (cases "t = []") (auto simp: trimLine_def trim_suffix_def dest: last_in_set)

lemma not_closed_tail: "\<not> closed d \<Longrightarrow> log_tail d \<noteq> []"
  using closed_log_body [of d] log_split [of d] by (metis append_Nil2)

lemma log_catalog_finish_line:
  assumes "log_catalog C d c = Some c'" "\<not> closed d"
    and "trimLine (log_tail d) = [] \<or> is_ok (decodeLine C (trimLine (log_tail d)))"
  shows "log_catalog C (d @ [10]) c = Some c'"
proof -
  let ?b = "log_body d" and ?t = "log_tail d"
  obtain c1 where b: "\<not> snd (scan_lines ?b)" "length ?t < maxLineBytes"
    "read_clean C (fst (scan_lines ?b)) c = Some c1" "c' = read_tail C ?t c1"
    using assms by (auto simp: log_catalog_def split: if_splits)
  have n: "10 \<notin> set ?t" by (rule log_tail_no_newline)
  have "scan_lines (?b @ ?t @ [10]) = (fst (scan_lines ?b) @ [?t @ [10]], False)"
    using scan_append [OF closed_log_body b(1), of "?t @ [10]"] scan_line [OF n, of "[]"] b(2)
    by simp
  then have "scan_lines (d @ [10]) = (fst (scan_lines ?b) @ [?t @ [10]], False)"
    by (simp add: log_split flip: append_assoc)
  moreover have "read_clean C [?t @ [10]] c1 = Some c'"
    using assms(3) b(4) by (auto simp: trimLine_tail [OF n] read_tail_def is_ok_iff)
  ultimately show ?thesis
    using b(3) by (simp add: log_catalog_closed read_clean_append)
qed

lemma log_catalog_drop_tail:
  assumes "log_catalog C d c = Some c'" "\<not> is_ok (decodeLine C (trimLine (log_tail d)))"
  shows "log_catalog C (log_body d) c = Some c'"
proof -
  have "read_tail C (log_tail d) c1 = c1" for c1
    using assms(2) by (auto simp: read_tail_def split: sum.splits)
  moreover obtain c1 where "\<not> snd (scan_lines (log_body d))"
    "read_clean C (fst (scan_lines (log_body d))) c = Some c1" "c' = read_tail C (log_tail d) c1"
    using assms(1) by (auto simp: log_catalog_def split: if_splits)
  ultimately show ?thesis
    by (simp add: log_catalog_closed [OF closed_log_body])
qed

text \<open>A whole line of an entry, or a part of one, at the end of a log that ends with a line.\<close>

lemma log_catalog_append_line:
  assumes "log_catalog C d c = Some c'" "closed d"
    and "l \<noteq> []" "10 \<notin> set l" "13 \<notin> set l" "length l < maxLineBytes" "decodeLine C l = Inr e"
  shows "log_catalog C (d @ l @ [10]) c = Some (note_entry e c')"
    and "(\<And>j. 0 < j \<Longrightarrow> j < length l \<Longrightarrow> \<not> is_ok (decodeLine C (take j l))) \<Longrightarrow>
      log_catalog C (d @ take j (l @ [10])) c \<in> {Some c', Some (note_entry e c')}"
proof -
  have d: "\<not> snd (scan_lines d)" "read_clean C (fst (scan_lines d)) c = Some c'"
    using assms(1,2) by (auto simp: log_catalog_closed split: if_splits)
  have t: "trimLine (l @ [10]) = l" "trimLine l = l"
    using trimLine_plain [OF assms(4,5)] by simp_all
  have "scan_lines (d @ l @ [10]) = (fst (scan_lines d) @ [l @ [10]], False)"
    using scan_append [OF assms(2) d(1), of "l @ [10]"] scan_line [OF assms(4), of "[]"] assms(6) by simp
  with d t assms show whole: "log_catalog C (d @ l @ [10]) c = Some (note_entry e c')"
    by (simp add: log_catalog_closed [of "d @ l @ [10]"] closed_def read_clean_append)
  assume torn: "\<And>j. 0 < j \<Longrightarrow> j < length l \<Longrightarrow> \<not> is_ok (decodeLine C (take j l))"
  show "log_catalog C (d @ take j (l @ [10])) c \<in> {Some c', Some (note_entry e c')}"
  proof (cases "j \<le> length l")
    case True
    have n: "10 \<notin> set (take j l)" "13 \<notin> set (take j l)"
      using assms(4,5) by (auto dest: in_set_takeD)
    have "read_tail C (take j l) c' \<in> {c', note_entry e c'}"
    proof (cases "j = 0 \<or> j = length l")
      case True
      then show ?thesis
      proof
        assume "j = length l"
        then show ?thesis using t assms(3,7) by (simp add: read_tail_def)
      qed simp
    next
      case False
      then have "\<not> is_ok (decodeLine C (take j l))" using True torn by simp
      then show ?thesis
        using trimLine_plain [OF n] by (auto simp: read_tail_def split: sum.splits)
    qed
    moreover have "length (take j l) < maxLineBytes" using assms(6) by simp
    ultimately show ?thesis
      using d True log_catalog_parts [OF assms(2) n(1), of C c] by auto
  next
    case False
    then show ?thesis using whole by simp
  qed
qed

section \<open>Operations keep what the files hold\<close>

text \<open>The files hold a catalog, and the random source gives nonces.\<close>

definition holds :: "codec \<Rightarrow> catalog \<Rightarrow> (nat \<Rightarrow> fault) \<Rightarrow> man_state \<Rightarrow> bool" where
  "holds C cat pl s \<longleftrightarrow>
     catalog_of C s = Some cat \<and> mc_plan s = pl \<and> (\<forall>i. length (mc_rand s i) = NonceSize)"

lemma holds_cong:
  "dk_log t = dk_log s \<Longrightarrow> dk_snapshot t = dk_snapshot s \<Longrightarrow> mc_plan t = mc_plan s \<Longrightarrow>
   mc_rand t = mc_rand s \<Longrightarrow> holds C cat pl t = holds C cat pl s"
  by (simp add: holds_def catalog_of_def)

lemma holds_step [simp]: "holds C cat pl (s\<lparr>mc_step := k\<rparr>) = holds C cat pl s"
  by (rule holds_cong) simp_all

lemma holds_counters [simp]:
  "holds C cat pl (drop_counted s) = holds C cat pl s"
  "holds C cat pl (bytes_counted n s) = holds C cat pl s"
  "holds C cat pl (set_logBytes n s) = holds C cat pl s"
  "holds C cat pl (compacted n s) = holds C cat pl s"
  "holds C cat pl (s\<lparr>dk_pending := p\<rparr>) = holds C cat pl s"
  "holds C cat pl (s\<lparr>st_man := m\<rparr>) = holds C cat pl s"
  "dk_log (drop_counted s) = dk_log s" "dk_log (bytes_counted n s) = dk_log s"
  "dk_log (set_logBytes n s) = dk_log s"
  by (simp_all add: holds_def catalog_of_def drop_counted_def bytes_counted_def set_logBytes_def
      compacted_def)

lemma holds_stable [simp]:
  "stable pl (holds C cat pl)" "stable pl (\<lambda>s. holds C cat pl s \<and> R (dk_log s))"
  by (auto simp: stable_def) (auto simp: holds_def)

lemma holdsE:
  assumes "holds C cat pl s"
  obtains cat0 where "snapshot_catalog C (dk_snapshot s) = Some cat0"
    "log_catalog C (dk_log s) cat0 = Some cat"
  using assms by (auto simp: holds_def catalog_of_def bind_eq_Some_conv)

lemma holds_log:
  assumes "holds C cat pl s"
    and "\<And>c. log_catalog C (dk_log s) c = Some cat \<Longrightarrow> log_catalog C d c = Some cat'"
  shows "holds C cat' pl (s\<lparr>dk_log := d\<rparr>)"
  using assms by (auto simp: holds_def catalog_of_def bind_eq_Some_conv)

lemma triple_cut:
  assumes "stable pl P" "stable pl P'" "\<And>s. P s \<Longrightarrow> P' (s\<lparr>dk_log := truncate_to n (dk_log s)\<rparr>)"
  shows "triple P (Log_cut n) (\<lambda>_. P') (\<lambda>s. (P s \<or> P' s) \<and> \<not> no_faults pl)"
  unfolding Log_cut_def
proof (intro triple_bind)
  show "triple P (syscall (IOFailed ''open for cut'')) (\<lambda>_. P) (\<lambda>s. (P s \<or> P' s) \<and> \<not> no_faults pl)"
    by (rule triple_conseq [OF triple_call [OF assms(1)]]) auto
  show "triple P (effect (IOFailed ''truncate'') (\<lambda>s. s\<lparr>dk_log := truncate_to n (dk_log s)\<rparr>))
      (\<lambda>_. P') (\<lambda>s. (P s \<or> P' s) \<and> \<not> no_faults pl)"
    by (rule triple_conseq [OF triple_change [OF assms(1), of "\<lambda>_. P'"]]) (auto simp: assms(3))
  show "triple P' (syscall (IOFailed ''sync'')) (\<lambda>_. P') (\<lambda>s. (P s \<or> P' s) \<and> \<not> no_faults pl)"
    "triple P' (syscall (IOFailed ''close'')) (\<lambda>_. P') (\<lambda>s. (P s \<or> P' s) \<and> \<not> no_faults pl)"
    by (rule triple_conseq [OF triple_call [OF assms(2)]]; auto)+
qed

lemma triple_write:
  assumes "stable pl P" "\<And>s. P s \<Longrightarrow> Q (s\<lparr>dk_log := dk_log s @ bs\<rparr>)"
    "\<And>s n. P s \<Longrightarrow> E (s\<lparr>dk_log := dk_log s @ take n bs\<rparr>)"
  shows "triple P (write_log bs) (\<lambda>_. Q) (\<lambda>s. E s \<and> \<not> no_faults pl)"
  unfolding write_log_def
proof (rule triple_bind [OF triple_outcome [OF assms(1)]])
  fix f
  show "triple (\<lambda>s. P s \<and> (f = NoFault \<or> \<not> no_faults pl))
     (case f of NoFault \<Rightarrow> put_io (\<lambda>s. s\<lparr>dk_log := dk_log s @ bs\<rparr>)
      | Fault n \<Rightarrow> bind_io (put_io (\<lambda>s. s\<lparr>dk_log := dk_log s @ take n bs\<rparr>)) (\<lambda>_. fail_io (IOFailed ''write'')))
     (\<lambda>_. Q) (\<lambda>s. E s \<and> \<not> no_faults pl)"
    using assms(2,3)
    by (cases f) (auto simp: triple_def put_io_def bind_io_def fail_io_def)
qed

section \<open>Settling the end of the log\<close>

lemma LastIndexByte_None: "LastIndexByte xs c = None \<longleftrightarrow> c \<notin> set xs"
  by (induction xs) (auto split: option.splits)

lemma LastIndexByte_last: "c \<notin> set t \<Longrightarrow> LastIndexByte (a @ c # t) c = Some (length a)"
  by (induction a) (auto simp: LastIndexByte_None [THEN iffD2])

lemma last_newline_in_block:
  fixes d :: bytes
  assumes "length (log_body d) \<le> pos" "start \<le> pos"
  shows "LastIndexByte (take (pos - start) (drop start d)) 10 =
    (if start < length (log_body d) then Some (length (log_body d) - 1 - start) else None)"
proof (cases "start < length (log_body d)")
  case True
  let ?b = "log_body d" and ?t = "log_tail d"
  obtain b' where b': "?b = b' @ [10]"
    using closed_log_body [of d] True by (cases ?b rule: rev_cases) (auto simp: closed_def)
  have "take (pos - start) (drop start d) = drop start b' @ 10 # take (pos - length ?b) ?t"
    using True assms b' by (subst log_split [of d, symmetric]) (simp add: take_Cons')
  moreover have "10 \<notin> set (take (pos - length ?b) ?t)"
    using log_tail_no_newline by (auto dest: in_set_takeD)
  ultimately show ?thesis using True b' by (simp add: LastIndexByte_last)
next
  case False
  then have "drop start d = drop (start - length (log_body d)) (log_tail d)"
    by (subst log_split [of d, symmetric]) simp
  then have "10 \<notin> set (take (pos - start) (drop start d))"
    using log_tail_no_newline by (auto dest: in_set_takeD in_set_dropD)
  with False show ?thesis by (simp add: LastIndexByte_None)
qed

lemma Log_lineStart_unfold:
  "Log_lineStart sz pos =
     (if pos > 0 then
        (if sz - pos > maxLineBytes then fail_io NoLineBreak
         else let start = pos - blockBytes in
           bind_io (syscall (IOFailed ''read'')) (\<lambda>_.
           bind_io (get_io (\<lambda>s. LastIndexByte (take (pos - start) (drop start (dk_log s))) 10)) (\<lambda>r.
             case r of Some i \<Rightarrow> ret_io (start + i + 1) | None \<Rightarrow> Log_lineStart sz start)))
      else ret_io 0)"
  by (rule ext, subst Log_lineStart.simps)
    (auto simp: Let_def bind_io_def get_io_def ret_io_def fail_io_def fun_eq_iff
      split: prod.splits sum.splits option.splits)

lemma triple_lineStart:
  assumes "stable pl (\<lambda>s. P s \<and> dk_log s = d)" "length (log_tail d) < maxLineBytes"
  shows "length (log_body d) \<le> pos \<Longrightarrow> pos \<le> length d \<Longrightarrow>
    triple (\<lambda>s. P s \<and> dk_log s = d) (Log_lineStart (length d) pos)
      (\<lambda>r s. (P s \<and> dk_log s = d) \<and> r = length (log_body d))
      (\<lambda>s. (P s \<and> dk_log s = d) \<and> \<not> no_faults pl)"
proof (induction pos rule: less_induct)
  case (less pos)
  let ?start = "pos - blockBytes"
  have len: "length d = length (log_body d) + length (log_tail d)"
    by (metis length_append log_split)
  show ?case
  proof (cases "pos > 0")
    case True
    have ok: "\<not> length d - pos > maxLineBytes"
      using less.prems len assms(2) by linarith
    have st: "?start < pos" using True by (simp add: blockBytes_def)
    show ?thesis
      unfolding Log_lineStart_unfold [of _ pos] Let_def if_P [OF True] if_not_P [OF ok]
    proof (rule triple_bind [OF triple_call [OF assms(1)]],
        rule triple_bind_get [where a = "if ?start < length (log_body d)
          then Some (length (log_body d) - 1 - ?start) else None"])
      show "LastIndexByte (take (pos - ?start) (drop ?start (dk_log s))) 10 =
          (if ?start < length (log_body d) then Some (length (log_body d) - 1 - ?start) else None)"
        if "P s \<and> dk_log s = d" for s
        using that last_newline_in_block [OF less.prems(1), of ?start] by simp
      show "triple (\<lambda>s. P s \<and> dk_log s = d)
        (case if ?start < length (log_body d) then Some (length (log_body d) - 1 - ?start) else None of
           Some i \<Rightarrow> ret_io (?start + i + 1) | None \<Rightarrow> Log_lineStart (length d) ?start)
        (\<lambda>r s. (P s \<and> dk_log s = d) \<and> r = length (log_body d))
        (\<lambda>s. (P s \<and> dk_log s = d) \<and> \<not> no_faults pl)"
        using less.IH [OF st] less.prems st by (auto intro!: triple_ret)
    qed
  next
    case False
    then show ?thesis using less.prems
      by (auto simp: Log_lineStart_unfold [of _ 0] intro!: triple_ret)
  qed
qed

text \<open>The log ends where a line ends, and so does the position that was returned.\<close>

definition settled :: "nat \<Rightarrow> man_state \<Rightarrow> bool" where
  "settled n s \<longleftrightarrow> closed (dk_log s) \<and> n = length (dk_log s)"

lemma holds_log_eq:
  "holds C cat pl (s\<lparr>dk_log := d\<rparr>) \<longleftrightarrow>
     (\<exists>c. snapshot_catalog C (dk_snapshot s) = Some c \<and> log_catalog C d c = Some cat) \<and>
     mc_plan s = pl \<and> (\<forall>i. length (mc_rand s i) = NonceSize)"
  by (auto simp: holds_def catalog_of_def bind_eq_Some_conv)

lemma holds_at:
  "holds C cat pl s \<Longrightarrow> dk_log s = d \<Longrightarrow>
   (\<And>c. log_catalog C d c = Some cat \<Longrightarrow> log_catalog C d' c = Some cat') \<Longrightarrow>
   holds C cat' pl (s\<lparr>dk_log := d'\<rparr>)"
  by (rule holds_log) simp_all

text \<open>
  A write at the end of the log that is taken back when it fails. When taking it back fails
  as well, the part that reached the file reads as nothing or as the whole.
\<close>

lemma triple_write_rollback:
  assumes whole: "\<And>c. log_catalog C d c = Some cat \<Longrightarrow> log_catalog C (d @ bs) c = Some cat'"
    and part: "\<And>c n. log_catalog C d c = Some cat \<Longrightarrow>
      log_catalog C (d @ take n bs) c = Some cat \<or> log_catalog C (d @ take n bs) c = Some cat'"
  shows "triple (\<lambda>s. holds C cat pl s \<and> dk_log s = d)
    (catch_io (write_log bs) (\<lambda>err. fail_after err (Log_cut (length d))))
    (\<lambda>_ s. holds C cat' pl s \<and> dk_log s = d @ bs)
    (\<lambda>s. (holds C cat pl s \<or> holds C cat' pl s) \<and> \<not> no_faults pl)"
proof (rule triple_catch)
  let ?O = "\<lambda>s. holds C cat pl s \<or> holds C cat' pl s"
  let ?W = "\<lambda>s. ?O s \<and> holds C cat pl (s\<lparr>dk_log := d\<rparr>) \<and> (\<exists>n. dk_log s = d @ take n bs)"
  show "triple (\<lambda>s. holds C cat pl s \<and> dk_log s = d) (write_log bs)
      (\<lambda>_ s. holds C cat' pl s \<and> dk_log s = d @ bs) (\<lambda>s. ?W s \<and> \<not> no_faults pl)"
  proof (rule triple_write [OF holds_stable(2)])
    fix s n assume s: "holds C cat pl s \<and> dk_log s = d"
    show "holds C cat' pl (s\<lparr>dk_log := dk_log s @ bs\<rparr>) \<and> dk_log (s\<lparr>dk_log := dk_log s @ bs\<rparr>) = d @ bs"
      using s whole by (auto intro: holds_at)
    obtain c where c: "snapshot_catalog C (dk_snapshot s) = Some c" "log_catalog C d c = Some cat"
      using s by (auto elim: holdsE)
    have "?O (s\<lparr>dk_log := d @ take n bs\<rparr>)"
      using part [OF c(2), of n] s c by (auto simp: holds_log_eq) (auto simp: holds_def)
    moreover have "holds C cat pl (s\<lparr>dk_log := d\<rparr>)" using s by (auto intro: holds_at)
    ultimately show "?W (s\<lparr>dk_log := dk_log s @ take n bs\<rparr>)" using s by auto
  qed
  fix err
  show "triple (\<lambda>s. ?W s \<and> \<not> no_faults pl) (fail_after err (Log_cut (length d)))
      (\<lambda>_ s. holds C cat' pl s \<and> dk_log s = d @ bs) (\<lambda>s. ?O s \<and> \<not> no_faults pl)"
  proof (intro triple_fail_after triple_assume)
    assume f: "\<not> no_faults pl"
    have "stable pl ?W"
      by (auto simp: stable_def holds_def catalog_of_def)
    then show "triple ?W (Log_cut (length d)) (\<lambda>_ s. ?O s \<and> \<not> no_faults pl) (\<lambda>s. ?O s \<and> \<not> no_faults pl)"
      by (rule triple_conseq [OF triple_cut [OF _ holds_stable(1) [of pl C cat]]])
        (use f in \<open>auto simp: truncate_to_def\<close>)
  qed
qed

text \<open>The two ways to settle a log that stops part way through a line.\<close>

lemma triple_settle_drop:
  assumes "\<And>c. log_catalog C d c = Some cat \<Longrightarrow> log_catalog C (log_body d) c = Some cat"
  shows "triple (\<lambda>s. holds C cat pl s \<and> dk_log s = d)
    (bind_io (Log_cut (length (log_body d))) (\<lambda>_.
     bind_io (put_io drop_counted) (\<lambda>_. ret_io (length (log_body d)))))
    (\<lambda>n s. holds C cat pl s \<and> settled n s) (\<lambda>s. holds C cat pl s \<and> \<not> no_faults pl)"
proof (rule triple_bind [where R = "\<lambda>_ s. holds C cat pl s \<and> dk_log s = log_body d"])
  have t: "truncate_to (length (log_body d)) d = log_body d"
    by (metis append_eq_conv_conj le_add1 length_append log_split truncate_to_take)
  have "triple (\<lambda>s. holds C cat pl s \<and> dk_log s = d) (Log_cut (length (log_body d)))
      (\<lambda>_ s. holds C cat pl s \<and> dk_log s = log_body d)
      (\<lambda>s. ((holds C cat pl s \<and> dk_log s = d) \<or> (holds C cat pl s \<and> dk_log s = log_body d)) \<and>
        \<not> no_faults pl)"
    using assms t by (intro triple_cut holds_stable) (auto intro: holds_at)
  then show "triple (\<lambda>s. holds C cat pl s \<and> dk_log s = d) (Log_cut (length (log_body d)))
      (\<lambda>_ s. holds C cat pl s \<and> dk_log s = log_body d) (\<lambda>s. holds C cat pl s \<and> \<not> no_faults pl)"
    by (rule triple_conseq) auto
  show "triple (\<lambda>s. holds C cat pl s \<and> dk_log s = log_body d)
      (bind_io (put_io drop_counted) (\<lambda>_. ret_io (length (log_body d))))
      (\<lambda>n s. holds C cat pl s \<and> settled n s) (\<lambda>s. holds C cat pl s \<and> \<not> no_faults pl)"
    by (auto simp: triple_def bind_io_def put_io_def ret_io_def settled_def closed_log_body)
qed

lemma triple_settle_finish:
  assumes "\<And>c. log_catalog C d c = Some cat \<Longrightarrow> log_catalog C (d @ [10]) c = Some cat"
  shows "triple (\<lambda>s. holds C cat pl s \<and> dk_log s = d)
    (bind_io (catch_io (write_log [10]) (\<lambda>err. fail_after err (Log_cut (length d)))) (\<lambda>_.
     bind_io (put_io (bytes_counted 1)) (\<lambda>_. ret_io (length d + 1))))
    (\<lambda>n s. holds C cat pl s \<and> settled n s) (\<lambda>s. holds C cat pl s \<and> \<not> no_faults pl)"
proof (rule triple_bind)
  have "take n [10 :: byte] = [] \<or> take n [10 :: byte] = [10]" for n by (cases n) auto
  then show "triple (\<lambda>s. holds C cat pl s \<and> dk_log s = d)
      (catch_io (write_log [10]) (\<lambda>err. fail_after err (Log_cut (length d))))
      (\<lambda>_ s. holds C cat pl s \<and> dk_log s = d @ [10]) (\<lambda>s. holds C cat pl s \<and> \<not> no_faults pl)"
    using triple_write_rollback [of C d cat "[10]" cat pl] assms by (metis (no_types, lifting) append_Nil2)
  show "triple (\<lambda>s. holds C cat pl s \<and> dk_log s = d @ [10])
      (bind_io (put_io (bytes_counted 1)) (\<lambda>_. ret_io (length d + 1)))
      (\<lambda>n s. holds C cat pl s \<and> settled n s) (\<lambda>s. holds C cat pl s \<and> \<not> no_faults pl)"
    by (auto simp: triple_def bind_io_def put_io_def ret_io_def settled_def)
qed


lemma triple_hold_call:
  "triple (\<lambda>s. holds C cat pl s \<and> R (dk_log s)) (syscall e)
     (\<lambda>_ s. holds C cat pl s \<and> R (dk_log s)) (\<lambda>s. holds C cat pl s \<and> \<not> no_faults pl)"
  by (rule triple_conseq [OF triple_call [OF holds_stable(2)]]) auto

lemma triple_settle_open:
  assumes "\<not> closed d" "length (log_tail d) < maxLineBytes"
  shows "triple (\<lambda>s. holds C cat pl s \<and> dk_log s = d)
    (bind_io (Log_lineStart (length d) (length d)) (\<lambda>start.
     bind_io (syscall (IOFailed ''read'')) (\<lambda>_.
     bind_io (get_io (\<lambda>s. trimLine (take (length d - start) (drop start (dk_log s))))) (\<lambda>txt.
       if length txt > 0 \<and> \<not> is_ok (decodeLine C txt) then
         bind_io (Log_cut start) (\<lambda>_.
         bind_io (put_io drop_counted) (\<lambda>_. ret_io start))
       else
         bind_io (catch_io (write_log [10]) (\<lambda>err. fail_after err (Log_cut (length d)))) (\<lambda>_.
         bind_io (put_io (bytes_counted 1)) (\<lambda>_. ret_io (length d + 1)))))))
    (\<lambda>n s. holds C cat pl s \<and> settled n s) (\<lambda>s. holds C cat pl s \<and> \<not> no_faults pl)"
    (is "triple ?P _ ?Q ?E")
proof (rule triple_bind [where R = "\<lambda>r s. ?P s \<and> r = length (log_body d)"], goal_cases)
  case 1
  have "length (log_body d) \<le> length d" by (metis le_add1 length_append log_split)
  then show ?case
    by (intro triple_conseq [OF triple_lineStart [OF holds_stable(2) [of pl C cat "\<lambda>x. x = d"] assms(2)]]) auto
next
  case (2 start)
  let ?t = "log_tail d"
  have body: "take (length d - length (log_body d)) (drop (length (log_body d)) d) = ?t"
    by (metis append_eq_conv_conj length_drop log_split take_all_iff order_refl)
  show ?case
  proof (rule triple_assume, rule triple_bind [OF triple_hold_call],
      rule triple_bind_get [where a = "trimLine ?t"])
    assume start: "start = length (log_body d)"
    show "trimLine (take (length d - start) (drop start (dk_log s))) = trimLine ?t"
      if "holds C cat pl s \<and> dk_log s = d" for s
      unfolding start using that body by metis
    show "triple ?P
        (if length (trimLine ?t) > 0 \<and> \<not> is_ok (decodeLine C (trimLine ?t)) then
           bind_io (Log_cut start) (\<lambda>_. bind_io (put_io drop_counted) (\<lambda>_. ret_io start))
         else
           bind_io (catch_io (write_log [10]) (\<lambda>err. fail_after err (Log_cut (length d)))) (\<lambda>_.
           bind_io (put_io (bytes_counted 1)) (\<lambda>_. ret_io (length d + 1)))) ?Q ?E"
    proof (cases "length (trimLine ?t) > 0 \<and> \<not> is_ok (decodeLine C (trimLine ?t))")
      case True
      then have "triple ?P (bind_io (Log_cut start) (\<lambda>_. bind_io (put_io drop_counted) (\<lambda>_. ret_io start))) ?Q ?E"
        unfolding start by (intro triple_settle_drop log_catalog_drop_tail) auto
      with True show ?thesis by simp
    next
      case False
      then have "triple ?P (bind_io (catch_io (write_log [10]) (\<lambda>err. fail_after err (Log_cut (length d)))) (\<lambda>_.
           bind_io (put_io (bytes_counted 1)) (\<lambda>_. ret_io (length d + 1)))) ?Q ?E"
        using assms(1) by (intro triple_settle_finish log_catalog_finish_line) auto
      with False show ?thesis by (simp only: if_not_P if_False)
    qed
  qed
qed

lemma triple_settle:
  "triple (holds C cat pl) (Log_settle C) (\<lambda>n s. holds C cat pl s \<and> settled n s)
     (\<lambda>s. holds C cat pl s \<and> \<not> no_faults pl)"
proof (rule triple_split [where f = dk_log], rule triple_satisfiable)
  fix d s0
  let ?P = "\<lambda>s. holds C cat pl s \<and> dk_log s = d"
  assume "?P s0"
  then have tail: "length (log_tail d) < maxLineBytes"
    by (auto elim!: holdsE simp: log_catalog_def split: if_splits)
  show "triple ?P (Log_settle C) (\<lambda>n s. holds C cat pl s \<and> settled n s)
      (\<lambda>s. holds C cat pl s \<and> \<not> no_faults pl)"
    unfolding Log_settle_def
  proof (rule triple_bind [OF triple_hold_call], rule triple_bind_get [where a = "length d"])
    show "triple ?P
      (if length d = 0 then ret_io 0
       else bind_io (syscall (IOFailed ''read'')) (\<lambda>_.
         bind_io (get_io (\<lambda>s. dk_log s ! (length d - 1))) (\<lambda>last_byte.
           if last_byte = 10 then ret_io (length d)
           else
             bind_io (Log_lineStart (length d) (length d)) (\<lambda>start.
             bind_io (syscall (IOFailed ''read'')) (\<lambda>_.
             bind_io (get_io (\<lambda>s. trimLine (take (length d - start) (drop start (dk_log s))))) (\<lambda>txt.
               if length txt > 0 \<and> \<not> is_ok (decodeLine C txt) then
                 bind_io (Log_cut start) (\<lambda>_.
                 bind_io (put_io drop_counted) (\<lambda>_. ret_io start))
               else
                 bind_io (catch_io (write_log [10]) (\<lambda>err. fail_after err (Log_cut (length d)))) (\<lambda>_.
                 bind_io (put_io (bytes_counted 1)) (\<lambda>_. ret_io (length d + 1)))))))))
      (\<lambda>n s. holds C cat pl s \<and> settled n s) (\<lambda>s. holds C cat pl s \<and> \<not> no_faults pl)"
    proof (cases "d = []")
      case True
      then show ?thesis by (auto intro!: triple_ret simp: settled_def)
    next
      case False
      show ?thesis
        unfolding if_not_P [OF False [folded length_0_conv]]
        using triple_settle_open [OF _ tail, of C cat pl] False
        by (intro triple_bind [OF triple_hold_call] triple_bind_get [where a = "last d"])
          (auto simp: last_conv_nth settled_def closed_def intro!: triple_ret)
    qed
  qed simp
qed

section \<open>Appending\<close>

lemma triple_encode:
  assumes "codec_ok C" "entry_ok C e"
  shows "triple (holds C' cat pl) (encode_io C e)
    (\<lambda>line s. holds C' cat pl s \<and> (\<exists>n. wf_nonce n \<and> encodeEntry C n e = Inr line))
    (\<lambda>s. holds C' cat pl s \<and> \<not> no_faults pl)"
  unfolding encode_io_def
proof (rule triple_bind [OF triple_random [OF holds_stable(1)]], rule triple_lift)
  fix n s line
  assume s: "holds C' cat pl s \<and> (case n of None \<Rightarrow> \<not> no_faults pl | Some b \<Rightarrow> \<exists>k. b = mc_rand s k)"
    and enc: "encodeEntry C n e = Inr line"
  then have "wf_nonce n"
    by (cases n) (auto simp: wf_nonce_def holds_def encodeEntry_def Seal_def Let_def
        split: option.splits if_splits)
  with s enc show "holds C' cat pl s \<and> (\<exists>n. wf_nonce n \<and> encodeEntry C n e = Inr line)" by blast
next
  fix n s err
  assume s: "holds C' cat pl s \<and> (case n of None \<Rightarrow> \<not> no_faults pl | Some b \<Rightarrow> \<exists>k. b = mc_rand s k)"
    and enc: "encodeEntry C n e = Inl err"
  show "holds C' cat pl s \<and> \<not> no_faults pl"
  proof (cases n)
    case (Some b)
    then have "wf_nonce n" using s by (auto simp: wf_nonce_def holds_def)
    then show ?thesis using enc encodeEntry_line [OF assms, of n] by force
  qed (use s in auto)
qed

lemma triple_append_inner:
  fixes cat :: catalog
  assumes "codec_ok C" "entry_ok C e" "torn_detected C e" "wf_nonce n" "encodeEntry C n e = Inr line"
  defines "cat' \<equiv> note_entry e cat"
  shows "triple (holds C cat pl)
    (bind_io (Log_settle C) (\<lambda>pos.
     bind_io (catch_io (write_log line) (\<lambda>err. fail_after err (Log_cut pos))) (\<lambda>_.
     bind_io (syscall (IOFailed ''sync'')) (\<lambda>_.
     put_io (bytes_counted (length line))))))
    (\<lambda>_. holds C cat' pl)
    (\<lambda>s. (holds C cat pl s \<or> holds C cat' pl s) \<and> \<not> no_faults pl)"
    (is "triple _ _ _ ?E")
proof (rule triple_bind)
  show "triple (holds C cat pl) (Log_settle C) (\<lambda>pos s. holds C cat pl s \<and> settled pos s) ?E"
    by (rule triple_conseq [OF triple_settle]) auto
  fix pos
  obtain l where l: "line = l @ [10]" "l \<noteq> []" "10 \<notin> set l" "13 \<notin> set l"
    "length l < maxLineBytes" "decodeLine C l = Inr e"
    and torn: "\<And>j. 0 < j \<Longrightarrow> j < length l \<Longrightarrow> \<not> is_ok (decodeLine C (take j l))"
    using encodeEntry_line [OF assms(1,2,4)] assms(3,5) by auto
  show "triple (\<lambda>s. holds C cat pl s \<and> settled pos s)
    (bind_io (catch_io (write_log line) (\<lambda>err. fail_after err (Log_cut pos))) (\<lambda>_.
     bind_io (syscall (IOFailed ''sync'')) (\<lambda>_. put_io (bytes_counted (length line)))))
    (\<lambda>_. holds C cat' pl) ?E"
  proof (rule triple_split [where f = dk_log], rule triple_bind)
    fix d
    have "triple (\<lambda>s. (holds C cat pl s \<and> dk_log s = d) \<and> closed d \<and> pos = length d)
        (catch_io (write_log line) (\<lambda>err. fail_after err (Log_cut pos)))
        (\<lambda>_ s. holds C cat' pl s \<and> dk_log s = d @ line) ?E"
    proof (rule triple_assume, elim conjE)
      assume d: "closed d" "pos = length d"
      have A: "log_catalog C (d @ line) c = Some cat'" if "log_catalog C d c = Some cat" for c
        using log_catalog_append_line(1) [OF that d(1) l(2-6)] by (simp add: l(1) cat'_def)
      have B: "log_catalog C (d @ take n line) c = Some cat \<or> log_catalog C (d @ take n line) c = Some cat'"
        if "log_catalog C d c = Some cat" for c n
        using log_catalog_append_line(2) [OF that d(1) l(2-6) torn, of n] by (simp add: l(1) cat'_def)
      show "triple (\<lambda>s. holds C cat pl s \<and> dk_log s = d)
          (catch_io (write_log line) (\<lambda>err. fail_after err (Log_cut pos)))
          (\<lambda>_ s. holds C cat' pl s \<and> dk_log s = d @ line) ?E"
        unfolding d(2) by (rule triple_write_rollback [OF A B])
    qed
    then show "triple (\<lambda>s. (holds C cat pl s \<and> settled pos s) \<and> dk_log s = d)
        (catch_io (write_log line) (\<lambda>err. fail_after err (Log_cut pos))) (\<lambda>_. holds C cat' pl) ?E"
      by (rule triple_conseq) (auto simp: settled_def)
    show "triple (holds C cat' pl)
        (bind_io (syscall (IOFailed ''sync'')) (\<lambda>_. put_io (bytes_counted (length line))))
        (\<lambda>_. holds C cat' pl) ?E"
    proof (rule triple_bind)
      show "triple (holds C cat' pl) (syscall (IOFailed ''sync'')) (\<lambda>_. holds C cat' pl) ?E"
        by (rule triple_conseq [OF triple_call [OF holds_stable(1)]]) auto
    qed (auto intro!: triple_put)
  qed
qed

lemma triple_unlocked:
  assumes "triple P m (\<lambda>x. Q x) (\<lambda>s. E s \<and> \<not> no_faults pl)"
    and "stable pl P" "\<And>x. stable pl (Q x)" "stable pl E"
    and "\<And>s. P s \<Longrightarrow> E s" "\<And>x s. Q x s \<Longrightarrow> E s"
  shows "triple P (bind_io (syscall e1) (\<lambda>_. finally_io m (syscall e2))) Q (\<lambda>s. E s \<and> \<not> no_faults pl)"
proof (rule triple_bind)
  show "triple P (syscall e1) (\<lambda>_. P) (\<lambda>s. E s \<and> \<not> no_faults pl)"
    by (rule triple_conseq [OF triple_call [OF assms(2)]]) (auto simp: assms(5))
  show "triple P (finally_io m (syscall e2)) Q (\<lambda>s. E s \<and> \<not> no_faults pl)"
  proof (rule triple_finally [OF assms(1)])
    show "triple (Q x) (syscall e2) (\<lambda>_. Q x) (\<lambda>s. E s \<and> \<not> no_faults pl)" for x
      by (rule triple_conseq [OF triple_call [OF assms(3)]]) (auto simp: assms(6))
    show "triple (\<lambda>s. E s \<and> \<not> no_faults pl) (syscall e2) (\<lambda>_ s. E s \<and> \<not> no_faults pl)
        (\<lambda>s. E s \<and> \<not> no_faults pl)"
      by (rule triple_conseq [OF triple_call [OF stable_and [OF assms(4)]]]) auto
  qed
qed

lemma triple_Append:
  assumes "codec_ok C" "entry_ok C e" "torn_detected C e"
  shows "triple (holds C cat pl) (Log_Append C e) (\<lambda>_. holds C (note_entry e cat) pl)
    (\<lambda>s. (holds C cat pl s \<or> holds C (note_entry e cat) pl s) \<and> \<not> no_faults pl)"
  unfolding Log_Append_def
proof (rule triple_bind)
  show "triple (holds C cat pl) (encode_io C e)
      (\<lambda>line s. holds C cat pl s \<and> (\<exists>n. wf_nonce n \<and> encodeEntry C n e = Inr line))
      (\<lambda>s. (holds C cat pl s \<or> holds C (note_entry e cat) pl s) \<and> \<not> no_faults pl)"
    by (rule triple_conseq [OF triple_encode [OF assms(1,2)]]) auto
  show "triple (\<lambda>s. holds C cat pl s \<and> (\<exists>n. wf_nonce n \<and> encodeEntry C n e = Inr line))
    (bind_io (syscall (IOFailed ''lock'')) (\<lambda>_.
     finally_io
       (bind_io (Log_settle C) (\<lambda>pos.
        bind_io (catch_io (write_log line) (\<lambda>err. fail_after err (Log_cut pos))) (\<lambda>_.
        bind_io (syscall (IOFailed ''sync'')) (\<lambda>_.
        put_io (bytes_counted (length line))))))
       (syscall (IOFailed ''unlock''))))
    (\<lambda>_. holds C (note_entry e cat) pl)
    (\<lambda>s. (holds C cat pl s \<or> holds C (note_entry e cat) pl s) \<and> \<not> no_faults pl)" for line
  proof (rule triple_assume, elim exE conjE)
    fix n assume n: "wf_nonce n" "encodeEntry C n e = Inr line"
    show "triple (holds C cat pl)
      (bind_io (syscall (IOFailed ''lock'')) (\<lambda>_.
       finally_io
         (bind_io (Log_settle C) (\<lambda>pos.
          bind_io (catch_io (write_log line) (\<lambda>err. fail_after err (Log_cut pos))) (\<lambda>_.
          bind_io (syscall (IOFailed ''sync'')) (\<lambda>_.
          put_io (bytes_counted (length line))))))
         (syscall (IOFailed ''unlock''))))
      (\<lambda>_. holds C (note_entry e cat) pl)
      (\<lambda>s. (holds C cat pl s \<or> holds C (note_entry e cat) pl s) \<and> \<not> no_faults pl)"
      by (rule triple_unlocked [OF triple_append_inner [OF assms n]])
        (auto intro!: stable_or holds_stable)
  qed
qed

section \<open>Replaying\<close>

lemma readEntries_snapshot:
  assumes "\<not> snd (scan_lines b)" "read_clean C (fst (scan_lines b)) c = Some c'"
  shows "\<exists>r. readEntries C name b c = Inr (c', r) \<and> rp_cutOff r = None"
  using read_lines_clean [OF assms(2), of "\<lparr>rp_end = 0, rp_cutOff = None\<rparr>" name 1 0 "[]"] assms(1)
  by (auto simp: readEntries_def split: prod.splits)

text \<open>The files as they are, with what they hold.\<close>

definition files :: "codec \<Rightarrow> catalog \<Rightarrow> (nat \<Rightarrow> fault) \<Rightarrow> bytes option \<Rightarrow> bytes \<Rightarrow> man_state \<Rightarrow> bool" where
  "files C cat pl sn d s \<longleftrightarrow> holds C cat pl s \<and> dk_snapshot s = sn \<and> dk_log s = d"

lemma files_stable: "stable pl (files C cat pl sn d)"
  by (auto simp: stable_def files_def) (auto simp: holds_def)

lemma triple_files_call:
  "triple (files C cat pl sn d) (syscall e) (\<lambda>_. files C cat pl sn d)
     (\<lambda>s. holds C cat pl s \<and> \<not> no_faults pl)"
  by (rule triple_conseq [OF triple_call [OF files_stable]]) (auto simp: files_def)

lemma triple_read_snapshot:
  assumes "snapshot_catalog C sn = Some cat0"
  shows "triple (files C cat pl sn d) (read_snapshot C) (\<lambda>c s. files C cat pl sn d s \<and> c = cat0)
    (\<lambda>s. holds C cat pl s \<and> \<not> no_faults pl)"
  unfolding read_snapshot_def
proof (rule triple_bind [OF triple_files_call], rule triple_bind_get [where a = sn])
  show "triple (files C cat pl sn d)
      (case sn of None \<Rightarrow> ret_io (Map.empty, [])
       | Some data \<Rightarrow>
           bind_io (syscall (IOFailed ''read snapshot'')) (\<lambda>_.
           bind_io (lift_io (readEntries C SnapshotName data (Map.empty, []))) (\<lambda>(cat, read).
             case rp_cutOff read of Some err \<Rightarrow> fail_io err | None \<Rightarrow> ret_io cat)))
      (\<lambda>c s. files C cat pl sn d s \<and> c = cat0) (\<lambda>s. holds C cat pl s \<and> \<not> no_faults pl)"
  proof (cases sn)
    case None
    with assms show ?thesis by (auto simp: snapshot_catalog_def intro!: triple_ret)
  next
    case (Some b)
    with assms obtain r where r: "readEntries C SnapshotName b (Map.empty, []) = Inr (cat0, r)"
      "rp_cutOff r = None"
      using readEntries_snapshot [of b C "(Map.empty, [])" cat0 SnapshotName]
      by (auto simp: snapshot_catalog_def split: if_splits)
    have "triple (files C cat pl sn d)
        (bind_io (lift_io (readEntries C SnapshotName b (Map.empty, []))) (\<lambda>(cat, read).
           case rp_cutOff read of Some err \<Rightarrow> fail_io err | None \<Rightarrow> ret_io cat))
        (\<lambda>c s. files C cat pl sn d s \<and> c = cat0) (\<lambda>s. holds C cat pl s \<and> \<not> no_faults pl)"
      by (simp add: triple_def bind_io_def lift_io_def r ret_io_def)
    with Some show ?thesis by (auto intro!: triple_bind [OF triple_files_call])
  qed
qed (simp add: files_def)

lemma triple_drop_cut_off:
  assumes "snapshot_catalog C sn = Some cat0" "readEntries C LogName d cat0 = Inr (cat, r)"
  shows "triple (files C cat pl sn d)
    (if rp_cutOff r \<noteq> None then bind_io (Log_cut (rp_end r)) (\<lambda>_. put_io drop_counted) else ret_io ())
    (\<lambda>_. holds C cat pl) (\<lambda>s. holds C cat pl s \<and> \<not> no_faults pl)"
proof (cases "rp_cutOff r = None")
  case True
  then show ?thesis by (auto intro!: triple_ret simp: files_def)
next
  case False
  note cut = readEntries_cut_catalog [OF assms(2) False]
  have "triple (files C cat pl sn d) (Log_cut (rp_end r)) (\<lambda>_. holds C cat pl)
      (\<lambda>s. (files C cat pl sn d s \<or> holds C cat pl s) \<and> \<not> no_faults pl)"
  proof (intro triple_cut files_stable holds_stable)
    fix s assume "files C cat pl sn d s"
    then show "holds C cat pl (s\<lparr>dk_log := truncate_to (rp_end r) (dk_log s)\<rparr>)"
      using assms(1) cut by (auto simp: files_def holds_log_eq truncate_to_take) (auto simp: holds_def)
  qed
  then have "triple (files C cat pl sn d) (Log_cut (rp_end r)) (\<lambda>_. holds C cat pl)
      (\<lambda>s. holds C cat pl s \<and> \<not> no_faults pl)"
    by (rule triple_conseq) (auto simp: files_def)
  with False show ?thesis by (auto intro!: triple_bind triple_put)
qed

lemma triple_replay:
  "triple (holds C cat pl) (Log_replay C)
     (\<lambda>c s. (holds C cat pl s \<and> closed (dk_log s)) \<and> c = cat)
     (\<lambda>s. holds C cat pl s \<and> \<not> no_faults pl)"
proof (rule triple_split [where f = "\<lambda>s. (dk_snapshot s, dk_log s)"], rule triple_satisfiable)
  fix x :: "bytes option \<times> bytes" and s0
  let ?E = "\<lambda>s. holds C cat pl s \<and> \<not> no_faults pl"
  obtain sn d where x: "x = (sn, d)" by (cases x)
  assume "holds C cat pl s0 \<and> (dk_snapshot s0, dk_log s0) = x"
  with x obtain cat0 where c0: "snapshot_catalog C sn = Some cat0" "log_catalog C d cat0 = Some cat"
    by (auto elim: holdsE)
  obtain r where r: "readEntries C LogName d cat0 = Inr (cat, r)"
    using readEntries_catalog [OF c0(2)] by blast
  have log: "triple (files C cat pl sn d) (get_io dk_log) (\<lambda>v s. files C cat pl sn d s \<and> v = d) ?E"
    by (rule triple_get) (simp add: files_def)
  have settle: "triple (holds C cat pl)
      (bind_io (Log_settle C) (\<lambda>sz. bind_io (put_io (set_logBytes sz)) (\<lambda>_.
       bind_io (syscall (IOFailed ''seek'')) (\<lambda>_. ret_io cat))))
      (\<lambda>c s. (holds C cat pl s \<and> closed (dk_log s)) \<and> c = cat) ?E"
  proof (intro triple_bind)
    show "triple (holds C cat pl) (Log_settle C) (\<lambda>n s. holds C cat pl s \<and> settled n s) ?E"
      by (rule triple_settle)
    show "triple (\<lambda>s. holds C cat pl s \<and> settled n s) (put_io (set_logBytes n))
        (\<lambda>_ s. holds C cat pl s \<and> closed (dk_log s)) ?E" for n
      by (rule triple_put) (simp add: settled_def)
    show "triple (\<lambda>s. holds C cat pl s \<and> closed (dk_log s)) (syscall (IOFailed ''seek''))
        (\<lambda>_ s. holds C cat pl s \<and> closed (dk_log s)) ?E"
      by (rule triple_hold_call)
  qed (auto intro!: triple_ret)
  have "triple (files C cat pl sn d) (Log_replay C)
      (\<lambda>c s. (holds C cat pl s \<and> closed (dk_log s)) \<and> c = cat) ?E"
    unfolding Log_replay_def
    by (rule triple_bind [OF triple_read_snapshot [OF c0(1)]], rule triple_assume,
        rule triple_bind [OF triple_files_call], rule triple_bind [OF triple_files_call],
        rule triple_bind [OF log], rule triple_assume)
      (simp only: r bind_lift_io prod.case, rule triple_bind [OF triple_drop_cut_off [OF c0(1) r] settle])
  then show "triple (\<lambda>s. holds C cat pl s \<and> (dk_snapshot s, dk_log s) = x) (Log_replay C)
      (\<lambda>c s. (holds C cat pl s \<and> closed (dk_log s)) \<and> c = cat) ?E"
    by (rule triple_conseq) (auto simp: files_def x)
qed

section \<open>Compacting\<close>

text \<open>A stream of whole lines, one for each of a list of entries.\<close>

fun lines_for :: "codec \<Rightarrow> Entry list \<Rightarrow> bytes \<Rightarrow> bool" where
  "lines_for C [] b \<longleftrightarrow> b = []"
| "lines_for C (e # es) b \<longleftrightarrow>
     (\<exists>l b'. b = l @ 10 # b' \<and> l \<noteq> [] \<and> 10 \<notin> set l \<and> 13 \<notin> set l \<and> length l < maxLineBytes \<and>
        decodeLine C l = Inr e \<and> lines_for C es b')"

lemma lines_for_append:
  "lines_for C es b \<Longrightarrow> lines_for C fs b' \<Longrightarrow> lines_for C (es @ fs) (b @ b')"
  by (induction C es b rule: lines_for.induct) force+

lemma lines_for_scan:
  "lines_for C es b \<Longrightarrow> \<not> snd (scan_lines b) \<and> clean_entries C (fst (scan_lines b)) = Some es"
proof (induction C es b rule: lines_for.induct)
  case (2 C e es b)
  then obtain l b' where l: "b = l @ 10 # b'" "l \<noteq> []" "10 \<notin> set l" "13 \<notin> set l"
    "length l < maxLineBytes" "decodeLine C l = Inr e" "lines_for C es b'"
    by auto
  have "trimLine (l @ [10]) = l" using trimLine_plain [OF l(3,4)] by blast
  with l "2.IH" [OF l(7)] show ?case by (simp add: scan_line)
qed simp

lemma lines_for_catalog:
  "lines_for C es b \<Longrightarrow> snapshot_catalog C (Some b) = Some (fold note_entry es (Map.empty, []))"
  using lines_for_scan [of C es b] by (simp add: snapshot_catalog_def read_clean_entries)

text \<open>The files hold the catalog, and the new snapshot under way is some bytes.\<close>

definition pending :: "codec \<Rightarrow> catalog \<Rightarrow> (nat \<Rightarrow> fault) \<Rightarrow> bytes \<Rightarrow> man_state \<Rightarrow> bool" where
  "pending C cat pl b s \<longleftrightarrow> holds C cat pl s \<and> dk_pending s = Some b"

lemma pending_stable: "stable pl (pending C cat pl b)"
  by (auto simp: stable_def pending_def) (auto simp: holds_def)

lemma triple_write_pending:
  "triple (pending C cat pl b) (write_pending bs) (\<lambda>_. pending C cat pl (b @ bs))
     (\<lambda>s. holds C cat pl s \<and> \<not> no_faults pl)"
  unfolding write_pending_def
proof (rule triple_bind [OF triple_outcome [OF pending_stable]])
  fix f
  show "triple (\<lambda>s. pending C cat pl b s \<and> (f = NoFault \<or> \<not> no_faults pl))
    (case f of NoFault \<Rightarrow> put_io (\<lambda>s. s\<lparr>dk_pending := map_option (\<lambda>b. b @ bs) (dk_pending s)\<rparr>)
     | Fault n \<Rightarrow>
         bind_io (put_io (\<lambda>s. s\<lparr>dk_pending := map_option (\<lambda>b. b @ take n bs) (dk_pending s)\<rparr>)) (\<lambda>_.
           fail_io (IOFailed ''write snapshot'')))
    (\<lambda>_. pending C cat pl (b @ bs)) (\<lambda>s. holds C cat pl s \<and> \<not> no_faults pl)"
    by (cases f) (auto simp: triple_def put_io_def bind_io_def fail_io_def pending_def)
qed

lemma triple_encode_pending:
  assumes "codec_ok C" "entry_ok C e"
  shows "triple (pending C cat pl b) (encode_io C e)
    (\<lambda>line s. pending C cat pl b s \<and> (\<exists>n. wf_nonce n \<and> encodeEntry C n e = Inr line))
    (\<lambda>s. holds C cat pl s \<and> \<not> no_faults pl)"
proof (rule tripleI)
  note T = triple_encode [OF assms, of C cat pl]
  have keep: "dk_pending (snd (encode_io C e s)) = dk_pending s" for s
    by (simp add: encode_io_def bind_io_def read_rand_def lift_io_def split: prod.splits sum.splits)
  fix s assume s: "pending C cat pl b s"
  then have h: "holds C cat pl s" by (simp add: pending_def)
  show "pending C cat pl b s' \<and> (\<exists>n. wf_nonce n \<and> encodeEntry C n e = Inr line)"
    if "encode_io C e s = (Inr line, s')" for line s'
    using tripleD(1) [OF T h that] keep [of s] that s by (simp add: pending_def)
  show "holds C cat pl s' \<and> \<not> no_faults pl" if "encode_io C e s = (Inl err, s')" for err s'
    using tripleD(2) [OF T h that] .
qed

lemma triple_write_entries:
  assumes "codec_ok C" "\<forall>e \<in> set es. entry_ok C e"
  shows "triple (\<lambda>s. \<exists>b. pending C cat pl b s \<and> lines_for C done b)
    (write_entries C es n)
    (\<lambda>_ s. \<exists>b. pending C cat pl b s \<and> lines_for C (done @ es) b)
    (\<lambda>s. holds C cat pl s \<and> \<not> no_faults pl)"
  using assms(2)
proof (induction es arbitrary: n "done")
  case Nil
  then show ?case by (auto intro!: triple_ret)
next
  case (Cons e es)
  let ?E = "\<lambda>s. holds C cat pl s \<and> \<not> no_faults pl"
  have step: "triple (\<lambda>s. \<exists>b. pending C cat pl b s \<and> lines_for C done b)
      (bind_io (encode_io C e) (\<lambda>line. bind_io (write_pending line) (\<lambda>_. ret_io line)))
      (\<lambda>line s. \<exists>b. pending C cat pl b s \<and> lines_for C (done @ [e]) b) ?E"
  proof (rule tripleI)
    fix s assume "\<exists>b. pending C cat pl b s \<and> lines_for C done b"
    then obtain b where b: "pending C cat pl b s" "lines_for C done b" by blast
    have T: "triple (pending C cat pl b)
        (bind_io (encode_io C e) (\<lambda>line. bind_io (write_pending line) (\<lambda>_. ret_io line)))
        (\<lambda>line s. pending C cat pl (b @ line) s \<and> lines_for C (done @ [e]) (b @ line)) ?E"
    proof (rule triple_bind [OF triple_encode_pending], rule assms(1), use Cons.prems in simp,
        rule triple_assume, elim exE conjE)
      fix line nn assume "wf_nonce nn" "encodeEntry C nn e = Inr line"
      then have "lines_for C [e] line"
        using encodeEntry_line [OF assms(1), of e nn] Cons.prems by force
      with b(2) have "lines_for C (done @ [e]) (b @ line)" by (rule lines_for_append)
      then show "triple (pending C cat pl b) (bind_io (write_pending line) (\<lambda>_. ret_io line))
          (\<lambda>line s. pending C cat pl (b @ line) s \<and> lines_for C (done @ [e]) (b @ line)) ?E"
        by (intro triple_bind [OF triple_write_pending] triple_ret) simp
    qed
    show "\<exists>b. pending C cat pl b s' \<and> lines_for C (done @ [e]) b"
      if "bind_io (encode_io C e) (\<lambda>line. bind_io (write_pending line) (\<lambda>_. ret_io line)) s = (Inr line, s')"
      for line s'
      using tripleD(1) [OF T b(1) that] by blast
    show "?E s'"
      if "bind_io (encode_io C e) (\<lambda>line. bind_io (write_pending line) (\<lambda>_. ret_io line)) s = (Inl err, s')"
      for err s'
      using tripleD(2) [OF T b(1) that] .
  qed
  have eq: "write_entries C (e # es) n =
      bind_io (bind_io (encode_io C e) (\<lambda>line. bind_io (write_pending line) (\<lambda>_. ret_io line)))
        (\<lambda>line. write_entries C es (n + length line))"
    by (auto simp: fun_eq_iff bind_io_def ret_io_def split: prod.splits sum.splits)
  show ?case
    unfolding eq
    by (rule triple_bind [OF step]) (use Cons.IH [of "done @ [e]"] Cons.prems in simp)
qed

lemma triple_install:
  assumes "lines_for C es b" "fold note_entry es (Map.empty, []) = cat"
  shows "triple (pending C cat pl b)
    (bind_io rename_pending (\<lambda>_. bind_io (Log_cut 0) (\<lambda>_.
     bind_io (syscall (IOFailed ''seek'')) (\<lambda>_. put_io (compacted written)))))
    (\<lambda>_. holds C cat pl) (\<lambda>s. holds C cat pl s \<and> \<not> no_faults pl)"
proof (intro triple_bind)
  let ?N = "\<lambda>s. holds C cat pl s \<and> snapshot_catalog C (dk_snapshot s) = Some cat"
  have N: "stable pl ?N"
    by (auto simp: stable_def) (auto simp: holds_def)
  have new: "snapshot_catalog C (Some b) = Some cat"
    using lines_for_catalog [OF assms(1)] assms(2) by simp
  show "triple (pending C cat pl b) rename_pending (\<lambda>_. ?N) (\<lambda>s. holds C cat pl s \<and> \<not> no_faults pl)"
    unfolding rename_pending_def
  proof (rule triple_conseq [OF triple_change [OF pending_stable, of _ _ _ _ "\<lambda>_. ?N"]])
    fix s assume s: "pending C cat pl b s"
    then obtain c where "log_catalog C (dk_log s) c = Some cat"
      by (auto simp: pending_def elim: holdsE)
    then have "log_catalog C (dk_log s) cat = Some cat" by (rule log_catalog_again)
    with s new show "?N (s\<lparr>dk_snapshot := dk_pending s, dk_pending := None\<rparr>)"
      by (simp add: pending_def holds_def catalog_of_def)
  qed (auto simp: pending_def)
  have "triple ?N (Log_cut 0) (\<lambda>_. holds C cat pl) (\<lambda>s. (?N s \<or> holds C cat pl s) \<and> \<not> no_faults pl)"
    by (intro triple_cut N holds_stable)
      (auto simp: holds_def catalog_of_def truncate_to_def log_catalog_closed)
  then show "triple ?N (Log_cut 0) (\<lambda>_. holds C cat pl) (\<lambda>s. holds C cat pl s \<and> \<not> no_faults pl)"
    by (rule triple_conseq) auto
  show "triple (holds C cat pl) (syscall (IOFailed ''seek'')) (\<lambda>_. holds C cat pl)
      (\<lambda>s. holds C cat pl s \<and> \<not> no_faults pl)"
    by (rule triple_call [OF holds_stable(1)])
qed (auto intro!: triple_put)

lemma triple_remove_pending:
  "triple (\<lambda>s. holds C cat pl s \<and> A) remove_pending (\<lambda>_ s. holds C cat pl s \<and> A) E"
  by (auto simp: triple_def remove_pending_def catch_io_def effect_def bind_io_def syscall_runs
      put_io_def ret_io_def split: if_splits)

lemma triple_compact:
  assumes "codec_ok C" "\<forall>e \<in> ran (fst cat). entry_ok C e"
  shows "triple (holds C cat pl) (Log_compact C) (\<lambda>_. holds C cat pl)
    (\<lambda>s. holds C cat pl s \<and> \<not> no_faults pl)"
  unfolding Log_compact_def
proof (rule triple_unlocked [OF _ holds_stable(1) holds_stable(1) holds_stable(1)],
    rule triple_bind [OF triple_replay], rule triple_assume, goal_cases)
  case (1 x)
  obtain held order where c: "cat = (held, order)" by (cases cat)
  let ?E = "\<lambda>s. holds C cat pl s \<and> \<not> no_faults pl"
  let ?es = "map (\<lambda>i. the (held i)) order"
  let ?body = "bind_io (write_entries C ?es 0) (\<lambda>written.
      bind_io (syscall (IOFailed ''sync snapshot'')) (\<lambda>_.
      bind_io (syscall (IOFailed ''close snapshot'')) (\<lambda>_.
      bind_io rename_pending (\<lambda>_.
      bind_io (Log_cut 0) (\<lambda>_.
      bind_io (syscall (IOFailed ''seek'')) (\<lambda>_.
      put_io (compacted written)))))))"
  have "triple (holds C cat pl)
      (bind_io (effect (IOFailed ''open pending'') (\<lambda>s. s\<lparr>dk_pending := Some []\<rparr>)) (\<lambda>_.
       finally_io ?body remove_pending)) (\<lambda>_. holds C cat pl) ?E"
  proof (rule triple_satisfiable)
    fix s0 assume "holds C cat pl s0"
    then have w: "wf_catalog (held, order)" using wf_catalog_of [of C s0 cat] by (simp add: holds_def c)
    then have fold: "fold note_entry ?es (Map.empty, []) = cat"
      using fold_note_entries c by simp
    have "entry_ok C e" if "e \<in> set ?es" for e
    proof -
      from that obtain i where "i \<in> set order" "e = the (held i)" by auto
      moreover from this obtain e' where "held i = Some e'"
        using w by (fastforce simp: wf_catalog_def)
      ultimately show ?thesis using assms(2) c by (auto simp: ran_def)
    qed
    then have oks: "\<forall>e \<in> set ?es. entry_ok C e" by blast
    let ?L = "\<lambda>s. \<exists>b. pending C cat pl b s \<and> lines_for C ?es b"
    have L: "stable pl ?L"
      using pending_stable [of pl C cat] by (auto simp: stable_def)
    have call: "triple ?L (syscall e) (\<lambda>_. ?L) ?E" for e :: man_error
      by (rule triple_conseq [OF triple_call [OF L]]) (auto simp: pending_def)
    have install: "triple ?L (bind_io rename_pending (\<lambda>_. bind_io (Log_cut 0) (\<lambda>_.
        bind_io (syscall (IOFailed ''seek'')) (\<lambda>_. put_io (compacted written)))))
        (\<lambda>_. holds C cat pl) ?E" for written
      using triple_install [OF _ fold, of C _ pl written] unfolding triple_def by blast
    have body: "triple (holds C cat pl) (effect (IOFailed ''open pending'') (\<lambda>s. s\<lparr>dk_pending := Some []\<rparr>))
        (\<lambda>_ s. \<exists>b. pending C cat pl b s \<and> lines_for C [] b) ?E"
      by (rule triple_change [OF holds_stable(1)]) (simp add: pending_def)
    have wr: "triple (\<lambda>s. \<exists>b. pending C cat pl b s \<and> lines_for C [] b) ?body (\<lambda>_. holds C cat pl) ?E"
      using triple_write_entries [OF assms(1) oks, of cat pl "[]" 0]
      by (intro triple_bind [OF _ triple_bind [OF call triple_bind [OF call install]]]) simp
    show "triple (holds C cat pl)
        (bind_io (effect (IOFailed ''open pending'') (\<lambda>s. s\<lparr>dk_pending := Some []\<rparr>)) (\<lambda>_.
         finally_io ?body remove_pending)) (\<lambda>_. holds C cat pl) ?E"
      using triple_remove_pending [of C cat pl True] triple_remove_pending [of C cat pl "\<not> no_faults pl"]
      by (intro triple_bind [OF body triple_finally [OF wr]]) simp_all
  qed
  then show ?case
    unfolding 1 c prod.case by (rule triple_conseq) (auto simp: c)
qed auto

end
