(* ===== verification/Manifest_Spec.thy ===== *)
theory Manifest_Spec
  imports Man_Safety
begin

text \<open>
  What the catalog promises its clients, over the operations of \<open>Man_Log\<close>: whatever fails,
  acknowledged changes are kept and no change is invented, across every process that has the
  catalog open; compaction changes nothing; loading reads what the files hold; removal marks.
\<close>

section \<open>Loading\<close>

definition ready :: "(nat \<Rightarrow> fault) \<Rightarrow> man_state \<Rightarrow> bool" where
  "ready pl s \<longleftrightarrow> mc_plan s = pl \<and> (\<forall>i. length (mc_rand s i) = NonceSize)"

definition raw_files :: "(nat \<Rightarrow> fault) \<Rightarrow> bytes option \<Rightarrow> bytes \<Rightarrow> man_state \<Rightarrow> bool" where
  "raw_files pl sn d s \<longleftrightarrow> ready pl s \<and> dk_snapshot s = sn \<and> dk_log s = d"

lemma raw_stable: "stable pl (raw_files pl sn d)"
  by (auto simp: stable_def raw_files_def ready_def)

lemma holds_ready: "holds C cat pl s \<Longrightarrow> ready pl s"
  by (simp add: holds_def ready_def)

lemma holds_from_raw:
  "raw_files pl sn d s \<Longrightarrow> snapshot_catalog C sn = Some c0 \<Longrightarrow> log_catalog C d c0 = Some c \<Longrightarrow>
   holds C c pl s"
  by (simp add: raw_files_def ready_def holds_def catalog_of_def)

lemma triple_raw_call:
  "triple (raw_files pl sn d) (syscall e) (\<lambda>_. raw_files pl sn d) (\<lambda>_. True)"
  by (rule triple_conseq [OF triple_call [OF raw_stable]]) auto

lemma triple_raw_snapshot:
  "triple (raw_files pl sn d) (read_snapshot C)
     (\<lambda>c s. raw_files pl sn d s \<and> snapshot_catalog C sn = Some c) (\<lambda>_. True)"
  unfolding read_snapshot_def
proof (rule triple_bind [OF triple_raw_call], rule triple_bind_get [where a = sn])
  show "triple (raw_files pl sn d)
      (case sn of None \<Rightarrow> ret_io (Map.empty, [])
       | Some data \<Rightarrow>
           bind_io (syscall (IOFailed ''read snapshot'')) (\<lambda>_.
           bind_io (lift_io (readEntries C SnapshotName data (Map.empty, []))) (\<lambda>(cat, read).
             case rp_cutOff read of Some err \<Rightarrow> fail_io err | None \<Rightarrow> ret_io cat)))
      (\<lambda>c s. raw_files pl sn d s \<and> snapshot_catalog C sn = Some c) (\<lambda>_. True)"
  proof (cases sn)
    case None
    then show ?thesis by (auto simp: snapshot_catalog_def intro!: triple_ret)
  next
    case (Some b)
    have "triple (raw_files pl sn d)
        (bind_io (lift_io (readEntries C SnapshotName b (Map.empty, []))) (\<lambda>(cat, read).
           case rp_cutOff read of Some err \<Rightarrow> fail_io err | None \<Rightarrow> ret_io cat))
        (\<lambda>c s. raw_files pl sn d s \<and> snapshot_catalog C sn = Some c) (\<lambda>_. True)"
    proof (cases "readEntries C SnapshotName b (Map.empty, [])")
      case (Inr p)
      obtain c r where p: "p = (c, r)" by (cases p)
      show ?thesis
        using readEntries_clean_catalog(1,2) [OF Inr [unfolded p]] Some
        by (auto simp: Inr p snapshot_catalog_def intro!: triple_ret triple_fail split: option.splits)
    qed (auto intro!: triple_fail)
    with Some show ?thesis by (auto intro!: triple_bind [OF triple_raw_call])
  qed
qed (simp add: raw_files_def)

lemma triple_raw_drop:
  assumes "snapshot_catalog C sn = Some c0" "readEntries C LogName d c0 = Inr (c, r)"
  shows "triple (raw_files pl sn d)
    (if rp_cutOff r \<noteq> None then bind_io (Log_cut (rp_end r)) (\<lambda>_. put_io drop_counted) else ret_io ())
    (\<lambda>_. holds C c pl) (\<lambda>_. True)"
proof (cases "rp_cutOff r = None")
  case True
  with readEntries_clean_catalog(3) [OF assms(2)] assms(1) show ?thesis
    by (auto intro!: triple_ret holds_from_raw)
next
  case False
  note cut = readEntries_cut_catalog [OF assms(2) False]
  have "triple (raw_files pl sn d) (Log_cut (rp_end r)) (\<lambda>_. holds C c pl)
      (\<lambda>s. (raw_files pl sn d s \<or> holds C c pl s) \<and> \<not> no_faults pl)"
  proof (intro triple_cut raw_stable holds_stable)
    fix s assume "raw_files pl sn d s"
    then show "holds C c pl (s\<lparr>dk_log := truncate_to (rp_end r) (dk_log s)\<rparr>)"
      using assms(1) cut by (auto simp: raw_files_def ready_def holds_log_eq truncate_to_take)
  qed
  then have "triple (raw_files pl sn d) (Log_cut (rp_end r)) (\<lambda>_. holds C c pl) (\<lambda>_. True)"
    by (rule triple_conseq) auto
  with False show ?thesis by (auto intro!: triple_bind triple_put)
qed

lemma triple_raw_replay:
  "triple (ready pl) (Log_replay C) (\<lambda>c. holds C c pl) (\<lambda>_. True)"
proof (rule triple_split [where f = "\<lambda>s. (dk_snapshot s, dk_log s)"])
  fix x :: "bytes option \<times> bytes"
  obtain sn d where x: "x = (sn, d)" by (cases x)
  have log: "triple (raw_files pl sn d) (get_io dk_log) (\<lambda>v s. raw_files pl sn d s \<and> v = d) (\<lambda>_. True)"
    by (rule triple_get) (simp add: raw_files_def)
  have settle: "triple (holds C c pl)
      (bind_io (Log_settle C) (\<lambda>sz. bind_io (put_io (set_logBytes sz)) (\<lambda>_.
       bind_io (syscall (IOFailed ''seek'')) (\<lambda>_. ret_io c))))
      (\<lambda>c. holds C c pl) (\<lambda>_. True)" for c
  proof (intro triple_bind)
    show "triple (holds C c pl) (Log_settle C) (\<lambda>_. holds C c pl) (\<lambda>_. True)"
      by (rule triple_conseq [OF triple_settle]) auto
    show "triple (holds C c pl) (put_io (set_logBytes n)) (\<lambda>_. holds C c pl) (\<lambda>_. True)" for n
      by (rule triple_put) simp
    show "triple (holds C c pl) (syscall (IOFailed ''seek'')) (\<lambda>_. holds C c pl) (\<lambda>_. True)"
      by (rule triple_conseq [OF triple_call [OF holds_stable(1)]]) auto
  qed (auto intro!: triple_ret)
  have "triple (raw_files pl sn d) (Log_replay C) (\<lambda>c. holds C c pl) (\<lambda>_. True)"
    unfolding Log_replay_def
  proof (rule triple_bind [OF triple_raw_snapshot], rule triple_assume,
      rule triple_bind [OF triple_raw_call], rule triple_bind [OF triple_raw_call],
      rule triple_bind [OF log], rule triple_assume, goal_cases)
    case (1 c0 _ _ v)
    show ?case
    proof (cases "readEntries C LogName d c0")
      case (Inr p)
      obtain c r where p: "p = (c, r)" by (cases p)
      show ?thesis
        unfolding 1(2) Inr p bind_lift_io prod.case
        by (rule triple_bind [OF triple_raw_drop [OF 1(1) Inr [unfolded p]] settle])
    qed (simp add: 1 triple_fail)
  qed
  then show "triple (\<lambda>s. ready pl s \<and> (dk_snapshot s, dk_log s) = x) (Log_replay C)
      (\<lambda>c. holds C c pl) (\<lambda>_. True)"
    by (rule triple_conseq) (auto simp: raw_files_def x)
qed

section \<open>The process's copy of the catalog\<close>

text \<open>The operations on the files leave the \<open>Manifest\<close> of the process alone.\<close>

definition keeps :: "'a man_op \<Rightarrow> bool" where
  "keeps m \<longleftrightarrow> (\<forall>s. st_man (snd (m s)) = st_man s)"

named_theorems keeps_intros \<open>operations that leave the process's catalog alone\<close>

lemma keeps_combinators [keeps_intros]:
  "keeps (ret_io x)" "keeps (fail_io e)" "keeps (get_io g)" "keeps (lift_io r)"
  "keeps (syscall e)" "keeps next_fault" "keeps read_rand"
  "(\<And>s. st_man (f s) = st_man s) \<Longrightarrow> keeps (put_io f)"
  "(\<And>s. st_man (f s) = st_man s) \<Longrightarrow> keeps (effect e f)"
  by (auto simp: keeps_def ret_io_def fail_io_def get_io_def lift_io_def syscall_runs next_fault_def
      read_rand_def put_io_def effect_def bind_io_def)

lemma keeps_bind [keeps_intros]:
  assumes "keeps m" "\<And>x. keeps (f x)"
  shows "keeps (bind_io m f)"
  unfolding keeps_def
proof
  fix s
  obtain r s1 where m: "m s = (r, s1)" by (cases "m s")
  with assms(1) have "st_man s1 = st_man s" by (metis keeps_def snd_conv)
  with assms(2) m show "st_man (snd (bind_io m f s)) = st_man s"
    by (cases r) (simp_all add: bind_io_def keeps_def)
qed

lemma keeps_handlers [keeps_intros]:
  "keeps m \<Longrightarrow> keeps c \<Longrightarrow> keeps (finally_io m c)"
  "keeps c \<Longrightarrow> keeps (fail_after e c)"
  "keeps m \<Longrightarrow> (\<And>e. keeps (h e)) \<Longrightarrow> keeps (catch_io m h)"
proof -
  show "keeps (fail_after e c)" if "keeps c"
    using that by (simp add: keeps_def fail_after_def)
  show "keeps (finally_io m c)" if k: "keeps m" "keeps c"
    unfolding keeps_def
  proof
    fix s
    obtain r s1 where m: "m s = (r, s1)" by (cases "m s")
    obtain r2 s2 where c: "c s1 = (r2, s2)" by (cases "c s1")
    have "st_man s1 = st_man s" "st_man s2 = st_man s1"
      using k m c by (metis keeps_def snd_conv)+
    with m c show "st_man (snd (finally_io m c s)) = st_man s"
      by (cases r; cases r2) (simp_all add: finally_io_def)
  qed
  show "keeps (catch_io m h)" if k: "keeps m" "\<And>e. keeps (h e)"
    unfolding keeps_def
  proof
    fix s
    obtain r s1 where m: "m s = (r, s1)" by (cases "m s")
    with k(1) have "st_man s1 = st_man s" by (metis keeps_def snd_conv)
    with k(2) m show "st_man (snd (catch_io m h s)) = st_man s"
      by (cases r) (simp_all add: catch_io_def keeps_def)
  qed
qed

lemma counters_keep [simp]:
  "st_man (drop_counted s) = st_man s" "st_man (bytes_counted n s) = st_man s"
  "st_man (set_logBytes n s) = st_man s" "st_man (compacted n s) = st_man s"
  by (simp_all add: drop_counted_def bytes_counted_def set_logBytes_def compacted_def)

lemma keeps_log [keeps_intros]: "keeps (write_log bs)" "keeps (Log_cut n)" "keeps (write_pending bs)"
  "keeps rename_pending" "keeps remove_pending" "keeps (encode_io C e)"
  unfolding write_log_def Log_cut_def write_pending_def rename_pending_def remove_pending_def encode_io_def
  by (auto intro!: keeps_intros split: fault.split)

lemma keeps_lineStart [keeps_intros]: "keeps (Log_lineStart sz pos)"
proof (induction pos rule: less_induct)
  case (less pos)
  show ?case
    unfolding Log_lineStart_unfold [of sz pos]
    by (auto intro!: keeps_intros less.IH simp: Let_def blockBytes_def split: option.split)
qed

lemma keeps_settle [keeps_intros]: "keeps (Log_settle C)"
  unfolding Log_settle_def by (intro keeps_intros) (auto intro!: keeps_intros)

lemma keeps_Append [keeps_intros]: "keeps (Log_Append C e)"
  unfolding Log_Append_def by (auto intro!: keeps_intros)

lemma keeps_replay [keeps_intros]: "keeps (Log_replay C)"
  unfolding Log_replay_def read_snapshot_def
  by (auto intro!: keeps_intros split: option.split prod.split)

lemma keeps_write_entries [keeps_intros]: "keeps (write_entries C es n)"
  by (induction es arbitrary: n) (auto intro!: keeps_intros)

lemma keeps_compact [keeps_intros]: "keeps (Log_compact C)"
  unfolding Log_compact_def by (auto intro!: keeps_intros split: prod.split)

section \<open>Operations of the catalog\<close>

lemma triple_Replay:
  "triple (holds C cat pl) (Log_Replay C) (\<lambda>c s. holds C cat pl s \<and> c = cat)
     (\<lambda>s. holds C cat pl s \<and> \<not> no_faults pl)"
  unfolding Log_Replay_def
proof (rule triple_unlocked)
  show "triple (holds C cat pl) (Log_replay C) (\<lambda>c s. holds C cat pl s \<and> c = cat)
      (\<lambda>s. holds C cat pl s \<and> \<not> no_faults pl)"
    by (rule triple_conseq [OF triple_replay]) auto
qed (auto intro!: stable_and holds_stable)

lemma triple_Manifest_append:
  assumes "codec_ok C" "entry_ok C e" "torn_detected C e"
  shows "triple (holds C cat pl) (Manifest_append C e) (\<lambda>_. holds C (note_entry e cat) pl)
    (\<lambda>s. (holds C cat pl s \<or> holds C (note_entry e cat) pl s) \<and> \<not> no_faults pl)"
  unfolding Manifest_append_def
  by (rule triple_bind [OF triple_Append [OF assms]], rule triple_put) simp

lemma ran_note: "x \<in> ran (fst (note_entry e cat)) \<Longrightarrow> x = e \<or> x \<in> ran (fst cat)"
  by (auto simp: note_entry_simps ran_def split: if_splits)

lemma triple_Manifest_Append:
  assumes "codec_ok C" "entry_ok C e" "torn_detected C e" "\<forall>x \<in> ran (fst cat). entry_ok C x"
  shows "triple (holds C cat pl) (Manifest_Append C e) (\<lambda>_. holds C (note_entry e cat) pl)
    (\<lambda>s. (holds C cat pl s \<or> holds C (note_entry e cat) pl s) \<and> \<not> no_faults pl)"
  unfolding Manifest_Append_def
proof (rule triple_bind [OF triple_Manifest_append [OF assms(1-3)]], rule triple_bind)
  let ?H = "holds C (note_entry e cat) pl"
  let ?E = "\<lambda>s. (holds C cat pl s \<or> ?H s) \<and> \<not> no_faults pl"
  show "triple ?H (get_io st_log) (\<lambda>_. ?H) ?E" by (rule triple_get) simp
  have "\<forall>x \<in> ran (fst (note_entry e cat)). entry_ok C x" using assms(2,4) ran_note by blast
  from triple_compact [OF assms(1) this, of pl]
  have "triple ?H (Log_compact C) (\<lambda>_. ?H) ?E" by (rule triple_conseq) auto
  then show "triple ?H (if \<not> dueForCompaction l then ret_io () else Log_compact C) (\<lambda>_. ?H) ?E" for l
    by (auto intro!: triple_ret)
qed

definition man_cat :: "Manifest \<Rightarrow> catalog" where
  "man_cat m = (mf_entries m, mf_order m)"

lemma man_cat_note: "man_cat (Manifest_note e m) = note_entry e (man_cat m)"
  by (simp add: man_cat_def Manifest_note_def note_entry_def)

lemma Manifest_Append_copy:
  assumes "Manifest_Append C e s = (Inr (), s')"
  shows "st_man s' = Manifest_note e (st_man s)"
proof -
  obtain s1 where a: "Log_Append C e s = (Inr (), s1)"
    using assms by (auto simp: Manifest_Append_def Manifest_append_def bind_io_def split: prod.splits sum.splits)
  then have "st_man s1 = st_man s" using keeps_Append [of C e] by (metis keeps_def snd_conv)
  moreover have "st_man s' = Manifest_note e (st_man s1)"
    using assms a keeps_compact [of C, unfolded keeps_def, rule_format,
        of "s1\<lparr>st_man := Manifest_note e (st_man s1)\<rparr>"]
    by (auto simp: Manifest_Append_def Manifest_append_def bind_io_def put_io_def get_io_def ret_io_def
        split: if_splits)
  ultimately show ?thesis by simp
qed

section \<open>Any sequence of operations, by any processes\<close>

text \<open>
  One operation as a process brings it to the shared files: the process's own \<open>Log\<close> and
  \<open>Manifest\<close>, which of its system calls fail, its random bytes, and what it does.
\<close>

datatype man_cmd = CmdAppend Entry | CmdCompact | CmdReplay

record man_call =
  mp_log :: Log
  mp_man :: Manifest
  mp_plan :: "nat \<Rightarrow> fault"
  mp_rand :: "nat \<Rightarrow> bytes"
  mp_cmd :: man_cmd

definition enter_call :: "man_call \<Rightarrow> man_state \<Rightarrow> man_state" where
  "enter_call p s =
     s\<lparr>st_log := mp_log p, st_man := mp_man p, mc_plan := mp_plan p, mc_rand := mp_rand p, mc_step := 0\<rparr>"

definition man_step :: "codec \<Rightarrow> man_call \<Rightarrow> man_state \<Rightarrow> bool \<times> man_state" where
  "man_step C p s =
     (case mp_cmd p of
        CmdAppend e \<Rightarrow> (let (r, s') = Manifest_Append C e (enter_call p s) in (is_ok r, s'))
      | CmdCompact \<Rightarrow> (let (r, s') = Log_compact C (enter_call p s) in (is_ok r, s'))
      | CmdReplay \<Rightarrow> (let (r, s') = Log_Replay C (enter_call p s) in (is_ok r, s')))"

text \<open>What an operation does to the catalog: only an append changes it.\<close>

definition man_changes :: "man_call \<Rightarrow> Entry list" where
  "man_changes p = (case mp_cmd p of CmdAppend e \<Rightarrow> [e] | _ \<Rightarrow> [])"

definition man_valid :: "codec \<Rightarrow> man_call \<Rightarrow> bool" where
  "man_valid C p \<longleftrightarrow>
     codec_ok C \<and> (\<forall>i. length (mp_rand p i) = NonceSize) \<and>
     (case mp_cmd p of CmdAppend e \<Rightarrow> entry_ok C e \<and> torn_detected C e | _ \<Rightarrow> True)"

definition entries_ok :: "codec \<Rightarrow> catalog \<Rightarrow> bool" where
  "entries_ok C cat \<longleftrightarrow> (\<forall>e \<in> ran (fst cat). entry_ok C e)"

lemma enter_holds:
  "catalog_of C s = Some cat \<Longrightarrow> (\<forall>i. length (mp_rand p i) = NonceSize) \<Longrightarrow>
   holds C cat (mp_plan p) (enter_call p s)"
  by (simp add: holds_def catalog_of_def enter_call_def)

lemma step_outcome:
  assumes "triple (holds C cat pl) m (\<lambda>_. holds C cat' pl)
      (\<lambda>s. (holds C cat pl s \<or> holds C cat' pl s) \<and> \<not> no_faults pl)"
    and "holds C cat pl s" "(let (r, s') = m s in (is_ok r, s')) = (ok, s')"
  shows "if ok then catalog_of C s' = Some cat'
    else (catalog_of C s' = Some cat \<or> catalog_of C s' = Some cat') \<and> \<not> no_faults pl"
proof -
  obtain r where m: "m s = (r, s')" "ok = is_ok r"
    using assms(3) by (auto simp: Let_def split: prod.splits)
  show ?thesis
  proof (cases r)
    case (Inl e)
    with m have "m s = (Inl e, s')" by simp
    from tripleD(2) [OF assms(1,2) this] show ?thesis using m Inl by (auto simp: holds_def)
  next
    case (Inr x)
    with m have "m s = (Inr x, s')" by simp
    from tripleD(1) [OF assms(1,2) this] show ?thesis using m Inr by (simp add: holds_def)
  qed
qed

lemma man_step_outcome:
  assumes "man_valid C p" "entries_ok C cat" "catalog_of C s = Some cat" "man_step C p s = (ok, s')"
  shows "if ok then catalog_of C s' = Some (fold note_entry (man_changes p) cat)
    else (catalog_of C s' = Some cat \<or> catalog_of C s' = Some (fold note_entry (man_changes p) cat)) \<and>
      \<not> no_faults (mp_plan p)"
proof -
  have C: "codec_ok C" and e: "\<forall>e \<in> ran (fst cat). entry_ok C e"
    and h: "holds C cat (mp_plan p) (enter_call p s)"
    using assms enter_holds by (simp_all add: man_valid_def entries_ok_def)
  show ?thesis
  proof (cases "mp_cmd p")
    case (CmdAppend x)
    with assms(1) have x: "entry_ok C x" "torn_detected C x" by (simp_all add: man_valid_def)
    show ?thesis
      using step_outcome [OF triple_Manifest_Append [OF C x e] h, of ok s'] assms(4) CmdAppend
      by (simp add: man_step_def man_changes_def)
  next
    case CmdCompact
    have "triple (holds C cat (mp_plan p)) (Log_compact C) (\<lambda>_. holds C cat (mp_plan p))
        (\<lambda>s. (holds C cat (mp_plan p) s \<or> holds C cat (mp_plan p) s) \<and> \<not> no_faults (mp_plan p))"
      by (rule triple_conseq [OF triple_compact [OF C e]]) auto
    from step_outcome [OF this h, of ok s'] show ?thesis
      using assms(4) CmdCompact by (cases ok) (simp_all add: man_step_def man_changes_def)
  next
    case CmdReplay
    have "triple (holds C cat (mp_plan p)) (Log_Replay C) (\<lambda>_. holds C cat (mp_plan p))
        (\<lambda>s. (holds C cat (mp_plan p) s \<or> holds C cat (mp_plan p) s) \<and> \<not> no_faults (mp_plan p))"
      by (rule triple_conseq [OF triple_Replay]) auto
    from step_outcome [OF this h, of ok s'] show ?thesis
      using assms(4) CmdReplay by (cases ok) (simp_all add: man_step_def man_changes_def)
  qed
qed

interpretation man: journal "catalog_of C" "man_step C" man_changes note_entry "\<lambda>p s. man_valid C p"
    "entries_ok C" for C
proof
  fix p v s s'
  assume a: "man_valid C p" "entries_ok C v" "catalog_of C s = Some v"
  show "catalog_of C s' = Some (fold note_entry (man_changes p) v)" if "man_step C p s = (True, s')"
    using man_step_outcome [OF a that] by simp
  show "\<exists>k. catalog_of C s' = Some (fold note_entry (take k (man_changes p)) v)"
    if "man_step C p s = (False, s')"
    using man_step_outcome [OF a that] by (metis fold_simps(1) id_apply take0 take_all order_refl)
next
  fix p :: man_call and v :: catalog and a
  assume "man_valid C p" "entries_ok C v" "a \<in> set (man_changes p)"
  then show "entries_ok C (note_entry a v)" using ran_note [of _ a v]
    by (auto simp: entries_ok_def man_changes_def man_valid_def split: man_cmd.splits)
qed

text \<open>
  C1. No acknowledged change to the catalog is lost and none is invented, across any number
  of processes and whatever fails. Any processes run any sequence of appends (with the
  compaction an append may trigger), compactions and replays against the same files, each
  with its own copy of the catalog, however stale, and with any of its system calls failing,
  so also with the process dying at any point. What the files then hold is what they held,
  changed by the appended entries in order: every append that returned, and of those that
  failed some.
\<close>

theorem catalog_history:
  assumes "\<forall>p \<in> set ps. man_valid C p" and "entries_ok C cat" and "catalog_of C s = Some cat"
  shows "\<exists>made. survives man_changes (fst (run_ops (man_step C) ps s)) made \<and>
    catalog_of C (snd (run_ops (man_step C) ps s)) = Some (fold note_entry (concat made) cat)"
proof -
  have "valid_run (man_step C) (\<lambda>p s. man_valid C p) ps s"
    using assms(1) by (intro valid_run_always) simp
  from man.history [OF this assms(2,3)] show ?thesis by blast
qed

text \<open>
  C3. An operation on the catalog none of whose system calls fails returns, and has its
  effect: an append adds its entry, a compaction and a replay change nothing, and the replay
  returns what the files hold.
\<close>

theorem catalog_returns:
  assumes "man_valid C p" and "entries_ok C cat" and "catalog_of C s = Some cat"
    and "\<forall>i. mp_plan p i = NoFault"
  shows "\<exists>s'. man_step C p s = (True, s') \<and> catalog_of C s' = Some (fold note_entry (man_changes p) cat) \<and>
    fst (Log_Replay C (enter_call p s)) = Inr cat"
proof -
  obtain ok s' where st: "man_step C p s = (ok, s')" by (cases "man_step C p s")
  have nf: "no_faults (mp_plan p)" using assms(4) by (simp add: no_faults_def)
  have h: "holds C cat (mp_plan p) (enter_call p s)"
    using assms enter_holds by (simp add: man_valid_def)
  have "fst (Log_Replay C (enter_call p s)) = Inr cat"
    using triple_returns [OF triple_Replay h] nf by force
  with st nf man_step_outcome [OF assms(1-3) st] show ?thesis
    by (cases ok) auto
qed

text \<open>A concrete codec, entry and set of files, for the witnesses.\<close>

definition sample_entry :: Entry where
  "sample_entry =
     \<lparr>me_ID = sample_id 1, me_Kind = KindMemory, me_Type = ''fact'', me_Version = 1,
      me_CID = replicate 32 0, me_ObjectRef = ''o'', me_SlabID = ''s'', me_Bytes = 1,
      me_Tags = [], me_WrittenAt = 0, me_Deleted = False\<rparr>"

definition sample_codec :: codec where
  "sample_codec =
     \<lparr>cd_crypto = sample_crypto, cd_sealer = sample_sealer,
      cd_marshal = (\<lambda>e. if e = sample_entry then Some [1]
        else if e = sample_entry\<lparr>me_Deleted := True\<rparr> then Some [2] else None),
      cd_unmarshal = (\<lambda>b. if b = [1] then Some sample_entry
        else if b = [2] then Some (sample_entry\<lparr>me_Deleted := True\<rparr>) else None)\<rparr>"

definition sample_state :: man_state where
  "sample_state =
     \<lparr>mc_plan = (\<lambda>_. NoFault), mc_rand = (\<lambda>_. replicate 24 0), mc_step = 0,
      st_log = \<lparr>lg_logBytes = 0, lg_snapshotBytes = 0, lg_written = 0, lg_compactions = 0, lg_dropped = 0\<rparr>,
      st_man = \<lparr>mf_entries = Map.empty, mf_order = []\<rparr>,
      dk_log = [], dk_snapshot = None, dk_pending = None\<rparr>"

definition sample_call :: man_call where
  "sample_call =
     \<lparr>mp_log = st_log sample_state, mp_man = st_man sample_state, mp_plan = (\<lambda>_. NoFault),
      mp_rand = (\<lambda>_. replicate 24 0), mp_cmd = CmdAppend sample_entry\<rparr>"

lemma sample_codec_ok: "codec_ok sample_codec"
  using sample_crypto_ok sample_sealer_ok by (simp add: codec_ok_def sample_codec_def)

lemma sample_entries_ok:
  "entry_ok sample_codec sample_entry" "entry_ok sample_codec (sample_entry\<lparr>me_Deleted := True\<rparr>)"
  by (simp_all add: entry_ok_def sample_codec_def sample_entry_def sample_crypto_def maxLineBytes_def)

text \<open>A sealing of one byte under the sample cipher does not open without its last byte.\<close>

lemma sample_torn_open:
  assumes "v \<noteq> 0" "wf_nonce n" "Seal sample_crypto sample_sealer n [v] = Inr b" "k < length b"
  shows "\<not> is_ok (Open sample_crypto sample_sealer (take k b))"
proof -
  obtain nb where nb: "n = Some nb" "length nb = 24"
    using assms(2) by (auto simp: wf_nonce_def NonceSize_def)
  define t where "t = sum_list (replicate 32 1 @ nb)"
  have key: "slr_record sample_sealer = replicate 32 1" by (simp add: sample_sealer_def)
  have b: "b = nb @ v # replicate 16 (t + v)"
    using assms(3) nb
    by (simp add: Seal_def sample_crypto_def key KeySize_def sample_tag_def TagSize_def t_def algebra_simps)
  show ?thesis
  proof (cases "k < 40")
    case True
    then show ?thesis by (simp add: Open_def size_defs min_def)
  next
    case False
    with assms(4) b nb have k: "k = 40" by simp
    have "take k b = nb @ v # replicate 15 (t + v)"
      by (simp add: k b nb(2) take_Cons')
    moreover have "v # replicate 15 (t + v) \<noteq> replicate 16 t"
    proof
      assume "v # replicate 15 (t + v) = replicate 16 t"
      then show False using assms(1) by (auto simp: numeral_eq_Suc)
    qed
    ultimately show ?thesis
      by (simp add: Open_def size_defs nb(2) key sample_crypto_def sample_tag_def t_def)
  qed
qed

lemma sample_torn:
  "torn_detected sample_codec sample_entry"
  "torn_detected sample_codec (sample_entry\<lparr>me_Deleted := True\<rparr>)"
  using sample_torn_open [of 1] sample_torn_open [of 2]
  by (auto simp: torn_detected_def sample_codec_def sample_entry_def)

lemma sample_catalog: "catalog_of sample_codec sample_state = Some (Map.empty, [])"
  by (simp add: catalog_of_def snapshot_catalog_def sample_state_def log_catalog_closed)

lemma sample_call_ok: "man_valid sample_codec sample_call"
  using sample_codec_ok sample_entries_ok sample_torn
  by (simp add: man_valid_def sample_call_def NonceSize_def)

lemma sample_empty_ok: "entries_ok C (Map.empty, [])"
  by (simp add: entries_ok_def)

theorem catalog_history_witness:
  "\<exists>made. survives man_changes
       (fst (run_ops (man_step sample_codec) [sample_call, sample_call] sample_state)) made \<and>
     catalog_of sample_codec (snd (run_ops (man_step sample_codec) [sample_call, sample_call] sample_state)) =
       Some (fold note_entry (concat made) (Map.empty, []))"
  using sample_call_ok by (intro catalog_history sample_empty_ok sample_catalog) simp

theorem catalog_returns_witness:
  "\<exists>s'. man_step sample_codec sample_call sample_state = (True, s') \<and>
     catalog_of sample_codec s' = Some (note_entry sample_entry (Map.empty, []))"
  using catalog_returns [OF sample_call_ok sample_empty_ok sample_catalog]
  by (auto simp: sample_call_def man_changes_def)

text \<open>
  C4. Loading reads the files as they are: a replay that returns, from any files whatever, has
  left them holding exactly the catalog it returned, with an unreadable last line of the log
  taken off; and what it returns is well formed: every record named once, under its own id.
\<close>

theorem replay_reads_files:
  assumes "Log_replay C s = (Inr cat, s')" and "\<forall>i. length (mc_rand s i) = NonceSize"
  shows "catalog_of C s' = Some cat \<and> wf_catalog cat"
proof -
  have "ready (mc_plan s) s" using assms(2) by (simp add: ready_def)
  from tripleD(1) [OF triple_raw_replay this assms(1)]
  have "catalog_of C s' = Some cat" by (simp add: holds_def)
  then show ?thesis using wf_catalog_of by blast
qed

theorem replay_reads_files_witness:
  "\<exists>s'. Log_replay sample_codec sample_state = (Inr (Map.empty, []), s') \<and>
     catalog_of sample_codec s' = Some (Map.empty, []) \<and> wf_catalog (Map.empty, [])"
proof -
  have h: "holds sample_codec (Map.empty, []) (\<lambda>_. NoFault) sample_state"
    using sample_catalog by (simp add: holds_def) (simp add: sample_state_def NonceSize_def)
  obtain s' where s': "Log_replay sample_codec sample_state = (Inr (Map.empty, []), s')"
    using triple_returns [OF triple_replay h] by (force simp: no_faults_def)
  moreover have "\<forall>i. length (mc_rand sample_state i) = NonceSize"
    using h by (simp add: holds_def)
  ultimately show ?thesis using replay_reads_files by blast
qed

section \<open>Looking up and removing\<close>

definition coherent :: "codec \<Rightarrow> man_state \<Rightarrow> bool" where
  "coherent C s \<longleftrightarrow> catalog_of C s = Some (man_cat (st_man s))"

lemma wf_copy: "coherent C s \<Longrightarrow> wf_catalog (mf_entries (st_man s), mf_order (st_man s))"
  using wf_catalog_of [of C s] by (simp add: coherent_def man_cat_def)

lemma Lookup_note:
  "Manifest_Lookup (Manifest_note e m) i =
     (if i = me_ID e then (if me_Deleted e then Inl (EntryNotFound i) else Inr e)
      else Manifest_Lookup m i)"
  by (simp add: Manifest_Lookup_def Manifest_note_def)

lemma Lookup_Inr_iff:
  "Manifest_Lookup m i = Inr e \<longleftrightarrow> mf_entries m i = Some e \<and> \<not> me_Deleted e"
  by (auto simp: Manifest_Lookup_def split: option.splits)

lemma Entries_note_deleted:
  assumes w: "wf_catalog (mf_entries m, mf_order m)" and k: "mf_entries m (me_ID e) \<noteq> None" "me_Deleted e"
  shows "Manifest_Entries (Manifest_note e m) = filter (\<lambda>x. me_ID x \<noteq> me_ID e) (Manifest_Entries m)"
proof -
  have "me_ID (the (mf_entries m i)) = i" if "i \<in> set (mf_order m)" for i
  proof -
    from that w have "i \<in> dom (mf_entries m)" by (simp add: wf_catalog_def)
    then obtain x where "mf_entries m i = Some x" by blast
    with w show ?thesis by (simp add: wf_catalog_def)
  qed
  then have "filter (\<lambda>x. \<not> me_Deleted x) (map (\<lambda>i. the (((mf_entries m)(me_ID e \<mapsto> e)) i)) ks) =
      filter (\<lambda>x. me_ID x \<noteq> me_ID e) (filter (\<lambda>x. \<not> me_Deleted x) (map (\<lambda>i. the (mf_entries m i)) ks))"
    if "set ks \<subseteq> set (mf_order m)" for ks
    using that k(2) by (induction ks) auto
  from this [OF order_refl] show ?thesis
    using k(1) by (simp add: Manifest_Entries_def Manifest_note_def)
qed

text \<open>
  C5. Removing a record the catalog holds, when nothing fails, returns and leaves the files and
  the process's copy in agreement; the record is then not found, every other record looks up
  as before, the listing is the old one without the record, and the number of records ever
  named has not changed: the removal is kept as a marker.
\<close>

theorem Manifest_Remove_correct:
  assumes "codec_ok C" and "coherent C s" and "entries_ok C (man_cat (st_man s))"
    and "\<forall>i. mc_plan s i = NoFault" and "\<forall>i. length (mc_rand s i) = NonceSize"
    and "Manifest_Lookup (st_man s) i = Inr e"
    and "entry_ok C (e\<lparr>me_Deleted := True, me_WrittenAt := now\<rparr>)"
    and "torn_detected C (e\<lparr>me_Deleted := True, me_WrittenAt := now\<rparr>)"
  shows "\<exists>s'. Manifest_Remove C now i s = (Inr (), s') \<and> coherent C s' \<and>
    Manifest_Lookup (st_man s') i = Inl (EntryNotFound i) \<and>
    (\<forall>j. j \<noteq> i \<longrightarrow> Manifest_Lookup (st_man s') j = Manifest_Lookup (st_man s) j) \<and>
    Manifest_Entries (st_man s') = filter (\<lambda>x. me_ID x \<noteq> i) (Manifest_Entries (st_man s)) \<and>
    Manifest_Named (st_man s') = Manifest_Named (st_man s)"
proof -
  let ?m = "st_man s" and ?e = "e\<lparr>me_Deleted := True, me_WrittenAt := now\<rparr>"
  have nf: "no_faults (mc_plan s)" using assms(4) by (simp add: no_faults_def)
  have h: "holds C (man_cat ?m) (mc_plan s) s" using assms(2,5) by (simp add: holds_def coherent_def)
  have w: "wf_catalog (mf_entries ?m, mf_order ?m)" by (rule wf_copy [OF assms(2)])
  have i: "mf_entries ?m i = Some e" "me_ID e = i"
    using assms(6) w by (auto simp: Lookup_Inr_iff wf_catalog_def)
  have "\<exists>x s'. Manifest_Append C ?e s = (Inr x, s') \<and> holds C (note_entry ?e (man_cat ?m)) (mc_plan s) s'"
    using triple_returns [OF triple_Manifest_Append [OF assms(1,7,8)] h] assms(3) nf
    by (simp add: entries_ok_def)
  then obtain s' where s': "Manifest_Append C ?e s = (Inr (), s')"
    "catalog_of C s' = Some (note_entry ?e (man_cat ?m))"
    by (auto simp: holds_def)
  note m' = Manifest_Append_copy [OF s'(1)]
  have "Manifest_Remove C now i s = (Inr (), s')"
    using s' assms(6) by (simp add: Manifest_Remove_def bind_io_def get_io_def lift_io_def)
  moreover have "coherent C s'" using s'(2) by (simp add: coherent_def m' man_cat_note)
  moreover have "Manifest_Entries (st_man s') = filter (\<lambda>x. me_ID x \<noteq> i) (Manifest_Entries ?m)"
    using Entries_note_deleted [OF w, of ?e] i by (simp add: m')
  moreover have "Manifest_Named (st_man s') = Manifest_Named ?m"
    using i by (simp add: m' Manifest_Named_def Manifest_note_def insert_absorb domI)
  ultimately show ?thesis
    using i by (auto simp: m' Lookup_note)
qed

definition sample_held :: man_state where
  "sample_held = snd (Manifest_Append sample_codec sample_entry sample_state)"

lemma sample_held_facts:
  "coherent sample_codec sample_held" "man_cat (st_man sample_held) = note_entry sample_entry (Map.empty, [])"
  "mc_plan sample_held = (\<lambda>_. NoFault)" "\<forall>i. length (mc_rand sample_held i) = NonceSize"
proof -
  have h: "holds sample_codec (Map.empty, []) (\<lambda>_. NoFault) sample_state"
    using sample_catalog by (simp add: holds_def) (simp add: sample_state_def NonceSize_def)
  obtain s' where s': "Manifest_Append sample_codec sample_entry sample_state = (Inr (), s')"
    "holds sample_codec (note_entry sample_entry (Map.empty, [])) (\<lambda>_. NoFault) s'"
    using triple_returns [OF triple_Manifest_Append [OF sample_codec_ok sample_entries_ok(1) sample_torn(1)] h]
    by (auto simp: no_faults_def)
  have "st_man s' = Manifest_note sample_entry \<lparr>mf_entries = Map.empty, mf_order = []\<rparr>"
    using Manifest_Append_copy [OF s'(1)] by (simp add: sample_state_def)
  then have "man_cat (st_man s') = note_entry sample_entry (Map.empty, [])"
    by (simp add: man_cat_note) (simp add: man_cat_def)
  with s' show "coherent sample_codec sample_held"
    "man_cat (st_man sample_held) = note_entry sample_entry (Map.empty, [])"
    "mc_plan sample_held = (\<lambda>_. NoFault)" "\<forall>i. length (mc_rand sample_held i) = NonceSize"
    by (simp_all add: sample_held_def coherent_def holds_def)
qed

theorem Manifest_Remove_correct_witness:
  "\<exists>s'. Manifest_Remove sample_codec 0 (sample_id 1) sample_held = (Inr (), s') \<and>
     Manifest_Lookup (st_man s') (sample_id 1) = Inl (EntryNotFound (sample_id 1))"
proof -
  note F = sample_held_facts
  have lookup: "Manifest_Lookup (st_man sample_held) (sample_id 1) = Inr sample_entry"
    using F(2) by (simp add: Lookup_Inr_iff man_cat_def note_entry_def sample_entry_def)
  have e: "sample_entry\<lparr>me_Deleted := True, me_WrittenAt := 0\<rparr> = sample_entry\<lparr>me_Deleted := True\<rparr>"
    by (simp add: sample_entry_def)
  have ok: "entries_ok sample_codec (man_cat (st_man sample_held))"
    unfolding F(2) using sample_entries_ok(1) ran_note [of _ sample_entry "(Map.empty, [])"]
    by (auto simp: entries_ok_def)
  show ?thesis
    using Manifest_Remove_correct [OF sample_codec_ok F(1) ok _ F(4) lookup, of 0, unfolded e,
        OF _ sample_entries_ok(2) sample_torn(2)] F(3) by auto
qed

end
