(* ===== verification/Ix_File.thy ===== *)
theory Ix_File
  imports Seal_Frame Go_IO
begin

text \<open>
  Package \<open>index\<close>, the vectors on disk (\<open>index/persist.go\<close>, \<open>index/tail.go\<close>): an immutable base
  and a delta that is appended to, folded together now and then.

  An operation's state is the files (\<open>dk_delta\<close>, \<open>dk_base\<close>, \<open>dk_next\<close>), the \<open>Store\<close> of the
  process that runs it, and the machine that decides which system calls fail. As in the
  catalog, every operation holds the index's file lock from its first look at the files to its
  last change of them.
\<close>

section \<open>Entries\<close>

record IxEntry =
  ie_ID :: ID
  ie_Model :: string
  ie_Dim :: nat
  ie_Vector :: "float32 list"

definition IxEntry_Removed :: "IxEntry \<Rightarrow> bool" where
  "IxEntry_Removed e \<longleftrightarrow> ie_Dim e = 0"

definition Removal :: "ID \<Rightarrow> IxEntry" where
  "Removal i = \<lparr>ie_ID = i, ie_Model = '''', ie_Dim = 0, ie_Vector = []\<rparr>"

datatype ix_error =
    IxFailed string
  | IxSeal seal_error
  | EntryDims ID nat nat
  | ErrCorruptIndex

text \<open>The body of a record; \<open>AppendUint16\<close> keeps the low 16 bits of a length.\<close>

definition entry_body :: "IxEntry \<Rightarrow> bytes" where
  "entry_body e =
     le_bytes 2 (length (ie_Model e)) @ string_bytes (ie_Model e) @ le_bytes 2 (ie_Dim e) @
     ie_ID e @ concat (map (\<lambda>v. le_bytes 4 (unat v)) (ie_Vector e))"

definition line_bytes :: "bytes \<Rightarrow> bytes" where
  "line_bytes sealed = le_bytes 4 (length sealed) @ sealed"

definition ix_encodeEntry :: "crypto \<Rightarrow> Sealer \<Rightarrow> bytes option \<Rightarrow> IxEntry \<Rightarrow> (ix_error, bytes) result" where
  "ix_encodeEntry K S nonce e =
     (if length (ie_Vector e) \<noteq> ie_Dim e then Inl (EntryDims (ie_ID e) (ie_Dim e) (length (ie_Vector e)))
      else case Seal K S nonce (entry_body e) of
        Inl err \<Rightarrow> Inl (IxSeal err)
      | Inr sealed \<Rightarrow> Inr (line_bytes sealed))"

fun floats_of :: "bytes \<Rightarrow> float32 list" where
  "floats_of (a # b # c # d # rest) = of_nat (le_nat [a, b, c, d]) # floats_of rest"
| "floats_of _ = []"

definition ix_decodeEntry :: "bytes \<Rightarrow> (ix_error, IxEntry) result" where
  "ix_decodeEntry body =
     (if length body < 2 then Inl ErrCorruptIndex
      else let nameLen = le_nat (take 2 body) in
        if 2 + nameLen + 2 + IDSize > length body then Inl ErrCorruptIndex
        else
          let model = take nameLen (drop 2 body);
              rest = drop (2 + nameLen) body;
              dim = le_nat (take 2 rest);
              i = take IDSize (drop 2 rest);
              values = drop (2 + IDSize) rest
          in if length values \<noteq> 4 * dim then Inl ErrCorruptIndex
             else Inr \<lparr>ie_ID = i, ie_Model = bytes_string model, ie_Dim = dim, ie_Vector = floats_of values\<rparr>)"

text \<open>One sealed record, opened and decoded.\<close>

definition open_entry :: "crypto \<Rightarrow> Sealer \<Rightarrow> bytes \<Rightarrow> (ix_error, IxEntry) result" where
  "open_entry K S sealed =
     (case Open K S sealed of Inl err \<Rightarrow> Inl (IxSeal err) | Inr body \<Rightarrow> ix_decodeEntry body)"

text \<open>\<open>readEntries\<close>, on the bytes of the file from the loop's offset on.\<close>

function ix_readEntries :: "crypto \<Rightarrow> Sealer \<Rightarrow> bytes \<Rightarrow> IxEntry list" where
  "ix_readEntries K S raw =
     (if length raw < 4 then []
      else let sz = le_nat (take 4 raw); rest = drop 4 raw in
        if sz = 0 \<or> length rest < sz then []
        else case open_entry K S (take sz rest) of
          Inl err \<Rightarrow> []
        | Inr entry \<Rightarrow> entry # ix_readEntries K S (drop sz rest))"
  by pat_completeness auto
termination
  by (relation "measure (\<lambda>(K, S, raw). length raw)") auto

declare ix_readEntries.simps [simp del]

text \<open>\<open>wholeRecords\<close>: the loop's \<open>at\<close> and \<open>last\<close> are \<open>pos\<close> and \<open>lst\<close>, \<open>None\<close> for -1.\<close>

function whole_loop :: "bytes \<Rightarrow> nat \<Rightarrow> nat option \<Rightarrow> nat \<times> nat option \<times> bool" where
  "whole_loop raw pos lst =
     (if pos < length raw then
        (if length raw - pos < 4 then (pos, lst, True)
         else let sz = le_nat (take 4 (drop pos raw)) in
           if sz = 0 \<or> pos + 4 + sz > length raw then (pos, lst, True)
           else whole_loop raw (pos + 4 + sz) (Some pos))
      else (pos, lst, False))"
  by pat_completeness auto
termination
  by (relation "measure (\<lambda>(raw, pos, lst). length raw - pos)") auto

declare whole_loop.simps [simp del]

definition wholeRecords :: "crypto \<Rightarrow> Sealer \<Rightarrow> bytes \<Rightarrow> nat" where
  "wholeRecords K S raw =
     (case whole_loop raw 0 None of (pos, lst, returned) \<Rightarrow>
        if returned then pos
        else case lst of
          None \<Rightarrow> pos
        | Some l \<Rightarrow> if is_ok (open_entry K S (drop (l + 4) raw)) then pos else l)"

section \<open>State\<close>

record IxStore =
  is_baseBytes :: int
  is_deltaBytes :: int
  is_written :: int
  is_compactions :: int
  is_tail :: int

record ix_state = machine +
  st_store :: IxStore
  dk_delta :: bytes
  dk_base :: "bytes option"
  dk_next :: "bytes option"

type_synonym 'a ix_op = "(ix_state, ix_error, 'a) io"

definition set_tail :: "nat \<Rightarrow> ix_state \<Rightarrow> ix_state" where
  "set_tail n s = s\<lparr>st_store := (st_store s)\<lparr>is_tail := int n\<rparr>\<rparr>"

section \<open>The end of the delta\<close>

definition ix_cut :: "nat \<Rightarrow> unit ix_op" where
  "ix_cut sz =
     bind_io (syscall (IxFailed ''open for cut'')) (\<lambda>_.
     bind_io (effect (IxFailed ''truncate'') (\<lambda>s. s\<lparr>dk_delta := truncate_to sz (dk_delta s)\<rparr>)) (\<lambda>_.
     bind_io (syscall (IxFailed ''sync'')) (\<lambda>_.
     bind_io (syscall (IxFailed ''close'')) (\<lambda>_.
     put_io (set_tail sz)))))"

definition ix_settle :: "crypto \<Rightarrow> Sealer \<Rightarrow> nat ix_op" where
  "ix_settle K S =
     bind_io (syscall (IxFailed ''stat'')) (\<lambda>_.
     bind_io (get_io (\<lambda>s. (length (dk_delta s), is_tail (st_store s)))) (\<lambda>(sz, tail).
       if int sz = tail then ret_io sz
       else
         bind_io (syscall (IxFailed ''read'')) (\<lambda>_.
         bind_io (get_io dk_delta) (\<lambda>raw.
           let e = wholeRecords K S raw in
           bind_io (if e < length raw then ix_cut e else ret_io ()) (\<lambda>_.
           bind_io (put_io (set_tail e)) (\<lambda>_. ret_io e))))))"

definition openTail :: "crypto \<Rightarrow> Sealer \<Rightarrow> nat ix_op" where
  "openTail K S =
     bind_io (syscall (IxFailed ''lock'')) (\<lambda>_.
       finally_io (ix_settle K S) (syscall (IxFailed ''unlock'')))"

definition OpenStore :: "crypto \<Rightarrow> Sealer \<Rightarrow> unit ix_op" where
  "OpenStore K S =
     bind_io (syscall (IxFailed ''mkdir'')) (\<lambda>_.
     bind_io (syscall (IxFailed ''open delta'')) (\<lambda>_.
     bind_io (syscall (IxFailed ''open lock'')) (\<lambda>_.
     bind_io (syscall (IxFailed ''stat base'')) (\<lambda>_.
     bind_io (put_io (\<lambda>s. s\<lparr>st_store :=
       \<lparr>is_baseBytes = (case dk_base s of None \<Rightarrow> 0 | Some b \<Rightarrow> int (length b)), is_deltaBytes = 0,
        is_written = 0, is_compactions = 0, is_tail = - 1\<rparr>\<rparr>)) (\<lambda>_.
     bind_io (openTail K S) (\<lambda>sz.
     put_io (\<lambda>s. s\<lparr>st_store := (st_store s)\<lparr>is_deltaBytes := int sz\<rparr>\<rparr>)))))))"

section \<open>Appending\<close>

definition write_delta :: "bytes \<Rightarrow> unit ix_op" where
  "write_delta bs =
     bind_io next_fault (\<lambda>f.
       case f of
         NoFault \<Rightarrow> put_io (\<lambda>s. s\<lparr>dk_delta := dk_delta s @ bs\<rparr>)
       | Fault n \<Rightarrow>
           bind_io (put_io (\<lambda>s. s\<lparr>dk_delta := dk_delta s @ take n bs\<rparr>)) (\<lambda>_.
             fail_io (IxFailed ''write'')))"

definition ix_encode_io :: "crypto \<Rightarrow> Sealer \<Rightarrow> IxEntry \<Rightarrow> bytes ix_op" where
  "ix_encode_io K S e = bind_io read_rand (\<lambda>nonce. lift_io (ix_encodeEntry K S nonce e))"

definition delta_counted :: "nat \<Rightarrow> nat \<Rightarrow> ix_state \<Rightarrow> ix_state" where
  "delta_counted e n s =
     s\<lparr>st_store := (st_store s)\<lparr>is_tail := int e, is_deltaBytes := is_deltaBytes (st_store s) + int n,
        is_written := is_written (st_store s) + int n\<rparr>\<rparr>"

fun append_loop :: "crypto \<Rightarrow> Sealer \<Rightarrow> IxEntry list \<Rightarrow> nat \<Rightarrow> unit ix_op" where
  "append_loop K S [] pos = ret_io ()"
| "append_loop K S (e # es) pos =
     bind_io (ix_encode_io K S e) (\<lambda>line.
     bind_io (catch_io (write_delta line) (\<lambda>err. fail_after err (ix_cut pos))) (\<lambda>_.
     bind_io (put_io (delta_counted (pos + length line) (length line))) (\<lambda>_.
     append_loop K S es (pos + length line))))"

definition IxStore_Append :: "crypto \<Rightarrow> Sealer \<Rightarrow> IxEntry list \<Rightarrow> unit ix_op" where
  "IxStore_Append K S es =
     (if es = [] then ret_io ()
      else
        bind_io (syscall (IxFailed ''lock'')) (\<lambda>_.
        finally_io
          (bind_io (ix_settle K S) (\<lambda>pos.
           bind_io (append_loop K S es pos) (\<lambda>_.
           syscall (IxFailed ''sync''))))
          (syscall (IxFailed ''unlock''))))"

definition IxStore_Remove :: "crypto \<Rightarrow> Sealer \<Rightarrow> ID list \<Rightarrow> unit ix_op" where
  "IxStore_Remove K S ids = IxStore_Append K S (map Removal ids)"

section \<open>Reading\<close>

text \<open>The closure \<open>replay\<close> of \<open>hydrate\<close>: its map \<open>at\<close> and its slice \<open>out\<close>.\<close>

fun replay_entries :: "IxEntry list \<Rightarrow> (ID \<rightharpoonup> nat) \<times> IxEntry list \<Rightarrow> (ID \<rightharpoonup> nat) \<times> IxEntry list" where
  "replay_entries [] st = st"
| "replay_entries (e # es) (at, out) =
     replay_entries es
       (case at (ie_ID e) of
          Some position \<Rightarrow> (at, out[position := e])
        | None \<Rightarrow> (at(ie_ID e \<mapsto> length out), out @ [e]))"

definition read_file :: "crypto \<Rightarrow> Sealer \<Rightarrow> (ix_state \<Rightarrow> bytes option) \<Rightarrow> IxEntry list ix_op" where
  "read_file K S f =
     bind_io (syscall (IxFailed ''read file'')) (\<lambda>_.
     get_io (\<lambda>s. case f s of None \<Rightarrow> [] | Some raw \<Rightarrow> ix_readEntries K S raw))"

definition ix_hydrate :: "crypto \<Rightarrow> Sealer \<Rightarrow> IxEntry list ix_op" where
  "ix_hydrate K S =
     bind_io (read_file K S dk_base) (\<lambda>base.
     bind_io (read_file K S (\<lambda>s. Some (dk_delta s))) (\<lambda>delta.
     ret_io (filter (\<lambda>e. \<not> IxEntry_Removed e)
       (snd (replay_entries delta (replay_entries base (Map.empty, [])))))))"

definition IxStore_Hydrate :: "crypto \<Rightarrow> Sealer \<Rightarrow> IxEntry list ix_op" where
  "IxStore_Hydrate K S =
     bind_io (syscall (IxFailed ''lock'')) (\<lambda>_.
       finally_io (ix_hydrate K S) (syscall (IxFailed ''unlock'')))"

section \<open>Compaction\<close>

definition ix_MinCompactBytes :: int where "ix_MinCompactBytes = 65536"

text \<open>
  \<open>float64(deltaBytes) > 0.25 * float64(baseBytes)\<close>: exact for file sizes below \<open>2 ^ 53\<close>.
\<close>

definition ix_dueForCompaction :: "IxStore \<Rightarrow> bool" where
  "ix_dueForCompaction st \<longleftrightarrow>
     \<not> is_deltaBytes st < ix_MinCompactBytes \<and> 4 * is_deltaBytes st > is_baseBytes st"

definition write_next :: "bytes \<Rightarrow> unit ix_op" where
  "write_next bs =
     bind_io next_fault (\<lambda>f.
       case f of
         NoFault \<Rightarrow> put_io (\<lambda>s. s\<lparr>dk_next := map_option (\<lambda>b. b @ bs) (dk_next s)\<rparr>)
       | Fault n \<Rightarrow>
           bind_io (put_io (\<lambda>s. s\<lparr>dk_next := map_option (\<lambda>b. b @ take n bs) (dk_next s)\<rparr>)) (\<lambda>_.
             fail_io (IxFailed ''write base'')))"

fun base_loop :: "crypto \<Rightarrow> Sealer \<Rightarrow> IxEntry list \<Rightarrow> nat \<Rightarrow> nat ix_op" where
  "base_loop K S [] written = ret_io written"
| "base_loop K S (e # es) written =
     bind_io (ix_encode_io K S e) (\<lambda>line.
     bind_io (write_next line) (\<lambda>_.
     base_loop K S es (written + length line)))"

definition rename_next :: "unit ix_op" where
  "rename_next = effect (IxFailed ''rename'') (\<lambda>s. s\<lparr>dk_base := dk_next s, dk_next := None\<rparr>)"

definition remove_next :: "unit ix_op" where
  "remove_next =
     catch_io (effect (IxFailed ''remove'') (\<lambda>s. s\<lparr>dk_next := None\<rparr>)) (\<lambda>_. ret_io ())"

definition base_counted :: "nat \<Rightarrow> ix_state \<Rightarrow> ix_state" where
  "base_counted n s =
     s\<lparr>st_store := (st_store s)\<lparr>is_baseBytes := int n, is_deltaBytes := 0,
        is_written := is_written (st_store s) + int n,
        is_compactions := is_compactions (st_store s) + 1\<rparr>\<rparr>"

definition ix_compact :: "crypto \<Rightarrow> Sealer \<Rightarrow> IxEntry list \<Rightarrow> unit ix_op" where
  "ix_compact K S es =
     bind_io (effect (IxFailed ''open base'') (\<lambda>s. s\<lparr>dk_next := Some []\<rparr>)) (\<lambda>_.
     finally_io
       (bind_io (base_loop K S es 0) (\<lambda>written.
        bind_io (syscall (IxFailed ''sync base'')) (\<lambda>_.
        bind_io (syscall (IxFailed ''close base'')) (\<lambda>_.
        bind_io rename_next (\<lambda>_.
        bind_io (ix_cut 0) (\<lambda>_.
        put_io (base_counted written)))))))
       remove_next)"

definition IxStore_Compact :: "crypto \<Rightarrow> Sealer \<Rightarrow> IxEntry list \<Rightarrow> unit ix_op" where
  "IxStore_Compact K S es =
     bind_io (syscall (IxFailed ''lock'')) (\<lambda>_.
       finally_io (ix_compact K S es) (syscall (IxFailed ''unlock'')))"

definition IxStore_Fold :: "crypto \<Rightarrow> Sealer \<Rightarrow> unit ix_op" where
  "IxStore_Fold K S =
     bind_io (syscall (IxFailed ''lock'')) (\<lambda>_.
       finally_io (bind_io (ix_hydrate K S) (ix_compact K S)) (syscall (IxFailed ''unlock'')))"

definition CompactIfDue :: "crypto \<Rightarrow> Sealer \<Rightarrow> bool ix_op" where
  "CompactIfDue K S =
     bind_io (get_io st_store) (\<lambda>st.
       if \<not> ix_dueForCompaction st then ret_io False
       else bind_io (IxStore_Fold K S) (\<lambda>_. ret_io True))"

record IxStats =
  xs_BaseBytes :: int
  xs_DeltaBytes :: int
  xs_Written :: int
  xs_Compactions :: int

definition IxStore_Stats :: "IxStore \<Rightarrow> IxStats" where
  "IxStore_Stats st =
     \<lparr>xs_BaseBytes = is_baseBytes st, xs_DeltaBytes = is_deltaBytes st, xs_Written = is_written st,
      xs_Compactions = is_compactions st\<rparr>"

end
