(* ===== verification/Ix_Disk.thy ===== *)
theory Ix_Disk
  imports Ix_File
begin

text \<open>
  What the files of the persisted index stand for: the records of a file, where its whole
  records end, and the map from ids to entries that the base and the delta together hold.
\<close>

section \<open>Entries survive their encoding\<close>

definition ix_entry_ok :: "IxEntry \<Rightarrow> bool" where
  "ix_entry_ok e \<longleftrightarrow>
     wf_id (ie_ID e) \<and> length (ie_Model e) < 65536 \<and> ie_Dim e < 65536 \<and> length (ie_Vector e) = ie_Dim e"

text \<open>The compressor adds little to what it cannot compress.\<close>

definition zstd_bounded :: "crypto \<Rightarrow> bool" where
  "zstd_bounded K \<longleftrightarrow> (\<forall>p. length (zstd_encode K p) \<le> length p + length p div 256 + 64)"

lemma floats_of_values: "floats_of (concat (map (\<lambda>v. le_bytes 4 (unat v)) vs)) = vs"
proof (induction vs)
  case (Cons v vs)
  have "length (le_bytes 4 (unat v)) = Suc (Suc (Suc (Suc 0)))" by simp
  then obtain w x y z where b: "le_bytes 4 (unat v) = [w, x, y, z]"
    unfolding length_Suc_conv by auto
  have "unat v < 256 ^ 4" using unsigned_less [of v] by simp
  then have "le_nat (le_bytes 4 (unat v)) = unat v" by (rule le_nat_le_bytes_small)
  then show ?case using Cons.IH unfolding b list.map concat.simps append.simps floats_of.simps
    by simp
qed simp

lemma length_values: "length (concat (map (\<lambda>v. le_bytes 4 (unat v)) vs)) = 4 * length vs"
  by (induction vs) simp_all

lemma length_floats_of: "length b = 4 * n \<Longrightarrow> length (floats_of b) = n"
proof (induction n arbitrary: b)
  case (Suc n)
  then obtain w x y z r where "b = w # x # y # z # r" "length r = 4 * n"
    by (auto simp: length_Suc_conv numeral_eq_Suc)
  with Suc.IH show ?case by simp
qed simp

lemma ix_decode_body:
  assumes "ix_entry_ok e"
  shows "ix_decodeEntry (entry_body e) = Inr e"
proof -
  let ?v = "concat (map (\<lambda>v. le_bytes 4 (unat v)) (ie_Vector e))"
  have n: "le_nat (le_bytes 2 (length (ie_Model e))) = length (ie_Model e)"
    "le_nat (le_bytes 2 (ie_Dim e)) = ie_Dim e" "length (ie_ID e) = IDSize"
    "length ?v = 4 * ie_Dim e"
    using assms by (simp_all add: ix_entry_ok_def wf_id_def length_values)
  have "drop (2 + length (ie_Model e)) (entry_body e) = le_bytes 2 (ie_Dim e) @ ie_ID e @ ?v"
    by (simp add: entry_body_def)
  then show ?thesis
    using n by (simp add: ix_decodeEntry_def Let_def) (simp add: entry_body_def floats_of_values)
qed

lemma ix_decode_ok:
  assumes "ix_decodeEntry body = Inr e"
  shows "ix_entry_ok e"
proof -
  have small: "le_nat (take 2 b) < 65536" for b
    using le_nat_less [of "take 2 b"] power_increasing [of "length (take 2 b)" 2 "256 :: nat"] by simp
  let ?n = "le_nat (take 2 body)"
  let ?r = "drop (2 + ?n) body"
  have l: "2 + ?n + 2 + IDSize \<le> length body" "length (drop (2 + IDSize) ?r) = 4 * le_nat (take 2 ?r)"
    and e: "e = \<lparr>ie_ID = take IDSize (drop 2 ?r), ie_Model = bytes_string (take ?n (drop 2 body)),
      ie_Dim = le_nat (take 2 ?r), ie_Vector = floats_of (drop (2 + IDSize) ?r)\<rparr>"
    using assms by (auto simp: ix_decodeEntry_def Let_def split: if_splits)
  show ?thesis
    using l small [of body] small [of ?r] length_floats_of [OF l(2)]
    by (auto simp: e ix_entry_ok_def wf_id_def min_def)
qed

lemma length_entry_body: "ix_entry_ok e \<Longrightarrow> length (entry_body e) < 500000"
  by (simp add: entry_body_def ix_entry_ok_def wf_id_def IDSize_def length_values)

section \<open>The records of a file\<close>

definition wf_sealed :: "bytes \<Rightarrow> bool" where
  "wf_sealed b \<longleftrightarrow> b \<noteq> [] \<and> length b < 2 ^ 32"

abbreviation lines_bytes :: "bytes list \<Rightarrow> bytes" where
  "lines_bytes bs \<equiv> concat (map line_bytes bs)"

text \<open>The sealed records a file starts with, and what is left where the framing runs out.\<close>

function ix_frames :: "bytes \<Rightarrow> bytes list \<times> bytes" where
  "ix_frames raw =
     (let sz = le_nat (take 4 raw); rest = drop 4 raw in
      if length raw < 4 \<or> sz = 0 \<or> length rest < sz then ([], raw)
      else case ix_frames (drop sz rest) of (bs, t) \<Rightarrow> (take sz rest # bs, t))"
  by pat_completeness auto
termination
  by (relation "measure length") auto

declare ix_frames.simps [simp del]

lemma ix_frames_Nil [simp]: "ix_frames [] = ([], [])"
  by (simp add: ix_frames.simps)

lemma le_nat_frame: "length b < 2 ^ 32 \<Longrightarrow> le_nat (take 4 (line_bytes b @ x)) = length b"
  by (simp add: line_bytes_def)

lemma ix_frames_frame:
  assumes "wf_sealed b"
  shows "ix_frames (line_bytes b @ x) = (b # fst (ix_frames x), snd (ix_frames x))"
  using assms le_nat_frame [of b x]
  by (subst ix_frames.simps) (simp add: wf_sealed_def line_bytes_def Let_def split_beta)

lemma ix_frames_frames:
  "\<forall>b \<in> set bs. wf_sealed b \<Longrightarrow> ix_frames (lines_bytes bs @ x) = (bs @ fst (ix_frames x), snd (ix_frames x))"
  by (induction bs) (simp_all add: ix_frames_frame)

lemma ix_frames_parts:
  "ix_frames raw = (bs, t) \<Longrightarrow> raw = lines_bytes bs @ t \<and> (\<forall>b \<in> set bs. wf_sealed b) \<and> ix_frames t = ([], t)"
proof (induction raw arbitrary: bs t rule: ix_frames.induct)
  case (1 raw)
  let ?sz = "le_nat (take 4 raw)" and ?rest = "drop 4 raw"
  show ?case
  proof (cases "length raw < 4 \<or> ?sz = 0 \<or> length ?rest < ?sz")
    case True
    then have "ix_frames raw = ([], raw)" by (simp add: ix_frames.simps [of raw])
    with "1.prems" show ?thesis by simp
  next
    case False
    obtain bs' where b: "ix_frames (drop ?sz ?rest) = (bs', t)" "bs = take ?sz ?rest # bs'"
      using "1.prems" False by (auto simp: ix_frames.simps [of raw] Let_def split: prod.splits)
    from "1.IH" [OF refl refl False b(1)]
    have ih: "drop ?sz ?rest = lines_bytes bs' @ t" "\<forall>b \<in> set bs'. wf_sealed b" "ix_frames t = ([], t)"
      by blast+
    have len: "length (take 4 raw) = 4" "length (take ?sz ?rest) = ?sz" using False by auto
    have "?sz < 2 ^ 32" using le_nat_less [of "take 4 raw"] len by simp
    then have "wf_sealed (take ?sz ?rest)" using False len(2) by (auto simp: wf_sealed_def)
    moreover have "line_bytes (take ?sz ?rest) = take 4 raw @ take ?sz ?rest"
      unfolding line_bytes_def len(2) using le_bytes_le_nat [of "take 4 raw"] len(1) by simp
    moreover have "raw = take 4 raw @ take ?sz ?rest @ drop ?sz ?rest"
      by (simp only: append_take_drop_id)
    ultimately show ?thesis using b(2) ih by simp
  qed
qed

text \<open>A frame that is cut short is not one.\<close>

lemma ix_frames_cut:
  assumes "wf_sealed b" "n < length (line_bytes b)"
  shows "ix_frames (take n (line_bytes b)) = ([], take n (line_bytes b))"
proof (cases "n < 4")
  case True
  then show ?thesis by (auto simp: ix_frames.simps [of "take n (line_bytes b)"] Let_def)
next
  case False
  then have "take 4 (take n (line_bytes b)) = le_bytes 4 (length b)" by (simp add: line_bytes_def)
  moreover have "le_nat (le_bytes 4 (length b)) = length b" using assms(1) by (simp add: wf_sealed_def)
  moreover have "length (drop 4 (take n (line_bytes b))) < length b"
    using assms(2) False by (simp add: line_bytes_def)
  ultimately show ?thesis by (simp add: ix_frames.simps [of "take n (line_bytes b)"])
qed

fun opened :: "crypto \<Rightarrow> Sealer \<Rightarrow> bytes list \<Rightarrow> IxEntry list" where
  "opened K S [] = []"
| "opened K S (b # bs) = (case open_entry K S b of Inl err \<Rightarrow> [] | Inr e \<Rightarrow> e # opened K S bs)"

lemma readEntries_frames: "ix_readEntries K S raw = opened K S (fst (ix_frames raw))"
proof (induction K S raw rule: ix_readEntries.induct)
  case (1 K S raw)
  let ?sz = "le_nat (take 4 raw)" and ?rest = "drop 4 raw"
  show ?case
  proof (cases "length raw < 4 \<or> ?sz = 0 \<or> length ?rest < ?sz")
    case True
    then have "ix_frames raw = ([], raw)" by (simp add: ix_frames.simps [of raw])
    then show ?thesis using True by (auto simp: ix_readEntries.simps [of K S raw])
  next
    case False
    then have f: "fst (ix_frames raw) = take ?sz ?rest # fst (ix_frames (drop ?sz ?rest))"
      by (subst ix_frames.simps) (simp add: Let_def split_beta)
    show ?thesis
      using "1.IH" [OF _ refl refl] False
      by (subst ix_readEntries.simps, cases "open_entry K S (take ?sz ?rest)") (simp_all add: f Let_def)
  qed
qed

lemma opened_append:
  "\<forall>b \<in> set bs. is_ok (open_entry K S b) \<Longrightarrow> opened K S (bs @ cs) = opened K S bs @ opened K S cs"
  by (induction bs) (auto simp: is_ok_iff)

lemma opened_in: "e \<in> set (opened K S bs) \<Longrightarrow> \<exists>b. open_entry K S b = Inr e"
  by (induction bs) (auto split: sum.splits)

lemma readEntries_ok: "e \<in> set (ix_readEntries K S raw) \<Longrightarrow> ix_entry_ok e"
proof -
  assume "e \<in> set (ix_readEntries K S raw)"
  then have "e \<in> set (opened K S (fst (ix_frames raw)))" by (simp add: readEntries_frames)
  then obtain b where "open_entry K S b = Inr e" using opened_in by blast
  then show ?thesis by (cases "Open K S b") (simp_all add: open_entry_def ix_decode_ok)
qed

section \<open>Where the whole records end\<close>

text \<open>Every record opens, but for a last one that is the end of the file.\<close>

definition delta_ok :: "crypto \<Rightarrow> Sealer \<Rightarrow> bytes \<Rightarrow> bool" where
  "delta_ok K S raw \<longleftrightarrow>
     (case ix_frames raw of (bs, t) \<Rightarrow>
        \<forall>b \<in> set (if t = [] then butlast bs else bs). is_ok (open_entry K S b))"

definition settled :: "crypto \<Rightarrow> Sealer \<Rightarrow> bytes \<Rightarrow> bool" where
  "settled K S raw \<longleftrightarrow>
     (case ix_frames raw of (bs, t) \<Rightarrow> t = [] \<and> (\<forall>b \<in> set bs. is_ok (open_entry K S b)))"

lemma settled_ok: "settled K S raw \<Longrightarrow> delta_ok K S raw"
  by (auto simp: settled_def delta_ok_def split: prod.splits dest: in_set_butlastD)

lemma settled_Nil [simp]: "settled K S []"
  by (simp add: settled_def)

lemma whole_loop_frames:
  "ix_frames x = (bs, t) \<Longrightarrow>
   whole_loop (pre @ x) (length pre) lst =
     (length pre + length (lines_bytes bs),
      if bs = [] then lst else Some (length pre + length (lines_bytes (butlast bs))), t \<noteq> [])"
proof (induction bs arbitrary: pre x lst)
  case Nil
  with ix_frames_parts [OF Nil] have x: "x = t" "ix_frames t = ([], t)" by simp_all
  have "length t < 4 \<or> le_nat (take 4 t) = 0 \<or> length t - 4 < le_nat (take 4 t)"
    using x(2) by (subst (asm) ix_frames.simps) (auto simp: Let_def split: if_splits prod.splits)
  then show ?case
    by (subst whole_loop.simps) (auto simp: x Let_def)
next
  case (Cons b bs)
  have p: "x = line_bytes b @ lines_bytes bs @ t" "wf_sealed b" "\<forall>b \<in> set bs. wf_sealed b" "ix_frames t = ([], t)"
    using ix_frames_parts [OF Cons.prems] by auto
  let ?y = "lines_bytes bs @ t"
  have y: "ix_frames ?y = (bs, t)" using ix_frames_frames [OF p(3), of t] p(4) by simp
  have sz: "le_nat (take 4 x) = length b" "length (line_bytes b) = 4 + length b"
    using le_nat_frame [of b ?y] p(1,2) by (simp_all add: wf_sealed_def line_bytes_def)
  have "whole_loop (pre @ x) (length pre) lst =
      whole_loop ((pre @ line_bytes b) @ ?y) (length (pre @ line_bytes b)) (Some (length pre))"
    using p(1,2) sz by (subst whole_loop.simps) (simp add: Let_def wf_sealed_def add.assoc)
  also note Cons.IH [OF y]
  finally show ?case by simp
qed

lemma wholeRecords_frames:
  assumes "ix_frames raw = (bs, t)" "delta_ok K S raw"
  shows "\<exists>us. (\<exists>vs. bs = us @ vs) \<and> (\<forall>b \<in> set us. is_ok (open_entry K S b)) \<and>
    wholeRecords K S raw = length (lines_bytes us) \<and> opened K S bs = opened K S us"
proof -
  note p = ix_frames_parts [OF assms(1)]
  have w: "whole_loop raw 0 None =
      (length (lines_bytes bs), if bs = [] then None else Some (length (lines_bytes (butlast bs))), t \<noteq> [])"
    using whole_loop_frames [OF assms(1), of "[]" None] by simp
  show ?thesis
  proof (cases "t \<noteq> [] \<or> bs = []")
    case True
    then have "wholeRecords K S raw = length (lines_bytes bs)" by (auto simp: wholeRecords_def w)
    moreover have "\<forall>b \<in> set bs. is_ok (open_entry K S b)" using True assms by (auto simp: delta_ok_def)
    ultimately show ?thesis by (intro exI [of _ bs]) simp
  next
    case False
    then obtain us b where bs: "bs = us @ [b]" by (metis rev_exhaust)
    have us: "\<forall>b \<in> set us. is_ok (open_entry K S b)"
      using assms False bs by (simp add: delta_ok_def)
    have "drop (length (lines_bytes us) + 4) raw = b"
      using p False bs by (simp add: line_bytes_def)
    then have whole: "wholeRecords K S raw =
        (if is_ok (open_entry K S b) then length (lines_bytes bs) else length (lines_bytes us))"
      using w False by (simp add: wholeRecords_def bs)
    show ?thesis
    proof (cases "is_ok (open_entry K S b)")
      case True
      then show ?thesis using whole us bs by (intro exI [of _ bs]) auto
    next
      case bad: False
      then obtain err where "open_entry K S b = Inl err" by (cases "open_entry K S b") auto
      then have "opened K S bs = opened K S us" using opened_append [OF us, of "[b]"] bs by simp
      then show ?thesis using whole us bs bad by (intro exI [of _ us]) auto
    qed
  qed
qed

text \<open>Cutting a file where its whole records end keeps what it reads as.\<close>

lemma wholeRecords_settles:
  assumes "delta_ok K S raw"
  defines "n \<equiv> wholeRecords K S raw"
  shows "n \<le> length raw" "settled K S (take n raw)" "ix_readEntries K S (take n raw) = ix_readEntries K S raw"
proof -
  obtain bs t where f: "ix_frames raw = (bs, t)" by (cases "ix_frames raw")
  note p = ix_frames_parts [OF f]
  obtain us vs where us: "bs = us @ vs" "\<forall>b \<in> set us. is_ok (open_entry K S b)"
    "n = length (lines_bytes us)" "opened K S bs = opened K S us"
    using wholeRecords_frames [OF f assms(1)] by (auto simp: n_def)
  have r: "raw = lines_bytes us @ lines_bytes vs @ t" using p us(1) by simp
  show "n \<le> length raw" by (simp add: r us(3))
  have t: "take n raw = lines_bytes us" by (subst r) (simp add: us(3))
  have "ix_frames (lines_bytes us) = (us, [])"
    using ix_frames_frames [of us "[]"] p us(1) by simp
  then show "settled K S (take n raw)" "ix_readEntries K S (take n raw) = ix_readEntries K S raw"
    unfolding t using us by (simp_all add: settled_def readEntries_frames f)
qed

text \<open>Adding a record, or a part of one, to a file that ends with a whole one.\<close>

definition framed :: "crypto \<Rightarrow> Sealer \<Rightarrow> bytes \<Rightarrow> IxEntry \<Rightarrow> bool" where
  "framed K S l e \<longleftrightarrow> (\<exists>b. l = line_bytes b \<and> wf_sealed b \<and> open_entry K S b = Inr e)"

lemma framed_nonempty: "framed K S l e \<Longrightarrow> 4 < length l"
  by (auto simp: framed_def line_bytes_def wf_sealed_def)

lemma settled_frames:
  assumes "settled K S d"
  shows "ix_frames (d @ x) = (fst (ix_frames d) @ fst (ix_frames x), snd (ix_frames x))"
    "\<forall>b \<in> set (fst (ix_frames d)). is_ok (open_entry K S b)"
    "ix_readEntries K S (d @ x) = ix_readEntries K S d @ ix_readEntries K S x"
proof -
  obtain bs where f: "ix_frames d = (bs, [])" "\<forall>b \<in> set bs. is_ok (open_entry K S b)"
    using assms by (auto simp: settled_def split: prod.splits)
  have "d = lines_bytes bs" "\<forall>b \<in> set bs. wf_sealed b" using ix_frames_parts [OF f(1)] by simp_all
  then show a: "ix_frames (d @ x) = (fst (ix_frames d) @ fst (ix_frames x), snd (ix_frames x))"
    using ix_frames_frames [of bs x] f(1) by simp
  show b: "\<forall>b \<in> set (fst (ix_frames d)). is_ok (open_entry K S b)" using f by simp
  show "ix_readEntries K S (d @ x) = ix_readEntries K S d @ ix_readEntries K S x"
    using opened_append [OF b] by (simp add: readEntries_frames a)
qed

lemma settled_snoc:
  assumes "settled K S d" "framed K S l e"
  shows "settled K S (d @ l)" "ix_readEntries K S (d @ l) = ix_readEntries K S d @ [e]"
proof -
  obtain b where b: "l = line_bytes b" "wf_sealed b" "open_entry K S b = Inr e"
    using assms(2) by (auto simp: framed_def)
  have l: "ix_frames l = ([b], [])" using ix_frames_frame [OF b(2), of "[]"] b(1) by simp
  show "settled K S (d @ l)"
    using settled_frames(1) [OF assms(1), of l] settled_frames(2) [OF assms(1)] b(3) by (auto simp: settled_def l)
  show "ix_readEntries K S (d @ l) = ix_readEntries K S d @ [e]"
    using settled_frames(3) [OF assms(1), of l] b(3) by (simp add: readEntries_frames [of K S l] l)
qed

lemma settled_torn:
  assumes "settled K S d" "framed K S l e" "n < length l"
  shows "delta_ok K S (d @ take n l)" "ix_readEntries K S (d @ take n l) = ix_readEntries K S d"
proof -
  obtain b where b: "l = line_bytes b" "wf_sealed b" using assms(2) by (auto simp: framed_def)
  have l: "ix_frames (take n l) = ([], take n l)" using ix_frames_cut [OF b(2)] assms(3) b(1) by simp
  show "delta_ok K S (d @ take n l)"
    using settled_frames(1) [OF assms(1), of "take n l"] settled_frames(2) [OF assms(1)]
    by (auto simp: delta_ok_def l dest: in_set_butlastD)
  show "ix_readEntries K S (d @ take n l) = ix_readEntries K S d"
    using settled_frames(3) [OF assms(1), of "take n l"] by (simp add: readEntries_frames [of K S "take n l"] l)
qed

lemma ix_encode_framed:
  assumes "crypto_ok K" "zstd_bounded K" "wf_sealer S" "wf_nonce n" "ix_entry_ok e"
  shows "\<exists>l. ix_encodeEntry K S n e = Inr l \<and> framed K S l e \<and> length l < 1000000"
proof -
  obtain nb where nb: "n = Some nb" "length nb = NonceSize" using assms(4) by (auto simp: wf_nonce_def)
  let ?z = "zstd_encode K (entry_body e)"
  define b where "b = nb @ aead_seal K (slr_record S) nb ?z"
  have s: "Seal K S n (entry_body e) = Inr b"
    using assms(3) nb by (simp add: Seal_def wf_sealer_def b_def)
  have "length (aead_seal K (slr_record S) nb ?z) = length ?z + TagSize"
    using assms(1,3) nb by (simp add: crypto_ok_def aead_ok_def wf_sealer_def)
  moreover have "length ?z \<le> length (entry_body e) + length (entry_body e) div 256 + 64"
    using assms(2) by (simp add: zstd_bounded_def)
  moreover note length_entry_body [OF assms(5)]
  ultimately have "wf_sealed b" "length b < 900000" using nb by (auto simp: wf_sealed_def b_def size_defs)
  moreover have "open_entry K S b = Inr e"
    using Open_Seal [OF assms(1,3,4) s] ix_decode_body [OF assms(5)] by (simp add: open_entry_def)
  ultimately show ?thesis
    using s assms(5) by (auto simp: ix_encodeEntry_def framed_def ix_entry_ok_def line_bytes_def)
qed

end
