(* ===== verification/Ix_Safety.thy ===== *)
theory Ix_Safety
  imports Ix_Disk
begin

text \<open>
  The operations of the persisted index against what its files hold, for every plan of system
  call failures: an append makes a first part of its changes, all of them when it returns, and
  hydration, settling and folding never change what the files hold.
\<close>

section \<open>What the files hold\<close>

text \<open>The last entry for an id counts; a removal leaves none.\<close>

definition note_vec :: "IxEntry \<Rightarrow> (ID \<rightharpoonup> IxEntry) \<Rightarrow> (ID \<rightharpoonup> IxEntry)" where
  "note_vec e m = m(ie_ID e := (if IxEntry_Removed e then None else Some e))"

abbreviation note_all :: "IxEntry list \<Rightarrow> (ID \<rightharpoonup> IxEntry) \<Rightarrow> (ID \<rightharpoonup> IxEntry)" where
  "note_all \<equiv> fold note_vec"

definition base_entries :: "crypto \<Rightarrow> Sealer \<Rightarrow> bytes option \<Rightarrow> IxEntry list" where
  "base_entries K S b = (case b of None \<Rightarrow> [] | Some raw \<Rightarrow> ix_readEntries K S raw)"

definition vectors :: "crypto \<Rightarrow> Sealer \<Rightarrow> bytes option \<Rightarrow> bytes \<Rightarrow> ID \<rightharpoonup> IxEntry" where
  "vectors K S b d = note_all (base_entries K S b @ ix_readEntries K S d) Map.empty"

lemma notes_untouched: "i \<notin> ie_ID ` set es \<Longrightarrow> note_all es m i = m i"
  by (induction es arbitrary: m) (auto simp: note_vec_def)

lemma notes_decide: "i \<in> ie_ID ` set es \<Longrightarrow> note_all es m i = note_all es m' i"
  by (induction es rule: rev_induct) (auto simp: note_vec_def)

lemma notes_idem: "note_all es (note_all es m) = note_all es m"
proof
  fix i
  show "note_all es (note_all es m) i = note_all es m i"
    by (cases "i \<in> ie_ID ` set es") (simp_all add: notes_untouched notes_decide [of i es "note_all es m" m])
qed

subsection \<open>What hydration returns\<close>

definition ids_at :: "(ID \<rightharpoonup> nat) \<Rightarrow> IxEntry list \<Rightarrow> bool" where
  "ids_at at out \<longleftrightarrow> (\<forall>i p. at i = Some p \<longleftrightarrow> p < length out \<and> ie_ID (out ! p) = i)"

lemma ids_at_replace: "ids_at at out \<Longrightarrow> at (ie_ID e) = Some p \<Longrightarrow> ids_at at (out[p := e])"
  by (auto simp: ids_at_def nth_list_update)

lemma ids_at_append:
  "ids_at at out \<Longrightarrow> at (ie_ID e) = None \<Longrightarrow> ids_at (at(ie_ID e \<mapsto> length out)) (out @ [e])"
  unfolding ids_at_def by (auto simp: nth_append less_Suc_eq) (metis option.distinct(1))

definition entry_at :: "IxEntry list \<Rightarrow> ID \<rightharpoonup> IxEntry" where
  "entry_at out i = map_of (map (\<lambda>e. (ie_ID e, e)) out) i"

lemma ids_at_distinct: "ids_at at out \<Longrightarrow> distinct (map ie_ID out)"
  unfolding distinct_conv_nth ids_at_def by (metis length_map nth_map option.inject)

lemma entry_at_nth: "distinct (map ie_ID out) \<Longrightarrow> p < length out \<Longrightarrow> entry_at out (ie_ID (out ! p)) = Some (out ! p)"
  unfolding entry_at_def by (rule map_of_is_SomeI) (auto simp: o_def intro!: image_eqI [of _ _ "out ! p"])

lemma entry_at_Some: "entry_at out i = Some e \<Longrightarrow> e \<in> set out \<and> ie_ID e = i"
  unfolding entry_at_def by (drule map_of_SomeD) auto

lemma entry_at_dom: "entry_at out i = Some e \<Longrightarrow> i \<in> ie_ID ` set out"
  by (drule entry_at_Some) auto

lemma entry_at_eqI:
  assumes "distinct (map ie_ID out)" "\<And>e. e \<in> set out \<Longrightarrow> m (ie_ID e) = Some e"
    "\<And>i. m i \<noteq> None \<Longrightarrow> i \<in> ie_ID ` set out"
  shows "entry_at out = m"
proof
  fix i
  show "entry_at out i = m i"
  proof (cases "i \<in> ie_ID ` set out")
    case True
    then obtain p where p: "p < length out" "ie_ID (out ! p) = i" by (auto simp: in_set_conv_nth)
    with entry_at_nth [OF assms(1) p(1)] assms(2) [of "out ! p"] show ?thesis by simp
  next
    case False
    then have "m i = None" using assms(3) by blast
    moreover have "entry_at out i = None" using False entry_at_Some [of out i] by (cases "entry_at out i") auto
    ultimately show ?thesis by simp
  qed
qed

lemma replay_one:
  fixes e :: IxEntry
  assumes "ids_at at out"
  defines "st \<equiv> (case at (ie_ID e) of Some p \<Rightarrow> (at, out[p := e]) | None \<Rightarrow> (at(ie_ID e \<mapsto> length out), out @ [e]))"
  shows "ids_at (fst st) (snd st)" "entry_at (snd st) = (entry_at out)(ie_ID e \<mapsto> e)"
proof -
  show ok: "ids_at (fst st) (snd st)"
    using ids_at_replace [OF assms(1)] ids_at_append [OF assms(1)] by (auto simp: st_def split: option.split)
  note d = ids_at_distinct [OF assms(1)] and d' = ids_at_distinct [OF ok]
  have out: "entry_at out (ie_ID x) = Some x" if "x \<in> set out" for x
    using that entry_at_nth [OF d] by (auto simp: in_set_conv_nth)
  show "entry_at (snd st) = (entry_at out)(ie_ID e \<mapsto> e)"
  proof (cases "at (ie_ID e)")
    case None
    then have new: "ie_ID e \<notin> ie_ID ` set out"
    proof -
      have "\<not> (p < length out \<and> ie_ID (out ! p) = ie_ID e)" for p
        using assms(1) None unfolding ids_at_def by (metis option.distinct(1))
      then show ?thesis by (metis imageE in_set_conv_nth)
    qed
    have st: "snd st = out @ [e]" using None by (simp add: st_def)
    show ?thesis
    proof (rule entry_at_eqI [OF d'])
      show "((entry_at out)(ie_ID e \<mapsto> e)) (ie_ID x) = Some x" if "x \<in> set (snd st)" for x
      proof (cases "x = e")
        case False
        then have x: "x \<in> set out" using that by (simp add: st)
        then have "ie_ID x \<noteq> ie_ID e" using new by (metis imageI)
        then show ?thesis using out [OF x] by simp
      qed simp
      show "i \<in> ie_ID ` set (snd st)" if "((entry_at out)(ie_ID e \<mapsto> e)) i \<noteq> None" for i
        using that entry_at_dom [of out i] by (auto simp: st split: if_splits)
    qed
  next
    case (Some p)
    then have p: "p < length out" "ie_ID (out ! p) = ie_ID e" using assms(1) by (simp_all add: ids_at_def)
    have s: "set (out[p := e]) \<subseteq> insert e (set out)" by (rule set_update_subset_insert)
    have same: "map ie_ID (out[p := e]) = map ie_ID out" using p list_update_id [of "map ie_ID out" p] by (simp add: map_update)
    have "ie_ID ` set (out[p := e]) = ie_ID ` set out" using same by (metis set_map)
    moreover have "e \<in> set (out[p := e])" using p by (simp add: set_update_memI)
    moreover have "x = e" if "x \<in> set (out[p := e])" "ie_ID x = ie_ID e" for x
      using that d' \<open>e \<in> set (out[p := e])\<close> Some by (auto simp: st_def distinct_map inj_on_def)
    moreover have st: "snd st = out[p := e]" using Some by (simp add: st_def)
    ultimately have u: "ie_ID ` set (snd st) = ie_ID ` set out" "e \<in> set (snd st)"
      "\<And>x. x \<in> set (snd st) \<Longrightarrow> ie_ID x = ie_ID e \<Longrightarrow> x = e" by simp_all
    show ?thesis
    proof (rule entry_at_eqI [OF d'])
      show "((entry_at out)(ie_ID e \<mapsto> e)) (ie_ID x) = Some x" if "x \<in> set (snd st)" for x
        using that out s u(3) by (auto simp: st)
      show "i \<in> ie_ID ` set (snd st)" if "((entry_at out)(ie_ID e \<mapsto> e)) i \<noteq> None" for i
        using that entry_at_dom [of out i] p(1,2) unfolding u(1) by (auto split: if_splits) (metis imageI nth_mem)
    qed
  qed
qed

definition live_only :: "(ID \<rightharpoonup> IxEntry) \<Rightarrow> (ID \<rightharpoonup> IxEntry)" where
  "live_only m i = (case m i of None \<Rightarrow> None | Some e \<Rightarrow> if IxEntry_Removed e then None else Some e)"

lemma live_only_update: "live_only (m(ie_ID e \<mapsto> e)) = note_vec e (live_only m)"
  by (simp add: live_only_def note_vec_def fun_eq_iff)

lemma replay_entries_notes:
  "ids_at at out \<Longrightarrow> replay_entries es (at, out) = (at', out') \<Longrightarrow>
   ids_at at' out' \<and> live_only (entry_at out') = note_all es (live_only (entry_at out))"
proof (induction es arbitrary: at out)
  case (Cons e es)
  let ?st = "case at (ie_ID e) of Some p \<Rightarrow> (at, out[p := e]) | None \<Rightarrow> (at(ie_ID e \<mapsto> length out), out @ [e])"
  note one = replay_one [OF Cons.prems(1), of e]
  have "replay_entries es (fst ?st, snd ?st) = (at', out')" using Cons.prems(2) by simp
  from Cons.IH [OF one(1) this] show ?case
    unfolding one(2) live_only_update by simp
qed simp

definition hydrated :: "IxEntry list \<Rightarrow> IxEntry list \<Rightarrow> IxEntry list" where
  "hydrated base delta =
     filter (\<lambda>e. \<not> IxEntry_Removed e) (snd (replay_entries delta (replay_entries base (Map.empty, []))))"

lemma hydrated_entries:
  "distinct (map ie_ID (hydrated base delta))" "entry_at (hydrated base delta) = note_all (base @ delta) Map.empty"
  "e \<in> set (hydrated base delta) \<Longrightarrow> \<not> IxEntry_Removed e \<and> e \<in> set (base @ delta)"
proof -
  obtain at1 out1 where r1: "replay_entries base (Map.empty, []) = (at1, out1)" by fastforce
  obtain at2 out2 where r2: "replay_entries delta (at1, out1) = (at2, out2)" by fastforce
  have h: "hydrated base delta = filter (\<lambda>e. \<not> IxEntry_Removed e) out2" by (simp add: hydrated_def r1 r2)
  have "ids_at Map.empty []" by (simp add: ids_at_def)
  note s1 = replay_entries_notes [OF this r1]
  note s2 = replay_entries_notes [OF conjunct1 [OF s1] r2]
  have d: "distinct (map ie_ID out2)" using s2 ids_at_distinct by blast
  then show dh: "distinct (map ie_ID (hydrated base delta))" by (simp add: h distinct_map_filter)
  have "entry_at (hydrated base delta) = live_only (entry_at out2)"
  proof (rule entry_at_eqI [OF dh])
    show "live_only (entry_at out2) (ie_ID x) = Some x" if x: "x \<in> set (hydrated base delta)" for x
    proof -
      from x obtain p where "p < length out2" "x = out2 ! p" "\<not> IxEntry_Removed x" by (auto simp: h in_set_conv_nth)
      then show ?thesis using entry_at_nth [OF d, of p] by (simp add: live_only_def)
    qed
    show "i \<in> ie_ID ` set (hydrated base delta)" if "live_only (entry_at out2) i \<noteq> None" for i
      using that entry_at_Some [of out2 i] by (auto simp: h live_only_def split: option.splits if_splits)
  qed
  also have "\<dots> = note_all (base @ delta) (live_only (entry_at []))" using s1 s2 by simp
  also have "live_only (entry_at []) = Map.empty" by (simp add: live_only_def entry_at_def fun_eq_iff)
  finally show "entry_at (hydrated base delta) = note_all (base @ delta) Map.empty" .
  have source: "x \<in> set (snd (replay_entries es st)) \<Longrightarrow> x \<in> set (snd st) \<or> x \<in> set es" for x es st
  proof (induction es st rule: replay_entries.induct)
    case (2 e es at out)
    show ?case
    proof (cases "at (ie_ID e)")
      case None
      with 2 show ?thesis by auto
    next
      case (Some p)
      with 2 set_update_subset_insert [of out p e] show ?thesis by auto
    qed
  qed simp
  show "e \<in> set (hydrated base delta) \<Longrightarrow> \<not> IxEntry_Removed e \<and> e \<in> set (base @ delta)"
    using source [of e delta "(at1, out1)"] source [of e base "(Map.empty, [])"] by (auto simp: h r1 r2)
qed

lemma notes_live:
  "distinct (map ie_ID es) \<Longrightarrow> \<forall>e \<in> set es. \<not> IxEntry_Removed e \<Longrightarrow> note_all es Map.empty = entry_at es"
proof (induction es rule: rev_induct)
  case (snoc e es)
  have new: "ie_ID e \<notin> ie_ID ` set es" using snoc.prems(1) by simp
  have "entry_at (es @ [e]) = (entry_at es)(ie_ID e \<mapsto> e)"
  proof
    fix i
    show "entry_at (es @ [e]) i = ((entry_at es)(ie_ID e \<mapsto> e)) i"
      using new entry_at_dom [of es i]
      by (cases "entry_at es i"; cases "i = ie_ID e") (simp_all add: entry_at_def map_add_def)
  qed
  moreover have "note_all (es @ [e]) Map.empty = note_vec e (entry_at es)" using snoc by simp
  moreover have "note_vec e m = m(ie_ID e \<mapsto> e)" for m
    using snoc.prems(2) by (simp add: note_vec_def)
  ultimately show ?case by metis
qed (simp add: entry_at_def fun_eq_iff)

lemma notes_hydrated: "note_all (hydrated base delta) Map.empty = note_all (base @ delta) Map.empty"
proof -
  have "\<forall>e \<in> set (hydrated base delta). \<not> IxEntry_Removed e" using hydrated_entries(3) by blast
  from notes_live [OF hydrated_entries(1) this] show ?thesis by (simp only: hydrated_entries(2))
qed

end
