(* ===== verification/Ix_Store.thy ===== *)
theory Ix_Store
  imports Ix_Safety Journal
begin

text \<open>
  What the persisted index promises its clients, whatever fails: acknowledged changes are kept
  and none is invented, folding changes nothing, and hydration returns what the files hold.
\<close>

section \<open>Assertions on the files\<close>

type_synonym file_pred = "bytes option \<Rightarrow> bytes \<Rightarrow> int \<Rightarrow> bytes option \<Rightarrow> bool"

text \<open>An assertion on the base, the delta, the store's idea of the delta's end and the next base.\<close>

definition fs :: "(nat \<Rightarrow> fault) \<Rightarrow> file_pred \<Rightarrow> ix_state \<Rightarrow> bool" where
  "fs pl R s \<longleftrightarrow>
     mc_plan s = pl \<and> (\<forall>i. length (mc_rand s i) = NonceSize) \<and>
     R (dk_base s) (dk_delta s) (is_tail (st_store s)) (dk_next s)"

abbreviation fx :: "(nat \<Rightarrow> fault) \<Rightarrow> file_pred \<Rightarrow> ix_state \<Rightarrow> bool" where
  "fx pl E \<equiv> \<lambda>s. fs pl E s \<and> \<not> no_faults pl"

lemma fs_mono: "fs pl R s \<Longrightarrow> (\<And>b d t n. R b d t n \<Longrightarrow> R' b d t n) \<Longrightarrow> fs pl R' s"
  by (simp add: fs_def)

lemma fs_stable [simp]: "stable pl (fs pl R)"
  by (simp add: stable_def fs_def)

lemma fs_call:
  assumes "\<And>b d t n. R b d t n \<Longrightarrow> E b d t n"
  shows "triple (fs pl R) (syscall e) (\<lambda>_. fs pl R) (fx pl E)"
  by (rule triple_conseq [OF triple_call [OF fs_stable [of pl R]]]) (auto intro: fs_mono [OF _ assms])

lemma fs_effect:
  assumes "\<And>s. fs pl R s \<Longrightarrow> fs pl Q (f s)" "\<And>b d t n. R b d t n \<Longrightarrow> E b d t n"
  shows "triple (fs pl R) (effect e f) (\<lambda>_. fs pl Q) (fx pl E)"
  by (rule triple_conseq [OF triple_change [OF fs_stable [of pl R], of "\<lambda>_. fs pl Q"]])
    (auto intro: assms(1) fs_mono [OF _ assms(2)])

lemma fs_write_delta:
  assumes "\<And>b d t n. R b d t n \<Longrightarrow> Q b (d @ bs) t n" "\<And>b d t n k. R b d t n \<Longrightarrow> E b (d @ take k bs) t n"
  shows "triple (fs pl R) (write_delta bs) (\<lambda>_. fs pl Q) (fx pl E)"
  unfolding write_delta_def
proof (rule triple_bind [OF triple_outcome [OF fs_stable]])
  fix f
  show "triple (\<lambda>s. fs pl R s \<and> (f = NoFault \<or> \<not> no_faults pl))
     (case f of NoFault \<Rightarrow> put_io (\<lambda>s. s\<lparr>dk_delta := dk_delta s @ bs\<rparr>)
      | Fault n \<Rightarrow> bind_io (put_io (\<lambda>s. s\<lparr>dk_delta := dk_delta s @ take n bs\<rparr>)) (\<lambda>_. fail_io (IxFailed ''write'')))
     (\<lambda>_. fs pl Q) (fx pl E)"
    using assms by (cases f) (auto simp: triple_def put_io_def bind_io_def fail_io_def fs_def)
qed

lemma fs_write_next:
  assumes "\<And>b d t n. R b d t n \<Longrightarrow> Q b d t (map_option (\<lambda>x. x @ bs) n)"
    "\<And>b d t n k. R b d t n \<Longrightarrow> E b d t (map_option (\<lambda>x. x @ take k bs) n)"
  shows "triple (fs pl R) (write_next bs) (\<lambda>_. fs pl Q) (fx pl E)"
  unfolding write_next_def
proof (rule triple_bind [OF triple_outcome [OF fs_stable]])
  fix f
  show "triple (\<lambda>s. fs pl R s \<and> (f = NoFault \<or> \<not> no_faults pl))
     (case f of NoFault \<Rightarrow> put_io (\<lambda>s. s\<lparr>dk_next := map_option (\<lambda>b. b @ bs) (dk_next s)\<rparr>)
      | Fault n \<Rightarrow> bind_io (put_io (\<lambda>s. s\<lparr>dk_next := map_option (\<lambda>b. b @ take n bs) (dk_next s)\<rparr>)) (\<lambda>_.
          fail_io (IxFailed ''write base'')))
     (\<lambda>_. fs pl Q) (fx pl E)"
    using assms by (cases f) (auto simp: triple_def put_io_def bind_io_def fail_io_def fs_def)
qed

lemma fs_cut:
  assumes "\<And>b d t n. R b d t n \<Longrightarrow> E b d t n" "\<And>b d t n. R b d t n \<Longrightarrow> E b (truncate_to k d) t n"
    "\<And>b d t n. R b d t n \<Longrightarrow> Q b (truncate_to k d) (int k) n"
  shows "triple (fs pl R) (ix_cut k) (\<lambda>_. fs pl Q) (fx pl E)"
proof -
  let ?M = "\<lambda>b d t n. \<exists>d0. R b d0 t n \<and> d = truncate_to k d0"
  show ?thesis
    unfolding ix_cut_def
  proof (intro triple_bind)
    show "triple (fs pl R) (syscall (IxFailed ''open for cut'')) (\<lambda>_. fs pl R) (fx pl E)"
      by (intro fs_call assms(1))
    show "triple (fs pl R) (effect (IxFailed ''truncate'') (\<lambda>s. s\<lparr>dk_delta := truncate_to k (dk_delta s)\<rparr>))
        (\<lambda>_. fs pl ?M) (fx pl E)"
      by (intro fs_effect assms(1)) (auto simp: fs_def)
    show "triple (fs pl ?M) (syscall (IxFailed ''sync'')) (\<lambda>_. fs pl ?M) (fx pl E)"
      "triple (fs pl ?M) (syscall (IxFailed ''close'')) (\<lambda>_. fs pl ?M) (fx pl E)"
      by (intro fs_call; use assms(2) in blast)+
    show "triple (fs pl ?M) (put_io (set_tail k)) (\<lambda>_. fs pl Q) (fx pl E)"
      by (rule triple_put) (auto simp: fs_def set_tail_def intro: assms(3))
  qed
qed

section \<open>Settling and appending\<close>

definition keys_ok :: "crypto \<Rightarrow> Sealer \<Rightarrow> bool" where
  "keys_ok K S \<longleftrightarrow> crypto_ok K \<and> zstd_bounded K \<and> wf_sealer S"

text \<open>
  The files hold \<open>m\<close>, and if the delta has the size the store last left it at, it ends where a
  record ends.
\<close>

definition holdv :: "crypto \<Rightarrow> Sealer \<Rightarrow> (ID \<rightharpoonup> IxEntry) \<Rightarrow> file_pred" where
  "holdv K S m b d t n \<longleftrightarrow>
     delta_ok K S d \<and> (t = int (length d) \<longrightarrow> settled K S d) \<and> vectors K S b d = m"

definition ready_at :: "crypto \<Rightarrow> Sealer \<Rightarrow> (ID \<rightharpoonup> IxEntry) \<Rightarrow> nat \<Rightarrow> file_pred" where
  "ready_at K S m r b d t n \<longleftrightarrow>
     settled K S d \<and> t = int (length d) \<and> r = length d \<and> vectors K S b d = m"

lemma ready_holdv: "ready_at K S m r b d t n \<Longrightarrow> holdv K S m b d t n"
  by (simp add: ready_at_def holdv_def settled_ok)

lemma settled_holdv: "settled K S d \<Longrightarrow> vectors K S b d = m \<Longrightarrow> holdv K S m b d t n"
  by (simp add: holdv_def settled_ok)

lemma fs_settle:
  "triple (fs pl (holdv K S m)) (ix_settle K S) (\<lambda>r. fs pl (ready_at K S m r)) (fx pl (holdv K S m))"
proof (rule triple_split [where f = "\<lambda>s. (dk_delta s, is_tail (st_store s))"])
  fix x :: "bytes \<times> int"
  obtain d0 t0 where x: "x = (d0, t0)" by (cases x)
  let ?R = "\<lambda>b d t n. holdv K S m b d t n \<and> d = d0 \<and> t = t0"
  let ?e = "wholeRecords K S d0"
  have call: "triple (fs pl ?R) (syscall e) (\<lambda>_. fs pl ?R) (fx pl (holdv K S m))" for e
    by (rule fs_call) simp
  have read: "triple (fs pl ?R)
      (bind_io (if ?e < length d0 then ix_cut ?e else ret_io ()) (\<lambda>_.
       bind_io (put_io (set_tail ?e)) (\<lambda>_. ret_io ?e)))
      (\<lambda>r. fs pl (ready_at K S m r)) (fx pl (holdv K S m))" (is "triple _ _ _ ?E")
  proof (intro triple_bind)
    let ?M = "\<lambda>b d t n. settled K S d \<and> length d = ?e \<and> vectors K S b d = m"
    have w: "?e \<le> length d0" "settled K S (take ?e d0)" "vectors K S b (take ?e d0) = vectors K S b d0"
      if "delta_ok K S d0" for b
      using wholeRecords_settles [OF that] by (simp_all add: vectors_def)
    have cut: "triple (fs pl ?R) (ix_cut ?e) (\<lambda>_. fs pl ?M) ?E"
      using w by (intro fs_cut) (auto simp: truncate_to_take holdv_def intro: settled_ok)
    have skip: "triple (fs pl ?R) (ret_io ()) (\<lambda>_. fs pl ?M) ?E" if "\<not> ?e < length d0"
      by (rule triple_ret) (use that w in \<open>auto simp: fs_def holdv_def\<close>)
    show "triple (fs pl ?R) (if ?e < length d0 then ix_cut ?e else ret_io ()) (\<lambda>_. fs pl ?M) ?E"
      by (cases "?e < length d0") (simp_all add: cut skip)
    show "triple (fs pl ?M) (put_io (set_tail ?e)) (\<lambda>_. fs pl (ready_at K S m ?e)) ?E"
      by (rule triple_put) (auto simp: fs_def set_tail_def ready_at_def)
    show "triple (fs pl (ready_at K S m ?e)) (ret_io ?e) (\<lambda>r. fs pl (ready_at K S m r)) ?E"
      by (rule triple_ret)
  qed
  have "triple (fs pl ?R) (ix_settle K S) (\<lambda>r. fs pl (ready_at K S m r)) (fx pl (holdv K S m))"
    unfolding ix_settle_def
  proof (rule triple_bind [OF call], rule triple_bind_get [where a = "(length d0, t0)"])
    show "triple (fs pl ?R)
        (case (length d0, t0) of (sz, tail) \<Rightarrow> if int sz = tail then ret_io sz
         else bind_io (syscall (IxFailed ''read'')) (\<lambda>_. bind_io (get_io dk_delta) (\<lambda>raw.
           let e = wholeRecords K S raw in
           bind_io (if e < length raw then ix_cut e else ret_io ()) (\<lambda>_.
           bind_io (put_io (set_tail e)) (\<lambda>_. ret_io e)))))
        (\<lambda>r. fs pl (ready_at K S m r)) (fx pl (holdv K S m))"
    proof (cases "int (length d0) = t0")
      case True
      then show ?thesis
        by (auto intro!: triple_ret simp: fs_def holdv_def ready_at_def)
    next
      case False
      have "triple (fs pl ?R) (bind_io (syscall (IxFailed ''read'')) (\<lambda>_. bind_io (get_io dk_delta) (\<lambda>raw.
           let e = wholeRecords K S raw in
           bind_io (if e < length raw then ix_cut e else ret_io ()) (\<lambda>_.
           bind_io (put_io (set_tail e)) (\<lambda>_. ret_io e)))))
        (\<lambda>r. fs pl (ready_at K S m r)) (fx pl (holdv K S m))"
        by (rule triple_bind [OF call], rule triple_bind_get [where a = d0])
          (use read in \<open>simp_all add: fs_def Let_def\<close>)
      then show ?thesis using False by simp
    qed
  qed (simp add: fs_def)
  then show "triple (\<lambda>s. fs pl (holdv K S m) s \<and> (dk_delta s, is_tail (st_store s)) = x) (ix_settle K S)
      (\<lambda>r. fs pl (ready_at K S m r)) (fx pl (holdv K S m))"
    by (rule triple_conseq) (auto simp: fs_def x)
qed

lemma fs_encode_small:
  assumes "keys_ok K S" "ix_entry_ok e" "\<And>b d t n. R b d t n \<Longrightarrow> E b d t n"
  shows "triple (fs pl R) (ix_encode_io K S e) (\<lambda>l s. fs pl R s \<and> framed K S l e \<and> length l < 1000000) (fx pl E)"
  unfolding ix_encode_io_def
proof (rule triple_bind [OF triple_random [OF fs_stable]])
  fix r
  show "triple (\<lambda>s. fs pl R s \<and> (case r of None \<Rightarrow> \<not> no_faults pl | Some b \<Rightarrow> \<exists>k. b = mc_rand s k))
      (lift_io (ix_encodeEntry K S r e)) (\<lambda>l s. fs pl R s \<and> framed K S l e \<and> length l < 1000000) (fx pl E)"
  proof (cases r)
    case None
    then have "ix_encodeEntry K S r e = Inl (IxSeal NonceRead)"
      using assms(1,2) by (simp add: ix_encodeEntry_def ix_entry_ok_def Seal_def keys_ok_def wf_sealer_def)
    then show ?thesis using None by (auto intro!: triple_lift elim: fs_mono [OF _ assms(3)])
  next
    case (Some nb)
    show ?thesis
    proof (rule triple_lift)
      fix s l
      assume a: "fs pl R s \<and> (case r of None \<Rightarrow> \<not> no_faults pl | Some b \<Rightarrow> \<exists>k. b = mc_rand s k)"
        "ix_encodeEntry K S r e = Inr l"
      then have "wf_nonce r" using Some by (auto simp: wf_nonce_def fs_def)
      then show "fs pl R s \<and> framed K S l e \<and> length l < 1000000"
        using ix_encode_framed [of K S r e] assms(1,2) a by (auto simp: keys_ok_def)
    next
      fix s err
      assume a: "fs pl R s \<and> (case r of None \<Rightarrow> \<not> no_faults pl | Some b \<Rightarrow> \<exists>k. b = mc_rand s k)"
        "ix_encodeEntry K S r e = Inl err"
      then have "wf_nonce r" using Some by (auto simp: wf_nonce_def fs_def)
      then show "fx pl E s"
        using ix_encode_framed [of K S r e] assms(1,2) a by (auto simp: keys_ok_def)
    qed
  qed
qed

lemma fs_encode:
  assumes "keys_ok K S" "ix_entry_ok e" "\<And>b d t n. R b d t n \<Longrightarrow> E b d t n"
  shows "triple (fs pl R) (ix_encode_io K S e) (\<lambda>l s. fs pl R s \<and> framed K S l e) (fx pl E)"
  by (rule triple_conseq [OF fs_encode_small [OF assms]]) auto

lemma vectors_snoc:
  "settled K S d \<Longrightarrow> framed K S l e \<Longrightarrow> vectors K S b (d @ l) = note_vec e (vectors K S b d)"
  by (simp add: vectors_def settled_snoc)

text \<open>A record written at the end, in whole or in part.\<close>

lemma written_part:
  assumes "ready_at K S m r b d t n" "framed K S l e"
  shows "holdv K S m b (d @ take k l) t n \<or> holdv K S (note_vec e m) b (d @ take k l) t n"
proof (cases "k < length l")
  case True
  have "t = int (length (d @ take k l)) \<Longrightarrow> settled K S (d @ take k l)"
    using assms(1) True framed_nonempty [OF assms(2)] by (auto simp: ready_at_def min_def split: if_splits)
  then have "holdv K S m b (d @ take k l) t n"
    using assms True by (auto simp: ready_at_def holdv_def vectors_def settled_torn)
  then show ?thesis ..
next
  case False
  then have "holdv K S (note_vec e m) b (d @ take k l) t n"
    using assms settled_snoc(1) vectors_snoc by (intro settled_holdv) (simp_all add: ready_at_def)
  then show ?thesis ..
qed

definition made_upto :: "crypto \<Rightarrow> Sealer \<Rightarrow> (ID \<rightharpoonup> IxEntry) \<Rightarrow> IxEntry list \<Rightarrow> file_pred" where
  "made_upto K S m es b d t n \<longleftrightarrow> (\<exists>k. holdv K S (note_all (take k es) m) b d t n)"

lemma made_none: "holdv K S m b d t n \<Longrightarrow> made_upto K S m es b d t n"
  unfolding made_upto_def by (rule exI [of _ 0]) simp

lemma made_all: "holdv K S (note_all es m) b d t n \<Longrightarrow> made_upto K S m es b d t n"
  unfolding made_upto_def by (rule exI [of _ "length es"]) simp

lemma made_Cons: "made_upto K S (note_vec e m) es b d t n \<Longrightarrow> made_upto K S m (e # es) b d t n"
  unfolding made_upto_def by (metis fold_simps(2) take_Suc_Cons)

lemma fs_append_one:
  assumes "framed K S l e"
  shows "triple (fs pl (ready_at K S m r)) (catch_io (write_delta l) (\<lambda>err. fail_after err (ix_cut r)))
    (\<lambda>_. fs pl (\<lambda>b d t n. \<exists>d0. ready_at K S m r b d0 t n \<and> d = d0 @ l)) (fx pl (made_upto K S m (e # es)))"
proof (rule triple_catch)
  let ?F = "\<lambda>b d t n. \<exists>d0 k. ready_at K S m r b d0 t n \<and> d = d0 @ take k l"
  show "triple (fs pl (ready_at K S m r)) (write_delta l)
      (\<lambda>_. fs pl (\<lambda>b d t n. \<exists>d0. ready_at K S m r b d0 t n \<and> d = d0 @ l)) (fx pl ?F)"
    by (rule fs_write_delta) auto
  have part: "made_upto K S m (e # es) b d t n" if "?F b d t n" for b d t n
    using that written_part [OF _ assms] made_none [of K S m] made_Cons [OF made_none] by metis
  have undone: "made_upto K S m (e # es) b (truncate_to r d) t' n" if "?F b d t n" for b d t t' n
    using that by (auto simp: ready_at_def truncate_to_take intro!: made_none settled_holdv)
  have "triple (fs pl ?F) (ix_cut r) (\<lambda>_. fs pl (made_upto K S m (e # es))) (fx pl (made_upto K S m (e # es)))"
    using part undone by (intro fs_cut) blast+
  then have "triple (fx pl ?F) (ix_cut r) (\<lambda>_. fx pl (made_upto K S m (e # es))) (fx pl (made_upto K S m (e # es)))"
    unfolding triple_def by blast
  then show "triple (fx pl ?F) (fail_after err (ix_cut r))
      (\<lambda>_. fs pl (\<lambda>b d t n. \<exists>d0. ready_at K S m r b d0 t n \<and> d = d0 @ l)) (fx pl (made_upto K S m (e # es)))" for err
    by (rule triple_fail_after)
qed

lemma fs_append_loop:
  assumes "keys_ok K S"
  shows "\<forall>e \<in> set es. ix_entry_ok e \<Longrightarrow>
    triple (fs pl (ready_at K S m r)) (append_loop K S es r)
      (\<lambda>_. fs pl (holdv K S (note_all es m))) (fx pl (made_upto K S m es))"
proof (induction es arbitrary: m r)
  case Nil
  show ?case by (auto intro!: triple_ret elim: fs_mono dest: ready_holdv)
next
  case (Cons e es)
  have none: "made_upto K S m (e # es) b d t n" if "ready_at K S m r b d t n" for b d t n
    using that by (intro made_none ready_holdv)
  have rest: "triple (fs pl (\<lambda>b d t n. \<exists>d0. ready_at K S m r b d0 t n \<and> d = d0 @ l))
      (bind_io (put_io (delta_counted (r + length l) (length l))) (\<lambda>_. append_loop K S es (r + length l)))
      (\<lambda>_. fs pl (holdv K S (note_all (e # es) m))) (fx pl (made_upto K S m (e # es)))" if l: "framed K S l e" for l
  proof (rule triple_bind)
    show "triple (fs pl (\<lambda>b d t n. \<exists>d0. ready_at K S m r b d0 t n \<and> d = d0 @ l))
        (put_io (delta_counted (r + length l) (length l)))
        (\<lambda>_. fs pl (ready_at K S (note_vec e m) (r + length l))) (fx pl (made_upto K S m (e # es)))"
      using l vectors_snoc settled_snoc(1)
      by (intro triple_put) (auto simp: fs_def delta_counted_def ready_at_def)
    have ih: "triple (fs pl (ready_at K S (note_vec e m) (r + length l))) (append_loop K S es (r + length l))
        (\<lambda>_. fs pl (holdv K S (note_all es (note_vec e m)))) (fx pl (made_upto K S (note_vec e m) es))"
      using Cons.prems by (intro Cons.IH) simp
    show "triple (fs pl (ready_at K S (note_vec e m) (r + length l))) (append_loop K S es (r + length l))
        (\<lambda>_. fs pl (holdv K S (note_all (e # es) m))) (fx pl (made_upto K S m (e # es)))"
      by (rule triple_conseq [OF ih]) (auto elim!: fs_mono intro: made_Cons)
  qed
  show ?case
    unfolding append_loop.simps
  proof (rule triple_bind [OF fs_encode [OF assms _ none]])
    show "ix_entry_ok e" using Cons.prems by simp
    fix l
    show "triple (\<lambda>s. fs pl (ready_at K S m r) s \<and> framed K S l e)
        (bind_io (catch_io (write_delta l) (\<lambda>err. fail_after err (ix_cut r))) (\<lambda>_.
         bind_io (put_io (delta_counted (r + length l) (length l))) (\<lambda>_. append_loop K S es (r + length l))))
        (\<lambda>_. fs pl (holdv K S (note_all (e # es) m))) (fx pl (made_upto K S m (e # es)))"
      by (rule triple_assume) (rule triple_bind [OF fs_append_one rest])
  qed
qed

text \<open>Under the file lock.\<close>

lemma fs_unlocked:
  assumes "triple (fs pl R) m Q (fx pl E)"
    and "\<And>b d t n. R b d t n \<Longrightarrow> E b d t n"
    and "\<And>x. stable pl (Q x)" "\<And>x s. Q x s \<Longrightarrow> fs pl E s"
  shows "triple (fs pl R)
    (bind_io (syscall (IxFailed ''lock'')) (\<lambda>_. finally_io m (syscall (IxFailed ''unlock'')))) Q (fx pl E)"
proof (rule triple_bind [OF fs_call])
  show "triple (fs pl R) (finally_io m (syscall (IxFailed ''unlock''))) Q (fx pl E)"
  proof (rule triple_finally [OF assms(1)])
    show "triple (Q x) (syscall (IxFailed ''unlock'')) (\<lambda>_. Q x) (fx pl E)" for x
      by (rule triple_conseq [OF triple_call [OF assms(3)]]) (auto intro: assms(4))
    show "triple (fx pl E) (syscall (IxFailed ''unlock'')) (\<lambda>_. fx pl E) (fx pl E)"
      by (rule triple_conseq [OF triple_call [OF stable_and [OF fs_stable]]]) auto
  qed
qed (rule assms(2))

lemma fs_Append:
  assumes "keys_ok K S" "\<forall>e \<in> set es. ix_entry_ok e"
  shows "triple (fs pl (holdv K S m)) (IxStore_Append K S es)
    (\<lambda>_. fs pl (holdv K S (note_all es m))) (fx pl (made_upto K S m es))"
proof (cases "es = []")
  case True
  then show ?thesis by (auto simp: IxStore_Append_def intro!: triple_ret)
next
  case False
  have "triple (fs pl (holdv K S m))
      (bind_io (ix_settle K S) (\<lambda>pos. bind_io (append_loop K S es pos) (\<lambda>_. syscall (IxFailed ''sync''))))
      (\<lambda>_. fs pl (holdv K S (note_all es m))) (fx pl (made_upto K S m es))"
  proof (intro triple_bind)
    show "triple (fs pl (holdv K S m)) (ix_settle K S) (\<lambda>r. fs pl (ready_at K S m r)) (fx pl (made_upto K S m es))"
      by (rule triple_conseq [OF fs_settle]) (auto elim: fs_mono intro: made_none)
    show "triple (fs pl (ready_at K S m r)) (append_loop K S es r)
        (\<lambda>_. fs pl (holdv K S (note_all es m))) (fx pl (made_upto K S m es))" for r
      using assms by (rule fs_append_loop)
    show "triple (fs pl (holdv K S (note_all es m))) (syscall (IxFailed ''sync''))
        (\<lambda>_. fs pl (holdv K S (note_all es m))) (fx pl (made_upto K S m es))"
      by (intro fs_call made_all)
  qed
  from fs_unlocked [OF this made_none fs_stable fs_mono [OF _ made_all]] False show ?thesis
    by (simp add: IxStore_Append_def)
qed

section \<open>Reading and folding\<close>

text \<open>The base and the delta are these.\<close>

definition fixed :: "bytes option \<Rightarrow> bytes \<Rightarrow> file_pred \<Rightarrow> file_pred" where
  "fixed b0 d0 R b d t n \<longleftrightarrow> R b d t n \<and> b = b0 \<and> d = d0"

lemma triple_fixed:
  assumes "\<And>b0 d0. triple (fs pl (fixed b0 d0 R)) m Q E"
  shows "triple (fs pl R) m Q E"
proof (rule triple_split [where f = "\<lambda>s. (dk_base s, dk_delta s)"])
  fix x :: "bytes option \<times> bytes"
  show "triple (\<lambda>s. fs pl R s \<and> (dk_base s, dk_delta s) = x) m Q E"
    by (rule triple_conseq [OF assms [of "fst x" "snd x"]]) (auto simp: fs_def fixed_def)
qed

lemma fs_hydrate:
  assumes "\<And>b d t n. R b d t n \<Longrightarrow> E b d t n"
  shows "triple (fs pl (fixed b0 d0 R)) (ix_hydrate K S)
    (\<lambda>r s. fs pl (fixed b0 d0 R) s \<and> r = hydrated (base_entries K S b0) (ix_readEntries K S d0)) (fx pl E)"
proof -
  let ?R = "fixed b0 d0 R"
  have file_read: "triple (fs pl ?R) (read_file K S f) (\<lambda>r s. fs pl ?R s \<and> r = base_entries K S x) (fx pl E)"
    if "\<And>s. fs pl ?R s \<Longrightarrow> f s = x" for f x
    unfolding read_file_def
  proof (rule triple_bind [OF fs_call])
    show "triple (fs pl ?R) (get_io (\<lambda>s. case f s of None \<Rightarrow> [] | Some raw \<Rightarrow> ix_readEntries K S raw))
        (\<lambda>r s. fs pl ?R s \<and> r = base_entries K S x) (fx pl E)"
      by (rule triple_get) (simp add: that base_entries_def)
  qed (use assms in \<open>simp add: fixed_def\<close>)
  show ?thesis
    unfolding ix_hydrate_def
  proof (rule triple_bind [OF file_read [of _ b0]], goal_cases)
    case (2 base)
    show ?case
    proof (rule triple_assume, rule triple_bind [OF file_read [of _ "Some d0"]], goal_cases)
      case (2 delta)
      show ?case
        by (rule triple_assume, rule triple_ret)
          (use \<open>base = base_entries K S b0\<close> in \<open>simp add: hydrated_def base_entries_def\<close>)
    qed (simp add: fs_def fixed_def)
  qed (simp add: fs_def fixed_def)
qed

lemma read_framed:
  "list_all2 (framed K S) ls es \<Longrightarrow> settled K S (concat ls) \<and> ix_readEntries K S (concat ls) = es"
proof (induction ls arbitrary: es rule: rev_induct)
  case (snoc l ls)
  then obtain es' e where e: "es = es' @ [e]" "list_all2 (framed K S) ls es'" "framed K S l e"
    by (auto simp: list_all2_append1 list_all2_Cons1)
  with snoc.IH [OF e(2)] settled_snoc [of K S "concat ls" l e] show ?case by simp
qed (simp add: readEntries_frames)

lemma fs_base_loop:
  assumes "keys_ok K S" "\<And>b d t n. R b d t n \<Longrightarrow> E b d t n" "\<And>b d t n n'. R b d t n \<Longrightarrow> R b d t n'"
  shows "\<forall>e \<in> set es. ix_entry_ok e \<Longrightarrow>
    triple (fs pl (\<lambda>b d t n. R b d t n \<and> (\<exists>ls. n = Some (concat ls) \<and> list_all2 (framed K S) ls xs)))
      (base_loop K S es w)
      (\<lambda>_. fs pl (\<lambda>b d t n. R b d t n \<and> (\<exists>ls. n = Some (concat ls) \<and> list_all2 (framed K S) ls (xs @ es))))
      (fx pl E)"
proof (induction es arbitrary: xs w)
  case Nil
  show ?case by (auto intro!: triple_ret elim: fs_mono)
next
  case (Cons e es)
  let ?N = "\<lambda>xs b d t n. R b d t n \<and> (\<exists>ls. n = Some (concat ls) \<and> list_all2 (framed K S) ls xs)"
  have one: "triple (fs pl (?N xs)) (write_next l) (\<lambda>_. fs pl (?N (xs @ [e]))) (fx pl E)"
    if l: "framed K S l e" for l
  proof (rule fs_write_next)
    show "?N (xs @ [e]) b d t (map_option (\<lambda>x. x @ l) n)" if n: "?N xs b d t n" for b d t n
    proof -
      obtain ls where "n = Some (concat ls)" "list_all2 (framed K S) ls xs" using n by blast
      then have "map_option (\<lambda>x. x @ l) n = Some (concat (ls @ [l]))"
        "list_all2 (framed K S) (ls @ [l]) (xs @ [e])" using l by (simp_all add: list_all2_appendI)
      then show ?thesis using n assms(3) by blast
    qed
    show "E b d t (map_option (\<lambda>x. x @ take k l) n)" if "?N xs b d t n" for b d t n k
      using that assms(2,3) by blast
  qed
  have "triple (fs pl (?N (xs @ [e]))) (base_loop K S es w') (\<lambda>_. fs pl (?N (xs @ e # es))) (fx pl E)" for w'
    using Cons.IH [of "xs @ [e]" w'] Cons.prems by simp
  then have rest: "triple (fs pl (?N xs)) (bind_io (write_next l) (\<lambda>_. base_loop K S es (w + length l)))
      (\<lambda>_. fs pl (?N (xs @ e # es))) (fx pl E)" if "framed K S l e" for l
    using one [OF that] by (rule triple_bind [rotated])
  show ?case
    unfolding base_loop.simps
    by (rule triple_bind [OF fs_encode [OF assms(1)]])
      (use Cons.prems assms(2) rest in \<open>auto intro!: triple_assume\<close>)
qed

text \<open>
  Compaction to entries that stand for \<open>m1\<close>: the files hold what they held, or the new base
  with the delta over it, or the new base alone.
\<close>

definition interrupted :: "crypto \<Rightarrow> Sealer \<Rightarrow> (ID \<rightharpoonup> IxEntry) \<Rightarrow> bytes \<Rightarrow> (ID \<rightharpoonup> IxEntry) \<Rightarrow> file_pred" where
  "interrupted K S m d0 m1 b d t n \<longleftrightarrow>
     holdv K S m b d t n \<or> holdv K S (note_all (ix_readEntries K S d0) m1) b d t n \<or> holdv K S m1 b d t n"

lemma fs_compact:
  fixes K :: crypto and S :: Sealer and m m1 :: "ID \<rightharpoonup> IxEntry" and d0 :: bytes
  assumes "keys_ok K S" "\<forall>e \<in> set es. ix_entry_ok e" "note_all es Map.empty = m1"
  defines "E \<equiv> interrupted K S m d0 m1"
  shows "triple (fs pl (fixed b0 d0 (holdv K S m))) (ix_compact K S es) (\<lambda>_. fs pl (holdv K S m1)) (fx pl E)"
proof -
  let ?R = "fixed b0 d0 (holdv K S m)"
  let ?N = "\<lambda>xs b d t n. ?R b d t n \<and> (\<exists>ls. n = Some (concat ls) \<and> list_all2 (framed K S) ls xs)"
  let ?B = "\<lambda>b d t n. holdv K S (note_all (ix_readEntries K S d0) m1) b d t n \<and> base_entries K S b = es"
  have R: "?R b d t n \<Longrightarrow> ?R b d t n'" for b d t n n' by (auto simp: fixed_def holdv_def)
  have RE: "?R b d t n \<Longrightarrow> E b d t n" for b d t n by (auto simp: fixed_def E_def interrupted_def)
  have installed: "?B n d t n'" if N: "?N es b d t n" for b d t n n'
  proof -
    obtain ls where n: "n = Some (concat ls)" "list_all2 (framed K S) ls es" using N by blast
    then have "base_entries K S n = es" using read_framed by (simp add: base_entries_def)
    then show ?thesis using N assms(3) by (auto simp: fixed_def holdv_def vectors_def)
  qed
  have emptied: "holdv K S m1 b (truncate_to 0 d) t n" if "?B b d t' n'" for b d t n t' n'
    using that assms(3) by (intro settled_holdv) (auto simp: vectors_def readEntries_frames truncate_to_def)
  have inner: "triple (fs pl (?N []))
      (bind_io (base_loop K S es 0) (\<lambda>written. bind_io (syscall (IxFailed ''sync base'')) (\<lambda>_.
        bind_io (syscall (IxFailed ''close base'')) (\<lambda>_. bind_io rename_next (\<lambda>_.
        bind_io (ix_cut 0) (\<lambda>_. put_io (base_counted written)))))))
      (\<lambda>_. fs pl (holdv K S m1)) (fx pl E)"
  proof (rule triple_bind)
    show "triple (fs pl (?N [])) (base_loop K S es 0) (\<lambda>_. fs pl (?N es)) (fx pl E)"
      using fs_base_loop [OF assms(1) RE R assms(2), where pl = pl and xs = "[]" and w = 0] by simp
    fix w
    have call: "triple (fs pl (?N es)) (syscall e) (\<lambda>_. fs pl (?N es)) (fx pl E)" for e
      by (rule fs_call) (use RE in blast)
    have ren: "triple (fs pl (?N es)) rename_next (\<lambda>_. fs pl ?B) (fx pl E)"
      unfolding rename_next_def
    proof (rule fs_effect)
      fix s assume "fs pl (?N es) s"
      then show "fs pl ?B (s\<lparr>dk_base := dk_next s, dk_next := None\<rparr>)"
        using installed [of "dk_base s" "dk_delta s" "is_tail (st_store s)" "dk_next s" None]
        by (simp add: fs_def)
    qed (use RE in blast)
    have cut: "triple (fs pl ?B) (ix_cut 0) (\<lambda>_. fs pl (holdv K S m1)) (fx pl E)"
      by (rule fs_cut) (use emptied in \<open>auto simp: E_def interrupted_def\<close>)
    have count: "triple (fs pl (holdv K S m1)) (put_io (base_counted w)) (\<lambda>_. fs pl (holdv K S m1)) (fx pl E)"
      by (rule triple_put) (simp add: fs_def base_counted_def)
    show "triple (fs pl (?N es)) (bind_io (syscall (IxFailed ''sync base'')) (\<lambda>_.
        bind_io (syscall (IxFailed ''close base'')) (\<lambda>_. bind_io rename_next (\<lambda>_.
        bind_io (ix_cut 0) (\<lambda>_. put_io (base_counted w))))))
      (\<lambda>_. fs pl (holdv K S m1)) (fx pl E)"
      by (rule triple_bind [OF call triple_bind [OF call triple_bind [OF ren triple_bind [OF cut count]]]])
  qed
  have removed: "triple (fs pl R') remove_next (\<lambda>_. fs pl R') X"
    if free: "\<And>b d t n n'. R' b d t n \<Longrightarrow> R' b d t n'" for R' X
    unfolding remove_next_def
  proof (rule triple_catch [where E' = "fx pl R'"])
    show "triple (fs pl R') (effect (IxFailed ''remove'') (\<lambda>s. s\<lparr>dk_next := None\<rparr>)) (\<lambda>_. fs pl R') (fx pl R')"
      by (rule fs_effect) (auto simp: fs_def intro: free)
  qed (auto intro!: triple_ret)
  have free: "holdv K S m1 b d t n \<Longrightarrow> holdv K S m1 b d t n'" "E b d t n \<Longrightarrow> E b d t n'" for b d t n n'
    by (auto simp: holdv_def E_def interrupted_def)
  have "triple (fs pl E) remove_next (\<lambda>_. fs pl E) (fx pl E)"
    by (rule removed) (rule free(2))
  then have failed: "triple (fx pl E) remove_next (\<lambda>_. fx pl E) (fx pl E)"
    unfolding triple_def by blast
  have body: "triple (fs pl (?N []))
      (finally_io (bind_io (base_loop K S es 0) (\<lambda>written. bind_io (syscall (IxFailed ''sync base'')) (\<lambda>_.
        bind_io (syscall (IxFailed ''close base'')) (\<lambda>_. bind_io rename_next (\<lambda>_.
        bind_io (ix_cut 0) (\<lambda>_. put_io (base_counted written))))))) remove_next)
      (\<lambda>_. fs pl (holdv K S m1)) (fx pl E)"
    by (rule triple_finally [OF inner removed failed]) (rule free(1))
  have "triple (fs pl ?R) (effect (IxFailed ''open base'') (\<lambda>s. s\<lparr>dk_next := Some []\<rparr>)) (\<lambda>_. fs pl (?N [])) (fx pl E)"
    by (rule fs_effect) (auto simp: fs_def intro: R RE)
  then show ?thesis unfolding ix_compact_def using body by (rule triple_bind)
qed

lemma fs_fold:
  assumes "keys_ok K S"
  shows "triple (fs pl (holdv K S m)) (IxStore_Fold K S) (\<lambda>_. fs pl (holdv K S m)) (fx pl (holdv K S m))"
proof -
  have inner: "triple (fs pl (holdv K S m)) (bind_io (ix_hydrate K S) (ix_compact K S))
      (\<lambda>_. fs pl (holdv K S m)) (fx pl (holdv K S m))"
  proof (rule triple_fixed, rule triple_satisfiable, rule triple_bind [OF fs_hydrate], assumption)
    fix b0 d0 s0 es
    let ?es = "hydrated (base_entries K S b0) (ix_readEntries K S d0)"
    assume "fs pl (fixed b0 d0 (holdv K S m)) s0"
    then have m: "note_all (base_entries K S b0 @ ix_readEntries K S d0) Map.empty = m"
      by (auto simp: fs_def fixed_def holdv_def vectors_def)
    have m1: "note_all ?es Map.empty = m" by (simp only: notes_hydrated m)
    have m2: "note_all (ix_readEntries K S d0) m = m"
      using m notes_idem [of "ix_readEntries K S d0"] by auto
    have ok: "\<forall>e \<in> set ?es. ix_entry_ok e"
      using hydrated_entries(3) [of _ "base_entries K S b0" "ix_readEntries K S d0"] readEntries_ok
      by (fastforce simp: base_entries_def split: option.splits)
    show "triple (\<lambda>s. fs pl (fixed b0 d0 (holdv K S m)) s \<and> es = ?es) (ix_compact K S es)
        (\<lambda>_. fs pl (holdv K S m)) (fx pl (holdv K S m))"
      using fs_compact [OF assms ok m1, where pl = pl and ?b0.0 = b0 and ?d0.0 = d0 and m = m]
      by (intro triple_assume) (simp add: interrupted_def [abs_def] m2)
  qed
  show ?thesis
    unfolding IxStore_Fold_def by (rule fs_unlocked [OF inner]) auto
qed

lemma fs_Hydrate:
  "triple (fs pl (holdv K S m)) (IxStore_Hydrate K S)
    (\<lambda>r s. fs pl (holdv K S m) s \<and> distinct (map ie_ID r) \<and> entry_at r = m) (fx pl (holdv K S m))"
  unfolding IxStore_Hydrate_def
proof (rule fs_unlocked)
  show "triple (fs pl (holdv K S m)) (ix_hydrate K S)
      (\<lambda>r s. fs pl (holdv K S m) s \<and> distinct (map ie_ID r) \<and> entry_at r = m) (fx pl (holdv K S m))"
  proof (rule triple_fixed)
    fix b0 d0
    have h: "triple (fs pl (fixed b0 d0 (holdv K S m))) (ix_hydrate K S)
        (\<lambda>r s. fs pl (fixed b0 d0 (holdv K S m)) s \<and> r = hydrated (base_entries K S b0) (ix_readEntries K S d0))
        (fx pl (holdv K S m))"
      by (rule fs_hydrate)
    show "triple (fs pl (fixed b0 d0 (holdv K S m))) (ix_hydrate K S)
        (\<lambda>r s. fs pl (holdv K S m) s \<and> distinct (map ie_ID r) \<and> entry_at r = m) (fx pl (holdv K S m))"
      by (rule triple_conseq [OF h]) (auto simp: fs_def fixed_def holdv_def vectors_def hydrated_entries)
  qed
qed (auto intro!: stable_and)

lemma fs_CompactIfDue:
  assumes "keys_ok K S"
  shows "triple (fs pl (holdv K S m)) (CompactIfDue K S) (\<lambda>_. fs pl (holdv K S m)) (fx pl (holdv K S m))"
  unfolding CompactIfDue_def
proof (rule triple_bind)
  show "triple (fs pl (holdv K S m)) (get_io st_store) (\<lambda>_. fs pl (holdv K S m)) (fx pl (holdv K S m))"
    by (rule triple_get)
  show "triple (fs pl (holdv K S m))
      (if \<not> ix_dueForCompaction st then ret_io False else bind_io (IxStore_Fold K S) (\<lambda>_. ret_io True))
      (\<lambda>_. fs pl (holdv K S m)) (fx pl (holdv K S m))" for st
    using triple_bind [OF fs_fold [OF assms] triple_ret] by (auto intro!: triple_ret)
qed

lemma fs_OpenStore:
  "triple (fs pl (holdv K S m)) (OpenStore K S) (\<lambda>_. fs pl (holdv K S m)) (fx pl (holdv K S m))"
proof -
  have call: "triple (fs pl (holdv K S m)) (syscall e) (\<lambda>_. fs pl (holdv K S m)) (fx pl (holdv K S m))" for e
    by (rule fs_call)
  have put: "triple (fs pl (holdv K S m)) (put_io (\<lambda>s. s\<lparr>st_store := f s\<rparr>)) (\<lambda>_. fs pl (holdv K S m)) (fx pl (holdv K S m))"
    if "\<And>s. is_tail (f s) = - 1 \<or> is_tail (f s) = is_tail (st_store s)" for f
  proof (rule triple_put)
    fix s assume "fs pl (holdv K S m) s"
    with that [of s] show "fs pl (holdv K S m) (s\<lparr>st_store := f s\<rparr>)" by (auto simp: fs_def holdv_def)
  qed
  have tail: "triple (fs pl (holdv K S m)) (openTail K S) (\<lambda>_. fs pl (holdv K S m)) (fx pl (holdv K S m))"
    unfolding openTail_def
  proof (rule fs_unlocked)
    show "triple (fs pl (holdv K S m)) (ix_settle K S) (\<lambda>_. fs pl (holdv K S m)) (fx pl (holdv K S m))"
      by (rule triple_conseq [OF fs_settle]) (auto elim: fs_mono dest: ready_holdv)
  qed auto
  show ?thesis
    unfolding OpenStore_def
    by (intro triple_bind [OF call] triple_bind [OF put] triple_bind [OF tail] put) simp_all
qed

end
