(* ===== verification/Index_Spec.thy ===== *)
theory Index_Spec
  imports Ix_Store
begin

text \<open>
  The persisted index as a journal of entries, over any sequence of operations by any
  processes, and what one operation does when nothing fails.
\<close>

section \<open>Any sequence of operations, by any processes\<close>

datatype ix_cmd =
    IxOpen
  | IxAppend "IxEntry list"
  | IxRemove "ID list"
  | IxFold
  | IxCompactIfDue
  | IxHydrate

text \<open>
  One operation as a process brings it to the files: its own \<open>Store\<close>, or \<open>None\<close> for the process
  that ran the operation before it; which of its system calls fail; its random bytes; and what
  it does.
\<close>

record ix_call =
  xp_store :: "IxStore option"
  xp_plan :: "nat \<Rightarrow> fault"
  xp_rand :: "nat \<Rightarrow> bytes"
  xp_cmd :: ix_cmd

definition ix_enter :: "ix_call \<Rightarrow> ix_state \<Rightarrow> ix_state" where
  "ix_enter p s =
     s\<lparr>st_store := (case xp_store p of None \<Rightarrow> st_store s | Some st \<Rightarrow> st),
       mc_plan := xp_plan p, mc_rand := xp_rand p, mc_step := 0\<rparr>"

definition ix_do :: "crypto \<Rightarrow> Sealer \<Rightarrow> ix_cmd \<Rightarrow> unit ix_op" where
  "ix_do K S c =
     (case c of
        IxOpen \<Rightarrow> OpenStore K S
      | IxAppend es \<Rightarrow> IxStore_Append K S es
      | IxRemove ids \<Rightarrow> IxStore_Remove K S ids
      | IxFold \<Rightarrow> IxStore_Fold K S
      | IxCompactIfDue \<Rightarrow> bind_io (CompactIfDue K S) (\<lambda>_. ret_io ())
      | IxHydrate \<Rightarrow> bind_io (IxStore_Hydrate K S) (\<lambda>_. ret_io ()))"

definition ix_step :: "crypto \<Rightarrow> Sealer \<Rightarrow> ix_call \<Rightarrow> ix_state \<Rightarrow> bool \<times> ix_state" where
  "ix_step K S p s = (case ix_do K S (xp_cmd p) (ix_enter p s) of (r, s') \<Rightarrow> (is_ok r, s'))"

text \<open>The entries an operation adds to the delta: only appends and removals add any.\<close>

definition ix_changes :: "ix_call \<Rightarrow> IxEntry list" where
  "ix_changes p = (case xp_cmd p of IxAppend es \<Rightarrow> es | IxRemove ids \<Rightarrow> map Removal ids | _ \<Rightarrow> [])"

text \<open>
  The delta has the size the store last left it at only if it ends where a record ends.
\<close>

definition tail_honest :: "crypto \<Rightarrow> Sealer \<Rightarrow> int \<Rightarrow> bytes \<Rightarrow> bool" where
  "tail_honest K S t d \<longleftrightarrow> (t = int (length d) \<longrightarrow> settled K S d)"

definition vectors_of :: "crypto \<Rightarrow> Sealer \<Rightarrow> ix_state \<Rightarrow> (ID \<rightharpoonup> IxEntry) option" where
  "vectors_of K S s =
     (if delta_ok K S (dk_delta s) \<and> tail_honest K S (is_tail (st_store s)) (dk_delta s)
      then Some (vectors K S (dk_base s) (dk_delta s)) else None)"

definition ix_valid :: "crypto \<Rightarrow> Sealer \<Rightarrow> ix_call \<Rightarrow> ix_state \<Rightarrow> bool" where
  "ix_valid K S p s \<longleftrightarrow>
     keys_ok K S \<and> (\<forall>i. length (xp_rand p i) = NonceSize) \<and> (\<forall>e \<in> set (ix_changes p). ix_entry_ok e) \<and>
     (case xp_store p of None \<Rightarrow> True | Some st \<Rightarrow> tail_honest K S (is_tail st) (dk_delta s))"

lemma vectors_of_holdv:
  "vectors_of K S s = Some m \<longleftrightarrow>
   holdv K S m (dk_base s) (dk_delta s) (is_tail (st_store s)) (dk_next s)"
  by (auto simp: vectors_of_def holdv_def tail_honest_def)

lemma fs_vectors_of: "fs pl (holdv K S m) s \<Longrightarrow> vectors_of K S s = Some m"
  by (simp add: fs_def vectors_of_holdv)

lemma ix_enter_fs:
  "ix_valid K S p s \<Longrightarrow> vectors_of K S s = Some m \<Longrightarrow> fs (xp_plan p) (holdv K S m) (ix_enter p s)"
  by (auto simp: ix_valid_def vectors_of_holdv fs_def ix_enter_def holdv_def tail_honest_def split: option.splits)

lemma fs_do:
  assumes "keys_ok K S" "\<forall>e \<in> set (ix_changes p). ix_entry_ok e"
  shows "triple (fs pl (holdv K S m)) (ix_do K S (xp_cmd p))
    (\<lambda>_. fs pl (holdv K S (note_all (ix_changes p) m))) (fx pl (made_upto K S m (ix_changes p)))"
proof -
  have same: "triple (fs pl (holdv K S m)) c (\<lambda>_. fs pl (holdv K S (note_all [] m))) (fx pl (made_upto K S m []))"
    if "triple (fs pl (holdv K S m)) c (\<lambda>_. fs pl (holdv K S m)) (fx pl (holdv K S m))" for c :: "unit ix_op"
    by (rule triple_conseq [OF that]) (auto elim: fs_mono intro: made_none)
  have hyd: "triple (fs pl (holdv K S m)) (IxStore_Hydrate K S) (\<lambda>_. fs pl (holdv K S m)) (fx pl (holdv K S m))"
    by (rule triple_conseq [OF fs_Hydrate]) auto
  show ?thesis
    using assms(2) same [OF fs_OpenStore] same [OF fs_fold [OF assms(1)]]
      same [OF triple_bind [OF fs_CompactIfDue [OF assms(1)] triple_ret]] same [OF triple_bind [OF hyd triple_ret]]
      fs_Append [OF assms]
    by (cases "xp_cmd p") (simp_all add: ix_do_def ix_changes_def IxStore_Remove_def)
qed

lemma ix_step_outcome:
  assumes "ix_valid K S p s" "vectors_of K S s = Some m" "ix_step K S p s = (ok, s')"
  shows "if ok then vectors_of K S s' = Some (note_all (ix_changes p) m)
    else (\<exists>k. vectors_of K S s' = Some (note_all (take k (ix_changes p)) m)) \<and> \<not> no_faults (xp_plan p)"
proof -
  obtain r where r: "ix_do K S (xp_cmd p) (ix_enter p s) = (r, s')" "ok = is_ok r"
    using assms(3) by (auto simp: ix_step_def split: prod.splits)
  have "keys_ok K S" "\<forall>e \<in> set (ix_changes p). ix_entry_ok e"
    using assms(1) by (simp_all add: ix_valid_def)
  note T = fs_do [OF this, of "xp_plan p" m] and pre = ix_enter_fs [OF assms(1,2)]
  show ?thesis
  proof (cases r)
    case (Inl e)
    then have "fs (xp_plan p) (made_upto K S m (ix_changes p)) s' \<and> \<not> no_faults (xp_plan p)"
      using tripleD(2) [OF T pre] r by blast
    then show ?thesis using r Inl by (auto simp: fs_def made_upto_def vectors_of_holdv)
  next
    case (Inr x)
    then show ?thesis using tripleD(1) [OF T pre] r by (simp add: fs_vectors_of)
  qed
qed

interpretation ixj: journal "vectors_of K S" "ix_step K S" ix_changes note_vec "ix_valid K S" "\<lambda>m. True" for K S
proof
  fix p s m s'
  assume a: "ix_valid K S p s" "vectors_of K S s = Some m"
  show "vectors_of K S s' = Some (note_all (ix_changes p) m)" if "ix_step K S p s = (True, s')"
    using ix_step_outcome [OF a that] by simp
  show "\<exists>k. vectors_of K S s' = Some (note_all (take k (ix_changes p)) m)" if "ix_step K S p s = (False, s')"
    using ix_step_outcome [OF a that] by simp
qed simp

text \<open>
  C8. No acknowledged vector is lost and none is invented. Any processes open the persisted
  index, append, remove, fold, compact and hydrate in any order, with any of their system calls
  failing, so also dying at any point. What the files then hold is what they held, changed by
  the entries of every operation that returned and by a first part of those of each one that
  failed, in order. A process that works alone needs nothing else; one that comes back after
  another must not find the delta at the very size it left it at with an unfinished record at
  its end.
\<close>

theorem vectors_history:
  assumes "valid_run (ix_step K S) (ix_valid K S) ps s" and "vectors_of K S s = Some m"
  shows "\<exists>made. survives ix_changes (fst (run_ops (ix_step K S) ps s)) made \<and>
    vectors_of K S (snd (run_ops (ix_step K S) ps s)) = Some (fold note_vec (concat made) m)"
  using ixj.history [OF assms(1) TrueI assms(2)] by blast

text \<open>
  C9. An operation on the persisted index none of whose system calls fails returns and has its
  whole effect, and a hydration then returns what the files hold: every record once, each with
  the last entry written for it, and none that was removed since. The condition is that of the
  history above: keys and entries are well formed, and a process that comes back after another does
  not find the delta at the very size it left it at with an unfinished record at its end, for then an
  append is acknowledged and has no effect, as is shown below.
\<close>

theorem vectors_return:
  assumes "ix_valid K S p s" and "vectors_of K S s = Some m" and "\<forall>i. xp_plan p i = NoFault"
  shows "\<exists>s' es s''. ix_step K S p s = (True, s') \<and> vectors_of K S s' = Some (fold note_vec (ix_changes p) m) \<and>
    IxStore_Hydrate K S s' = (Inr es, s'') \<and> distinct (map ie_ID es) \<and>
    map_of (map (\<lambda>e. (ie_ID e, e)) es) = fold note_vec (ix_changes p) m"
proof -
  let ?m = "note_all (ix_changes p) m"
  have nf: "no_faults (xp_plan p)" using assms(3) by (simp add: no_faults_def)
  have ok: "keys_ok K S" "\<forall>e \<in> set (ix_changes p). ix_entry_ok e"
    using assms(1) by (simp_all add: ix_valid_def)
  obtain x s' where s': "ix_do K S (xp_cmd p) (ix_enter p s) = (Inr x, s')" "fs (xp_plan p) (holdv K S ?m) s'"
    using triple_returns [OF fs_do [OF ok] ix_enter_fs [OF assms(1,2)]] nf by blast
  obtain es s'' where "IxStore_Hydrate K S s' = (Inr es, s'')" "distinct (map ie_ID es)" "entry_at es = ?m"
    using triple_returns [OF fs_Hydrate s'(2)] nf by blast
  then show ?thesis
    using s' fs_vectors_of [OF s'(2)] by (auto simp: ix_step_def entry_at_def [abs_def])
qed

text \<open>
  A store's own idea of where the delta ends stays honest: from files that hold some
  vectors, whichever of an operation's system calls fail, the store is left so that the delta
  has the size it noted only if the delta ends where a record ends. So a process that keeps
  working, and no other, never mistakes an unfinished record for a finished one.
\<close>

theorem tail_stays_honest:
  assumes "ix_valid K S p s" and "vectors_of K S s = Some m"
  shows "tail_honest K S (is_tail (st_store (snd (ix_step K S p s)))) (dk_delta (snd (ix_step K S p s))) \<and>
    delta_ok K S (dk_delta (snd (ix_step K S p s)))"
proof -
  obtain ok s' where st: "ix_step K S p s = (ok, s')" by (cases "ix_step K S p s")
  have "\<exists>m'. vectors_of K S s' = Some m'"
    using ix_step_outcome [OF assms st] by (auto split: if_splits)
  then show ?thesis by (auto simp: st vectors_of_def split: if_splits)
qed

section \<open>Records of the files\<close>

text \<open>
  C39. An entry survives the files. Whatever the nonce, an entry whose id has 16 bytes and whose
  model name and width fit 16 bits is encoded, and read back as itself wherever a file
  continues; an entry whose declared width is not its vector's is refused; and a record cut at
  any byte reads as nothing.
\<close>

theorem IxEntry_roundtrip:
  assumes "keys_ok K S" and "wf_nonce n"
  shows "(ix_entry_ok e \<longrightarrow> (\<exists>l. ix_encodeEntry K S n e = Inr l \<and>
      (\<forall>rest. ix_readEntries K S (l @ rest) = e # ix_readEntries K S rest) \<and>
      (\<forall>k < length l. ix_readEntries K S (take k l) = []))) \<and>
    (length (ie_Vector e) \<noteq> ie_Dim e \<longrightarrow>
      ix_encodeEntry K S n e = Inl (EntryDims (ie_ID e) (ie_Dim e) (length (ie_Vector e))))"
proof (intro conjI impI)
  assume "ix_entry_ok e"
  then obtain l where l: "ix_encodeEntry K S n e = Inr l" "framed K S l e"
    using ix_encode_framed [of K S n e] assms by (auto simp: keys_ok_def)
  have "ix_readEntries K S (l @ rest) = e # ix_readEntries K S rest" for rest
    using settled_frames(3) [OF settled_snoc(1) [OF settled_Nil l(2)], of rest] settled_snoc(2) [OF settled_Nil l(2)]
    by (simp add: readEntries_frames)
  moreover have "ix_readEntries K S (take k l) = []" if "k < length l" for k
    using settled_torn(2) [OF settled_Nil l(2) that] by (simp add: readEntries_frames)
  ultimately show "\<exists>l. ix_encodeEntry K S n e = Inr l \<and>
      (\<forall>rest. ix_readEntries K S (l @ rest) = e # ix_readEntries K S rest) \<and>
      (\<forall>k < length l. ix_readEntries K S (take k l) = [])"
    using l(1) by blast
qed (simp add: ix_encodeEntry_def)

text \<open>
  A width of 65536 or more is written modulo \<open>2 ^ 16\<close>: the entry is encoded without an
  error, and what was written does not decode, so a file is read no further than it.
\<close>

theorem wide_entry_unreadable:
  assumes "65536 \<le> ie_Dim e" and "length (ie_Vector e) = ie_Dim e" and "wf_id (ie_ID e)"
    and "length (ie_Model e) < 65536"
  shows "ix_decodeEntry (entry_body e) = Inl ErrCorruptIndex"
proof -
  let ?v = "concat (map (\<lambda>v. le_bytes 4 (unat v)) (ie_Vector e))"
  have n: "le_nat (le_bytes 2 (length (ie_Model e))) = length (ie_Model e)"
    "le_nat (le_bytes 2 (ie_Dim e)) = ie_Dim e mod 65536" "length (ie_ID e) = IDSize"
    "length ?v = 4 * ie_Dim e"
    using assms by (simp_all add: wf_id_def length_values le_nat_le_bytes)
  have "drop (2 + length (ie_Model e)) (entry_body e) = le_bytes 2 (ie_Dim e) @ ie_ID e @ ?v"
    by (simp add: entry_body_def)
  moreover have "ie_Dim e mod 65536 \<noteq> ie_Dim e"
    using assms(1) by (metis mod_less_divisor not_less zero_less_numeral)
  ultimately show ?thesis
    using n by (simp add: ix_decodeEntry_def Let_def) (simp add: entry_body_def)
qed

lemma take_le_bytes: "j \<le> k \<Longrightarrow> take j (le_bytes k x) = le_bytes j x"
proof (induction j arbitrary: k x)
  case (Suc j)
  then obtain k' where "k = Suc k'" "j \<le> k'" by (cases k) auto
  with Suc.IH show ?case by simp
qed simp

text \<open>
  The check that settles the end of the delta trusts its size. When another process has
  left an unfinished record there, and the delta has by chance the size this store last left
  it at, an append is acknowledged whose vector no reader finds.
\<close>

theorem equal_size_loses_append:
  assumes "keys_ok K S" and "ix_entry_ok e" and "\<forall>i. mc_plan s i = NoFault"
    and "\<forall>i. length (mc_rand s i) = NonceSize"
    and "dk_base s = None" and "dk_delta s = [0]" and "is_tail (st_store s) = 1"
  shows "\<exists>s' s''. IxStore_Append K S [e] s = (Inr (), s') \<and> IxStore_Hydrate K S s' = (Inr [], s'')"
proof -
  let ?pl = "mc_plan s"
  let ?R = "\<lambda>b d t n. b = None \<and> d = [0] \<and> t = (1 :: int)"
  let ?L = "\<lambda>b d t n. b = None \<and> ix_readEntries K S d = []"
  have nf: "no_faults ?pl" using assms(3) by (simp add: no_faults_def)
  have R: "fs ?pl ?R s" using assms by (simp add: fs_def)
  have lost: "ix_readEntries K S (0 # l) = []" if l: "framed K S l e" "length l < 1000000" for l
  proof -
    obtain b where b: "l = line_bytes b" "wf_sealed b" using l(1) by (auto simp: framed_def)
    have p: "take 4 (0 # l) = 0 # le_bytes 3 (length b)"
      using take_le_bytes [of 3 4 "length b"] by (simp add: b(1) line_bytes_def take_Cons')
    moreover have "le_nat (le_bytes 3 (length b)) = length b"
      using l(2) b by (intro le_nat_le_bytes_small) (simp add: line_bytes_def)
    moreover have "length (drop 4 (0 # l)) = Suc (length b)" by (simp add: b(1) line_bytes_def)
    moreover have "Suc 0 < 255 * length b" using b(2) by (cases b) (simp_all add: wf_sealed_def)
    ultimately have "ix_frames (0 # l) = ([], 0 # l)"
      using b(2) by (subst ix_frames.simps) (auto simp: Let_def wf_sealed_def)
    then show ?thesis by (simp add: readEntries_frames)
  qed
  have settle: "triple (fs ?pl ?R) (ix_settle K S) (\<lambda>r. fs ?pl ?R) (fx ?pl (\<lambda>_ _ _ _. True))"
    unfolding ix_settle_def
    by (rule triple_bind [OF fs_call], simp, rule triple_bind_get [where a = "(1, 1)"])
      (auto simp: fs_def intro!: triple_ret)
  have written: "triple (fs ?pl ?R) (catch_io (write_delta l) (\<lambda>err. fail_after err (ix_cut r)))
      (\<lambda>_. fs ?pl ?L) (fx ?pl (\<lambda>_ _ _ _. True))" if "framed K S l e" "length l < 1000000" for l r
  proof (rule triple_catch [where E' = "fx ?pl (\<lambda>_ _ _ _. True)"])
    show "triple (fs ?pl ?R) (write_delta l) (\<lambda>_. fs ?pl ?L) (fx ?pl (\<lambda>_ _ _ _. True))"
      by (rule fs_write_delta) (use lost [OF that] in auto)
  qed (use nf in \<open>simp add: triple_def\<close>)
  have one: "triple (fs ?pl ?R) (append_loop K S [e] r) (\<lambda>_. fs ?pl ?L) (fx ?pl (\<lambda>_ _ _ _. True))" for r
    unfolding append_loop.simps
  proof (rule triple_bind [OF fs_encode_small [OF assms(1,2)]], simp, rule triple_assume, elim conjE)
    fix l assume l: "framed K S l e" "length l < 1000000"
    show "triple (fs ?pl ?R) (bind_io (catch_io (write_delta l) (\<lambda>err. fail_after err (ix_cut r))) (\<lambda>_.
        bind_io (put_io (delta_counted (r + length l) (length l))) (\<lambda>_. ret_io ())))
        (\<lambda>_. fs ?pl ?L) (fx ?pl (\<lambda>_ _ _ _. True))"
      by (intro triple_bind [OF written [OF l]] triple_bind [OF triple_put] triple_ret)
        (auto simp: fs_def delta_counted_def)
  qed
  have "triple (fs ?pl ?R)
      (bind_io (ix_settle K S) (\<lambda>pos. bind_io (append_loop K S [e] pos) (\<lambda>_. syscall (IxFailed ''sync''))))
      (\<lambda>_. fs ?pl ?L) (fx ?pl (\<lambda>_ _ _ _. True))"
    by (intro triple_bind [OF settle] triple_bind [OF one] fs_call) simp
  from fs_unlocked [OF this TrueI fs_stable fs_mono [OF _ TrueI]]
  have "triple (fs ?pl ?R) (IxStore_Append K S [e]) (\<lambda>_. fs ?pl ?L) (fx ?pl (\<lambda>_ _ _ _. True))"
    by (simp add: IxStore_Append_def)
  from triple_returns [OF this R] nf obtain s' where
    s': "IxStore_Append K S [e] s = (Inr (), s')" "fs ?pl ?L s'" by auto
  let ?X = "fixed None (dk_delta s') ?L"
  have X: "fs ?pl ?X s'" and empty: "ix_readEntries K S (dk_delta s') = []"
    using s'(2) by (simp_all add: fs_def fixed_def)
  have hyd: "triple (fs ?pl ?X) (IxStore_Hydrate K S)
      (\<lambda>r s. fs ?pl ?X s \<and> r = hydrated (base_entries K S None) (ix_readEntries K S (dk_delta s')))
      (fx ?pl (\<lambda>_ _ _ _. True))"
    unfolding IxStore_Hydrate_def
    by (rule fs_unlocked [OF fs_hydrate]) (auto intro!: stable_and elim: fs_mono)
  obtain r s'' where "IxStore_Hydrate K S s' = (Inr r, s'')"
    "r = hydrated (base_entries K S None) (ix_readEntries K S (dk_delta s'))"
    using triple_returns [OF hyd X] nf by auto
  then show ?thesis using s'(1) by (simp add: empty base_entries_def hydrated_def)
qed

section \<open>Witnesses\<close>

definition sample_vector :: IxEntry where
  "sample_vector = \<lparr>ie_ID = sample_id 1, ie_Model = ''m'', ie_Dim = 1, ie_Vector = [1065353216]\<rparr>"

definition sample_ix_state :: ix_state where
  "sample_ix_state =
     \<lparr>mc_plan = (\<lambda>_. NoFault), mc_rand = (\<lambda>_. replicate 24 0), mc_step = 0,
      st_store = \<lparr>is_baseBytes = 0, is_deltaBytes = 0, is_written = 0, is_compactions = 0, is_tail = - 1\<rparr>,
      dk_delta = [], dk_base = None, dk_next = None\<rparr>"

definition sample_ix_call :: "ix_cmd \<Rightarrow> ix_call" where
  "sample_ix_call c =
     \<lparr>xp_store = None, xp_plan = (\<lambda>_. NoFault), xp_rand = (\<lambda>_. replicate 24 0), xp_cmd = c\<rparr>"

lemma sample_keys_ok: "keys_ok sample_crypto sample_sealer"
  using sample_crypto_ok sample_sealer_ok
  by (auto simp: keys_ok_def zstd_bounded_def sample_crypto_def)

lemma sample_vectors: "vectors_of sample_crypto sample_sealer sample_ix_state = Some Map.empty"
  by (simp add: vectors_of_def sample_ix_state_def delta_ok_def tail_honest_def vectors_def base_entries_def
      readEntries_frames)

lemma sample_vector_ok: "ix_entry_ok sample_vector"
  by (simp add: ix_entry_ok_def sample_vector_def)

lemma sample_ix_valid:
  "ix_valid sample_crypto sample_sealer (sample_ix_call IxOpen) s"
  "ix_valid sample_crypto sample_sealer (sample_ix_call (IxAppend [sample_vector])) s"
  "ix_valid sample_crypto sample_sealer (sample_ix_call IxFold) s"
  using sample_keys_ok sample_vector_ok
  by (simp_all add: ix_valid_def sample_ix_call_def ix_changes_def NonceSize_def)

theorem IxEntry_roundtrip_witness:
  "\<exists>l. ix_encodeEntry sample_crypto sample_sealer (Some (replicate 24 0)) sample_vector = Inr l \<and>
     ix_readEntries sample_crypto sample_sealer (l @ [1, 2, 3]) =
       sample_vector # ix_readEntries sample_crypto sample_sealer [1, 2, 3]"
  using IxEntry_roundtrip [OF sample_keys_ok, of "Some (replicate 24 0)" sample_vector] sample_vector_ok
  by (auto simp: wf_nonce_def NonceSize_def)

theorem wide_entry_unreadable_witness:
  "ix_decodeEntry (entry_body \<lparr>ie_ID = sample_id 1, ie_Model = ''m'', ie_Dim = 65536,
     ie_Vector = replicate 65536 0\<rparr>) = Inl ErrCorruptIndex"
  by (rule wide_entry_unreadable) simp_all

definition sample_torn_state :: ix_state where
  "sample_torn_state = sample_ix_state\<lparr>dk_delta := [0],
     st_store := (st_store sample_ix_state)\<lparr>is_tail := 1\<rparr>\<rparr>"

theorem equal_size_loses_append_witness:
  "\<exists>s' s''. IxStore_Append sample_crypto sample_sealer [sample_vector] sample_torn_state = (Inr (), s') \<and>
     IxStore_Hydrate sample_crypto sample_sealer s' = (Inr [], s'')"
  by (rule equal_size_loses_append [OF sample_keys_ok sample_vector_ok])
    (simp_all add: sample_torn_state_def sample_ix_state_def NonceSize_def)

theorem vectors_history_witness:
  "\<exists>made. survives ix_changes (fst (run_ops (ix_step sample_crypto sample_sealer)
       [sample_ix_call IxOpen, sample_ix_call (IxAppend [sample_vector]), sample_ix_call IxFold] sample_ix_state)) made \<and>
     vectors_of sample_crypto sample_sealer (snd (run_ops (ix_step sample_crypto sample_sealer)
       [sample_ix_call IxOpen, sample_ix_call (IxAppend [sample_vector]), sample_ix_call IxFold] sample_ix_state)) =
       Some (fold note_vec (concat made) Map.empty)"
  using sample_ix_valid by (intro vectors_history sample_vectors) simp

theorem vectors_return_witness:
  "\<exists>s' es s''. ix_step sample_crypto sample_sealer (sample_ix_call (IxAppend [sample_vector])) sample_ix_state = (True, s') \<and>
     IxStore_Hydrate sample_crypto sample_sealer s' = (Inr es, s'') \<and>
     map_of (map (\<lambda>e. (ie_ID e, e)) es) (sample_id 1) = Some sample_vector"
proof -
  have m: "fold note_vec (ix_changes (sample_ix_call (IxAppend [sample_vector]))) Map.empty = [sample_id 1 \<mapsto> sample_vector]"
    by (simp add: ix_changes_def sample_ix_call_def note_vec_def IxEntry_Removed_def sample_vector_def)
  have "\<forall>i. xp_plan (sample_ix_call (IxAppend [sample_vector])) i = NoFault"
    by (simp add: sample_ix_call_def)
  from vectors_return [OF sample_ix_valid(2) sample_vectors this] obtain s' es s'' where
    "ix_step sample_crypto sample_sealer (sample_ix_call (IxAppend [sample_vector])) sample_ix_state = (True, s')"
    "IxStore_Hydrate sample_crypto sample_sealer s' = (Inr es, s'')"
    "map_of (map (\<lambda>e. (ie_ID e, e)) es) = [sample_id 1 \<mapsto> sample_vector]"
    unfolding m by blast
  then show ?thesis by (intro exI conjI) (assumption | simp)+
qed

theorem tail_stays_honest_witness:
  "delta_ok sample_crypto sample_sealer (dk_delta (snd (ix_step sample_crypto sample_sealer
     (sample_ix_call (IxAppend [sample_vector])) sample_ix_state)))"
  using tail_stays_honest [OF sample_ix_valid(2) sample_vectors] by blast

end
