(* ===== verification/Go_Heap.thy ===== *)
theory Go_Heap
  imports Prelude
begin

text \<open>
  Go's \<open>container/heap\<close> over a slice: \<open>up\<close> and \<open>down\<close> with the library's choice of child, and
  \<open>Push\<close>, \<open>Pop\<close> and \<open>Fix\<close> composed of them, for any comparison. The locale \<open>keyed\<close> is what a
  client of the heap has to provide: on the elements it puts in, the comparison is that of a
  key. A comparison of floating-point scores is one only where no score is a NaN, which is
  why the elements are restricted.
\<close>

section \<open>Operations\<close>

definition swap :: "nat \<Rightarrow> nat \<Rightarrow> 'a list \<Rightarrow> 'a list" where
  "swap i j xs = xs[i := xs ! j, j := xs ! i]"

function heap_up :: "('a \<Rightarrow> 'a \<Rightarrow> bool) \<Rightarrow> 'a list \<Rightarrow> nat \<Rightarrow> 'a list" where
  "heap_up before xs j =
     (let i = (j - 1) div 2 in
      if i = j \<or> \<not> before (xs ! j) (xs ! i) then xs else heap_up before (swap i j xs) i)"
  by pat_completeness auto
termination
  by (relation "measure (\<lambda>(before, xs, j). j)") auto

function heap_down :: "('a \<Rightarrow> 'a \<Rightarrow> bool) \<Rightarrow> 'a list \<Rightarrow> nat \<Rightarrow> nat \<Rightarrow> 'a list \<times> nat" where
  "heap_down before xs i n =
     (let j1 = 2 * i + 1 in
      if j1 \<ge> n then (xs, i)
      else
        (let j = (if j1 + 1 < n \<and> before (xs ! (j1 + 1)) (xs ! j1) then j1 + 1 else j1) in
         if \<not> before (xs ! j) (xs ! i) then (xs, i) else heap_down before (swap i j xs) j n))"
  by pat_completeness auto
termination
  by (relation "measure (\<lambda>(before, xs, i, n). n - i)") (auto simp: Let_def)

declare heap_up.simps [simp del] heap_down.simps [simp del]

definition heap_Push :: "('a \<Rightarrow> 'a \<Rightarrow> bool) \<Rightarrow> 'a \<Rightarrow> 'a list \<Rightarrow> 'a list" where
  "heap_Push before x h = heap_up before (h @ [x]) (length h)"

definition heap_Pop :: "('a \<Rightarrow> 'a \<Rightarrow> bool) \<Rightarrow> 'a list \<Rightarrow> 'a \<times> 'a list" where
  "heap_Pop before h =
     (let n = length h - 1; h' = fst (heap_down before (swap 0 n h) 0 n) in (h' ! n, take n h'))"

definition heap_Fix :: "('a \<Rightarrow> 'a \<Rightarrow> bool) \<Rightarrow> 'a list \<Rightarrow> nat \<Rightarrow> 'a list" where
  "heap_Fix before h i =
     (let (h', i') = heap_down before h i (length h) in if i' > i then h' else heap_up before h' i)"

section \<open>The elements are kept\<close>

lemma length_swap [simp]: "length (swap i j xs) = length xs"
  by (simp add: swap_def)

lemma mset_swap [simp]: "i < length xs \<Longrightarrow> j < length xs \<Longrightarrow> mset (swap i j xs) = mset xs"
  by (simp add: swap_def mset_swap)

lemma set_swap [simp]: "i < length xs \<Longrightarrow> j < length xs \<Longrightarrow> set (swap i j xs) = set xs"
  by (metis mset_swap set_mset_mset)

lemma nth_swap:
  "i < length xs \<Longrightarrow> j < length xs \<Longrightarrow>
   swap i j xs ! k = (if k = j then xs ! i else if k = i then xs ! j else xs ! k)"
  by (cases "k = j"; cases "k = i") (simp_all add: swap_def)

lemma mset_heap_up [simp]: "j < length xs \<Longrightarrow> mset (heap_up before xs j) = mset xs"
  by (induction before xs j rule: heap_up.induct) (subst heap_up.simps, auto simp: Let_def)

lemma length_heap_up [simp]: "j < length xs \<Longrightarrow> length (heap_up before xs j) = length xs"
  using mset_heap_up [of j xs before] by (metis size_mset)

lemma heap_up_0 [simp]: "heap_up before xs 0 = xs"
  by (simp add: heap_up.simps)

lemma heap_down_frame:
  "n \<le> length xs \<Longrightarrow> i < length xs \<Longrightarrow>
   mset (fst (heap_down before xs i n)) = mset xs \<and>
   (\<forall>k \<ge> max n (i + 1). fst (heap_down before xs i n) ! k = xs ! k)"
proof (induction before xs i n rule: heap_down.induct)
  case (1 before xs i n)
  define j where
    "j = (if 2 * i + 1 + 1 < n \<and> before (xs ! (2 * i + 1 + 1)) (xs ! (2 * i + 1)) then 2 * i + 1 + 1 else 2 * i + 1)"
  show ?case
  proof (cases "2 * i + 1 \<ge> n \<or> \<not> before (xs ! j) (xs ! i)")
    case True
    then show ?thesis by (subst (1 2) heap_down.simps) (auto simp: Let_def j_def)
  next
    case False
    then have j: "j < n" "i < j" and d: "heap_down before xs i n = heap_down before (swap i j xs) j n"
      by (auto simp: heap_down.simps [of before xs] Let_def j_def)
    have "mset (fst (heap_down before (swap i j xs) j n)) = mset (swap i j xs) \<and>
        (\<forall>k \<ge> max n (j + 1). fst (heap_down before (swap i j xs) j n) ! k = swap i j xs ! k)"
      using False j "1.prems" by (intro "1.IH" [OF refl _ j_def]) auto
    with j "1.prems" show ?thesis by (simp add: d nth_swap)
  qed
qed

lemma mset_heap_down [simp]:
  "n \<le> length xs \<Longrightarrow> i < length xs \<Longrightarrow> mset (fst (heap_down before xs i n)) = mset xs"
  using heap_down_frame by blast

lemma length_heap_down [simp]:
  "n \<le> length xs \<Longrightarrow> i < length xs \<Longrightarrow> length (fst (heap_down before xs i n)) = length xs"
  using mset_heap_down by (metis size_mset)

lemma mset_Push [simp]: "mset (heap_Push before x h) = add_mset x (mset h)"
  by (simp add: heap_Push_def)

lemma length_Push [simp]: "length (heap_Push before x h) = Suc (length h)"
  by (simp add: heap_Push_def)

lemma heap_Fix_0: "h \<noteq> [] \<Longrightarrow> heap_Fix before h 0 = fst (heap_down before h 0 (length h))"
  by (simp add: heap_Fix_def split: prod.split)

lemma mset_Fix_0: "h \<noteq> [] \<Longrightarrow> mset (heap_Fix before h 0) = mset h"
  by (simp add: heap_Fix_0)

lemma mset_Pop:
  assumes "h \<noteq> []" "heap_Pop before h = (x, h')"
  shows "mset h = add_mset x (mset h')"
proof -
  define n where "n = length h - 1"
  define d where "d = fst (heap_down before (swap 0 n h) 0 n)"
  have n: "length h = Suc n" using assms(1) by (simp add: n_def)
  then have "mset d = mset h" "length d = Suc n" by (simp_all add: d_def)
  moreover have "x = d ! n" "h' = take n d"
    using assms(2) by (simp_all add: heap_Pop_def Let_def n_def d_def)
  ultimately show ?thesis by (metis add_mset_add_single lessI mset.simps(2) mset_append take_Suc_conv_app_nth
        take_all order_refl mset.simps(1))
qed

section \<open>The order of a heap\<close>

definition heap_parent :: "nat \<Rightarrow> nat" where
  "heap_parent c = (c - 1) div 2"

lemma parent_less: "0 < c \<Longrightarrow> heap_parent c < c"
  by (auto simp: heap_parent_def)

lemma parent_iff: "0 < c \<Longrightarrow> heap_parent c = i \<longleftrightarrow> c = 2 * i + 1 \<or> c = 2 * i + 2"
  by (auto simp: heap_parent_def)

locale keyed =
  fixes before :: "'a \<Rightarrow> 'a \<Rightarrow> bool"
    and key :: "'a \<Rightarrow> int"
    and good :: "'a \<Rightarrow> bool"
  assumes less_key: "good a \<Longrightarrow> good b \<Longrightarrow> before a b \<longleftrightarrow> key a < key b"
begin

definition ordered :: "nat \<Rightarrow> 'a list \<Rightarrow> bool" where
  "ordered n xs \<longleftrightarrow> (\<forall>c. 0 < c \<and> c < n \<longrightarrow> key (xs ! heap_parent c) \<le> key (xs ! c))"

text \<open>Ordered but for the element at \<open>j\<close>, which may be smaller than its parent.\<close>

definition rising :: "'a list \<Rightarrow> nat \<Rightarrow> bool" where
  "rising xs j \<longleftrightarrow>
     (\<forall>c. 0 < c \<and> c < length xs \<longrightarrow>
        (c \<noteq> j \<longrightarrow> key (xs ! heap_parent c) \<le> key (xs ! c)) \<and>
        (heap_parent c = j \<and> 0 < j \<longrightarrow> key (xs ! heap_parent j) \<le> key (xs ! c)))"

text \<open>Ordered but for the element at \<open>i\<close>, which may be larger than its children.\<close>

definition sinking :: "'a list \<Rightarrow> nat \<Rightarrow> nat \<Rightarrow> bool" where
  "sinking xs i n \<longleftrightarrow>
     (\<forall>c. 0 < c \<and> c < n \<longrightarrow>
        (heap_parent c \<noteq> i \<longrightarrow> key (xs ! heap_parent c) \<le> key (xs ! c)) \<and>
        (heap_parent c = i \<and> 0 < i \<longrightarrow> key (xs ! heap_parent i) \<le> key (xs ! c)))"

lemma heap_min:
  assumes "ordered n xs" "c < n"
  shows "key (xs ! 0) \<le> key (xs ! c)"
  using assms(2)
proof (induction c rule: less_induct)
  case (less c)
  show ?case
  proof (cases "c = 0")
    case False
    then have p: "heap_parent c < c" by (simp add: parent_less)
    with less have "key (xs ! 0) \<le> key (xs ! heap_parent c)" by simp
    also have "\<dots> \<le> key (xs ! c)" using assms(1) less.prems False by (simp add: ordered_def)
    finally show ?thesis .
  qed simp
qed

lemma ordered_up:
  "\<forall>x \<in> set xs. good x \<Longrightarrow> j < length xs \<Longrightarrow> rising xs j \<Longrightarrow>
   ordered (length xs) (heap_up before xs j)"
proof (induction j arbitrary: xs rule: less_induct)
  case (less j)
  define i where "i = (j - 1) div 2"
  have i: "i = heap_parent j" by (simp add: i_def heap_parent_def)
  show ?case
  proof (cases "i = j \<or> \<not> before (xs ! j) (xs ! i)")
    case True
    then have up: "heap_up before xs j = xs" by (simp add: heap_up.simps [of before xs j] i_def)
    have "key (xs ! heap_parent j) \<le> key (xs ! j)"
    proof (cases "i = j")
      case False
      then have "i < length xs" using less.prems(2) by (auto simp: i_def)
      with True False less.prems(1,2) show ?thesis by (simp add: less_key i)
    qed (simp add: i)
    with less.prems(3) show ?thesis
      unfolding up ordered_def rising_def by metis
  next
    case False
    then have j: "0 < j" "i < j" by (auto simp: i_def)
    have il: "i < length xs" using j less.prems(2) by simp
    let ?y = "swap i j xs"
    have lt: "key (xs ! j) < key (xs ! i)" using False less.prems(1,2) il by (simp add: less_key)
    note n = nth_swap [OF il less.prems(2)]
    have "rising ?y i"
      unfolding rising_def
    proof (intro allI impI conjI)
      fix c assume c: "0 < c \<and> c < length ?y"
      have r: "c \<noteq> j \<Longrightarrow> key (xs ! heap_parent c) \<le> key (xs ! c)"
        "heap_parent c = j \<Longrightarrow> key (xs ! heap_parent j) \<le> key (xs ! c)"
        using less.prems(3) c j by (simp_all add: rising_def)
      have ne: "heap_parent c \<noteq> c" using c parent_less [of c] by simp
      show "key (?y ! heap_parent c) \<le> key (?y ! c)" if "c \<noteq> i"
        using that r lt ne i j unfolding n by auto
      show "key (?y ! heap_parent i) \<le> key (?y ! c)" if "heap_parent c = i \<and> 0 < i"
      proof -
        have pi: "heap_parent i < i" using that by (simp add: parent_less)
        have "key (xs ! heap_parent i) \<le> key (xs ! i)"
          using less.prems(3) il that j by (simp add: rising_def)
        moreover have "key (xs ! i) \<le> key (xs ! c)" if "c \<noteq> j" using r(1) that \<open>heap_parent c = i \<and> 0 < i\<close> by simp
        ultimately show ?thesis using that pi j c ne by (auto simp: n)
      qed
    qed
    then have "ordered (length ?y) (heap_up before ?y i)"
      using less.prems(1,2) il j by (intro less.IH) simp_all
    then show ?thesis using False by (simp add: heap_up.simps [of before xs j] i_def Let_def)
  qed
qed

lemma ordered_down:
  "\<forall>x \<in> set xs. good x \<Longrightarrow> n \<le> length xs \<Longrightarrow> i < length xs \<Longrightarrow> sinking xs i n \<Longrightarrow>
   ordered n (fst (heap_down before xs i n))"
proof (induction "n - i" arbitrary: xs i rule: less_induct)
  case (less i xs)
  define j where
    "j = (if 2 * i + 1 + 1 < n \<and> before (xs ! (2 * i + 1 + 1)) (xs ! (2 * i + 1)) then 2 * i + 1 + 1 else 2 * i + 1)"
  have child: "key (xs ! j) \<le> key (xs ! c)" if "0 < c" "c < n" "heap_parent c = i" for c
    using that less.prems(1,2) by (auto simp: parent_iff j_def less_key)
  show ?case
  proof (cases "2 * i + 1 \<ge> n \<or> \<not> before (xs ! j) (xs ! i)")
    case True
    then have d: "fst (heap_down before xs i n) = xs"
      by (subst heap_down.simps) (auto simp: Let_def j_def)
    have "key (xs ! i) \<le> key (xs ! c)" if c: "0 < c" "c < n" "heap_parent c = i" for c
    proof -
      have "2 * i + 1 < n" using c by (auto simp: parent_iff)
      moreover from this have "j < n" by (simp add: j_def)
      ultimately have "key (xs ! i) \<le> key (xs ! j)"
        using True less.prems(1,2,3) by (simp add: less_key)
      with child [OF c] show ?thesis by simp
    qed
    with less.prems(4) show ?thesis
      unfolding d ordered_def sinking_def by metis
  next
    case False
    then have j: "j < n" "i < j" "heap_parent j = i" "j < length xs"
      and d: "heap_down before xs i n = heap_down before (swap i j xs) j n"
      using less.prems(2) by (auto simp: heap_down.simps [of before xs] Let_def j_def heap_parent_def)
    let ?y = "swap i j xs"
    have lt: "key (xs ! j) < key (xs ! i)" using False less.prems(1,3) j by (simp add: less_key)
    note n = nth_swap [OF less.prems(3) j(4)]
    have "sinking ?y j n"
      unfolding sinking_def
    proof (intro allI impI conjI)
      fix c assume c: "0 < c \<and> c < n"
      have s: "heap_parent c \<noteq> i \<Longrightarrow> key (xs ! heap_parent c) \<le> key (xs ! c)"
        "heap_parent c = i \<Longrightarrow> 0 < i \<Longrightarrow> key (xs ! heap_parent i) \<le> key (xs ! c)"
        using less.prems(4) c by (simp_all add: sinking_def)
      have ne: "heap_parent c < c" using c parent_less [of c] by simp
      show "key (?y ! heap_parent c) \<le> key (?y ! c)" if p: "heap_parent c \<noteq> j"
      proof (cases "heap_parent c = i")
        case True
        with child c lt ne show ?thesis by (auto simp: n)
      next
        case no: False
        show ?thesis
        proof (cases "c = i")
          case True
          with ne c have "key (xs ! heap_parent i) \<le> key (xs ! j)"
            using less.prems(4) j by (simp add: sinking_def)
          with True p ne j show ?thesis by (simp add: n)
        next
          case False
          with no s(1) p j show ?thesis by (auto simp: n)
        qed
      qed
      show "key (?y ! heap_parent j) \<le> key (?y ! c)" if "heap_parent c = j \<and> 0 < j"
        using that s(1) j ne by (auto simp: n)
    qed
    moreover have "n - j < n - i" using j by simp
    ultimately have "ordered n (fst (heap_down before ?y j n))"
      using less.prems(1,2,3) j by (intro less.hyps) simp_all
    then show ?thesis by (simp add: d)
  qed
qed

subsection \<open>What a client relies on\<close>

definition heap :: "'a list \<Rightarrow> bool" where
  "heap h \<longleftrightarrow> (\<forall>x \<in> set h. good x) \<and> ordered (length h) h"

lemma heap_Nil: "heap []"
  by (simp add: heap_def ordered_def)

lemma heap_head: "heap h \<Longrightarrow> x \<in> set h \<Longrightarrow> key (h ! 0) \<le> key x"
  unfolding heap_def in_set_conv_nth by (blast intro: heap_min)

lemma heap_Push_heap: "heap h \<Longrightarrow> good x \<Longrightarrow> heap (heap_Push before x h)"
proof -
  assume h: "heap h" "good x"
  have "rising (h @ [x]) (length h)"
    unfolding rising_def
  proof (intro allI impI conjI)
    fix c assume c: "0 < c \<and> c < length (h @ [x])"
    then have p: "heap_parent c < c" by (simp add: parent_less)
    show "key ((h @ [x]) ! heap_parent c) \<le> key ((h @ [x]) ! c)" if "c \<noteq> length h"
      using that c p h by (simp add: nth_append heap_def ordered_def)
    show "key ((h @ [x]) ! heap_parent (length h)) \<le> key ((h @ [x]) ! c)"
      if "heap_parent c = length h \<and> 0 < length h"
      using that c p by simp
  qed
  then have "ordered (length (h @ [x])) (heap_Push before x h)"
    using h unfolding heap_Push_def by (intro ordered_up) (auto simp: heap_def)
  moreover have "set (heap_Push before x h) = insert x (set h)"
    using mset_Push [of before x h] by (metis set_mset_add_mset_insert set_mset_mset)
  ultimately show ?thesis using h by (simp add: heap_def)
qed

lemma ordered_sinking: "ordered n xs \<Longrightarrow> sinking (xs[0 := x]) 0 n"
  unfolding ordered_def sinking_def
  by (intro allI impI conjI) (auto simp: nth_list_update_neq)

lemma heap_Fix_heap:
  assumes "heap h" "h \<noteq> []" "good x"
  shows "heap (heap_Fix before (h[0 := x]) 0) \<and> mset (heap_Fix before (h[0 := x]) 0) = mset (h[0 := x])"
proof -
  have g: "\<forall>y \<in> set (h[0 := x]). good y"
    using assms set_update_subset_insert [of h 0 x] by (auto simp: heap_def)
  have "ordered (length h) (fst (heap_down before (h[0 := x]) 0 (length h)))"
    using assms g by (intro ordered_down ordered_sinking) (auto simp: heap_def)
  moreover have m: "mset (fst (heap_down before (h[0 := x]) 0 (length h))) = mset (h[0 := x])"
    using assms(2) by simp
  moreover have "set (fst (heap_down before (h[0 := x]) 0 (length h))) = set (h[0 := x])"
    using m by (metis set_mset_mset)
  ultimately show ?thesis using assms(2) g by (simp add: heap_Fix_0 heap_def)
qed

lemma heap_Pop_heap:
  assumes "heap h" "h \<noteq> []" "heap_Pop before h = (x, h')"
  shows "x = h ! 0 \<and> mset h = add_mset x (mset h') \<and> heap h'"
proof -
  define n where "n = length h - 1"
  define y where "y = swap 0 n h"
  define d where "d = fst (heap_down before y 0 n)"
  have n: "length h = Suc n" using assms(2) by (simp add: n_def)
  have y: "mset y = mset h" "length y = Suc n" "set y = set h" "y ! n = h ! 0"
    using n by (simp_all add: y_def nth_swap)
  have p: "x = d ! n" "h' = take n d"
    using assms(3) by (simp_all add: heap_Pop_def Let_def n_def y_def d_def)
  have dn: "d ! n = y ! n"
  proof (cases "n = 0")
    case True
    then show ?thesis by (simp add: d_def heap_down.simps [of before y 0 0])
  next
    case False
    then show ?thesis using heap_down_frame [of n y 0 before] y(2) by (auto simp: d_def)
  qed
  have md: "mset d = mset h" "length d = Suc n" using y by (simp_all add: d_def)
  have "sinking y 0 n"
    unfolding sinking_def
  proof (intro allI impI conjI)
    fix c assume c: "0 < c \<and> c < n"
    then have "heap_parent c < c" by (simp add: parent_less)
    then show "key (y ! heap_parent c) \<le> key (y ! c)" if "heap_parent c \<noteq> 0"
      using assms(1) n c that by (simp add: heap_def ordered_def y_def nth_swap)
  qed simp
  then have o: "ordered n d"
    using assms(1) y unfolding d_def by (intro ordered_down) (auto simp: heap_def)
  have cut: "d = h' @ [x]" using md(2) p by (metis lessI take_Suc_conv_app_nth take_all order_refl)
  have "set d = set h" using md(1) by (metis set_mset_mset)
  moreover have "ordered n h'"
    unfolding ordered_def
  proof (intro allI impI)
    fix c assume c: "0 < c \<and> c < n"
    then have "heap_parent c < c" by (simp add: parent_less)
    then show "key (h' ! heap_parent c) \<le> key (h' ! c)" using o c by (simp add: ordered_def p)
  qed
  moreover have "length h' = n" using p md(2) by simp
  ultimately have "heap h'" using assms(1) cut by (auto simp: heap_def)
  moreover have "mset h = add_mset x (mset h')" using md(1) cut by simp
  ultimately show ?thesis using p dn y(4) by simp
qed

end

end
