(* ===== verification/Ix_Core.thy ===== *)
theory Ix_Core
  imports Rec_Core Go_Heap "HOL-Library.Multiset"
begin

text \<open>
  Package \<open>index\<close>, the vectors in memory and the search over them (\<open>index/index.go\<close>,
  \<open>index/search.go\<close>). The matrix is one slice of \<open>dim\<close> floats per record, beside the ids and
  a map from an id to its row. \<open>ix_map\<close> is what it stands for, a map from ids to vectors.

  Scores are \<open>float32\<close> bit patterns; each product and each sum of \<open>dot\<close> is rounded on its own.
\<close>

section \<open>The matrix\<close>

record Index =
  ix_dim :: nat
  ix_model :: string
  ix_ids :: "ID list"
  ix_vectors :: "float32 list"
  ix_at :: "ID \<rightharpoonup> nat"

definition Index_New :: "string \<Rightarrow> nat \<Rightarrow> Index" where
  "Index_New model dim =
     \<lparr>ix_dim = dim, ix_model = model, ix_ids = [], ix_vectors = [], ix_at = Map.empty\<rparr>"

definition Index_Len :: "Index \<Rightarrow> nat" where
  "Index_Len ix = length (ix_ids ix)"

datatype index_error =
    ErrForeignModel string string
  | VectorDim nat nat
  | QueryDim nat nat

text \<open>\<open>copy(dst[lo:hi], src)\<close>.\<close>

definition copy_range :: "nat \<Rightarrow> nat \<Rightarrow> 'a list \<Rightarrow> 'a list \<Rightarrow> 'a list" where
  "copy_range lo hi src dst =
     (let n = min (hi - lo) (length src) in take lo dst @ take n src @ drop (lo + n) dst)"

definition Index_Add :: "Index \<Rightarrow> ID \<Rightarrow> string \<Rightarrow> float32 list \<Rightarrow> (index_error, Index) result" where
  "Index_Add ix i model vector =
     (if model \<noteq> ix_model ix then Inl (ErrForeignModel (ix_model ix) model)
      else if length vector \<noteq> ix_dim ix then Inl (VectorDim (ix_dim ix) (length vector))
      else case ix_at ix i of
        Some position \<Rightarrow>
          Inr (ix\<lparr>ix_vectors :=
            copy_range (position * ix_dim ix) ((position + 1) * ix_dim ix) vector (ix_vectors ix)\<rparr>)
      | None \<Rightarrow>
          Inr (ix\<lparr>ix_at := (ix_at ix)(i \<mapsto> length (ix_ids ix)), ix_ids := ix_ids ix @ [i],
                  ix_vectors := ix_vectors ix @ vector\<rparr>))"

definition move_last :: "nat \<Rightarrow> nat \<Rightarrow> Index \<Rightarrow> Index" where
  "move_last position lst ix =
     (let moved = ix_ids ix ! lst in
      ix\<lparr>ix_ids := (ix_ids ix)[position := moved], ix_at := (ix_at ix)(moved \<mapsto> position),
         ix_vectors := copy_range (position * ix_dim ix) ((position + 1) * ix_dim ix)
           (drop (lst * ix_dim ix) (ix_vectors ix)) (ix_vectors ix)\<rparr>)"

definition Index_Remove :: "Index \<Rightarrow> ID \<Rightarrow> bool \<times> Index" where
  "Index_Remove ix i =
     (case ix_at ix i of
        None \<Rightarrow> (False, ix)
      | Some position \<Rightarrow>
          (let lst = length (ix_ids ix) - 1;
               ix' = (if position \<noteq> lst then move_last position lst ix else ix)
           in (True, ix'\<lparr>ix_at := (ix_at ix')(i := None), ix_ids := take lst (ix_ids ix'),
                         ix_vectors := take (lst * ix_dim ix') (ix_vectors ix')\<rparr>)))"

definition Index_Has :: "Index \<Rightarrow> ID \<Rightarrow> bool" where
  "Index_Has ix i \<longleftrightarrow> ix_at ix i \<noteq> None"

section \<open>Search\<close>

record Match =
  mt_ID :: ID
  mt_Score :: float32

definition match_less :: "Match \<Rightarrow> Match \<Rightarrow> bool" where
  "match_less a b \<longleftrightarrow> f32_lt (mt_Score a) (mt_Score b)"

definition dot :: "float32 list \<Rightarrow> float32 list \<Rightarrow> float32" where
  "dot a b = fold (\<lambda>(x, y) sum. f32_add sum (f32_mul x y)) (zip a b) 0"

definition row :: "Index \<Rightarrow> nat \<Rightarrow> float32 list" where
  "row ix n = take (ix_dim ix) (drop (n * ix_dim ix) (ix_vectors ix))"

fun search_loop :: "nat \<Rightarrow> Match list \<Rightarrow> Match list \<Rightarrow> Match list" where
  "search_loop k [] best = best"
| "search_loop k (m # ms) best =
     search_loop k ms
       (if length best < k then heap_Push match_less m best
        else if f32_lt (mt_Score (best ! 0)) (mt_Score m) then heap_Fix match_less (best[0 := m]) 0
        else best)"

fun drain :: "nat \<Rightarrow> Match list \<Rightarrow> Match list \<Rightarrow> Match list" where
  "drain 0 best out = out"
| "drain (Suc n) best out = (let (m, best') = heap_Pop match_less best in drain n best' (m # out))"

text \<open>The matches in the order the loop over \<open>ids\<close> meets them.\<close>

definition scored :: "Index \<Rightarrow> float32 list \<Rightarrow> Match list" where
  "scored ix query =
     map (\<lambda>n. \<lparr>mt_ID = ix_ids ix ! n, mt_Score = dot query (row ix n)\<rparr>) [0..<length (ix_ids ix)]"

definition Index_Search :: "Index \<Rightarrow> float32 list \<Rightarrow> int \<Rightarrow> (index_error, Match list) result" where
  "Index_Search ix query k =
     (if length query \<noteq> ix_dim ix then Inl (QueryDim (ix_dim ix) (length query))
      else if k \<le> 0 then Inr []
      else let best = search_loop (nat k) (scored ix query) [] in Inr (drain (length best) best []))"

section \<open>The matrix is a map\<close>

definition index_ok :: "Index \<Rightarrow> bool" where
  "index_ok ix \<longleftrightarrow>
     length (ix_vectors ix) = length (ix_ids ix) * ix_dim ix \<and>
     (\<forall>i p. ix_at ix i = Some p \<longleftrightarrow> p < length (ix_ids ix) \<and> ix_ids ix ! p = i)"

definition ix_map :: "Index \<Rightarrow> ID \<rightharpoonup> float32 list" where
  "ix_map ix i = map_option (row ix) (ix_at ix i)"

text \<open>Rows of a matrix, and what \<open>copy\<close> does to them.\<close>

lemma row_range:
  assumes "p < (n :: nat)"
  shows "p * d + d \<le> n * d"
proof -
  have "Suc p * d \<le> n * d" using assms by (intro mult_le_mono1) simp
  then show ?thesis by simp
qed

lemma take_drop_before:
  "a + d \<le> b \<Longrightarrow> b \<le> length vs \<Longrightarrow> take d (drop a (take b vs @ w)) = take d (drop a vs)"
  by (auto simp: drop_take min_def)

lemma drop_after:
  "b + d \<le> a \<Longrightarrow> b + d \<le> length vs \<Longrightarrow> d \<le> length v \<Longrightarrow>
   drop a (take b vs @ take d v @ drop (b + d) vs) = drop a vs"
  by (simp add: min_absorb2)

lemma copy_row_same:
  "p * d + d \<le> length vs \<Longrightarrow> d \<le> length v \<Longrightarrow>
   take d (drop (p * d) (copy_range (p * d) ((p + 1) * d) v vs)) = take d v"
  by (simp add: copy_range_def Let_def)

lemma copy_row_other:
  assumes "p \<noteq> q" "p * d + d \<le> length vs" "d \<le> length v"
  shows "take d (drop (q * d) (copy_range (p * d) ((p + 1) * d) v vs)) = take d (drop (q * d) vs)"
proof -
  have c: "copy_range (p * d) ((p + 1) * d) v vs = take (p * d) vs @ take d v @ drop (p * d + d) vs"
    using assms(3) by (simp add: copy_range_def Let_def)
  consider "q < p" | "p < q" using assms(1) by linarith
  then show ?thesis
  proof cases
    case 1
    then have "q * d + d \<le> p * d" by (rule row_range)
    then show ?thesis using assms(2) unfolding c by (intro take_drop_before) simp_all
  next
    case 2
    then have "p * d + d \<le> q * d" by (rule row_range)
    then show ?thesis using assms(2,3) unfolding c by (simp only: drop_after)
  qed
qed

lemma length_copy_row:
  "p * d + d \<le> length vs \<Longrightarrow> d \<le> length v \<Longrightarrow> length (copy_range (p * d) ((p + 1) * d) v vs) = length vs"
  by (simp add: copy_range_def Let_def)

lemma ix_at_range:
  "index_ok ix \<Longrightarrow> ix_at ix i = Some p \<Longrightarrow> p < length (ix_ids ix) \<and> p * ix_dim ix + ix_dim ix \<le> length (ix_vectors ix)"
  using row_range by (auto simp: index_ok_def)

lemma length_row: "index_ok ix \<Longrightarrow> p < length (ix_ids ix) \<Longrightarrow> length (row ix p) = ix_dim ix"
  using row_range [of p "length (ix_ids ix)" "ix_dim ix"] by (simp add: index_ok_def row_def)

lemma index_New: "index_ok (Index_New model dim)" "ix_map (Index_New model dim) = Map.empty"
  by (auto simp: index_ok_def Index_New_def ix_map_def)

lemma Add_replaces:
  assumes "index_ok ix" "ix_at ix i = Some p" "length v = ix_dim ix"
  defines "ix' \<equiv> ix\<lparr>ix_vectors := copy_range (p * ix_dim ix) ((p + 1) * ix_dim ix) v (ix_vectors ix)\<rparr>"
  shows "index_ok ix'" "ix_map ix' = (ix_map ix)(i \<mapsto> v)"
proof -
  note p = ix_at_range [OF assms(1,2)]
  show "index_ok ix'"
    using assms(1,3) p length_copy_row [of p "ix_dim ix" "ix_vectors ix" v] by (simp add: index_ok_def ix'_def)
  show "ix_map ix' = (ix_map ix)(i \<mapsto> v)"
  proof
    fix j
    consider "j = i" | q where "j \<noteq> i" "ix_at ix j = Some q" | "j \<noteq> i" "ix_at ix j = None"
      by (cases "ix_at ix j") auto
    then show "ix_map ix' j = ((ix_map ix)(i \<mapsto> v)) j"
    proof cases
      case 1
      then show ?thesis
        using assms(2,3) p copy_row_same [of p "ix_dim ix" "ix_vectors ix" v]
        by (simp add: ix_map_def ix'_def row_def)
    next
      case 2
      then have "p \<noteq> q" using assms(1,2) by (auto simp: index_ok_def)
      with 2 show ?thesis
        using assms(3) p copy_row_other [of p q "ix_dim ix" "ix_vectors ix" v]
        by (simp add: ix_map_def ix'_def row_def)
    next
      case 3
      then show ?thesis by (simp add: ix_map_def ix'_def)
    qed
  qed
qed

lemma Add_appends:
  assumes "index_ok ix" "ix_at ix i = None" "length v = ix_dim ix"
  defines "ix' \<equiv> ix\<lparr>ix_at := (ix_at ix)(i \<mapsto> length (ix_ids ix)), ix_ids := ix_ids ix @ [i],
    ix_vectors := ix_vectors ix @ v\<rparr>"
  shows "index_ok ix'" "ix_map ix' = (ix_map ix)(i \<mapsto> v)"
proof -
  have new: "i \<noteq> ix_ids ix ! q" if "q < length (ix_ids ix)" for q
    using that assms(1,2) by (metis index_ok_def option.distinct(1))
  have at: "ix_at ix j = Some q \<longleftrightarrow> q < length (ix_ids ix) \<and> ix_ids ix ! q = j" for j q
    using assms(1) by (simp add: index_ok_def)
  have "((ix_at ix)(i \<mapsto> length (ix_ids ix))) j = Some q \<longleftrightarrow>
      q < length (ix_ids ix @ [i]) \<and> (ix_ids ix @ [i]) ! q = j" for j q
    using new [of q] at [of j q] by (auto simp: nth_append less_Suc_eq)
  then show "index_ok ix'" using assms(1,3) by (simp add: index_ok_def ix'_def)
  have len: "length (ix_vectors ix) = length (ix_ids ix) * ix_dim ix"
    using assms(1) by (simp add: index_ok_def)
  show "ix_map ix' = (ix_map ix)(i \<mapsto> v)"
  proof
    fix j
    show "ix_map ix' j = ((ix_map ix)(i \<mapsto> v)) j"
    proof (cases "j = i \<or> ix_at ix j = None")
      case True
      then show ?thesis using len assms(3) by (auto simp: ix_map_def ix'_def row_def)
    next
      case False
      then obtain q where q: "j \<noteq> i" "ix_at ix j = Some q" by auto
      with ix_at_range [OF assms(1) q(2)] show ?thesis
        by (simp add: ix_map_def ix'_def row_def)
    qed
  qed
qed

text \<open>Dropping the last row.\<close>

lemma drop_last_row:
  assumes "index_ok ix" "ix_at ix i = Some (length (ix_ids ix) - 1)"
  defines "lst \<equiv> length (ix_ids ix) - 1"
  defines "ix' \<equiv> ix\<lparr>ix_at := (ix_at ix)(i := None), ix_ids := take lst (ix_ids ix),
    ix_vectors := take (lst * ix_dim ix) (ix_vectors ix)\<rparr>"
  shows "index_ok ix'" "ix_map ix' = (ix_map ix)(i := None)"
proof -
  have n: "length (ix_ids ix) = Suc lst" "ix_ids ix ! lst = i"
    using ix_at_range [OF assms(1,2)] assms(1,2) by (auto simp: lst_def index_ok_def)
  have at: "ix_at ix j = Some q \<longleftrightarrow> q < Suc lst \<and> ix_ids ix ! q = j" for j q
    using assms(1) n(1) by (simp add: index_ok_def)
  have "((ix_at ix)(i := None)) j = Some q \<longleftrightarrow> q < lst \<and> take lst (ix_ids ix) ! q = j" for j q
    using at [of j q] at [of i q] at [of i lst] n(2) by (auto simp: less_Suc_eq)
  then show "index_ok ix'" using assms(1) n(1) by (simp add: index_ok_def ix'_def)
  show "ix_map ix' = (ix_map ix)(i := None)"
  proof
    fix j
    show "ix_map ix' j = ((ix_map ix)(i := None)) j"
    proof (cases "j = i \<or> ix_at ix j = None")
      case False
      then obtain q where q: "j \<noteq> i" "ix_at ix j = Some q" by auto
      then have "q < lst" using at [of j q] n(2) by (auto simp: less_Suc_eq)
      then have "q * ix_dim ix + ix_dim ix \<le> lst * ix_dim ix" by (rule row_range)
      then have "row ix' q = row ix q" by (simp add: ix'_def row_def drop_take min_def)
      then show ?thesis using q by (simp add: ix_map_def ix'_def)
    qed (auto simp: ix_map_def ix'_def)
  qed
qed

lemma Remove_last:
  assumes "index_ok ix" "ix_at ix i = Some (length (ix_ids ix) - 1)"
  shows "fst (Index_Remove ix i) \<and> index_ok (snd (Index_Remove ix i)) \<and>
    ix_map (snd (Index_Remove ix i)) = (ix_map ix)(i := None)"
  using drop_last_row [OF assms] assms(2) by (simp add: Index_Remove_def Let_def)

lemma Remove_moves:
  assumes "index_ok ix" "ix_at ix i = Some p" "p \<noteq> length (ix_ids ix) - 1"
  shows "fst (Index_Remove ix i) \<and> index_ok (snd (Index_Remove ix i)) \<and>
    ix_map (snd (Index_Remove ix i)) = (ix_map ix)(i := None)"
proof -
  define lst where "lst = length (ix_ids ix) - 1"
  define moved where "moved = ix_ids ix ! lst"
  define ix' where "ix' = snd (Index_Remove ix i)"
  note p = ix_at_range [OF assms(1,2)]
  have n: "length (ix_ids ix) = Suc lst" "p < lst" using p assms(3) by (auto simp: lst_def)
  have at: "ix_at ix j = Some q \<longleftrightarrow> q < Suc lst \<and> ix_ids ix ! q = j" for j q
    using assms(1) n(1) by (simp add: index_ok_def)
  have ip: "ix_ids ix ! p = i" using at [of i p] assms(2) by simp
  have mi: "moved \<noteq> i" "ix_at ix moved = Some lst"
    using at [of i lst] at [of moved lst] assms(2) n by (auto simp: moved_def)
  have len: "length (ix_vectors ix) = Suc lst * ix_dim ix"
    using assms(1) n(1) by (simp add: index_ok_def)
  have f: "ix_dim ix' = ix_dim ix" "ix_ids ix' = take lst ((ix_ids ix)[p := moved])"
    "ix_at ix' = (ix_at ix)(moved \<mapsto> p, i := None)"
    "ix_vectors ix' = take (lst * ix_dim ix)
      (copy_range (p * ix_dim ix) ((p + 1) * ix_dim ix) (drop (lst * ix_dim ix) (ix_vectors ix)) (ix_vectors ix))"
    and fst: "fst (Index_Remove ix i)"
    using assms(2,3) by (simp_all add: ix'_def Index_Remove_def move_last_def Let_def lst_def moved_def)
  have row': "row ix' q = row ix (if q = p then lst else q)" if "q < lst" for q
  proof -
    have "q * ix_dim ix + ix_dim ix \<le> lst * ix_dim ix" using that by (rule row_range)
    then have "row ix' q = take (ix_dim ix) (drop (q * ix_dim ix)
        (copy_range (p * ix_dim ix) ((p + 1) * ix_dim ix) (drop (lst * ix_dim ix) (ix_vectors ix)) (ix_vectors ix)))"
      by (simp add: row_def f drop_take min_def)
    then show ?thesis
      using p len copy_row_same [of p "ix_dim ix" "ix_vectors ix" "drop (lst * ix_dim ix) (ix_vectors ix)"]
        copy_row_other [of p q "ix_dim ix" "ix_vectors ix" "drop (lst * ix_dim ix) (ix_vectors ix)"]
      by (simp add: row_def)
  qed
  have at': "ix_at ix' j = Some q \<longleftrightarrow> q < lst \<and> ix_ids ix' ! q = j" for j q
    using at [of j q] at [of i q] at [of moved q] at [of i p] mi ip n assms(2)
    by (auto simp: f nth_list_update less_Suc_eq moved_def)
  have "length (ix_vectors ix') = lst * ix_dim ix"
    using length_copy_row [of p "ix_dim ix" "ix_vectors ix" "drop (lst * ix_dim ix) (ix_vectors ix)"] p len
    by (simp add: f)
  then have ok: "index_ok ix'" using at' n by (simp add: index_ok_def f)
  have "ix_map ix' j = ((ix_map ix)(i := None)) j" for j
  proof (cases "j = i \<or> ix_at ix j = None")
    case True
    then show ?thesis using mi by (auto simp: ix_map_def f)
  next
    case False
    then obtain q where q: "j \<noteq> i" "ix_at ix j = Some q" by auto
    show ?thesis
    proof (cases "j = moved")
      case True
      then show ?thesis using mi n row' by (simp add: ix_map_def f(3))
    next
      case False
      then have "q < lst" "q \<noteq> p" using at [of j q] q ip by (auto simp: less_Suc_eq moved_def)
      then show ?thesis using q False row' by (simp add: ix_map_def f(3))
    qed
  qed
  then have "ix_map ix' = (ix_map ix)(i := None)" ..
  with ok fst show ?thesis by (simp add: ix'_def)
qed

lemma dom_ix_map: "index_ok ix \<Longrightarrow> dom (ix_map ix) = set (ix_ids ix)"
  by (force simp: index_ok_def ix_map_def dom_def in_set_conv_nth)

lemma distinct_ids: "index_ok ix \<Longrightarrow> distinct (ix_ids ix)"
  unfolding distinct_conv_nth index_ok_def by (metis option.inject)


text \<open>
  C38. The matrix is a map from records to vectors. An index that is well formed stays so;
  adding sets the record's vector and leaves every other one alone, and is refused, changing
  nothing, exactly for another model or another width; removing withdraws the record's vector
  and no other, though it moves the last row into the gap, and says whether there was one;
  \<open>Has\<close> and \<open>Len\<close> answer for the map.
\<close>

theorem Index_refines_map:
  assumes "index_ok ix"
  shows "(case Index_Add ix i model v of
       Inl e \<Rightarrow> model \<noteq> ix_model ix \<or> length v \<noteq> ix_dim ix
     | Inr ix' \<Rightarrow> model = ix_model ix \<and> length v = ix_dim ix \<and> index_ok ix' \<and>
         ix_dim ix' = ix_dim ix \<and> ix_model ix' = ix_model ix \<and> ix_map ix' = (ix_map ix)(i \<mapsto> v)) \<and>
    (case Index_Remove ix i of (held, ix') \<Rightarrow>
       held = Index_Has ix i \<and> index_ok ix' \<and> ix_dim ix' = ix_dim ix \<and> ix_model ix' = ix_model ix \<and>
       ix_map ix' = (ix_map ix)(i := None)) \<and>
    (Index_Has ix i \<longleftrightarrow> i \<in> dom (ix_map ix)) \<and> Index_Len ix = card (dom (ix_map ix))"
proof (intro conjI)
  show "case Index_Add ix i model v of
       Inl e \<Rightarrow> model \<noteq> ix_model ix \<or> length v \<noteq> ix_dim ix
     | Inr ix' \<Rightarrow> model = ix_model ix \<and> length v = ix_dim ix \<and> index_ok ix' \<and>
         ix_dim ix' = ix_dim ix \<and> ix_model ix' = ix_model ix \<and> ix_map ix' = (ix_map ix)(i \<mapsto> v)"
  proof (cases "model = ix_model ix \<and> length v = ix_dim ix")
    case True
    then show ?thesis
      using Add_replaces [OF assms] Add_appends [OF assms]
      by (cases "ix_at ix i") (simp_all add: Index_Add_def)
  qed (auto simp: Index_Add_def)
  show "case Index_Remove ix i of (held, ix') \<Rightarrow>
       held = Index_Has ix i \<and> index_ok ix' \<and> ix_dim ix' = ix_dim ix \<and> ix_model ix' = ix_model ix \<and>
       ix_map ix' = (ix_map ix)(i := None)"
  proof (cases "ix_at ix i")
    case None
    then have "(ix_map ix)(i := None) = ix_map ix" by (auto simp: ix_map_def)
    with None assms show ?thesis by (simp add: Index_Remove_def Index_Has_def)
  next
    case (Some p)
    have "ix_dim (snd (Index_Remove ix i)) = ix_dim ix" "ix_model (snd (Index_Remove ix i)) = ix_model ix"
      using Some by (simp_all add: Index_Remove_def move_last_def Let_def)
    then show ?thesis
      using Remove_last [OF assms] Remove_moves [OF assms] Some
      by (cases "p = length (ix_ids ix) - 1") (simp_all add: split_beta Index_Has_def)
  qed
  show "Index_Has ix i \<longleftrightarrow> i \<in> dom (ix_map ix)" by (auto simp: Index_Has_def ix_map_def)
  show "Index_Len ix = card (dom (ix_map ix))"
    using distinct_ids [OF assms] by (simp add: Index_Len_def dom_ix_map [OF assms] distinct_card)
qed

definition sample_index :: Index where
  "sample_index =
     \<lparr>ix_dim = 2, ix_model = ''m'', ix_ids = [[1], [2]], ix_vectors = [1065353216, 0, 0, 1065353216],
      ix_at = [[1] \<mapsto> 0, [2] \<mapsto> 1]\<rparr>"

lemma sample_index_ok: "index_ok sample_index"
proof -
  have "ix_at sample_index i = Some p \<longleftrightarrow> p < length (ix_ids sample_index) \<and> ix_ids sample_index ! p = i" for i p
    using less_2_cases_iff [of p] by (cases "p < 2") (auto simp: sample_index_def)
  then show ?thesis by (simp add: index_ok_def) (simp add: sample_index_def)
qed

theorem Index_refines_map_witness:
  "index_ok (snd (Index_Remove sample_index [1])) \<and> ix_map (snd (Index_Remove sample_index [1])) [1] = None \<and>
   Index_Len sample_index = 2"
proof (intro conjI)
  show "Index_Len sample_index = 2" by (simp add: Index_Len_def sample_index_def)
qed (use Index_refines_map [OF sample_index_ok, where i = "[1]"] in \<open>simp_all add: split_beta\<close>)

section \<open>The search finds the best\<close>

interpretation mh: keyed match_less "\<lambda>m. f32_key (mt_Score m)" "\<lambda>m. \<not> f32_nan (mt_Score m)"
  by unfold_locales (simp add: match_less_def f32_lt_def)

lemma search_loop_best:
  "\<forall>m \<in> set ms. \<not> f32_nan (mt_Score m) \<Longrightarrow> mh.heap best \<Longrightarrow> 0 < k \<Longrightarrow> length best \<le> k \<Longrightarrow>
   (length best < k \<longrightarrow> R = {#}) \<Longrightarrow>
   (\<forall>x \<in> set best. \<forall>y \<in># R. f32_key (mt_Score y) \<le> f32_key (mt_Score x)) \<Longrightarrow>
   \<exists>R'. mset ms + mset best + R = mset (search_loop k ms best) + R' \<and>
     mh.heap (search_loop k ms best) \<and> length (search_loop k ms best) = min k (length ms + length best) \<and>
     (\<forall>x \<in> set (search_loop k ms best). \<forall>y \<in># R'. f32_key (mt_Score y) \<le> f32_key (mt_Score x))"
proof (induction ms arbitrary: best R)
  case (Cons m ms)
  then have m: "\<not> f32_nan (mt_Score m)" by simp
  note ih = Cons.IH [OF _ _ Cons.prems(3)]
  consider "length best < k" | "length best = k" "f32_lt (mt_Score (best ! 0)) (mt_Score m)"
    | "length best = k" "\<not> f32_lt (mt_Score (best ! 0)) (mt_Score m)"
    using Cons.prems(4) by linarith
  then show ?case
  proof cases
    case 1
    let ?b = "heap_Push match_less m best"
    have "mh.heap ?b" by (rule mh.heap_Push_heap [OF Cons.prems(2) m])
    from ih [OF _ this, of R] 1 Cons.prems show ?thesis by (simp add: add_ac)
  next
    case 2
    have ne: "best \<noteq> []" using 2 Cons.prems(3) by auto
    let ?b = "heap_Fix match_less (best[0 := m]) 0"
    have b: "mh.heap ?b" "mset ?b = mset (best[0 := m])"
      using mh.heap_Fix_heap [OF Cons.prems(2) ne m] by blast+
    obtain h t where ht: "best = h # t" using ne by (cases best) auto
    have mb: "mset ?b = add_mset m (mset t)" and sb: "set ?b = insert m (set t)"
      using b(2) ht by (simp_all, metis list.simps(15) mset.simps(2) set_mset_mset)
    have lb: "length ?b = k" using mb 2 ht by (metis length_Cons mset.simps(2) size_mset)
    have hm: "f32_key (mt_Score h) < f32_key (mt_Score m)" using 2 ht by (simp add: f32_lt_def)
    have ht': "f32_key (mt_Score h) \<le> f32_key (mt_Score x)" if "x \<in> set t" for x
      using mh.heap_head [OF Cons.prems(2), of x] that ht by simp
    have low: "f32_key (mt_Score y) \<le> f32_key (mt_Score h)" if "y \<in># R" for y
      using Cons.prems(6) that ht by simp
    have "\<forall>x \<in> set ?b. \<forall>y \<in># add_mset h R. f32_key (mt_Score y) \<le> f32_key (mt_Score x)"
    proof (intro ballI)
      fix x y assume x: "x \<in> set ?b" and y: "y \<in># add_mset h R"
      have "f32_key (mt_Score h) \<le> f32_key (mt_Score x)" using x hm ht' unfolding sb by auto
      moreover have "f32_key (mt_Score y) \<le> f32_key (mt_Score h)" using y low by auto
      ultimately show "f32_key (mt_Score y) \<le> f32_key (mt_Score x)" by simp
    qed
    from ih [OF _ b(1) _ _ this] Cons.prems(1) lb
    obtain R' where "mset ms + mset ?b + add_mset h R = mset (search_loop k ms ?b) + R'"
      "mh.heap (search_loop k ms ?b)" "length (search_loop k ms ?b) = min k (length ms + k)"
      "\<forall>x \<in> set (search_loop k ms ?b). \<forall>y \<in># R'. f32_key (mt_Score y) \<le> f32_key (mt_Score x)"
      by auto
    then show ?thesis using 2 mb ht by (intro exI [of _ R']) (simp add: add_ac add_mset_commute)
  next
    case 3
    have ne: "best \<noteq> []" using 3 Cons.prems(3) by auto
    then have "\<not> f32_nan (mt_Score (best ! 0))" using Cons.prems(2) by (simp add: mh.heap_def)
    then have "f32_key (mt_Score m) \<le> f32_key (mt_Score (best ! 0))" using 3 m by (simp add: f32_lt_def)
    then have "\<forall>x \<in> set best. \<forall>y \<in># add_mset m R. f32_key (mt_Score y) \<le> f32_key (mt_Score x)"
      using Cons.prems(6) mh.heap_head [OF Cons.prems(2)] by (fastforce dest: order_trans)
    from ih [OF _ Cons.prems(2) _ _ this] Cons.prems(1) 3
    show ?thesis by (auto simp: add_ac)
  qed
qed auto

lemma drain_sorted:
  "mh.heap best \<Longrightarrow> sorted_wrt (\<lambda>a b. f32_key (mt_Score b) \<le> f32_key (mt_Score a)) out \<Longrightarrow>
   \<forall>x \<in> set best. \<forall>y \<in> set out. f32_key (mt_Score y) \<le> f32_key (mt_Score x) \<Longrightarrow>
   mset (drain (length best) best out) = mset best + mset out \<and>
   sorted_wrt (\<lambda>a b. f32_key (mt_Score b) \<le> f32_key (mt_Score a)) (drain (length best) best out)"
proof (induction "length best" arbitrary: best out)
  case (Suc n)
  then have ne: "best \<noteq> []" by auto
  obtain m b where p: "heap_Pop match_less best = (m, b)" by (cases "heap_Pop match_less best")
  have f: "m = best ! 0" "mset best = add_mset m (mset b)" "mh.heap b"
    using mh.heap_Pop_heap [OF Suc.prems(1) ne p] by blast+
  have sb: "set best = insert m (set b)" using f(2) by (metis set_mset_add_mset_insert set_mset_mset)
  have lb: "length b = n" using f(2) Suc.hyps(2) by (metis add_left_cancel plus_1_eq_Suc size_add_mset size_mset)
  have "f32_key (mt_Score m) \<le> f32_key (mt_Score x)" if "x \<in> set b" for x
    using mh.heap_head [OF Suc.prems(1), of x] that sb f(1) by simp
  with Suc.prems sb have "\<forall>x \<in> set b. \<forall>y \<in> set (m # out). f32_key (mt_Score y) \<le> f32_key (mt_Score x)"
    "sorted_wrt (\<lambda>a b. f32_key (mt_Score b) \<le> f32_key (mt_Score a)) (m # out)"
    by auto
  from Suc.hyps(1) [OF lb [symmetric] f(3) this(2,1)] show ?case
    using p lb f(2) by (simp add: Suc.hyps(2) [symmetric])
qed simp

text \<open>Whatever the scores, the answer holds matches of the matrix, each at most once.\<close>

lemma search_loop_sub: "0 < k \<Longrightarrow> mset (search_loop k ms best) \<subseteq># mset ms + mset best"
proof (induction ms arbitrary: best)
  case (Cons m ms)
  let ?b = "if length best < k then heap_Push match_less m best
    else if f32_lt (mt_Score (best ! 0)) (mt_Score m) then heap_Fix match_less (best[0 := m]) 0 else best"
  have "mset ?b \<subseteq># add_mset m (mset best)"
  proof (cases best)
    case (Cons h t)
    have "add_mset m (mset t) \<subseteq># add_mset m (add_mset h (mset t))" by simp
    then show ?thesis using Cons by (simp add: mset_Fix_0 add_mset_commute)
  qed (use Cons.prems in simp)
  then have "mset ms + mset ?b \<subseteq># mset ms + add_mset m (mset best)" by simp
  from subset_mset.order_trans [OF Cons.IH [OF Cons.prems, of ?b] this] show ?case by simp
qed simp

lemma mset_drain: "mset (drain (length best) best out) = mset best + mset out"
proof (induction "length best" arbitrary: best out)
  case (Suc n)
  then have ne: "best \<noteq> []" by auto
  obtain m b where p: "heap_Pop match_less best = (m, b)" by (cases "heap_Pop match_less best")
  have f: "mset best = add_mset m (mset b)" by (rule mset_Pop [OF ne p])
  have lb: "length b = n" using f Suc.hyps(2) by (metis add_left_cancel plus_1_eq_Suc size_add_mset size_mset)
  from Suc.hyps(1) [OF lb [symmetric], of "m # out"] show ?case
    using p lb f by (simp add: Suc.hyps(2) [symmetric])
qed simp

lemma Search_sub: "Index_Search ix query k = Inr out \<Longrightarrow> mset out \<subseteq># mset (scored ix query)"
proof -
  assume "Index_Search ix query k = Inr out"
  then consider "out = []"
    | "0 < k" "out = drain (length (search_loop (nat k) (scored ix query) [])) (search_loop (nat k) (scored ix query) []) []"
    by (auto simp: Index_Search_def Let_def split: if_splits)
  then show ?thesis
  proof cases
    case 2
    then show ?thesis using search_loop_sub [of "nat k" "scored ix query" "[]"] by (simp add: mset_drain)
  qed simp
qed

lemma distinct_submset: "mset xs \<subseteq># mset ys \<Longrightarrow> distinct ys \<Longrightarrow> distinct xs"
proof -
  assume s: "mset xs \<subseteq># mset ys" and d: "distinct ys"
  have "count (mset xs) i = (if i \<in> set xs then 1 else 0)" for i
  proof -
    have "count (mset xs) i \<le> count (mset ys) i" by (rule mset_subset_eq_count [OF s])
    also have "\<dots> \<le> 1" using d by (simp add: distinct_count_atmost_1)
    finally show ?thesis using count_mset_0_iff [of xs i] by (cases "i \<in> set xs") (simp_all add: le_Suc_eq)
  qed
  then show ?thesis by (simp add: distinct_count_atmost_1)
qed

lemma Search_ids:
  assumes "index_ok ix" "Index_Search ix query k = Inr out"
  shows "distinct (map mt_ID out)" "mt_ID ` set out \<subseteq> dom (ix_map ix)"
proof -
  have ids: "map mt_ID (scored ix query) = ix_ids ix"
    by (rule nth_equalityI) (simp_all add: scored_def)
  note sub = Search_sub [OF assms(2)]
  from image_mset_subseteq_mono [OF sub, of mt_ID] have s: "mset (map mt_ID out) \<subseteq># mset (ix_ids ix)"
    by (simp add: ids [symmetric])
  show "distinct (map mt_ID out)" by (rule distinct_submset [OF s distinct_ids [OF assms(1)]])
  show "mt_ID ` set out \<subseteq> dom (ix_map ix)"
    using set_mset_mono [OF s] by (simp add: dom_ix_map [OF assms(1)])
qed

text \<open>The nearest \<open>k\<close> of a collection of matches, best first.\<close>

definition nearest :: "nat \<Rightarrow> Match multiset \<Rightarrow> Match list \<Rightarrow> bool" where
  "nearest k ms out \<longleftrightarrow>
     length out = min k (size ms) \<and> mset out \<subseteq># ms \<and>
     sorted_wrt (\<lambda>a b. \<not> f32_lt (mt_Score a) (mt_Score b)) out \<and>
     (\<forall>x \<in> set out. \<forall>y \<in># ms - mset out. \<not> f32_lt (mt_Score x) (mt_Score y))"

lemma scored_map:
  assumes "index_ok ix"
  shows "mset (scored ix q) =
    image_mset (\<lambda>i. \<lparr>mt_ID = i, mt_Score = dot q (the (ix_map ix i))\<rparr>) (mset_set (dom (ix_map ix)))"
proof -
  have at: "ix_at ix (ix_ids ix ! n) = Some n" if "n < length (ix_ids ix)" for n
    using assms that by (simp add: index_ok_def)
  have "scored ix q = map (\<lambda>i. \<lparr>mt_ID = i, mt_Score = dot q (the (ix_map ix i))\<rparr>) (ix_ids ix)"
    by (rule nth_equalityI) (simp_all add: scored_def ix_map_def at)
  then show ?thesis
    by (simp add: dom_ix_map [OF assms] mset_set_set [OF distinct_ids [OF assms]])
qed

text \<open>
  C37. A search answers with the nearest records. A query of the wrong width is refused; \<open>k\<close> at
  most zero gives nothing; otherwise, when no score is a NaN, the answer is the \<open>k\<close> best of the
  records held, each with its vector's score, or all of them when there are fewer, best first:
  nothing left out scores higher than anything returned.
\<close>

theorem Search_correct:
  assumes "index_ok ix" and "\<forall>v \<in> ran (ix_map ix). \<not> f32_nan (dot query v)"
  shows "case Index_Search ix query k of
      Inl e \<Rightarrow> length query \<noteq> ix_dim ix
    | Inr out \<Rightarrow> length query = ix_dim ix \<and>
        nearest (nat k) (image_mset (\<lambda>i. \<lparr>mt_ID = i, mt_Score = dot query (the (ix_map ix i))\<rparr>)
          (mset_set (dom (ix_map ix)))) out"
proof -
  let ?all = "scored ix query"
  have good: "\<forall>m \<in> set ?all. \<not> f32_nan (mt_Score m)"
  proof
    fix m assume "m \<in> set ?all"
    then have "m \<in># mset ?all" by simp
    then obtain i where "i \<in> dom (ix_map ix)" "m = \<lparr>mt_ID = i, mt_Score = dot query (the (ix_map ix i))\<rparr>"
      unfolding scored_map [OF assms(1)] by (auto simp: dom_ix_map [OF assms(1)])
    then show "\<not> f32_nan (mt_Score m)" using assms(2) by (auto simp: ran_def)
  qed
  have "nearest (nat k) (mset ?all) out" if "Index_Search ix query k = Inr out" for out
  proof (cases "k \<le> 0")
    case True
    with that show ?thesis by (auto simp: Index_Search_def nearest_def split: if_splits)
  next
    case False
    define best where "best = search_loop (nat k) ?all []"
    have out: "out = drain (length best) best []"
      using that False by (auto simp: Index_Search_def best_def Let_def split: if_splits)
    obtain R where R: "mset ?all = mset best + R" "mh.heap best" "length best = min (nat k) (length ?all)"
      "\<forall>x \<in> set best. \<forall>y \<in># R. f32_key (mt_Score y) \<le> f32_key (mt_Score x)"
      using search_loop_best [OF good mh.heap_Nil, of "nat k" "{#}"] False by (auto simp: best_def)
    have d: "mset out = mset best" "sorted_wrt (\<lambda>a b. f32_key (mt_Score b) \<le> f32_key (mt_Score a)) out"
      using drain_sorted [OF R(2), of "[]"] by (simp_all add: out)
    have s: "set out = set best" using d(1) by (metis set_mset_mset)
    have "length out = length best" using d(1) by (metis size_mset)
    moreover have "sorted_wrt (\<lambda>a b. \<not> f32_lt (mt_Score a) (mt_Score b)) out"
      by (rule sorted_wrt_mono_rel [OF _ d(2)]) (simp add: f32_lt_def)
    moreover have "mset ?all - mset out = R" by (simp add: R(1) d(1))
    moreover have "\<not> f32_lt (mt_Score x) (mt_Score y)" if "x \<in> set out" "y \<in># R" for x y
      using R(4) s that by (fastforce simp: f32_lt_def)
    moreover have "mset out \<subseteq># mset ?all" by (simp add: R(1) d(1))
    ultimately show ?thesis
      using R(3) unfolding nearest_def by simp
  qed
  then show ?thesis
    by (cases "Index_Search ix query k")
      (auto simp: scored_map [OF assms(1), symmetric] Index_Search_def Let_def split: if_splits)
qed

text \<open>The bit patterns of 0 and 1, and the arithmetic on them the witness evaluates.\<close>

lemma f32_zero_one:
  "f32_nan 0 = False" "f32_inf 0 = False" "f32_sig 0 = 0" "f32_exp 0 = - 149" "f32_neg 0 = False"
  "f32_nan 1065353216 = False" "f32_inf 1065353216 = False" "f32_sig 1065353216 = 8388608"
  "f32_exp 1065353216 = - 23" "f32_neg 1065353216 = False"
  by (simp_all add: f32_nan_def f32_inf_def f32_sig_def f32_exp_def f32_neg_def)

lemma bitlen_numeral [simp]:
  "bitlen 0 = 0" "bitlen 1 = 1" "bitlen (Suc 0) = 1"
  "bitlen (numeral (Num.Bit0 n)) = Suc (bitlen (numeral n))"
  "bitlen (numeral (Num.Bit1 n)) = Suc (bitlen (numeral n))"
  by (subst bitlen.simps, simp add: bitlen.simps [of 0])+

lemma sample_products:
  "f32_mul 1065353216 1065353216 = 1065353216" "f32_mul 1065353216 0 = 0" "f32_mul 0 1065353216 = 0" "f32_mul 0 0 = 0"
  by (simp_all add: f32_mul_def f32_zero_one f32_bits_def f32_round_def f32_encode_def Let_def)

lemma sample_sums: "f32_add 0 1065353216 = 1065353216" "f32_add 1065353216 0 = 1065353216" "f32_add 0 0 = 0"
  by (simp_all add: f32_add_def f32_zero_one f32_bits_def)
    (simp_all add: Let_def f32_round_def f32_encode_def f32_bits_def)

lemma sample_scores:
  "dot [1065353216, 0] [1065353216, 0] = 1065353216" "dot [1065353216, 0] [0, 1065353216] = 0"
  by (simp_all add: dot_def sample_products sample_sums)

lemma sample_index_map: "ix_map sample_index = [[1] \<mapsto> [1065353216, 0], [2] \<mapsto> [0, 1065353216]]"
  by (auto simp: ix_map_def sample_index_def row_def fun_eq_iff)

theorem Search_correct_witness:
  "\<exists>out. Index_Search sample_index [1065353216, 0] 1 = Inr out \<and>
     nearest 1 (image_mset (\<lambda>i. \<lparr>mt_ID = i, mt_Score = dot [1065353216, 0] (the (ix_map sample_index i))\<rparr>)
       (mset_set {[1], [2]})) out"
proof -
  have "\<forall>v \<in> ran (ix_map sample_index). \<not> f32_nan (dot [1065353216, 0] v)"
    by (auto simp: sample_index_map ran_def sample_scores f32_zero_one split: if_splits)
  moreover have "dom (ix_map sample_index) = {[1], [2]}" by (auto simp: sample_index_map)
  moreover have "ix_dim sample_index = 2" by (simp add: sample_index_def)
  ultimately show ?thesis
    using Search_correct [OF sample_index_ok, of "[1065353216, 0]" 1]
    by (cases "Index_Search sample_index [1065353216, 0] 1") simp_all
qed

end
