(* ===== verification/Go_Sort.thy ===== *)
theory Go_Sort
  imports Prelude
begin

text \<open>
  Go's stable sort and its order on strings. \<open>sort.SliceStable\<close> promises the one arrangement in
  which no element is before a later one it should follow and equal elements keep their order;
  it exists when the comparison is a strict weak order on the elements, which is what the
  locale asks of a client. The model computes it by insertion.
\<close>

section \<open>Stable sorting\<close>

fun insert_stable :: "('a \<Rightarrow> 'a \<Rightarrow> bool) \<Rightarrow> 'a \<Rightarrow> 'a list \<Rightarrow> 'a list" where
  "insert_stable before x [] = [x]"
| "insert_stable before x (y # ys) =
     (if before y x then y # insert_stable before x ys else x # y # ys)"

definition SliceStable :: "('a \<Rightarrow> 'a \<Rightarrow> bool) \<Rightarrow> 'a list \<Rightarrow> 'a list" where
  "SliceStable before xs = foldr (insert_stable before) xs []"

lemma mset_insert_stable [simp]: "mset (insert_stable before x ys) = add_mset x (mset ys)"
  by (induction ys) auto

lemma set_insert_stable [simp]: "set (insert_stable before x ys) = insert x (set ys)"
  by (induction ys) auto

lemma mset_SliceStable [simp]: "mset (SliceStable before xs) = mset xs"
  by (induction xs) (simp_all add: SliceStable_def)

lemma set_SliceStable [simp]: "set (SliceStable before xs) = set xs"
  by (metis mset_SliceStable set_mset_mset)

lemma length_SliceStable [simp]: "length (SliceStable before xs) = length xs"
  by (metis mset_SliceStable size_mset)

locale weak_order =
  fixes before :: "'a \<Rightarrow> 'a \<Rightarrow> bool"
    and good :: "'a \<Rightarrow> bool"
  assumes asym: "good a \<Longrightarrow> good b \<Longrightarrow> before a b \<Longrightarrow> \<not> before b a"
    and neg_trans: "good a \<Longrightarrow> good b \<Longrightarrow> good c \<Longrightarrow> \<not> before a b \<Longrightarrow> \<not> before b c \<Longrightarrow> \<not> before a c"
begin

definition arranged :: "'a list \<Rightarrow> bool" where
  "arranged xs \<longleftrightarrow> sorted_wrt (\<lambda>a b. \<not> before b a) xs"

lemma arranged_insert:
  "\<forall>y \<in> set (x # ys). good y \<Longrightarrow> arranged ys \<Longrightarrow> arranged (insert_stable before x ys)"
proof (induction ys)
  case (Cons y ys)
  have tail: "arranged ys" "\<forall>z \<in> set ys. \<not> before z y" using Cons.prems(2) by (simp_all add: arranged_def)
  show ?case
  proof (cases "before y x")
    case True
    have "arranged (insert_stable before x ys)" using Cons.IH Cons.prems(1) tail(1) by simp
    moreover have "\<not> before x y" using True Cons.prems(1) asym by simp
    ultimately show ?thesis using True tail(2) by (auto simp: arranged_def)
  next
    case False
    have "\<not> before z x" if "z \<in> set ys" for z
      using neg_trans [of z y x] that tail(2) False Cons.prems(1) by auto
    then show ?thesis using False Cons.prems(2) by (auto simp: arranged_def)
  qed
qed (simp add: arranged_def)

lemma arranged_SliceStable: "\<forall>x \<in> set xs. good x \<Longrightarrow> arranged (SliceStable before xs)"
proof (induction xs)
  case (Cons x xs)
  have "\<forall>y \<in> set (x # SliceStable before xs). good y" using Cons.prems by simp
  with Cons have "arranged (insert_stable before x (SliceStable before xs))"
    by (intro arranged_insert) auto
  then show ?case by (simp add: SliceStable_def)
qed (simp add: SliceStable_def arranged_def)

text \<open>Elements none of which is before another keep their order.\<close>

lemma insert_equal:
  assumes "\<forall>a b. P a \<and> P b \<longrightarrow> \<not> before a b"
  shows "filter P (insert_stable before x ys) = (if P x then x # filter P ys else filter P ys)"
  using assms by (induction ys) auto

lemma stable_SliceStable:
  assumes "\<forall>a b. P a \<and> P b \<longrightarrow> \<not> before a b"
  shows "filter P (SliceStable before xs) = filter P xs"
  by (induction xs) (simp_all add: SliceStable_def insert_equal [OF assms])

text \<open>What a cut of the arrangement leaves out follows everything it keeps.\<close>

lemma best_first:
  assumes "\<forall>x \<in> set xs. good x"
  shows "arranged (take k (SliceStable before xs)) \<and> mset (take k (SliceStable before xs)) \<subseteq># mset xs \<and>
    (\<forall>a \<in> set (take k (SliceStable before xs)). \<forall>b \<in># mset xs - mset (take k (SliceStable before xs)). \<not> before b a)"
proof -
  let ?s = "SliceStable before xs"
  have a: "arranged (take k ?s @ drop k ?s)" using arranged_SliceStable [OF assms] by simp
  have m: "mset xs = mset (take k ?s) + mset (drop k ?s)"
    by (metis append_take_drop_id mset_SliceStable mset_append)
  have "sorted_wrt (\<lambda>a b. \<not> before b a) (take k ?s)" "\<forall>a \<in> set (take k ?s). \<forall>b \<in> set (drop k ?s). \<not> before b a"
    using a unfolding arranged_def sorted_wrt_append by blast+
  then show ?thesis
    unfolding m by (simp add: arranged_def)
qed

end

section \<open>Strings\<close>

text \<open>Go compares strings byte by byte.\<close>

fun string_less :: "string \<Rightarrow> string \<Rightarrow> bool" where
  "string_less [] [] \<longleftrightarrow> False"
| "string_less [] (y # ys) \<longleftrightarrow> True"
| "string_less (x # xs) [] \<longleftrightarrow> False"
| "string_less (x # xs) (y # ys) \<longleftrightarrow>
     (of_char x :: nat) < of_char y \<or> (x = y \<and> string_less xs ys)"

lemma string_less_irrefl [simp]: "\<not> string_less a a"
  by (induction a) auto

lemma string_less_asym: "string_less a b \<Longrightarrow> \<not> string_less b a"
  by (induction a b rule: string_less.induct) auto

lemma string_less_linear: "string_less a b \<or> a = b \<or> string_less b a"
  by (induction a b rule: string_less.induct) (auto simp: neq_iff)

lemma string_less_trans: "string_less a b \<Longrightarrow> string_less b c \<Longrightarrow> string_less a c"
proof (induction a c arbitrary: b rule: string_less.induct)
  case (4 x xs z zs)
  then obtain y ys where "b = y # ys" by (cases b) auto
  with 4 show ?case by auto
next
  case 1
  then show ?case by (cases b) auto
next
  case (3 x xs)
  then show ?case by (cases b) auto
qed simp

end
