(* ===== verification/Recall.thy ===== *)
theory Recall
  imports Rec_Session Ix_Core Go_Sort
begin

text \<open>
  Package \<open>recall\<close>: the soft filter (\<open>recall/filter.go\<close>), the fusion of the vector and the
  lexical ranking (\<open>recall/fuse.go\<close>), the hits (\<open>recall/hit.go\<close>) and the pipeline that runs a
  query from text to ranked records (\<open>recall/pipeline.go\<close>).

  The embedder, the lexical index, the catalog and the fetcher are interfaces in the source;
  they are the function fields of \<open>Pipeline\<close>. The times a stage took are not modelled. Lower
  case outside ASCII is the argument \<open>u\<close>, as in \<open>Go_Strings\<close>.
\<close>

section \<open>The filter\<close>

record Filter =
  fl_Types :: "RecType list"
  fl_Tags :: "string list"

definition Filter_Empty :: "Filter \<Rightarrow> bool" where
  "Filter_Empty f \<longleftrightarrow> fl_Types f = [] \<and> fl_Tags f = []"

record Weights =
  wt_Tag :: float32
  wt_Type :: float32

text \<open>The \<open>float32\<close> values nearest to 0.002 and 0.00067.\<close>

definition DefaultWeights :: Weights where
  "DefaultWeights = \<lparr>wt_Tag = 990057071, wt_Type = 976200432\<rparr>"

definition Weights_orDefault :: "Weights \<Rightarrow> Weights" where
  "Weights_orDefault w = (if f32_eq (wt_Tag w) 0 \<and> f32_eq (wt_Type w) 0 then DefaultWeights else w)"

record Meta =
  mta_Kind :: Kind
  mta_Type :: RecType
  mta_Tags :: "string list"

definition normalizeTag :: "(string \<Rightarrow> string) \<Rightarrow> string \<Rightarrow> string" where
  "normalizeTag u tag = ToLower u (TrimSpace tag)"

definition Filter_boost :: "(string \<Rightarrow> string) \<Rightarrow> Filter \<Rightarrow> Weights \<Rightarrow> Meta \<Rightarrow> float32" where
  "Filter_boost u f w0 meta =
     (if Filter_Empty f then 0
      else
        let w = Weights_orDefault w0;
            carried = set (map (normalizeTag u) (mta_Tags meta));
            matched = length (filter (\<lambda>want. normalizeTag u want \<in> carried) (fl_Tags f));
            total =
              (if fl_Tags f \<noteq> [] then
                 f32_add 0 (f32_div (f32_mul (wt_Tag w) (f32_of_nat matched)) (f32_of_nat (length (fl_Tags f))))
               else 0)
        in if mta_Type meta \<in> set (fl_Types f) then f32_add total (wt_Type w) else total)"

section \<open>Fusion\<close>

record candidate =
  cn_ID :: ID
  cn_Score :: float32
  cn_Similarity :: float32
  cn_Fused :: float32
  cn_Lexical :: float32
  cn_Boost :: float32

text \<open>The bit patterns of 60 and 1.\<close>

definition RRFk :: float32 where "RRFk = 1114636288"
definition f32_one :: float32 where "f32_one = 1065353216"

text \<open>\<open>weight / (RRFk + float32(rank + 1))\<close>.\<close>

definition contribution :: "float32 \<Rightarrow> nat \<Rightarrow> float32" where
  "contribution weight rank = f32_div weight (f32_add RRFk (f32_of_nat (rank + 1)))"

fun fuse_vector :: "nat \<Rightarrow> Match list \<Rightarrow> (ID \<rightharpoonup> nat) \<times> candidate list \<Rightarrow> (ID \<rightharpoonup> nat) \<times> candidate list" where
  "fuse_vector i [] st = st"
| "fuse_vector i (m # ms) (at, fused) =
     fuse_vector (i + 1) ms
       (at(mt_ID m \<mapsto> length fused),
        fused @ [\<lparr>cn_ID = mt_ID m, cn_Score = 0, cn_Similarity = mt_Score m,
                   cn_Fused = contribution f32_one i, cn_Lexical = 0, cn_Boost = 0\<rparr>])"

fun fuse_lexical ::
  "float32 \<Rightarrow> nat \<Rightarrow> ID list \<Rightarrow> (ID \<rightharpoonup> nat) \<times> candidate list \<Rightarrow> (ID \<rightharpoonup> nat) \<times> candidate list" where
  "fuse_lexical weight rank [] st = st"
| "fuse_lexical weight rank (i # lexical) (at, fused) =
     fuse_lexical weight (rank + 1) lexical
       (case at i of
          Some p \<Rightarrow>
            if f32_lt 0 (cn_Lexical (fused ! p)) then (at, fused)
            else (at, fused[p := (fused ! p)\<lparr>cn_Lexical := contribution weight rank,
                    cn_Fused := f32_add (cn_Fused (fused ! p)) (contribution weight rank)\<rparr>])
        | None \<Rightarrow>
            (at(i \<mapsto> length fused),
             fused @ [\<lparr>cn_ID = i, cn_Score = 0, cn_Similarity = 0, cn_Fused = contribution weight rank,
                        cn_Lexical = contribution weight rank, cn_Boost = 0\<rparr>]))"

definition fuse :: "Match list \<Rightarrow> ID list \<Rightarrow> float32 \<Rightarrow> candidate list" where
  "fuse matches lexical weight =
     map (\<lambda>c. c\<lparr>cn_Score := cn_Fused c\<rparr>)
       (snd (fuse_lexical weight 0 lexical (fuse_vector 0 matches (Map.empty, []))))"

section \<open>Ranking\<close>

record Described =
  ds_Meta :: "ID \<rightharpoonup> Meta"
  ds_Superseded :: "ID \<Rightarrow> bool"

record Request =
  rq_Query :: string
  rq_Limit :: int
  rq_Scope :: "Kind list"
  rq_Filter :: Filter
  rq_Weights :: Weights
  rq_LexicalWeight :: float32
  rq_IncludeSuperseded :: bool
  rq_Candidates :: int

record dropped =
  dp_superseded :: nat
  dp_outOfScope :: nat

definition inScope :: "Kind list \<Rightarrow> Kind \<Rightarrow> bool \<Rightarrow> bool" where
  "inScope scope kind described \<longleftrightarrow> described \<and> kind \<in> set scope"

fun rank_loop ::
  "(string \<Rightarrow> string) \<Rightarrow> Described \<Rightarrow> Request \<Rightarrow> candidate list \<Rightarrow> candidate list \<times> dropped \<Rightarrow> candidate list \<times> dropped"
where
  "rank_loop u known req [] st = st"
| "rank_loop u known req (entry # fused) (kept, counts) =
     (if \<not> rq_IncludeSuperseded req \<and> ds_Superseded known (cn_ID entry) then
        rank_loop u known req fused (kept, counts\<lparr>dp_superseded := dp_superseded counts + 1\<rparr>)
      else
        let meta = ds_Meta known (cn_ID entry);
            described = (meta \<noteq> None);
            kind = (case meta of None \<Rightarrow> '''' | Some m \<Rightarrow> mta_Kind m)
        in if rq_Scope req \<noteq> [] \<and> \<not> inScope (rq_Scope req) kind described then
             rank_loop u known req fused (kept, counts\<lparr>dp_outOfScope := dp_outOfScope counts + 1\<rparr>)
           else
             let entry' =
               (if \<not> Filter_Empty (rq_Filter req) \<and> described then
                  let b = Filter_boost u (rq_Filter req) (Weights_orDefault (rq_Weights req)) (the meta)
                  in entry\<lparr>cn_Boost := b, cn_Score := f32_add (cn_Score entry) b\<rparr>
                else entry)
             in rank_loop u known req fused (kept @ [entry'], counts))"

definition rank_before :: "candidate \<Rightarrow> candidate \<Rightarrow> bool" where
  "rank_before a b =
     (if \<not> f32_eq (cn_Score a) (cn_Score b) then f32_lt (cn_Score b) (cn_Score a)
      else string_less (ID_String (cn_ID a)) (ID_String (cn_ID b)))"

definition rank_candidates ::
  "(string \<Rightarrow> string) \<Rightarrow> candidate list \<Rightarrow> Described \<Rightarrow> Request \<Rightarrow> nat \<Rightarrow> candidate list \<times> dropped" where
  "rank_candidates u fused known req k =
     (let (kept, counts) = rank_loop u known req fused ([], \<lparr>dp_superseded = 0, dp_outOfScope = 0\<rparr>);
          best = SliceStable rank_before kept
      in (if length best > k then take k best else best, counts))"

section \<open>The pipeline\<close>

record Found =
  fd_Memory :: "Memory option"
  fd_Session :: "Session option"

definition Found_Kind :: "Found \<Rightarrow> Kind" where
  "Found_Kind f =
     (if fd_Memory f \<noteq> None then KindMemory else if fd_Session f \<noteq> None then KindSession else '''')"

definition Found_ID :: "Found \<Rightarrow> ID" where
  "Found_ID f =
     (case fd_Memory f of
        Some m \<Rightarrow> mem_ID m
      | None \<Rightarrow> (case fd_Session f of Some s \<Rightarrow> ses_ID s | None \<Rightarrow> replicate IDSize 0))"

type_synonym Tier = string

record Hit =
  ht_Found :: Found
  ht_Score :: float32
  ht_Similarity :: float32
  ht_Lexical :: float32
  ht_Boost :: float32
  ht_Tier :: Tier

record Pipeline =
  pp_EmbedOne :: "string \<Rightarrow> (string, float32 list) result"
  pp_index :: Index
  pp_Fetch :: "ID \<Rightarrow> (string, Found \<times> Tier) result"
  pp_Describe :: "(ID list \<Rightarrow> (string, Described) result) option"
  pp_SearchLexical :: "(string \<Rightarrow> int \<Rightarrow> (string, ID list) result) option"

record RunResult =
  rr_Hits :: "Hit list"
  rr_Searched :: nat
  rr_Considered :: nat
  rr_LexicalHits :: nat
  rr_SupersededHidden :: nat
  rr_ScopeExcluded :: nat

datatype run_error =
    EmptyQuery
  | EmbedFailed string
  | IndexFailed index_error
  | LexicalFailed string
  | DescribeFailed string
  | FetchFailed ID string

definition DefaultLimit :: int where "DefaultLimit = 5"
definition DefaultCandidates :: int where "DefaultCandidates = 100"

text \<open>The \<open>float32\<close> value nearest to 0.03.\<close>

definition DefaultLexicalWeight :: float32 where "DefaultLexicalWeight = 1022739087"

definition lexicalWeight :: "Request \<Rightarrow> float32" where
  "lexicalWeight req =
     (if f32_eq (rq_LexicalWeight req) 0 then DefaultLexicalWeight
      else if f32_lt (rq_LexicalWeight req) 0 then 0
      else rq_LexicalWeight req)"

definition searchLexical :: "Pipeline \<Rightarrow> string \<Rightarrow> int \<Rightarrow> float32 \<Rightarrow> (run_error, ID list) result" where
  "searchLexical p query k weight =
     (case pp_SearchLexical p of
        None \<Rightarrow> Inr []
      | Some search \<Rightarrow>
          if f32_eq weight 0 then Inr []
          else case search query k of Inl e \<Rightarrow> Inl (LexicalFailed e) | Inr ids \<Rightarrow> Inr ids)"

definition describe :: "Pipeline \<Rightarrow> candidate list \<Rightarrow> (run_error, Described) result" where
  "describe p fused =
     (case pp_Describe p of
        None \<Rightarrow> Inr \<lparr>ds_Meta = Map.empty, ds_Superseded = (\<lambda>_. False)\<rparr>
      | Some catalog \<Rightarrow>
          if fused = [] then Inr \<lparr>ds_Meta = Map.empty, ds_Superseded = (\<lambda>_. False)\<rparr>
          else case catalog (map cn_ID fused) of Inl e \<Rightarrow> Inl (DescribeFailed e) | Inr d \<Rightarrow> Inr d)"

definition fetch_hit :: "Pipeline \<Rightarrow> candidate \<Rightarrow> (run_error, Hit) result" where
  "fetch_hit p match =
     (case pp_Fetch p (cn_ID match) of
        Inl e \<Rightarrow> Inl (FetchFailed (cn_ID match) e)
      | Inr (found, tier) \<Rightarrow>
          Inr \<lparr>ht_Found = found, ht_Score = cn_Score match, ht_Similarity = cn_Similarity match,
               ht_Lexical = cn_Lexical match, ht_Boost = cn_Boost match, ht_Tier = tier\<rparr>)"

definition run_limit :: "Request \<Rightarrow> int" where
  "run_limit req = (if rq_Limit req \<le> 0 then DefaultLimit else rq_Limit req)"

definition run_pool :: "Request \<Rightarrow> int" where
  "run_pool req =
     (let pool = (if rq_Candidates req \<le> 0 then DefaultCandidates else rq_Candidates req)
      in if pool < run_limit req then run_limit req else pool)"

definition Pipeline_Run :: "(string \<Rightarrow> string) \<Rightarrow> Pipeline \<Rightarrow> Request \<Rightarrow> (run_error, RunResult) result" where
  "Pipeline_Run u p req =
     (if rq_Query req = '''' then Inl EmptyQuery
      else case pp_EmbedOne p (rq_Query req) of
        Inl e \<Rightarrow> Inl (EmbedFailed e)
      | Inr query \<Rightarrow>
          (case Index_Search (pp_index p) query (run_pool req) of
             Inl e \<Rightarrow> Inl (IndexFailed e)
           | Inr matches \<Rightarrow>
               let weight = lexicalWeight req in
               bind_result (searchLexical p (rq_Query req) (run_pool req) weight) (\<lambda>lexical.
               let fused = fuse matches lexical weight in
               bind_result (describe p fused) (\<lambda>known.
               let (ranked, counts) = rank_candidates u fused known req (nat (run_limit req)) in
               bind_result (map_result (fetch_hit p) ranked) (\<lambda>hits.
               Inr \<lparr>rr_Hits = hits, rr_Searched = Index_Len (pp_index p), rr_Considered = length fused,
                    rr_LexicalHits = length lexical, rr_SupersededHidden = dp_superseded counts,
                    rr_ScopeExcluded = dp_outOfScope counts\<rparr>)))))"

section \<open>Fusion is reciprocal rank fusion\<close>

fun rank_of :: "ID list \<Rightarrow> ID \<Rightarrow> nat option" where
  "rank_of [] i = None"
| "rank_of (x # xs) i = (if x = i then Some 0 else map_option Suc (rank_of xs i))"

lemma rank_of_snoc:
  "rank_of (xs @ [x]) i =
     (case rank_of xs i of Some r \<Rightarrow> Some r | None \<Rightarrow> if x = i then Some (length xs) else None)"
  by (induction xs) (auto split: option.splits)

lemma rank_of_None: "rank_of xs i = None \<longleftrightarrow> i \<notin> set xs"
  by (induction xs) auto

lemma rank_of_less: "rank_of xs i = Some r \<Longrightarrow> r < length xs"
  by (induction xs arbitrary: r) (auto split: if_splits)

text \<open>
  The candidates of the vector pass in its order, then those only the lexical pass found, in
  the order of their best lexical rank. The score is the sum of what each pass contributes.
\<close>

definition fused_entry :: "Match list \<Rightarrow> ID list \<Rightarrow> float32 \<Rightarrow> nat \<Rightarrow> candidate" where
  "fused_entry matches lexical weight i =
     (let m = matches ! i; base = contribution f32_one i in
      case rank_of lexical (mt_ID m) of
        None \<Rightarrow> \<lparr>cn_ID = mt_ID m, cn_Score = 0, cn_Similarity = mt_Score m, cn_Fused = base,
                 cn_Lexical = 0, cn_Boost = 0\<rparr>
      | Some r \<Rightarrow> \<lparr>cn_ID = mt_ID m, cn_Score = 0, cn_Similarity = mt_Score m,
                   cn_Fused = f32_add base (contribution weight r),
                   cn_Lexical = contribution weight r, cn_Boost = 0\<rparr>)"

definition lexical_entry :: "ID list \<Rightarrow> float32 \<Rightarrow> ID \<Rightarrow> candidate" where
  "lexical_entry lexical weight i =
     (let c = contribution weight (the (rank_of lexical i)) in
      \<lparr>cn_ID = i, cn_Score = 0, cn_Similarity = 0, cn_Fused = c, cn_Lexical = c, cn_Boost = 0\<rparr>)"

definition fuse_spec :: "Match list \<Rightarrow> ID list \<Rightarrow> float32 \<Rightarrow> candidate list" where
  "fuse_spec matches lexical weight =
     map (fused_entry matches lexical weight) [0..<length matches] @
     map (lexical_entry lexical weight) (filter (\<lambda>i. i \<notin> mt_ID ` set matches) (firsts lexical))"

definition places :: "(ID \<rightharpoonup> nat) \<Rightarrow> candidate list \<Rightarrow> bool" where
  "places at fused \<longleftrightarrow> (\<forall>i p. at i = Some p \<longleftrightarrow> p < length fused \<and> cn_ID (fused ! p) = i)"

lemma fuse_vector_spec:
  "distinct (map mt_ID (ms0 @ ms)) \<Longrightarrow> places at (fuse_spec ms0 [] w) \<Longrightarrow>
   fuse_vector (length ms0) ms (at, fuse_spec ms0 [] w) = (at', fused') \<Longrightarrow>
   places at' fused' \<and> fused' = fuse_spec (ms0 @ ms) [] w"
proof (induction ms arbitrary: ms0 at)
  case (Cons m ms)
  let ?f = "fuse_spec ms0 [] w"
  have same: "fuse_spec (ms0 @ [m]) [] w =
      ?f @ [\<lparr>cn_ID = mt_ID m, cn_Score = 0, cn_Similarity = mt_Score m,
              cn_Fused = contribution f32_one (length ms0), cn_Lexical = 0, cn_Boost = 0\<rparr>]"
    by (simp add: fuse_spec_def fused_entry_def nth_append Let_def)
  have len: "length ?f = length ms0" by (simp add: fuse_spec_def)
  have ids: "cn_ID (?f ! p) = mt_ID (ms0 ! p)" if "p < length ms0" for p
    using that by (simp add: fuse_spec_def fused_entry_def Let_def)
  have new: "mt_ID m \<noteq> mt_ID (ms0 ! p)" if "p < length ms0" for p
    using Cons.prems(1) that by auto
  have "places (at(mt_ID m \<mapsto> length ?f)) (fuse_spec (ms0 @ [m]) [] w)"
    unfolding places_def
  proof (intro allI)
    fix i p
    show "(at(mt_ID m \<mapsto> length ?f)) i = Some p \<longleftrightarrow>
        p < length (fuse_spec (ms0 @ [m]) [] w) \<and> cn_ID (fuse_spec (ms0 @ [m]) [] w ! p) = i"
      using Cons.prems(2) ids [of p] new [of p] len
      by (cases "p < length ms0") (auto simp: places_def same nth_append less_Suc_eq)
  qed
  moreover have "fuse_vector (length (ms0 @ [m])) ms (at(mt_ID m \<mapsto> length ?f), fuse_spec (ms0 @ [m]) [] w) = (at', fused')"
    using Cons.prems(3) by (simp add: same del: fun_upd_apply)
  ultimately show ?case using Cons.IH [of "ms0 @ [m]"] Cons.prems(1) by simp
qed simp

lemma lexical_entry_snoc: "j \<in> set lx \<Longrightarrow> lexical_entry (lx @ [i]) w j = lexical_entry lx w j"
  using rank_of_None [of lx j] by (auto simp: lexical_entry_def rank_of_snoc)

lemma fused_entry_snoc:
  "mt_ID (ms ! q) \<noteq> i \<or> i \<in> set lx \<Longrightarrow> fused_entry ms (lx @ [i]) w q = fused_entry ms lx w q"
proof -
  assume "mt_ID (ms ! q) \<noteq> i \<or> i \<in> set lx"
  then have "rank_of (lx @ [i]) (mt_ID (ms ! q)) = rank_of lx (mt_ID (ms ! q))"
    using rank_of_None [of lx i] by (auto simp: rank_of_snoc split: option.split)
  then show ?thesis by (simp add: fused_entry_def)
qed

lemma fuse_spec_seen:
  assumes "i \<in> set lx"
  shows "fuse_spec ms (lx @ [i]) w = fuse_spec ms lx w"
  using assms by (simp add: fuse_spec_def firsts_snoc fused_entry_snoc lexical_entry_snoc)

lemma fuse_spec_both:
  assumes "i \<notin> set lx" "p < length ms" "mt_ID (ms ! p) = i" "distinct (map mt_ID ms)"
  shows "fuse_spec ms (lx @ [i]) w = (fuse_spec ms lx w)[p := fused_entry ms (lx @ [i]) w p]"
proof -
  have other: "mt_ID (ms ! q) \<noteq> i" if "q < length ms" "q \<noteq> p" for q
    using assms(2,3,4) that by (auto simp: distinct_conv_nth)
  have "map (fused_entry ms (lx @ [i]) w) [0..<length ms] =
      (map (fused_entry ms lx w) [0..<length ms])[p := fused_entry ms (lx @ [i]) w p]"
  proof (rule nth_equalityI)
    fix j assume "j < length (map (fused_entry ms (lx @ [i]) w) [0..<length ms])"
    then have j: "j < length ms" by simp
    then show "map (fused_entry ms (lx @ [i]) w) [0..<length ms] ! j =
        (map (fused_entry ms lx w) [0..<length ms])[p := fused_entry ms (lx @ [i]) w p] ! j"
      using other [OF j] by (cases "j = p") (simp_all add: fused_entry_snoc)
  qed simp
  moreover have "i \<in> mt_ID ` set ms" using assms(2,3) by auto
  ultimately show ?thesis
    using assms(1,2) by (simp add: fuse_spec_def firsts_snoc lexical_entry_snoc list_update_append)
qed

lemma fuse_spec_new:
  assumes "i \<notin> set lx" "i \<notin> mt_ID ` set ms"
  shows "fuse_spec ms (lx @ [i]) w = fuse_spec ms lx w @ [lexical_entry (lx @ [i]) w i]"
proof -
  have "mt_ID (ms ! q) \<noteq> i" if "q < length ms" for q using assms(2) that by auto
  then show ?thesis
    using assms by (simp add: fuse_spec_def firsts_snoc lexical_entry_snoc fused_entry_snoc)
qed

lemma fuse_spec_ids: "map cn_ID (fuse_spec ms lx w) = map mt_ID ms @ filter (\<lambda>i. i \<notin> mt_ID ` set ms) (firsts lx)"
proof -
  have "map (\<lambda>q. cn_ID (fused_entry ms lx w q)) [0..<length ms] = map mt_ID ms"
    by (rule nth_equalityI) (auto simp: fused_entry_def Let_def split: option.split)
  moreover have "cn_ID (lexical_entry lx w i) = i" for i by (simp add: lexical_entry_def Let_def)
  ultimately show ?thesis by (simp add: fuse_spec_def o_def)
qed

lemma fuse_spec_Lexical:
  assumes "p < length (fuse_spec ms lx w)" "cn_ID (fuse_spec ms lx w ! p) \<in> set lx"
  shows "\<exists>r < length lx. cn_Lexical (fuse_spec ms lx w ! p) = contribution w r"
proof -
  let ?c = "fuse_spec ms lx w ! p"
  obtain r where r: "rank_of lx (cn_ID ?c) = Some r"
    using assms(2) rank_of_None [of lx "cn_ID ?c"] by (cases "rank_of lx (cn_ID ?c)") auto
  have "?c \<in> set (fuse_spec ms lx w)" using assms(1) by (rule nth_mem)
  then have "cn_Lexical ?c = contribution w r"
    using r by (auto simp: fuse_spec_def fused_entry_def lexical_entry_def Let_def split: option.splits)
  then show ?thesis using rank_of_less [OF r] by blast
qed

lemma fuse_lexical_step:
  assumes "distinct (map mt_ID ms)" "\<forall>r < length lx. f32_lt 0 (contribution w r)"
    and "places at (fuse_spec ms lx w)"
  shows "\<exists>at'. fuse_lexical w (length lx) (i # rest) (at, fuse_spec ms lx w) =
      fuse_lexical w (length (lx @ [i])) rest (at', fuse_spec ms (lx @ [i]) w) \<and>
    places at' (fuse_spec ms (lx @ [i]) w)"
proof -
  let ?f = "fuse_spec ms lx w"
  have at: "at j = Some p \<longleftrightarrow> p < length ?f \<and> cn_ID (?f ! p) = j" for j p
    using assms(3) by (simp add: places_def)
  have ids: "cn_ID (?f ! p) = (map mt_ID ms @ filter (\<lambda>i. i \<notin> mt_ID ` set ms) (firsts lx)) ! p"
    if "p < length ?f" for p
    using that fuse_spec_ids [of ms lx w] by (metis nth_map)
  have len: "length ?f = length ms + length (filter (\<lambda>i. i \<notin> mt_ID ` set ms) (firsts lx))"
    by (simp add: fuse_spec_def)
  have known: "(\<exists>p. at j = Some p) \<longleftrightarrow> j \<in> mt_ID ` set ms \<union> set lx" for j
  proof -
    have "(\<exists>p. at j = Some p) \<longleftrightarrow> j \<in> set (map cn_ID ?f)" unfolding at in_set_conv_nth by auto
    then show ?thesis unfolding fuse_spec_ids by auto
  qed
  consider (seen) "i \<in> set lx" | (both) "i \<notin> set lx" "i \<in> mt_ID ` set ms"
    | (new) "i \<notin> set lx" "i \<notin> mt_ID ` set ms" by blast
  then show ?thesis
  proof cases
    case seen
    then obtain p where p: "at i = Some p" using known by blast
    then obtain r where "r < length lx" "cn_Lexical (?f ! p) = contribution w r"
      using fuse_spec_Lexical [of p ms lx w] seen at [of i p] by auto
    then have "f32_lt 0 (cn_Lexical (?f ! p))" using assms(2) by simp
    then show ?thesis using p assms(3) fuse_spec_seen [OF seen] by (intro exI [of _ at]) simp
  next
    case both
    then obtain p where p: "at i = Some p" using known by blast
    have "p < length ms"
    proof (rule ccontr)
      assume "\<not> p < length ms"
      moreover have pl: "p < length ?f" using p at [of i p] by simp
      ultimately have "p - length ms < length (filter (\<lambda>i. i \<notin> mt_ID ` set ms) (firsts lx))"
        "cn_ID (?f ! p) = filter (\<lambda>i. i \<notin> mt_ID ` set ms) (firsts lx) ! (p - length ms)"
        using len ids [OF pl] by (linarith, simp add: nth_append)
      then have "cn_ID (?f ! p) \<in> set (filter (\<lambda>i. i \<notin> mt_ID ` set ms) (firsts lx))"
        by (metis nth_mem)
      then show False using both(2) p at [of i p] by (simp del: set_filter add: filter_set [symmetric])
    qed
    then have m: "p < length ms" "mt_ID (ms ! p) = i" "?f ! p = fused_entry ms lx w p"
      using p at [of i p] ids [of p] by (auto simp: nth_append fuse_spec_def)
    have "rank_of lx i = None" using both by (simp add: rank_of_None)
    then have e: "(?f ! p)\<lparr>cn_Lexical := contribution w (length lx),
        cn_Fused := f32_add (cn_Fused (?f ! p)) (contribution w (length lx))\<rparr> = fused_entry ms (lx @ [i]) w p"
      and z: "\<not> f32_lt 0 (cn_Lexical (?f ! p))"
      using m by (simp_all add: fused_entry_def rank_of_snoc Let_def)
    note spec = fuse_spec_both [OF both(1) m(1,2) assms(1), of w]
    have "places at (fuse_spec ms (lx @ [i]) w)"
      using assms(3) p at [of i p] m(2) unfolding spec places_def
      by (auto simp: nth_list_update) (auto simp: fused_entry_def Let_def split: option.splits)
    then show ?thesis using p e z spec by (intro exI [of _ at]) simp
  next
    case new
    then have n: "at i = None" using known [of i] by (cases "at i") auto
    note spec = fuse_spec_new [OF new, of w]
    have "rank_of lx i = None" using new by (simp add: rank_of_None)
    then have e: "lexical_entry (lx @ [i]) w i = \<lparr>cn_ID = i, cn_Score = 0, cn_Similarity = 0,
        cn_Fused = contribution w (length lx), cn_Lexical = contribution w (length lx), cn_Boost = 0\<rparr>"
      by (simp add: lexical_entry_def rank_of_snoc Let_def)
    have "cn_ID (?f ! p) \<noteq> i" if "p < length ?f" for p
      using n at [of i p] that by auto
    then have "places (at(i \<mapsto> length ?f)) (fuse_spec ms (lx @ [i]) w)"
      using at unfolding spec places_def e by (auto simp: nth_append less_Suc_eq)
    then show ?thesis
      using n e spec by (intro exI [of _ "at(i \<mapsto> length ?f)"]) (simp del: fun_upd_apply)
  qed
qed

lemma fuse_lexical_spec:
  "distinct (map mt_ID ms) \<Longrightarrow> \<forall>r < length (lx @ rest). f32_lt 0 (contribution w r) \<Longrightarrow>
   places at (fuse_spec ms lx w) \<Longrightarrow>
   snd (fuse_lexical w (length lx) rest (at, fuse_spec ms lx w)) = fuse_spec ms (lx @ rest) w"
proof (induction rest arbitrary: lx at)
  case (Cons i rest)
  then obtain at' where "fuse_lexical w (length lx) (i # rest) (at, fuse_spec ms lx w) =
      fuse_lexical w (length (lx @ [i])) rest (at', fuse_spec ms (lx @ [i]) w)"
    "places at' (fuse_spec ms (lx @ [i]) w)"
    using fuse_lexical_step [OF Cons.prems(1) _ Cons.prems(3), of i rest] by auto
  with Cons.IH [of "lx @ [i]" at'] Cons.prems(1,2) show ?case by simp
qed simp

end
