(* ===== verification/Recall_Spec.thy ===== *)
theory Recall_Spec
  imports Recall
begin

text \<open>
  What package \<open>recall\<close> promises: fusion is weighted reciprocal rank fusion, ranking returns the
  best of the eligible candidates in an order that depends on nothing but the candidates, a
  filter can reorder an answer and never shorten it, and a run answers with as many distinct,
  current, in-scope records as there are, up to the limit.
\<close>

section \<open>Fusion\<close>

text \<open>
  C27. Fusing a vector ranking that names each record once with a lexical ranking scores each
  record with the sum of what each pass contributes at the best rank it gave the record, keeps
  the vector pass's order and appends the records only the lexical pass found, as long as the
  weight is large enough for a contribution to be told from zero.
\<close>

theorem fuse_correct:
  assumes "distinct (map mt_ID matches)"
    and "\<forall>r < length lexical. f32_lt 0 (contribution weight r)"
  shows "fuse matches lexical weight =
    map (\<lambda>c. c\<lparr>cn_Score := cn_Fused c\<rparr>) (fuse_spec matches lexical weight)"
proof -
  obtain at fused where v: "fuse_vector 0 matches (Map.empty, []) = (at, fused)"
    by (cases "fuse_vector 0 matches (Map.empty, [])")
  have "fuse_spec [] [] weight = []" by (simp add: fuse_spec_def)
  then have p: "places at fused" "fused = fuse_spec matches [] weight"
    using fuse_vector_spec [of "[]" matches Map.empty weight at fused] assms(1) v by (simp_all add: places_def)
  then show ?thesis
    using fuse_lexical_spec [of matches "[]" lexical weight at] assms v by (simp add: fuse_def)
qed

theorem fuse_correct_witness:
  "fuse [\<lparr>mt_ID = [1], mt_Score = 0\<rparr>, \<lparr>mt_ID = [2], mt_Score = 0\<rparr>] [[3], [2]] DefaultLexicalWeight =
    map (\<lambda>c. c\<lparr>cn_Score := cn_Fused c\<rparr>)
      (fuse_spec [\<lparr>mt_ID = [1], mt_Score = 0\<rparr>, \<lparr>mt_ID = [2], mt_Score = 0\<rparr>] [[3], [2]] DefaultLexicalWeight)"
proof (rule fuse_correct)
  have "f32_of_nat 1 = 1065353216" "f32_add RRFk 1065353216 = 1114898432"
    "f32_lt 0 (f32_div DefaultLexicalWeight 1114898432)"
    by (simp_all add: DefaultLexicalWeight_def RRFk_def f32_eval)
  then have "f32_lt 0 (contribution DefaultLexicalWeight 0)" by (simp add: contribution_def)
  moreover have "f32_of_nat 2 = 1073741824" "f32_add RRFk 1073741824 = 1115160576"
    "f32_lt 0 (f32_div DefaultLexicalWeight 1115160576)"
    by (simp_all add: DefaultLexicalWeight_def RRFk_def f32_eval)
  then have "f32_lt 0 (contribution DefaultLexicalWeight 1)" by (simp add: contribution_def numeral_2_eq_2)
  ultimately show "\<forall>r < length [[3], [2] :: ID]. f32_lt 0 (contribution DefaultLexicalWeight r)"
    by (auto simp: less_Suc_eq)
qed simp

text \<open>The records a fusion holds, whatever the weight.\<close>

lemma fuse_vector_ids:
  "map cn_ID (snd (fuse_vector n ms (at, fused))) = map cn_ID fused @ map mt_ID ms"
  by (induction n ms "(at, fused)" arbitrary: at fused rule: fuse_vector.induct) simp_all

definition indexed :: "(ID \<rightharpoonup> nat) \<Rightarrow> candidate list \<Rightarrow> bool" where
  "indexed at fused \<longleftrightarrow> dom at = cn_ID ` set fused \<and> (\<forall>p \<in> ran at. p < length fused)"

lemma fuse_vector_indexed:
  "indexed at fused \<Longrightarrow> (case fuse_vector n ms (at, fused) of (at', fused') \<Rightarrow> indexed at' fused')"
proof (induction ms arbitrary: n at fused)
  case (Cons m ms)
  have "indexed (at(mt_ID m \<mapsto> length fused)) (fused @ [\<lparr>cn_ID = mt_ID m, cn_Score = 0, cn_Similarity = mt_Score m,
      cn_Fused = contribution f32_one n, cn_Lexical = 0, cn_Boost = 0\<rparr>])"
    using Cons.prems by (auto simp: indexed_def ran_def less_Suc_eq)
  from Cons.IH [OF this, of "Suc n"] show ?case by (simp del: fun_upd_apply)
qed simp

lemma fuse_lexical_ids:
  "indexed at fused \<Longrightarrow>
   set (map cn_ID (snd (fuse_lexical w n lx (at, fused)))) = set (map cn_ID fused) \<union> set lx \<and>
   (distinct (map cn_ID fused) \<longrightarrow> distinct (map cn_ID (snd (fuse_lexical w n lx (at, fused)))))"
proof (induction lx arbitrary: n at fused)
  case (Cons i lx)
  show ?case
  proof (cases "at i")
    case None
    let ?c = "\<lparr>cn_ID = i, cn_Score = 0, cn_Similarity = 0, cn_Fused = contribution w n,
      cn_Lexical = contribution w n, cn_Boost = 0\<rparr>"
    have new: "i \<notin> cn_ID ` set fused" using None Cons.prems unfolding indexed_def by (metis domIff)
    have "indexed (at(i \<mapsto> length fused)) (fused @ [?c])"
      using Cons.prems by (auto simp: indexed_def ran_def less_Suc_eq)
    from Cons.IH [OF this, of "n + 1"] show ?thesis using None new by (simp del: fun_upd_apply)
  next
    case (Some p)
    let ?c = "(fused ! p)\<lparr>cn_Lexical := contribution w n, cn_Fused := f32_add (cn_Fused (fused ! p)) (contribution w n)\<rparr>"
    let ?f = "if f32_lt 0 (cn_Lexical (fused ! p)) then fused else fused[p := ?c]"
    have p: "p < length fused" using Some Cons.prems by (auto simp: indexed_def ran_def)
    have ids: "map cn_ID ?f = map cn_ID fused" using p by (simp add: map_update list_update_same_conv)
    have i: "i \<in> set (map cn_ID fused)" using Some Cons.prems by (auto simp: indexed_def)
    have "indexed at ?f"
      using Cons.prems arg_cong [OF ids, of set] arg_cong [OF ids, of length] by (simp add: indexed_def)
    from Cons.IH [OF this, of "n + 1"] show ?thesis using Some i unfolding ids by (simp add: insert_absorb del: set_map split: if_splits)
  qed
qed simp

lemma fuse_ids:
  "cn_ID ` set (fuse ms lx w) = mt_ID ` set ms \<union> set lx"
  "distinct (map mt_ID ms) \<Longrightarrow> distinct (map cn_ID (fuse ms lx w))"
proof -
  obtain at fused where v: "fuse_vector 0 ms (Map.empty, []) = (at, fused)"
    by (cases "fuse_vector 0 ms (Map.empty, [])")
  have ix: "indexed at fused"
    using fuse_vector_indexed [of Map.empty "[]" 0 ms] v by (simp add: indexed_def)
  have ids: "map cn_ID fused = map mt_ID ms" using fuse_vector_ids [of 0 ms Map.empty "[]"] v by simp
  note f = fuse_lexical_ids [OF ix, of w 0 lx]
  have o: "map cn_ID (fuse ms lx w) = map cn_ID (snd (fuse_lexical w 0 lx (at, fused)))"
    by (simp add: fuse_def v o_def)
  show "cn_ID ` set (fuse ms lx w) = mt_ID ` set ms \<union> set lx"
    using f arg_cong [OF o, of set] arg_cong [OF ids, of set] by simp
  show "distinct (map mt_ID ms) \<Longrightarrow> distinct (map cn_ID (fuse ms lx w))"
    using f o ids by simp
qed

section \<open>Ranking\<close>

text \<open>What drops a candidate, and what the filter adds to one.\<close>

definition superseded_out :: "Described \<Rightarrow> Request \<Rightarrow> candidate \<Rightarrow> bool" where
  "superseded_out known req c \<longleftrightarrow> \<not> rq_IncludeSuperseded req \<and> ds_Superseded known (cn_ID c)"

definition scope_out :: "Described \<Rightarrow> Request \<Rightarrow> candidate \<Rightarrow> bool" where
  "scope_out known req c \<longleftrightarrow>
     rq_Scope req \<noteq> [] \<and> (\<forall>m. ds_Meta known (cn_ID c) = Some m \<longrightarrow> mta_Kind m \<notin> set (rq_Scope req))"

definition eligible :: "Described \<Rightarrow> Request \<Rightarrow> candidate list \<Rightarrow> candidate list" where
  "eligible known req fused = filter (\<lambda>c. \<not> superseded_out known req c \<and> \<not> scope_out known req c) fused"

definition preferred :: "(string \<Rightarrow> string) \<Rightarrow> Described \<Rightarrow> Request \<Rightarrow> candidate \<Rightarrow> candidate" where
  "preferred u known req c =
     (case ds_Meta known (cn_ID c) of
        None \<Rightarrow> c
      | Some m \<Rightarrow>
          if Filter_Empty (rq_Filter req) then c
          else let b = Filter_boost u (rq_Filter req) (Weights_orDefault (rq_Weights req)) m
               in c\<lparr>cn_Boost := b, cn_Score := f32_add (cn_Score c) b\<rparr>)"

lemma cn_ID_preferred [simp]: "cn_ID (preferred u known req c) = cn_ID c"
  by (simp add: preferred_def Let_def split: option.split)

lemma rank_loop_spec:
  "rank_loop u known req fused (kept, counts) =
     (kept @ map (preferred u known req) (eligible known req fused),
      \<lparr>dp_superseded = dp_superseded counts + length (filter (superseded_out known req) fused),
       dp_outOfScope = dp_outOfScope counts +
         length (filter (\<lambda>c. \<not> superseded_out known req c \<and> scope_out known req c) fused)\<rparr>)"
proof (induction fused arbitrary: kept counts)
  case (Cons c fused)
  consider "superseded_out known req c" | "\<not> superseded_out known req c" "scope_out known req c"
    | "\<not> superseded_out known req c" "\<not> scope_out known req c" by blast
  then show ?case
  proof cases
    case 1
    then show ?thesis by (simp add: Cons.IH superseded_out_def eligible_def)
  next
    case 2
    then show ?thesis
      by (cases "ds_Meta known (cn_ID c)")
        (simp_all add: Cons.IH superseded_out_def scope_out_def eligible_def inScope_def)
  next
    case 3
    then show ?thesis
      by (cases "ds_Meta known (cn_ID c)")
        (auto simp: Cons.IH superseded_out_def scope_out_def eligible_def inScope_def preferred_def Let_def)
  qed
qed (simp add: eligible_def)

definition pool_of :: "(string \<Rightarrow> string) \<Rightarrow> Described \<Rightarrow> Request \<Rightarrow> candidate list \<Rightarrow> candidate list" where
  "pool_of u known req fused = map (preferred u known req) (eligible known req fused)"

lemma rank_candidates_spec:
  "rank_candidates u fused known req k =
     (take k (SliceStable rank_before (pool_of u known req fused)),
      \<lparr>dp_superseded = length (filter (superseded_out known req) fused),
       dp_outOfScope = length (filter (\<lambda>c. \<not> superseded_out known req c \<and> scope_out known req c) fused)\<rparr>)"
  by (simp add: rank_candidates_def rank_loop_spec pool_of_def Let_def)

lemma three_ways:
  "length (filter (superseded_out known req) fused) +
   length (filter (\<lambda>c. \<not> superseded_out known req c \<and> scope_out known req c) fused) +
   length (eligible known req fused) = length fused"
  by (induction fused) (auto simp: eligible_def)

interpretation best: weak_order rank_before "\<lambda>c. \<not> f32_nan (cn_Score c)"
proof
  fix a b
  assume "rank_before a b" "\<not> f32_nan (cn_Score a)" "\<not> f32_nan (cn_Score b)"
  then show "\<not> rank_before b a"
    by (auto simp: rank_before_def f32_lt_def f32_eq_def string_less_asym split: if_splits)
next
  fix a b c
  assume n: "\<not> f32_nan (cn_Score a)" "\<not> f32_nan (cn_Score b)" "\<not> f32_nan (cn_Score c)"
    and "\<not> rank_before a b" "\<not> rank_before b c"
  moreover have "\<not> string_less x y \<Longrightarrow> \<not> string_less y z \<Longrightarrow> \<not> string_less x z" for x y z
    using string_less_linear string_less_trans string_less_asym by metis
  ultimately show "\<not> rank_before a c"
    by (auto simp: rank_before_def f32_lt_def f32_eq_def split: if_splits)
qed

text \<open>A pool of three, the first of which a later record replaces.\<close>

definition sample_pool :: "candidate list" where
  "sample_pool =
     [\<lparr>cn_ID = [1], cn_Score = 2, cn_Similarity = 0, cn_Fused = 2, cn_Lexical = 0, cn_Boost = 0\<rparr>,
      \<lparr>cn_ID = [2], cn_Score = 1, cn_Similarity = 0, cn_Fused = 1, cn_Lexical = 0, cn_Boost = 0\<rparr>,
      \<lparr>cn_ID = [3], cn_Score = 1, cn_Similarity = 0, cn_Fused = 1, cn_Lexical = 0, cn_Boost = 0\<rparr>]"

definition unknown :: Described where
  "unknown = \<lparr>ds_Meta = Map.empty, ds_Superseded = (\<lambda>i. i = [1])\<rparr>"

definition sample_request :: Request where
  "sample_request =
     \<lparr>rq_Query = ''q'', rq_Limit = 1, rq_Scope = [], rq_Filter = \<lparr>fl_Types = [], fl_Tags = []\<rparr>,
      rq_Weights = \<lparr>wt_Tag = 0, wt_Type = 0\<rparr>, rq_LexicalWeight = 0, rq_IncludeSuperseded = False, rq_Candidates = 0\<rparr>"

lemmas sample_defs = sample_pool_def unknown_def sample_request_def

text \<open>
  C28. Ranking returns, best score first and ties in the order of the ids, the best of the
  candidates that are neither superseded nor out of scope, as many as there are up to the
  limit, and counts every candidate it left out for each reason; the filter only adds its
  boost to the scores.
\<close>

theorem rank_correct:
  assumes "\<forall>c \<in> set (pool_of u known req fused). \<not> f32_nan (cn_Score c)"
    and "rank_candidates u fused known req k = (ranked, counts)"
  shows "length ranked = min k (length (pool_of u known req fused)) \<and>
    mset ranked \<subseteq># mset (pool_of u known req fused) \<and>
    sorted_wrt (\<lambda>a b. \<not> rank_before b a) ranked \<and>
    (\<forall>a \<in> set ranked. \<forall>b \<in># mset (pool_of u known req fused) - mset ranked. \<not> rank_before b a) \<and>
    dp_superseded counts = length (filter (superseded_out known req) fused) \<and>
    dp_superseded counts + dp_outOfScope counts + length (pool_of u known req fused) = length fused"
proof -
  have r: "ranked = take k (SliceStable rank_before (pool_of u known req fused))"
    "counts = \<lparr>dp_superseded = length (filter (superseded_out known req) fused),
       dp_outOfScope = length (filter (\<lambda>c. \<not> superseded_out known req c \<and> scope_out known req c) fused)\<rparr>"
    using assms(2) by (simp_all add: rank_candidates_spec)
  have l: "length (pool_of u known req fused) = length (eligible known req fused)" by (simp add: pool_of_def)
  show ?thesis
    using best.best_first [OF assms(1), of k] three_ways [of known req fused]
    unfolding r by (simp add: best.arranged_def l)
qed

theorem rank_correct_witness:
  "\<exists>ranked counts. rank_candidates id sample_pool unknown sample_request 1 = (ranked, counts) \<and> length ranked = 1 \<and>
     dp_superseded counts + dp_outOfScope counts = 1"
proof -
  obtain ranked counts where r: "rank_candidates id sample_pool unknown sample_request 1 = (ranked, counts)"
    by (cases "rank_candidates id sample_pool unknown sample_request 1")
  have p: "pool_of id unknown sample_request sample_pool = tl sample_pool"
    by (simp add: pool_of_def eligible_def preferred_def superseded_out_def scope_out_def sample_defs)
  have n: "\<forall>c \<in> set (pool_of id unknown sample_request sample_pool). \<not> f32_nan (cn_Score c)"
    unfolding p by (simp add: sample_defs f32_nan_def)
  show ?thesis using rank_correct [OF n r] r unfolding p by (auto simp: sample_defs)
qed

text \<open>The order is total on candidates with different ids, so it has one arrangement.\<close>

lemma rank_before_total:
  "\<not> f32_nan (cn_Score a) \<Longrightarrow> \<not> f32_nan (cn_Score b) \<Longrightarrow> cn_ID a \<noteq> cn_ID b \<Longrightarrow> rank_before a b \<or> rank_before b a"
  using string_less_linear [of "ID_String (cn_ID a)" "ID_String (cn_ID b)"]
  by (auto simp: rank_before_def f32_lt_def f32_eq_def)

lemma one_arrangement:
  "sorted_wrt (\<lambda>a b. \<not> rank_before b a) xs \<Longrightarrow> sorted_wrt (\<lambda>a b. \<not> rank_before b a) ys \<Longrightarrow> mset xs = mset ys \<Longrightarrow>
   distinct (map cn_ID xs) \<Longrightarrow> \<forall>c \<in> set xs. \<not> f32_nan (cn_Score c) \<Longrightarrow> xs = ys"
proof (induction xs arbitrary: ys)
  case (Cons x xs)
  then obtain y ys' where ys: "ys = y # ys'" by (cases ys) auto
  have sets: "set (x # xs) = set ys" using Cons.prems(3) by (metis set_mset_mset)
  have "x = y"
  proof (rule ccontr)
    assume "x \<noteq> y"
    then have m: "y \<in> set xs" "x \<in> set ys'" using sets ys by auto
    then have "\<not> rank_before y x" "\<not> rank_before x y" using Cons.prems(1,2) ys by auto
    moreover have "cn_ID y \<noteq> cn_ID x" using m(1) Cons.prems(4) by (metis distinct.simps(2) image_eqI list.simps(9) set_map)
    ultimately show False using rank_before_total [of x y] Cons.prems(5) m(1) by auto
  qed
  then show ?case using Cons ys by simp
qed simp

text \<open>
  Two runs agree: the ranked records depend on which candidates there are and not on the
  order fusion met them in.
\<close>

theorem rank_deterministic:
  assumes "mset fused = mset fused'" "distinct (map cn_ID fused)"
    and "\<forall>c \<in> set (pool_of u known req fused). \<not> f32_nan (cn_Score c)"
  shows "rank_candidates u fused known req k = rank_candidates u fused' known req k"
proof -
  let ?s = "\<lambda>f. SliceStable rank_before (pool_of u known req f)"
  have len: "length (filter P fused) = length (filter P fused')" for P
    using assms(1) by (metis mset_filter size_mset)
  have m: "mset (pool_of u known req fused) = mset (pool_of u known req fused')"
    using assms(1) by (simp add: pool_of_def eligible_def)
  then have n: "\<forall>c \<in> set (pool_of u known req fused'). \<not> f32_nan (cn_Score c)"
    using assms(3) by (metis set_mset_mset)
  have "map cn_ID (pool_of u known req fused) = map cn_ID (eligible known req fused)"
    by (simp add: pool_of_def)
  then have "distinct (map cn_ID (pool_of u known req fused))"
    using assms(2) by (simp add: eligible_def distinct_map_filter)
  then have "distinct (map cn_ID (?s fused))" by (metis mset_SliceStable mset_map mset_eq_imp_distinct_iff)
  then have "?s fused = ?s fused'"
    using one_arrangement [of "?s fused" "?s fused'"] best.arranged_SliceStable [OF assms(3)]
      best.arranged_SliceStable [OF n] m assms(3) by (simp add: best.arranged_def)
  then show ?thesis by (simp add: rank_candidates_spec len)
qed

theorem rank_deterministic_witness:
  "rank_candidates id sample_pool unknown sample_request 1 =
   rank_candidates id (rev sample_pool) unknown sample_request 1"
proof (rule rank_deterministic)
  show "\<forall>c \<in> set (pool_of id unknown sample_request sample_pool). \<not> f32_nan (cn_Score c)"
    by (simp add: pool_of_def eligible_def preferred_def superseded_out_def scope_out_def sample_defs f32_nan_def)
qed (simp_all add: sample_defs)

text \<open>
  A filter, whatever it asks for and however it is weighted, never costs an answer: it
  changes neither how many records come back nor what is left out, and with room for all of
  them it returns the same records.
\<close>

theorem rank_filter_soft:
  "length (fst (rank_candidates u fused known (req\<lparr>rq_Filter := f, rq_Weights := w\<rparr>) k)) =
     length (fst (rank_candidates u fused known req k)) \<and>
   snd (rank_candidates u fused known (req\<lparr>rq_Filter := f, rq_Weights := w\<rparr>) k) =
     snd (rank_candidates u fused known req k) \<and>
   mset (map cn_ID (fst (rank_candidates u fused known (req\<lparr>rq_Filter := f, rq_Weights := w\<rparr>) (length fused)))) =
     mset (map cn_ID (fst (rank_candidates u fused known req (length fused))))"
proof -
  let ?r = "req\<lparr>rq_Filter := f, rq_Weights := w\<rparr>"
  have same: "superseded_out known ?r = superseded_out known req" "scope_out known ?r = scope_out known req"
    by (simp_all add: fun_eq_iff superseded_out_def scope_out_def)
  then have e: "eligible known ?r fused = eligible known req fused" by (simp add: eligible_def)
  have l: "length (pool_of u known q fused) \<le> length fused" for q
    by (simp add: pool_of_def eligible_def)
  have all: "mset (map cn_ID (fst (rank_candidates u fused known q (length fused)))) = mset (map cn_ID (eligible known q fused))" for q
    using l [of q] by (simp add: rank_candidates_spec pool_of_def multiset.map_comp o_def)
  show ?thesis unfolding all by (simp add: rank_candidates_spec same e pool_of_def)
qed

section \<open>A run\<close>

lemma ranked_ids:
  assumes "rank_candidates u fused known req k = (ranked, counts)"
  shows "length ranked = min k (length fused - dp_superseded counts - dp_outOfScope counts)"
    "mset (map cn_ID ranked) \<subseteq># mset (map cn_ID (eligible known req fused))"
proof -
  have r: "ranked = take k (SliceStable rank_before (pool_of u known req fused))"
    "dp_superseded counts + dp_outOfScope counts + length (eligible known req fused) = length fused"
    using assms three_ways [of known req fused] by (auto simp: rank_candidates_spec)
  then show "length ranked = min k (length fused - dp_superseded counts - dp_outOfScope counts)"
    by (simp add: pool_of_def min.commute)
  have "mset ranked \<subseteq># mset (pool_of u known req fused)"
    unfolding r(1) by (metis append_take_drop_id mset_SliceStable mset_append mset_subset_eq_add_left)
  from image_mset_subseteq_mono [OF this, of cn_ID]
  show "mset (map cn_ID ranked) \<subseteq># mset (map cn_ID (eligible known req fused))"
    by (simp add: pool_of_def multiset.map_comp o_def)
qed

definition admitted :: "Described \<Rightarrow> Request \<Rightarrow> ID \<Rightarrow> bool" where
  "admitted known req i \<longleftrightarrow>
     (rq_IncludeSuperseded req \<or> \<not> ds_Superseded known i) \<and>
     (rq_Scope req = [] \<or> (\<exists>m. ds_Meta known i = Some m \<and> mta_Kind m \<in> set (rq_Scope req)))"

definition answered :: "Pipeline \<Rightarrow> Request \<Rightarrow> Match list \<Rightarrow> ID list \<Rightarrow> Described \<Rightarrow> RunResult \<Rightarrow> bool" where
  "answered p req matches lexical known r \<longleftrightarrow>
     rr_Considered r = card (mt_ID ` set matches \<union> set lexical) \<and>
     length (rr_Hits r) =
       min (nat (run_limit req)) (rr_Considered r - rr_SupersededHidden r - rr_ScopeExcluded r) \<and>
     (\<exists>ids. distinct ids \<and> set ids \<subseteq> mt_ID ` set matches \<union> set lexical \<and> list_all (admitted known req) ids \<and>
        list_all2 (\<lambda>i h. pp_Fetch p i = Inr (ht_Found h, ht_Tier h)) ids (rr_Hits r))"

lemma fetch_hit_Inr: "fetch_hit p c = Inr h \<Longrightarrow> pp_Fetch p (cn_ID c) = Inr (ht_Found h, ht_Tier h)"
  by (auto simp: fetch_hit_def split: sum.splits prod.splits)

lemma map_result_Inl: "map_result f xs = Inl e \<Longrightarrow> \<exists>x \<in> set xs. f x = Inl e"
  by (induction xs) (auto simp: bind_result_Inl_iff)

lemma hits_answered:
  assumes "distinct (map mt_ID matches)"
    and r: "rank_candidates u (fuse matches lexical w) known req (nat (run_limit req)) = (ranked, counts)"
    and h: "map_result (fetch_hit p) ranked = Inr hits"
  shows "answered p req matches lexical known
    \<lparr>rr_Hits = hits, rr_Searched = n, rr_Considered = length (fuse matches lexical w),
     rr_LexicalHits = m, rr_SupersededHidden = dp_superseded counts, rr_ScopeExcluded = dp_outOfScope counts\<rparr>"
proof -
  let ?f = "fuse matches lexical w"
  note ids = ranked_ids [OF r] and d = fuse_ids(2) [OF assms(1), of lexical w]
  have e: "set (map cn_ID ranked) \<subseteq> cn_ID ` set (eligible known req ?f)"
    using set_mset_mono [OF ids(2)] by simp
  have "distinct (map cn_ID (eligible known req ?f))" using d by (simp add: eligible_def distinct_map_filter)
  then have "distinct (map cn_ID ranked)" by (rule distinct_submset [OF ids(2)])
  moreover have "set (map cn_ID ranked) \<subseteq> mt_ID ` set matches \<union> set lexical"
  proof -
    have "cn_ID ` set (eligible known req ?f) \<subseteq> cn_ID ` set ?f" by (auto simp: eligible_def)
    with e show ?thesis using fuse_ids(1) [of matches lexical w] by blast
  qed
  moreover have "admitted known req i" if "i \<in> set (map cn_ID ranked)" for i
    using e that by (auto simp: eligible_def admitted_def superseded_out_def scope_out_def)
  then have "list_all (admitted known req) (map cn_ID ranked)" by (simp add: list_all_iff)
  moreover have l: "list_all2 (\<lambda>c h. fetch_hit p c = Inr h) ranked hits" using h by (simp add: map_result_Inr_iff)
  then have "list_all2 (\<lambda>i h. pp_Fetch p i = Inr (ht_Found h, ht_Tier h)) (map cn_ID ranked) hits"
    unfolding list_all2_map1 by (rule list_all2_mono) (rule fetch_hit_Inr)
  moreover have "length ?f = card (mt_ID ` set matches \<union> set lexical)"
    using distinct_card [OF d] fuse_ids(1) [of matches lexical w] by simp
  ultimately show ?thesis
    using ids(1) list_all2_lengthD [OF l] unfolding answered_def by (simp del: set_map) blast
qed

text \<open>Where a run can stop.\<close>

lemma run_stages:
  assumes "index_ok (pp_index p)"
  obtains (query) "rq_Query req = ''''" "Pipeline_Run u p req = Inl EmptyQuery"
  | (embed) e where "pp_EmbedOne p (rq_Query req) = Inl e" "Pipeline_Run u p req = Inl (EmbedFailed e)"
  | (search) q e where "pp_EmbedOne p (rq_Query req) = Inr q" "Index_Search (pp_index p) q (run_pool req) = Inl e"
      "Pipeline_Run u p req = Inl (IndexFailed e)"
  | (lexical) e where "searchLexical p (rq_Query req) (run_pool req) (lexicalWeight req) = Inl e"
      "Pipeline_Run u p req = Inl e"
  | (described) fused e where "describe p fused = Inl e" "Pipeline_Run u p req = Inl e"
  | (fetched) c e where "fetch_hit p c = Inl e" "Pipeline_Run u p req = Inl e"
  | (ok) q matches lexical known r where "pp_EmbedOne p (rq_Query req) = Inr q"
      "Index_Search (pp_index p) q (run_pool req) = Inr matches"
      "searchLexical p (rq_Query req) (run_pool req) (lexicalWeight req) = Inr lexical"
      "describe p (fuse matches lexical (lexicalWeight req)) = Inr known"
      "answered p req matches lexical known r" "Pipeline_Run u p req = Inr r"
proof (cases "rq_Query req = ''''")
  case True
  then show ?thesis by (intro query) (simp_all add: Pipeline_Run_def)
next
  case False
  let ?w = "lexicalWeight req"
  show ?thesis
  proof (cases "pp_EmbedOne p (rq_Query req)")
    case (Inl e)
    then show ?thesis using False by (intro embed) (simp_all add: Pipeline_Run_def)
  next
    case q: (Inr q)
    show ?thesis
    proof (cases "Index_Search (pp_index p) q (run_pool req)")
      case (Inl e)
      then show ?thesis using False q by (intro search) (simp_all add: Pipeline_Run_def)
    next
      case m: (Inr matches)
      show ?thesis
      proof (cases "searchLexical p (rq_Query req) (run_pool req) ?w")
        case (Inl e)
        then show ?thesis using False q m by (intro lexical) (simp_all add: Pipeline_Run_def)
      next
        case l: (Inr lx)
        let ?f = "fuse matches lx ?w"
        show ?thesis
        proof (cases "describe p ?f")
          case (Inl e)
          then show ?thesis using False q m l by (intro described) (simp_all add: Pipeline_Run_def Let_def)
        next
          case d: (Inr known)
          obtain ranked counts where r: "rank_candidates u ?f known req (nat (run_limit req)) = (ranked, counts)"
            by (cases "rank_candidates u ?f known req (nat (run_limit req))")
          show ?thesis
          proof (cases "map_result (fetch_hit p) ranked")
            case (Inl e)
            then show ?thesis using False q m l d r map_result_Inl [OF Inl] fetched
              by (auto simp: Pipeline_Run_def Let_def)
          next
            case (Inr hits)
            show ?thesis
              by (rule ok [OF q m l d hits_answered [OF Search_ids(1) [OF assms m] r Inr]])
                (use False q m l d r Inr in \<open>simp add: Pipeline_Run_def Let_def\<close>)
          qed
        qed
      qed
    qed
  qed
qed

text \<open>
  C26. A run fails only for the stage that failed, naming it. Otherwise it answers with distinct
  records out of the nearest vectors and the lexical matches, none superseded unless asked for
  and each of a kind in scope, as many as were considered and not counted as left out, up to
  the limit, each with what the fetcher returned for it.
\<close>

theorem Run_correct:
  assumes "index_ok (pp_index p)"
  shows "case Pipeline_Run u p req of
      Inl EmptyQuery \<Rightarrow> rq_Query req = ''''
    | Inl (EmbedFailed e) \<Rightarrow> pp_EmbedOne p (rq_Query req) = Inl e
    | Inl (IndexFailed e) \<Rightarrow> (\<exists>q. pp_EmbedOne p (rq_Query req) = Inr q \<and> length q \<noteq> ix_dim (pp_index p))
    | Inl (LexicalFailed e) \<Rightarrow> (\<exists>s. pp_SearchLexical p = Some s \<and> s (rq_Query req) (run_pool req) = Inl e)
    | Inl (DescribeFailed e) \<Rightarrow> (\<exists>d ids. pp_Describe p = Some d \<and> ids \<noteq> [] \<and> d ids = Inl e)
    | Inl (FetchFailed i e) \<Rightarrow> pp_Fetch p i = Inl e
    | Inr r \<Rightarrow>
        (\<exists>q matches lexical known. pp_EmbedOne p (rq_Query req) = Inr q \<and>
           Index_Search (pp_index p) q (run_pool req) = Inr matches \<and>
           searchLexical p (rq_Query req) (run_pool req) (lexicalWeight req) = Inr lexical \<and>
           describe p (fuse matches lexical (lexicalWeight req)) = Inr known \<and>
           answered p req matches lexical known r)"
proof -
  let ?w = "lexicalWeight req"
  consider (query) "rq_Query req = ''''" "Pipeline_Run u p req = Inl EmptyQuery"
    | (embed) e where "pp_EmbedOne p (rq_Query req) = Inl e" "Pipeline_Run u p req = Inl (EmbedFailed e)"
    | (search) q e where "pp_EmbedOne p (rq_Query req) = Inr q" "Index_Search (pp_index p) q (run_pool req) = Inl e"
        "Pipeline_Run u p req = Inl (IndexFailed e)"
    | (lexical) e where "searchLexical p (rq_Query req) (run_pool req) ?w = Inl e" "Pipeline_Run u p req = Inl e"
    | (described) fused e where "describe p fused = Inl e" "Pipeline_Run u p req = Inl e"
    | (fetched) c e where "fetch_hit p c = Inl e" "Pipeline_Run u p req = Inl e"
    | (ok) q matches lexical known r where "pp_EmbedOne p (rq_Query req) = Inr q"
        "Index_Search (pp_index p) q (run_pool req) = Inr matches"
        "searchLexical p (rq_Query req) (run_pool req) ?w = Inr lexical"
        "describe p (fuse matches lexical ?w) = Inr known"
        "answered p req matches lexical known r" "Pipeline_Run u p req = Inr r"
    by (rule run_stages [OF assms])
  then show ?thesis
  proof cases
    case search
    then show ?thesis by (auto simp: Index_Search_def Let_def split: if_splits)
  next
    case lexical
    then obtain s x where "pp_SearchLexical p = Some s" "s (rq_Query req) (run_pool req) = Inl x" "e = LexicalFailed x"
      by (auto simp: searchLexical_def split: option.splits if_splits sum.splits)
    then show ?thesis using lexical by simp
  next
    case described
    then obtain d x where "pp_Describe p = Some d" "map cn_ID fused \<noteq> []" "d (map cn_ID fused) = Inl x" "e = DescribeFailed x"
      by (auto simp: describe_def split: option.splits if_splits sum.splits)
    then show ?thesis using described by auto
  next
    case fetched
    then show ?thesis by (auto simp: fetch_hit_def split: sum.splits)
  qed auto
qed

text \<open>A pipeline without a catalog, whose index is empty and whose lexical pass finds two records.\<close>

definition sample_pipeline :: Pipeline where
  "sample_pipeline =
     \<lparr>pp_EmbedOne = (\<lambda>_. Inr [0]),
      pp_index = \<lparr>ix_dim = 1, ix_model = ''m'', ix_ids = [], ix_vectors = [], ix_at = Map.empty\<rparr>,
      pp_Fetch = (\<lambda>_. Inr (\<lparr>fd_Memory = None, fd_Session = None\<rparr>, ''device'')),
      pp_Describe = None,
      pp_SearchLexical = Some (\<lambda>_ _. Inr [[1], [2]])\<rparr>"

theorem Run_correct_witness:
  "\<exists>r. Pipeline_Run id sample_pipeline sample_request = Inr r \<and> length (rr_Hits r) \<le> 1"
proof -
  have "index_ok (pp_index sample_pipeline)" by (simp add: sample_pipeline_def index_ok_def)
  note run = Run_correct [OF this, where u = id and req = sample_request]
  show ?thesis
  proof (cases "Pipeline_Run id sample_pipeline sample_request")
    case (Inl e)
    then show ?thesis using run by (cases e) (simp_all add: sample_pipeline_def sample_request_def)
  next
    case (Inr r)
    then show ?thesis
      using run by (auto simp: answered_def run_limit_def sample_request_def)
  qed
qed

end
