(* ===== verification/Local_Store.thy ===== *)
theory Local_Store
  imports Rec_Session Go_IO Go_Sort
begin

text \<open>
  The device's working copy (package \<open>local\<close>): the tables of the SQLite database as lists of
  rows, the statements the package runs on them, and the tables that are keyed values
  (\<open>local/meta.go\<close>, \<open>local/body.go\<close>, \<open>local/reads.go\<close>).

  A statement, or a transaction, is one call of the machine of \<open>Go_IO\<close>: it is refused as a
  whole and changes nothing, or it takes effect as a whole. That is what SQLite promises for
  both. Columns that the source formats as text and parses back hold the value: an id for its
  hexadecimal text, and for a timestamp, whose layout is fixed-width so that the order of the
  text is the order of the times, milliseconds since Go's zero time. Every read of the clock
  returns what \<open>dv_clock\<close> gives for that step, in nanoseconds since the zero time.
\<close>

section \<open>Times\<close>

definition time_IsZero :: "int \<Rightarrow> bool" where
  "time_IsZero t \<longleftrightarrow> t = 0"

definition stamp :: "int \<Rightarrow> int" where
  "stamp t = t div 1000000"

definition parseStamp :: "int option \<Rightarrow> int" where
  "parseStamp v = (case v of None \<Rightarrow> 0 | Some ms \<Rightarrow> ms * 1000000)"

text \<open>\<open>Time.Sub\<close> saturates at the bounds of a \<open>Duration\<close>.\<close>

definition time_Sub :: "int \<Rightarrow> int \<Rightarrow> int" where
  "time_Sub a b = max (- (2 ^ 63)) (min (2 ^ 63 - 1) (a - b))"

lemma stamp_mono: "a \<le> b \<Longrightarrow> stamp a \<le> stamp b"
  by (simp add: stamp_def zdiv_mono1)

section \<open>The tables\<close>

record QueueRow =
  qr_ID :: ID
  qr_Kind :: Kind
  qr_CID :: string
  qr_Payload :: bytes
  qr_QueuedAt :: int
  qr_Seq :: int
  qr_ClaimedAt :: "int option"
  qr_ClaimedBy :: string

record SlabRow =
  sr_SlabID :: string
  sr_PinnedAt :: int
  sr_Records :: int
  sr_Bytes :: int
  sr_Origin :: string

record BodyRow =
  br_ID :: ID
  br_Kind :: Kind
  br_Body :: bytes
  br_CreatedAt :: int

record MetaRow =
  mr_ID :: ID
  mr_Kind :: Kind
  mr_Type :: RecType
  mr_Supersedes :: "ID option"
  mr_CreatedAt :: int

record HeadRow =
  hr_ID :: ID
  hr_Version :: int
  hr_Title :: string
  hr_Summary :: string
  hr_Kind :: SessionKind
  hr_Project :: string
  hr_Agent :: string
  hr_Parent :: "ID option"
  hr_Created :: int
  hr_Updated :: int
  hr_Archived :: bool
  hr_Messages :: int
  hr_Chunks :: int
  hr_Bytes :: int
  hr_Head :: bytes

record LocationRow =
  lr_Ref :: string
  lr_SlabIDs :: string
  lr_Meta :: bytes
  lr_FetchedAt :: int

record SlabMetaRow =
  sm_SlabID :: string
  sm_Meta :: bytes
  sm_FetchedAt :: int

record StatRow =
  st_Tier :: string
  st_Reads :: int
  st_Nanos :: int
  st_Misses :: int

record device = machine +
  dv_clock :: "nat \<Rightarrow> int"
  dv_queue :: "QueueRow list"
  dv_slabs :: "SlabRow list"
  dv_bodies :: "BodyRow list"
  dv_record_meta :: "MetaRow list"
  dv_record_tags :: "(ID \<times> string) list"
  dv_record_lexical :: "(ID \<times> string) list"
  dv_session_heads :: "HeadRow list"
  dv_object_cache :: "LocationRow list"
  dv_slab_cache :: "SlabMetaRow list"
  dv_read_stats :: "StatRow list"
  dv_meta :: "(string \<times> string) list"

datatype local_error = DbError | ErrNotFound | ErrStaleHead | ErrClaimed | BadCursor

type_synonym ('z, 'a) local_op = "('z device_scheme, local_error, 'a) io"

definition time_Now :: "('z, int) local_op" where
  "time_Now s = (Inr (dv_clock s (mc_step s)), s\<lparr>mc_step := mc_step s + 1\<rparr>)"

definition record_Now :: "('z, int) local_op" where
  "record_Now = bind_io time_Now (\<lambda>t. ret_io (stamp t))"

text \<open>\<open>time.Since\<close>.\<close>

definition time_Since :: "int \<Rightarrow> ('z, int) local_op" where
  "time_Since t = bind_io time_Now (\<lambda>now. ret_io (time_Sub now t))"

section \<open>Statements\<close>

text \<open>A statement that changes rows and one that reads them.\<close>

definition sql_exec :: "('z device_scheme \<Rightarrow> 'z device_scheme) \<Rightarrow> ('z, unit) local_op" where
  "sql_exec f = effect DbError f"

definition sql_query :: "('z device_scheme \<Rightarrow> 'a) \<Rightarrow> ('z, 'a) local_op" where
  "sql_query f = bind_io (syscall DbError) (\<lambda>_. get_io f)"

lemma triple_sql_exec:
  assumes "\<And>s k. P s \<Longrightarrow> E (s\<lparr>mc_step := k\<rparr>)" "\<And>s k. P s \<Longrightarrow> Q () (f (s\<lparr>mc_step := k\<rparr>))"
  shows "triple P (sql_exec f) Q E"
  unfolding triple_def sql_exec_def effect_def bind_io_def syscall_runs put_io_def using assms by simp

lemma triple_sql_query:
  assumes "\<And>s k. P s \<Longrightarrow> E (s\<lparr>mc_step := k\<rparr>)" "\<And>s k. P s \<Longrightarrow> Q (f (s\<lparr>mc_step := k\<rparr>)) (s\<lparr>mc_step := k\<rparr>)"
  shows "triple P (sql_query f) Q E"
  unfolding triple_def sql_query_def bind_io_def syscall_runs get_io_def using assms by simp

lemma triple_time_Now:
  assumes "\<And>s k t. P s \<Longrightarrow> Q t (s\<lparr>mc_step := k\<rparr>)" shows "triple P time_Now Q E"
  unfolding triple_def time_Now_def using assms by simp

text \<open>\<open>UPDATE ... SET f WHERE p\<close>, and \<open>INSERT ... ON CONFLICT DO UPDATE\<close>.\<close>

definition sql_update :: "('r \<Rightarrow> bool) \<Rightarrow> ('r \<Rightarrow> 'r) \<Rightarrow> 'r list \<Rightarrow> 'r list" where
  "sql_update p f rows = map (\<lambda>r. if p r then f r else r) rows"

definition sql_upsert :: "('r \<Rightarrow> 'k) \<Rightarrow> 'r \<Rightarrow> ('r \<Rightarrow> 'r) \<Rightarrow> 'r list \<Rightarrow> 'r list" where
  "sql_upsert key new upd rows =
     (if key new \<in> key ` set rows then sql_update (\<lambda>r. key r = key new) upd rows else rows @ [new])"

text \<open>The row a primary key selects.\<close>

definition sql_row :: "('r \<Rightarrow> 'k) \<Rightarrow> 'k \<Rightarrow> 'r list \<Rightarrow> 'r option" where
  "sql_row key k rows = find (\<lambda>r. key r = k) rows"

lemma sql_row_Some:
  "sql_row key k rows = Some r \<Longrightarrow> r \<in> set rows \<and> key r = k"
  by (auto simp: sql_row_def find_Some_iff)

lemma sql_row_None: "sql_row key k rows = None \<longleftrightarrow> k \<notin> key ` set rows"
  by (auto simp: sql_row_def find_None_iff)

lemma sql_row_unique:
  assumes "distinct (map key rows)" "r \<in> set rows"
  shows "sql_row key (key r) rows = Some r"
proof -
  obtain r' where r': "sql_row key (key r) rows = Some r'"
    using assms(2) sql_row_None [of key "key r" rows] by (cases "sql_row key (key r) rows") auto
  with sql_row_Some have "r' \<in> set rows" "key r' = key r" by metis+
  with assms have "r' = r" by (auto simp: distinct_map dest: inj_onD)
  with r' show ?thesis by simp
qed

lemma sql_update_keys:
  "(\<And>r. key (f r) = key r) \<Longrightarrow> map key (sql_update p f rows) = map key rows"
  by (simp add: sql_update_def)

lemma sql_upsert_keys:
  assumes "\<And>r. key (upd r) = key r"
  shows "map key (sql_upsert key new upd rows) =
    (if key new \<in> set (map key rows) then map key rows else map key rows @ [key new])"
  using assms by (simp add: sql_upsert_def sql_update_keys)

lemma sql_upsert_distinct:
  "(\<And>r. key (upd r) = key r) \<Longrightarrow> distinct (map key rows) \<Longrightarrow> distinct (map key (sql_upsert key new upd rows))"
  by (simp add: sql_upsert_keys)

text \<open>An upsert changes the row of its key and no other.\<close>

lemma sql_row_upsert:
  assumes "\<And>r. key (upd r) = key r"
  shows "sql_row key k (sql_upsert key new upd rows) =
    (if k = key new then Some (case sql_row key k rows of None \<Rightarrow> new | Some r \<Rightarrow> upd r)
     else sql_row key k rows)"
proof (cases "key new \<in> key ` set rows")
  case True
  then have u: "sql_upsert key new upd rows = map (\<lambda>r. if key r = key new then upd r else r) rows"
    by (simp add: sql_upsert_def sql_update_def)
  have "find (\<lambda>r. key r = k) (map (\<lambda>r. if key r = key new then upd r else r) rows) =
      map_option (\<lambda>r. if key r = key new then upd r else r) (find (\<lambda>r. key r = k) rows)"
    by (induction rows) (auto simp: assms)
  then have m: "sql_row key k (sql_upsert key new upd rows) =
      map_option (\<lambda>r. if key r = key new then upd r else r) (sql_row key k rows)"
    unfolding u by (simp add: sql_row_def)
  show ?thesis
  proof (cases "sql_row key k rows")
    case None
    then show ?thesis using m True sql_row_None [of key k rows] by auto
  next
    case (Some r)
    then show ?thesis using m sql_row_Some [OF Some] by (cases "k = key new") simp_all
  qed
next
  case False
  have "find (\<lambda>r. key r = k) (rows @ [new]) =
      (case find (\<lambda>r. key r = k) rows of Some r \<Rightarrow> Some r | None \<Rightarrow> if key new = k then Some new else None)"
    by (induction rows) auto
  then have m: "sql_row key k (sql_upsert key new upd rows) =
      (case sql_row key k rows of Some r \<Rightarrow> Some r | None \<Rightarrow> if key new = k then Some new else None)"
    using False by (simp add: sql_upsert_def sql_row_def)
  show ?thesis
  proof (cases "k = key new")
    case True
    then have "sql_row key k rows = None" using False by (simp add: sql_row_None)
    with m True show ?thesis by simp
  next
    case False
    with m show ?thesis by (cases "sql_row key k rows") simp_all
  qed
qed

lemma sql_row_filter:
  "sql_row key k (filter (\<lambda>r. key r \<noteq> i) rows) = (if k = i then None else sql_row key k rows)"
  by (induction rows) (auto simp: sql_row_def)

section \<open>Settings\<close>

definition PutMeta :: "string \<Rightarrow> string \<Rightarrow> ('z, unit) local_op" where
  "PutMeta key v = sql_exec (\<lambda>s. s\<lparr>dv_meta := sql_upsert fst (key, v) (\<lambda>r. (fst r, v)) (dv_meta s)\<rparr>)"

definition GetMeta :: "string \<Rightarrow> ('z, string) local_op" where
  "GetMeta key =
     bind_io (sql_query (\<lambda>s. sql_row fst key (dv_meta s))) (\<lambda>r.
       case r of None \<Rightarrow> fail_io ErrNotFound | Some (_, v) \<Rightarrow> ret_io v)"

section \<open>Bodies\<close>

definition PutBody :: "ID \<Rightarrow> Kind \<Rightarrow> bytes \<Rightarrow> ('z, unit) local_op" where
  "PutBody i kind body =
     bind_io record_Now (\<lambda>now.
     sql_exec (\<lambda>s. s\<lparr>dv_bodies :=
       sql_upsert br_ID \<lparr>br_ID = i, br_Kind = kind, br_Body = body, br_CreatedAt = now\<rparr>
         (\<lambda>r. r\<lparr>br_Body := body\<rparr>) (dv_bodies s)\<rparr>))"

definition GetBody :: "ID \<Rightarrow> ('z, bytes) local_op" where
  "GetBody i =
     bind_io (sql_query (\<lambda>s. sql_row br_ID i (dv_bodies s))) (\<lambda>r.
       case r of None \<Rightarrow> fail_io ErrNotFound | Some row \<Rightarrow> ret_io (br_Body row))"

definition GetRecord :: "ID \<Rightarrow> ('z, Kind \<times> bytes) local_op" where
  "GetRecord i =
     bind_io (sql_query (\<lambda>s. sql_row br_ID i (dv_bodies s))) (\<lambda>r.
       case r of None \<Rightarrow> fail_io ErrNotFound | Some row \<Rightarrow> ret_io (br_Kind row, br_Body row))"

definition ForgetBody :: "ID \<Rightarrow> ('z, unit) local_op" where
  "ForgetBody i = sql_exec (\<lambda>s. s\<lparr>dv_bodies := filter (\<lambda>r. br_ID r \<noteq> i) (dv_bodies s)\<rparr>)"

text \<open>\<open>ORDER BY created_at ASC, record_id ASC\<close>.\<close>

definition body_before :: "BodyRow \<Rightarrow> BodyRow \<Rightarrow> bool" where
  "body_before a b \<longleftrightarrow> br_CreatedAt a < br_CreatedAt b \<or>
     (br_CreatedAt a = br_CreatedAt b \<and> string_less (ID_String (br_ID a)) (ID_String (br_ID b)))"

definition BodyIDsOfKind :: "Kind \<Rightarrow> ('z, ID list) local_op" where
  "BodyIDsOfKind kind =
     sql_query (\<lambda>s. map br_ID (SliceStable body_before (filter (\<lambda>r. br_Kind r = kind) (dv_bodies s))))"

definition CountBodies :: "('z, nat) local_op" where
  "CountBodies = sql_query (\<lambda>s. length (dv_bodies s))"

section \<open>Read statistics\<close>

definition RecordRead :: "string \<Rightarrow> int \<Rightarrow> ('z, unit) local_op" where
  "RecordRead tier took =
     sql_exec (\<lambda>s. s\<lparr>dv_read_stats :=
       sql_upsert st_Tier \<lparr>st_Tier = tier, st_Reads = 1, st_Nanos = took, st_Misses = 0\<rparr>
         (\<lambda>r. r\<lparr>st_Reads := st_Reads r + 1, st_Nanos := st_Nanos r + took\<rparr>) (dv_read_stats s)\<rparr>)"

definition RecordMiss :: "string \<Rightarrow> ('z, unit) local_op" where
  "RecordMiss tier =
     sql_exec (\<lambda>s. s\<lparr>dv_read_stats :=
       sql_upsert st_Tier \<lparr>st_Tier = tier, st_Reads = 0, st_Nanos = 0, st_Misses = 1\<rparr>
         (\<lambda>r. r\<lparr>st_Misses := st_Misses r + 1\<rparr>) (dv_read_stats s)\<rparr>)"

definition ReadStats :: "('z, StatRow list) local_op" where
  "ReadStats = sql_query (\<lambda>s. SliceStable (\<lambda>a b. string_less (st_Tier a) (st_Tier b)) (dv_read_stats s))"

end
