(* ===== verification/Local_Slabs.thy ===== *)
theory Local_Slabs
  imports Local_Store
begin

text \<open>
  The ledger of slabs (\<open>local/slabs.go\<close>): which slabs this installation pinned, and may release,
  and which it only found by hydrating.
\<close>

type_synonym SlabOrigin = string

definition SlabPinned :: SlabOrigin where "SlabPinned = ''pinned''"
definition SlabHydrated :: SlabOrigin where "SlabHydrated = ''hydrated''"

definition Releasable :: "SlabOrigin \<Rightarrow> bool" where
  "Releasable o' \<longleftrightarrow> o' \<noteq> SlabHydrated"

record TrackedSlab =
  tk_SlabID :: string
  tk_PinnedAt :: int
  tk_Records :: int
  tk_Bytes :: int
  tk_Origin :: SlabOrigin

definition track_rows :: "string \<Rightarrow> int \<Rightarrow> int \<Rightarrow> SlabOrigin \<Rightarrow> int \<Rightarrow> SlabRow list \<Rightarrow> SlabRow list" where
  "track_rows slabID records nbytes origin now =
     sql_upsert sr_SlabID
       \<lparr>sr_SlabID = slabID, sr_PinnedAt = now, sr_Records = records, sr_Bytes = nbytes, sr_Origin = origin\<rparr>
       (\<lambda>r. r\<lparr>sr_Records := sr_Records r + records, sr_Bytes := sr_Bytes r + nbytes,
          sr_Origin := if sr_Origin r = SlabPinned \<or> origin = SlabPinned then SlabPinned else SlabHydrated\<rparr>)"

definition trackSlab :: "string \<Rightarrow> int \<Rightarrow> int \<Rightarrow> SlabOrigin \<Rightarrow> ('z, unit) local_op" where
  "trackSlab slabID records nbytes origin =
     bind_io record_Now (\<lambda>now.
     sql_exec (\<lambda>s. s\<lparr>dv_slabs := track_rows slabID records nbytes origin now (dv_slabs s)\<rparr>))"

definition TrackSlab :: "string \<Rightarrow> int \<Rightarrow> int \<Rightarrow> ('z, unit) local_op" where
  "TrackSlab slabID records nbytes = trackSlab slabID records nbytes SlabPinned"

definition AdoptSlab :: "string \<Rightarrow> int \<Rightarrow> int \<Rightarrow> ('z, unit) local_op" where
  "AdoptSlab slabID records nbytes = trackSlab slabID records nbytes SlabHydrated"

definition row_slab :: "SlabRow \<Rightarrow> TrackedSlab" where
  "row_slab r = \<lparr>tk_SlabID = sr_SlabID r, tk_PinnedAt = parseStamp (Some (sr_PinnedAt r)),
     tk_Records = sr_Records r, tk_Bytes = sr_Bytes r, tk_Origin = sr_Origin r\<rparr>"

definition tracked_slabs :: "SlabRow list \<Rightarrow> TrackedSlab list" where
  "tracked_slabs rows = map row_slab (SliceStable (\<lambda>a b. sr_PinnedAt a < sr_PinnedAt b) rows)"

definition TrackedSlabs :: "('z, TrackedSlab list) local_op" where
  "TrackedSlabs = sql_query (\<lambda>s. tracked_slabs (dv_slabs s))"

definition own_rows :: "SlabRow list \<Rightarrow> SlabRow list" where
  "own_rows = sql_update (\<lambda>r. sr_Origin r = SlabHydrated) (\<lambda>r. r\<lparr>sr_Origin := SlabPinned\<rparr>)"

definition TakeSlabOwnership :: "('z, nat) local_op" where
  "TakeSlabOwnership =
     bind_io (sql_query (\<lambda>s. length (filter (\<lambda>r. sr_Origin r = SlabHydrated) (dv_slabs s)))) (\<lambda>affected.
     bind_io (put_io (\<lambda>s. s\<lparr>dv_slabs := own_rows (dv_slabs s)\<rparr>)) (\<lambda>_.
     ret_io affected))"

definition ForgetSlab :: "string \<Rightarrow> ('z, unit) local_op" where
  "ForgetSlab slabID = sql_exec (\<lambda>s. s\<lparr>dv_slabs := filter (\<lambda>r. sr_SlabID r \<noteq> slabID) (dv_slabs s)\<rparr>)"

section \<open>What the ledger says\<close>

definition slabs_ok :: "SlabRow list \<Rightarrow> bool" where
  "slabs_ok rows \<longleftrightarrow> distinct (map sr_SlabID rows) \<and> (\<forall>r \<in> set rows. sr_Origin r \<in> {SlabPinned, SlabHydrated})"

definition known_slabs :: "SlabRow list \<Rightarrow> string set" where
  "known_slabs rows = {i. sql_row sr_SlabID i rows \<noteq> None}"

definition own_slabs :: "SlabRow list \<Rightarrow> string set" where
  "own_slabs rows = {i. \<exists>r. sql_row sr_SlabID i rows = Some r \<and> Releasable (sr_Origin r)}"

lemma origins_differ [simp]: "SlabPinned \<noteq> SlabHydrated" "SlabHydrated \<noteq> SlabPinned"
  by (simp_all add: SlabPinned_def SlabHydrated_def)

lemma own_slabs_mem: "slabs_ok rows \<Longrightarrow> r \<in> set rows \<Longrightarrow> sr_SlabID r \<in> own_slabs rows \<longleftrightarrow> Releasable (sr_Origin r)"
  using sql_row_unique [of sr_SlabID rows r] by (simp add: slabs_ok_def own_slabs_def)

lemma slabs_ok_row: "slabs_ok rows \<Longrightarrow> sql_row sr_SlabID i rows = Some r \<Longrightarrow> sr_Origin r \<in> {SlabPinned, SlabHydrated}"
  by (drule sql_row_Some) (simp add: slabs_ok_def)

lemma slabs_ok_track:
  "slabs_ok rows \<Longrightarrow> origin \<in> {SlabPinned, SlabHydrated} \<Longrightarrow> slabs_ok (track_rows i n b origin now rows)"
  by (auto simp: slabs_ok_def track_rows_def sql_upsert_distinct)
    (auto simp: sql_upsert_def sql_update_def split: if_splits)

lemma row_track:
  "sql_row sr_SlabID k (track_rows i n b origin now rows) =
     (if k = i then Some (case sql_row sr_SlabID k rows of
          None \<Rightarrow> \<lparr>sr_SlabID = i, sr_PinnedAt = now, sr_Records = n, sr_Bytes = b, sr_Origin = origin\<rparr>
        | Some r \<Rightarrow> r\<lparr>sr_Records := sr_Records r + n, sr_Bytes := sr_Bytes r + b,
            sr_Origin := if sr_Origin r = SlabPinned \<or> origin = SlabPinned then SlabPinned else SlabHydrated\<rparr>)
      else sql_row sr_SlabID k rows)"
  unfolding track_rows_def by (subst sql_row_upsert) simp_all

lemma known_slabs_track: "known_slabs (track_rows i n b origin now rows) = insert i (known_slabs rows)"
  by (auto simp: known_slabs_def row_track)

lemma own_slabs_pin: "own_slabs (track_rows i n b SlabPinned now rows) = insert i (own_slabs rows)"
  by (auto simp: own_slabs_def row_track Releasable_def split: option.splits)

lemma own_slabs_adopt:
  assumes "slabs_ok rows"
  shows "own_slabs (track_rows i n b SlabHydrated now rows) = own_slabs rows"
proof -
  have "sql_row sr_SlabID i rows = Some r \<Longrightarrow> sr_Origin r = SlabPinned \<or> sr_Origin r = SlabHydrated" for r
    using slabs_ok_row [OF assms] by blast
  then show ?thesis by (auto simp: own_slabs_def row_track Releasable_def split: option.splits)
qed

lemma row_own:
  "sql_row sr_SlabID k (own_rows rows) =
     map_option (\<lambda>r. if sr_Origin r = SlabHydrated then r\<lparr>sr_Origin := SlabPinned\<rparr> else r) (sql_row sr_SlabID k rows)"
  by (induction rows) (auto simp: own_rows_def sql_update_def sql_row_def)

lemma own_slabs_take: "own_slabs (own_rows rows) = known_slabs rows" "known_slabs (own_rows rows) = known_slabs rows"
proof -
  have "x \<in> own_slabs (own_rows rows) \<longleftrightarrow> x \<in> known_slabs rows" for x
    by (cases "sql_row sr_SlabID x rows") (simp_all add: own_slabs_def known_slabs_def row_own Releasable_def)
  then show "own_slabs (own_rows rows) = known_slabs rows" by blast
  show "known_slabs (own_rows rows) = known_slabs rows" by (simp add: known_slabs_def row_own)
qed

lemma slabs_ok_own: "slabs_ok rows \<Longrightarrow> slabs_ok (own_rows rows)"
  unfolding own_rows_def by (auto simp: slabs_ok_def sql_update_keys) (auto simp: sql_update_def)

lemma slabs_forget:
  "own_slabs (filter (\<lambda>r. sr_SlabID r \<noteq> i) rows) = own_slabs rows - {i}"
  "known_slabs (filter (\<lambda>r. sr_SlabID r \<noteq> i) rows) = known_slabs rows - {i}"
  "slabs_ok rows \<Longrightarrow> slabs_ok (filter (\<lambda>r. sr_SlabID r \<noteq> i) rows)"
  by (auto simp: own_slabs_def known_slabs_def sql_row_filter slabs_ok_def distinct_map_filter)

section \<open>The ledger as two sets\<close>

text \<open>Calls of the ledger, and the abstract ledger: the slabs known and the slabs that are this device's.\<close>

datatype slab_call = CTrack string int int | CAdopt string int int | CTake | CForget string

definition slab_run :: "slab_call \<Rightarrow> ('z, unit) local_op" where
  "slab_run c =
     (case c of
        CTrack i n b \<Rightarrow> TrackSlab i n b
      | CAdopt i n b \<Rightarrow> AdoptSlab i n b
      | CTake \<Rightarrow> bind_io TakeSlabOwnership (\<lambda>_. ret_io ())
      | CForget i \<Rightarrow> ForgetSlab i)"

fun slab_step :: "slab_call \<Rightarrow> string set \<times> string set \<Rightarrow> string set \<times> string set" where
  "slab_step (CTrack i n b) (known, own) = (insert i known, insert i own)"
| "slab_step (CAdopt i n b) (known, own) = (insert i known, own)"
| "slab_step CTake (known, own) = (known, known)"
| "slab_step (CForget i) (known, own) = (known - {i}, own - {i})"

definition slab_abs :: "'z device_scheme \<Rightarrow> string set \<times> string set" where
  "slab_abs s = (known_slabs (dv_slabs s), own_slabs (dv_slabs s))"

lemmas local_defs = sql_exec_def sql_query_def effect_def bind_io_def syscall_runs put_io_def get_io_def ret_io_def
  fail_io_def time_Now_def record_Now_def

text \<open>
  C29. The slab ledger is two sets, the slabs known and the slabs this device may release: a
  flush adds to both, hydration adds only to the first and takes nothing from the second,
  taking ownership makes them equal, forgetting removes from both, and a refused statement
  changes neither.
\<close>

theorem slab_ledger_refines:
  assumes "slabs_ok (dv_slabs s)" and "slab_run c s = (r, s')"
  shows "slabs_ok (dv_slabs s') \<and> slab_abs s' = (if is_ok r then slab_step c (slab_abs s) else slab_abs s)"
proof (cases c)
  case (CTrack i n b)
  then show ?thesis
    using assms by (auto simp: slab_run_def TrackSlab_def trackSlab_def local_defs slab_abs_def slabs_ok_track
        known_slabs_track own_slabs_pin split: if_splits)
next
  case (CAdopt i n b)
  then show ?thesis
    using assms by (auto simp: slab_run_def AdoptSlab_def trackSlab_def local_defs slab_abs_def slabs_ok_track
        known_slabs_track own_slabs_adopt split: if_splits)
next
  case CTake
  then show ?thesis
    using assms by (auto simp: slab_run_def TakeSlabOwnership_def local_defs slab_abs_def slabs_ok_own
        own_slabs_take split: if_splits)
next
  case (CForget i)
  then show ?thesis
    using assms by (auto simp: slab_run_def ForgetSlab_def local_defs slab_abs_def slabs_forget split: if_splits)
qed

text \<open>A ledger holding one slab found by hydrating, on a machine where nothing fails.\<close>

definition sample_device :: device where
  "sample_device =
     \<lparr>mc_plan = (\<lambda>_. NoFault), mc_rand = (\<lambda>_. []), mc_step = 0, dv_clock = (\<lambda>n. int n * 1000000),
      dv_queue = [],
      dv_slabs = [\<lparr>sr_SlabID = ''a'', sr_PinnedAt = 1, sr_Records = 1, sr_Bytes = 1, sr_Origin = SlabHydrated\<rparr>],
      dv_bodies = [], dv_record_meta = [], dv_record_tags = [], dv_record_lexical = [], dv_session_heads = [],
      dv_object_cache = [], dv_slab_cache = [], dv_read_stats = [], dv_meta = []\<rparr>"

theorem slab_ledger_refines_witness:
  "\<exists>s'. slab_run (CTrack ''b'' 1 1) sample_device = (Inr (), s') \<and> slab_abs s' = ({''a'', ''b''}, {''b''})"
proof -
  have ok: "slabs_ok (dv_slabs sample_device)" by (simp add: sample_device_def slabs_ok_def)
  obtain r s' where r: "slab_run (CTrack ''b'' 1 1) sample_device = (r, s')"
    by (cases "slab_run (CTrack ''b'' 1 1) sample_device")
  then have "r = Inr ()"
    by (auto simp: slab_run_def TrackSlab_def trackSlab_def local_defs sample_device_def)
  moreover have "slab_abs sample_device = ({''a''}, {})"
    by (auto simp: slab_abs_def known_slabs_def own_slabs_def sample_device_def sql_row_def Releasable_def)
  ultimately show ?thesis using slab_ledger_refines [OF ok r] r by auto
qed

end
