(* ===== verification/Local_Queue.thy ===== *)
theory Local_Queue
  imports Local_Store
begin

text \<open>
  The flush queue (\<open>local/queue.go\<close>): sealed records waiting to be written to the network, and
  the claims that keep two flushes from writing the same record.
\<close>

record QueuedBlob =
  qb_ID :: ID
  qb_Kind :: Kind
  qb_CID :: string
  qb_Payload :: bytes
  qb_QueuedAt :: int
  qb_Seq :: int

text \<open>The blob a row is read back as.\<close>

definition row_blob :: "QueueRow \<Rightarrow> QueuedBlob" where
  "row_blob r = \<lparr>qb_ID = qr_ID r, qb_Kind = qr_Kind r, qb_CID = qr_CID r, qb_Payload = qr_Payload r,
     qb_QueuedAt = parseStamp (Some (qr_QueuedAt r)), qb_Seq = qr_Seq r\<rparr>"

definition next_seq :: "QueueRow list \<Rightarrow> int" where
  "next_seq rows = (if rows = [] then 0 else Max (qr_Seq ` set rows)) + 1"

definition enqueue_rows :: "QueuedBlob \<Rightarrow> QueueRow list \<Rightarrow> QueueRow list" where
  "enqueue_rows b rows =
     sql_upsert qr_ID
       \<lparr>qr_ID = qb_ID b, qr_Kind = qb_Kind b, qr_CID = qb_CID b, qr_Payload = qb_Payload b,
        qr_QueuedAt = stamp (qb_QueuedAt b), qr_Seq = next_seq rows, qr_ClaimedAt = None, qr_ClaimedBy = ''''\<rparr>
       (\<lambda>r. r\<lparr>qr_Payload := qb_Payload b, qr_CID := qb_CID b, qr_QueuedAt := stamp (qb_QueuedAt b)\<rparr>) rows"

definition Enqueue :: "QueuedBlob \<Rightarrow> ('z, unit) local_op" where
  "Enqueue blob =
     bind_io (if time_IsZero (qb_QueuedAt blob) then bind_io time_Now (\<lambda>t. ret_io (blob\<lparr>qb_QueuedAt := t\<rparr>))
              else ret_io blob) (\<lambda>b.
     sql_exec (\<lambda>s. s\<lparr>dv_queue := enqueue_rows b (dv_queue s)\<rparr>))"

record QueueState =
  qs_Records :: int
  qs_Bytes :: int
  qs_Oldest :: int
  qs_Newest :: int

text \<open>\<open>SELECT COUNT(*), SUM(LENGTH(payload)), MIN(queued_at), MAX(queued_at)\<close>; the last two of no row are NULL.\<close>

definition queue_state :: "QueueRow list \<Rightarrow> QueueState" where
  "queue_state rows =
     \<lparr>qs_Records = int (length rows),
      qs_Bytes = (\<Sum>r \<leftarrow> rows. int (length (qr_Payload r))),
      qs_Oldest = parseStamp (if rows = [] then None else Some (Min (qr_QueuedAt ` set rows))),
      qs_Newest = parseStamp (if rows = [] then None else Some (Max (qr_QueuedAt ` set rows)))\<rparr>"

definition Store_QueueState :: "('z, QueueState) local_op" where
  "Store_QueueState = sql_query (\<lambda>s. queue_state (dv_queue s))"

text \<open>
  \<open>claimed_at IS NULL OR claimed_at < ?\<close>, with the bound \<open>stamp(now.Add(-staleAfter))\<close>; a grace of
  zero or less takes every row.
\<close>

definition claimable :: "int \<Rightarrow> int \<Rightarrow> QueueRow \<Rightarrow> bool" where
  "claimable staleAfter now r \<longleftrightarrow>
     staleAfter \<le> 0 \<or> (case qr_ClaimedAt r of None \<Rightarrow> True | Some at \<Rightarrow> at < stamp (now - staleAfter))"

definition seq_before :: "QueueRow \<Rightarrow> QueueRow \<Rightarrow> bool" where
  "seq_before a b \<longleftrightarrow> qr_Seq a < qr_Seq b"

text \<open>The ids \<open>SELECT record_id ... ORDER BY seq LIMIT ?\<close> returns; no positive limit is no limit.\<close>

definition claim_ids :: "int \<Rightarrow> int \<Rightarrow> int \<Rightarrow> QueueRow list \<Rightarrow> ID list" where
  "claim_ids staleAfter limit now rows =
     (let open_rows = SliceStable seq_before (filter (claimable staleAfter now) rows)
      in map qr_ID (if limit \<le> 0 then open_rows else take (nat limit) open_rows))"

definition claim_rows :: "string \<Rightarrow> int \<Rightarrow> int \<Rightarrow> int \<Rightarrow> QueueRow list \<Rightarrow> QueueRow list" where
  "claim_rows owner staleAfter limit now rows =
     sql_update (\<lambda>r. qr_ID r \<in> set (claim_ids staleAfter limit now rows))
       (\<lambda>r. r\<lparr>qr_ClaimedAt := Some (stamp now), qr_ClaimedBy := owner\<rparr>) rows"

text \<open>The rows the update returns, sorted by arrival.\<close>

definition claimed_blobs :: "int \<Rightarrow> int \<Rightarrow> int \<Rightarrow> QueueRow list \<Rightarrow> QueuedBlob list" where
  "claimed_blobs staleAfter limit now rows =
     SliceStable (\<lambda>a b. qb_Seq a < qb_Seq b)
       (map row_blob (filter (\<lambda>r. qr_ID r \<in> set (claim_ids staleAfter limit now rows)) rows))"

definition ClaimQueued :: "string \<Rightarrow> int \<Rightarrow> int \<Rightarrow> ('z, QueuedBlob list) local_op" where
  "ClaimQueued owner staleAfter limit =
     bind_io time_Now (\<lambda>now.
     bind_io (sql_query (\<lambda>s. claimed_blobs staleAfter limit now (dv_queue s))) (\<lambda>out.
     bind_io (put_io (\<lambda>s. s\<lparr>dv_queue := claim_rows owner staleAfter limit now (dv_queue s)\<rparr>)) (\<lambda>_.
     ret_io out)))"

text \<open>One statement per id in one transaction.\<close>

definition eachQueued :: "(ID \<Rightarrow> QueueRow list \<Rightarrow> QueueRow list) \<Rightarrow> ID list \<Rightarrow> ('z, unit) local_op" where
  "eachQueued stmt ids =
     (if ids = [] then ret_io () else sql_exec (\<lambda>s. s\<lparr>dv_queue := fold stmt ids (dv_queue s)\<rparr>))"

definition release_row :: "ID \<Rightarrow> QueueRow list \<Rightarrow> QueueRow list" where
  "release_row i = sql_update (\<lambda>r. qr_ID r = i) (\<lambda>r. r\<lparr>qr_ClaimedAt := None, qr_ClaimedBy := ''''\<rparr>)"

definition drop_row :: "ID \<Rightarrow> QueueRow list \<Rightarrow> QueueRow list" where
  "drop_row i = filter (\<lambda>r. qr_ID r \<noteq> i)"

definition ReleaseQueued :: "ID list \<Rightarrow> ('z, unit) local_op" where
  "ReleaseQueued ids = eachQueued release_row ids"

definition DropQueued :: "ID list \<Rightarrow> ('z, unit) local_op" where
  "DropQueued ids = eachQueued drop_row ids"

definition WithdrawQueued :: "ID \<Rightarrow> int \<Rightarrow> ('z, bool) local_op" where
  "WithdrawQueued i staleAfter =
     bind_io time_Now (\<lambda>now.
     bind_io (sql_query (\<lambda>s. filter (\<lambda>r. qr_ID r = i \<and> claimable staleAfter now r) (dv_queue s))) (\<lambda>gone.
     bind_io (put_io (\<lambda>s. s\<lparr>dv_queue :=
       filter (\<lambda>r. \<not> (qr_ID r = i \<and> claimable staleAfter now r)) (dv_queue s)\<rparr>)) (\<lambda>_.
     if gone \<noteq> [] then ret_io True
     else
       bind_io (sql_query (\<lambda>s. length (filter (\<lambda>r. qr_ID r = i) (dv_queue s)))) (\<lambda>claimed.
       if 0 < claimed then fail_io ErrClaimed else ret_io False))))"

text \<open>\<open>claimed_at IS NOT NULL AND claimed_at >= ?\<close>.\<close>

definition held :: "int \<Rightarrow> int \<Rightarrow> QueueRow \<Rightarrow> bool" where
  "held staleAfter now r \<longleftrightarrow>
     (case qr_ClaimedAt r of None \<Rightarrow> False | Some at \<Rightarrow> stamp (now - staleAfter) \<le> at)"

fun withdraw_each :: "ID list \<Rightarrow> QueueRow list \<Rightarrow> ID list \<times> QueueRow list" where
  "withdraw_each [] rows = ([], rows)"
| "withdraw_each (i # ids) rows =
     (let (out, rest) = withdraw_each ids (drop_row i rows)
      in (if i \<in> qr_ID ` set rows then i # out else out, rest))"

definition withdraw_all :: "ID list \<Rightarrow> int \<Rightarrow> int \<Rightarrow> QueueRow list \<Rightarrow> (local_error, ID list) result \<times> QueueRow list" where
  "withdraw_all ids staleAfter now rows =
     (if 0 < staleAfter \<and> (\<exists>i \<in> set ids. \<exists>r \<in> set rows. qr_ID r = i \<and> held staleAfter now r)
      then (Inl ErrClaimed, rows)
      else let (out, rest) = withdraw_each ids rows in (Inr out, rest))"

definition WithdrawQueuedAll :: "ID list \<Rightarrow> int \<Rightarrow> ('z, ID list) local_op" where
  "WithdrawQueuedAll ids staleAfter =
     (if ids = [] then ret_io []
      else
        bind_io time_Now (\<lambda>now.
        bind_io (sql_query (\<lambda>s. withdraw_all ids staleAfter now (dv_queue s))) (\<lambda>(r, rest).
        bind_io (put_io (\<lambda>s. s\<lparr>dv_queue := rest\<rparr>)) (\<lambda>_.
        lift_io r))))"

section \<open>The invariant of the queue\<close>

definition queue_ok :: "QueueRow list \<Rightarrow> bool" where
  "queue_ok rows \<longleftrightarrow> distinct (map qr_ID rows) \<and> distinct (map qr_Seq rows)"

lemma next_seq_fresh: "next_seq rows \<notin> qr_Seq ` set rows"
proof
  assume a: "next_seq rows \<in> qr_Seq ` set rows"
  then have "next_seq rows \<le> Max (qr_Seq ` set rows)" by simp
  with a show False by (cases rows) (simp_all add: next_seq_def)
qed

lemma enqueue_ok: "queue_ok rows \<Longrightarrow> queue_ok (enqueue_rows b rows)"
  using next_seq_fresh [of rows]
  by (simp add: queue_ok_def enqueue_rows_def sql_upsert_distinct)
    (auto simp: sql_upsert_def sql_update_def o_def if_distrib cong: if_cong)

lemma update_ok:
  "(\<And>r. qr_ID (f r) = qr_ID r) \<Longrightarrow> (\<And>r. qr_Seq (f r) = qr_Seq r) \<Longrightarrow> queue_ok rows \<Longrightarrow> queue_ok (sql_update p f rows)"
  by (simp add: queue_ok_def sql_update_keys)

lemma filter_ok: "queue_ok rows \<Longrightarrow> queue_ok (filter p rows)"
  by (simp add: queue_ok_def distinct_map_filter)

lemma claim_ok: "queue_ok rows \<Longrightarrow> queue_ok (claim_rows owner st lim now rows)"
  unfolding claim_rows_def by (rule update_ok) simp_all

lemma fold_ok: "(\<And>i rows. queue_ok rows \<Longrightarrow> queue_ok (f i rows)) \<Longrightarrow> queue_ok rows \<Longrightarrow> queue_ok (fold f ids rows)"
  by (induction ids arbitrary: rows) simp_all

lemma release_ok: "queue_ok rows \<Longrightarrow> queue_ok (release_row i rows)"
  unfolding release_row_def by (rule update_ok) simp_all

lemma drop_ok: "queue_ok rows \<Longrightarrow> queue_ok (drop_row i rows)"
  unfolding drop_row_def by (rule filter_ok)

text \<open>What the folds do.\<close>

lemma fold_drop: "fold drop_row ids rows = filter (\<lambda>r. qr_ID r \<notin> set ids) rows"
  by (induction ids arbitrary: rows) (simp_all add: drop_row_def conj_commute)

lemma fold_release:
  "fold release_row ids rows =
     sql_update (\<lambda>r. qr_ID r \<in> set ids) (\<lambda>r. r\<lparr>qr_ClaimedAt := None, qr_ClaimedBy := ''''\<rparr>) rows"
  by (induction ids arbitrary: rows) (auto simp: release_row_def sql_update_def)

lemma withdraw_each_spec:
  "withdraw_each ids rows = (out, rest) \<Longrightarrow>
   set out = set ids \<inter> qr_ID ` set rows \<and> distinct out \<and> rest = filter (\<lambda>r. qr_ID r \<notin> set ids) rows"
proof (induction ids arbitrary: rows out rest)
  case (Cons i ids)
  obtain o1 r1 where w: "withdraw_each ids (drop_row i rows) = (o1, r1)"
    by (cases "withdraw_each ids (drop_row i rows)")
  note IH = Cons.IH [OF w]
  have "out = (if i \<in> qr_ID ` set rows then i # o1 else o1)" "rest = r1" using Cons.prems w by auto
  with IH show ?case by (auto simp: drop_row_def)
qed simp

end
