(* ===== verification/Sia.thy ===== *)
theory Sia
  imports Go_Strings Go_Bytes
begin

text \<open>
  The parts of package \<open>sia\<close> with logic of their own: the batch and where its objects landed
  (\<open>sia/upload.go\<close>), the pinning of slabs and objects and the concurrent calls (\<open>sia/pin.go\<close>,
  \<open>sia/concurrent.go\<close>), the walk of the account's change feed and the listing of pinned slabs
  (\<open>sia/objects.go\<close>), and the account (\<open>sia/account.go\<close>).

  The SDK and the indexer are the fields of the record \<open>sdk\<close>, functions on a network of any
  type. An object of the SDK is its id, the digests of the slab slices it lies on in order, and
  its size; a slab id and an object ref are their texts. Upload options and the context are not
  modelled.
\<close>

section \<open>Values\<close>

record SdkObject =
  so_ID :: string
  so_Slabs :: "string list"
  so_Size :: int

record Account =
  ac_Ready :: bool
  ac_PinnedData :: nat
  ac_PinnedSize :: nat
  ac_MaxPinnedData :: nat

definition Account_Free :: "Account \<Rightarrow> nat" where
  "Account_Free a = (if ac_MaxPinnedData a \<le> ac_PinnedData a then 0 else ac_MaxPinnedData a - ac_PinnedData a)"

record Placement =
  pl_Ref :: string
  pl_Slab :: string
  pl_Bytes :: int

record Batch =
  ba_objects :: "SdkObject list"
  ba_placements :: "Placement list"

record StoredObject =
  ob_Ref :: string
  ob_Slab :: string
  ob_Bytes :: int
  ob_UpdatedAt :: int

record 'o event =
  ev_Key :: string
  ev_UpdatedAt :: int
  ev_Deleted :: bool
  ev_Object :: "'o option"

type_synonym cursor = "(string \<times> int) option"

record ('n, 'o) sdk =
  sk_Upload :: "bytes list \<Rightarrow> 'n \<Rightarrow> (string, SdkObject list) result \<times> 'n"
  sk_PinSlabs :: "string list \<Rightarrow> 'n \<Rightarrow> (string, unit) result \<times> 'n"
  sk_PinObject :: "SdkObject \<Rightarrow> 'n \<Rightarrow> (string, unit) result \<times> 'n"
  sk_DeleteObject :: "string \<Rightarrow> 'n \<Rightarrow> (string, unit) result \<times> 'n"
  sk_ObjectNotFound :: string
  sk_parseSlabID :: "string \<Rightarrow> bool"
  sk_SlabNotFound :: string
  sk_UnpinSlab :: "string \<Rightarrow> 'n \<Rightarrow> (string, unit) result \<times> 'n"
  sk_ListObjects :: "cursor \<Rightarrow> nat \<Rightarrow> 'n \<Rightarrow> (string, 'o event list) result \<times> 'n"
  sk_SlabIDs :: "nat \<Rightarrow> nat \<Rightarrow> 'n \<Rightarrow> (string, string list) result \<times> 'n"
  sk_Open :: "'o \<Rightarrow> SdkObject option"
  sk_Account :: "'n \<Rightarrow> (string, Account) result \<times> 'n"
  sk_Download :: "string \<Rightarrow> 'n \<Rightarrow> (string, bytes) result \<times> 'n"
  sk_OptimalDataSize :: "'n \<Rightarrow> (string, int) result \<times> 'n"
  sk_order :: "'n \<Rightarrow> nat \<Rightarrow> nat list"

section \<open>Concurrent calls\<close>

text \<open>
  Up to a limit of calls run at once and a failure cancels those not started. Which calls take
  effect before that and in which order is the scheduler's: \<open>order\<close> lists them. Only when every
  call ran and none failed is there no error.
\<close>

fun run_calls :: "(nat \<Rightarrow> 'n \<Rightarrow> (string, unit) result \<times> 'n) \<Rightarrow> nat list \<Rightarrow> 'n \<Rightarrow> string list \<times> 'n" where
  "run_calls f [] n = ([], n)"
| "run_calls f (i # ks) n =
     (case f i n of (r, n1) \<Rightarrow>
      case run_calls f ks n1 of (errs, n2) \<Rightarrow> ((case r of Inl e \<Rightarrow> e # errs | Inr _ \<Rightarrow> errs), n2))"

definition inFlight :: "nat list \<Rightarrow> nat \<Rightarrow> (nat \<Rightarrow> 'n \<Rightarrow> (string, unit) result \<times> 'n) \<Rightarrow> 'n \<Rightarrow> (string, unit) result \<times> 'n" where
  "inFlight order njobs f n =
     (if njobs = 0 then (Inr (), n)
      else
        let started = filter (\<lambda>i. i < njobs) (remdups order) in
        case run_calls f started n of (errs, n') \<Rightarrow>
          (if errs \<noteq> [] then Inl (hd errs) else if length started < njobs then Inl ''context canceled'' else Inr (), n'))"

section \<open>References\<close>

text \<open>An \<open>ObjectRef\<close> is its text, 64 lower-case hexadecimal digits.\<close>

definition ParseObjectRef :: "string \<Rightarrow> (string, string) result" where
  "ParseObjectRef s =
     (case hex_decode s of
        None \<Rightarrow> Inl ''parse object ref''
      | Some b \<Rightarrow> if length b \<noteq> 32 then Inl ''want 32 bytes'' else Inr (hex_encode b))"

section \<open>Upload\<close>

definition slabOf :: "SdkObject \<Rightarrow> string" where
  "slabOf obj = (case so_Slabs obj of [] \<Rightarrow> '''' | d # _ \<Rightarrow> d)"

definition place :: "SdkObject \<Rightarrow> bytes \<Rightarrow> Placement" where
  "place obj payload = \<lparr>pl_Ref = so_ID obj, pl_Slab = slabOf obj, pl_Bytes = int (length payload)\<rparr>"

definition UploadPacked :: "('n, 'o) sdk \<Rightarrow> bytes list \<Rightarrow> 'n \<Rightarrow> (string, Batch) result \<times> 'n" where
  "UploadPacked c payloads n =
     (if payloads = [] then (Inr \<lparr>ba_objects = [], ba_placements = []\<rparr>, n)
      else case sk_Upload c payloads n of
        (Inl e, n') \<Rightarrow> (Inl e, n')
      | (Inr objects, n') \<Rightarrow>
          (if length objects \<noteq> length payloads then Inl ''packed upload returned another number of objects''
           else Inr \<lparr>ba_objects = objects, ba_placements = map2 place objects payloads\<rparr>, n'))"

fun slabs_loop :: "Placement list \<Rightarrow> string list \<Rightarrow> string list" where
  "slabs_loop [] out = out"
| "slabs_loop (p # ps) out =
     (if pl_Slab p = '''' then slabs_loop ps out
      else if pl_Slab p \<in> set out then slabs_loop ps out
      else slabs_loop ps (out @ [pl_Slab p]))"

definition Batch_Slabs :: "Batch \<Rightarrow> string list" where
  "Batch_Slabs b = slabs_loop (ba_placements b) []"

text \<open>\<open>slabs\<close> bytes fill whole slabs of ten sectors, each written as thirty shards.\<close>

definition SectorSize :: int where "SectorSize = 4194304"

definition ShardUploads :: "int \<Rightarrow> int" where
  "ShardUploads payloadBytes =
     (let quantum = 10 * SectorSize in (payloadBytes + quantum - 1) div quantum * 30)"

section \<open>Pinning\<close>

fun pin_params :: "string list \<Rightarrow> string list \<Rightarrow> string list" where
  "pin_params [] params = params"
| "pin_params (d # ds) params = pin_params ds (if d \<in> set params then params else params @ [d])"

definition Client_PinSlabs :: "('n, 'o) sdk \<Rightarrow> Batch \<Rightarrow> 'n \<Rightarrow> (string, unit) result \<times> 'n" where
  "Client_PinSlabs c batch n =
     (let params = pin_params (concat (map so_Slabs (ba_objects batch))) []
      in if params = [] then (Inr (), n) else sk_PinSlabs c params n)"

definition Client_PinObjects :: "('n, 'o) sdk \<Rightarrow> Batch \<Rightarrow> 'n \<Rightarrow> (string, unit) result \<times> 'n" where
  "Client_PinObjects c batch n =
     inFlight (sk_order c n (length (ba_objects batch))) (length (ba_objects batch))
       (\<lambda>i. sk_PinObject c (ba_objects batch ! i)) n"

section \<open>Removing\<close>

text \<open>
  The indexer's typed errors do not survive the wire, so an absent object or slab is recognised by
  the message: the sentinel's own text, or the id together with the words.
\<close>

definition notFoundPhrase :: string where "notFoundPhrase = ''not found''"

definition isNotFound :: "('n, 'o) sdk \<Rightarrow> string \<Rightarrow> string \<Rightarrow> bool" where
  "isNotFound c message ref \<longleftrightarrow> strings_Contains message (sk_ObjectNotFound c) \<or>
     strings_Contains message ref \<and> strings_Contains message notFoundPhrase"

definition isSlabGone :: "('n, 'o) sdk \<Rightarrow> string \<Rightarrow> string \<Rightarrow> bool" where
  "isSlabGone c message slab \<longleftrightarrow> strings_Contains message (sk_SlabNotFound c) \<or>
     strings_Contains message slab \<and> strings_Contains message notFoundPhrase"

definition Client_DeleteObject :: "('n, 'o) sdk \<Rightarrow> string \<Rightarrow> 'n \<Rightarrow> (string, unit) result \<times> 'n" where
  "Client_DeleteObject c ref n =
     (case sk_DeleteObject c ref n of
        (Inl message, n') \<Rightarrow> (if isNotFound c message ref then Inr () else Inl message, n')
      | (Inr _, n') \<Rightarrow> (Inr (), n'))"

definition Client_UnpinSlab :: "('n, 'o) sdk \<Rightarrow> string \<Rightarrow> 'n \<Rightarrow> (string, unit) result \<times> 'n" where
  "Client_UnpinSlab c slab n =
     (if \<not> sk_parseSlabID c slab then (Inl ''parse slab id'', n)
      else case sk_UnpinSlab c slab n of
        (Inl message, n') \<Rightarrow> (if isSlabGone c message slab then Inr () else Inl message, n')
      | (Inr _, n') \<Rightarrow> (Inr (), n'))"

definition Client_DeleteObjects :: "('n, 'o) sdk \<Rightarrow> string list \<Rightarrow> 'n \<Rightarrow> (string, unit) result \<times> 'n" where
  "Client_DeleteObjects c refs n =
     inFlight (sk_order c n (length refs)) (length refs) (\<lambda>i. Client_DeleteObject c (refs ! i)) n"

definition Client_Download :: "('n, 'o) sdk \<Rightarrow> string \<Rightarrow> 'n \<Rightarrow> (string, bytes) result \<times> 'n" where
  "Client_Download c ref n = sk_Download c ref n"

definition Client_SlabPayloadSize :: "('n, 'o) sdk \<Rightarrow> 'n \<Rightarrow> (string, int) result \<times> 'n" where
  "Client_SlabPayloadSize c n = sk_OptimalDataSize c n"

definition Client_Account :: "('n, 'o) sdk \<Rightarrow> 'n \<Rightarrow> (string, Account) result \<times> 'n" where
  "Client_Account c n = sk_Account c n"

section \<open>The change feed\<close>

definition EnumeratePageSize :: nat where "EnumeratePageSize = 500"

record walk =
  wk_Pages :: nat
  wk_Events :: nat
  wk_Deleted :: nat
  wk_Superseded :: nat
  wk_Unreadable :: "string list"
  wk_live :: "string \<rightharpoonup> StoredObject"
  wk_order :: "string list"

definition walk_start :: walk where
  "walk_start = \<lparr>wk_Pages = 0, wk_Events = 0, wk_Deleted = 0, wk_Superseded = 0, wk_Unreadable = [],
     wk_live = Map.empty, wk_order = []\<rparr>"

definition walk_event :: "('o \<Rightarrow> SdkObject option) \<Rightarrow> 'o event \<Rightarrow> walk \<Rightarrow> walk" where
  "walk_event opn event w =
     (let key = ev_Key event;
          w1 = (if key \<in> set (wk_order w) then w\<lparr>wk_Superseded := wk_Superseded w + 1\<rparr>
                else w\<lparr>wk_order := wk_order w @ [key]\<rparr>)
      in if ev_Deleted event then w1\<lparr>wk_Deleted := wk_Deleted w1 + 1, wk_live := (wk_live w1)(key := None)\<rparr>
         else case ev_Object event of
           None \<Rightarrow> w1\<lparr>wk_Deleted := wk_Deleted w1 + 1, wk_live := (wk_live w1)(key := None)\<rparr>
         | Some sealed \<Rightarrow>
             (case opn sealed of
                None \<Rightarrow> w1\<lparr>wk_Unreadable := wk_Unreadable w1 @ [key], wk_live := (wk_live w1)(key := None)\<rparr>
              | Some obj \<Rightarrow>
                  w1\<lparr>wk_live := (wk_live w1)(key \<mapsto>
                    \<lparr>ob_Ref = key, ob_Slab = slabOf obj, ob_Bytes = so_Size obj, ob_UpdatedAt = ev_UpdatedAt event\<rparr>)\<rparr>))"

definition event_cursor :: "'o event \<Rightarrow> cursor" where
  "event_cursor event = Some (ev_Key event, ev_UpdatedAt event)"

text \<open>The loop over the pages; it ends when a page is empty.\<close>

partial_function (option) walk_pages ::
  "('n, 'o) sdk \<Rightarrow> cursor \<Rightarrow> walk \<Rightarrow> 'n \<Rightarrow> ((string, walk) result \<times> 'n) option" where
  "walk_pages c cur w n =
     (case sk_ListObjects c cur EnumeratePageSize n of
        (Inl e, n') \<Rightarrow> Some (Inl e, n')
      | (Inr events, n') \<Rightarrow>
          if events = [] then Some (Inr w, n')
          else
            walk_pages c (event_cursor (last events))
              (fold (walk_event (sk_Open c)) events
                (w\<lparr>wk_Pages := wk_Pages w + 1, wk_Events := wk_Events w + length events\<rparr>)) n')"

text \<open>The objects handed to the callback, in the order their keys were first seen.\<close>

definition walk_objects :: "walk \<Rightarrow> StoredObject list" where
  "walk_objects w = map (\<lambda>k. the (wk_live w k)) (filter (\<lambda>k. wk_live w k \<noteq> None) (wk_order w))"

definition WalkObjectsStats ::
  "('n, 'o) sdk \<Rightarrow> 'n \<Rightarrow> ((string, StoredObject list \<times> walk) result \<times> 'n) option" where
  "WalkObjectsStats c n =
     map_option (\<lambda>(r, n'). (case r of Inl e \<Rightarrow> Inl e | Inr w \<Rightarrow> Inr (walk_objects w, w), n')) (walk_pages c None walk_start n)"

partial_function (option) slab_pages ::
  "('n, 'o) sdk \<Rightarrow> nat \<Rightarrow> string list \<Rightarrow> 'n \<Rightarrow> ((string, string list) result \<times> 'n) option" where
  "slab_pages c offset out n =
     (case sk_SlabIDs c offset 500 n of
        (Inl e, n') \<Rightarrow> Some (Inl e, n')
      | (Inr batch, n') \<Rightarrow>
          if length batch < 500 then Some (Inr (out @ batch), n')
          else slab_pages c (offset + 500) (out @ batch) n')"

definition PinnedSlabs :: "('n, 'o) sdk \<Rightarrow> 'n \<Rightarrow> ((string, string list) result \<times> 'n) option" where
  "PinnedSlabs c n = slab_pages c 0 [] n"

section \<open>What the walk lists\<close>

text \<open>The last event of a key, and what it makes of the object.\<close>

definition last_event :: "'o event list \<Rightarrow> string \<Rightarrow> 'o event option" where
  "last_event evs k = find (\<lambda>e. ev_Key e = k) (rev evs)"

definition event_object :: "('o \<Rightarrow> SdkObject option) \<Rightarrow> 'o event \<Rightarrow> StoredObject option" where
  "event_object opn e =
     (if ev_Deleted e then None
      else case ev_Object e of
        None \<Rightarrow> None
      | Some sealed \<Rightarrow> map_option (\<lambda>obj. \<lparr>ob_Ref = ev_Key e, ob_Slab = slabOf obj, ob_Bytes = so_Size obj,
          ob_UpdatedAt = ev_UpdatedAt e\<rparr>) (opn sealed))"

definition live_object :: "('o \<Rightarrow> SdkObject option) \<Rightarrow> 'o event list \<Rightarrow> string \<Rightarrow> StoredObject option" where
  "live_object opn evs k = (case last_event evs k of None \<Rightarrow> None | Some e \<Rightarrow> event_object opn e)"

lemma walk_event_parts:
  "wk_live (walk_event opn e w) = (wk_live w)(ev_Key e := event_object opn e)"
  "wk_order (walk_event opn e w) = (if ev_Key e \<in> set (wk_order w) then wk_order w else wk_order w @ [ev_Key e])"
  by (auto simp: walk_event_def event_object_def Let_def split: option.split)

lemma walk_events:
  "wk_live (fold (walk_event opn) evs w) = (\<lambda>k. if k \<in> ev_Key ` set evs then live_object opn evs k else wk_live w k) \<and>
   (wk_order w = firsts ks \<longrightarrow> wk_order (fold (walk_event opn) evs w) = firsts (ks @ map ev_Key evs))"
proof (induction evs rule: rev_induct)
  case (snoc e evs)
  have l: "live_object opn (evs @ [e]) k = (if ev_Key e = k then event_object opn e else live_object opn evs k)" for k
    by (simp add: live_object_def last_event_def)
  have "wk_live (fold (walk_event opn) (evs @ [e]) w) =
      (\<lambda>k. if k \<in> ev_Key ` set (evs @ [e]) then live_object opn (evs @ [e]) k else wk_live w k)"
    using snoc.IH by (auto simp: walk_event_parts l fun_eq_iff)
  moreover have "wk_order w = firsts ks \<longrightarrow> wk_order (fold (walk_event opn) (evs @ [e]) w) = firsts (ks @ map ev_Key (evs @ [e]))"
    using snoc.IH firsts_snoc [of "ks @ map ev_Key evs" "ev_Key e"] by (simp add: walk_event_parts)
  ultimately show ?case by blast
qed simp

definition unopenable :: "('o \<Rightarrow> SdkObject option) \<Rightarrow> 'o event \<Rightarrow> bool" where
  "unopenable opn e \<longleftrightarrow> \<not> ev_Deleted e \<and> (case ev_Object e of None \<Rightarrow> False | Some sealed \<Rightarrow> opn sealed = None)"

lemma walk_unreadable:
  "wk_Unreadable (fold (walk_event opn) evs w) = wk_Unreadable w @
     map ev_Key (filter (unopenable opn) evs)"
proof (induction evs arbitrary: w)
  case (Cons e evs)
  have "wk_Unreadable (walk_event opn e w) = wk_Unreadable w @
      (if unopenable opn e then [ev_Key e] else [])"
    by (auto simp: unopenable_def walk_event_def Let_def split: option.splits)
  then show ?case using Cons.IH by simp
qed simp

text \<open>The feed of a finite account: a page is the next events after the cursor.\<close>

definition after_cursor :: "cursor \<Rightarrow> 'o event list \<Rightarrow> 'o event list" where
  "after_cursor cur evs = (if cur = None then evs else tl (dropWhile (\<lambda>e. event_cursor e \<noteq> cur) evs))"

definition pages_of :: "('n, 'o) sdk \<Rightarrow> 'n \<Rightarrow> 'o event list \<Rightarrow> bool" where
  "pages_of c n evs \<longleftrightarrow> distinct (map event_cursor evs) \<and>
     (\<forall>cur. sk_ListObjects c cur EnumeratePageSize n = (Inr (take EnumeratePageSize (after_cursor cur evs)), n))"

lemma after_last:
  assumes "distinct (map event_cursor (front @ page @ rest))" "page \<noteq> []"
  shows "after_cursor (event_cursor (last page)) (front @ page @ rest) = rest"
proof -
  let ?c = "event_cursor (last page)"
  obtain mid where p: "page = mid @ [last page]" using assms(2) by (metis append_butlast_last_id)
  have d: "distinct (map event_cursor ((front @ mid) @ last page # rest))" using assms(1) p by (metis append.assoc append_Cons append_Nil)
  have "?c \<notin> event_cursor ` set (front @ mid)" using d unfolding map_append list.map distinct_append by (simp add: image_Un)
  then have "event_cursor e \<noteq> ?c" if "e \<in> set (front @ mid)" for e using that by (metis image_eqI)
  then have "dropWhile (\<lambda>e. event_cursor e \<noteq> ?c) ((front @ mid) @ last page # rest) = last page # rest"
    by (subst dropWhile_append2) auto
  then have "dropWhile (\<lambda>e. event_cursor e \<noteq> ?c) (front @ page @ rest) = last page # rest"
    using p by (metis append.assoc append_Cons append_Nil)
  then show ?thesis by (simp add: after_cursor_def event_cursor_def)
qed

lemma walk_pages_fold:
  assumes "pages_of c n (front @ rest)" "after_cursor cur (front @ rest) = rest"
  shows "\<exists>w'. walk_pages c cur w n = Some (Inr w', n) \<and>
    wk_live w' = wk_live (fold (walk_event (sk_Open c)) rest w) \<and> wk_order w' = wk_order (fold (walk_event (sk_Open c)) rest w) \<and>
    wk_Unreadable w' = wk_Unreadable (fold (walk_event (sk_Open c)) rest w)"
  using assms
proof (induction "length rest" arbitrary: front rest cur w rule: less_induct)
  case less
  let ?page = "take EnumeratePageSize rest"
  have page: "sk_ListObjects c cur EnumeratePageSize n = (Inr ?page, n)" using less.prems by (simp add: pages_of_def)
  show ?case
  proof (cases "rest = []")
    case True
    then show ?thesis using page by (subst walk_pages.simps) simp
  next
    case False
    then have ne: "?page \<noteq> []" by (simp add: EnumeratePageSize_def)
    let ?rest = "drop EnumeratePageSize rest" and ?w = "fold (walk_event (sk_Open c)) ?page
        (w\<lparr>wk_Pages := wk_Pages w + 1, wk_Events := wk_Events w + length ?page\<rparr>)"
    have split: "front @ rest = (front @ ?page) @ ?rest" by simp
    have next_cur: "after_cursor (event_cursor (last ?page)) ((front @ ?page) @ ?rest) = ?rest"
      using after_last [of front ?page ?rest] less.prems(1) ne by (simp add: pages_of_def)
    have "length ?rest < length rest" using False by (simp add: EnumeratePageSize_def)
    from less.hyps [OF this _ next_cur, of ?w] less.prems(1)
    obtain w' where w': "walk_pages c (event_cursor (last ?page)) ?w n = Some (Inr w', n)"
      "wk_live w' = wk_live (fold (walk_event (sk_Open c)) ?rest ?w)" "wk_order w' = wk_order (fold (walk_event (sk_Open c)) ?rest ?w)"
      "wk_Unreadable w' = wk_Unreadable (fold (walk_event (sk_Open c)) ?rest ?w)"
      by auto
    have all: "fold (walk_event (sk_Open c)) rest v = fold (walk_event (sk_Open c)) ?rest (fold (walk_event (sk_Open c)) ?page v)" for v
      by (metis append_take_drop_id comp_apply fold_append)
    have same: "wk_live (fold (walk_event opn) evs (w\<lparr>wk_Pages := a, wk_Events := b\<rparr>)) = wk_live (fold (walk_event opn) evs w)"
      "wk_order (fold (walk_event opn) evs (w\<lparr>wk_Pages := a, wk_Events := b\<rparr>)) = wk_order (fold (walk_event opn) evs w)"
      "wk_Unreadable (fold (walk_event opn) evs (w\<lparr>wk_Pages := a, wk_Events := b\<rparr>)) = wk_Unreadable (fold (walk_event opn) evs w)" for opn evs a b
      subgoal by (induction evs rule: rev_induct) (simp_all add: walk_event_parts)
      subgoal by (induction evs rule: rev_induct) (simp_all add: walk_event_parts)
      by (simp add: walk_unreadable)
    have "walk_pages c cur w n = Some (Inr w', n)"
      using page ne w'(1) by (subst walk_pages.simps) simp
    then show ?thesis using w'(2-4) by (simp add: all [symmetric] same)
  qed
qed

definition live_objects :: "('o \<Rightarrow> SdkObject option) \<Rightarrow> 'o event list \<Rightarrow> StoredObject list" where
  "live_objects opn evs =
     map (\<lambda>k. the (live_object opn evs k)) (filter (\<lambda>k. live_object opn evs k \<noteq> None) (firsts (map ev_Key evs)))"

lemma live_object_key:
  assumes "live_object opn evs k = Some ob" shows "ob_Ref ob = k \<and> k \<in> ev_Key ` set evs"
proof -
  obtain e where e: "last_event evs k = Some e" and o': "event_object opn e = Some ob"
    using assms by (auto simp: live_object_def split: option.splits)
  have "ev_Key e = k \<and> e \<in> set evs" using e by (auto simp: last_event_def find_Some_iff in_set_conv_nth rev_nth)
      (metis diff_less length_greater_0_conv length_rev list.size(3) not_less0 zero_less_Suc)
  moreover have "ob_Ref ob = ev_Key e" using o' by (auto simp: event_object_def split: if_splits option.splits)
  ultimately show ?thesis by (metis imageI)
qed

lemma live_objects_refs:
  "map ob_Ref (live_objects opn evs) = filter (\<lambda>k. live_object opn evs k \<noteq> None) (firsts (map ev_Key evs))"
  unfolding live_objects_def map_map by (rule map_idI) (auto dest: live_object_key)

lemma live_objects_mem: "ob \<in> set (live_objects opn evs) \<longleftrightarrow> live_object opn evs (ob_Ref ob) = Some ob"
proof
  show "live_object opn evs (ob_Ref ob) = Some ob" if m: "ob \<in> set (live_objects opn evs)"
  proof -
    obtain k where k: "live_object opn evs k = Some ob" using m by (auto simp: live_objects_def)
    with live_object_key [OF k] show ?thesis by simp
  qed
next
  assume l: "live_object opn evs (ob_Ref ob) = Some ob"
  then have "ob_Ref ob \<in> set (filter (\<lambda>k. live_object opn evs k \<noteq> None) (firsts (map ev_Key evs)))"
    using live_object_key [OF l] by simp
  with l show "ob \<in> set (live_objects opn evs)" unfolding live_objects_def by (force simp del: set_filter)
qed

text \<open>The listing of pinned slabs ends on a finite account, and is all of them.\<close>

definition slab_pages_of :: "('n, 'o) sdk \<Rightarrow> 'n \<Rightarrow> string list \<Rightarrow> bool" where
  "slab_pages_of c n ids \<longleftrightarrow> (\<forall>offset k. sk_SlabIDs c offset k n = (Inr (take k (drop offset ids)), n))"

lemma PinnedSlabs_lists:
  assumes "slab_pages_of c n ids" shows "PinnedSlabs c n = Some (Inr ids, n)"
proof -
  have "slab_pages c offset (take offset ids) n = Some (Inr ids, n)" for offset
  proof (induction "length ids - offset" arbitrary: offset rule: less_induct)
    case less
    have page: "sk_SlabIDs c offset 500 n = (Inr (take 500 (drop offset ids)), n)" using assms by (simp add: slab_pages_of_def)
    show ?case
    proof (cases "length (take 500 (drop offset ids)) < 500")
      case True
      then have "take offset ids @ take 500 (drop offset ids) = ids" by (auto simp: min_def split: if_splits)
      then show ?thesis using page True by (subst slab_pages.simps) (simp del: length_take)
    next
      case False
      then have "length ids - (offset + 500) < length ids - offset" by auto
      note less.hyps [OF this]
      moreover have "take offset ids @ take 500 (drop offset ids) = take (offset + 500) ids" by (simp add: take_add)
      ultimately show ?thesis using page False by (subst slab_pages.simps) simp
    qed
  qed
  from this [of 0] show ?thesis by (simp add: PinnedSlabs_def)
qed

lemma walk_lists:
  assumes "pages_of c n evs"
  shows "\<exists>stats. WalkObjectsStats c n = Some (Inr (live_objects (sk_Open c) evs, stats), n) \<and>
    wk_Unreadable stats = map ev_Key (filter (unopenable (sk_Open c)) evs)"
proof -
  let ?opn = "sk_Open c"
  obtain w where w: "walk_pages c None walk_start n = Some (Inr w, n)"
    and live: "wk_live w = wk_live (fold (walk_event ?opn) evs walk_start)"
    and order: "wk_order w = wk_order (fold (walk_event ?opn) evs walk_start)"
    and unr: "wk_Unreadable w = wk_Unreadable (fold (walk_event ?opn) evs walk_start)"
    using walk_pages_fold [of c n "[]" evs None walk_start] assms by (auto simp: after_cursor_def)
  have l: "wk_live w = live_object ?opn evs"
    using walk_events [of ?opn evs walk_start "[]"] live live_object_key [of ?opn evs]
    by (auto simp: fun_eq_iff walk_start_def) (metis not_None_eq)+
  have o': "wk_order w = firsts (map ev_Key evs)"
    using walk_events [of ?opn evs walk_start "[]"] order by (simp add: walk_start_def)
  have objs: "walk_objects w = live_objects ?opn evs"
    by (simp add: walk_objects_def live_objects_def l o')
  have "wk_Unreadable w = map ev_Key (filter (unopenable ?opn) evs)" unfolding unr walk_unreadable by (simp add: walk_start_def)
  then show ?thesis using w objs by (auto simp: WalkObjectsStats_def)
qed

text \<open>
  C25. On the feed of a finite account the walk ends, and it hands over each object whose last event
  still holds it and opens, once, as that event has it, in the order the keys were first seen. The
  objects it reports unreadable are those with an event that does not open, the last one or not.
\<close>

theorem walk_lists_live:
  assumes "pages_of c n evs"
  shows "\<exists>stats. WalkObjectsStats c n = Some (Inr (live_objects (sk_Open c) evs, stats), n) \<and>
    wk_Unreadable stats = map ev_Key (filter (unopenable (sk_Open c)) evs) \<and>
    distinct (map ob_Ref (live_objects (sk_Open c) evs))"
  using walk_lists [OF assms] by (auto simp: live_objects_refs)

text \<open>A feed in pages of the events of a list.\<close>

definition feed_sdk :: "SdkObject option event list \<Rightarrow> (unit, SdkObject option) sdk" where
  "feed_sdk evs =
     \<lparr>sk_Upload = (\<lambda>ps n. (Inr [], n)), sk_PinSlabs = (\<lambda>ds n. (Inr (), n)), sk_PinObject = (\<lambda>ob n. (Inr (), n)),
      sk_DeleteObject = (\<lambda>r n. (Inr (), n)), sk_ObjectNotFound = ''object not found'', sk_parseSlabID = (\<lambda>d. True),
      sk_SlabNotFound = ''slab not found'', sk_UnpinSlab = (\<lambda>d n. (Inr (), n)),
      sk_ListObjects = (\<lambda>cur k n. (Inr (take k (after_cursor cur evs)), n)), sk_SlabIDs = (\<lambda>a k n. (Inr [], n)),
      sk_Open = id, sk_Account = (\<lambda>n. (Inl ''down'', n)), sk_Download = (\<lambda>r n. (Inr [], n)),
      sk_OptimalDataSize = (\<lambda>n. (Inr 40, n)), sk_order = (\<lambda>n k. upt 0 k)\<rparr>"

definition sample_events :: "SdkObject option event list" where
  "sample_events =
     (let ob = \<lparr>so_ID = ''a'', so_Slabs = [''x''], so_Size = 1\<rparr> in
      [\<lparr>ev_Key = ''a'', ev_UpdatedAt = 1, ev_Deleted = False, ev_Object = Some None\<rparr>,
       \<lparr>ev_Key = ''b'', ev_UpdatedAt = 2, ev_Deleted = False, ev_Object = Some (Some (ob\<lparr>so_ID := ''b''\<rparr>))\<rparr>,
       \<lparr>ev_Key = ''a'', ev_UpdatedAt = 3, ev_Deleted = False, ev_Object = Some (Some ob)\<rparr>,
       \<lparr>ev_Key = ''b'', ev_UpdatedAt = 4, ev_Deleted = True, ev_Object = None\<rparr>])"

theorem walk_lists_live_witness:
  "\<exists>stats. WalkObjectsStats (feed_sdk sample_events) () =
     Some (Inr ([\<lparr>ob_Ref = ''a'', ob_Slab = ''x'', ob_Bytes = 1, ob_UpdatedAt = 3\<rparr>], stats), ()) \<and>
     wk_Unreadable stats = [''a'']"
proof -
  have "pages_of (feed_sdk sample_events) () sample_events"
    by (simp add: pages_of_def feed_sdk_def) (simp add: sample_events_def event_cursor_def)
  note walk_lists_live [OF this]
  moreover have "live_objects id sample_events = [\<lparr>ob_Ref = ''a'', ob_Slab = ''x'', ob_Bytes = 1, ob_UpdatedAt = 3\<rparr>]"
    by (simp add: live_objects_def live_object_def last_event_def event_object_def sample_events_def firsts_def slabOf_def)
  moreover have "map ev_Key (filter (unopenable id) sample_events) = [''a'']"
    by (simp add: unopenable_def sample_events_def)
  moreover have "sk_Open (feed_sdk sample_events) = id" by (simp add: feed_sdk_def)
  ultimately show ?thesis by auto
qed

end
