(* ===== verification/Store_Put.thy ===== *)
theory Store_Put
  imports Local_Slabs Local_Queue Sia
begin

text \<open>
  Package \<open>store\<close> (\<open>store/store.go\<close>): the write of a batch through the Sia boundary, and the ledger
  the vault gives it (\<open>vault/remember.go\<close>, \<open>recordSlabs\<close>).

  The SDK behind the boundary is the record \<open>boundary\<close> of functions on a network of any type.
  Progress events and the durations of the phases are not modelled. A process runs against the
  device and the network, and keeps the packer's view of the queue in memory: the record
  \<open>world\<close>.
\<close>

record 'n world = device +
  wl_net :: 'n
  wl_state :: QueueState

section \<open>The boundary\<close>

record Blob =
  bl_CID :: string
  bl_Payload :: bytes

record uploaded =
  up_batch :: Batch
  up_slabs :: "string list"
  up_placements :: "Placement list"

record 'n boundary =
  bd_Upload :: "bytes list \<Rightarrow> 'n \<Rightarrow> (string, uploaded) result \<times> 'n"
  bd_PinSlabs :: "uploaded \<Rightarrow> 'n \<Rightarrow> (string, unit) result \<times> 'n"
  bd_PinObjects :: "uploaded \<Rightarrow> 'n \<Rightarrow> (string, unit) result \<times> 'n"
  bd_Download :: "string \<Rightarrow> 'n \<Rightarrow> (string, bytes) result \<times> 'n"
  bd_SlabPayloadSize :: "'n \<Rightarrow> (string, int) result \<times> 'n"

text \<open>The boundary of production, one client call per method.\<close>

definition boundary_Upload :: "('n, 'o) sdk \<Rightarrow> bytes list \<Rightarrow> 'n \<Rightarrow> (string, uploaded) result \<times> 'n" where
  "boundary_Upload c payloads n =
     (case UploadPacked c payloads n of
        (Inl e, n') \<Rightarrow> (Inl e, n')
      | (Inr batch, n') \<Rightarrow>
          (Inr \<lparr>up_batch = batch, up_slabs = Batch_Slabs batch, up_placements = ba_placements batch\<rparr>, n'))"

definition siaBoundary :: "('n, 'o) sdk \<Rightarrow> 'n boundary" where
  "siaBoundary c =
     \<lparr>bd_Upload = boundary_Upload c,
      bd_PinSlabs = (\<lambda>b. Client_PinSlabs c (up_batch b)),
      bd_PinObjects = (\<lambda>b. Client_PinObjects c (up_batch b)),
      bd_Download = Client_Download c,
      bd_SlabPayloadSize = Client_SlabPayloadSize c\<rparr>"

datatype store_error = NoLedger | UploadFailed string | LedgerFailed local_error | PinFailed string | PlacementIndex

text \<open>A call across the boundary, and a call whose error is wrapped.\<close>

definition net_io :: "('n \<Rightarrow> (string, 'a) result \<times> 'n) \<Rightarrow> ('n world, string, 'a) io" where
  "net_io f s = (case f (wl_net s) of (r, n) \<Rightarrow> (r, s\<lparr>wl_net := n\<rparr>))"

definition wrap_io :: "('e \<Rightarrow> 'f) \<Rightarrow> ('s, 'e, 'a) io \<Rightarrow> ('s, 'f, 'a) io" where
  "wrap_io g m s = (case m s of (Inl e, s') \<Rightarrow> (Inl (g e), s') | (Inr x, s') \<Rightarrow> (Inr x, s'))"

section \<open>Writing a batch\<close>

record SlabsWritten =
  sw_Slabs :: "string list"
  sw_Records :: int
  sw_Bytes :: int

type_synonym 'n SlabLedger = "SlabsWritten \<Rightarrow> ('n world, local_error, unit) io"

record 'n Store =
  st_across :: "'n boundary"
  st_ledger :: "'n SlabLedger option"

definition Store_New :: "('n, 'o) sdk \<Rightarrow> 'n SlabLedger \<Rightarrow> 'n Store" where
  "Store_New c ledger = \<lparr>st_across = siaBoundary c, st_ledger = Some ledger\<rparr>"

record Written =
  wr_CID :: string
  wr_ObjectRef :: string
  wr_SlabID :: string
  wr_Bytes :: int

record Flush =
  fu_Written :: "Written list"
  fu_Slabs :: "string list"

definition Flush_Bytes :: "Flush \<Rightarrow> int" where
  "Flush_Bytes f = sum_list (map wr_Bytes (fu_Written f))"

definition written_of :: "Blob list \<Rightarrow> Placement list \<Rightarrow> Written list" where
  "written_of blobs placements =
     map (\<lambda>(b, p). \<lparr>wr_CID = bl_CID b, wr_ObjectRef = pl_Ref p, wr_SlabID = pl_Slab p, wr_Bytes = pl_Bytes p\<rparr>)
       (zip blobs placements)"

definition PutBatch :: "'n Store \<Rightarrow> Blob list \<Rightarrow> ('n world, store_error, Flush) io" where
  "PutBatch st blobs =
     (if blobs = [] then ret_io \<lparr>fu_Written = [], fu_Slabs = []\<rparr>
      else case st_ledger st of
        None \<Rightarrow> fail_io NoLedger
      | Some ledger \<Rightarrow>
          let payloads = map bl_Payload blobs;
              payloadBytes = (\<Sum>b \<leftarrow> blobs. int (length (bl_Payload b)))
          in
          bind_io (wrap_io UploadFailed (net_io (bd_Upload (st_across st) payloads))) (\<lambda>batch.
          bind_io (wrap_io LedgerFailed
            (ledger \<lparr>sw_Slabs = up_slabs batch, sw_Records = int (length blobs), sw_Bytes = payloadBytes\<rparr>)) (\<lambda>_.
          bind_io (wrap_io PinFailed (net_io (bd_PinSlabs (st_across st) batch))) (\<lambda>_.
          bind_io (wrap_io PinFailed (net_io (bd_PinObjects (st_across st) batch))) (\<lambda>_.
          if length blobs < length (up_placements batch) then fail_io PlacementIndex
          else ret_io \<lparr>fu_Written = written_of blobs (up_placements batch), fu_Slabs = up_slabs batch\<rparr>)))))"

definition Store_Get :: "'n Store \<Rightarrow> string \<Rightarrow> ('n world, string, bytes) io" where
  "Store_Get st ref = net_io (bd_Download (st_across st) ref)"

definition Store_SlabPayloadSize :: "'n Store \<Rightarrow> ('n world, string, int) io" where
  "Store_SlabPayloadSize st = net_io (bd_SlabPayloadSize (st_across st))"

section \<open>The ledger of the vault\<close>

text \<open>\<open>Reclaimer.Track\<close>.\<close>

definition Track :: "string \<Rightarrow> int \<Rightarrow> int \<Rightarrow> ('z, unit) local_op" where
  "Track slabID records nbytes = (if slabID = '''' then ret_io () else TrackSlab slabID records nbytes)"

fun recordSlabs_loop :: "string list \<Rightarrow> int \<Rightarrow> int \<Rightarrow> ('z, unit) local_op" where
  "recordSlabs_loop [] records nbytes = ret_io ()"
| "recordSlabs_loop (i # slabs) records nbytes =
     bind_io (Track i records nbytes) (\<lambda>_. recordSlabs_loop slabs records nbytes)"

definition recordSlabs :: "'n SlabLedger" where
  "recordSlabs w = recordSlabs_loop (sw_Slabs w) (sw_Records w) (sw_Bytes w)"

section \<open>Nothing is billed that the ledger does not hold\<close>

text \<open>
  What the code relies on of the indexer: a slab is billed from the moment it is pinned, so
  uploading and pinning objects bill nothing new and pinning a batch's slabs bills no other, and
  what is billed has an id.
\<close>

definition bills_pinned :: "('n \<Rightarrow> string set) \<Rightarrow> 'n boundary \<Rightarrow> bool" where
  "bills_pinned billed bd \<longleftrightarrow>
     (\<forall>n. '''' \<notin> billed n) \<and>
     (\<forall>ps n. billed (snd (bd_Upload bd ps n)) \<subseteq> billed n) \<and>
     (\<forall>ps n b n1 n2. bd_Upload bd ps n = (Inr b, n1) \<longrightarrow>
        billed (snd (bd_PinSlabs bd b n2)) \<subseteq> billed n2 \<union> set (up_slabs b) \<and>
        billed (snd (bd_PinObjects bd b n2)) \<subseteq> billed n2)"

text \<open>Every billed slab is either none of this device's business or in its ledger as its own.\<close>

definition ledgered :: "('n \<Rightarrow> string set) \<Rightarrow> string set \<Rightarrow> 'n world \<Rightarrow> bool" where
  "ledgered billed elsewhere s \<longleftrightarrow>
     slabs_ok (dv_slabs s) \<and> billed (wl_net s) \<subseteq> elsewhere \<union> own_slabs (dv_slabs s)"

lemma triple_wrap: "triple P m Q E \<Longrightarrow> triple P (wrap_io g m) Q E"
  by (auto simp: triple_def wrap_io_def split: prod.splits sum.splits)

lemma triple_net:
  "(\<And>s r n. P s \<Longrightarrow> f (wl_net s) = (r, n) \<Longrightarrow>
     (case r of Inl e \<Rightarrow> E (s\<lparr>wl_net := n\<rparr>) | Inr x \<Rightarrow> Q x (s\<lparr>wl_net := n\<rparr>))) \<Longrightarrow>
   triple P (net_io f) Q E"
  by (fastforce simp: triple_def net_io_def split: prod.splits)

lemma triple_Track:
  fixes billed :: "'n \<Rightarrow> string set"
  shows "triple (\<lambda>s. ledgered billed el s \<and> A - {''''} \<subseteq> own_slabs (dv_slabs s)) (Track i k b)
     (\<lambda>_ s. ledgered billed el s \<and> insert i A - {''''} \<subseteq> own_slabs (dv_slabs s)) (ledgered billed el)"
  by (rule tripleI)
    (auto simp: Track_def TrackSlab_def trackSlab_def local_defs ledgered_def own_slabs_pin slabs_ok_track split: if_splits)

lemma triple_recordSlabs:
  fixes billed :: "'n \<Rightarrow> string set"
  shows "triple (\<lambda>s. ledgered billed el s \<and> A - {''''} \<subseteq> own_slabs (dv_slabs s)) (recordSlabs_loop slabs k b)
     (\<lambda>_ s. ledgered billed el s \<and> A \<union> set slabs - {''''} \<subseteq> own_slabs (dv_slabs s)) (ledgered billed el)"
proof (induction slabs arbitrary: A)
  case Nil
  show ?case by (simp add: triple_ret)
next
  case (Cons i slabs)
  show ?case unfolding recordSlabs_loop.simps
    by (rule triple_bind [OF triple_Track]) (use Cons.IH [of "insert i A"] in simp)
qed

lemma triple_boundary:
  assumes f: "\<And>n. billed (snd (f n)) \<subseteq> billed n \<union> A" and empty: "\<And>n. '''' \<notin> billed n"
  shows "triple (\<lambda>s. ledgered billed el s \<and> A - {''''} \<subseteq> own_slabs (dv_slabs s))
    (wrap_io g (net_io f)) (\<lambda>_. ledgered billed el) (ledgered billed el)"
proof (rule triple_wrap, rule triple_net)
  fix s r n
  assume s: "ledgered billed el s \<and> A - {''''} \<subseteq> own_slabs (dv_slabs s)" and r: "f (wl_net s) = (r, n)"
  have "billed n \<subseteq> billed (wl_net s) \<union> (A - {''''})" using f [of "wl_net s"] empty [of n] r by auto
  then have "ledgered billed el (s\<lparr>wl_net := n\<rparr>)" using s by (auto simp: ledgered_def)
  then show "case r of Inl e \<Rightarrow> ledgered billed el (s\<lparr>wl_net := n\<rparr>) | Inr x \<Rightarrow> ledgered billed el (s\<lparr>wl_net := n\<rparr>)"
    by (simp split: sum.split)
qed

lemma PutBatch_ledgered_across:
  assumes bills: "bills_pinned billed (st_across st)" and led: "st_ledger st = Some recordSlabs"
  shows "triple (ledgered billed el) (PutBatch st blobs) (\<lambda>_. ledgered billed el) (ledgered billed el)"
proof -
  let ?L = "ledgered billed el" and ?bd = "st_across st"
  have empty: "'''' \<notin> billed n" for n using bills by (simp add: bills_pinned_def)
  have up: "triple ?L (wrap_io UploadFailed (net_io (bd_Upload ?bd ps)))
      (\<lambda>b s. ?L s \<and> (\<exists>n n1. bd_Upload ?bd ps n = (Inr b, n1))) ?L" for ps
  proof (rule triple_wrap, rule triple_net)
    fix s r n1
    assume s: "?L s" and r: "bd_Upload ?bd ps (wl_net s) = (r, n1)"
    have "billed (snd (bd_Upload ?bd ps (wl_net s))) \<subseteq> billed (wl_net s)" using bills unfolding bills_pinned_def by blast
    then have "?L (s\<lparr>wl_net := n1\<rparr>)" using s r by (auto simp: ledgered_def)
    then show "case r of Inl e \<Rightarrow> ?L (s\<lparr>wl_net := n1\<rparr>)
        | Inr b \<Rightarrow> ?L (s\<lparr>wl_net := n1\<rparr>) \<and> (\<exists>n n1. bd_Upload ?bd ps n = (Inr b, n1))"
      using r by (auto split: sum.split)
  qed
  have rest: "triple (\<lambda>s. ?L s \<and> (\<exists>n n1. bd_Upload ?bd ps n = (Inr b, n1)))
      (bind_io (wrap_io LedgerFailed (recordSlabs \<lparr>sw_Slabs = up_slabs b, sw_Records = k, sw_Bytes = m\<rparr>)) (\<lambda>_.
       bind_io (wrap_io PinFailed (net_io (bd_PinSlabs ?bd b))) (\<lambda>_.
       bind_io (wrap_io PinFailed (net_io (bd_PinObjects ?bd b))) (\<lambda>_. f)))) (\<lambda>_. ?L) ?L"
    if f: "triple ?L f (\<lambda>_. ?L) ?L" for ps b k m f
  proof (rule triple_assume, elim exE)
    fix n n1 assume b: "bd_Upload ?bd ps n = (Inr b, n1)"
    have pins: "billed (snd (bd_PinSlabs ?bd b n2)) \<subseteq> billed n2 \<union> set (up_slabs b)"
      "billed (snd (bd_PinObjects ?bd b n2)) \<subseteq> billed n2 \<union> {}" for n2
      using bills b unfolding bills_pinned_def by blast+
    have 1: "triple ?L (wrap_io LedgerFailed (recordSlabs \<lparr>sw_Slabs = up_slabs b, sw_Records = k, sw_Bytes = m\<rparr>))
        (\<lambda>_ s. ?L s \<and> set (up_slabs b) - {''''} \<subseteq> own_slabs (dv_slabs s)) ?L"
      using triple_wrap [OF triple_recordSlabs [of billed el "{}" "up_slabs b" k m], of LedgerFailed]
      by (simp add: recordSlabs_def)
    have 2: "triple (\<lambda>s. ?L s \<and> set (up_slabs b) - {''''} \<subseteq> own_slabs (dv_slabs s))
        (wrap_io PinFailed (net_io (bd_PinSlabs ?bd b))) (\<lambda>_. ?L) ?L"
      by (rule triple_boundary [of billed "bd_PinSlabs ?bd b" "set (up_slabs b)", OF pins(1) empty])
    have 3: "triple ?L (wrap_io PinFailed (net_io (bd_PinObjects ?bd b))) (\<lambda>_. ?L) ?L"
      using triple_boundary [of billed "bd_PinObjects ?bd b" "{}", OF pins(2) empty] by simp
    show "triple ?L (bind_io (wrap_io LedgerFailed (recordSlabs \<lparr>sw_Slabs = up_slabs b, sw_Records = k, sw_Bytes = m\<rparr>)) (\<lambda>_.
       bind_io (wrap_io PinFailed (net_io (bd_PinSlabs ?bd b))) (\<lambda>_.
       bind_io (wrap_io PinFailed (net_io (bd_PinObjects ?bd b))) (\<lambda>_. f)))) (\<lambda>_. ?L) ?L"
      by (intro triple_bind [OF 1] triple_bind [OF 2] triple_bind [OF 3] f)
  qed
  show ?thesis
  proof (cases "blobs = []")
    case True
    then show ?thesis by (simp add: PutBatch_def triple_ret)
  next
    case False
    then show ?thesis
      unfolding PutBatch_def led by (simp add: Let_def)
        (rule triple_bind [OF up], rule rest, simp add: triple_ret triple_fail)
  qed
qed

section \<open>The boundary of production\<close>

text \<open>
  The indexer's side: uploading and pinning an object bill nothing, pinning slabs bills at most
  those slabs, which have ids.
\<close>

definition sdk_bills :: "('n \<Rightarrow> string set) \<Rightarrow> ('n, 'o) sdk \<Rightarrow> bool" where
  "sdk_bills billed c \<longleftrightarrow>
     (\<forall>n. '''' \<notin> billed n) \<and>
     (\<forall>ps n. billed (snd (sk_Upload c ps n)) \<subseteq> billed n) \<and>
     (\<forall>ds n. billed (snd (sk_PinSlabs c ds n)) \<subseteq> billed n \<union> set ds) \<and>
     (\<forall>ob n. billed (snd (sk_PinObject c ob n)) \<subseteq> billed n)"

text \<open>
  The slabs an upload's objects cross into on which no object of the batch begins. \<open>slabOf\<close> names an
  object by the first of its slabs, so nothing the client returns names these.
\<close>

definition crossed_into :: "SdkObject list \<Rightarrow> string set" where
  "crossed_into objects = (\<Union>ob \<in> set objects. set (so_Slabs ob)) - slabOf ` set objects"

definition crossing_slabs :: "('n, 'o) sdk \<Rightarrow> Blob list \<Rightarrow> 'n \<Rightarrow> string set" where
  "crossing_slabs c blobs n =
     (case fst (sk_Upload c (map bl_Payload blobs) n) of Inl e \<Rightarrow> {} | Inr objects \<Rightarrow> crossed_into objects)"

lemma Batch_Slabs_set: "set (Batch_Slabs b) = pl_Slab ` set (ba_placements b) - {''''}"
proof -
  have "set (slabs_loop ps out) = set out \<union> (pl_Slab ` set ps - {''''})" for ps out
    by (induction ps out rule: slabs_loop.induct) auto
  then show ?thesis by (simp add: Batch_Slabs_def)
qed

lemma pin_params_set: "set (pin_params ds params) = set ds \<union> set params"
  by (induction ds params rule: pin_params.induct) auto

lemma run_calls_keeps:
  assumes "\<And>i n. I n \<Longrightarrow> I (snd (f i n))" "I n"
  shows "I (snd (run_calls f ks n))"
  using assms(2)
proof (induction ks arbitrary: n)
  case (Cons i ks)
  then show ?case using assms(1) [of n i] by (simp split: prod.splits) (metis snd_conv)
qed simp

lemma inFlight_keeps:
  assumes "\<And>i n. I n \<Longrightarrow> I (snd (f i n))" "I n"
  shows "I (snd (inFlight order k f n))"
proof -
  have "I (snd (run_calls f (filter (\<lambda>i. i < k) (remdups order)) n))" by (rule run_calls_keeps [OF assms])
  then show ?thesis using assms(2) by (auto simp: inFlight_def Let_def split: prod.splits)
qed

lemma siaBoundary_bills_pinned:
  assumes c: "sdk_bills billed c" and apart: "\<And>n. billed n \<inter> X = {}"
    and cover: "\<And>ps n objects n'. sk_Upload c ps n = (Inr objects, n') \<Longrightarrow> crossed_into objects \<subseteq> X"
  shows "bills_pinned billed (siaBoundary c)"
  unfolding bills_pinned_def
proof (intro conjI allI impI)
  show "'''' \<notin> billed n" for n using c by (simp add: sdk_bills_def)
  show "billed (snd (bd_Upload (siaBoundary c) ps n)) \<subseteq> billed n" for ps n
  proof -
    have "billed (snd (sk_Upload c ps n)) \<subseteq> billed n" using c by (simp add: sdk_bills_def)
    then show ?thesis by (auto simp: siaBoundary_def boundary_Upload_def UploadPacked_def split: prod.splits sum.splits if_splits)
  qed
next
  fix ps n b n1 n2 assume up: "bd_Upload (siaBoundary c) ps n = (Inr b, n1)"
  have slabs: "set (concat (map so_Slabs (ba_objects (up_batch b)))) \<subseteq> insert '''' (set (up_slabs b) \<union> X)"
  proof (cases "ps = []")
    case True
    then show ?thesis using up by (auto simp: siaBoundary_def boundary_Upload_def UploadPacked_def)
  next
    case False
    then obtain objects n' where o': "sk_Upload c ps n = (Inr objects, n')" "length objects = length ps"
      and b: "up_batch b = \<lparr>ba_objects = objects, ba_placements = map2 place objects ps\<rparr>" "up_slabs b = Batch_Slabs (up_batch b)"
      using up by (auto simp: siaBoundary_def boundary_Upload_def UploadPacked_def split: prod.splits sum.splits if_splits)
    have "pl_Slab ` set (map2 place objects ps) = slabOf ` set objects"
      using o'(2) by (induction objects ps rule: list_induct2) (auto simp: place_def)
    moreover have "\<forall>ob \<in> set objects. set (so_Slabs ob) \<subseteq> slabOf ` set objects \<union> X"
      using cover [OF o'(1)] unfolding crossed_into_def by blast
    ultimately show ?thesis using b by (auto simp: Batch_Slabs_set)
  qed
  let ?ds = "pin_params (concat (map so_Slabs (ba_objects (up_batch b)))) []"
  have "billed (snd (sk_PinSlabs c ?ds n2)) \<subseteq> billed n2 \<union> (set ?ds - {''''})"
    using c unfolding sdk_bills_def by blast
  moreover have "set ?ds - {''''} \<subseteq> set (up_slabs b) \<union> X" unfolding pin_params_set using slabs by (simp del: set_concat) blast
  ultimately have "billed (snd (sk_PinSlabs c ?ds n2)) \<subseteq> billed n2 \<union> set (up_slabs b)"
    using apart [of "snd (sk_PinSlabs c ?ds n2)"] by blast
  moreover have "bd_PinSlabs (siaBoundary c) b n2 = (if ?ds = [] then (Inr (), n2) else sk_PinSlabs c ?ds n2)"
    by (simp add: siaBoundary_def Client_PinSlabs_def Let_def)
  ultimately show "billed (snd (bd_PinSlabs (siaBoundary c) b n2)) \<subseteq> billed n2 \<union> set (up_slabs b)"
    by (cases "?ds = []") simp_all
  have "billed m \<subseteq> billed n2 \<Longrightarrow> billed (snd (sk_PinObject c ob m)) \<subseteq> billed n2" for ob m
    using c unfolding sdk_bills_def by blast
  then show "billed (snd (bd_PinObjects (siaBoundary c) b n2)) \<subseteq> billed n2"
    using inFlight_keeps [of "\<lambda>m. billed m \<subseteq> billed n2" "\<lambda>i. sk_PinObject c (ba_objects (up_batch b) ! i)" n2]
    by (simp add: siaBoundary_def Client_PinObjects_def)
qed

text \<open>The write of a batch depends on the client's upload of that batch from that network only.\<close>

definition only_upload :: "('n, 'o) sdk \<Rightarrow> bytes list \<Rightarrow> 'n \<Rightarrow> ('n, 'o) sdk" where
  "only_upload c ps n = c\<lparr>sk_Upload := (\<lambda>ps' n'. if ps' = ps \<and> n' = n then sk_Upload c ps n else (Inl '''', n'))\<rparr>"

lemma PutBatch_only_upload:
  "PutBatch (Store_New (only_upload c (map bl_Payload blobs) (wl_net s)) ledger) blobs s = PutBatch (Store_New c ledger) blobs s"
proof -
  let ?c = "only_upload c (map bl_Payload blobs) (wl_net s)"
  have pins: "Client_PinSlabs ?c b = Client_PinSlabs c b" "Client_PinObjects ?c b = Client_PinObjects c b" for b
    by (simp_all add: fun_eq_iff Client_PinSlabs_def Client_PinObjects_def only_upload_def Let_def)
  have up: "boundary_Upload ?c (map bl_Payload blobs) (wl_net s) = boundary_Upload c (map bl_Payload blobs) (wl_net s)"
    by (simp add: boundary_Upload_def UploadPacked_def only_upload_def)
  show ?thesis
    by (simp add: PutBatch_def Store_New_def siaBoundary_def pins bind_io_def wrap_io_def net_io_def up Let_def)
qed

text \<open>
  C22. However a write ends, and whatever call fails, every slab billed to the account is in the
  ledger as this device's own, or was billed from elsewhere before, or is one the batch crosses into
  without any of its objects beginning there: the ledger is written before anything is pinned, and
  nothing is pinned when it cannot be written. The last case is the bug below.
\<close>

theorem PutBatch_ledgered:
  assumes "sdk_bills billed c"
    and "ledgered billed elsewhere s" "PutBatch (Store_New c recordSlabs) blobs s = (r, s')"
  shows "ledgered billed (elsewhere \<union> crossing_slabs c blobs (wl_net s)) s'"
proof -
  let ?X = "crossing_slabs c blobs (wl_net s)" and ?c = "only_upload c (map bl_Payload blobs) (wl_net s)"
  let ?billed = "\<lambda>n. billed n - ?X"
  have bills: "sdk_bills ?billed ?c"
  proof -
    have "'''' \<notin> billed n" "billed (snd (sk_Upload c ps n)) \<subseteq> billed n" "billed (snd (sk_PinSlabs c ds n)) \<subseteq> billed n \<union> set ds"
      "billed (snd (sk_PinObject c ob n)) \<subseteq> billed n" for ps ds ob n
      using assms(1) unfolding sdk_bills_def by blast+
    then show ?thesis
      unfolding sdk_bills_def only_upload_def by (simp, blast)
  qed
  have "crossed_into objects \<subseteq> ?X" if "sk_Upload ?c ps n = (Inr objects, n')" for ps n objects n'
    using that by (auto simp: only_upload_def crossing_slabs_def split: if_splits)
  then have "bills_pinned ?billed (siaBoundary ?c)"
    by (intro siaBoundary_bills_pinned [OF bills, where X = "?X"]) auto
  then have "bills_pinned ?billed (st_across (Store_New ?c recordSlabs))" by (simp add: Store_New_def)
  from PutBatch_ledgered_across [OF this, of elsewhere blobs]
  have "triple (ledgered ?billed elsewhere) (PutBatch (Store_New ?c recordSlabs) blobs)
      (\<lambda>_. ledgered ?billed elsewhere) (ledgered ?billed elsewhere)" by (simp add: Store_New_def)
  moreover have "ledgered ?billed elsewhere s" using assms(2) by (auto simp: ledgered_def)
  moreover have "PutBatch (Store_New ?c recordSlabs) blobs s = (r, s')" using assms(3) by (simp add: PutBatch_only_upload)
  ultimately have "ledgered ?billed elsewhere s'" by (cases r) (auto dest: tripleD)
  then show ?thesis by (auto simp: ledgered_def)
qed

text \<open>
  A network that is the set of the slabs it bills, with one packed upload onto given slabs.
\<close>

definition sample_sdk :: "SdkObject list \<Rightarrow> (string, unit) result \<Rightarrow> (string set, unit) sdk" where
  "sample_sdk objects pinned =
     \<lparr>sk_Upload = (\<lambda>ps n. (Inr objects, n)), sk_PinSlabs = (\<lambda>ds n. (Inr (), n \<union> set ds)),
      sk_PinObject = (\<lambda>ob n. (pinned, n)), sk_DeleteObject = (\<lambda>r n. (Inr (), n)), sk_ObjectNotFound = ''object not found'',
      sk_parseSlabID = (\<lambda>d. True), sk_SlabNotFound = ''slab not found'', sk_UnpinSlab = (\<lambda>d n. (Inr (), n - {d})),
      sk_ListObjects = (\<lambda>cur k n. (Inr [], n)), sk_SlabIDs = (\<lambda>a k n. (Inr [], n)), sk_Open = (\<lambda>x. None),
      sk_Account = (\<lambda>n. (Inl ''down'', n)), sk_Download = (\<lambda>r n. (Inr [], n)), sk_OptimalDataSize = (\<lambda>n. (Inr 40, n)),
      sk_order = (\<lambda>n k. upt 0 k)\<rparr>"

definition sample_world :: "string set world" where
  "sample_world =
     \<lparr>mc_plan = (\<lambda>_. NoFault), mc_rand = (\<lambda>_. []), mc_step = 0, dv_clock = (\<lambda>n. int n * 1000000),
      dv_queue = [], dv_slabs = [], dv_bodies = [], dv_record_meta = [], dv_record_tags = [], dv_record_lexical = [],
      dv_session_heads = [], dv_object_cache = [], dv_slab_cache = [], dv_read_stats = [], dv_meta = [], wl_net = {},
      wl_state = \<lparr>qs_Records = 0, qs_Bytes = 0, qs_Oldest = 0, qs_Newest = 0\<rparr>\<rparr>"

lemma sample_sdk_bills: "sdk_bills (\<lambda>n. n - {''''}) (sample_sdk objects pinned)"
  by (auto simp: sdk_bills_def sample_sdk_def)

lemma sample_world_ledgered: "ledgered (\<lambda>n. n - {''''}) {} sample_world"
  by (simp add: ledgered_def slabs_ok_def sample_world_def)

lemmas put_defs = PutBatch_def Store_New_def siaBoundary_def boundary_Upload_def UploadPacked_def place_def slabOf_def
  Batch_Slabs_def Client_PinSlabs_def Client_PinObjects_def inFlight_def net_io_def wrap_io_def recordSlabs_def
  Track_def TrackSlab_def trackSlab_def local_defs sample_sdk_def sample_world_def

definition one_object :: SdkObject where "one_object = \<lparr>so_ID = ''r'', so_Slabs = [''x''], so_Size = 1\<rparr>"

definition one_blob :: Blob where "one_blob = \<lparr>bl_CID = ''c'', bl_Payload = [1]\<rparr>"

theorem PutBatch_ledgered_witness:
  "\<exists>e s'. PutBatch (Store_New (sample_sdk [one_object] (Inl ''down'')) recordSlabs) [one_blob] sample_world = (Inl e, s') \<and>
     wl_net s' = {''x''} \<and> ledgered (\<lambda>n. n - {''''}) {} s'"
proof -
  let ?c = "sample_sdk [one_object] (Inl ''down'')"
  obtain r s' where run: "PutBatch (Store_New ?c recordSlabs) [one_blob] sample_world = (r, s')"
    by (cases "PutBatch (Store_New ?c recordSlabs) [one_blob] sample_world")
  have "crossing_slabs ?c [one_blob] (wl_net sample_world) = {}"
    by (simp add: crossing_slabs_def crossed_into_def sample_sdk_def one_object_def slabOf_def)
  then have "ledgered (\<lambda>n. n - {''''}) {} s'"
    using PutBatch_ledgered [OF sample_sdk_bills sample_world_ledgered run] by simp
  moreover have "r = Inl (PinFailed ''down'') \<and> wl_net s' = {''x''}"
    using run by (auto simp: put_defs one_object_def one_blob_def)
  ultimately show ?thesis using run by blast
qed

text \<open>
  A batch whose last object crosses from one slab into the next succeeds, is billed for both
  slabs, and leaves the second out of the ledger: a placement names only an object's first slab,
  while pinning pins every slab the object lies on.
\<close>

theorem crossing_object_unledgered:
  "\<exists>f s'. PutBatch (Store_New (sample_sdk [one_object\<lparr>so_Slabs := [''x'', ''y'']\<rparr>] (Inr ())) recordSlabs) [one_blob] sample_world
      = (Inr f, s') \<and> wl_net s' = {''x'', ''y''} \<and> known_slabs (dv_slabs s') = {''x''}"
proof -
  let ?c = "sample_sdk [one_object\<lparr>so_Slabs := [''x'', ''y'']\<rparr>] (Inr ())"
  obtain r s' where run: "PutBatch (Store_New ?c recordSlabs) [one_blob] sample_world = (r, s')"
    by (cases "PutBatch (Store_New ?c recordSlabs) [one_blob] sample_world")
  have "is_ok r \<and> wl_net s' = {''x'', ''y''} \<and> dv_slabs s' = track_rows ''x'' 1 1 SlabPinned (stamp 0) []"
    using run by (auto simp: put_defs one_object_def one_blob_def)
  moreover have "known_slabs (track_rows ''x'' 1 1 SlabPinned (stamp 0) []) = {''x''}"
    by (simp add: known_slabs_track) (simp add: known_slabs_def sql_row_def)
  ultimately show ?thesis using run by (auto simp: is_ok_iff)
qed

end
