(* ===== verification/Packer.thy ===== *)
theory Packer
  imports Store_Put
begin

text \<open>
  Package \<open>packer\<close>: the flush policy (\<open>store/packer/policy.go\<close>), the packer that queues sealed
  records and writes them as one batch (\<open>store/packer/packer.go\<close>) and its background timer
  (\<open>store/packer/timer.go\<close>). The mutex around the packer's view of the queue is the atomicity of
  the model's steps.
\<close>

section \<open>The policy\<close>

record Policy =
  po_IdleAfter :: int
  po_MaxAge :: int
  po_MaxBytes :: int
  po_MaxRecords :: int
  po_ClaimTimeout :: int

definition Second :: int where "Second = 1000000000"
definition Minute :: int where "Minute = 60 * Second"

definition DefaultIdleAfter :: int where "DefaultIdleAfter = 5 * Minute"
definition DefaultMaxAge :: int where "DefaultMaxAge = 60 * Minute"
definition DefaultClaimTimeout :: int where "DefaultClaimTimeout = 10 * Minute"

definition DefaultPolicy :: "int \<Rightarrow> Policy" where
  "DefaultPolicy slabBytes = \<lparr>po_IdleAfter = DefaultIdleAfter, po_MaxAge = DefaultMaxAge, po_MaxBytes = slabBytes,
     po_MaxRecords = 100000, po_ClaimTimeout = DefaultClaimTimeout\<rparr>"

definition Immediate :: "int \<Rightarrow> Policy" where
  "Immediate slabBytes = \<lparr>po_IdleAfter = 0, po_MaxAge = 0, po_MaxBytes = slabBytes, po_MaxRecords = 1,
     po_ClaimTimeout = DefaultClaimTimeout\<rparr>"

datatype Reason = ReasonIdle | ReasonAge | ReasonBytes | ReasonRecords | ReasonManual

definition due :: "Policy \<Rightarrow> QueueState \<Rightarrow> int \<Rightarrow> Reason option" where
  "due p state now =
     (if qs_Records state = 0 then None
      else if 0 < po_MaxRecords p \<and> po_MaxRecords p \<le> qs_Records state then Some ReasonRecords
      else if 0 < po_MaxBytes p \<and> po_MaxBytes p \<le> qs_Bytes state then Some ReasonBytes
      else if 0 < po_MaxAge p \<and> \<not> time_IsZero (qs_Oldest state) \<and> po_MaxAge p \<le> time_Sub now (qs_Oldest state)
        then Some ReasonAge
      else if 0 < po_IdleAfter p \<and> \<not> time_IsZero (qs_Newest state) \<and> po_IdleAfter p \<le> time_Sub now (qs_Newest state)
        then Some ReasonIdle
      else None)"

definition claimTimeout :: "Policy \<Rightarrow> int" where
  "claimTimeout p = (if 0 < po_ClaimTimeout p then po_ClaimTimeout p else DefaultClaimTimeout)"

definition tick :: "Policy \<Rightarrow> int" where
  "tick p =
     (let shortest = (if po_IdleAfter p \<le> 0 \<or> (0 < po_MaxAge p \<and> po_MaxAge p < po_IdleAfter p)
                      then po_MaxAge p else po_IdleAfter p)
      in if shortest \<le> 0 then Minute else min (max (shortest div 10) Second) Minute)"

section \<open>The packer\<close>

record Queued =
  qd_ID :: ID
  qd_Kind :: Kind
  qd_Blob :: Blob
  qd_Since :: int

record PkResult =
  ps_Reason :: "Reason option"
  ps_Records :: "Queued list"
  ps_Flush :: Flush

definition no_result :: PkResult where
  "no_result = \<lparr>ps_Reason = None, ps_Records = [], ps_Flush = \<lparr>fu_Written = [], fu_Slabs = []\<rparr>\<rparr>"

definition Result_Empty :: "PkResult \<Rightarrow> bool" where
  "Result_Empty r \<longleftrightarrow> ps_Records r = []"

text \<open>Where a flush can stop; the last three have written the batch.\<close>

datatype pk_error =
    ErrOffline
  | IdentityFailed
  | QueueFailed local_error
  | PutFailed store_error
  | PutAndReleaseFailed store_error local_error
  | CatalogFailed PkResult string
  | DropFailed PkResult local_error
  | RefreshFailed PkResult local_error

record 'n Packer =
  pk_store :: "'n Store option"
  pk_policy :: Policy
  pk_owner :: string
  pk_onFlush :: "(PkResult \<Rightarrow> ('n world, string, unit) io) option"

definition Packer_refresh :: "('n world, local_error, unit) io" where
  "Packer_refresh = bind_io Store_QueueState (\<lambda>state. put_io (\<lambda>s. s\<lparr>wl_state := state\<rparr>))"

text \<open>\<open>newOwner\<close> reads 8 random bytes. The model has a device store, so the check for one is left out.\<close>

definition Packer_New ::
  "'n Store option \<Rightarrow> Policy \<Rightarrow> ('n world, pk_error, 'n Packer) io" where
  "Packer_New st policy =
     bind_io read_rand (\<lambda>token.
     case token of
       None \<Rightarrow> fail_io IdentityFailed
     | Some t \<Rightarrow>
         bind_io (wrap_io QueueFailed Packer_refresh) (\<lambda>_.
         ret_io \<lparr>pk_store = st, pk_policy = policy, pk_owner = hex_encode (take 8 t), pk_onFlush = None\<rparr>))"

definition Packer_OnFlush ::
  "(PkResult \<Rightarrow> ('n world, string, unit) io) \<Rightarrow> 'n Packer \<Rightarrow> 'n Packer" where
  "Packer_OnFlush fn p = p\<lparr>pk_onFlush := Some fn\<rparr>"

definition queued_of :: "QueuedBlob \<Rightarrow> Queued" where
  "queued_of b = \<lparr>qd_ID = qb_ID b, qd_Kind = qb_Kind b,
     qd_Blob = \<lparr>bl_CID = qb_CID b, bl_Payload = qb_Payload b\<rparr>, qd_Since = qb_QueuedAt b\<rparr>"

definition Packer_settle :: "'n Packer \<Rightarrow> PkResult \<Rightarrow> ID list \<Rightarrow> ('n world, pk_error, PkResult) io" where
  "Packer_settle p result ids =
     bind_io (case pk_onFlush p of
         None \<Rightarrow> ret_io ()
       | Some onFlush \<Rightarrow> wrap_io (CatalogFailed result) (onFlush result)) (\<lambda>_.
     bind_io (wrap_io (DropFailed result) (DropQueued ids)) (\<lambda>_.
     bind_io (wrap_io (RefreshFailed result) Packer_refresh) (\<lambda>_.
     ret_io result)))"

text \<open>The write, and the release of the claims when it fails.\<close>

definition put_or_release :: "'n Store \<Rightarrow> Blob list \<Rightarrow> ID list \<Rightarrow> ('n world, pk_error, Flush) io" where
  "put_or_release st blobs ids s =
     (case PutBatch st blobs s of
        (Inr flushed, s1) \<Rightarrow> (Inr flushed, s1)
      | (Inl e, s1) \<Rightarrow>
          (case ReleaseQueued ids s1 of
             (Inl e', s2) \<Rightarrow> (Inl (PutAndReleaseFailed e e'), s2)
           | (Inr _, s2) \<Rightarrow> (Inl (PutFailed e), s2)))"

definition Packer_flush :: "'n Packer \<Rightarrow> Reason \<Rightarrow> ('n world, pk_error, PkResult) io" where
  "Packer_flush p reason =
     (case pk_store p of
        None \<Rightarrow> fail_io ErrOffline
      | Some st \<Rightarrow>
          bind_io (wrap_io QueueFailed (ClaimQueued (pk_owner p) (claimTimeout (pk_policy p)) 0)) (\<lambda>claimed.
          if claimed = [] then ret_io no_result
          else
            let batch = map queued_of claimed; ids = map qb_ID claimed in
            bind_io (put_or_release st (map qd_Blob batch) ids) (\<lambda>flushed.
            Packer_settle p \<lparr>ps_Reason = Some reason, ps_Records = batch, ps_Flush = flushed\<rparr> ids)))"

definition Packer_Flush :: "'n Packer \<Rightarrow> ('n world, pk_error, PkResult) io" where
  "Packer_Flush p = Packer_flush p ReasonManual"

definition note_added :: "Queued \<Rightarrow> QueueState \<Rightarrow> QueueState" where
  "note_added item st =
     st\<lparr>qs_Records := qs_Records st + 1, qs_Bytes := qs_Bytes st + int (length (bl_Payload (qd_Blob item))),
        qs_Oldest := (if time_IsZero (qs_Oldest st) then qd_Since item else qs_Oldest st), qs_Newest := qd_Since item\<rparr>"

definition Packer_Add :: "'n Packer \<Rightarrow> Queued \<Rightarrow> ('n world, pk_error, PkResult) io" where
  "Packer_Add p item0 =
     bind_io (if time_IsZero (qd_Since item0) then wrap_io QueueFailed (bind_io time_Now (\<lambda>t. ret_io (item0\<lparr>qd_Since := t\<rparr>)))
              else ret_io item0) (\<lambda>item.
     bind_io (wrap_io QueueFailed (Enqueue
       \<lparr>qb_ID = qd_ID item, qb_Kind = qd_Kind item, qb_CID = bl_CID (qd_Blob item), qb_Payload = bl_Payload (qd_Blob item),
        qb_QueuedAt = qd_Since item, qb_Seq = 0\<rparr>)) (\<lambda>_.
     bind_io (put_io (\<lambda>s. s\<lparr>wl_state := note_added item (wl_state s)\<rparr>)) (\<lambda>_.
     bind_io (wrap_io QueueFailed time_Now) (\<lambda>now.
     bind_io (get_io (\<lambda>s. due (pk_policy p) (wl_state s) now)) (\<lambda>d.
     case d of
       None \<Rightarrow> ret_io no_result
     | Some reason \<Rightarrow> if pk_store p = None then ret_io no_result else Packer_flush p reason)))))"

definition Packer_Withdraw :: "'n Packer \<Rightarrow> ID \<Rightarrow> ('n world, local_error, bool) io" where
  "Packer_Withdraw p i =
     bind_io (WithdrawQueued i (claimTimeout (pk_policy p))) (\<lambda>withdrawn.
     if \<not> withdrawn then ret_io False else bind_io Packer_refresh (\<lambda>_. ret_io True))"

definition Packer_WithdrawAll :: "'n Packer \<Rightarrow> ID list \<Rightarrow> ('n world, local_error, ID list) io" where
  "Packer_WithdrawAll p ids =
     bind_io (WithdrawQueuedAll ids (claimTimeout (pk_policy p))) (\<lambda>withdrawn.
     if withdrawn = [] then ret_io [] else bind_io Packer_refresh (\<lambda>_. ret_io withdrawn))"

definition Packer_Due :: "'n Packer \<Rightarrow> int \<Rightarrow> 'n world \<Rightarrow> Reason option" where
  "Packer_Due p now s = due (pk_policy p) (wl_state s) now"

definition Pending :: "'n world \<Rightarrow> int" where "Pending s = qs_Records (wl_state s)"
definition PendingBytes :: "'n world \<Rightarrow> int" where "PendingBytes s = qs_Bytes (wl_state s)"
definition Packer_Oldest :: "'n world \<Rightarrow> int" where "Packer_Oldest s = qs_Oldest (wl_state s)"

section \<open>The timer\<close>

text \<open>
  What the background loop does with the ticks it receives before it is stopped: the errors
  are those it hands to \<open>onError\<close>.
\<close>

fun Packer_run :: "'n Packer \<Rightarrow> int list \<Rightarrow> 'n world \<Rightarrow> pk_error list \<times> 'n world" where
  "Packer_run p [] s = ([], s)"
| "Packer_run p (now # ticks) s =
     (case Packer_Due p now s of
        None \<Rightarrow> Packer_run p ticks s
      | Some reason \<Rightarrow>
          (case Packer_flush p reason s of
             (Inl e, s1) \<Rightarrow> (case Packer_run p ticks s1 of (es, s2) \<Rightarrow> (e # es, s2))
           | (Inr _, s1) \<Rightarrow> Packer_run p ticks s1))"

end
