(* ===== verification/Packer_Spec.thy ===== *)
theory Packer_Spec
  imports Packer
begin

text \<open>
  What the packer promises. The policy: how late a deadline can fire. One flush: a record leaves
  the queue only once the batch it was claimed in was written and the callback it was handed to has
  accepted it; the contract of that callback is a locale, which the vault's catalogue meets.
\<close>

section \<open>Deadlines\<close>

lemma tick_range: "Second \<le> tick p" "tick p \<le> Minute"
  by (auto simp: tick_def Let_def Second_def Minute_def)

lemma tick_tenth: "0 < d \<Longrightarrow> d \<in> {po_IdleAfter p, po_MaxAge p} \<Longrightarrow> tick p \<le> max (d div 10) Second"
proof -
  assume d: "0 < d" "d \<in> {po_IdleAfter p, po_MaxAge p}"
  define s where "s = (if po_IdleAfter p \<le> 0 \<or> (0 < po_MaxAge p \<and> po_MaxAge p < po_IdleAfter p)
    then po_MaxAge p else po_IdleAfter p)"
  have "0 < s" "s \<le> d" using d by (auto simp: s_def)
  then have "tick p = min (max (s div 10) Second) Minute" "s div 10 \<le> d div 10"
    by (simp_all add: tick_def s_def [symmetric] Let_def zdiv_mono1)
  then show ?thesis by linarith
qed

text \<open>The first multiple of \<open>step\<close> after \<open>t0\<close> that is not before \<open>d\<close>.\<close>

lemma tick_reaches:
  assumes "0 < step" "t0 \<le> d"
  shows "\<exists>k. d \<le> t0 + int k * step \<and> t0 + int k * step < d + step"
proof -
  let ?k = "nat ((d - t0 + step - 1) div step)"
  have q: "0 \<le> (d - t0 + step - 1) div step" using assms by (simp add: pos_imp_zdiv_nonneg_iff)
  have m: "(d - t0 + step - 1) = (d - t0 + step - 1) div step * step + (d - t0 + step - 1) mod step"
    by simp
  have r: "0 \<le> (d - t0 + step - 1) mod step" "(d - t0 + step - 1) mod step < step"
    using assms by simp_all
  have "int ?k * step = (d - t0 + step - 1) div step * step" using q by simp
  then have "d \<le> t0 + int ?k * step" "t0 + int ?k * step < d + step" using m r by linarith+
  then show ?thesis by blast
qed

text \<open>
  C36. A record never waits more than a tenth past the age or the idle deadline of the policy, or
  a second where a tenth is less: the deadlines are looked at between every second and every
  minute, and one of these looks falls in that span and finds the queue due.
\<close>

theorem deadline_fires:
  assumes "qs_Records state \<noteq> 0"
    and "(0 < po_MaxAge p \<and> since = qs_Oldest state \<and> d = po_MaxAge p) \<or>
         (0 < po_IdleAfter p \<and> since = qs_Newest state \<and> d = po_IdleAfter p)"
    and "since \<noteq> 0" "started \<le> since" "d < 2 ^ 63"
  shows "\<exists>k. since + d \<le> started + int k * tick p \<and>
    started + int k * tick p < since + d + max (d div 10) Second \<and>
    due p state (started + int k * tick p) \<noteq> None"
proof -
  have t: "0 < tick p" using tick_range(1) [of p] by (simp add: Second_def)
  have d: "0 < d" "d \<in> {po_IdleAfter p, po_MaxAge p}" using assms(2) by auto
  obtain k where k: "since + d \<le> started + int k * tick p" "started + int k * tick p < since + d + tick p"
    using tick_reaches [OF t, of started "since + d"] assms(4) d(1) by auto
  have "d \<le> time_Sub (started + int k * tick p) since"
    using k(1) assms(5) d(1) by (simp add: time_Sub_def)
  then have "due p state (started + int k * tick p) \<noteq> None"
    using assms(1,2,3) by (auto simp: due_def time_IsZero_def)
  then show ?thesis using k tick_tenth [OF d] by (intro exI [of _ k]) simp
qed

theorem deadline_fires_witness:
  "\<exists>k. 3601 * Second \<le> 0 + int k * tick (DefaultPolicy 40) \<and>
     0 + int k * tick (DefaultPolicy 40) < 3601 * Second + 360 * Second \<and>
     due (DefaultPolicy 40) \<lparr>qs_Records = 1, qs_Bytes = 1, qs_Oldest = Second, qs_Newest = Second\<rparr>
       (0 + int k * tick (DefaultPolicy 40)) \<noteq> None"
proof -
  have "\<exists>k. Second + 3600 * Second \<le> 0 + int k * tick (DefaultPolicy 40) \<and>
     0 + int k * tick (DefaultPolicy 40) < Second + 3600 * Second + max (3600 * Second div 10) Second \<and>
     due (DefaultPolicy 40) \<lparr>qs_Records = 1, qs_Bytes = 1, qs_Oldest = Second, qs_Newest = Second\<rparr>
       (0 + int k * tick (DefaultPolicy 40)) \<noteq> None"
    by (rule deadline_fires) (simp_all add: DefaultPolicy_def DefaultMaxAge_def Minute_def Second_def)
  then show ?thesis by (simp add: Second_def)
qed

section \<open>One flush\<close>

text \<open>What the ledger and the catalog are: they leave the queue alone.\<close>

definition keeps_queue :: "('n world, 'e, 'a) io \<Rightarrow> bool" where
  "keeps_queue m \<longleftrightarrow> (\<forall>s. dv_queue (snd (m s)) = dv_queue s)"

lemma keeps_queue_bind: "keeps_queue m \<Longrightarrow> (\<And>x. keeps_queue (f x)) \<Longrightarrow> keeps_queue (bind_io m f)"
proof -
  assume m: "keeps_queue m" and f: "\<And>x. keeps_queue (f x)"
  have "dv_queue (snd (bind_io m f s)) = dv_queue s" for s
    using m f unfolding keeps_queue_def
    by (cases "m s"; cases "fst (m s)") (auto simp: bind_io_def split: sum.split, (metis snd_conv)+)
  then show ?thesis by (simp add: keeps_queue_def)
qed

lemma keeps_queue_wrap: "keeps_queue m \<Longrightarrow> keeps_queue (wrap_io g m)"
  by (auto simp: keeps_queue_def wrap_io_def split: prod.splits sum.splits) (metis snd_conv)+

lemma keeps_queue_net: "keeps_queue (net_io f)"
  by (simp add: keeps_queue_def net_io_def split: prod.splits)

lemma keeps_queue_ret: "keeps_queue (ret_io x)" "keeps_queue (fail_io e)"
  by (simp_all add: keeps_queue_def ret_io_def fail_io_def)

definition ledger_keeps :: "'n Store \<Rightarrow> bool" where
  "ledger_keeps st \<longleftrightarrow> (\<forall>ledger w. st_ledger st = Some ledger \<longrightarrow> keeps_queue (ledger w))"

lemma keeps_PutBatch: "ledger_keeps st \<Longrightarrow> keeps_queue (PutBatch st blobs)"
  unfolding PutBatch_def ledger_keeps_def
  by (auto simp: Let_def keeps_queue_ret split: option.split
      intro!: keeps_queue_bind keeps_queue_wrap keeps_queue_net keeps_queue_ret)

lemma keeps_recordSlabs: "keeps_queue (recordSlabs w :: ('n world, local_error, unit) io)"
proof -
  have "keeps_queue (Track i n b :: ('n world, local_error, unit) io)" for i n b
    by (auto simp: keeps_queue_def Track_def TrackSlab_def trackSlab_def local_defs)
  then have "keeps_queue (recordSlabs_loop slabs n b :: ('n world, local_error, unit) io)" for slabs n b
    by (induction slabs) (simp_all add: keeps_queue_ret keeps_queue_bind)
  then show ?thesis by (simp add: recordSlabs_def)
qed

lemma row_blob_claim [simp]:
  "row_blob (r\<lparr>qr_ClaimedAt := a, qr_ClaimedBy := b\<rparr>) = row_blob r"
  by (simp add: row_blob_def)

lemma row_blob_update:
  "(\<And>r. row_blob (f r) = row_blob r) \<Longrightarrow> map row_blob (sql_update p f rows) = map row_blob rows"
  by (simp add: sql_update_def)

lemma row_blob_claims:
  "map row_blob (claim_rows owner st lim now rows) = map row_blob rows"
  "map row_blob (fold release_row ids rows) = map row_blob rows"
  by (simp_all add: claim_rows_def fold_release row_blob_update)

lemma claimed_blob_set:
  "set (claimed_blobs st lim now rows) = row_blob ` {r \<in> set rows. qr_ID r \<in> set (claim_ids st lim now rows)}"
  by (simp add: claimed_blobs_def)

abbreviation queue_is :: "QueueRow list \<Rightarrow> 'n world \<Rightarrow> bool" where
  "queue_is q s \<equiv> dv_queue s = q"

lemma keeps_queueD: "keeps_queue m \<Longrightarrow> m s = (r, s') \<Longrightarrow> dv_queue s' = dv_queue s"
  by (metis keeps_queue_def snd_conv)

text \<open>The ids of a claim with no limit are those of every row that can be claimed.\<close>

lemma every_claim_id: "set (claim_ids st 0 now rows) = qr_ID ` {r \<in> set rows. claimable st now r}"
  by (auto simp: claim_ids_def)

lemma claim_run:
  "ClaimQueued owner st lim s = (r, s') \<Longrightarrow>
     wl_net s' = wl_net s \<and>
     (let now = dv_clock s (mc_step s) in
      (\<forall>out. r = Inr out \<longrightarrow> out = claimed_blobs st lim now (dv_queue s) \<and> queue_is (claim_rows owner st lim now (dv_queue s)) s') \<and>
      (queue_is (dv_queue s) s' \<or> queue_is (claim_rows owner st lim now (dv_queue s)) s'))"
  by (auto simp: ClaimQueued_def local_defs time_Now_def Let_def split: if_splits)

lemma each_run:
  "eachQueued stmt ids s = (r, s') \<Longrightarrow>
     wl_net s' = wl_net s \<and> (queue_is (dv_queue s) s' \<and> r \<noteq> Inr () \<or> queue_is (fold stmt ids (dv_queue s)) s')"
  by (auto simp: eachQueued_def local_defs split: if_splits)

lemma refresh_run: "Packer_refresh s = (r, s') \<Longrightarrow> wl_net s' = wl_net s \<and> dv_queue s' = dv_queue s"
  by (auto simp: Packer_refresh_def Store_QueueState_def local_defs split: if_splits)

text \<open>A batch that was written is settled: catalogued, then dropped.\<close>

lemma settle_run:
  assumes p: "pk_onFlush p = Some onFlush" "\<And>res. keeps_queue (onFlush res)"
    and run: "Packer_settle p res ids s = (r, s')"
  shows "queue_is (dv_queue s) s' \<and> (\<forall>x. r \<noteq> Inr x) \<or>
    (\<exists>s1. onFlush res s = (Inr (), s1) \<and> wl_net s' = wl_net s1 \<and> queue_is (fold drop_row ids (dv_queue s)) s')"
proof -
  obtain r1 s1 where r1: "onFlush res s = (r1, s1)" by (cases "onFlush res s")
  have q1: "dv_queue s1 = dv_queue s" by (rule keeps_queueD [OF p(2) r1])
  obtain r2 s2 where r2: "DropQueued ids s1 = (r2, s2)" by (cases "DropQueued ids s1")
  obtain r3 s3 where r3: "Packer_refresh s2 = (r3, s3)" by (cases "Packer_refresh s2")
  show ?thesis
    using run r1 r2 r3 q1 each_run [OF r2 [unfolded DropQueued_def]] refresh_run [OF r3]
    by (auto simp: Packer_settle_def p(1) bind_io_def wrap_io_def ret_io_def split: sum.splits)
qed

lemma put_or_release_run:
  assumes "ledger_keeps st" and run: "put_or_release st blobs ids s = (r, s')"
  shows "(\<exists>flushed. r = Inr flushed \<and> PutBatch st blobs s = (Inr flushed, s') \<and> dv_queue s' = dv_queue s) \<or>
    (\<forall>x. r \<noteq> Inr x) \<and> map row_blob (dv_queue s') = map row_blob (dv_queue s)"
proof -
  obtain r1 s1 where r1: "PutBatch st blobs s = (r1, s1)" by (cases "PutBatch st blobs s")
  have q1: "dv_queue s1 = dv_queue s" by (rule keeps_queueD [OF keeps_PutBatch [OF assms(1)] r1])
  obtain r2 s2 where r2: "ReleaseQueued ids s1 = (r2, s2)" by (cases "ReleaseQueued ids s1")
  show ?thesis
    using run r1 r2 q1 each_run [OF r2 [unfolded ReleaseQueued_def]]
    by (auto simp: put_or_release_def row_blob_claims split: sum.splits)
qed

text \<open>
  However a flush ends: the queue still holds what it held, or the claimed batch was written, the
  callback accepted it, and nothing but the batch was dropped.
\<close>

lemma flush_outcome:
  assumes st: "pred_option ledger_keeps (pk_store p)"
    and p: "pk_onFlush p = Some onFlush" "\<And>res. keeps_queue (onFlush res)"
    and run: "Packer_flush p reason s = (r, s')"
  defines "limit \<equiv> claimTimeout (pk_policy p)" and "now \<equiv> dv_clock s (mc_step s)"
  shows "map row_blob (dv_queue s') = map row_blob (dv_queue s) \<and> (\<forall>x. r = Inr x \<longrightarrow> claimed_blobs limit 0 now (dv_queue s) = []) \<or>
    (\<exists>st claimed s1 flushed s2 s3. pk_store p = Some st \<and>
       ClaimQueued (pk_owner p) limit 0 s = (Inr claimed, s1) \<and> claimed = claimed_blobs limit 0 now (dv_queue s) \<and>
       PutBatch st (map (qd_Blob \<circ> queued_of) claimed) s1 = (Inr flushed, s2) \<and>
       onFlush \<lparr>ps_Reason = Some reason, ps_Records = map queued_of claimed, ps_Flush = flushed\<rparr> s2 = (Inr (), s3) \<and>
       wl_net s' = wl_net s3 \<and>
       queue_is (fold drop_row (map qb_ID claimed) (claim_rows (pk_owner p) limit 0 now (dv_queue s))) s')"
proof (cases "pk_store p")
  case None
  then show ?thesis using run by (auto simp: Packer_flush_def fail_io_def)
next
  case (Some st)
  obtain r1 s1 where r1: "ClaimQueued (pk_owner p) limit 0 s = (r1, s1)" by (cases "ClaimQueued (pk_owner p) limit 0 s")
  note claim = claim_run [OF r1, unfolded Let_def, folded now_def]
  have same1: "map row_blob (dv_queue s1) = map row_blob (dv_queue s)" using claim by (auto simp: row_blob_claims)
  consider (unclaimed) e where "r1 = Inl e" | (none) "r1 = Inr []" | (some) claimed where "r1 = Inr claimed" "claimed \<noteq> []"
    by (cases r1) auto
  then show ?thesis
  proof cases
    case unclaimed
    then show ?thesis using run r1 same1 by (auto simp: Packer_flush_def Some bind_io_def wrap_io_def limit_def)
  next
    case none
    then show ?thesis using run r1 same1 claim
      by (auto simp: Packer_flush_def Some bind_io_def wrap_io_def limit_def ret_io_def)
  next
    case (some claimed)
    let ?ids = "map qb_ID claimed" and ?blobs = "map (qd_Blob \<circ> queued_of) claimed"
    have c: "claimed = claimed_blobs limit 0 now (dv_queue s)"
      and q1: "dv_queue s1 = claim_rows (pk_owner p) limit 0 now (dv_queue s)" using claim some(1) by auto
    obtain r2 s2 where r2: "put_or_release st ?blobs ?ids s1 = (r2, s2)" by (cases "put_or_release st ?blobs ?ids s1")
    have rest: "(case r2 of Inl e \<Rightarrow> (Inl e, s2) | Inr flushed \<Rightarrow>
        Packer_settle p \<lparr>ps_Reason = Some reason, ps_Records = map queued_of claimed, ps_Flush = flushed\<rparr> ?ids s2) = (r, s')"
      using run r1 r2 some by (simp add: Packer_flush_def Some bind_io_def wrap_io_def limit_def [symmetric] Let_def)
    have led: "ledger_keeps st" using st Some by simp
    from put_or_release_run [OF led r2] show ?thesis
    proof (elim disjE exE conjE)
      assume "\<forall>x. r2 \<noteq> Inr x" "map row_blob (dv_queue s2) = map row_blob (dv_queue s1)"
      then show ?thesis using rest same1 by (cases r2) auto
    next
      fix flushed assume put: "r2 = Inr flushed" "PutBatch st ?blobs s1 = (Inr flushed, s2)" "dv_queue s2 = dv_queue s1"
      let ?res = "\<lparr>ps_Reason = Some reason, ps_Records = map queued_of claimed, ps_Flush = flushed\<rparr>"
      have "Packer_settle p ?res ?ids s2 = (r, s')" using rest put(1) by simp
      from settle_run [OF p this] show ?thesis
      proof (elim disjE exE conjE)
        assume "queue_is (dv_queue s2) s'" "\<forall>x. r \<noteq> Inr x"
        then show ?thesis using put(3) same1 by simp
      next
        fix s3 assume "onFlush ?res s2 = (Inr (), s3)" "wl_net s' = wl_net s3" "queue_is (fold drop_row ?ids (dv_queue s2)) s'"
        then show ?thesis using Some r1 some(1) c q1 put
          by (intro disjI2 exI [of _ st] exI [of _ claimed] exI [of _ s1] exI [of _ flushed] exI [of _ s2] exI [of _ s3]) simp
      qed
    qed
  qed
qed

lemma dropped_rows:
  assumes "r \<in> set rows" "out = claimed_blobs limit 0 now rows"
  shows "row_blob r \<in> row_blob ` set (fold drop_row (map qb_ID out) (claim_rows owner limit 0 now rows)) \<or> row_blob r \<in> set out"
proof (cases "qr_ID r \<in> set (claim_ids limit 0 now rows)")
  case True
  then show ?thesis using assms by (auto simp: claimed_blob_set)
next
  case False
  have "row_blob r \<in> row_blob ` set (claim_rows owner limit 0 now rows)"
    using assms(1) arg_cong [OF row_blob_claims(1), of set owner limit 0 now rows] by simp
  then obtain r1 where r1: "r1 \<in> set (claim_rows owner limit 0 now rows)" "row_blob r1 = row_blob r" by auto
  then have "qr_ID r1 = qr_ID r" by (metis QueuedBlob.select_convs(1) row_blob_def)
  with False r1(1) have "r1 \<in> set (fold drop_row (map qb_ID out) (claim_rows owner limit 0 now rows))"
    by (auto simp: fold_drop assms(2) claimed_blob_set row_blob_def)
  with r1(2) show ?thesis by (metis image_eqI)
qed

lemma claimed_once:
  assumes "distinct (map qr_ID rows)" shows "distinct (map qb_ID (claimed_blobs limit 0 now rows))"
proof -
  have id: "qb_ID (row_blob r) = qr_ID r" for r by (simp add: row_blob_def)
  have "distinct (map qb_ID (map row_blob (filter (\<lambda>r. qr_ID r \<in> set (claim_ids limit 0 now rows)) rows)))"
    using assms by (simp add: id comp_def distinct_map_filter)
  moreover have "mset (map qb_ID (SliceStable before xs)) = mset (map qb_ID xs)" for before xs by simp
  ultimately show ?thesis unfolding claimed_blobs_def by (metis mset_eq_imp_distinct_iff)
qed

text \<open>
  What a flush asks of the callback it was given: it and the store's ledger leave the queue alone, and
  once it returned without an error, every record of the batch is catalogued, whatever that is taken to
  mean, for the objects the batch was written to.
\<close>

locale flush_callback =
  fixes p :: "'n Packer" and onFlush :: "PkResult \<Rightarrow> ('n world, string, unit) io"
    and catalogued :: "Queued \<Rightarrow> Flush \<Rightarrow> 'n \<Rightarrow> bool"
  assumes given: "pk_onFlush p = Some onFlush"
    and ledger: "pred_option ledger_keeps (pk_store p)"
    and quiet: "keeps_queue (onFlush res)"
    and accepts: "onFlush res s = (Inr (), s') \<Longrightarrow> distinct (map qd_ID (ps_Records res)) \<Longrightarrow> q \<in> set (ps_Records res) \<Longrightarrow>
      catalogued q (ps_Flush res) (wl_net s')"
begin

lemma flush_keeps:
  assumes run: "Packer_flush p reason s = (r, s')" and once: "distinct (map qr_ID (dv_queue s))" and here: "w \<in> set (dv_queue s)"
  shows "row_blob w \<in> row_blob ` set (dv_queue s') \<or>
    (\<exists>st claimed s1 flushed s2. pk_store p = Some st \<and>
       ClaimQueued (pk_owner p) (claimTimeout (pk_policy p)) 0 s = (Inr claimed, s1) \<and> row_blob w \<in> set claimed \<and>
       PutBatch st (map (qd_Blob \<circ> queued_of) claimed) s1 = (Inr flushed, s2) \<and>
       catalogued (queued_of (row_blob w)) flushed (wl_net s'))"
  using flush_outcome [OF ledger given quiet run]
proof (elim disjE exE conjE)
  assume "map row_blob (dv_queue s') = map row_blob (dv_queue s)"
  then show ?thesis using here by (metis image_eqI list.set_map)
next
  fix st claimed s1 flushed s2 s3
  let ?limit = "claimTimeout (pk_policy p)" and ?now = "dv_clock s (mc_step s)"
  let ?res = "\<lparr>ps_Reason = Some reason, ps_Records = map queued_of claimed, ps_Flush = flushed\<rparr>"
  assume st: "pk_store p = Some st" and claim: "ClaimQueued (pk_owner p) ?limit 0 s = (Inr claimed, s1)"
    and c: "claimed = claimed_blobs ?limit 0 ?now (dv_queue s)"
    and put: "PutBatch st (map (qd_Blob \<circ> queued_of) claimed) s1 = (Inr flushed, s2)"
    and flush: "onFlush ?res s2 = (Inr (), s3)" "wl_net s' = wl_net s3"
    and q: "dv_queue s' = fold drop_row (map qb_ID claimed) (claim_rows (pk_owner p) ?limit 0 ?now (dv_queue s))"
  have "qd_ID \<circ> queued_of = qb_ID" by (rule ext) (simp add: queued_of_def)
  then have "distinct (map qd_ID (ps_Records ?res))" using claimed_once [OF once, of ?limit ?now] c by simp
  from accepts [OF flush(1) this]
  have "catalogued (queued_of (row_blob w)) flushed (wl_net s')" if "row_blob w \<in> set claimed" using that flush(2) by simp
  then show ?thesis using dropped_rows [OF here c, of "pk_owner p"] st claim put unfolding q by blast
qed

text \<open>A flush that returns leaves no row in the queue that could have been claimed as it began.\<close>

lemma flush_empties:
  assumes run: "Packer_flush p reason s = (Inr result, s')" and here: "w \<in> set (dv_queue s')"
  shows "\<forall>v \<in> set (dv_queue s). qr_ID v = qr_ID w \<longrightarrow> \<not> claimable (claimTimeout (pk_policy p)) (dv_clock s (mc_step s)) v"
  using flush_outcome [OF ledger given quiet run]
proof (elim disjE exE conjE)
  let ?limit = "claimTimeout (pk_policy p)" and ?now = "dv_clock s (mc_step s)"
  assume "\<forall>x. Inr result = (Inr x :: (pk_error, PkResult) result) \<longrightarrow> claimed_blobs ?limit 0 ?now (dv_queue s) = []"
  then have "set (claimed_blobs ?limit 0 ?now (dv_queue s)) = {}" by simp
  then show ?thesis by (auto simp: claimed_blob_set every_claim_id)
next
  let ?limit = "claimTimeout (pk_policy p)" and ?now = "dv_clock s (mc_step s)"
  fix claimed assume c: "claimed = claimed_blobs ?limit 0 ?now (dv_queue s)"
    and q: "dv_queue s' = fold drop_row (map qb_ID claimed) (claim_rows (pk_owner p) ?limit 0 ?now (dv_queue s))"
  have "qr_ID w \<notin> qb_ID ` set claimed" using here by (simp add: q fold_drop)
  moreover have "qr_ID v \<in> qb_ID ` set claimed" if "v \<in> set (dv_queue s)" "claimable ?limit ?now v" for v
    using that by (force simp: c claimed_blob_set every_claim_id row_blob_def)
  ultimately show ?thesis by metis
qed

end

text \<open>A queue of one record.\<close>

definition sample_row :: QueueRow where
  "sample_row = \<lparr>qr_ID = [7], qr_Kind = KindMemory, qr_CID = ''c'', qr_Payload = [1, 2], qr_QueuedAt = 5, qr_Seq = 1,
     qr_ClaimedAt = None, qr_ClaimedBy = ''''\<rparr>"

end
