(* ===== verification/Packer_System.thy ===== *)
theory Packer_System
  imports Packer_Spec
begin

text \<open>
  Several processes over one queue. A flush is four calls on the queue with the network in
  between: it claims, it writes, the catalog takes its records one by one, and it drops them;
  or its write fails and it releases them; or it stops at any point, a crash included, and its
  claims stay. Other processes enqueue, claim and withdraw between any two of these.

  The rows change only by the functions the code's statements apply. A record's id is fresh when
  it is enqueued, as every caller draws it at random. Times are nanoseconds, stamps
  milliseconds.
\<close>

record flight =
  ft_blobs :: "QueuedBlob list"
  ft_at :: int
  ft_done :: "ID set"

record sys =
  sy_rows :: "QueueRow list"
  sy_now :: int
  sy_flights :: "flight list"
  sy_sent :: "ID \<rightharpoonup> bytes"
  sy_catalog :: "(ID \<times> bytes) list"
  sy_withdrawn :: "ID set"
  sy_late :: "ID set"

text \<open>
  The last three are bookkeeping: what was given to the queue, what the catalog took, what was
  withdrawn, and what the catalog took after it was withdrawn.
\<close>

definition ft_ids :: "flight \<Rightarrow> ID list" where
  "ft_ids f = map qb_ID (ft_blobs f)"

definition fresh :: "int \<Rightarrow> sys \<Rightarrow> flight \<Rightarrow> bool" where
  "fresh timeout s f \<longleftrightarrow> stamp (sy_now s - timeout) \<le> ft_at f"

definition remove_nth :: "nat \<Rightarrow> 'a list \<Rightarrow> 'a list" where
  "remove_nth n xs = take n xs @ drop (Suc n) xs"

definition sys_start :: "int \<Rightarrow> sys" where
  "sys_start t = \<lparr>sy_rows = [], sy_now = t, sy_flights = [], sy_sent = Map.empty, sy_catalog = [],
     sy_withdrawn = {}, sy_late = {}\<rparr>"

text \<open>With \<open>timely\<close>, a flush acts on its records only while its claim is respected.\<close>

inductive sys_step :: "bool \<Rightarrow> int \<Rightarrow> sys \<Rightarrow> sys \<Rightarrow> bool" for timely timeout where
  clock: "sy_now s \<le> t \<Longrightarrow> sys_step timely timeout s (s\<lparr>sy_now := t\<rparr>)"
| enqueue: "sy_sent s (qb_ID b) = None \<Longrightarrow>
    sys_step timely timeout s (s\<lparr>sy_rows := enqueue_rows b (sy_rows s), sy_sent := (sy_sent s)(qb_ID b \<mapsto> qb_Payload b)\<rparr>)"
| claim: "sys_step timely timeout s (s\<lparr>sy_rows := claim_rows owner timeout 0 (sy_now s) (sy_rows s),
    sy_flights := sy_flights s @ [\<lparr>ft_blobs = claimed_blobs timeout 0 (sy_now s) (sy_rows s),
      ft_at = stamp (sy_now s), ft_done = {}\<rparr>]\<rparr>)"
| release: "n < length (sy_flights s) \<Longrightarrow> f = sy_flights s ! n \<Longrightarrow> ft_done f = {} \<Longrightarrow> (timely \<Longrightarrow> fresh timeout s f) \<Longrightarrow>
    sys_step timely timeout s (s\<lparr>sy_rows := fold release_row (ft_ids f) (sy_rows s),
      sy_flights := remove_nth n (sy_flights s)\<rparr>)"
| catalog: "n < length (sy_flights s) \<Longrightarrow> f = sy_flights s ! n \<Longrightarrow> b \<in> set (ft_blobs f) \<Longrightarrow> (timely \<Longrightarrow> fresh timeout s f) \<Longrightarrow>
    sys_step timely timeout s (s\<lparr>sy_catalog := (qb_ID b, qb_Payload b) # sy_catalog s,
      sy_late := sy_late s \<union> (sy_withdrawn s \<inter> {qb_ID b}),
      sy_flights := (sy_flights s)[n := f\<lparr>ft_done := insert (qb_ID b) (ft_done f)\<rparr>]\<rparr>)"
| drop: "n < length (sy_flights s) \<Longrightarrow> f = sy_flights s ! n \<Longrightarrow> set (ft_ids f) \<subseteq> ft_done f \<Longrightarrow> (timely \<Longrightarrow> fresh timeout s f) \<Longrightarrow>
    sys_step timely timeout s (s\<lparr>sy_rows := fold drop_row (ft_ids f) (sy_rows s),
      sy_flights := remove_nth n (sy_flights s)\<rparr>)"
| abandon: "n < length (sy_flights s) \<Longrightarrow> sys_step timely timeout s (s\<lparr>sy_flights := remove_nth n (sy_flights s)\<rparr>)"
| withdraw: "withdraw_all ids timeout (sy_now s) (sy_rows s) = (Inr out, rest) \<Longrightarrow>
    sys_step timely timeout s (s\<lparr>sy_rows := rest, sy_withdrawn := sy_withdrawn s \<union> set out\<rparr>)"

inductive_cases sys_stepE: "sys_step timely timeout s s'"

inductive reachable :: "bool \<Rightarrow> int \<Rightarrow> sys \<Rightarrow> bool" for timely timeout where
  start: "reachable timely timeout (sys_start t)"
| step: "reachable timely timeout s \<Longrightarrow> sys_step timely timeout s s' \<Longrightarrow> reachable timely timeout s'"

lemma set_remove_nth: "set (remove_nth n xs) \<subseteq> set xs"
  by (auto simp: remove_nth_def dest: in_set_takeD in_set_dropD)

section \<open>Nothing is lost\<close>

definition row_sent :: "sys \<Rightarrow> QueueRow \<Rightarrow> bool" where
  "row_sent s r \<longleftrightarrow> sy_sent s (qr_ID r) = Some (qr_Payload r)"

definition flight_sent :: "sys \<Rightarrow> flight \<Rightarrow> bool" where
  "flight_sent s f \<longleftrightarrow> (\<forall>b \<in> set (ft_blobs f). sy_sent s (qb_ID b) = Some (qb_Payload b)) \<and>
     ft_done f \<subseteq> fst ` set (sy_catalog s)"

definition sys_safe :: "sys \<Rightarrow> bool" where
  "sys_safe s \<longleftrightarrow>
     (\<forall>r \<in> set (sy_rows s). row_sent s r) \<and> (\<forall>f \<in> set (sy_flights s). flight_sent s f) \<and>
     (\<forall>(i, p) \<in> set (sy_catalog s). sy_sent s i = Some p) \<and>
     dom (sy_sent s) \<subseteq> qr_ID ` set (sy_rows s) \<union> fst ` set (sy_catalog s) \<union> sy_withdrawn s"

lemma row_sent_cong: "sy_sent s' = sy_sent s \<Longrightarrow> row_sent s' = row_sent s"
  by (simp add: row_sent_def fun_eq_iff)

lemma claimed_sent:
  "\<forall>r \<in> set (sy_rows s). row_sent s r \<Longrightarrow>
   flight_sent s \<lparr>ft_blobs = claimed_blobs st lim now (sy_rows s), ft_at = a, ft_done = {}\<rparr>"
  by (auto simp: flight_sent_def claimed_blob_set row_sent_def row_blob_def)

lemma rows_of_update:
  "r \<in> set (sql_update p f rows) \<Longrightarrow> \<exists>r0 \<in> set rows. r = (if p r0 then f r0 else r0)"
  by (auto simp: sql_update_def)

lemma claim_row_of:
  assumes "r \<in> set (claim_rows owner st lim now rows) \<or> r \<in> set (fold release_row ids rows)"
  shows "\<exists>r0 \<in> set rows. qr_ID r = qr_ID r0 \<and> qr_Payload r = qr_Payload r0"
  using assms unfolding claim_rows_def fold_release by (fastforce dest: rows_of_update split: if_splits)

lemma ids_of_claims [simp]:
  "qr_ID ` set (claim_rows owner st lim now rows) = qr_ID ` set rows"
  "qr_ID ` set (fold release_row ids rows) = qr_ID ` set rows"
proof -
  have "map qr_ID (claim_rows owner st lim now rows) = map qr_ID rows" "map qr_ID (fold release_row ids rows) = map qr_ID rows"
    by (simp_all add: claim_rows_def fold_release sql_update_keys)
  from arg_cong [OF this(1), of set] arg_cong [OF this(2), of set]
  show "qr_ID ` set (claim_rows owner st lim now rows) = qr_ID ` set rows"
    "qr_ID ` set (fold release_row ids rows) = qr_ID ` set rows" by simp_all
qed

lemma enqueue_new:
  assumes "qb_ID b \<notin> qr_ID ` set rows"
  shows "\<exists>r. enqueue_rows b rows = rows @ [r] \<and> qr_ID r = qb_ID b \<and> qr_Payload r = qb_Payload b \<and> qr_ClaimedAt r = None"
  using assms by (simp add: enqueue_rows_def sql_upsert_def)

lemma sys_safe_keep:
  assumes "sys_safe s" "sy_sent s' = sy_sent s" "sy_catalog s' = sy_catalog s"
    and "\<And>r. r \<in> set (sy_rows s') \<Longrightarrow> \<exists>r0 \<in> set (sy_rows s). qr_ID r = qr_ID r0 \<and> qr_Payload r = qr_Payload r0"
    and "set (sy_flights s') \<subseteq> set (sy_flights s)" "sy_withdrawn s \<subseteq> sy_withdrawn s'"
    and "qr_ID ` set (sy_rows s) \<subseteq> qr_ID ` set (sy_rows s') \<union> fst ` set (sy_catalog s) \<union> sy_withdrawn s'"
  shows "sys_safe s'"
proof -
  have "row_sent s' r" if "r \<in> set (sy_rows s')" for r
    using assms(4) [OF that] assms(1,2) by (auto simp: sys_safe_def row_sent_def)
  moreover have "flight_sent s' f" if "f \<in> set (sy_flights s')" for f
    using that assms(1,2,3,5) by (auto simp: sys_safe_def flight_sent_def)
  moreover have "dom (sy_sent s') \<subseteq> qr_ID ` set (sy_rows s') \<union> fst ` set (sy_catalog s') \<union> sy_withdrawn s'"
    using assms(6,7) conjunct2 [OF conjunct2 [OF conjunct2 [OF assms(1) [unfolded sys_safe_def]]]]
    unfolding assms(2,3) by blast
  ultimately show ?thesis using assms(1,2,3) by (simp add: sys_safe_def)
qed

lemma done_catalogued:
  "sys_safe s \<Longrightarrow> n < length (sy_flights s) \<Longrightarrow> set (ft_ids (sy_flights s ! n)) \<subseteq> ft_done (sy_flights s ! n) \<Longrightarrow>
   set (ft_ids (sy_flights s ! n)) \<subseteq> fst ` set (sy_catalog s)"
  by (meson flight_sent_def nth_mem order_trans sys_safe_def)

lemma withdraw_all_Inr:
  "withdraw_all ids timeout now rows = (Inr out, rest) \<Longrightarrow>
   set out = set ids \<inter> qr_ID ` set rows \<and> rest = filter (\<lambda>r. qr_ID r \<notin> set ids) rows"
  by (auto simp: withdraw_all_def split: if_splits prod.splits dest: withdraw_each_spec)

lemma step_safe: "sys_step timely timeout s s' \<Longrightarrow> sys_safe s \<Longrightarrow> sys_safe s'"
proof (induction rule: sys_step.induct)
  case (clock s t)
  then show ?case by (intro sys_safe_keep [OF clock.prems]) auto
next
  case (enqueue s b)
  have "qb_ID b \<notin> qr_ID ` set (sy_rows s)" using enqueue by (auto simp: sys_safe_def row_sent_def)
  then obtain r where r: "enqueue_rows b (sy_rows s) = sy_rows s @ [r]" "qr_ID r = qb_ID b" "qr_Payload r = qb_Payload b"
    using enqueue_new by blast
  show ?case using enqueue unfolding sys_safe_def
    by (auto simp: r row_sent_def flight_sent_def split: if_splits) force+
next
  case (claim s owner)
  then show ?case
    using claimed_sent [of s timeout 0 "sy_now s" "stamp (sy_now s)"]
    by (auto simp: sys_safe_def row_sent_def flight_sent_def dest!: claim_row_of [OF disjI1])
next
  case (release n s f)
  then show ?case
    using set_remove_nth [of n "sy_flights s"] claim_row_of [OF disjI2] by (intro sys_safe_keep [OF release.prems]) auto
next
  case (catalog n s f b)
  then have f: "flight_sent s f" by (simp add: sys_safe_def)
  have "flight_sent (s\<lparr>sy_catalog := (qb_ID b, qb_Payload b) # sy_catalog s, sy_late := l, sy_flights := fs\<rparr>) g"
    if "g \<in> set ((sy_flights s)[n := f\<lparr>ft_done := insert (qb_ID b) (ft_done f)\<rparr>])" for g l fs
  proof -
    have "g = f\<lparr>ft_done := insert (qb_ID b) (ft_done f)\<rparr> \<or> g \<in> set (sy_flights s)"
      using subsetD [OF set_update_subset_insert that] by simp
    then obtain h where h: "flight_sent s h" "ft_blobs g = ft_blobs h" "ft_done g \<subseteq> insert (qb_ID b) (ft_done h)"
    proof
      assume "g = f\<lparr>ft_done := insert (qb_ID b) (ft_done f)\<rparr>"
      then show ?thesis using that [OF f] by simp
    next
      assume "g \<in> set (sy_flights s)"
      then have "flight_sent s g" using catalog.prems by (simp add: sys_safe_def)
      from that [OF this] show ?thesis by blast
    qed
    have "ft_done h \<subseteq> fst ` set (sy_catalog s)" using h(1) by (simp add: flight_sent_def)
    with h(3) have "ft_done g \<subseteq> insert (qb_ID b) (fst ` set (sy_catalog s))" by blast
    then show ?thesis using h(1,2) by (simp add: flight_sent_def)
  qed
  moreover have "sy_sent s (qb_ID b) = Some (qb_Payload b)" using f catalog(3) by (simp add: flight_sent_def)
  ultimately show ?case using catalog.prems by (auto simp: sys_safe_def row_sent_def)
next
  case (drop n s f)
  then have "set (ft_ids f) \<subseteq> fst ` set (sy_catalog s)" using done_catalogued [of s n] by simp
  then show ?case
    using drop.prems set_remove_nth [of n "sy_flights s"] by (intro sys_safe_keep [OF drop.prems]) (auto simp: fold_drop)
next
  case (abandon n s)
  then show ?case using set_remove_nth [of n "sy_flights s"] by (intro sys_safe_keep [OF abandon.prems]) auto
next
  case (withdraw ids s out rest)
  then show ?case using withdraw_all_Inr [OF withdraw(1)] by (intro sys_safe_keep [OF withdraw.prems]) auto
qed

text \<open>
  C10. Whatever the schedule of the processes sharing a queue, whichever of them crashes, stalls
  or is overtaken, every record given to the queue is still in it, in the catalog or withdrawn,
  and what is queued and what is catalogued is the payload that was given.
\<close>

theorem queue_never_loses:
  assumes "reachable timely timeout s"
  shows "\<forall>i p. sy_sent s i = Some p \<longrightarrow>
    (\<exists>r \<in> set (sy_rows s). qr_ID r = i \<and> qr_Payload r = p) \<or> (i, p) \<in> set (sy_catalog s) \<or> i \<in> sy_withdrawn s"
proof -
  have safe: "sys_safe s" using assms
  proof induction
    case (start t)
    then show ?case by (simp add: sys_safe_def sys_start_def)
  qed (rule step_safe)
  show ?thesis
  proof (intro allI impI)
    fix i p assume i: "sy_sent s i = Some p"
    then consider r where "r \<in> set (sy_rows s)" "qr_ID r = i" | p' where "(i, p') \<in> set (sy_catalog s)" | "i \<in> sy_withdrawn s"
      using safe by (auto simp: sys_safe_def)
    then show "(\<exists>r \<in> set (sy_rows s). qr_ID r = i \<and> qr_Payload r = p) \<or> (i, p) \<in> set (sy_catalog s) \<or> i \<in> sy_withdrawn s"
    proof cases
      case 1
      then show ?thesis using safe i by (auto simp: sys_safe_def row_sent_def)
    next
      case 2
      then show ?thesis using safe i by (fastforce simp: sys_safe_def)
    qed blast
  qed
qed

section \<open>Timely flushes exclude each other\<close>

definition apart :: "int \<Rightarrow> sys \<Rightarrow> flight \<Rightarrow> flight \<Rightarrow> bool" where
  "apart timeout s f g \<longleftrightarrow> fresh timeout s f \<and> fresh timeout s g \<longrightarrow> set (ft_ids f) \<inter> set (ft_ids g) = {}"

definition holds :: "sys \<Rightarrow> flight \<Rightarrow> bool" where
  "holds s f \<longleftrightarrow> (\<forall>i \<in> set (ft_ids f). \<exists>r \<in> set (sy_rows s). qr_ID r = i \<and> qr_ClaimedAt r = Some (ft_at f))"

definition sys_excl :: "int \<Rightarrow> sys \<Rightarrow> bool" where
  "sys_excl timeout s \<longleftrightarrow>
     queue_ok (sy_rows s) \<and>
     (\<forall>f \<in> set (sy_flights s). fresh timeout s f \<longrightarrow> holds s f) \<and>
     sorted_wrt (apart timeout s) (sy_flights s) \<and>
     sy_late s = {} \<and> sy_withdrawn s \<inter> qr_ID ` set (sy_rows s) = {} \<and>
     qr_ID ` set (sy_rows s) \<union> sy_withdrawn s \<subseteq> dom (sy_sent s)"

lemma sorted_wrt_remove:
  "sorted_wrt R xs \<Longrightarrow> n < length xs \<Longrightarrow> sorted_wrt R (remove_nth n xs)"
proof -
  assume "sorted_wrt R xs" "n < length xs"
  then have "sorted_wrt R (take n xs @ xs ! n # drop (Suc n) xs)" by (simp add: id_take_nth_drop [symmetric])
  then show ?thesis by (simp add: remove_nth_def sorted_wrt_append)
qed

lemma apart_sym: "apart timeout s f g \<longleftrightarrow> apart timeout s g f"
  by (auto simp: apart_def)

lemma apart_from_nth:
  assumes "sorted_wrt (apart timeout s) (sy_flights s)" "n < length (sy_flights s)" "g \<in> set (remove_nth n (sy_flights s))"
  shows "apart timeout s (sy_flights s ! n) g"
proof -
  have "sorted_wrt (apart timeout s) (take n (sy_flights s) @ sy_flights s ! n # drop (Suc n) (sy_flights s))"
    using assms(1,2) by (simp add: id_take_nth_drop [symmetric])
  then show ?thesis
    using assms(3) by (auto simp: remove_nth_def sorted_wrt_append apart_sym [of _ _ g])
qed

text \<open>Rows and flights that change only in what the invariant does not look at.\<close>

lemma fresh_cong: "sy_now s' = sy_now s \<Longrightarrow> fresh timeout s' = fresh timeout s"
  by (simp add: fresh_def fun_eq_iff)

lemma apart_cong: "sy_now s' = sy_now s \<Longrightarrow> apart timeout s' = apart timeout s"
  by (simp add: apart_def fun_eq_iff fresh_cong [of s' s])

lemma held_row:
  assumes "sys_excl timeout s" "f \<in> set (sy_flights s)" "fresh timeout s f" "r \<in> set (sy_rows s)" "qr_ID r \<in> set (ft_ids f)"
  shows "qr_ClaimedAt r = Some (ft_at f)"
proof -
  obtain r' where r': "r' \<in> set (sy_rows s)" "qr_ID r' = qr_ID r" "qr_ClaimedAt r' = Some (ft_at f)"
    using assms(1,2,3,5) unfolding sys_excl_def holds_def by metis
  have "inj_on qr_ID (set (sy_rows s))" using assms(1) by (simp add: sys_excl_def queue_ok_def distinct_map)
  then have "r' = r" using r' assms(4) by (metis inj_onD)
  with r' show ?thesis by simp
qed

lemma claim_ids_claimable:
  assumes "distinct (map qr_ID rows)" "r \<in> set rows" "qr_ID r \<in> set (claim_ids timeout lim now rows)"
  shows "claimable timeout now r"
proof -
  have "set (claim_ids timeout lim now rows) \<subseteq> qr_ID ` {r \<in> set rows. claimable timeout now r}"
    by (auto simp: claim_ids_def Let_def dest!: in_set_takeD)
  then obtain r' where "r' \<in> set rows" "claimable timeout now r'" "qr_ID r' = qr_ID r" using assms(3) by auto
  with assms(1,2) show ?thesis by (metis distinct_map inj_onD)
qed

lemma not_claimable:
  "0 < timeout \<Longrightarrow> fresh timeout s f \<Longrightarrow> qr_ClaimedAt r = Some (ft_at f) \<Longrightarrow> \<not> claimable timeout (sy_now s) r"
  by (simp add: claimable_def fresh_def)

text \<open>A change of the rows that leaves the rows of every other fresh flight in place.\<close>

lemma holds_keep:
  assumes "holds s f" "\<And>r. r \<in> set (sy_rows s) \<Longrightarrow> qr_ID r \<in> set (ft_ids f) \<Longrightarrow> r \<in> set (sy_rows s')"
  shows "holds s' f"
  using assms unfolding holds_def by metis

lemma excl_remove:
  assumes excl: "sys_excl timeout s" and n: "n < length (sy_flights s)"
    and s': "sy_now s' = sy_now s" "sy_flights s' = remove_nth n (sy_flights s)" "sy_late s' = sy_late s"
      "sy_withdrawn s' = sy_withdrawn s" "sy_sent s' = sy_sent s"
    and rows: "queue_ok (sy_rows s')" "qr_ID ` set (sy_rows s') \<subseteq> qr_ID ` set (sy_rows s)"
    and keep: "\<And>r. r \<in> set (sy_rows s) \<Longrightarrow> fresh timeout s (sy_flights s ! n) \<Longrightarrow>
      qr_ID r \<notin> set (ft_ids (sy_flights s ! n)) \<Longrightarrow> r \<in> set (sy_rows s')"
    and act: "fresh timeout s (sy_flights s ! n) \<or> sy_rows s' = sy_rows s"
  shows "sys_excl timeout s'"
proof -
  have "holds s' g" if g: "g \<in> set (sy_flights s')" "fresh timeout s' g" for g
  proof -
    have gs: "g \<in> set (sy_flights s)" "fresh timeout s g"
      using g set_remove_nth [of n "sy_flights s"] s'(2) by (auto simp: fresh_cong [OF s'(1)])
    then have h: "holds s g" using excl by (simp add: sys_excl_def)
    show ?thesis
    proof (cases "sy_rows s' = sy_rows s")
      case True
      with h show ?thesis by (simp add: holds_def)
    next
      case False
      then have f: "fresh timeout s (sy_flights s ! n)" using act by simp
      have "apart timeout s (sy_flights s ! n) g"
        using apart_from_nth [of timeout s n g] excl n g(1) s'(2) by (simp add: sys_excl_def)
      then have "set (ft_ids (sy_flights s ! n)) \<inter> set (ft_ids g) = {}" using f gs(2) by (simp add: apart_def)
      then show ?thesis by (intro holds_keep [OF h] keep [OF _ f]) auto
    qed
  qed
  moreover have "sorted_wrt (apart timeout s') (sy_flights s')"
    using excl n by (simp add: apart_cong [OF s'(1)] s'(2) sys_excl_def sorted_wrt_remove)
  moreover have "sy_late s = {}" using excl by (simp add: sys_excl_def)
  moreover have w: "sy_withdrawn s \<inter> qr_ID ` set (sy_rows s) = {}" using excl by (simp add: sys_excl_def)
  have "sy_withdrawn s \<inter> qr_ID ` set (sy_rows s') = {}" using w rows(2) by blast
  moreover have d: "qr_ID ` set (sy_rows s) \<union> sy_withdrawn s \<subseteq> dom (sy_sent s)" using excl by (simp add: sys_excl_def)
  have "qr_ID ` set (sy_rows s') \<union> sy_withdrawn s \<subseteq> dom (sy_sent s)" using d rows(2) by blast
  ultimately show ?thesis using rows(1) unfolding sys_excl_def s'(3,4,5) by simp
qed

lemma excl_parts:
  assumes "sys_excl timeout s"
  shows "queue_ok (sy_rows s)" "f \<in> set (sy_flights s) \<Longrightarrow> fresh timeout s f \<Longrightarrow> holds s f"
    "sorted_wrt (apart timeout s) (sy_flights s)" "sy_late s = {}" "sy_withdrawn s \<inter> qr_ID ` set (sy_rows s) = {}"
    "qr_ID ` set (sy_rows s) \<union> sy_withdrawn s \<subseteq> dom (sy_sent s)"
  using assms by (simp_all add: sys_excl_def)

lemma sys_exclI:
  assumes "queue_ok (sy_rows s)" "\<And>f. f \<in> set (sy_flights s) \<Longrightarrow> fresh timeout s f \<Longrightarrow> holds s f"
    "sorted_wrt (apart timeout s) (sy_flights s)" "sy_late s = {}" "sy_withdrawn s \<inter> qr_ID ` set (sy_rows s) = {}"
    "qr_ID ` set (sy_rows s) \<union> sy_withdrawn s \<subseteq> dom (sy_sent s)"
  shows "sys_excl timeout s"
  using assms by (simp add: sys_excl_def)

text \<open>Time only makes claims older.\<close>

lemma excl_clock:
  assumes excl: "sys_excl timeout s" and t: "sy_now s \<le> t"
  shows "sys_excl timeout (s\<lparr>sy_now := t\<rparr>)"
proof (rule sys_exclI)
  have older: "fresh timeout s f" if "fresh timeout (s\<lparr>sy_now := t\<rparr>) f" for f
    using that t stamp_mono [of "sy_now s - timeout" "t - timeout"] by (simp add: fresh_def)
  fix f assume "f \<in> set (sy_flights (s\<lparr>sy_now := t\<rparr>))" "fresh timeout (s\<lparr>sy_now := t\<rparr>) f"
  then have "holds s f" using excl_parts(2) [OF excl] older by simp
  then show "holds (s\<lparr>sy_now := t\<rparr>) f" by (simp add: holds_def)
next
  have older: "apart timeout (s\<lparr>sy_now := t\<rparr>) f g" if "apart timeout s f g" for f g
    using that t stamp_mono [of "sy_now s - timeout" "t - timeout"] by (auto simp: apart_def fresh_def)
  show "sorted_wrt (apart timeout (s\<lparr>sy_now := t\<rparr>)) (sy_flights (s\<lparr>sy_now := t\<rparr>))"
    using sorted_wrt_mono_rel [OF older excl_parts(3) [OF excl]] by simp
qed (use excl_parts [OF excl] in simp_all)

lemma excl_enqueue:
  assumes excl: "sys_excl timeout s" and new: "sy_sent s (qb_ID b) = None"
  shows "sys_excl timeout (s\<lparr>sy_rows := enqueue_rows b (sy_rows s), sy_sent := (sy_sent s)(qb_ID b \<mapsto> qb_Payload b)\<rparr>)"
proof (rule sys_exclI)
  have n: "qb_ID b \<notin> qr_ID ` set (sy_rows s)" "qb_ID b \<notin> sy_withdrawn s"
    using excl_parts(6) [OF excl] new by auto
  then obtain r where r: "enqueue_rows b (sy_rows s) = sy_rows s @ [r]" "qr_ID r = qb_ID b"
    using enqueue_new by blast
  let ?s = "s\<lparr>sy_rows := enqueue_rows b (sy_rows s), sy_sent := (sy_sent s)(qb_ID b \<mapsto> qb_Payload b)\<rparr>"
  show "queue_ok (sy_rows ?s)" using enqueue_ok excl_parts(1) [OF excl] by simp
  show "sorted_wrt (apart timeout ?s) (sy_flights ?s)" using excl_parts(3) [OF excl] by (simp add: apart_cong [of ?s s])
  show "sy_late ?s = {}" using excl_parts(4) [OF excl] by simp
  show "sy_withdrawn ?s \<inter> qr_ID ` set (sy_rows ?s) = {}" using excl_parts(5) [OF excl] n r by simp
  show "qr_ID ` set (sy_rows ?s) \<union> sy_withdrawn ?s \<subseteq> dom (sy_sent ?s)" using excl_parts(6) [OF excl] r by auto
  fix f assume "f \<in> set (sy_flights ?s)" "fresh timeout ?s f"
  then have "holds s f" using excl_parts(2) [OF excl] by (simp add: fresh_cong [of ?s s])
  then show "holds ?s f" by (rule holds_keep) (simp add: r)
qed

lemma claimed_row:
  assumes "r \<in> set rows"
  shows "\<exists>r' \<in> set (claim_rows owner st lim now rows). qr_ID r' = qr_ID r \<and>
    (qr_ID r \<in> set (claim_ids st lim now rows) \<longrightarrow> qr_ClaimedAt r' = Some (stamp now)) \<and>
    (qr_ID r \<notin> set (claim_ids st lim now rows) \<longrightarrow> r' = r)"
  using assms
  by (intro bexI [of _ "if qr_ID r \<in> set (claim_ids st lim now rows)
        then r\<lparr>qr_ClaimedAt := Some (stamp now), qr_ClaimedBy := owner\<rparr> else r"])
    (auto simp: claim_rows_def sql_update_def)

lemma excl_claim:
  assumes excl: "sys_excl timeout s" and t: "0 < timeout"
  shows "sys_excl timeout (s\<lparr>sy_rows := claim_rows owner timeout 0 (sy_now s) (sy_rows s),
    sy_flights := sy_flights s @ [\<lparr>ft_blobs = claimed_blobs timeout 0 (sy_now s) (sy_rows s),
      ft_at = stamp (sy_now s), ft_done = {}\<rparr>]\<rparr>)" (is "sys_excl timeout ?s")
proof (rule sys_exclI)
  let ?ids = "claim_ids timeout 0 (sy_now s) (sy_rows s)" and ?rows = "sy_rows s"
  let ?new = "\<lparr>ft_blobs = claimed_blobs timeout 0 (sy_now s) ?rows, ft_at = stamp (sy_now s), ft_done = {}\<rparr>"
  have d: "distinct (map qr_ID ?rows)" using excl_parts(1) [OF excl] by (simp add: queue_ok_def)
  have new_ids: "set (ft_ids ?new) \<subseteq> qr_ID ` set ?rows \<inter> set ?ids"
    by (auto simp: ft_ids_def claimed_blob_set row_blob_def)
  have away: "qr_ID r \<notin> set ?ids"
    if "f \<in> set (sy_flights s)" "fresh timeout s f" "r \<in> set ?rows" "qr_ID r \<in> set (ft_ids f)" for f r
    using not_claimable [OF t that(2) held_row [OF excl that]] claim_ids_claimable [OF d that(3)] by blast
  have apart_new: "apart timeout s f ?new" if "f \<in> set (sy_flights s)" for f
    unfolding apart_def
  proof (intro impI equals0I)
    fix i assume f: "fresh timeout s f \<and> fresh timeout s ?new" and i: "i \<in> set (ft_ids f) \<inter> set (ft_ids ?new)"
    then obtain r where "r \<in> set ?rows" "qr_ID r = i" "i \<in> set ?ids" using new_ids by auto
    then show False using away [OF that, of r] f i by simp
  qed
  show "queue_ok (sy_rows ?s)" using claim_ok excl_parts(1) [OF excl] by simp
  show "sorted_wrt (apart timeout ?s) (sy_flights ?s)"
    using excl_parts(3) [OF excl] apart_new by (simp add: apart_cong [of ?s s] sorted_wrt_append)
  show "sy_late ?s = {}" using excl_parts(4) [OF excl] by simp
  show "sy_withdrawn ?s \<inter> qr_ID ` set (sy_rows ?s) = {}" using excl_parts(5) [OF excl] by simp
  show "qr_ID ` set (sy_rows ?s) \<union> sy_withdrawn ?s \<subseteq> dom (sy_sent ?s)" using excl_parts(6) [OF excl] by simp
  fix f assume f: "f \<in> set (sy_flights ?s)" "fresh timeout ?s f"
  show "holds ?s f"
  proof (cases "f = ?new")
    case True
    show ?thesis unfolding holds_def
    proof
      fix i assume "i \<in> set (ft_ids f)"
      then obtain r where "r \<in> set ?rows" "qr_ID r = i" "i \<in> set ?ids" using new_ids True by auto
      then show "\<exists>r \<in> set (sy_rows ?s). qr_ID r = i \<and> qr_ClaimedAt r = Some (ft_at f)"
        using claimed_row [of r ?rows owner timeout 0 "sy_now s"] True by auto
    qed
  next
    case False
    then have g: "f \<in> set (sy_flights s)" "fresh timeout s f" using f by (auto simp: fresh_cong [of ?s s])
    show ?thesis
    proof (rule holds_keep [OF excl_parts(2) [OF excl g]])
      fix r assume r: "r \<in> set ?rows" "qr_ID r \<in> set (ft_ids f)"
      show "r \<in> set (sy_rows ?s)"
        using claimed_row [OF r(1), of owner timeout 0 "sy_now s"] away [OF g r] by auto
    qed
  qed
qed

lemma excl_catalog:
  assumes excl: "sys_excl timeout s" and n: "n < length (sy_flights s)" "f = sy_flights s ! n"
    and b: "b \<in> set (ft_blobs f)" and fr: "fresh timeout s f"
  shows "sys_excl timeout (s\<lparr>sy_catalog := c, sy_late := sy_late s \<union> (sy_withdrawn s \<inter> {qb_ID b}),
    sy_flights := (sy_flights s)[n := f\<lparr>ft_done := d\<rparr>]\<rparr>)" (is "sys_excl timeout ?s")
proof (rule sys_exclI)
  have fs: "f \<in> set (sy_flights s)" using n by simp
  have "qb_ID b \<in> set (ft_ids f)" using b by (simp add: ft_ids_def)
  then obtain r where "r \<in> set (sy_rows s)" "qr_ID r = qb_ID b"
    using excl_parts(2) [OF excl fs fr] unfolding holds_def by metis
  then have "qb_ID b \<notin> sy_withdrawn s" using excl_parts(5) [OF excl] by (metis disjoint_iff imageI)
  then show "sy_late ?s = {}" using excl_parts(4) [OF excl] by simp
  have same: "ft_ids (f\<lparr>ft_done := d\<rparr>) = ft_ids f" "ft_at (f\<lparr>ft_done := d\<rparr>) = ft_at f" by (simp_all add: ft_ids_def)
  then have ap: "apart timeout s (f\<lparr>ft_done := d\<rparr>) g \<longleftrightarrow> apart timeout s f g"
    "apart timeout s g (f\<lparr>ft_done := d\<rparr>) \<longleftrightarrow> apart timeout s g f" for g by (simp_all add: apart_def fresh_def)
  have "sorted_wrt (apart timeout s) (take n (sy_flights s) @ f # drop (Suc n) (sy_flights s))"
    using excl_parts(3) [OF excl] n by (simp add: id_take_nth_drop [symmetric])
  then have "sorted_wrt (apart timeout s) ((sy_flights s)[n := f\<lparr>ft_done := d\<rparr>])"
    using n(1) by (simp add: upd_conv_take_nth_drop sorted_wrt_append ap)
  then show "sorted_wrt (apart timeout ?s) (sy_flights ?s)" by (simp add: apart_cong [of ?s s])
  fix g assume g: "g \<in> set (sy_flights ?s)" "fresh timeout ?s g"
  then have "g = f\<lparr>ft_done := d\<rparr> \<or> g \<in> set (sy_flights s)"
    using subsetD [OF set_update_subset_insert [of "sy_flights s" n "f\<lparr>ft_done := d\<rparr>"], of g] by simp
  then have "holds s g"
  proof
    assume "g = f\<lparr>ft_done := d\<rparr>"
    then show ?thesis using excl_parts(2) [OF excl fs fr] same by (simp add: holds_def)
  qed (use excl_parts(2) [OF excl] g(2) in \<open>simp add: fresh_cong [of ?s s]\<close>)
  then show "holds ?s g" by (simp add: holds_def)
qed (use excl_parts [OF excl] in simp_all)

lemma excl_withdraw:
  assumes excl: "sys_excl timeout s" and t: "0 < timeout"
    and w: "withdraw_all ids timeout (sy_now s) (sy_rows s) = (Inr out, rest)"
  shows "sys_excl timeout (s\<lparr>sy_rows := rest, sy_withdrawn := sy_withdrawn s \<union> set out\<rparr>)" (is "sys_excl timeout ?s")
proof (rule sys_exclI)
  note spec = withdraw_all_Inr [OF w]
  have free: "\<not> held timeout (sy_now s) r" if "r \<in> set (sy_rows s)" "qr_ID r \<in> set ids" for r
    using w t that by (auto simp: withdraw_all_def split: if_splits)
  show "queue_ok (sy_rows ?s)" using spec excl_parts(1) [OF excl] by (simp add: filter_ok)
  show "sorted_wrt (apart timeout ?s) (sy_flights ?s)" using excl_parts(3) [OF excl] by (simp add: apart_cong [of ?s s])
  show "sy_late ?s = {}" using excl_parts(4) [OF excl] by simp
  show "sy_withdrawn ?s \<inter> qr_ID ` set (sy_rows ?s) = {}" using excl_parts(5) [OF excl] spec by auto
  show "qr_ID ` set (sy_rows ?s) \<union> sy_withdrawn ?s \<subseteq> dom (sy_sent ?s)" using excl_parts(6) [OF excl] spec by auto
  fix f assume "f \<in> set (sy_flights ?s)" "fresh timeout ?s f"
  then have f: "f \<in> set (sy_flights s)" "fresh timeout s f" by (simp_all add: fresh_cong [of ?s s])
  show "holds ?s f"
  proof (rule holds_keep [OF excl_parts(2) [OF excl f]])
    fix r assume r: "r \<in> set (sy_rows s)" "qr_ID r \<in> set (ft_ids f)"
    have "held timeout (sy_now s) r" using held_row [OF excl f r] f(2) by (simp add: held_def fresh_def)
    then show "r \<in> set (sy_rows ?s)" using free [OF r(1)] r(1) spec by auto
  qed
qed

lemma step_excl:
  assumes "sys_step True timeout s s'" "sys_excl timeout s" "0 < timeout"
  shows "sys_excl timeout s'"
  using assms(1,2)
proof (induction rule: sys_step.induct)
  case (clock s t)
  then show ?case by (intro excl_clock)
next
  case (enqueue s b)
  then show ?case by (intro excl_enqueue)
next
  case (claim s owner)
  then show ?case by (intro excl_claim assms(3))
next
  case (release n s f)
  have "queue_ok (fold release_row (ft_ids f) (sy_rows s))"
    using release_ok excl_parts(1) [OF release.prems] by (intro fold_ok)
  moreover have "r \<in> set (fold release_row (ft_ids f) (sy_rows s))" if "r \<in> set (sy_rows s)" "qr_ID r \<notin> set (ft_ids f)" for r
    using that by (force simp: fold_release sql_update_def)
  ultimately show ?case using release by (intro excl_remove [OF release.prems release.hyps(1)]) simp_all
next
  case (catalog n s f b)
  then show ?case by (intro excl_catalog) simp_all
next
  case (drop n s f)
  have "queue_ok (fold drop_row (ft_ids f) (sy_rows s))"
    using drop_ok excl_parts(1) [OF drop.prems] by (intro fold_ok)
  then show ?case using drop by (intro excl_remove [OF drop.prems drop.hyps(1)]) (auto simp: fold_drop)
next
  case (abandon n s)
  then show ?case using excl_parts(1) [OF abandon.prems] by (intro excl_remove [OF abandon.prems abandon.hyps]) simp_all
next
  case (withdraw ids s out rest)
  then show ?case by (intro excl_withdraw assms(3))
qed

text \<open>
  C11. Among flushes that act on their records only within the claim timeout, no two hold the
  same record at once, whichever processes they belong to; each still has every record it took in
  the queue, claimed since the time it took it, so that no other may claim it; and none ever
  catalogues a record that was withdrawn.
\<close>

theorem flights_exclusive:
  assumes "reachable True timeout s" "0 < timeout"
  shows "sorted_wrt (\<lambda>f g. fresh timeout s f \<and> fresh timeout s g \<longrightarrow> set (ft_ids f) \<inter> set (ft_ids g) = {}) (sy_flights s) \<and>
    (\<forall>f \<in> set (sy_flights s). fresh timeout s f \<longrightarrow> (\<forall>i \<in> set (ft_ids f). \<exists>r \<in> set (sy_rows s).
       qr_ID r = i \<and> qr_ClaimedAt r = Some (ft_at f) \<and> \<not> claimable timeout (sy_now s) r)) \<and>
    sy_late s = {}"
proof -
  have excl: "sys_excl timeout s" using assms(1)
  proof induction
    case (start t)
    then show ?case by (simp add: sys_excl_def sys_start_def queue_ok_def)
  next
    case (step s s')
    then show ?case using step_excl assms(2) by blast
  qed
  have "\<exists>r \<in> set (sy_rows s). qr_ID r = i \<and> qr_ClaimedAt r = Some (ft_at f) \<and> \<not> claimable timeout (sy_now s) r"
    if "f \<in> set (sy_flights s)" "fresh timeout s f" "i \<in> set (ft_ids f)" for f i
    using excl_parts(2) [OF excl that(1,2)] that(3) not_claimable [OF assms(2) that(2)] unfolding holds_def by metis
  then show ?thesis using excl_parts(3,4) [OF excl] by (simp add: apart_def [abs_def])
qed

lemma all_claim_ids: "set (claim_ids timeout 0 now rows) = qr_ID ` {r \<in> set rows. claimable timeout now r}"
  by (simp add: claim_ids_def Let_def)

lemma claimed_single: "qr_ClaimedAt r = None \<Longrightarrow> claimed_blobs timeout 0 now [r] = [row_blob r]"
  by (simp add: claimed_blobs_def all_claim_ids claimable_def SliceStable_def)

text \<open>A queue that took a record and was claimed.\<close>

definition sample_blob :: QueuedBlob where
  "sample_blob = \<lparr>qb_ID = [7], qb_Kind = KindMemory, qb_CID = ''c'', qb_Payload = [1, 2], qb_QueuedAt = 5000000, qb_Seq = 0\<rparr>"

lemma sample_claimed:
  "\<exists>s. reachable timely 600000000000 s \<and> sy_sent s [7] = Some [1, 2] \<and> map ft_ids (sy_flights s) = [[[7]]]"
proof -
  define s0 where "s0 = sys_start 1000000000000"
  define s1 where "s1 = s0\<lparr>sy_rows := enqueue_rows sample_blob (sy_rows s0),
    sy_sent := (sy_sent s0)(qb_ID sample_blob \<mapsto> qb_Payload sample_blob)\<rparr>"
  define s2 where "s2 = s1\<lparr>sy_rows := claim_rows ''p'' 600000000000 0 (sy_now s1) (sy_rows s1),
    sy_flights := sy_flights s1 @ [\<lparr>ft_blobs = claimed_blobs 600000000000 0 (sy_now s1) (sy_rows s1),
      ft_at = stamp (sy_now s1), ft_done = {}\<rparr>]\<rparr>"
  obtain r where r: "enqueue_rows sample_blob [] = [r]" "qr_ID r = [7]" "qr_ClaimedAt r = None"
    using enqueue_new [of sample_blob "[]"] by (auto simp: sample_blob_def)
  have "reachable timely 600000000000 s0" unfolding s0_def by (rule reachable.start)
  then have "reachable timely 600000000000 s1"
    unfolding s1_def by (rule reachable.step) (rule sys_step.enqueue, simp add: s0_def sys_start_def)
  then have reach: "reachable timely 600000000000 s2"
    unfolding s2_def by (rule reachable.step) (rule sys_step.claim)
  have rows: "sy_rows s1 = [r]" "sy_flights s1 = []" by (simp_all add: s1_def s0_def sys_start_def r(1))
  have "sy_sent s1 [7] = Some [1, 2]" by (simp add: s1_def sample_blob_def)
  then have sent: "sy_sent s2 [7] = Some [1, 2]" by (simp add: s2_def)
  have "map ft_ids (sy_flights s2) = [[[7]]]"
    by (simp add: s2_def rows claimed_single [OF r(3)] ft_ids_def row_blob_def r(2))
  with reach sent show ?thesis by (intro exI [of _ s2] conjI)
qed

theorem queue_never_loses_witness:
  "\<exists>s :: sys. sy_sent s [7] = Some [1, 2] \<and>
     ((\<exists>r \<in> set (sy_rows s). qr_ID r = [7] \<and> qr_Payload r = [1, 2]) \<or> ([7], [1, 2]) \<in> set (sy_catalog s) \<or> [7] \<in> sy_withdrawn s)"
proof -
  obtain s where s: "reachable False 600000000000 s" "sy_sent s [7] = Some [1, 2]" using sample_claimed by blast
  from queue_never_loses [OF s(1), rule_format, OF s(2)] s(2) show ?thesis by (intro exI [of _ s] conjI)
qed

theorem flights_exclusive_witness:
  "\<exists>s :: sys. map ft_ids (sy_flights s) = [[[7]]] \<and> sy_late s = {} \<and>
     (\<forall>f \<in> set (sy_flights s). fresh 600000000000 s f \<longrightarrow> (\<forall>i \<in> set (ft_ids f). \<exists>r \<in> set (sy_rows s).
       qr_ID r = i \<and> qr_ClaimedAt r = Some (ft_at f) \<and> \<not> claimable 600000000000 (sy_now s) r))"
proof -
  obtain s where s: "reachable True 600000000000 s" "map ft_ids (sy_flights s) = [[[7]]]"
    using sample_claimed [of True] by (elim exE conjE)
  have "(0::int) < 600000000000" by simp
  note excl = flights_exclusive [OF s(1) this]
  show ?thesis
    by (rule exI [of _ s], intro conjI s(2) conjunct2 [OF conjunct2 [OF excl]] conjunct1 [OF conjunct2 [OF excl]])
qed

section \<open>What a stalled flush can undo\<close>

text \<open>
  Releasing does not look at who holds the claim: after a flush that stalled past the claim
  timeout was overtaken, its release frees the record under the flush that overtook it, and the
  next claim takes it a second time while that flush is still writing it.
\<close>

theorem release_frees_the_overtaker:
  assumes "r \<in> set rows" "qr_ID r \<in> set ids" "queue_ok rows"
  shows "\<exists>r' \<in> set (fold release_row ids rows). row_blob r' = row_blob r \<and> qr_ClaimedAt r' = None \<and>
    row_blob r \<in> set (claimed_blobs timeout 0 now (fold release_row ids rows))"
proof -
  let ?r = "r\<lparr>qr_ClaimedAt := None, qr_ClaimedBy := ''''\<rparr>" and ?rows = "fold release_row ids rows"
  have r: "?r \<in> set ?rows" using assms(1,2) by (auto simp: fold_release sql_update_def)
  moreover have "claimable timeout now ?r" by (simp add: claimable_def)
  ultimately have "qr_ID ?r \<in> set (claim_ids timeout 0 now ?rows)" unfolding all_claim_ids by blast
  with r have "row_blob ?r \<in> set (claimed_blobs timeout 0 now ?rows)" unfolding claimed_blob_set by blast
  then show ?thesis using r by (intro bexI [of _ ?r]) simp_all
qed

text \<open>A row claimed a moment ago by one process, released by another.\<close>

theorem release_frees_the_overtaker_witness:
  "row_blob (sample_row\<lparr>qr_ClaimedAt := Some 5, qr_ClaimedBy := ''b''\<rparr>) \<in>
     set (claimed_blobs 600000000000 0 5000001 (fold release_row [[7]] [sample_row\<lparr>qr_ClaimedAt := Some 5, qr_ClaimedBy := ''b''\<rparr>]))"
proof -
  let ?r = "sample_row\<lparr>qr_ClaimedAt := Some 5, qr_ClaimedBy := ''b''\<rparr>"
  have "?r \<in> set [?r]" "qr_ID ?r \<in> set [[7]]" "queue_ok [?r]" by (simp_all add: queue_ok_def sample_row_def)
  from release_frees_the_overtaker [OF this, of 600000000000 5000001] show ?thesis by (elim bexE conjE)
qed

end
