(* ===== verification/Local_Caches.thy ===== *)
theory Local_Caches
  imports Local_Store
begin

text \<open>
  The cache of locations (\<open>local/slabmeta.go\<close>): each object's own half and each slab's half, with
  the time they were captured. The column of slab ids is the comma-separated text of the source.
\<close>

record CachedLocation =
  cl_ObjectRef :: string
  cl_SlabIDs :: "string list"
  cl_Meta :: bytes
  cl_FetchedAt :: int

record CachedSlab =
  cs_SlabID :: string
  cs_Meta :: bytes
  cs_FetchedAt :: int

definition CachedLocation_Age :: "CachedLocation \<Rightarrow> ('z, int) local_op" where
  "CachedLocation_Age c = time_Since (cl_FetchedAt c)"

definition CachedSlab_Age :: "CachedSlab \<Rightarrow> ('z, int) local_op" where
  "CachedSlab_Age c = time_Since (cs_FetchedAt c)"

definition comma :: char where "comma = CHR '',''"

definition PutLocation :: "string \<Rightarrow> string list \<Rightarrow> bytes \<Rightarrow> ('z, unit) local_op" where
  "PutLocation objectRef slabIDs meta =
     bind_io time_Now (\<lambda>now.
     sql_exec (\<lambda>s. s\<lparr>dv_object_cache :=
       sql_upsert lr_Ref
         \<lparr>lr_Ref = objectRef, lr_SlabIDs = Join [comma] slabIDs, lr_Meta = meta, lr_FetchedAt = stamp now\<rparr>
         (\<lambda>r. r\<lparr>lr_SlabIDs := Join [comma] slabIDs, lr_Meta := meta, lr_FetchedAt := stamp now\<rparr>)
         (dv_object_cache s)\<rparr>))"

definition location_row :: "LocationRow \<Rightarrow> CachedLocation" where
  "location_row r =
     \<lparr>cl_ObjectRef = lr_Ref r,
      cl_SlabIDs = (if lr_SlabIDs r \<noteq> '''' then Split comma (lr_SlabIDs r) else []),
      cl_Meta = lr_Meta r, cl_FetchedAt = parseStamp (Some (lr_FetchedAt r))\<rparr>"

definition GetLocation :: "string \<Rightarrow> ('z, CachedLocation) local_op" where
  "GetLocation objectRef =
     bind_io (sql_query (\<lambda>s. sql_row lr_Ref objectRef (dv_object_cache s))) (\<lambda>r.
       case r of None \<Rightarrow> fail_io ErrNotFound | Some row \<Rightarrow> ret_io (location_row row))"

definition PutSlabMeta :: "string \<Rightarrow> bytes \<Rightarrow> ('z, unit) local_op" where
  "PutSlabMeta slabID meta =
     bind_io time_Now (\<lambda>now.
     sql_exec (\<lambda>s. s\<lparr>dv_slab_cache :=
       sql_upsert sm_SlabID \<lparr>sm_SlabID = slabID, sm_Meta = meta, sm_FetchedAt = stamp now\<rparr>
         (\<lambda>r. r\<lparr>sm_Meta := meta, sm_FetchedAt := stamp now\<rparr>) (dv_slab_cache s)\<rparr>))"

definition slabmeta_row :: "SlabMetaRow \<Rightarrow> CachedSlab" where
  "slabmeta_row r =
     \<lparr>cs_SlabID = sm_SlabID r, cs_Meta = sm_Meta r, cs_FetchedAt = parseStamp (Some (sm_FetchedAt r))\<rparr>"

definition GetSlabMeta :: "string \<Rightarrow> ('z, CachedSlab) local_op" where
  "GetSlabMeta slabID =
     bind_io (sql_query (\<lambda>s. sql_row sm_SlabID slabID (dv_slab_cache s))) (\<lambda>r.
       case r of None \<Rightarrow> fail_io ErrNotFound | Some row \<Rightarrow> ret_io (slabmeta_row row))"

definition ForgetLocation :: "string \<Rightarrow> ('z, unit) local_op" where
  "ForgetLocation objectRef =
     sql_exec (\<lambda>s. s\<lparr>dv_object_cache := filter (\<lambda>r. lr_Ref r \<noteq> objectRef) (dv_object_cache s)\<rparr>)"

definition ForgetSlabMeta :: "string \<Rightarrow> ('z, unit) local_op" where
  "ForgetSlabMeta slabID =
     sql_exec (\<lambda>s. s\<lparr>dv_slab_cache := filter (\<lambda>r. sm_SlabID r \<noteq> slabID) (dv_slab_cache s)\<rparr>)"

record CacheSize =
  cz_Objects :: nat
  cz_Slabs :: nat
  cz_ObjectBytes :: int
  cz_SlabBytes :: int

definition CacheSize_Total :: "CacheSize \<Rightarrow> int" where
  "CacheSize_Total c = cz_ObjectBytes c + cz_SlabBytes c"

definition Store_CacheSize :: "('z, CacheSize) local_op" where
  "Store_CacheSize =
     bind_io (sql_query (\<lambda>s. (length (dv_object_cache s),
       \<Sum>r \<leftarrow> dv_object_cache s. int (length (lr_Meta r)) + int (length (lr_SlabIDs r))))) (\<lambda>(objects, objectBytes).
     bind_io (sql_query (\<lambda>s. (length (dv_slab_cache s), \<Sum>r \<leftarrow> dv_slab_cache s. int (length (sm_Meta r))))) (\<lambda>(slabs, slabBytes).
     ret_io \<lparr>cz_Objects = objects, cz_Slabs = slabs, cz_ObjectBytes = objectBytes, cz_SlabBytes = slabBytes\<rparr>))"

section \<open>What was put is read back\<close>

lemma row_PutLocation:
  "sql_row lr_Ref k (sql_upsert lr_Ref \<lparr>lr_Ref = i, lr_SlabIDs = t, lr_Meta = m, lr_FetchedAt = n\<rparr>
     (\<lambda>r. r\<lparr>lr_SlabIDs := t, lr_Meta := m, lr_FetchedAt := n\<rparr>) rows) =
   (if k = i then Some \<lparr>lr_Ref = i, lr_SlabIDs = t, lr_Meta = m, lr_FetchedAt = n\<rparr> else sql_row lr_Ref k rows)"
  by (subst sql_row_upsert) (auto split: option.split dest: sql_row_Some)

lemma row_PutSlabMeta:
  "sql_row sm_SlabID k (sql_upsert sm_SlabID \<lparr>sm_SlabID = i, sm_Meta = m, sm_FetchedAt = n\<rparr>
     (\<lambda>r. r\<lparr>sm_Meta := m, sm_FetchedAt := n\<rparr>) rows) =
   (if k = i then Some \<lparr>sm_SlabID = i, sm_Meta = m, sm_FetchedAt = n\<rparr> else sql_row sm_SlabID k rows)"
  by (subst sql_row_upsert) (auto split: option.split dest: sql_row_Some)

lemma location_row_Join:
  assumes "\<forall>w \<in> set ws. comma \<notin> set w \<and> w \<noteq> ''''"
  shows "cl_SlabIDs (location_row \<lparr>lr_Ref = i, lr_SlabIDs = Join [comma] ws, lr_Meta = m, lr_FetchedAt = n\<rparr>) = ws"
proof (cases ws)
  case (Cons w rest)
  then have "Join [comma] ws \<noteq> ''''" using assms by (cases rest) auto
  moreover have "Split comma (Join [comma] ws) = ws" using assms Cons by (intro Split_Join) auto
  ultimately show ?thesis by (simp add: location_row_def)
qed (simp add: location_row_def)

end
