(* ===== verification/Go_Partial.thy ===== *)
theory Go_Partial
  imports Go_IO
begin

text \<open>
  Operations that may not return: \<open>None\<close> is a run that never ends. A total triple states that a
  run from the precondition ends, and how.
\<close>

type_synonym ('s, 'e, 'a) pio = "'s \<Rightarrow> (('e, 'a) result \<times> 's) option"

definition run_pio :: "('s, 'e, 'a) io \<Rightarrow> ('s, 'e, 'a) pio" where
  "run_pio m s = Some (m s)"

definition ret_pio :: "'a \<Rightarrow> ('s, 'e, 'a) pio" where
  "ret_pio x = run_pio (ret_io x)"

definition fail_pio :: "'e \<Rightarrow> ('s, 'e, 'a) pio" where
  "fail_pio e = run_pio (fail_io e)"

definition bind_pio :: "('s, 'e, 'a) pio \<Rightarrow> ('a \<Rightarrow> ('s, 'e, 'b) pio) \<Rightarrow> ('s, 'e, 'b) pio" where
  "bind_pio m f s =
     (case m s of
        None \<Rightarrow> None
      | Some (Inl e, s') \<Rightarrow> Some (Inl e, s')
      | Some (Inr x, s') \<Rightarrow> f x s')"

definition total_triple ::
  "('s \<Rightarrow> bool) \<Rightarrow> ('s, 'e, 'a) pio \<Rightarrow> ('a \<Rightarrow> 's \<Rightarrow> bool) \<Rightarrow> ('s \<Rightarrow> bool) \<Rightarrow> bool" where
  "total_triple P m Q E \<longleftrightarrow>
     (\<forall>s. P s \<longrightarrow> (\<exists>r s'. m s = Some (r, s') \<and> (case r of Inl e \<Rightarrow> E s' | Inr x \<Rightarrow> Q x s')))"

lemma total_run: "triple P m Q E \<Longrightarrow> total_triple P (run_pio m) Q E"
  unfolding total_triple_def run_pio_def
proof (intro allI impI)
  fix s assume "triple P m Q E" "P s"
  then show "\<exists>r s'. Some (m s) = Some (r, s') \<and> (case r of Inl e \<Rightarrow> E s' | Inr x \<Rightarrow> Q x s')"
    by (cases "m s") (auto dest: tripleD split: sum.split)
qed

lemma total_ret: "(\<And>s. P s \<Longrightarrow> Q x s) \<Longrightarrow> total_triple P (ret_pio x) Q E"
  unfolding ret_pio_def by (intro total_run triple_ret)

lemma total_fail: "(\<And>s. P s \<Longrightarrow> E s) \<Longrightarrow> total_triple P (fail_pio e) Q E"
  unfolding fail_pio_def by (intro total_run triple_fail)

lemma total_bind:
  assumes m: "total_triple P m R E" and f: "\<And>x. total_triple (R x) (f x) Q E"
  shows "total_triple P (bind_pio m f) Q E"
  unfolding total_triple_def
proof (intro allI impI)
  fix s assume "P s"
  then obtain r s1 where r: "m s = Some (r, s1)" and post: "case r of Inl e \<Rightarrow> E s1 | Inr x \<Rightarrow> R x s1"
    using m unfolding total_triple_def by blast
  show "\<exists>r s'. bind_pio m f s = Some (r, s') \<and> (case r of Inl e \<Rightarrow> E s' | Inr x \<Rightarrow> Q x s')"
  proof (cases r)
    case (Inl e)
    then show ?thesis using r post by (simp add: bind_pio_def)
  next
    case (Inr x)
    then have "R x s1" using post by simp
    then obtain r' s' where "f x s1 = Some (r', s')" "case r' of Inl e \<Rightarrow> E s' | Inr x \<Rightarrow> Q x s'"
      using f [of x] unfolding total_triple_def by blast
    then show ?thesis using r Inr by (simp add: bind_pio_def)
  qed
qed

lemma total_conseq:
  assumes "total_triple P m Q E" "\<And>s. P' s \<Longrightarrow> P s" "\<And>x s. Q x s \<Longrightarrow> Q' x s" "\<And>s. E s \<Longrightarrow> E' s"
  shows "total_triple P' m Q' E'"
  unfolding total_triple_def
proof (intro allI impI)
  fix s assume "P' s"
  then obtain r s' where "m s = Some (r, s')" "case r of Inl e \<Rightarrow> E s' | Inr x \<Rightarrow> Q x s'"
    using assms(1,2) unfolding total_triple_def by blast
  then show "\<exists>r s'. m s = Some (r, s') \<and> (case r of Inl e \<Rightarrow> E' s' | Inr x \<Rightarrow> Q' x s')"
    using assms(3,4) by (cases r) auto
qed

lemma total_assume: "(A \<Longrightarrow> total_triple P m Q E) \<Longrightarrow> total_triple (\<lambda>s. P s \<and> A) m Q E"
  unfolding total_triple_def by blast

lemma total_from: "(\<And>s0. P s0 \<Longrightarrow> total_triple (\<lambda>s. s = s0) m Q E) \<Longrightarrow> total_triple P m Q E"
  unfolding total_triple_def by blast

lemma totalD:
  "total_triple P m Q E \<Longrightarrow> P s \<Longrightarrow> \<exists>r s'. m s = Some (r, s') \<and> (case r of Inl e \<Rightarrow> E s' | Inr x \<Rightarrow> Q x s')"
  unfolding total_triple_def by blast

end
