(* ===== verification/Reclaim.thy ===== *)
theory Reclaim
  imports Store_Put Local_Caches Go_Partial
begin

text \<open>
  Package \<open>reclaim\<close> (\<open>store/reclaim/reclaim.go\<close>, \<open>store/reclaim/repack.go\<close>): what the vault pinned,
  the sweep that releases what nothing points at, the slabs that hold nothing, the objects that do
  not open, and the rewriting of records into fewer slabs.

  A reclaimer's client is the \<open>sdk\<close> behind it and its store is the device. Go ranges over a map in
  an unspecified order: \<open>order\<close> is that order of the keys. The event callback and the durations of a
  report are not modelled, and a report is only returned with a nil error.
\<close>

datatype keepset_error =
    CatalogNegative int
  | CatalogEmpty nat
  | NoObjectNamed int
  | ObjectsMissing nat int
  | NoSlabNamed int
  | NothingOccupied nat

datatype reclaim_error =
    ReNet string
  | ReLedger local_error
  | ErrKeepSetDegenerate keepset_error
  | ErrNotOursToRelease nat nat
  | ReStore store_error
  | WroteOther nat nat
  | ReApply string

type_synonym ('n, 'a) reclaim_op = "('n world, reclaim_error, 'a) pio"

definition across :: "('n \<Rightarrow> (string, 'a) result \<times> 'n) \<Rightarrow> ('n, 'a) reclaim_op" where
  "across f = run_pio (wrap_io ReNet (net_io f))"

definition ledger_op :: "('n world, local_error, 'a) io \<Rightarrow> ('n, 'a) reclaim_op" where
  "ledger_op m = run_pio (wrap_io ReLedger m)"

definition walk_op :: "('n, 'o) sdk \<Rightarrow> ('n, StoredObject list \<times> walk) reclaim_op" where
  "walk_op c s =
     (case WalkObjectsStats c (wl_net s) of
        None \<Rightarrow> None
      | Some (Inl e, n) \<Rightarrow> Some (Inl (ReNet e), s\<lparr>wl_net := n\<rparr>)
      | Some (Inr x, n) \<Rightarrow> Some (Inr x, s\<lparr>wl_net := n\<rparr>))"

definition pinned_op :: "('n, 'o) sdk \<Rightarrow> ('n, string list) reclaim_op" where
  "pinned_op c s =
     (case PinnedSlabs c (wl_net s) of
        None \<Rightarrow> None
      | Some (Inl e, n) \<Rightarrow> Some (Inl (ReNet e), s\<lparr>wl_net := n\<rparr>)
      | Some (Inr x, n) \<Rightarrow> Some (Inr x, s\<lparr>wl_net := n\<rparr>))"

section \<open>The ledger\<close>

type_synonym Slab = TrackedSlab

definition Slab_Releasable :: "Slab \<Rightarrow> bool" where
  "Slab_Releasable s = Releasable (tk_Origin s)"

definition Tracked :: "('n, Slab list) reclaim_op" where
  "Tracked = ledger_op TrackedSlabs"

definition Adopt :: "string \<Rightarrow> int \<Rightarrow> int \<Rightarrow> ('z, unit) local_op" where
  "Adopt slabID records nbytes = (if slabID = '''' then ret_io () else AdoptSlab slabID records nbytes)"

section \<open>The keep-set and the plan\<close>

record Live =
  lv_Objects :: "string set"
  lv_Slabs :: "string set"
  lv_Catalogued :: int
  lv_ReleaseAll :: bool

definition Live_Check :: "Live \<Rightarrow> nat \<Rightarrow> keepset_error option" where
  "Live_Check l pinned =
     (if lv_Catalogued l < 0 then Some (CatalogNegative (lv_Catalogued l))
      else if lv_Catalogued l = 0 \<and> pinned = 0 then None
      else if lv_Catalogued l = 0 \<and> \<not> lv_ReleaseAll l then Some (CatalogEmpty pinned)
      else if lv_Catalogued l = 0 then None
      else if card (lv_Objects l) = 0 then Some (NoObjectNamed (lv_Catalogued l))
      else if int (card (lv_Objects l)) < lv_Catalogued l then Some (ObjectsMissing (card (lv_Objects l)) (lv_Catalogued l))
      else if card (lv_Slabs l) = 0 then Some (NoSlabNamed (lv_Catalogued l))
      else None)"

record Plan =
  pn_DeadObjects :: "string list"
  pn_ReleasableSlabs :: "string list"
  pn_HeldSlabs :: nat
  pn_ForeignObjects :: nat

definition plan_start :: Plan where
  "plan_start = \<lparr>pn_DeadObjects = [], pn_ReleasableSlabs = [], pn_HeldSlabs = 0, pn_ForeignObjects = 0\<rparr>"

fun plan_tracked :: "Slab list \<Rightarrow> string list \<Rightarrow> Plan \<Rightarrow> string list \<times> Plan" where
  "plan_tracked [] ours plan = (ours, plan)"
| "plan_tracked (slab # slabs) ours plan =
     (if \<not> Slab_Releasable slab then plan_tracked slabs ours (plan\<lparr>pn_HeldSlabs := pn_HeldSlabs plan + 1\<rparr>)
      else plan_tracked slabs (List.insert (tk_SlabID slab) ours) plan)"

fun plan_objects :: "Live \<Rightarrow> string list \<Rightarrow> StoredObject list \<Rightarrow> Plan \<Rightarrow> Plan" where
  "plan_objects live ours [] plan = plan"
| "plan_objects live ours (object # objects) plan =
     (if ob_Slab object \<notin> set ours then
        plan_objects live ours objects (plan\<lparr>pn_ForeignObjects := pn_ForeignObjects plan + 1\<rparr>)
      else if ob_Ref object \<in> lv_Objects live then plan_objects live ours objects plan
      else plan_objects live ours objects (plan\<lparr>pn_DeadObjects := pn_DeadObjects plan @ [ob_Ref object]\<rparr>))"

fun plan_slabs :: "Live \<Rightarrow> string list \<Rightarrow> Plan \<Rightarrow> Plan" where
  "plan_slabs live [] plan = plan"
| "plan_slabs live (slabID # ids) plan =
     (if slabID \<in> lv_Slabs live then plan_slabs live ids plan
      else plan_slabs live ids (plan\<lparr>pn_ReleasableSlabs := pn_ReleasableSlabs plan @ [slabID]\<rparr>))"

definition planSweep :: "(string list \<Rightarrow> string list) \<Rightarrow> Live \<Rightarrow> Slab list \<Rightarrow> StoredObject list \<Rightarrow> Plan" where
  "planSweep order live tracked objects =
     (case plan_tracked tracked [] plan_start of
        (ours, plan) \<Rightarrow> plan_slabs live (order ours) (plan_objects live ours objects plan))"

section \<open>Releasing\<close>

definition Unpin :: "('n, 'o) sdk \<Rightarrow> string \<Rightarrow> ('n, unit) reclaim_op" where
  "Unpin c slabID =
     bind_pio (across (Client_UnpinSlab c slabID)) (\<lambda>_.
     bind_pio (ledger_op (ForgetSlab slabID)) (\<lambda>_.
     ledger_op (ForgetSlabMeta slabID)))"

fun unpin_each :: "('n, 'o) sdk \<Rightarrow> string list \<Rightarrow> nat \<Rightarrow> ('n, nat) reclaim_op" where
  "unpin_each c [] released = ret_pio released"
| "unpin_each c (slabID # ids) released =
     bind_pio (Unpin c slabID) (\<lambda>_. unpin_each c ids (released + 1))"

record Sweep =
  sp_ObjectsSeen :: nat
  sp_ObjectsDeleted :: nat
  sp_Unreadable :: nat
  sp_SlabsReleased :: nat
  sp_SlabsHeld :: nat
  sp_Before :: Account
  sp_After :: Account

definition freed :: "Account \<Rightarrow> Account \<Rightarrow> nat" where
  "freed before after =
     (if ac_PinnedData after \<ge> ac_PinnedData before then 0 else ac_PinnedData before - ac_PinnedData after)"

definition Sweep_Freed :: "Sweep \<Rightarrow> nat" where
  "Sweep_Freed s = freed (sp_Before s) (sp_After s)"

text \<open>What a sweep does once the plan is made.\<close>

definition sweep_act :: "('n, 'o) sdk \<Rightarrow> Plan \<Rightarrow> Account \<Rightarrow> StoredObject list \<Rightarrow> walk \<Rightarrow> ('n, Sweep) reclaim_op" where
  "sweep_act c plan before objects stats =
     bind_pio (across (Client_DeleteObjects c (pn_DeadObjects plan))) (\<lambda>_.
     bind_pio (unpin_each c (pn_ReleasableSlabs plan) 0) (\<lambda>released.
     bind_pio (across (Client_Account c)) (\<lambda>after.
     ret_pio \<lparr>sp_ObjectsSeen = length objects, sp_ObjectsDeleted = length (pn_DeadObjects plan),
       sp_Unreadable = length (wk_Unreadable stats), sp_SlabsReleased = released, sp_SlabsHeld = pn_HeldSlabs plan,
       sp_Before = before, sp_After = after\<rparr>)))"

definition Reclaimer_Sweep :: "('n, 'o) sdk \<Rightarrow> (string list \<Rightarrow> string list) \<Rightarrow> Live \<Rightarrow> ('n, Sweep) reclaim_op" where
  "Reclaimer_Sweep c order live =
     bind_pio Tracked (\<lambda>tracked.
     case Live_Check live (length tracked) of
       Some e \<Rightarrow> fail_pio (ErrKeepSetDegenerate e)
     | None \<Rightarrow>
     bind_pio (across (Client_Account c)) (\<lambda>before.
     bind_pio (walk_op c) (\<lambda>(objects, stats).
     sweep_act c (planSweep order live tracked objects) before objects stats)))"

section \<open>Slabs that hold nothing\<close>

record Orphan =
  or_ID :: string
  or_Tracked :: bool

definition checkOccupancy :: "nat \<Rightarrow> nat \<Rightarrow> bool \<Rightarrow> keepset_error option" where
  "checkOccupancy pinned occupied releaseAll =
     (if pinned = 0 \<or> occupied > 0 \<or> releaseAll then None else Some (NothingOccupied pinned))"

definition occupied_slabs :: "StoredObject list \<Rightarrow> string set" where
  "occupied_slabs objects = ob_Slab ` set objects - {''''}"

definition Orphans :: "('n, 'o) sdk \<Rightarrow> bool \<Rightarrow> ('n, Orphan list) reclaim_op" where
  "Orphans c releaseAll =
     bind_pio (pinned_op c) (\<lambda>pinned.
     bind_pio (walk_op c) (\<lambda>(objects, _).
     let occupied = occupied_slabs objects in
     case checkOccupancy (length pinned) (card occupied) releaseAll of
       Some e \<Rightarrow> fail_pio (ErrKeepSetDegenerate e)
     | None \<Rightarrow>
     bind_pio Tracked (\<lambda>tracked.
     let known = tk_SlabID ` set tracked in
     ret_pio (map (\<lambda>i. \<lparr>or_ID = i, or_Tracked = i \<in> known\<rparr>) (filter (\<lambda>i. i \<notin> occupied) pinned)))))"

record UnledgeredSlab =
  ul_ID :: string
  ul_Empty :: bool

definition Unledgered :: "('n, 'o) sdk \<Rightarrow> ('n, UnledgeredSlab list) reclaim_op" where
  "Unledgered c =
     bind_pio (pinned_op c) (\<lambda>pinned.
     bind_pio (walk_op c) (\<lambda>(objects, _).
     let occupied = occupied_slabs objects in
     bind_pio Tracked (\<lambda>tracked.
     let known = tk_SlabID ` set tracked in
     ret_pio (map (\<lambda>i. \<lparr>ul_ID = i, ul_Empty = (i \<notin> occupied)\<rparr>) (filter (\<lambda>i. i \<notin> known) pinned)))))"

definition ReleaseOrphans :: "('n, 'o) sdk \<Rightarrow> bool \<Rightarrow> ('n, Sweep) reclaim_op" where
  "ReleaseOrphans c releaseAll =
     bind_pio (across (Client_Account c)) (\<lambda>before.
     bind_pio (Orphans c releaseAll) (\<lambda>orphans.
     bind_pio (unpin_each c (map or_ID orphans) 0) (\<lambda>released.
     bind_pio (across (Client_Account c)) (\<lambda>after.
     ret_pio \<lparr>sp_ObjectsSeen = 0, sp_ObjectsDeleted = 0, sp_Unreadable = 0, sp_SlabsReleased = released,
       sp_SlabsHeld = 0, sp_Before = before, sp_After = after\<rparr>))))"

definition DropUnreadable :: "('n, 'o) sdk \<Rightarrow> ('n, string list) reclaim_op" where
  "DropUnreadable c =
     bind_pio (walk_op c) (\<lambda>(_, stats).
     if wk_Unreadable stats = [] then ret_pio []
     else bind_pio (across (Client_DeleteObjects c (wk_Unreadable stats))) (\<lambda>_. ret_pio (wk_Unreadable stats)))"

section \<open>Repacking\<close>

record Held =
  hd_ID :: ID
  hd_CID :: string
  hd_Ref :: string
  hd_SlabID :: string

record Moved =
  mv_ID :: ID
  mv_CID :: string
  mv_From :: string
  mv_To :: string
  mv_SlabID :: string
  mv_Bytes :: int

record Repack =
  rk_Records :: "Moved list"
  rk_SlabsBefore :: nat
  rk_SlabsAfter :: nat
  rk_Peak :: nat
  rk_Before :: Account
  rk_After :: Account

definition NoAccount :: Account where
  "NoAccount = \<lparr>ac_Ready = False, ac_PinnedData = 0, ac_PinnedSize = 0, ac_MaxPinnedData = 0\<rparr>"

definition Repack_Freed :: "Repack \<Rightarrow> nat" where
  "Repack_Freed r = freed (rk_Before r) (rk_After r)"

text \<open>The distinct slabs the records lie on, as the keys of \<open>from\<close>.\<close>

definition from_slabs :: "Held list \<Rightarrow> string list" where
  "from_slabs items = firsts (filter (\<lambda>i. i \<noteq> '''') (map hd_SlabID items))"

definition ours_of :: "Slab list \<Rightarrow> string \<rightharpoonup> bool" where
  "ours_of tracked = fold (\<lambda>slab m. m(tk_SlabID slab \<mapsto> Slab_Releasable slab)) tracked Map.empty"

definition ownsAll :: "string list \<Rightarrow> ('n, unit) reclaim_op" where
  "ownsAll slabs =
     (if slabs = [] then ret_pio ()
      else bind_pio Tracked (\<lambda>tracked.
        let foreign = length (filter (\<lambda>i. ours_of tracked i \<noteq> Some True) slabs) in
        if foreign = 0 then ret_pio () else fail_pio (ErrNotOursToRelease foreign (length slabs))))"

fun read_held :: "('n, 'o) sdk \<Rightarrow> Held list \<Rightarrow> ('n, Blob list) reclaim_op" where
  "read_held c [] = ret_pio []"
| "read_held c (item # items) =
     bind_pio (across (Client_Download c (hd_Ref item))) (\<lambda>payload.
     bind_pio (read_held c items) (\<lambda>blobs.
     ret_pio (\<lparr>bl_CID = hd_CID item, bl_Payload = payload\<rparr> # blobs)))"

definition moved_of :: "Held list \<Rightarrow> Written list \<Rightarrow> Moved list" where
  "moved_of items written =
     map (\<lambda>(h, w). \<lparr>mv_ID = hd_ID h, mv_CID = wr_CID w, mv_From = hd_Ref h, mv_To = wr_ObjectRef w,
       mv_SlabID = wr_SlabID w, mv_Bytes = wr_Bytes w\<rparr>) (zip items written)"

definition Reclaimer_Repack ::
  "('n, 'o) sdk \<Rightarrow> (string list \<Rightarrow> string list) \<Rightarrow> 'n Store \<Rightarrow> Held list \<Rightarrow>
   (Moved list \<Rightarrow> ('n world, string, unit) io) \<Rightarrow> ('n, Repack) reclaim_op" where
  "Reclaimer_Repack c order writer items apply_moves =
     (if items = [] then ret_pio \<lparr>rk_Records = [], rk_SlabsBefore = 0, rk_SlabsAfter = 0, rk_Peak = 0,
        rk_Before = NoAccount, rk_After = NoAccount\<rparr>
      else
     let from_ids = from_slabs items in
     bind_pio (ownsAll from_ids) (\<lambda>_.
     bind_pio (across (Client_Account c)) (\<lambda>before.
     bind_pio (read_held c items) (\<lambda>blobs.
     bind_pio (run_pio (wrap_io ReStore (PutBatch writer blobs))) (\<lambda>flushed.
     if length (fu_Written flushed) \<noteq> length items then fail_pio (WroteOther (length (fu_Written flushed)) (length items))
     else
     let moves = moved_of items (fu_Written flushed) in
     bind_pio (run_pio (wrap_io ReApply (apply_moves moves))) (\<lambda>_.
     bind_pio (across (Client_DeleteObjects c (map hd_Ref items))) (\<lambda>_.
     bind_pio (unpin_each c (filter (\<lambda>i. i \<notin> set (fu_Slabs flushed)) (order from_ids)) 0) (\<lambda>_.
     bind_pio (across (Client_Account c)) (\<lambda>after.
     ret_pio \<lparr>rk_Records = moves, rk_SlabsBefore = length from_ids, rk_SlabsAfter = length (fu_Slabs flushed),
       rk_Peak = length from_ids + length (fu_Slabs flushed), rk_Before = before, rk_After = after\<rparr>)))))))))"

end
