(* ===== verification/Reclaim_Spec.thy ===== *)
theory Reclaim_Spec
  imports Reclaim
begin

text \<open>
  What reclaiming storage keeps and what it releases.

  The indexer is a network of any type with two observations, the change feed and the slabs billed.
  \<open>indexer_ok\<close> is what the code relies on of it: listings and the account change neither, deleting
  an object takes at most that object off the feed and frees nothing, and unpinning a slab takes
  at most that slab off the bill, after which the objects on it may no longer open.
\<close>

section \<open>The indexer\<close>

definition object_slabs :: "('n, 'o) sdk \<Rightarrow> 'o event list \<Rightarrow> string \<rightharpoonup> string list" where
  "object_slabs c evs k =
     (case last_event evs k of
        None \<Rightarrow> None
      | Some e \<Rightarrow> (if ev_Deleted e then None else case ev_Object e of
          None \<Rightarrow> None | Some sealed \<Rightarrow> map_option so_Slabs (sk_Open c sealed)))"

definition listed :: "'o event list \<Rightarrow> string \<Rightarrow> bool" where
  "listed evs k = (case last_event evs k of None \<Rightarrow> False | Some e \<Rightarrow> \<not> ev_Deleted e \<and> ev_Object e \<noteq> None)"

definition readable :: "('n, 'o) sdk \<Rightarrow> ('n \<Rightarrow> 'o event list) \<Rightarrow> ('n \<Rightarrow> string set) \<Rightarrow> 'n \<Rightarrow> string \<Rightarrow> bool" where
  "readable c feed billed n k \<longleftrightarrow>
     (\<exists>slabs. object_slabs c (feed n) k = Some slabs \<and> set slabs \<subseteq> billed n)"

definition same_object :: "('n, 'o) sdk \<Rightarrow> ('n \<Rightarrow> 'o event list) \<Rightarrow> 'n \<Rightarrow> 'n \<Rightarrow> string \<Rightarrow> bool" where
  "same_object c feed n n' k \<longleftrightarrow>
     object_slabs c (feed n') k = object_slabs c (feed n) k \<and> listed (feed n') k = listed (feed n) k"

definition indexer_ok :: "('n, 'o) sdk \<Rightarrow> ('n \<Rightarrow> 'o event list) \<Rightarrow> ('n \<Rightarrow> string set) \<Rightarrow> bool" where
  "indexer_ok c feed billed \<longleftrightarrow>
     (\<forall>n. pages_of c n (feed n)) \<and>
     (\<forall>n. feed (snd (sk_Account c n)) = feed n \<and> billed (snd (sk_Account c n)) = billed n) \<and>
     (\<forall>r n res n'. sk_DeleteObject c r n = (res, n') \<longrightarrow>
        billed n' = billed n \<and> (\<forall>k. k \<noteq> r \<longrightarrow> same_object c feed n n' k) \<and>
        (same_object c feed n n' r \<or> \<not> listed (feed n') r) \<and>
        (case res of Inr _ \<Rightarrow> \<not> listed (feed n') r | Inl m \<Rightarrow> isNotFound c m r \<longrightarrow> \<not> listed (feed n') r)) \<and>
     (\<forall>d n res n'. sk_UnpinSlab c d n = (res, n') \<longrightarrow>
        (billed n' = billed n \<or> billed n' = billed n - {d}) \<and>
        (\<forall>k. listed (feed n') k = listed (feed n) k \<and>
           (object_slabs c (feed n') k = object_slabs c (feed n) k \<or>
            object_slabs c (feed n') k = None \<and> (\<exists>slabs. object_slabs c (feed n) k = Some slabs \<and> d \<in> set slabs))) \<and>
        (case res of Inr _ \<Rightarrow> d \<notin> billed n' | Inl m \<Rightarrow> isSlabGone c m d \<longrightarrow> d \<notin> billed n'))"

lemma object_slabs_listed: "object_slabs c evs k = Some ss \<Longrightarrow> listed evs k"
  by (auto simp: object_slabs_def listed_def split: option.splits if_splits)

lemma live_object_slabs:
  "live_object (sk_Open c) evs k = Some ob \<Longrightarrow>
   \<exists>ss. object_slabs c evs k = Some ss \<and> ob_Slab ob = (case ss of [] \<Rightarrow> '''' | d # _ \<Rightarrow> d)"
  by (auto simp: live_object_def event_object_def object_slabs_def slabOf_def split: option.splits if_splits)

lemma object_slabs_live:
  "object_slabs c evs k = Some ss \<Longrightarrow>
   \<exists>ob. live_object (sk_Open c) evs k = Some ob \<and> ob_Slab ob = (case ss of [] \<Rightarrow> '''' | d # _ \<Rightarrow> d)"
  by (auto simp: live_object_def event_object_def object_slabs_def slabOf_def split: option.splits if_splits)

lemma delete_object:
  assumes "indexer_ok c feed billed" "Client_DeleteObject c r n = (res, n')"
  shows "billed n' = billed n" "k \<noteq> r \<Longrightarrow> same_object c feed n n' k"
    "same_object c feed n n' r \<or> \<not> listed (feed n') r" "res = Inr () \<Longrightarrow> \<not> listed (feed n') r"
proof -
  obtain raw where raw: "sk_DeleteObject c r n = (raw, n')" and
    res: "res = (case raw of Inl m \<Rightarrow> if isNotFound c m r then Inr () else Inl m | Inr _ \<Rightarrow> Inr ())"
    using assms(2) by (auto simp: Client_DeleteObject_def split: prod.splits sum.splits)
  have all: "billed n' = billed n \<and> (\<forall>k. k \<noteq> r \<longrightarrow> same_object c feed n n' k) \<and>
      (same_object c feed n n' r \<or> \<not> listed (feed n') r) \<and>
      (case raw of Inr _ \<Rightarrow> \<not> listed (feed n') r | Inl m \<Rightarrow> isNotFound c m r \<longrightarrow> \<not> listed (feed n') r)"
    using assms(1) raw unfolding indexer_ok_def by blast
  then show "billed n' = billed n" "k \<noteq> r \<Longrightarrow> same_object c feed n n' k"
    "same_object c feed n n' r \<or> \<not> listed (feed n') r" by blast+
  show "\<not> listed (feed n') r" if "res = Inr ()" using all res that by (auto split: sum.splits if_splits)
qed

lemma unpin_slab:
  assumes "indexer_ok c feed billed" "Client_UnpinSlab c d n = (res, n')"
  shows "billed n - {d} \<subseteq> billed n'" "billed n' \<subseteq> billed n" "listed (feed n') k = listed (feed n) k"
    "object_slabs c (feed n) k = Some ss \<Longrightarrow> d \<notin> set ss \<Longrightarrow> object_slabs c (feed n') k = Some ss"
    "object_slabs c (feed n') k = Some ss \<Longrightarrow> object_slabs c (feed n) k = Some ss"
    "res = Inr () \<Longrightarrow> d \<notin> billed n'"
proof -
  have "billed n - {d} \<subseteq> billed n' \<and> billed n' \<subseteq> billed n \<and> listed (feed n') k = listed (feed n) k \<and>
    (object_slabs c (feed n) k = Some ss \<longrightarrow> d \<notin> set ss \<longrightarrow> object_slabs c (feed n') k = Some ss) \<and>
    (object_slabs c (feed n') k = Some ss \<longrightarrow> object_slabs c (feed n) k = Some ss) \<and>
    (res = Inr () \<longrightarrow> d \<notin> billed n')"
  proof (cases "sk_parseSlabID c d")
    case False
    then show ?thesis using assms(2) by (auto simp: Client_UnpinSlab_def)
  next
    case True
    then obtain raw where raw: "sk_UnpinSlab c d n = (raw, n')" and
      res: "res = (case raw of Inl m \<Rightarrow> if isSlabGone c m d then Inr () else Inl m | Inr _ \<Rightarrow> Inr ())"
      using assms(2) by (auto simp: Client_UnpinSlab_def split: prod.splits sum.splits)
    have bill: "billed n' = billed n \<or> billed n' = billed n - {d}"
      and kept: "listed (feed n') k = listed (feed n) k \<and>
           (object_slabs c (feed n') k = object_slabs c (feed n) k \<or>
            object_slabs c (feed n') k = None \<and> (\<exists>slabs. object_slabs c (feed n) k = Some slabs \<and> d \<in> set slabs))"
      and ok: "case raw of Inr _ \<Rightarrow> d \<notin> billed n' | Inl m \<Rightarrow> isSlabGone c m d \<longrightarrow> d \<notin> billed n'"
      using assms(1) raw unfolding indexer_ok_def by blast+
    have "res = Inr () \<longrightarrow> d \<notin> billed n'" using ok res by (cases raw) (auto split: if_splits)
    moreover have "billed n - {d} \<subseteq> billed n'" "billed n' \<subseteq> billed n" using bill by blast+
    moreover have "object_slabs c (feed n') k = Some ss" if "object_slabs c (feed n) k = Some ss" "d \<notin> set ss"
      using kept that by auto
    moreover have "object_slabs c (feed n) k = Some ss" if "object_slabs c (feed n') k = Some ss"
      using kept that by auto
    ultimately show ?thesis using kept by blast
  qed
  then show "billed n - {d} \<subseteq> billed n'" "billed n' \<subseteq> billed n" "listed (feed n') k = listed (feed n) k"
    "object_slabs c (feed n) k = Some ss \<Longrightarrow> d \<notin> set ss \<Longrightarrow> object_slabs c (feed n') k = Some ss"
    "object_slabs c (feed n') k = Some ss \<Longrightarrow> object_slabs c (feed n) k = Some ss"
    "res = Inr () \<Longrightarrow> d \<notin> billed n'" by blast+
qed

section \<open>Concurrent calls\<close>

lemma run_calls_all:
  assumes "\<And>i n. i \<in> set ks \<Longrightarrow> I n \<Longrightarrow> I (snd (f i n))"
    and "\<And>i n n'. i \<in> set ks \<Longrightarrow> I n \<Longrightarrow> f i n = (Inr (), n') \<Longrightarrow> R i n'"
    and "\<And>i j n. i \<in> set ks \<Longrightarrow> I n \<Longrightarrow> R j n \<Longrightarrow> R j (snd (f i n))"
    and "I n" "run_calls f ks n = (errs, n')"
  shows "I n' \<and> (errs = [] \<longrightarrow> (\<forall>i \<in> set ks. R i n')) \<and> (\<forall>j. R j n \<longrightarrow> R j n')"
  using assms
proof (induction ks arbitrary: n errs)
  case (Cons i ks)
  obtain r n1 where r: "f i n = (r, n1)" by (cases "f i n")
  obtain errs' where rest: "run_calls f ks n1 = (errs', n')" and errs: "errs = (case r of Inl e \<Rightarrow> e # errs' | Inr _ \<Rightarrow> errs')"
    using Cons.prems(5) r by (auto split: prod.splits)
  have I1: "I n1" using Cons.prems(1) [of i n] Cons.prems(4) r by simp
  have keep: "I n' \<and> (errs' = [] \<longrightarrow> (\<forall>i \<in> set ks. R i n')) \<and> (\<forall>j. R j n1 \<longrightarrow> R j n')"
    by (rule Cons.IH [where errs = errs' and n = n1, OF _ _ _ I1 rest]) (use Cons.prems(1-3) in \<open>simp_all\<close>)
  have "R j n \<longrightarrow> R j n1" for j using Cons.prems(3) [of i n j] Cons.prems(4) r by simp
  moreover have "errs = [] \<longrightarrow> R i n1 \<and> errs' = []"
    using Cons.prems(2) [of i n n1] Cons.prems(4) r errs by (cases r) auto
  ultimately show ?case using keep by auto
qed simp

lemma inFlight_all:
  assumes "\<And>i n. i < k \<Longrightarrow> I n \<Longrightarrow> I (snd (f i n))"
    and "\<And>i n n'. i < k \<Longrightarrow> I n \<Longrightarrow> f i n = (Inr (), n') \<Longrightarrow> R i n'"
    and "\<And>i j n. i < k \<Longrightarrow> I n \<Longrightarrow> R j n \<Longrightarrow> R j (snd (f i n))"
    and "I n" "inFlight order k f n = (r, n')"
  shows "I n' \<and> (r = Inr () \<longrightarrow> (\<forall>i < k. R i n'))"
proof (cases "k = 0")
  case True
  then show ?thesis using assms(4,5) by (simp add: inFlight_def)
next
  case False
  let ?ks = "filter (\<lambda>i. i < k) (remdups order)"
  obtain errs where run: "run_calls f ?ks n = (errs, n')"
    and r: "r = (if errs \<noteq> [] then Inl (hd errs) else if length ?ks < k then Inl ''context canceled'' else Inr ())"
    using assms(5) False by (auto simp: inFlight_def Let_def split: prod.splits)
  have all: "I n' \<and> (errs = [] \<longrightarrow> (\<forall>i \<in> set ?ks. R i n')) \<and> (\<forall>j. R j n \<longrightarrow> R j n')"
    by (rule run_calls_all [where I = I and R = R and f = f, OF _ _ _ assms(4) run]) (use assms(1-3) in simp_all)
  show ?thesis
  proof (intro conjI impI)
    show "I n'" using all by blast
    assume "r = Inr ()"
    then have e: "errs = []" and len: "\<not> length ?ks < k" using r by (auto split: if_splits)
    have sub: "set ?ks \<subseteq> {..<k}" by auto
    have "card (set ?ks) = length ?ks" by (rule distinct_card) simp
    moreover have "card (set ?ks) \<le> card {..<k}" by (rule card_mono [OF _ sub]) simp
    ultimately have "card (set ?ks) = card {..<k}" using len by (simp del: set_filter)
    then have "set ?ks = {..<k}" by (intro card_subset_eq [OF _ sub]) simp_all
    then show "\<forall>i < k. R i n'" using all e by auto
  qed
qed

section \<open>The plan\<close>

definition releasable_ids :: "Slab list \<Rightarrow> string list" where
  "releasable_ids tracked = map tk_SlabID (filter Slab_Releasable tracked)"

lemma plan_tracked_spec:
  "plan_tracked tracked ours plan =
     (fold List.insert (releasable_ids tracked) ours,
      plan\<lparr>pn_HeldSlabs := pn_HeldSlabs plan + length (filter (\<lambda>s. \<not> Slab_Releasable s) tracked)\<rparr>)"
  by (induction tracked ours plan rule: plan_tracked.induct) (simp_all add: releasable_ids_def)

lemma set_fold_insert: "set (fold List.insert xs ys) = set ys \<union> set xs"
  by (induction xs arbitrary: ys) auto

lemma plan_objects_spec:
  "plan_objects live ours objects plan =
     plan\<lparr>pn_DeadObjects := pn_DeadObjects plan @
         map ob_Ref (filter (\<lambda>ob. ob_Slab ob \<in> set ours \<and> ob_Ref ob \<notin> lv_Objects live) objects),
       pn_ForeignObjects := pn_ForeignObjects plan + length (filter (\<lambda>ob. ob_Slab ob \<notin> set ours) objects)\<rparr>"
  by (induction live ours objects plan rule: plan_objects.induct) simp_all

lemma plan_slabs_spec:
  "plan_slabs live ids plan =
     plan\<lparr>pn_ReleasableSlabs := pn_ReleasableSlabs plan @ filter (\<lambda>i. i \<notin> lv_Slabs live) ids\<rparr>"
  by (induction live ids plan rule: plan_slabs.induct) simp_all

definition reorders :: "(string list \<Rightarrow> string list) \<Rightarrow> bool" where
  "reorders order \<longleftrightarrow> (\<forall>xs. set (order xs) = set xs)"

lemma planSweep_spec:
  assumes "reorders order"
  shows "set (pn_DeadObjects (planSweep order live tracked objects)) =
      {ob_Ref ob |ob. ob \<in> set objects \<and> ob_Slab ob \<in> set (releasable_ids tracked) \<and> ob_Ref ob \<notin> lv_Objects live}"
    "set (pn_ReleasableSlabs (planSweep order live tracked objects)) = set (releasable_ids tracked) - lv_Slabs live"
    "pn_HeldSlabs (planSweep order live tracked objects) = length (filter (\<lambda>s. \<not> Slab_Releasable s) tracked)"
    "pn_ForeignObjects (planSweep order live tracked objects) =
      length (filter (\<lambda>ob. ob_Slab ob \<notin> set (releasable_ids tracked)) objects)"
  using assms
  by (auto simp: planSweep_def plan_tracked_spec plan_objects_spec plan_slabs_spec plan_start_def set_fold_insert reorders_def)

lemma releasable_own:
  assumes "slabs_ok rows" shows "set (releasable_ids (tracked_slabs rows)) = own_slabs rows"
proof -
  have "releasable_ids (map row_slab rs) = map sr_SlabID (filter (\<lambda>r. Releasable (sr_Origin r)) rs)" for rs
    by (induction rs) (simp_all add: releasable_ids_def row_slab_def Slab_Releasable_def)
  then have "set (releasable_ids (tracked_slabs rows)) = {sr_SlabID r |r. r \<in> set rows \<and> Releasable (sr_Origin r)}"
    by (auto simp: tracked_slabs_def)
  also have "\<dots> = own_slabs rows"
    using own_slabs_mem [OF assms] by (auto simp: own_slabs_def dest: sql_row_Some)
  finally show ?thesis .
qed

section \<open>The phases of a sweep\<close>

text \<open>Predicates of a world, against the network and the ledger a sweep began with.\<close>

definition untouched :: "('n \<Rightarrow> 'o event list) \<Rightarrow> ('n \<Rightarrow> string set) \<Rightarrow> 'n world \<Rightarrow> 'n world \<Rightarrow> bool" where
  "untouched feed billed s0 s \<longleftrightarrow>
     feed (wl_net s) = feed (wl_net s0) \<and> billed (wl_net s) = billed (wl_net s0) \<and> dv_slabs s = dv_slabs s0"

definition deleting ::
  "('n, 'o) sdk \<Rightarrow> ('n \<Rightarrow> 'o event list) \<Rightarrow> ('n \<Rightarrow> string set) \<Rightarrow> string set \<Rightarrow> 'n world \<Rightarrow> 'n \<Rightarrow> bool" where
  "deleting c feed billed dead s0 n \<longleftrightarrow>
     (\<forall>k. k \<notin> dead \<longrightarrow> same_object c feed (wl_net s0) n k) \<and>
     (\<forall>k \<in> dead. same_object c feed (wl_net s0) n k \<or> \<not> listed (feed n) k) \<and>
     billed n = billed (wl_net s0)"

definition releasing ::
  "('n, 'o) sdk \<Rightarrow> ('n \<Rightarrow> 'o event list) \<Rightarrow> ('n \<Rightarrow> string set) \<Rightarrow> string set \<Rightarrow> string set \<Rightarrow> 'n world \<Rightarrow> 'n world \<Rightarrow> bool" where
  "releasing c feed billed dead slabs s0 s \<longleftrightarrow>
     (\<forall>k \<in> dead. \<not> listed (feed (wl_net s)) k) \<and>
     (\<forall>k ss. k \<notin> dead \<longrightarrow> object_slabs c (feed (wl_net s0)) k = Some ss \<longrightarrow> set ss \<inter> slabs = {} \<longrightarrow>
        object_slabs c (feed (wl_net s)) k = Some ss) \<and>
     (\<forall>k ss. object_slabs c (feed (wl_net s)) k = Some ss \<longrightarrow> object_slabs c (feed (wl_net s0)) k = Some ss) \<and>
     billed (wl_net s0) - slabs \<subseteq> billed (wl_net s) \<and> billed (wl_net s) \<subseteq> billed (wl_net s0) \<and>
     slabs_ok (dv_slabs s) \<and>
     billed (wl_net s) \<subseteq> (billed (wl_net s0) - own_slabs (dv_slabs s0)) \<union> own_slabs (dv_slabs s)"

lemma releasingD:
  assumes "releasing c feed billed dead slabs s0 s"
  shows "k \<in> dead \<Longrightarrow> \<not> listed (feed (wl_net s)) k"
    "k \<notin> dead \<Longrightarrow> object_slabs c (feed (wl_net s0)) k = Some ss \<Longrightarrow> set ss \<inter> slabs = {} \<Longrightarrow>
      object_slabs c (feed (wl_net s)) k = Some ss"
    "object_slabs c (feed (wl_net s)) k = Some ss \<Longrightarrow> object_slabs c (feed (wl_net s0)) k = Some ss"
    "billed (wl_net s0) - slabs \<subseteq> billed (wl_net s)" "billed (wl_net s) \<subseteq> billed (wl_net s0)"
    "slabs_ok (dv_slabs s)"
    "billed (wl_net s) \<subseteq> (billed (wl_net s0) - own_slabs (dv_slabs s0)) \<union> own_slabs (dv_slabs s)"
  using assms unfolding releasing_def by blast+

lemma releasingI:
  assumes "\<And>k. k \<in> dead \<Longrightarrow> \<not> listed (feed n) k"
    "\<And>k ss. k \<notin> dead \<Longrightarrow> object_slabs c (feed (wl_net s0)) k = Some ss \<Longrightarrow> set ss \<inter> slabs = {} \<Longrightarrow>
      object_slabs c (feed n) k = Some ss"
    "\<And>k ss. object_slabs c (feed n) k = Some ss \<Longrightarrow> object_slabs c (feed (wl_net s0)) k = Some ss"
    "billed (wl_net s0) - slabs \<subseteq> billed n" "billed n \<subseteq> billed (wl_net s0)" "slabs_ok rows"
    "billed n \<subseteq> (billed (wl_net s0) - own_slabs (dv_slabs s0)) \<union> own_slabs rows"
    and "wl_net s = n" "dv_slabs s = rows"
  shows "releasing c feed billed dead slabs s0 s"
  unfolding releasing_def assms(8,9) using assms(1-7) by (intro conjI allI impI ballI) assumption+

lemma releasing_same:
  assumes "releasing c feed billed dead slabs s0 s" "feed (wl_net s') = feed (wl_net s)"
    "billed (wl_net s') = billed (wl_net s)" "dv_slabs s' = dv_slabs s"
  shows "releasing c feed billed dead slabs s0 s'"
  using assms(1) unfolding releasing_def assms(2-4) .

lemma total_across:
  assumes "\<And>s r n. P s \<Longrightarrow> f (wl_net s) = (r, n) \<Longrightarrow>
     (case r of Inl e \<Rightarrow> E (s\<lparr>wl_net := n\<rparr>) | Inr x \<Rightarrow> Q x (s\<lparr>wl_net := n\<rparr>))"
  shows "total_triple P (across f) Q E"
  unfolding across_def by (intro total_run triple_wrap triple_net assms)

lemma total_ledger: "triple P m Q E \<Longrightarrow> total_triple P (ledger_op m) Q E"
  unfolding ledger_op_def by (intro total_run triple_wrap)

lemma total_Account:
  assumes "indexer_ok c feed billed"
    and "\<And>s n. P s \<Longrightarrow> feed n = feed (wl_net s) \<Longrightarrow> billed n = billed (wl_net s) \<Longrightarrow> P (s\<lparr>wl_net := n\<rparr>)"
  shows "total_triple P (across (Client_Account c)) (\<lambda>_. P) P"
proof (rule total_across)
  fix s r n assume P: "P s" and r: "Client_Account c (wl_net s) = (r, n)"
  have "feed n = feed (wl_net s)" "billed n = billed (wl_net s)"
    using assms(1) r unfolding indexer_ok_def Client_Account_def by (metis snd_conv)+
  then have "P (s\<lparr>wl_net := n\<rparr>)" using assms(2) P by blast
  then show "case r of Inl e \<Rightarrow> P (s\<lparr>wl_net := n\<rparr>) | Inr x \<Rightarrow> P (s\<lparr>wl_net := n\<rparr>)" by (simp split: sum.split)
qed

lemma total_walk:
  assumes "indexer_ok c feed billed"
  shows "total_triple P (walk_op c) (\<lambda>(objects, stats) s. P s \<and> objects = live_objects (sk_Open c) (feed (wl_net s))) E"
  unfolding total_triple_def
proof (intro allI impI)
  fix s assume P: "P s"
  have "pages_of c (wl_net s) (feed (wl_net s))" using assms by (simp add: indexer_ok_def)
  then obtain stats where w: "WalkObjectsStats c (wl_net s) = Some (Inr (live_objects (sk_Open c) (feed (wl_net s)), stats), wl_net s)"
    by (auto dest: walk_lists)
  have "s\<lparr>wl_net := wl_net s\<rparr> = s" by simp
  then show "\<exists>r s'. walk_op c s = Some (r, s') \<and> (case r of Inl e \<Rightarrow> E s'
      | Inr x \<Rightarrow> (case x of (objects, stats) \<Rightarrow> \<lambda>s. P s \<and> objects = live_objects (sk_Open c) (feed (wl_net s))) s')"
    using P by (simp add: walk_op_def w)
qed

lemma total_Tracked:
  assumes "\<And>s k. P s \<Longrightarrow> P (s\<lparr>mc_step := k\<rparr>)"
  shows "total_triple P Tracked (\<lambda>tracked s. P s \<and> tracked = tracked_slabs (dv_slabs s)) P"
  unfolding Tracked_def
  unfolding TrackedSlabs_def by (rule total_ledger, rule triple_sql_query) (use assms in simp_all)

lemma total_DeleteObjects:
  assumes ok: "indexer_ok c feed billed" and P: "\<And>s. P s \<Longrightarrow> untouched feed billed s0 s"
  shows "total_triple P (across (Client_DeleteObjects c refs))
    (\<lambda>_ s. deleting c feed billed (set refs) s0 (wl_net s) \<and> dv_slabs s = dv_slabs s0 \<and> (\<forall>k \<in> set refs. \<not> listed (feed (wl_net s)) k))
    (\<lambda>s. deleting c feed billed (set refs) s0 (wl_net s) \<and> dv_slabs s = dv_slabs s0)"
proof (rule total_across)
  fix s r n assume s: "P s" and r: "Client_DeleteObjects c refs (wl_net s) = (r, n)"
  let ?I = "deleting c feed billed (set refs) s0" and ?R = "\<lambda>i n. \<not> listed (feed n) (refs ! i)"
  have step: "?I (snd (Client_DeleteObject c (refs ! i) m)) \<and> (?R j m \<longrightarrow> ?R j (snd (Client_DeleteObject c (refs ! i) m)))
      \<and> (fst (Client_DeleteObject c (refs ! i) m) = Inr () \<longrightarrow> ?R i (snd (Client_DeleteObject c (refs ! i) m)))"
    if i: "i < length refs" and m: "?I m" for i j m
  proof -
    obtain r' n' where d: "Client_DeleteObject c (refs ! i) m = (r', n')" by (cases "Client_DeleteObject c (refs ! i) m")
    note del = delete_object [OF ok d]
    have mem: "refs ! i \<in> set refs" using i by simp
    have "same_object c feed (wl_net s0) n' k" if "k \<notin> set refs" for k
    proof -
      have "k \<noteq> refs ! i" using that mem by blast
      then show ?thesis using del(2) [of k] m that by (simp add: deleting_def same_object_def)
    qed
    moreover have "same_object c feed (wl_net s0) n' k \<or> \<not> listed (feed n') k" if "k \<in> set refs" for k
      using del(2) [of k] del(3) m that by (cases "k = refs ! i") (auto simp: deleting_def same_object_def)
    ultimately have "?I n'" using del(1) m by (simp add: deleting_def)
    moreover have "?R j m \<longrightarrow> ?R j n'"
      using del(2) [of "refs ! j"] del(3) by (cases "refs ! j = refs ! i") (auto simp: same_object_def)
    ultimately show ?thesis using del(4) d by (cases r') simp_all
  qed
  have "?I (wl_net s)" using P [OF s] by (simp add: untouched_def deleting_def same_object_def)
  with r have "?I n \<and> (r = Inr () \<longrightarrow> (\<forall>i < length refs. ?R i n))"
    unfolding Client_DeleteObjects_def
    by (intro inFlight_all [where I = ?I and R = ?R]) (use step in \<open>simp_all, metis fst_conv snd_conv\<close>)
  moreover have "dv_slabs s = dv_slabs s0" using P [OF s] by (simp add: untouched_def)
  ultimately show "case r of Inl e \<Rightarrow> deleting c feed billed (set refs) s0 (wl_net (s\<lparr>wl_net := n\<rparr>)) \<and>
         dv_slabs (s\<lparr>wl_net := n\<rparr>) = dv_slabs s0
     | Inr x \<Rightarrow> deleting c feed billed (set refs) s0 (wl_net (s\<lparr>wl_net := n\<rparr>)) \<and>
         dv_slabs (s\<lparr>wl_net := n\<rparr>) = dv_slabs s0 \<and> (\<forall>k \<in> set refs. \<not> listed (feed (wl_net (s\<lparr>wl_net := n\<rparr>))) k)"
    by (cases r) (auto simp: in_set_conv_nth)
qed

lemma total_Unpin:
  assumes ok: "indexer_ok c feed billed" and d: "d \<in> L"
  shows "total_triple (\<lambda>s. releasing c feed billed dead L s0 s \<and> freed_ids \<inter> billed (wl_net s) = {})
    (Unpin c d)
    (\<lambda>_ s. releasing c feed billed dead L s0 s \<and> insert d freed_ids \<inter> billed (wl_net s) = {})
    (releasing c feed billed dead L s0)"
proof -
  let ?R = "releasing c feed billed dead L s0"
  have call: "total_triple (\<lambda>s. ?R s \<and> freed_ids \<inter> billed (wl_net s) = {}) (across (Client_UnpinSlab c d))
      (\<lambda>_ s. ?R s \<and> insert d freed_ids \<inter> billed (wl_net s) = {}) ?R"
  proof (rule total_across)
    fix s r n assume s: "?R s \<and> freed_ids \<inter> billed (wl_net s) = {}" and r: "Client_UnpinSlab c d (wl_net s) = (r, n)"
    note un = unpin_slab [OF ok r]
    have R: "?R s" using s by simp
    note old = releasingD [OF R]
    have a: "object_slabs c (feed n) k = Some ss"
      if "k \<notin> dead" "object_slabs c (feed (wl_net s0)) k = Some ss" "set ss \<inter> L = {}" for k ss
      using un(4) [OF old(2) [OF that]] that(3) d by blast
    have b: "object_slabs c (feed (wl_net s0)) k = Some ss" if "object_slabs c (feed n) k = Some ss" for k ss
      by (rule old(3) [OF un(5) [OF that]])
    have e: "\<not> listed (feed n) k" if "k \<in> dead" for k using old(1) [OF that] un(3) by simp
    have f: "billed (wl_net s0) - L \<subseteq> billed n"
    proof -
      have "billed (wl_net s0) - L \<subseteq> billed (wl_net s) - {d}" using old(4) d by auto
      then show ?thesis using un(1) by (rule order_trans)
    qed
    have R: "?R (s\<lparr>wl_net := n\<rparr>)"
      by (rule releasingI [OF e a b f order_trans [OF un(2) old(5)] old(6) order_trans [OF un(2) old(7)]]) simp_all
    have "freed_ids \<inter> billed n = {}" using s un(2) by blast
    then show "case r of Inl e \<Rightarrow> ?R (s\<lparr>wl_net := n\<rparr>)
        | Inr x \<Rightarrow> ?R (s\<lparr>wl_net := n\<rparr>) \<and> insert d freed_ids \<inter> billed (wl_net (s\<lparr>wl_net := n\<rparr>)) = {}"
      using R un(6) by (cases r) simp_all
  qed
  let ?P = "\<lambda>s. ?R s \<and> insert d freed_ids \<inter> billed (wl_net s) = {}"
  have forget: "?P (s\<lparr>mc_step := k, dv_slabs := filter (\<lambda>r. sr_SlabID r \<noteq> d) (dv_slabs s)\<rparr>)" if "?P s" for s k
  proof -
    let ?s = "s\<lparr>mc_step := k, dv_slabs := filter (\<lambda>r. sr_SlabID r \<noteq> d) (dv_slabs s)\<rparr>"
    have R: "?R s" and d': "d \<notin> billed (wl_net s)" using that by simp_all
    note old = releasingD [OF R]
    have own: "own_slabs (dv_slabs ?s) = own_slabs (dv_slabs s) - {d}" by (simp add: slabs_forget)
    have bill: "billed (wl_net s) \<subseteq> (billed (wl_net s0) - own_slabs (dv_slabs s0)) \<union> own_slabs (dv_slabs ?s)"
      unfolding own using old(7) d' by auto
    have "slabs_ok (dv_slabs ?s)" using old(6) by (simp add: slabs_forget)
    from releasingI [OF old(1-5) this bill, where s = ?s] show ?thesis using that by simp
  qed
  have step: "?P (s\<lparr>mc_step := k\<rparr>)" "?P (s\<lparr>mc_step := k, dv_slab_cache := x\<rparr>)" if p: "?P s" for s k x
  proof -
    have R: "?R s" using p by simp
    show "?P (s\<lparr>mc_step := k\<rparr>)" using releasing_same [OF R, of "s\<lparr>mc_step := k\<rparr>"] p by simp
    show "?P (s\<lparr>mc_step := k, dv_slab_cache := x\<rparr>)" using releasing_same [OF R, of "s\<lparr>mc_step := k, dv_slab_cache := x\<rparr>"] p by simp
  qed
  have "triple ?P (ForgetSlab d) (\<lambda>_. ?P) ?R"
    unfolding ForgetSlab_def by (rule triple_sql_exec) (use forget step(1) in simp_all)
  moreover have "triple ?P (ForgetSlabMeta d) (\<lambda>_. ?P) ?R"
    unfolding ForgetSlabMeta_def by (rule triple_sql_exec) (use step in simp_all)
  ultimately show ?thesis unfolding Unpin_def
    by (intro total_bind [OF call] total_bind [OF total_ledger] total_ledger)
qed

lemma total_unpin_each:
  assumes ok: "indexer_ok c feed billed" and "set ids \<subseteq> L"
  shows "total_triple (\<lambda>s. releasing c feed billed dead L s0 s \<and> freed_ids \<inter> billed (wl_net s) = {})
    (unpin_each c ids released)
    (\<lambda>_ s. releasing c feed billed dead L s0 s \<and> (set ids \<union> freed_ids) \<inter> billed (wl_net s) = {})
    (releasing c feed billed dead L s0)"
  using assms(2)
proof (induction ids arbitrary: released freed_ids)
  case Nil
  then show ?case by (simp add: total_ret)
next
  case (Cons d ids)
  then have "d \<in> L" "set ids \<subseteq> L" by simp_all
  from total_bind [OF total_Unpin [OF ok this(1)] Cons.IH [OF this(2), of "insert d freed_ids"]]
  show ?case by simp
qed

section \<open>The sweep\<close>

text \<open>
  What a sweep spares: an object of the keep-set whose slabs, as far as they are this device's, the
  keep-set names too; and an object on one slab that is not of the keep-set and that the sweep did
  not delete.
\<close>

definition spared :: "Live \<Rightarrow> string set \<Rightarrow> string \<Rightarrow> string list \<Rightarrow> bool \<Rightarrow> bool" where
  "spared live own k ss listed_after \<longleftrightarrow>
     (k \<in> lv_Objects live \<and> set ss \<inter> own \<subseteq> lv_Slabs live) \<or>
     (k \<notin> lv_Objects live \<and> (\<exists>d. ss = [d]) \<and> listed_after)"

definition sweep_safe ::
  "('n, 'o) sdk \<Rightarrow> ('n \<Rightarrow> 'o event list) \<Rightarrow> ('n \<Rightarrow> string set) \<Rightarrow> Live \<Rightarrow> 'n world \<Rightarrow> 'n world \<Rightarrow> bool" where
  "sweep_safe c feed billed live s0 s \<longleftrightarrow>
     (\<forall>k ss. object_slabs c (feed (wl_net s0)) k = Some ss \<longrightarrow> set ss \<subseteq> billed (wl_net s0) \<longrightarrow>
        spared live (own_slabs (dv_slabs s0)) k ss (listed (feed (wl_net s)) k) \<longrightarrow> readable c feed billed (wl_net s) k) \<and>
     billed (wl_net s0) - (own_slabs (dv_slabs s0) - lv_Slabs live) \<subseteq> billed (wl_net s) \<and>
     slabs_ok (dv_slabs s) \<and>
     billed (wl_net s) \<subseteq> (billed (wl_net s0) - own_slabs (dv_slabs s0)) \<union> own_slabs (dv_slabs s)"

definition sweep_complete ::
  "('n, 'o) sdk \<Rightarrow> ('n \<Rightarrow> 'o event list) \<Rightarrow> ('n \<Rightarrow> string set) \<Rightarrow> Live \<Rightarrow> 'n world \<Rightarrow> 'n world \<Rightarrow> bool" where
  "sweep_complete c feed billed live s0 s \<longleftrightarrow>
     billed (wl_net s) \<inter> own_slabs (dv_slabs s0) \<subseteq> lv_Slabs live \<and>
     (\<forall>k d. object_slabs c (feed (wl_net s)) k = Some [d] \<longrightarrow> d \<in> own_slabs (dv_slabs s0) \<longrightarrow> k \<in> lv_Objects live)"

lemma untouched_safe:
  "slabs_ok (dv_slabs s0) \<Longrightarrow> untouched feed billed s0 s \<Longrightarrow> sweep_safe c feed billed live s0 s"
  by (auto simp: untouched_def sweep_safe_def readable_def)

lemma deleting_safe:
  assumes "slabs_ok (dv_slabs s0)" "deleting c feed billed dead s0 (wl_net s)" "dv_slabs s = dv_slabs s0"
    and "dead \<inter> lv_Objects live = {}"
  shows "sweep_safe c feed billed live s0 s"
proof -
  have "readable c feed billed (wl_net s) k"
    if r: "object_slabs c (feed (wl_net s0)) k = Some ss" "set ss \<subseteq> billed (wl_net s0)"
      and k: "spared live (own_slabs (dv_slabs s0)) k ss (listed (feed (wl_net s)) k)" for k ss
  proof -
    have "same_object c feed (wl_net s0) (wl_net s) k" using assms(2,4) k unfolding deleting_def spared_def by blast
    moreover have "billed (wl_net s) = billed (wl_net s0)" using assms(2) by (simp add: deleting_def)
    ultimately show ?thesis using r by (simp add: readable_def same_object_def)
  qed
  moreover have "billed (wl_net s) = billed (wl_net s0)" using assms(2) by (simp add: deleting_def)
  ultimately show ?thesis using assms(1,3) by (auto simp: sweep_safe_def)
qed

lemma releasing_safe:
  assumes dead: "\<And>k d. object_slabs c (feed (wl_net s0)) k = Some [d] \<Longrightarrow> d \<in> own_slabs (dv_slabs s0) \<Longrightarrow>
      k \<notin> lv_Objects live \<Longrightarrow> k \<in> dead" "dead \<inter> lv_Objects live = {}"
    and rel: "releasing c feed billed dead (own_slabs (dv_slabs s0) - lv_Slabs live) s0 s"
  shows "sweep_safe c feed billed live s0 s"
proof -
  have "readable c feed billed (wl_net s) k"
    if ss: "object_slabs c (feed (wl_net s0)) k = Some ss" "set ss \<subseteq> billed (wl_net s0)"
      and k: "spared live (own_slabs (dv_slabs s0)) k ss (listed (feed (wl_net s)) k)" for k ss
  proof -
    have alive: "k \<notin> dead" using k dead(2) rel unfolding releasing_def spared_def by blast
    have out: "set ss \<inter> (own_slabs (dv_slabs s0) - lv_Slabs live) = {}"
    proof (cases "k \<in> lv_Objects live")
      case True
      then show ?thesis using k unfolding spared_def by blast
    next
      case False
      then obtain d where d: "ss = [d]" using k unfolding spared_def by blast
      then have "d \<notin> own_slabs (dv_slabs s0)" using dead(1) ss(1) False alive by blast
      then show ?thesis using d by simp
    qed
    then have "object_slabs c (feed (wl_net s)) k = Some ss" using rel alive ss(1) unfolding releasing_def by blast
    then have "object_slabs c (feed (wl_net s)) k = Some ss" using rel alive ss(1) unfolding releasing_def by blast
    moreover have "set ss \<subseteq> billed (wl_net s)" using rel ss(2) out unfolding releasing_def by blast
    ultimately show ?thesis by (simp add: readable_def)
  qed
  then show ?thesis using rel unfolding sweep_safe_def releasing_def by blast
qed

lemma releasing_complete:
  assumes dead: "\<And>k d. object_slabs c (feed (wl_net s0)) k = Some [d] \<Longrightarrow> d \<in> own_slabs (dv_slabs s0) \<Longrightarrow>
      k \<notin> lv_Objects live \<Longrightarrow> k \<in> dead"
    and rel: "releasing c feed billed dead (own_slabs (dv_slabs s0) - lv_Slabs live) s0 s"
    and gone: "(own_slabs (dv_slabs s0) - lv_Slabs live) \<inter> billed (wl_net s) = {}"
  shows "sweep_complete c feed billed live s0 s"
proof -
  have "k \<in> lv_Objects live"
    if k: "object_slabs c (feed (wl_net s)) k = Some [d]" and own: "d \<in> own_slabs (dv_slabs s0)" for k d
  proof (rule ccontr)
    assume "k \<notin> lv_Objects live"
    moreover have "object_slabs c (feed (wl_net s0)) k = Some [d]" using rel k unfolding releasing_def by blast
    ultimately have "k \<in> dead" using dead own by blast
    then have "\<not> listed (feed (wl_net s)) k" using rel unfolding releasing_def by blast
    then show False using object_slabs_listed [OF k] by blast
  qed
  then show ?thesis using gone unfolding sweep_complete_def by blast
qed

lemma sweep_dead:
  assumes "slabs_ok rows" "reorders order"
    and dead: "dead = set (pn_DeadObjects (planSweep order live (tracked_slabs rows) (live_objects (sk_Open c) evs)))"
  shows "object_slabs c evs k = Some [d] \<Longrightarrow> d \<in> own_slabs rows \<Longrightarrow> k \<notin> lv_Objects live \<Longrightarrow> k \<in> dead"
    "dead \<inter> lv_Objects live = {}"
proof -
  note spec = planSweep_spec [OF assms(2), of live "tracked_slabs rows" "live_objects (sk_Open c) evs", unfolded releasable_own [OF assms(1)]]
  show "dead \<inter> lv_Objects live = {}" unfolding dead spec(1) by blast
  assume k: "object_slabs c evs k = Some [d]" and d: "d \<in> own_slabs rows" "k \<notin> lv_Objects live"
  obtain ob where ob: "live_object (sk_Open c) evs k = Some ob" "ob_Slab ob = d" using object_slabs_live [OF k] by auto
  then have "ob_Ref ob = k" using live_object_key by blast
  then have "ob \<in> set (live_objects (sk_Open c) evs)" using ob by (simp add: live_objects_mem)
  then show "k \<in> dead" unfolding dead spec(1) using ob d \<open>ob_Ref ob = k\<close> by blast
qed

lemma Sweep_total:
  fixes c :: "('n, 'o) sdk" and s0 :: "'n world"
  assumes ok: "indexer_ok c feed billed" and order: "reorders order" and rows: "slabs_ok (dv_slabs s0)"
  shows "total_triple (\<lambda>s. s = s0) (Reclaimer_Sweep c order live)
    (\<lambda>_ s. sweep_safe c feed billed live s0 s \<and> sweep_complete c feed billed live s0 s) (sweep_safe c feed billed live s0)"
proof -
  let ?U = "untouched feed billed s0" and ?Safe = "sweep_safe c feed billed live s0"
  let ?plan = "planSweep order live (tracked_slabs (dv_slabs s0)) (live_objects (sk_Open c) (feed (wl_net s0)))"
  let ?dead = "set (pn_DeadObjects ?plan)" and ?L = "own_slabs (dv_slabs s0) - lv_Slabs live"
  let ?R = "releasing c feed billed ?dead ?L s0"
  note dead = sweep_dead [where live = live and c = c and evs = "feed (wl_net s0)", OF rows order refl]
  have L: "set (pn_ReleasableSlabs ?plan) = ?L"
    by (simp add: planSweep_spec(2) [OF order] releasable_own [OF rows])
  have U_safe: "\<And>s. ?U s \<Longrightarrow> ?Safe s" by (rule untouched_safe [OF rows])
  have R_safe: "\<And>s. ?R s \<Longrightarrow> ?Safe s" by (rule releasing_safe [where dead = ?dead and feed = feed and ?s0.0 = s0, OF dead])
  have acc: "total_triple ?U (across (Client_Account c)) (\<lambda>_. ?U) ?Safe"
    by (rule total_conseq [OF total_Account [OF ok, of ?U]]) (use U_safe in \<open>auto simp: untouched_def\<close>)
  have trk: "total_triple (\<lambda>s. s = s0) Tracked (\<lambda>t s. ?U s \<and> t = tracked_slabs (dv_slabs s0)) ?Safe"
    by (rule total_conseq [OF total_Tracked [of ?U]]) (use U_safe in \<open>auto simp: untouched_def\<close>)
  have wlk: "total_triple ?U (walk_op c) (\<lambda>x s. ?U s \<and> fst x = live_objects (sk_Open c) (feed (wl_net s0))) ?Safe"
    by (rule total_conseq [OF total_walk [OF ok, of ?U ?Safe]]) (auto simp: untouched_def)
  have del: "total_triple ?U (across (Client_DeleteObjects c (pn_DeadObjects ?plan)))
      (\<lambda>_ s. ?R s \<and> {} \<inter> billed (wl_net s) = {}) ?Safe"
  proof (rule total_conseq [OF total_DeleteObjects [OF ok, of ?U s0 "pn_DeadObjects ?plan"]])
    fix x and s :: "'n world" assume s: "deleting c feed billed ?dead s0 (wl_net s) \<and> dv_slabs s = dv_slabs s0 \<and> (\<forall>k \<in> ?dead. \<not> listed (feed (wl_net s)) k)"
    then have bill: "billed (wl_net s) = billed (wl_net s0)" and gone: "\<And>k. k \<in> ?dead \<Longrightarrow> \<not> listed (feed (wl_net s)) k"
      by (simp_all add: deleting_def)
    have same: "object_slabs c (feed (wl_net s)) k = object_slabs c (feed (wl_net s0)) k" if "k \<notin> ?dead" for k
      using s that unfolding deleting_def same_object_def by blast
    have old: "object_slabs c (feed (wl_net s0)) k = Some ss" if k: "object_slabs c (feed (wl_net s)) k = Some ss" for k ss
    proof -
      have "k \<notin> ?dead" using gone object_slabs_listed [OF k] by blast
      with same k show ?thesis by simp
    qed
    have "?R s"
    proof (rule releasingI [OF gone _ old])
      show "object_slabs c (feed (wl_net s)) k = Some ss"
        if "k \<notin> ?dead" "object_slabs c (feed (wl_net s0)) k = Some ss" "set ss \<inter> ?L = {}" for k ss
        using same that by simp
    qed (use s rows bill in auto)
    then show "?R s \<and> {} \<inter> billed (wl_net s) = {}" by simp
  qed (use deleting_safe [OF rows _ _ dead(2)] in auto)
  have unp: "total_triple (\<lambda>s. ?R s \<and> {} \<inter> billed (wl_net s) = {}) (unpin_each c (pn_ReleasableSlabs ?plan) 0)
      (\<lambda>_ s. ?R s \<and> ?L \<inter> billed (wl_net s) = {}) ?Safe"
    by (rule total_conseq [OF total_unpin_each [OF ok, of "pn_ReleasableSlabs ?plan" ?L ?dead s0 "{}" 0]])
      (use L R_safe in auto)
  have acc2: "total_triple (\<lambda>s. ?R s \<and> ?L \<inter> billed (wl_net s) = {}) (across (Client_Account c))
      (\<lambda>_ s. ?R s \<and> ?L \<inter> billed (wl_net s) = {}) ?Safe"
    by (rule total_conseq [OF total_Account [OF ok, of "\<lambda>s. ?R s \<and> ?L \<inter> billed (wl_net s) = {}"]])
      (use R_safe releasing_same [where feed = feed] in auto)
  have fin: "\<And>s. ?R s \<and> ?L \<inter> billed (wl_net s) = {} \<Longrightarrow> ?Safe s \<and> sweep_complete c feed billed live s0 s"
    using R_safe releasing_complete [where dead = ?dead and feed = feed and live = live and ?s0.0 = s0 and billed = billed, OF dead(1)]
    by (elim conjE, intro conjI) assumption+
  have act: "total_triple (\<lambda>s. ?U s \<and> objects = live_objects (sk_Open c) (feed (wl_net s0)))
      (sweep_act c (planSweep order live (tracked_slabs (dv_slabs s0)) objects) before objects stats)
      (\<lambda>_ s. ?Safe s \<and> sweep_complete c feed billed live s0 s) ?Safe" for before objects stats
    by (rule total_assume, hypsubst, unfold sweep_act_def)
      (intro total_bind [OF del] total_bind [OF unp] total_bind [OF acc2] total_ret, rule fin)
  have decided: "total_triple ?U
      (case Live_Check live k of Some e \<Rightarrow> fail_pio (ErrKeepSetDegenerate e) | None \<Rightarrow>
         bind_pio (across (Client_Account c)) (\<lambda>before. bind_pio (walk_op c) (\<lambda>(objects, stats).
           sweep_act c (planSweep order live (tracked_slabs (dv_slabs s0)) objects) before objects stats)))
      (\<lambda>_ s. ?Safe s \<and> sweep_complete c feed billed live s0 s) ?Safe" for k
  proof (cases "Live_Check live k")
    case None
    show ?thesis unfolding None option.case
    proof (rule total_bind [OF acc], rule total_bind [OF wlk])
      fix before :: Account and x :: "StoredObject list \<times> walk"
      show "total_triple (\<lambda>s. ?U s \<and> fst x = live_objects (sk_Open c) (feed (wl_net s0)))
          (case x of (objects, stats) \<Rightarrow> sweep_act c (planSweep order live (tracked_slabs (dv_slabs s0)) objects) before objects stats)
          (\<lambda>_ s. ?Safe s \<and> sweep_complete c feed billed live s0 s) ?Safe"
        using act [of "fst x" before "snd x"] by (simp add: case_prod_beta)
    qed
  qed (simp add: total_fail U_safe)
  show ?thesis unfolding Reclaimer_Sweep_def
    by (rule total_bind [OF trk], rule total_assume, hypsubst) (rule decided)
qed

end
