(* ===== verification/Vault_Reclaim.thy ===== *)
theory Vault_Reclaim
  imports Reclaim_Spec Packer Man_Lines
begin

text \<open>
  The vault's side of reclaiming storage (\<open>vault/reclaim.go\<close>): the keep-set it computes from the
  catalog, the sweep, the repack and where the catalog points afterwards.

  The entries are those of the catalog in memory (\<open>Manifest_Entries\<close>). A vault that is open offline
  has no client.
\<close>

datatype vault_error =
    VOffline
  | QueuedFirst int
  | BadObjectRef ID string
  | VReclaim reclaim_error

type_synonym ('n, 'a) vault_op = "('n world, vault_error, 'a) pio"

definition vault_run :: "('n, 'a) reclaim_op \<Rightarrow> ('n, 'a) vault_op" where
  "vault_run m s =
     (case m s of
        None \<Rightarrow> None
      | Some (Inl e, s') \<Rightarrow> Some (Inl (VReclaim e), s')
      | Some (Inr x, s') \<Rightarrow> Some (Inr x, s'))"

section \<open>The keep-set\<close>

fun live_loop :: "Entry list \<Rightarrow> Live \<Rightarrow> (vault_error, Live) result" where
  "live_loop [] live = Inr live"
| "live_loop (entry # entries) live =
     (case ParseObjectRef (me_ObjectRef entry) of
        Inl e \<Rightarrow> Inl (BadObjectRef (me_ID entry) e)
      | Inr ref \<Rightarrow>
          live_loop entries
            (live\<lparr>lv_Objects := insert ref (lv_Objects live),
               lv_Slabs := (if me_SlabID entry \<noteq> '''' then insert (me_SlabID entry) (lv_Slabs live) else lv_Slabs live)\<rparr>))"

definition Vault_live :: "Entry list \<Rightarrow> bool \<Rightarrow> (vault_error, Live) result" where
  "Vault_live entries releaseAll =
     live_loop entries \<lparr>lv_Objects = {}, lv_Slabs = {}, lv_Catalogued = int (length entries), lv_ReleaseAll = releaseAll\<rparr>"

definition Vault_Reclaim ::
  "('n, 'o) sdk option \<Rightarrow> (string list \<Rightarrow> string list) \<Rightarrow> Entry list \<Rightarrow> bool \<Rightarrow> ('n, Sweep) vault_op" where
  "Vault_Reclaim client order entries releaseAll s =
     (case client of
        None \<Rightarrow> fail_pio VOffline s
      | Some c \<Rightarrow>
          if Pending s > 0 then fail_pio (QueuedFirst (Pending s)) s
          else case Vault_live entries releaseAll of
            Inl e \<Rightarrow> fail_pio e s
          | Inr live \<Rightarrow> vault_run (Reclaimer_Sweep c order live) s)"

section \<open>The repack\<close>

fun held_loop :: "Entry list \<Rightarrow> Held list \<Rightarrow> (vault_error, Held list) result" where
  "held_loop [] out = Inr out"
| "held_loop (entry # entries) out =
     (case ParseObjectRef (me_ObjectRef entry) of
        Inl e \<Rightarrow> Inl (BadObjectRef (me_ID entry) e)
      | Inr ref \<Rightarrow>
          held_loop entries
            (out @ [\<lparr>hd_ID = me_ID entry, hd_CID = CID_String (me_CID entry), hd_Ref = ref, hd_SlabID = me_SlabID entry\<rparr>]))"

definition Vault_Repack ::
  "('n, 'o) sdk option \<Rightarrow> (string list \<Rightarrow> string list) \<Rightarrow> 'n Store \<Rightarrow> Entry list \<Rightarrow>
   (Moved list \<Rightarrow> ('n world, string, unit) io) \<Rightarrow> ('n, Repack) vault_op" where
  "Vault_Repack client order st entries relocate s =
     (case client of
        None \<Rightarrow> fail_pio VOffline s
      | Some c \<Rightarrow>
          if Pending s > 0 then fail_pio (QueuedFirst (Pending s)) s
          else case held_loop entries [] of
            Inl e \<Rightarrow> fail_pio e s
          | Inr items \<Rightarrow> vault_run (Reclaimer_Repack c order st items relocate) s)"

section \<open>Asking about storage\<close>

definition Vault_Unledgered :: "('n, 'o) sdk option \<Rightarrow> ('n, UnledgeredSlab list) vault_op" where
  "Vault_Unledgered client = (case client of None \<Rightarrow> fail_pio VOffline | Some c \<Rightarrow> vault_run (Unledgered c))"

definition Vault_Orphans :: "('n, 'o) sdk option \<Rightarrow> bool \<Rightarrow> ('n, Orphan list) vault_op" where
  "Vault_Orphans client releaseAll =
     (case client of None \<Rightarrow> fail_pio VOffline | Some c \<Rightarrow> vault_run (Orphans c releaseAll))"

definition Vault_ReleaseOrphans :: "('n, 'o) sdk option \<Rightarrow> bool \<Rightarrow> ('n, Sweep) vault_op" where
  "Vault_ReleaseOrphans client releaseAll =
     (case client of None \<Rightarrow> fail_pio VOffline | Some c \<Rightarrow> vault_run (ReleaseOrphans c releaseAll))"

definition Vault_DropUnreadable :: "('n, 'o) sdk option \<Rightarrow> ('n, string list) vault_op" where
  "Vault_DropUnreadable client =
     (case client of None \<Rightarrow> fail_pio VOffline | Some c \<Rightarrow> vault_run (DropUnreadable c))"

section \<open>What the keep-set names\<close>

lemma live_loop_Inr:
  "live_loop entries live = Inr live' \<Longrightarrow>
     lv_Objects live' = lv_Objects live \<union> {ref. \<exists>e \<in> set entries. ParseObjectRef (me_ObjectRef e) = Inr ref} \<and>
     lv_Slabs live' = lv_Slabs live \<union> (me_SlabID ` set entries - {''''})"
proof (induction entries arbitrary: live)
  case (Cons e entries)
  then obtain ref where ref: "ParseObjectRef (me_ObjectRef e) = Inr ref" by (auto split: sum.splits)
  let ?live = "live\<lparr>lv_Objects := insert ref (lv_Objects live),
    lv_Slabs := (if me_SlabID e \<noteq> '''' then insert (me_SlabID e) (lv_Slabs live) else lv_Slabs live)\<rparr>"
  have "live_loop entries ?live = Inr live'" using Cons.prems ref by simp
  note Cons.IH [OF this]
  then show ?case using ref by (cases "me_SlabID e = ''''") auto
qed simp

definition catalogued_refs :: "Entry list \<Rightarrow> string set" where
  "catalogued_refs entries = {ref. \<exists>e \<in> set entries. ParseObjectRef (me_ObjectRef e) = Inr ref}"

lemma Vault_live_keeps:
  assumes "Vault_live entries releaseAll = Inr live"
  shows "lv_Objects live = catalogued_refs entries"
    "lv_Slabs live = me_SlabID ` set entries - {''''}"
proof -
  have "live_loop entries \<lparr>lv_Objects = {}, lv_Slabs = {}, lv_Catalogued = int (length entries), lv_ReleaseAll = releaseAll\<rparr> = Inr live"
    using assms(1) by (simp add: Vault_live_def)
  from live_loop_Inr [OF this] have live: "lv_Objects live = catalogued_refs entries" "lv_Slabs live = me_SlabID ` set entries - {''''}"
    by (simp_all add: catalogued_refs_def)
  then show "lv_Objects live = catalogued_refs entries" "lv_Slabs live = me_SlabID ` set entries - {''''}" by simp_all
qed

lemma total_vault_run:
  assumes "total_triple P m Q E" shows "total_triple P (vault_run m) Q E"
  unfolding total_triple_def
proof (intro allI impI)
  fix s assume "P s"
  from totalD [OF assms this] obtain r s' where "m s = Some (r, s')" "case r of Inl e \<Rightarrow> E s' | Inr x \<Rightarrow> Q x s'" by blast
  then show "\<exists>r s'. vault_run m s = Some (r, s') \<and> (case r of Inl e \<Rightarrow> E s' | Inr x \<Rightarrow> Q x s')"
    by (cases r) (auto simp: vault_run_def)
qed

text \<open>
  How a reclaim may leave the account and the ledger: no object of a catalogued record stops being
  readable, when the catalog names every slab of this device it lies on; of the other objects on one
  slab none stays listed that can no longer be read; no slab is released that another
  device pinned or a catalogued record lies on, no billed slab drops out of the ledger, and when
  it succeeded nothing of this device's is billed but what a catalogued record lies on.
\<close>

definition reclaim_keeps ::
  "('n, 'o) sdk \<Rightarrow> ('n \<Rightarrow> 'o event list) \<Rightarrow> ('n \<Rightarrow> string set) \<Rightarrow> Entry list \<Rightarrow> 'n world \<Rightarrow> bool \<Rightarrow> 'n world \<Rightarrow> bool" where
  "reclaim_keeps c feed billed entries s0 ok s \<longleftrightarrow>
     (\<forall>k ss. object_slabs c (feed (wl_net s0)) k = Some ss \<longrightarrow> set ss \<subseteq> billed (wl_net s0) \<longrightarrow>
        (k \<in> catalogued_refs entries \<and> set ss \<inter> own_slabs (dv_slabs s0) \<subseteq> me_SlabID ` set entries - {''''}) \<or>
        (k \<notin> catalogued_refs entries \<and> (\<exists>d. ss = [d]) \<and> listed (feed (wl_net s)) k) \<longrightarrow>
        readable c feed billed (wl_net s) k) \<and>
     billed (wl_net s0) - (own_slabs (dv_slabs s0) - (me_SlabID ` set entries - {''''})) \<subseteq> billed (wl_net s) \<and>
     billed (wl_net s) \<subseteq> (billed (wl_net s0) - own_slabs (dv_slabs s0)) \<union> own_slabs (dv_slabs s) \<and>
     (ok \<longrightarrow> billed (wl_net s) \<inter> own_slabs (dv_slabs s0) \<subseteq> me_SlabID ` set entries)"

lemma reclaim_keeps_self: "reclaim_keeps c feed billed entries s False s"
  by (auto simp: reclaim_keeps_def readable_def)

text \<open>
  C23. A reclaim returns, and however it ends and whatever call fails: a catalogued record stays
  readable if the catalog names every slab of this device its object lies on; an object on one slab
  that is not catalogued is still readable if it is still listed; no slab of another device and none
  the catalog names is released; and nothing billed drops out of the ledger. When it succeeds, of this
  device's slabs only those the catalog names are still billed. What the condition on a catalogued
  object leaves out, one that crosses into a slab the catalog does not name, is the bug below.
\<close>

theorem Reclaim_keeps_catalogued:
  fixes c :: "('n, 'o) sdk" and s0 :: "'n world"
  assumes "indexer_ok c feed billed" "reorders order" "slabs_ok (dv_slabs s0)"
  shows "\<exists>r s. Vault_Reclaim (Some c) order entries releaseAll s0 = Some (r, s) \<and>
    reclaim_keeps c feed billed entries s0 (is_ok r) s"
proof -
  have refused: ?thesis if "Vault_Reclaim (Some c) order entries releaseAll s0 = fail_pio e s0" for e
    using that reclaim_keeps_self by (auto simp: fail_pio_def run_pio_def fail_io_def is_ok_def)
  show ?thesis
  proof (cases "Pending s0 > 0")
    case True
    then show ?thesis by (intro refused) (simp add: Vault_Reclaim_def)
  next
    case False
    show ?thesis
    proof (cases "Vault_live entries releaseAll")
      case (Inl e)
      then show ?thesis using False by (intro refused) (simp add: Vault_Reclaim_def)
    next
      case (Inr live)
      note live = Vault_live_keeps [OF Inr]
      have "total_triple (\<lambda>s. s = s0) (vault_run (Reclaimer_Sweep c order live))
          (\<lambda>_ s. sweep_safe c feed billed live s0 s \<and> sweep_complete c feed billed live s0 s) (sweep_safe c feed billed live s0)"
        by (intro total_vault_run Sweep_total assms)
      from totalD [OF this refl] obtain r s where run: "vault_run (Reclaimer_Sweep c order live) s0 = Some (r, s)"
        and post: "case r of Inl e \<Rightarrow> sweep_safe c feed billed live s0 s
           | Inr x \<Rightarrow> sweep_safe c feed billed live s0 s \<and> sweep_complete c feed billed live s0 s" by blast
      have safe: "sweep_safe c feed billed live s0 s" using post by (cases r) simp_all
      have "is_ok r \<longrightarrow> sweep_complete c feed billed live s0 s" using post by (cases r) (simp_all add: is_ok_def)
      then have "is_ok r \<longrightarrow> billed (wl_net s) \<inter> own_slabs (dv_slabs s0) \<subseteq> me_SlabID ` set entries"
        unfolding sweep_complete_def live(2) by blast
      then have "reclaim_keeps c feed billed entries s0 (is_ok r) s"
        using safe unfolding sweep_safe_def spared_def live reclaim_keeps_def by (elim conjE, intro conjI) assumption+
      moreover have "Vault_Reclaim (Some c) order entries releaseAll s0 = Some (r, s)"
        using run Inr False by (simp add: Vault_Reclaim_def)
      ultimately show ?thesis by blast
    qed
  qed
qed

section \<open>A network\<close>

text \<open>A network that holds given objects: the slabs it bills, and the objects deleted from it.\<close>

type_synonym net = "string set \<times> string set"

definition net_event :: "net \<Rightarrow> SdkObject \<Rightarrow> SdkObject event" where
  "net_event n ob = \<lparr>ev_Key = so_ID ob, ev_UpdatedAt = 0, ev_Deleted = (so_ID ob \<in> snd n), ev_Object = Some ob\<rparr>"

definition net_feed :: "SdkObject list \<Rightarrow> net \<Rightarrow> SdkObject event list" where
  "net_feed objects n = map (net_event n) objects"

definition net_sdk :: "SdkObject list \<Rightarrow> (net, SdkObject) sdk" where
  "net_sdk objects =
     \<lparr>sk_Upload = (\<lambda>ps n. (Inl ''full'', n)), sk_PinSlabs = (\<lambda>ds n. (Inr (), n)), sk_PinObject = (\<lambda>ob n. (Inr (), n)),
      sk_DeleteObject = (\<lambda>r n. (Inr (), (fst n, insert r (snd n)))), sk_ObjectNotFound = ''object not found'',
      sk_parseSlabID = (\<lambda>d. True), sk_SlabNotFound = ''slab not found'',
      sk_UnpinSlab = (\<lambda>d n. (Inr (), (fst n - {d}, snd n))),
      sk_ListObjects = (\<lambda>cur k n. (Inr (take k (after_cursor cur (net_feed objects n))), n)),
      sk_SlabIDs = (\<lambda>a k n. (Inr [], n)), sk_Open = Some,
      sk_Account = (\<lambda>n. (Inr NoAccount, n)), sk_Download = (\<lambda>r n. (Inr [], n)),
      sk_OptimalDataSize = (\<lambda>n. (Inr 40, n)), sk_order = (\<lambda>n k. upt 0 k)\<rparr>"

lemma net_sdk_simps [simp]:
  "sk_Open (net_sdk objects) = Some" "sk_Account (net_sdk objects) n = (Inr NoAccount, n)"
  "sk_DeleteObject (net_sdk objects) r n = (Inr (), (fst n, insert r (snd n)))"
  "sk_parseSlabID (net_sdk objects) d" "sk_UnpinSlab (net_sdk objects) d n = (Inr (), (fst n - {d}, snd n))"
  "sk_order (net_sdk objects) n k = upt 0 k"
  "sk_ListObjects (net_sdk objects) cur k n = (Inr (take k (after_cursor cur (net_feed objects n))), n)"
  by (simp_all add: net_sdk_def)

definition net_find :: "SdkObject list \<Rightarrow> string \<Rightarrow> SdkObject option" where
  "net_find objects k = find (\<lambda>ob. so_ID ob = k) (rev objects)"

lemma net_last: "last_event (net_feed objects n) k = map_option (net_event n) (net_find objects k)"
proof -
  have "find (\<lambda>e. ev_Key e = k) (map (net_event n) obs) = map_option (net_event n) (find (\<lambda>ob. so_ID ob = k) obs)" for obs
    by (induction obs) (simp_all add: net_event_def)
  from this [of "rev objects"] show ?thesis by (simp add: last_event_def net_feed_def net_find_def rev_map)
qed

lemma net_find_ID: "net_find objects k = Some ob \<Longrightarrow> so_ID ob = k"
  by (auto simp: net_find_def find_Some_iff)

lemma net_object:
  "object_slabs (net_sdk objects) (net_feed objects n) k = (if k \<in> snd n then None else map_option so_Slabs (net_find objects k))"
  "listed (net_feed objects n) k \<longleftrightarrow> k \<notin> snd n \<and> net_find objects k \<noteq> None"
  using net_find_ID [of objects k]
  by (cases "net_find objects k"; simp add: object_slabs_def listed_def net_last net_event_def net_sdk_def)+

lemma net_indexer:
  assumes "distinct (map so_ID objects)"
  shows "indexer_ok (net_sdk objects) (net_feed objects) fst"
  unfolding indexer_ok_def
proof (intro conjI allI impI)
  have "distinct (map event_cursor (net_feed objects n))" for n
    using assms by (simp add: net_feed_def comp_def event_cursor_def net_event_def distinct_map inj_on_def)
  then show "pages_of (net_sdk objects) n (net_feed objects n)" for n
    by (simp add: pages_of_def)
qed (auto simp: same_object_def net_object)

definition ref_a :: string where "ref_a = hex_encode (replicate 32 0)"
definition ref_b :: string where "ref_b = hex_encode (replicate 32 1)"

lemma refs [simp]: "ref_a \<noteq> ref_b" "ref_b \<noteq> ref_a" "ParseObjectRef ref_a = Inr ref_a" "ParseObjectRef ref_b = Inr ref_b"
  by (simp_all add: ref_a_def ref_b_def ParseObjectRef_def)

definition entry_a :: Entry where
  "entry_a = \<lparr>me_ID = [1], me_Kind = KindMemory, me_Type = ''fact'', me_Version = 1, me_CID = [], me_ObjectRef = ref_a,
     me_SlabID = ''x'', me_Bytes = 1, me_Tags = [], me_WrittenAt = 0, me_Deleted = False\<rparr>"

text \<open>The first object on given slabs and the second on slab \<open>y\<close>, both slabs pinned by this device.\<close>

definition two_objects :: "string list \<Rightarrow> SdkObject list" where
  "two_objects slabs = [\<lparr>so_ID = ref_a, so_Slabs = slabs, so_Size = 1\<rparr>, \<lparr>so_ID = ref_b, so_Slabs = [''y''], so_Size = 1\<rparr>]"

definition own_row :: "string \<Rightarrow> SlabRow" where
  "own_row i = \<lparr>sr_SlabID = i, sr_PinnedAt = 0, sr_Records = 1, sr_Bytes = 1, sr_Origin = SlabPinned\<rparr>"

definition net_world :: "net world" where
  "net_world =
     \<lparr>mc_plan = (\<lambda>_. NoFault), mc_rand = (\<lambda>_. []), mc_step = 0, dv_clock = (\<lambda>n. int n * 1000000),
      dv_queue = [], dv_slabs = [own_row ''x'', own_row ''y''], dv_bodies = [], dv_record_meta = [], dv_record_tags = [],
      dv_record_lexical = [], dv_session_heads = [], dv_object_cache = [], dv_slab_cache = [], dv_read_stats = [],
      dv_meta = [], wl_net = ({''x'', ''y''}, {}),
      wl_state = \<lparr>qs_Records = 0, qs_Bytes = 0, qs_Oldest = 0, qs_Newest = 0\<rparr>\<rparr>"

lemma two_objects_find:
  "net_find (two_objects slabs) k =
     (if k = ref_b then Some \<lparr>so_ID = ref_b, so_Slabs = [''y''], so_Size = 1\<rparr>
      else if k = ref_a then Some \<lparr>so_ID = ref_a, so_Slabs = slabs, so_Size = 1\<rparr> else None)"
  by (auto simp: net_find_def two_objects_def)

lemma two_objects_indexer: "indexer_ok (net_sdk (two_objects slabs)) (net_feed (two_objects slabs)) fst"
  by (rule net_indexer) (simp add: two_objects_def)

theorem Reclaim_keeps_catalogued_witness:
  "\<exists>r s. Vault_Reclaim (Some (net_sdk (two_objects [''x'']))) id [entry_a] False net_world = Some (r, s) \<and>
     readable (net_sdk (two_objects [''x''])) (net_feed (two_objects [''x''])) fst (wl_net s) ref_a"
proof -
  let ?c = "net_sdk (two_objects [''x''])" and ?feed = "net_feed (two_objects [''x''])"
  have "slabs_ok (dv_slabs net_world)" by (simp add: slabs_ok_def net_world_def own_row_def)
  moreover have "reorders id" by (simp add: reorders_def)
  ultimately obtain r s where "Vault_Reclaim (Some ?c) id [entry_a] False net_world = Some (r, s)"
    and "reclaim_keeps ?c ?feed fst [entry_a] net_world (is_ok r) s"
    using Reclaim_keeps_catalogued [OF two_objects_indexer] by blast
  moreover have "object_slabs ?c (?feed (wl_net net_world)) ref_a = Some [''x'']" "set [''x''] \<subseteq> fst (wl_net net_world)"
    by (simp_all add: net_object two_objects_find) (simp_all add: net_world_def)
  moreover have "ref_a \<in> catalogued_refs [entry_a]" "set [''x''] \<inter> own_slabs (dv_slabs net_world) \<subseteq> me_SlabID ` set [entry_a] - {''''}"
    by (auto simp: catalogued_refs_def entry_a_def)
  ultimately show ?thesis unfolding reclaim_keeps_def by blast
qed

text \<open>
  C24. A catalogued record whose object crosses from slab \<open>x\<close> into slab \<open>y\<close> is lost to a reclaim once
  the last other record on \<open>y\<close> is forgotten: the keep-set names only the first slab of the object,
  so \<open>y\<close> is released under it.
\<close>

theorem reclaim_releases_under_crossing_object:
  "\<exists>r s. Vault_Reclaim (Some (net_sdk (two_objects [''x'', ''y'']))) id [entry_a] False net_world = Some (Inr r, s) \<and>
     readable (net_sdk (two_objects [''x'', ''y''])) (net_feed (two_objects [''x'', ''y''])) fst (wl_net net_world) ref_a \<and>
     \<not> readable (net_sdk (two_objects [''x'', ''y''])) (net_feed (two_objects [''x'', ''y''])) fst (wl_net s) ref_a"
proof -
  let ?c = "net_sdk (two_objects [''x'', ''y''])" and ?feed = "net_feed (two_objects [''x'', ''y''])"
  let ?live = "\<lparr>lv_Objects = {ref_a}, lv_Slabs = {''x''}, lv_Catalogued = 1, lv_ReleaseAll = False\<rparr>"
  have live: "Vault_live [entry_a] False = Inr ?live" by (simp add: Vault_live_def entry_a_def)
  have check: "Live_Check ?live k = None" for k by (simp add: Live_Check_def)
  have objects: "live_objects Some (?feed (wl_net net_world)) =
      [\<lparr>ob_Ref = ref_a, ob_Slab = ''x'', ob_Bytes = 1, ob_UpdatedAt = 0\<rparr>, \<lparr>ob_Ref = ref_b, ob_Slab = ''y'', ob_Bytes = 1, ob_UpdatedAt = 0\<rparr>]"
    by (simp add: live_objects_def live_object_def net_last two_objects_find net_event_def)
      (simp add: net_feed_def two_objects_def firsts_def net_event_def net_world_def event_object_def slabOf_def)
  have plan: "planSweep id ?live (tracked_slabs (dv_slabs net_world)) (live_objects Some (?feed (wl_net net_world))) =
      \<lparr>pn_DeadObjects = [ref_b], pn_ReleasableSlabs = [''y''], pn_HeldSlabs = 0, pn_ForeignObjects = 0\<rparr>"
    unfolding objects
    by (simp add: planSweep_def plan_start_def tracked_slabs_def net_world_def own_row_def row_slab_def Slab_Releasable_def
        Releasable_def SliceStable_def)
  obtain stats where walk: "WalkObjectsStats ?c (wl_net net_world) = Some (Inr (live_objects Some (?feed (wl_net net_world)), stats), wl_net net_world)"
  proof -
    have "pages_of ?c (wl_net net_world) (?feed (wl_net net_world))"
      using two_objects_indexer [of "[''x'', ''y'']"] unfolding indexer_ok_def by blast
    from walk_lists [OF this] that show ?thesis by auto
  qed
  have net: "mc_plan net_world = (\<lambda>_. NoFault)" "wl_net net_world = ({''x'', ''y''}, {})" by (simp_all add: net_world_def)
  have before: "Reclaimer_Sweep ?c id ?live net_world =
      sweep_act ?c \<lparr>pn_DeadObjects = [ref_b], pn_ReleasableSlabs = [''y''], pn_HeldSlabs = 0, pn_ForeignObjects = 0\<rparr> NoAccount
        (live_objects Some (?feed (wl_net net_world))) stats (net_world\<lparr>mc_step := mc_step net_world + 1\<rparr>)"
    using walk unfolding plan [symmetric]
    by (simp add: Reclaimer_Sweep_def bind_pio_def Tracked_def ledger_op_def across_def run_pio_def wrap_io_def TrackedSlabs_def
        local_defs net(1) check walk_op_def net_io_def Client_Account_def)
  obtain rep s where run: "Reclaimer_Sweep ?c id ?live net_world = Some (Inr rep, s)" and after: "wl_net s = ({''x''}, {ref_b})"
    unfolding before sweep_act_def
    by (simp add: bind_pio_def ledger_op_def across_def run_pio_def wrap_io_def ret_pio_def local_defs net net_io_def
        Client_DeleteObjects_def inFlight_def Client_DeleteObject_def Unpin_def Client_UnpinSlab_def ForgetSlab_def
        ForgetSlabMeta_def Client_Account_def) auto
  have "Vault_Reclaim (Some ?c) id [entry_a] False net_world = Some (Inr rep, s)"
    using run live by (simp add: Vault_Reclaim_def vault_run_def Pending_def) (simp add: net_world_def)
  moreover have "readable ?c ?feed fst (wl_net net_world) ref_a" by (simp add: readable_def net_object two_objects_find net)
  moreover have "\<not> readable ?c ?feed fst (wl_net s) ref_a" by (simp add: readable_def net_object two_objects_find after)
  ultimately show ?thesis by blast
qed

end
