(* ===== verification/Local_Ranking.thy ===== *)
theory Local_Ranking
  imports Local_Store
begin

text \<open>
  What ranking knows of a record before it is fetched (\<open>local/ranking.go\<close>, \<open>local/describe.go\<close>) and
  the terms of the lexical index (\<open>local/lexical.go\<close>).

  \<open>strings.ToLower\<close> of a string outside ASCII is the argument \<open>u\<close>, and \<open>uw\<close> says which runes of two
  or more bytes are letters or digits: both are Unicode tables. The full-text match itself, FTS5
  with its BM25 order, is the argument of the search.
\<close>

section \<open>Terms\<close>

text \<open>The number of bytes of the rune a string begins with; an invalid byte is a rune of one byte.\<close>

definition is_cont :: "char \<Rightarrow> bool" where
  "is_cont c \<longleftrightarrow> 128 \<le> (of_char c :: nat) \<and> (of_char c :: nat) < 192"

definition second_ok :: "nat \<Rightarrow> nat \<Rightarrow> bool" where
  "second_ok n m \<longleftrightarrow>
     (if n = 224 then 160 \<le> m else if n = 237 then m < 160 else if n = 240 then 144 \<le> m else if n = 244 then m < 144 else True)"

definition lead_width :: "nat \<Rightarrow> nat" where
  "lead_width n = (if n < 194 then 1 else if n < 224 then 2 else if n < 240 then 3 else if n < 245 then 4 else 1)"

definition rune_width :: "string \<Rightarrow> nat" where
  "rune_width s =
     (case s of
        [] \<Rightarrow> 0
      | c # cs \<Rightarrow>
          let n = (of_char c :: nat); w = lead_width n
          in if length cs < w - 1 \<or> \<not> list_all is_cont (take (w - 1) cs)
                \<or> (1 < w \<and> \<not> second_ok n (of_char (hd cs))) then 1 else w)"

definition word_rune :: "(string \<Rightarrow> bool) \<Rightarrow> string \<Rightarrow> bool" where
  "word_rune uw r =
     (case r of
        [c] \<Rightarrow> let n = (of_char c :: nat) in (48 \<le> n \<and> n \<le> 57) \<or> (65 \<le> n \<and> n \<le> 90) \<or> (97 \<le> n \<and> n \<le> 122)
      | _ \<Rightarrow> uw r)"

lemma rune_width_pos: "s \<noteq> [] \<Longrightarrow> 0 < rune_width s"
  by (cases s) (auto simp: rune_width_def lead_width_def Let_def)

text \<open>\<open>strings.FieldsFunc\<close>: the maximal runs of word runes.\<close>

function fields_loop :: "(string \<Rightarrow> bool) \<Rightarrow> string \<Rightarrow> string \<Rightarrow> string list" where
  "fields_loop uw cur s =
     (if s = [] then (if cur = [] then [] else [cur])
      else
        let r = take (rune_width s) s; rest = drop (rune_width s) s in
        if word_rune uw r then fields_loop uw (cur @ r) rest
        else if cur = [] then fields_loop uw [] rest
        else cur # fields_loop uw [] rest)"
  by pat_completeness auto
termination
proof (relation "measure (\<lambda>(uw, cur, s). length s)", goal_cases)
  case 1
  show ?case by simp
qed (auto simp: rune_width_pos)

declare fields_loop.simps [simp del]

definition stopwords :: "string list" where
  "stopwords =
     [''the'', ''and'', ''for'', ''are'', ''but'', ''not'',
      ''you'', ''all'', ''can'', ''her'', ''was'', ''one'',
      ''our'', ''out'', ''his'', ''has'', ''had'', ''how'',
      ''its'', ''who'', ''did'', ''yes'', ''that'', ''this'',
      ''with'', ''from'', ''they'', ''have'', ''were'', ''been'',
      ''what'', ''when'', ''will'', ''would'', ''there'', ''their'',
      ''which'', ''about'', ''into'', ''than'', ''them'', ''then'',
      ''does'', ''doing'', ''just'', ''some'', ''such'', ''only'',
      ''very'', ''also'', ''any'', ''get'', ''got'', ''let'',
      ''say'', ''she'', ''him'', ''why'', ''use'', ''used'']"

definition analyze :: "(string \<Rightarrow> string) \<Rightarrow> (string \<Rightarrow> bool) \<Rightarrow> string \<Rightarrow> string list" where
  "analyze u uw txt =
     filter (\<lambda>field. \<not> (length field < 2 \<or> field \<in> set stopwords)) (fields_loop uw [] (ToLower u txt))"

definition Terms :: "(string \<Rightarrow> string) \<Rightarrow> (string \<Rightarrow> bool) \<Rightarrow> string \<Rightarrow> string list" where
  "Terms u uw txt = analyze u uw txt"

definition LexicalText :: "Memory \<Rightarrow> string" where
  "LexicalText m =
     (let parts0 = [mem_Statement m];
          parts1 = (if mem_Context m \<noteq> [] then parts0 @ [mem_Context m] else parts0);
          parts2 = (if length (mem_Keywords m) > 0 then parts1 @ [Join '' '' (mem_Keywords m)] else parts1);
          parts3 = (if length (mem_Tags m) > 0 then parts2 @ [Join '' '' (mem_Tags m)] else parts2)
      in Join [CHR 0x0A] parts3)"

section \<open>Tags\<close>

definition NormalizeTag :: "(string \<Rightarrow> string) \<Rightarrow> string \<Rightarrow> string" where
  "NormalizeTag u tag = ToLower u (TrimSpace tag)"

fun normalize_loop :: "(string \<Rightarrow> string) \<Rightarrow> string list \<Rightarrow> string list \<Rightarrow> string list" where
  "normalize_loop u [] out = out"
| "normalize_loop u (tag # tags) out =
     (let clean = NormalizeTag u tag in
      if clean = '''' \<or> clean \<in> set out then normalize_loop u tags out else normalize_loop u tags (out @ [clean]))"

definition NormalizeTags :: "(string \<Rightarrow> string) \<Rightarrow> string list \<Rightarrow> string list" where
  "NormalizeTags u tags = normalize_loop u tags []"

lemma firsts_drop_dup: "x \<in> set ks \<Longrightarrow> firsts (ks @ x # zs) = firsts (ks @ zs)"
proof (induction zs rule: rev_induct)
  case Nil
  then show ?case by (simp add: firsts_snoc)
next
  case (snoc z zs)
  have "firsts (ks @ x # zs @ [z]) = firsts ((ks @ x # zs) @ [z])" by simp
  also have "\<dots> = firsts ((ks @ zs) @ [z])" using snoc by (simp only: firsts_snoc) auto
  finally show ?case by simp
qed

lemma normalize_loop_firsts:
  "normalize_loop u tags (firsts ks) = firsts (ks @ filter (\<lambda>t. t \<noteq> '''') (map (NormalizeTag u) tags))"
proof (induction tags arbitrary: ks)
  case Nil
  show ?case by simp
next
  case (Cons t tags)
  let ?c = "NormalizeTag u t" and ?r = "filter (\<lambda>t. t \<noteq> '''') (map (NormalizeTag u) tags)"
  consider "?c = ''''" | "?c \<noteq> ''''" "?c \<in> set ks" | "?c \<noteq> ''''" "?c \<notin> set ks" by blast
  then show ?case
  proof cases
    case 1
    then show ?thesis using Cons.IH [of ks] by simp
  next
    case 2
    then show ?thesis using Cons.IH [of ks] by (simp add: firsts_drop_dup)
  next
    case 3
    then have "firsts (ks @ [?c]) = firsts ks @ [?c]" by (simp add: firsts_snoc)
    then show ?thesis using 3 Cons.IH [of "ks @ [?c]"] by simp
  qed
qed

lemma NormalizeTags_spec:
  "NormalizeTags u tags = firsts (filter (\<lambda>t. t \<noteq> '''') (map (NormalizeTag u) tags))"
  using normalize_loop_firsts [of u tags "[]"] by (simp add: NormalizeTags_def)

section \<open>The tables\<close>

record RankingMeta =
  rm_ID :: ID
  rm_Kind :: Kind
  rm_Type :: RecType
  rm_Tags :: "string list"
  rm_Supersedes :: "ID option"
  rm_Text :: string

definition put_lexical :: "(string \<Rightarrow> string) \<Rightarrow> (string \<Rightarrow> bool) \<Rightarrow> ID \<Rightarrow> string \<Rightarrow> (ID \<times> string) list \<Rightarrow> (ID \<times> string) list" where
  "put_lexical u uw i txt rows =
     (let terms = analyze u uw txt; cleared = filter (\<lambda>r. fst r \<noteq> i) rows in
      if terms = [] then cleared else cleared @ [(i, Join '' '' terms)])"

definition put_tags :: "(string \<Rightarrow> string) \<Rightarrow> ID \<Rightarrow> string list \<Rightarrow> (ID \<times> string) list \<Rightarrow> (ID \<times> string) list" where
  "put_tags u i tags rows = filter (\<lambda>r. fst r \<noteq> i) rows @ map (Pair i) (NormalizeTags u tags)"

definition put_meta :: "RankingMeta \<Rightarrow> int \<Rightarrow> MetaRow list \<Rightarrow> MetaRow list" where
  "put_meta meta now =
     (let kind = (if rm_Kind meta = '''' then KindMemory else rm_Kind meta) in
      sql_upsert mr_ID
        \<lparr>mr_ID = rm_ID meta, mr_Kind = kind, mr_Type = rm_Type meta, mr_Supersedes = rm_Supersedes meta, mr_CreatedAt = now\<rparr>
        (\<lambda>r. r\<lparr>mr_Kind := kind, mr_Type := rm_Type meta, mr_Supersedes := rm_Supersedes meta\<rparr>))"

text \<open>One transaction.\<close>

definition PutRankingMeta :: "(string \<Rightarrow> string) \<Rightarrow> (string \<Rightarrow> bool) \<Rightarrow> RankingMeta \<Rightarrow> ('z, unit) local_op" where
  "PutRankingMeta u uw meta =
     bind_io record_Now (\<lambda>now.
     sql_exec (\<lambda>s. s\<lparr>dv_record_meta := put_meta meta now (dv_record_meta s),
       dv_record_tags := put_tags u (rm_ID meta) (rm_Tags meta) (dv_record_tags s),
       dv_record_lexical := put_lexical u uw (rm_ID meta) (rm_Text meta) (dv_record_lexical s)\<rparr>))"

definition ForgetRankingMeta :: "ID \<Rightarrow> ('z, unit) local_op" where
  "ForgetRankingMeta i =
     sql_exec (\<lambda>s. s\<lparr>dv_record_tags := filter (\<lambda>r. fst r \<noteq> i) (dv_record_tags s),
       dv_record_meta := filter (\<lambda>r. mr_ID r \<noteq> i) (dv_record_meta s),
       dv_record_lexical := filter (\<lambda>r. fst r \<noteq> i) (dv_record_lexical s)\<rparr>)"

text \<open>\<open>ORDER BY tag\<close>, of one record.\<close>

definition tags_of :: "(ID \<times> string) list \<Rightarrow> ID \<Rightarrow> string list" where
  "tags_of rows i = SliceStable string_less (map snd (filter (\<lambda>r. fst r = i) rows))"

definition row_meta :: "MetaRow \<Rightarrow> RankingMeta" where
  "row_meta r = \<lparr>rm_ID = mr_ID r, rm_Kind = mr_Kind r, rm_Type = mr_Type r, rm_Tags = [], rm_Supersedes = mr_Supersedes r, rm_Text = ''''\<rparr>"

definition RankingMetaAll :: "('z, RankingMeta list) local_op" where
  "RankingMetaAll =
     bind_io (sql_query dv_record_meta) (\<lambda>rows.
     bind_io (sql_query dv_record_tags) (\<lambda>tags.
     ret_io (map (\<lambda>r. (row_meta r)\<lparr>rm_Tags := tags_of tags (mr_ID r)\<rparr>) rows)))"

definition RankingMetaFor :: "ID \<Rightarrow> ('z, RankingMeta) local_op" where
  "RankingMetaFor i =
     bind_io (sql_query (\<lambda>s. sql_row mr_ID i (dv_record_meta s))) (\<lambda>r.
     case r of
       None \<Rightarrow> fail_io ErrNotFound
     | Some row \<Rightarrow>
         bind_io (sql_query (\<lambda>s. tags_of (dv_record_tags s) i)) (\<lambda>tags.
         ret_io ((row_meta row)\<lparr>rm_Tags := tags\<rparr>)))"

definition RankingMetaIDs :: "Kind \<Rightarrow> ('z, ID list) local_op" where
  "RankingMetaIDs kind = sql_query (\<lambda>s. map mr_ID (filter (\<lambda>r. mr_Kind r = kind) (dv_record_meta s)))"

definition CountRecordMeta :: "('z, nat) local_op" where
  "CountRecordMeta = sql_query (\<lambda>s. length (dv_record_meta s))"

definition CountLexical :: "('z, nat) local_op" where
  "CountLexical = sql_query (\<lambda>s. length (dv_record_lexical s))"

section \<open>Frequencies\<close>

record TagCount =
  tc_Tag :: string
  tc_Records :: nat

definition tag_records :: "ID \<Rightarrow> (ID \<times> string) list \<Rightarrow> string \<Rightarrow> nat" where
  "tag_records self rows tag = length (filter (\<lambda>r. snd r = tag \<and> fst r \<noteq> self) rows)"

definition TagFrequencies :: "(string \<Rightarrow> string) \<Rightarrow> ID \<Rightarrow> string list \<Rightarrow> ('z, TagCount list \<times> nat) local_op" where
  "TagFrequencies u self tags =
     bind_io (sql_query (\<lambda>s. length (filter (\<lambda>r. mr_ID r \<noteq> self) (dv_record_meta s)))) (\<lambda>total.
     let clean = NormalizeTags u tags in
     if clean = [] then ret_io ([], total)
     else bind_io (sql_query (\<lambda>s. dv_record_tags s)) (\<lambda>rows.
       ret_io (map (\<lambda>tag. \<lparr>tc_Tag = tag, tc_Records = tag_records self rows tag\<rparr>) clean, total)))"

definition vocabulary_before :: "TagCount \<Rightarrow> TagCount \<Rightarrow> bool" where
  "vocabulary_before a b \<longleftrightarrow> tc_Records a > tc_Records b \<or> (tc_Records a = tc_Records b \<and> string_less (tc_Tag a) (tc_Tag b))"

definition VocabularyTags :: "int \<Rightarrow> ('z, TagCount list) local_op" where
  "VocabularyTags limit0 =
     (let limit = (if limit0 \<le> 0 then 64 else nat limit0) in
      sql_query (\<lambda>s. take limit (SliceStable vocabulary_before
        (map (\<lambda>tag. \<lparr>tc_Tag = tag, tc_Records = length (filter (\<lambda>r. snd r = tag) (dv_record_tags s))\<rparr>)
          (firsts (map snd (dv_record_tags s)))))))"

section \<open>Describing candidates\<close>

record local_Described =
  ld_Meta :: "ID \<rightharpoonup> RankingMeta"
  ld_Superseded :: "ID set"

definition describe_rows :: "ID list \<Rightarrow> MetaRow list \<Rightarrow> (ID \<times> string) list \<Rightarrow> local_Described" where
  "describe_rows ids metas tags =
     \<lparr>ld_Meta = (\<lambda>i. if i \<in> set ids then
          map_option (\<lambda>r. (row_meta r)\<lparr>rm_Tags := tags_of tags i, rm_Supersedes := None\<rparr>) (sql_row mr_ID i metas) else None),
      ld_Superseded = {i \<in> set ids. Some i \<in> mr_Supersedes ` set metas}\<rparr>"

definition Store_Describe :: "ID list \<Rightarrow> ('z, local_Described) local_op" where
  "Store_Describe ids =
     (if ids = [] then ret_io \<lparr>ld_Meta = Map.empty, ld_Superseded = {}\<rparr>
      else
        bind_io (sql_query dv_record_meta) (\<lambda>metas.
        bind_io (sql_query dv_record_tags) (\<lambda>tags.
        bind_io (sql_query dv_record_meta) (\<lambda>edges.
        ret_io \<lparr>ld_Meta = ld_Meta (describe_rows ids metas tags), ld_Superseded = ld_Superseded (describe_rows ids edges tags)\<rparr>))))"

section \<open>Searching by terms\<close>

definition quoted :: "string \<Rightarrow> string" where
  "quoted term = [CHR 34] @ term @ [CHR 34]"

definition match_query :: "string list \<Rightarrow> string" where
  "match_query terms = Join '' OR '' (map quoted terms)"

text \<open>\<open>fts\<close> is the match of a query against the rows, best first.\<close>

definition SearchLexical ::
  "(string \<Rightarrow> string) \<Rightarrow> (string \<Rightarrow> bool) \<Rightarrow> (string \<Rightarrow> (ID \<times> string) list \<Rightarrow> ID list) \<Rightarrow> string \<Rightarrow> int \<Rightarrow> ('z, ID list) local_op" where
  "SearchLexical u uw fts query k =
     (if k \<le> 0 then ret_io []
      else
        let terms = analyze u uw query in
        if terms = [] then ret_io []
        else sql_query (\<lambda>s. take (nat k) (fts (match_query terms) (dv_record_lexical s))))"

section \<open>What the terms are\<close>

text \<open>A word is a run of word runes, each of which decodes to itself.\<close>

definition word_string :: "(string \<Rightarrow> bool) \<Rightarrow> string \<Rightarrow> bool" where
  "word_string uw t \<longleftrightarrow> (\<exists>rs. t = concat rs \<and> (\<forall>r \<in> set rs. r \<noteq> [] \<and> rune_width r = length r \<and> word_rune uw r))"

lemma rune_width_le: "rune_width s \<le> length s"
  by (cases s) (auto simp: rune_width_def Let_def Suc_le_eq)

lemma take_rune_width: "s \<noteq> [] \<Longrightarrow> rune_width (take (rune_width s) s) = length (take (rune_width s) s)"
proof -
  assume "s \<noteq> []"
  then obtain c cs where s: "s = c # cs" by (cases s) auto
  show ?thesis
  proof (cases "rune_width s = 1")
    case True
    have "0 < lead_width (of_char c)" by (simp add: lead_width_def)
    then have "rune_width [c] = 1" by (auto simp: rune_width_def Let_def)
    moreover have "take (rune_width s) s = [c]" by (simp only: True) (simp add: s)
    ultimately show ?thesis by simp
  next
    case False
    let ?w = "lead_width (of_char c)"
    have w: "rune_width s = ?w" "?w \<noteq> 1" "?w - 1 \<le> length cs" "list_all is_cont (take (?w - 1) cs)"
      "1 < ?w \<longrightarrow> second_ok (of_char c) (of_char (hd cs))"
      using False by (simp_all add: s rune_width_def Let_def split: if_splits)
    have "?w \<noteq> 0" by (simp add: lead_width_def)
    then have gt: "1 < ?w" "0 < ?w - 1" using w(2) by simp_all
    have t: "take ?w s = c # take (?w - 1) cs" using gt(1) by (simp add: s take_Cons')
    have "hd (take (?w - 1) cs) = hd cs" using gt(2) by (simp add: hd_take)
    then show ?thesis using w gt unfolding w(1) t by (simp add: rune_width_def Let_def)
  qed
qed

lemma rune_width_append:
  assumes "r \<noteq> []" "rune_width r = length r" "word_rune uw r"
  shows "rune_width (r @ x) = length r"
proof -
  obtain c cs where r: "r = c # cs" using assms(1) by (cases r) auto
  show ?thesis
  proof (cases cs)
    case Nil
    then have "(of_char c :: nat) < 128" using assms(3) by (auto simp: r word_rune_def Let_def)
    then show ?thesis by (simp add: r Nil rune_width_def lead_width_def Let_def)
  next
    case (Cons d ds)
    then show ?thesis using assms(2) by (auto simp: r rune_width_def Let_def split: if_splits)
  qed
qed

lemma word_string_Nil [simp]: "word_string uw []"
  unfolding word_string_def by (rule exI [of _ "[]"]) simp

lemma word_string_snoc:
  assumes "word_string uw t" "s \<noteq> []" "word_rune uw (take (rune_width s) s)"
  shows "word_string uw (t @ take (rune_width s) s)"
proof -
  obtain rs where "t = concat rs" "\<forall>r \<in> set rs. r \<noteq> [] \<and> rune_width r = length r \<and> word_rune uw r"
    using assms(1) by (auto simp: word_string_def)
  moreover have "take (rune_width s) s \<noteq> []" using rune_width_pos [OF assms(2)] assms(2) by auto
  ultimately show ?thesis unfolding word_string_def
    by (intro exI [of _ "rs @ [take (rune_width s) s]"]) (simp add: take_rune_width [OF assms(2)] assms(3))
qed

lemma fields_loop_words:
  "word_string uw cur \<Longrightarrow> t \<in> set (fields_loop uw cur s) \<Longrightarrow> t \<noteq> [] \<and> word_string uw t"
proof (induction uw cur s rule: fields_loop.induct)
  case (1 uw cur s)
  let ?r = "take (rune_width s) s" and ?rest = "drop (rune_width s) s"
  consider "s = []" | "s \<noteq> []" "word_rune uw ?r" | "s \<noteq> []" "\<not> word_rune uw ?r" "cur = []" | "s \<noteq> []" "\<not> word_rune uw ?r" "cur \<noteq> []"
    by blast
  then show ?case
  proof cases
    case 1
    then show ?thesis using "1.prems" by (auto simp: fields_loop.simps [of uw cur "[]"] split: if_splits)
  next
    case 2
    have "t \<in> set (fields_loop uw (cur @ ?r) ?rest)" using "1.prems"(2) 2 by (simp add: fields_loop.simps [of uw cur s] Let_def)
    with "1.IH"(1) [OF 2(1) refl refl 2(2)] word_string_snoc [OF "1.prems"(1) 2] show ?thesis by blast
  next
    case 3
    have "t \<in> set (fields_loop uw [] ?rest)" using "1.prems"(2) 3 by (simp add: fields_loop.simps [of uw "[]" s] Let_def)
    with "1.IH"(2) [OF 3(1) refl refl 3(2,3)] show ?thesis by simp
  next
    case 4
    then have "t = cur \<or> t \<in> set (fields_loop uw [] ?rest)" using "1.prems"(2) by (simp add: fields_loop.simps [of uw cur s] Let_def)
    with "1.IH"(3) [OF 4(1) refl refl 4(2,3)] 4(3) "1.prems"(1) show ?thesis by auto
  qed
qed

text \<open>Words joined by a space are split into the same words.\<close>

lemma fields_loop_run:
  assumes "\<forall>r \<in> set rs. r \<noteq> [] \<and> rune_width r = length r \<and> word_rune uw r"
  shows "fields_loop uw cur (concat rs @ x) = fields_loop uw (cur @ concat rs) x"
  using assms
proof (induction rs arbitrary: cur)
  case (Cons r rs)
  have r: "r \<noteq> []" "rune_width r = length r" "word_rune uw r" using Cons.prems by auto
  have "rune_width (r @ concat rs @ x) = length r" using rune_width_append [OF r] .
  then have "fields_loop uw cur (r @ concat rs @ x) = fields_loop uw (cur @ r) (concat rs @ x)"
    using r by (simp add: fields_loop.simps [of uw cur "r @ concat rs @ x"] Let_def)
  then show ?case using Cons by simp
qed simp

lemma fields_loop_space: "cur \<noteq> [] \<Longrightarrow> fields_loop uw cur (CHR 32 # x) = cur # fields_loop uw [] x"
  by (subst fields_loop.simps) (simp add: rune_width_def lead_width_def word_rune_def Let_def)

lemma fields_loop_Join:
  assumes "\<forall>t \<in> set ts. t \<noteq> [] \<and> word_string uw t"
  shows "fields_loop uw [] (Join '' '' ts) = ts"
  using assms
proof (induction "'' ''" ts rule: Join.induct)
  case 1
  show ?case by (simp add: fields_loop.simps)
next
  case (2 x)
  then obtain rs where rs: "x = concat rs" "\<forall>r \<in> set rs. r \<noteq> [] \<and> rune_width r = length r \<and> word_rune uw r"
    by (auto simp: word_string_def)
  show ?case using fields_loop_run [OF rs(2), of "[]" "[]"] 2 by (simp add: rs(1) fields_loop.simps [of uw "concat rs" "[]"])
next
  case (3 x y ys)
  then obtain rs where rs: "x = concat rs" "\<forall>r \<in> set rs. r \<noteq> [] \<and> rune_width r = length r \<and> word_rune uw r"
    by (auto simp: word_string_def)
  have "fields_loop uw [] (x @ CHR 32 # Join '' '' (y # ys)) = fields_loop uw x (CHR 32 # Join '' '' (y # ys))"
    using fields_loop_run [OF rs(2), of "[]"] rs(1) by simp
  then show ?case using 3 by (simp add: fields_loop_space)
qed

lemma word_rune_no_quote: "rune_width r = length r \<Longrightarrow> word_rune uw r \<Longrightarrow> CHR 34 \<notin> set r"
proof -
  assume a: "rune_width r = length r" "word_rune uw r"
  show ?thesis
  proof (cases r)
    case (Cons c cs)
    show ?thesis
    proof (cases cs)
      case Nil
      then show ?thesis using a(2) by (auto simp: Cons word_rune_def Let_def)
    next
      case (Cons d ds)
      have "194 \<le> (of_char c :: nat)" "list_all is_cont cs"
        using a(1) by (auto simp: \<open>r = c # cs\<close> Cons rune_width_def lead_width_def Let_def split: if_splits)
      moreover have "\<not> is_cont (CHR 34)" by (simp add: is_cont_def)
      ultimately show ?thesis by (auto simp: \<open>r = c # cs\<close> list_all_iff)
    qed
  qed simp
qed

lemma word_string_no_quote: "word_string uw t \<Longrightarrow> CHR 34 \<notin> set t"
  using word_rune_no_quote by (fastforce simp: word_string_def)

text \<open>
  How FTS5 reads a query of string literals joined by \<open>OR\<close>: a literal ends at a quote that is not
  doubled.
\<close>

fun read_literal :: "string \<Rightarrow> string \<Rightarrow> (string \<times> string) option" where
  "read_literal acc [] = None"
| "read_literal acc (c # s) =
     (if c \<noteq> CHR 34 then read_literal (acc @ [c]) s
      else if s \<noteq> [] \<and> hd s = CHR 34 then read_literal (acc @ [c]) (tl s)
      else Some (acc, s))"

fun read_match :: "nat \<Rightarrow> string \<Rightarrow> string list option" where
  "read_match 0 s = None"
| "read_match (Suc n) s =
     (if s = [] \<or> hd s \<noteq> CHR 34 then None
      else case read_literal [] (tl s) of
        None \<Rightarrow> None
      | Some (t, rest) \<Rightarrow>
          if rest = [] then Some [t]
          else if take 4 rest = '' OR '' then map_option ((#) t) (read_match n (drop 4 rest))
          else None)"

lemma read_literal_quoted:
  "CHR 34 \<notin> set t \<Longrightarrow> (rest = [] \<or> hd rest \<noteq> CHR 34) \<Longrightarrow> read_literal acc (t @ CHR 34 # rest) = Some (acc @ t, rest)"
  by (induction t arbitrary: acc) auto

lemma read_match_query:
  "ts \<noteq> [] \<Longrightarrow> \<forall>t \<in> set ts. CHR 34 \<notin> set t \<Longrightarrow> length ts \<le> n \<Longrightarrow> read_match n (match_query ts) = Some ts"
proof (induction n arbitrary: ts)
  case (Suc n)
  obtain t us where ts: "ts = t # us" using Suc.prems(1) by (cases ts) auto
  have t: "CHR 34 \<notin> set t" using Suc.prems(2) ts by simp
  show ?case
  proof (cases us)
    case Nil
    then show ?thesis using read_literal_quoted [OF t, of "[]" "[]"] by (simp add: ts match_query_def quoted_def)
  next
    case (Cons v vs)
    have "match_query ts = CHR 34 # t @ CHR 34 # '' OR '' @ match_query us"
      by (simp add: ts Cons match_query_def quoted_def)
    moreover have "read_match n (match_query us) = Some us" using Suc Cons ts by simp
    ultimately show ?thesis using read_literal_quoted [OF t, of "'' OR '' @ match_query us" "[]"] by (simp add: ts)
  qed
qed simp

lemma analyze_words:
  "t \<in> set (analyze u uw txt) \<Longrightarrow> t \<noteq> [] \<and> word_string uw t \<and> 2 \<le> length t \<and> t \<notin> set stopwords"
  using fields_loop_words [of uw "[]" t] by (auto simp: analyze_def)

lemma lexical_words: "fields_loop uw [] (Join '' '' (analyze u uw txt)) = analyze u uw txt"
  by (rule fields_loop_Join) (use analyze_words in blast)

text \<open>
  The terms of the lexical index are safe to store and to search with. For any text and any
  Unicode tables, every analysed term is a word of at least two bytes that is no stopword and
  carries no quote; the terms joined by spaces, which is the form stored, split into the same
  terms again; and the query a search builds from them reads as a disjunction of exactly those
  terms, so no query word can act as an operator or close its literal early.
\<close>

theorem lexical_terms_safe:
  fixes u :: "string \<Rightarrow> string"
  shows "(\<forall>t \<in> set (analyze u uw txt). 2 \<le> length t \<and> t \<notin> set stopwords \<and> CHR 34 \<notin> set t)
    \<and> fields_loop uw [] (Join '' '' (analyze u uw txt)) = analyze u uw txt
    \<and> (analyze u uw txt \<noteq> [] \<longrightarrow>
        read_match (length (analyze u uw txt)) (match_query (analyze u uw txt)) = Some (analyze u uw txt))"
proof (intro conjI ballI impI)
  show "fields_loop uw [] (Join '' '' (analyze u uw txt)) = analyze u uw txt"
    by (rule lexical_words)
  show "read_match (length (analyze u uw txt)) (match_query (analyze u uw txt)) = Some (analyze u uw txt)"
    if "analyze u uw txt \<noteq> []"
    by (rule read_match_query [OF that]) (use analyze_words word_string_no_quote in blast, simp)
qed (use analyze_words word_string_no_quote in blast)+

lemma lexical_terms_safe_witness:
  "analyze id (\<lambda>_. False) ''Say OR NEAR the Sia'' = [''or'', ''near'', ''sia''] \<and>
   read_match 3 (match_query [''or'', ''near'', ''sia'']) = Some [''or'', ''near'', ''sia'']"
proof -
  have a: "analyze id (\<lambda>_. False) ''Say OR NEAR the Sia'' = [''or'', ''near'', ''sia'']"
    by code_simp
  show ?thesis using lexical_terms_safe [of id "\<lambda>_. False" "''Say OR NEAR the Sia''"] unfolding a by (simp del: read_match.simps add: eval_nat_numeral)
qed

section \<open>What the tables say of a record\<close>

definition ranking_view :: "'z device_scheme \<Rightarrow> ID \<rightharpoonup> RankingMeta" where
  "ranking_view s i =
     map_option (\<lambda>r. (row_meta r)\<lparr>rm_Tags := tags_of (dv_record_tags s) i\<rparr>) (sql_row mr_ID i (dv_record_meta s))"

definition stored_meta :: "(string \<Rightarrow> string) \<Rightarrow> RankingMeta \<Rightarrow> RankingMeta" where
  "stored_meta u m = m\<lparr>rm_Kind := (if rm_Kind m = '''' then KindMemory else rm_Kind m),
     rm_Tags := SliceStable string_less (NormalizeTags u (rm_Tags m)), rm_Text := ''''\<rparr>"

definition lexical_row :: "(string \<Rightarrow> bool) \<Rightarrow> ID \<times> string \<Rightarrow> bool" where
  "lexical_row uw r \<longleftrightarrow>
     (let terms = fields_loop uw [] (snd r) in
      terms \<noteq> [] \<and> Join '' '' terms = snd r \<and> list_all (\<lambda>t. 2 \<le> length t \<and> t \<notin> set stopwords) terms)"

definition ranking_wf :: "(string \<Rightarrow> bool) \<Rightarrow> 'z device_scheme \<Rightarrow> bool" where
  "ranking_wf uw s \<longleftrightarrow>
     distinct (map mr_ID (dv_record_meta s)) \<and>
     distinct (dv_record_tags s) \<and> list_all (\<lambda>r. snd r \<noteq> '''') (dv_record_tags s) \<and>
     distinct (map fst (dv_record_lexical s)) \<and> list_all (lexical_row uw) (dv_record_lexical s)"

lemma NormalizeTags_clean: "distinct (NormalizeTags u tags)" "t \<in> set (NormalizeTags u tags) \<Longrightarrow> t \<noteq> ''''"
  by (auto simp: NormalizeTags_spec)

lemma lexical_row_terms: "analyze u uw txt \<noteq> [] \<Longrightarrow> lexical_row uw (i, Join '' '' (analyze u uw txt))"
  using lexical_words [of uw u "txt"] analyze_words [of _ u uw "txt"] by (auto simp: lexical_row_def list_all_iff)

lemma ranking_wf_put:
  assumes "ranking_wf uw s"
  shows "ranking_wf uw (s\<lparr>dv_record_meta := put_meta meta now (dv_record_meta s),
       dv_record_tags := put_tags u (rm_ID meta) (rm_Tags meta) (dv_record_tags s),
       dv_record_lexical := put_lexical u uw (rm_ID meta) (rm_Text meta) (dv_record_lexical s)\<rparr>)"
proof -
  have "distinct (map mr_ID (put_meta meta now (dv_record_meta s)))"
    using assms unfolding put_meta_def Let_def ranking_wf_def by (intro sql_upsert_distinct) simp_all
  moreover have "distinct (put_tags u (rm_ID meta) (rm_Tags meta) (dv_record_tags s))"
    using assms NormalizeTags_clean(1) [of u "rm_Tags meta"]
    by (auto simp: put_tags_def ranking_wf_def distinct_map inj_on_def)
  moreover have "list_all (\<lambda>r. snd r \<noteq> '''') (put_tags u (rm_ID meta) (rm_Tags meta) (dv_record_tags s))"
    using assms NormalizeTags_clean(2) by (auto simp: put_tags_def ranking_wf_def list_all_iff)
  moreover have "distinct (map fst (put_lexical u uw (rm_ID meta) (rm_Text meta) (dv_record_lexical s)))"
    using assms by (auto simp: put_lexical_def Let_def ranking_wf_def distinct_map_filter)
  moreover have "list_all (lexical_row uw) (put_lexical u uw (rm_ID meta) (rm_Text meta) (dv_record_lexical s))"
    using assms lexical_row_terms by (auto simp: put_lexical_def Let_def ranking_wf_def list_all_iff)
  ultimately show ?thesis by (simp add: ranking_wf_def)
qed

lemma ranking_wf_forget:
  "ranking_wf uw s \<Longrightarrow>
   ranking_wf uw (s\<lparr>dv_record_tags := filter (\<lambda>r. fst r \<noteq> i) (dv_record_tags s),
       dv_record_meta := filter (\<lambda>r. mr_ID r \<noteq> i) (dv_record_meta s),
       dv_record_lexical := filter (\<lambda>r. fst r \<noteq> i) (dv_record_lexical s)\<rparr>)"
  by (auto simp: ranking_wf_def distinct_map_filter list_all_iff)

lemma ranking_wf_step [simp]: "ranking_wf uw (s\<lparr>mc_step := k\<rparr>) \<longleftrightarrow> ranking_wf uw s"
  by (simp add: ranking_wf_def)

lemma ranking_view_step [simp]: "ranking_view (s\<lparr>mc_step := k\<rparr>) = ranking_view s"
  by (simp add: ranking_view_def fun_eq_iff)

lemma tags_of_put:
  "tags_of (put_tags u i tags rows) j =
     (if j = i then SliceStable string_less (NormalizeTags u tags) else tags_of rows j)"
proof -
  have "filter (\<lambda>r. fst r = j) (map (Pair i) ts) = (if j = i then map (Pair i) ts else [])" for ts :: "string list"
    by (induction ts) auto
  then show ?thesis by (auto simp: put_tags_def tags_of_def o_def conj_commute intro!: arg_cong [of _ _ "SliceStable string_less"] filter_cong arg_cong [of _ _ "map snd"])
qed

lemma tags_of_forget: "tags_of (filter (\<lambda>r. fst r \<noteq> i) rows) j = (if j = i then [] else tags_of rows j)"
  by (auto simp: tags_of_def SliceStable_def intro!: arg_cong [of _ _ "\<lambda>xs. foldr (insert_stable string_less) (map snd xs) []"] filter_cong)

lemma ranking_view_put:
  "ranking_view (s\<lparr>dv_record_meta := put_meta meta now (dv_record_meta s),
       dv_record_tags := put_tags u (rm_ID meta) (rm_Tags meta) (dv_record_tags s),
       dv_record_lexical := l\<rparr>) = (ranking_view s)(rm_ID meta \<mapsto> stored_meta u meta)"
proof
  fix i
  have "sql_row mr_ID i (put_meta meta now (dv_record_meta s)) =
    (if i = rm_ID meta then Some (case sql_row mr_ID i (dv_record_meta s) of
        None \<Rightarrow> \<lparr>mr_ID = rm_ID meta, mr_Kind = rm_Kind (stored_meta u meta), mr_Type = rm_Type meta, mr_Supersedes = rm_Supersedes meta, mr_CreatedAt = now\<rparr>
      | Some r \<Rightarrow> r\<lparr>mr_Kind := rm_Kind (stored_meta u meta), mr_Type := rm_Type meta, mr_Supersedes := rm_Supersedes meta\<rparr>)
     else sql_row mr_ID i (dv_record_meta s))"
    unfolding put_meta_def Let_def by (subst sql_row_upsert) (simp_all add: stored_meta_def split: option.splits)
  then show "ranking_view (s\<lparr>dv_record_meta := put_meta meta now (dv_record_meta s),
       dv_record_tags := put_tags u (rm_ID meta) (rm_Tags meta) (dv_record_tags s),
       dv_record_lexical := l\<rparr>) i = ((ranking_view s)(rm_ID meta \<mapsto> stored_meta u meta)) i"
    using sql_row_Some [of mr_ID i "dv_record_meta s"]
    by (auto simp: ranking_view_def tags_of_put row_meta_def stored_meta_def split: option.splits)
qed

lemma ranking_view_forget:
  "ranking_view (s\<lparr>dv_record_tags := filter (\<lambda>r. fst r \<noteq> i) (dv_record_tags s),
       dv_record_meta := filter (\<lambda>r. mr_ID r \<noteq> i) (dv_record_meta s), dv_record_lexical := l\<rparr>) =
   (ranking_view s)(i := None)"
  by (auto simp: ranking_view_def sql_row_filter tags_of_forget fun_eq_iff)

lemma describe_view:
  assumes "distinct (map mr_ID (dv_record_meta s))"
  shows "describe_rows ids (dv_record_meta s) (dv_record_tags s) =
    \<lparr>ld_Meta = (\<lambda>i. if i \<in> set ids then map_option (\<lambda>m. m\<lparr>rm_Supersedes := None\<rparr>) (ranking_view s i) else None),
     ld_Superseded = {i \<in> set ids. \<exists>j m. ranking_view s j = Some m \<and> rm_Supersedes m = Some i}\<rparr>"
proof -
  have "Some i \<in> mr_Supersedes ` set (dv_record_meta s) \<longleftrightarrow> (\<exists>j m. ranking_view s j = Some m \<and> rm_Supersedes m = Some i)" for i
  proof
    assume "Some i \<in> mr_Supersedes ` set (dv_record_meta s)"
    then obtain r where r: "r \<in> set (dv_record_meta s)" "mr_Supersedes r = Some i" by force
    then have "ranking_view s (mr_ID r) = Some ((row_meta r)\<lparr>rm_Tags := tags_of (dv_record_tags s) (mr_ID r)\<rparr>)"
      using sql_row_unique [OF assms] by (simp add: ranking_view_def)
    moreover have "rm_Supersedes ((row_meta r)\<lparr>rm_Tags := tags_of (dv_record_tags s) (mr_ID r)\<rparr>) = Some i"
      using r(2) by (simp add: row_meta_def)
    ultimately show "\<exists>j m. ranking_view s j = Some m \<and> rm_Supersedes m = Some i" by blast
  next
    assume "\<exists>j m. ranking_view s j = Some m \<and> rm_Supersedes m = Some i"
    then obtain j r where "sql_row mr_ID j (dv_record_meta s) = Some r" "mr_Supersedes r = Some i"
      by (auto simp: ranking_view_def row_meta_def)
    with sql_row_Some [of mr_ID j] show "Some i \<in> mr_Supersedes ` set (dv_record_meta s)" by (metis image_eqI)
  qed
  then show ?thesis by (auto simp: describe_rows_def ranking_view_def fun_eq_iff option.map_comp o_def)
qed

lemma sql_exec_runs:
  "sql_exec f s =
     (if mc_plan s (mc_step s) = NoFault then (Inr (), f (s\<lparr>mc_step := mc_step s + 1\<rparr>))
      else (Inl DbError, s\<lparr>mc_step := mc_step s + 1\<rparr>))"
  by (simp add: sql_exec_def effect_def bind_io_def syscall_runs put_io_def)

lemma sql_query_runs:
  "sql_query f s =
     (if mc_plan s (mc_step s) = NoFault then (Inr (f (s\<lparr>mc_step := mc_step s + 1\<rparr>)), s\<lparr>mc_step := mc_step s + 1\<rparr>)
      else (Inl DbError, s\<lparr>mc_step := mc_step s + 1\<rparr>))"
  by (simp add: sql_query_def bind_io_def syscall_runs get_io_def)

lemma ranking_put_run:
  "ranking_wf uw s \<Longrightarrow> PutRankingMeta u uw meta s = (r, s') \<Longrightarrow>
   ranking_wf uw s' \<and> ranking_view s' = (if is_ok r then (ranking_view s)(rm_ID meta \<mapsto> stored_meta u meta) else ranking_view s)"
  using ranking_wf_put [where uw = uw and s = "s\<lparr>mc_step := Suc (Suc (mc_step s))\<rparr>" and meta = meta and now = "stamp (dv_clock s (mc_step s))" and u = u]
    ranking_view_put [where s = "s\<lparr>mc_step := Suc (Suc (mc_step s))\<rparr>" and meta = meta and
      now = "stamp (dv_clock s (mc_step s))" and u = u and l = "put_lexical u uw (rm_ID meta) (rm_Text meta) (dv_record_lexical s)"]
  by (auto simp: PutRankingMeta_def record_Now_def time_Now_def bind_io_def ret_io_def sql_exec_runs split: if_splits)

lemma ranking_forget_run:
  "ranking_wf uw s \<Longrightarrow> ForgetRankingMeta i s = (r, s') \<Longrightarrow>
   ranking_wf uw s' \<and> ranking_view s' = (if is_ok r then (ranking_view s)(i := None) else ranking_view s)"
  using ranking_wf_forget [of uw "s\<lparr>mc_step := Suc (mc_step s)\<rparr>" i]
    ranking_view_forget [where s = "s\<lparr>mc_step := Suc (mc_step s)\<rparr>" and i = i and
      l = "filter (\<lambda>r. fst r \<noteq> i) (dv_record_lexical s)"]
  by (auto simp: ForgetRankingMeta_def sql_exec_runs split: if_splits)

lemma ranking_for_run:
  "RankingMetaFor i s = (r, s') \<Longrightarrow>
   (\<exists>k. s' = s\<lparr>mc_step := k\<rparr>) \<and>
   (r = Inl DbError \<or> r = (case ranking_view s i of None \<Rightarrow> Inl ErrNotFound | Some m \<Rightarrow> Inr m))"
  by (auto simp: RankingMetaFor_def ranking_view_def bind_io_def sql_query_runs fail_io_def ret_io_def
      split: if_splits option.splits)

lemma ranking_describe_run:
  assumes "ranking_wf uw s" "Store_Describe ids s = (r, s')"
  shows "(\<exists>k. s' = s\<lparr>mc_step := k\<rparr>) \<and>
   (r = Inl DbError \<or> r = Inr \<lparr>
      ld_Meta = (\<lambda>i. if i \<in> set ids then map_option (\<lambda>m. m\<lparr>rm_Supersedes := None\<rparr>) (ranking_view s i) else None),
      ld_Superseded = {i \<in> set ids. \<exists>j m. ranking_view s j = Some m \<and> rm_Supersedes m = Some i}\<rparr>)"
proof (cases "ids = []")
  case True
  then have "r = Inr \<lparr>ld_Meta = Map.empty, ld_Superseded = {}\<rparr>" "s' = s\<lparr>mc_step := mc_step s\<rparr>"
    using assms(2) by (simp_all add: Store_Describe_def ret_io_def)
  then show ?thesis using True by (intro conjI exI [of _ "mc_step s"]) simp_all
next
  case False
  have d: "describe_rows ids (dv_record_meta s) (dv_record_tags s) = \<lparr>
      ld_Meta = (\<lambda>i. if i \<in> set ids then map_option (\<lambda>m. m\<lparr>rm_Supersedes := None\<rparr>) (ranking_view s i) else None),
      ld_Superseded = {i \<in> set ids. \<exists>j m. ranking_view s j = Some m \<and> rm_Supersedes m = Some i}\<rparr>"
    using describe_view assms(1) by (auto simp: ranking_wf_def)
  show ?thesis using assms(2) False unfolding Store_Describe_def
    by (auto simp: bind_io_def sql_query_runs ret_io_def d split: if_splits)
qed

text \<open>
  C30. The ranking tables refine a map from records to what ranking knows of them, and stay well
  formed: one row per record, tags clean and distinct, one lexical row per record holding
  analysed terms. Storing metadata maps the record to it with its tags normalised, without
  duplicates and in order, and leaves every other record alone; forgetting removes it; a failed
  statement changes nothing, since each is one transaction. A lookup reports the mapped value,
  and describing candidates reports the mapped value of each and, as superseded, exactly the
  candidates some stored record names as replaced.
\<close>

theorem ranking_refines_map:
  assumes "ranking_wf uw s"
  shows "(let (r, s') = PutRankingMeta u uw meta s in ranking_wf uw s' \<and>
            ranking_view s' = (if is_ok r then (ranking_view s)(rm_ID meta \<mapsto> stored_meta u meta) else ranking_view s))
    \<and> (let (r, s') = ForgetRankingMeta i s in ranking_wf uw s' \<and>
            ranking_view s' = (if is_ok r then (ranking_view s)(i := None) else ranking_view s))
    \<and> (let (r, s') = RankingMetaFor i s in ranking_view s' = ranking_view s \<and>
            (r = Inl DbError \<or> r = (case ranking_view s i of None \<Rightarrow> Inl ErrNotFound | Some m \<Rightarrow> Inr m)))
    \<and> (let (r, s') = Store_Describe ids s in ranking_view s' = ranking_view s \<and>
            (r = Inl DbError \<or> r = Inr \<lparr>
              ld_Meta = (\<lambda>i. if i \<in> set ids then map_option (\<lambda>m. m\<lparr>rm_Supersedes := None\<rparr>) (ranking_view s i) else None),
              ld_Superseded = {i \<in> set ids. \<exists>j m. ranking_view s j = Some m \<and> rm_Supersedes m = Some i}\<rparr>))"
proof -
  obtain r1 s1 r2 s2 r3 s3 r4 s4 where
    runs: "PutRankingMeta u uw meta s = (r1, s1)" "ForgetRankingMeta i s = (r2, s2)"
      "RankingMetaFor i s = (r3, s3)" "Store_Describe ids s = (r4, s4)"
    by (metis surj_pair)
  have "ranking_view s3 = ranking_view s" "ranking_view s4 = ranking_view s"
    using ranking_for_run [OF runs(3)] ranking_describe_run [OF assms runs(4)] by auto
  with ranking_put_run [OF assms runs(1)] ranking_forget_run [OF assms runs(2)]
    ranking_for_run [OF runs(3)] ranking_describe_run [OF assms runs(4)]
  show ?thesis unfolding runs Let_def prod.case by blast
qed

definition ranking_sample :: device where
  "ranking_sample =
     \<lparr>mc_plan = (\<lambda>_. NoFault), mc_rand = (\<lambda>_. []), mc_step = 0, dv_clock = (\<lambda>n. int n * 1000000000), dv_queue = [],
      dv_slabs = [], dv_bodies = [],
      dv_record_meta = [\<lparr>mr_ID = [1], mr_Kind = ''memory'', mr_Type = ''fact'', mr_Supersedes = Some [2], mr_CreatedAt = 0\<rparr>],
      dv_record_tags = [([1], ''sia'')], dv_record_lexical = [([1], ''sia host'')], dv_session_heads = [],
      dv_object_cache = [], dv_slab_cache = [], dv_read_stats = [], dv_meta = []\<rparr>"

lemma ranking_refines_map_witness:
  "ranking_wf (\<lambda>_. False) ranking_sample \<and>
   (let (r, s') = RankingMetaFor [1] ranking_sample in
      r = Inr \<lparr>rm_ID = [1], rm_Kind = ''memory'', rm_Type = ''fact'', rm_Tags = [''sia''], rm_Supersedes = Some [2], rm_Text = ''''\<rparr>)"
proof -
  have wf: "ranking_wf (\<lambda>_. False) ranking_sample" by code_simp
  have v: "ranking_view ranking_sample [1] = Some \<lparr>rm_ID = [1], rm_Kind = ''memory'', rm_Type = ''fact'', rm_Tags = [''sia''], rm_Supersedes = Some [2], rm_Text = ''''\<rparr>"
    by code_simp
  have n: "fst (RankingMetaFor [1] ranking_sample) \<noteq> Inl DbError"
    by (simp add: RankingMetaFor_def sql_query_runs bind_io_def ranking_sample_def sql_row_def ret_io_def)
  show ?thesis
    using ranking_refines_map [where u = id and meta = undefined and i = "[1]" and ids = "[]", OF wf] n wf
    by (auto simp: v split: prod.splits)
qed

end
