(* ===== verification/Go_Time.thy ===== *)
theory Go_Time
  imports Go_Sort
begin

text \<open>
  The text of a timestamp (\<open>Time.String\<close> of \<open>record/time.go\<close>, which formats by Go's \<open>time\<close>
  package): the date of a day of the proleptic Gregorian calendar, decimal digits padded to a
  width, and the order of the texts. A time is milliseconds since Go's zero time, the first of
  January of the year 1.
\<close>

section \<open>Decimal digits\<close>

text \<open>\<open>decimals w n\<close> is the last \<open>w\<close> decimal digits of \<open>n\<close>.\<close>

fun decimals :: "nat \<Rightarrow> nat \<Rightarrow> string" where
  "decimals 0 n = []"
| "decimals (Suc w) n = decimals w (n div 10) @ [char_of (48 + n mod 10)]"

fun digits_of :: "nat \<Rightarrow> nat" where
  "digits_of n = (if n < 10 then 1 else Suc (digits_of (n div 10)))"

declare digits_of.simps [simp del]

text \<open>\<open>appendInt\<close> of Go's \<open>time\<close> package.\<close>

definition appendInt :: "nat \<Rightarrow> int \<Rightarrow> string" where
  "appendInt w x =
     (let n = nat \<bar>x\<bar> in (if x < 0 then ''-'' else '''') @ decimals (max w (digits_of n)) n)"

lemma length_decimals [simp]: "length (decimals w n) = w"
  by (induction w arbitrary: n) simp_all

lemma digits_of_le: "n < 10 ^ w \<Longrightarrow> 0 < w \<Longrightarrow> digits_of n \<le> w"
proof (induction w arbitrary: n)
  case (Suc w)
  show ?case
  proof (cases "n < 10")
    case False
    then have "0 < w" using Suc.prems(1) by (cases w) auto
    moreover have "n div 10 < 10 ^ w" using Suc.prems(1) by (simp add: less_mult_imp_div_less mult.commute)
    ultimately show ?thesis using Suc.IH [of "n div 10"] False by (simp add: digits_of.simps [of n])
  qed (simp add: digits_of.simps [of n])
qed simp

lemma appendInt_fixed: "0 \<le> x \<Longrightarrow> x < 10 ^ w \<Longrightarrow> 0 < w \<Longrightarrow> appendInt w x = decimals w (nat x)"
proof -
  assume a: "0 \<le> x" "x < 10 ^ w" "0 < w"
  then have "nat x < 10 ^ w" by (simp add: nat_less_iff)
  with digits_of_le a show ?thesis by (simp add: appendInt_def Let_def max_absorb1)
qed

text \<open>Texts whose first parts have the same length compare by the parts.\<close>

lemma string_less_append:
  "length x = length y \<Longrightarrow> string_less (x @ u) (y @ v) \<longleftrightarrow> string_less x y \<or> (x = y \<and> string_less u v)"
  by (induction x y rule: list_induct2) auto

lemma digit_char_less: "a < 10 \<Longrightarrow> b < 10 \<Longrightarrow> (of_char (char_of (48 + a) :: char) :: nat) < of_char (char_of (48 + b) :: char) \<longleftrightarrow> a < (b :: nat)"
  by simp

lemma decimals_inject: "a < 10 ^ w \<Longrightarrow> b < 10 ^ w \<Longrightarrow> decimals w a = decimals w b \<longleftrightarrow> a = b"
proof (induction w arbitrary: a b)
  case (Suc w)
  have d: "a div 10 < 10 ^ w" "b div 10 < 10 ^ w"
    using Suc.prems by (simp_all add: less_mult_imp_div_less mult.commute)
  have c: "char_of (48 + a mod 10) = (char_of (48 + b mod 10) :: char) \<longleftrightarrow> a mod 10 = b mod 10"
  proof
    assume "char_of (48 + a mod 10) = (char_of (48 + b mod 10) :: char)"
    then have "(of_char (char_of (48 + a mod 10) :: char) :: nat) = of_char (char_of (48 + b mod 10) :: char)" by simp
    then show "a mod 10 = b mod 10" by simp
  qed simp
  show ?case using Suc.IH [OF d] c by (auto simp: div_mod_decomp) (metis div_mult_mod_eq)
qed simp

lemma decimals_less:
  "a < 10 ^ w \<Longrightarrow> b < 10 ^ w \<Longrightarrow> a < b \<Longrightarrow> string_less (decimals w a) (decimals w b)"
proof (induction w arbitrary: a b)
  case (Suc w)
  have d: "a div 10 < 10 ^ w" "b div 10 < 10 ^ w"
    using Suc.prems by (simp_all add: less_mult_imp_div_less mult.commute)
  have len: "length (decimals w (a div 10)) = length (decimals w (b div 10))" by simp
  consider "a div 10 < b div 10" | "a div 10 = b div 10" "a mod 10 < b mod 10"
    using Suc.prems(3) by (metis div_le_mono div_mult_mod_eq le_neq_implies_less less_imp_le nat_add_left_cancel_less)
  then show ?case
  proof cases
    case 1
    then show ?thesis using Suc.IH [OF d] by (simp add: string_less_append [OF len])
  next
    case 2
    have "string_less [char_of (48 + a mod 10)] [char_of (48 + b mod 10)]"
      using 2(2) digit_char_less [of "a mod 10" "b mod 10"] by (simp del: of_char_of)
    then show ?thesis using 2(1) by (simp add: string_less_append)
  qed
qed simp

section \<open>The calendar\<close>

text \<open>The \<open>q\<close>-th of \<open>m + 1\<close> stretches of \<open>k\<close> days, of which the last may be longer.\<close>

definition split_cycle :: "int \<Rightarrow> int \<Rightarrow> int \<Rightarrow> int \<times> int" where
  "split_cycle k m r = (let q = min (r div k) m in (q, r - q * k))"

definition year_day :: "int \<Rightarrow> int \<times> int" where
  "year_day d =
     (let n400 = d div 146097;
          (n100, r1) = split_cycle 36524 3 (d mod 146097);
          (n4, r2) = (r1 div 1461, r1 mod 1461);
          (n1, r3) = split_cycle 365 3 r2
      in (400 * n400 + 100 * n100 + 4 * n4 + n1 + 1, r3))"

definition isLeap :: "int \<Rightarrow> bool" where
  "isLeap y \<longleftrightarrow> y mod 4 = 0 \<and> (y mod 100 \<noteq> 0 \<or> y mod 400 = 0)"

definition month_lengths :: "int \<Rightarrow> int list" where
  "month_lengths y = [31, if isLeap y then 29 else 28, 31, 30, 31, 30, 31, 31, 30, 31, 30, 31]"

fun month_day :: "int \<Rightarrow> int list \<Rightarrow> int \<Rightarrow> int \<times> int" where
  "month_day m [] d = (m, d)"
| "month_day m (k # ks) d = (if d < k then (m, d) else month_day (m + 1) ks (d - k))"

definition days_before :: "int \<Rightarrow> int" where
  "days_before y = 365 * (y - 1) + (y - 1) div 4 - (y - 1) div 100 + (y - 1) div 400"

lemma split_cycle_spec:
  assumes "0 < k" "0 \<le> m" "0 \<le> r" "split_cycle k m r = (q, r')"
  shows "0 \<le> q" "q \<le> m" "r = q * k + r'" "0 \<le> r'" "q < m \<Longrightarrow> r' < k"
proof -
  have q: "q = min (r div k) m" "r' = r - q * k" using assms(4) by (auto simp: split_cycle_def Let_def)
  have dm: "r div k * k + r mod k = r" "0 \<le> r mod k" "r mod k < k" using assms(1) by simp_all
  have "0 \<le> r div k" using assms(1,3) by (simp add: pos_imp_zdiv_nonneg_iff)
  then show "0 \<le> q" "q \<le> m" using q(1) assms(2) by simp_all
  show "r = q * k + r'" using q(2) by simp
  have "q * k \<le> r div k * k" using q(1) assms(1) by (intro mult_right_mono) simp_all
  then show "0 \<le> r'" using q(2) dm by linarith
  show "r' < k" if "q < m"
  proof -
    have "q = r div k" using that q(1) by linarith
    then have "r' = r mod k" using q(2) by (simp add: minus_div_mult_eq_mod)
    then show ?thesis using dm(3) by simp
  qed
qed

text \<open>The year of a day is the one whose days the day lies among.\<close>

lemma year_day_spec:
  assumes "year_day d = (y, e)"
  shows "d = days_before y + e" "0 \<le> e" "e < 365 + (if isLeap y then 1 else 0)"
proof -
  define a where "a = d div 146097"
  define r where "r = d mod 146097"
  obtain b r1 where s1: "split_cycle 36524 3 r = (b, r1)" by (cases "split_cycle 36524 3 r")
  define c r2 where "c = r1 div 1461" and "r2 = r1 mod 1461"
  obtain f r3 where s2: "split_cycle 365 3 r2 = (f, r3)" by (cases "split_cycle 365 3 r2")
  have y: "y = 400 * a + 100 * b + 4 * c + f + 1" "e = r3"
    using assms s1 s2 by (simp_all add: year_day_def Let_def a_def r_def c_def r2_def)
  have r: "d = a * 146097 + r" "0 \<le> r" "r < 146097" by (simp_all add: a_def r_def)
  have b: "0 \<le> b" "b \<le> 3" "r = b * 36524 + r1" "0 \<le> r1" "b < 3 \<Longrightarrow> r1 < 36524"
    using split_cycle_spec [OF _ _ r(2) s1] by simp_all
  have c: "r1 = c * 1461 + r2" "0 \<le> r2" "r2 < 1461" "0 \<le> c" using b(4) by (simp_all add: c_def r2_def pos_imp_zdiv_nonneg_iff)
  have f: "0 \<le> f" "f \<le> 3" "r2 = f * 365 + r3" "0 \<le> r3" "f < 3 \<Longrightarrow> r3 < 365"
    using split_cycle_spec [OF _ _ c(2) s2] by simp_all
  have r1: "r1 \<le> 36524" using b r(3) by linarith
  have c24: "c \<le> 24" using r1 c by linarith
  have "(y - 1) div 4 = 100 * a + 25 * b + c"
    by (rule int_div_pos_eq [where r = f]) (use y(1) f(1,2) in simp_all)
  moreover have "(y - 1) div 100 = 4 * a + b"
    by (rule int_div_pos_eq [where r = "4 * c + f"]) (use y(1) f(1,2) c(4) c24 in simp_all)
  moreover have "(y - 1) div 400 = a"
    by (rule int_div_pos_eq [where r = "100 * b + 4 * c + f"]) (use y(1) f(1,2) c(4) c24 b(1,2) in simp_all)
  ultimately have "days_before y = 146097 * a + 36524 * b + 1461 * c + 365 * f"
    using y(1) by (simp add: days_before_def)
  then show "d = days_before y + e" using r(1) b(3) c(1) f(3) y(2) by simp
  show "0 \<le> e" using f(4) y(2) by simp
  have leap: "isLeap y" if "f = 3" "r3 = 365"
  proof -
    have "c < 24 \<or> (c = 24 \<and> b = 3)" using that f(3) c(1) c24 b(1,2,5) by linarith
    moreover have "y mod 4 = 0" by (rule int_mod_pos_eq [where q = "100 * a + 25 * b + c + 1"]) (use y(1) that(1) in simp_all)
    moreover have "y mod 100 = 4 * (c + 1)" if "c < 24"
      by (rule int_mod_pos_eq [where q = "4 * a + b"]) (use y(1) \<open>f = 3\<close> c(4) that in simp_all)
    moreover have "y mod 400 = 0" if "c = 24" "b = 3"
      by (rule int_mod_pos_eq [where q = "a + 1"]) (use y(1) \<open>f = 3\<close> that in simp_all)
    ultimately show ?thesis unfolding isLeap_def using c(4) by auto
  qed
  have "r3 \<le> 365" using f c(3) by linarith
  moreover have "r3 < 365" if "f \<noteq> 3" using f that by linarith
  ultimately show "e < 365 + (if isLeap y then 1 else 0)" using leap y(2) by (cases "f = 3 \<and> r3 = 365") auto
qed

lemma div_pred:
  assumes "0 < (k :: int)" shows "y div k = (y - 1) div k + (if y mod k = 0 then 1 else 0)"
proof -
  define q r where "q = y div k" and "r = y mod k"
  have y: "y = k * q + r" "0 \<le> r" "r < k" using assms by (simp_all add: q_def r_def)
  have "(y - 1) div k = (if r = 0 then q - 1 else q)"
  proof (cases "r = 0")
    case True
    have "y - 1 = k * (q - 1) + (k - 1)" using y(1) True by (simp add: right_diff_distrib)
    then have "(y - 1) div k = q - 1" by (rule int_div_pos_eq) (use assms in simp_all)
    then show ?thesis using True by simp
  next
    case False
    have "y - 1 = k * q + (r - 1)" using y(1) by simp
    then have "(y - 1) div k = q" by (rule int_div_pos_eq) (use y False in simp_all)
    then show ?thesis using False by simp
  qed
  then show ?thesis unfolding q_def r_def by simp
qed

lemma zdiv_less: "x < c * k \<Longrightarrow> 0 < k \<Longrightarrow> x div k < (c :: int)"
proof (rule ccontr)
  assume a: "x < c * k" "0 < k" "\<not> x div k < c"
  then have "c * k \<le> x div k * k" by (intro mult_right_mono) simp_all
  moreover have "x div k * k + x mod k = x" "0 \<le> x mod k" using a(2) by simp_all
  ultimately show False using a(1) by linarith
qed

lemma div_order:
  assumes "0 < k" "a < (b :: int)" shows "a div k < b div k \<or> (a div k = b div k \<and> a mod k < b mod k)"
proof -
  have "a div k \<le> b div k" using assms by (intro zdiv_mono1) simp_all
  moreover have "a mod k < b mod k" if "a div k = b div k"
    using assms(2) div_mult_mod_eq [of a k] div_mult_mod_eq [of b k] unfolding that by linarith
  ultimately show ?thesis by linarith
qed

lemma leap_count:
  "(r \<longrightarrow> q) \<Longrightarrow> (q \<longrightarrow> p) \<Longrightarrow>
   365 * y + (a + (if p then 1 else 0)) - (b + (if q then 1 else 0)) + (c + (if r then 1 else 0)) =
   365 * (y - 1) + a - b + c + 365 + (if p \<and> (\<not> q \<or> r) then 1 else (0 :: int))"
  by (cases p; cases q; cases r) simp_all

lemma days_before_Suc: "days_before (y + 1) = days_before y + 365 + (if isLeap y then 1 else 0)"
proof -
  define p q r where "p = (y - 1) div 4" and "q = (y - 1) div 100" and "r = (y - 1) div 400"
  have "days_before (y + 1) =
      365 * y + (p + (if y mod 4 = 0 then 1 else 0)) - (q + (if y mod 100 = 0 then 1 else 0)) + (r + (if y mod 400 = 0 then 1 else 0))"
    unfolding days_before_def p_def q_def r_def add_diff_cancel_right'
    by (simp only: div_pred [of 4 y] div_pred [of 100 y] div_pred [of 400 y] zero_less_numeral)
  also have "\<dots> = 365 * (y - 1) + p - q + r + 365 + (if y mod 4 = 0 \<and> (\<not> y mod 100 = 0 \<or> y mod 400 = 0) then 1 else 0)"
  proof (rule leap_count)
    show "y mod 400 = 0 \<longrightarrow> y mod 100 = 0" "y mod 100 = 0 \<longrightarrow> y mod 4 = 0"
      using dvd_trans [of 100 400 y] dvd_trans [of 4 100 y] by (simp_all add: mod_eq_0_iff_dvd)
  qed
  finally show ?thesis unfolding isLeap_def days_before_def p_def q_def r_def .
qed

lemma days_before_mono: "x \<le> y \<Longrightarrow> days_before x \<le> days_before y"
proof (induction "nat (y - x)" arbitrary: y)
  case (Suc n)
  then have "days_before x \<le> days_before (y - 1)" by (intro Suc.hyps(1)) simp_all
  also have "\<dots> \<le> days_before y" using days_before_Suc [of "y - 1"] by simp
  finally show ?case .
qed simp

lemma year_day_mono:
  assumes "year_day d = (y, e)" "year_day d' = (y', e')" "d < d'"
  shows "y < y' \<or> (y = y' \<and> e < e')"
proof -
  note s = year_day_spec [OF assms(1)] and s' = year_day_spec [OF assms(2)]
  have "y \<le> y'"
  proof (rule ccontr)
    assume "\<not> y \<le> y'"
    then have "days_before (y' + 1) \<le> days_before y" by (intro days_before_mono) simp
    then show False using s s' assms(3) days_before_Suc [of y'] by linarith
  qed
  moreover have "e < e'" if "y = y'" using that s(1) s'(1) assms(3) by simp
  ultimately show ?thesis by linarith
qed

lemma month_day_ge: "month_day m ks d = (m', d') \<Longrightarrow> m \<le> m' \<and> m' \<le> m + int (length ks)"
  by (induction m ks d rule: month_day.induct) (fastforce split: if_splits)+

lemma month_day_mono:
  "month_day m ks d = (a, i) \<Longrightarrow> month_day m ks e = (b, j) \<Longrightarrow> d < e \<Longrightarrow> a < b \<or> (a = b \<and> i < j)"
proof (induction m ks d arbitrary: e rule: month_day.induct)
  case (2 m k ks d)
  consider "e < k" | "d < k" "\<not> e < k" | "\<not> d < k" "\<not> e < k" using "2.prems"(3) by linarith
  then show ?case
  proof cases
    case 1
    then show ?thesis using "2.prems" by auto
  next
    case 2
    then show ?thesis using "2.prems" month_day_ge [of "m + 1" ks "e - k" b j] by auto
  next
    case 3
    then show ?thesis using "2.prems" "2.IH" [of "e - k"] by auto
  qed
qed simp

lemma month_day_range:
  "month_day m ks d = (a, i) \<Longrightarrow> 0 \<le> d \<Longrightarrow> d < sum_list ks \<Longrightarrow> \<forall>k \<in> set ks. k \<le> 31 \<Longrightarrow>
   m \<le> a \<and> a < m + int (length ks) \<and> 0 \<le> i \<and> i < 31"
proof (induction m ks d rule: month_day.induct)
  case (2 m k ks d)
  show ?case
  proof (cases "d < k")
    case False
    then show ?thesis using "2.IH" [OF False] "2.prems" by auto
  qed (use "2.prems" in auto)
qed simp

section \<open>The text\<close>

definition time_text :: "int \<Rightarrow> string" where
  "time_text ms =
     (let (y, e) = year_day (ms div 86400000); t = ms mod 86400000; (m, i) = month_day 1 (month_lengths y) e in
      appendInt 4 y @ ''-'' @ appendInt 2 m @ ''-'' @ appendInt 2 (i + 1) @ ''T'' @
      appendInt 2 (t div 3600000) @ '':'' @ appendInt 2 (t div 60000 mod 60) @ '':'' @
      appendInt 2 (t div 1000 mod 60) @ ''.'' @ appendInt 3 (t mod 1000) @ ''Z'')"

text \<open>The times the layout has four digits for: before the year 10000.\<close>

definition layout_end :: int where
  "layout_end = 3652059 * 86400000"

definition time_ok :: "int \<Rightarrow> bool" where
  "time_ok ms \<longleftrightarrow> 0 \<le> ms \<and> ms < layout_end"

lemma year_in_layout:
  assumes "0 \<le> d" "d < 3652059" "year_day d = (y, e)"
  shows "0 \<le> y" "y < 10 ^ 4"
proof -
  note s = year_day_spec [OF assms(3)]
  have b: "days_before 0 = - 366" "days_before 10000 = 3652059" by (simp_all add: days_before_def)
  show "0 \<le> y"
  proof (rule ccontr)
    assume "\<not> 0 \<le> y"
    then have "days_before (y + 1) \<le> days_before 0" by (intro days_before_mono) simp
    then show False using s assms(1) b days_before_Suc [of y] by linarith
  qed
  show "y < 10 ^ 4"
  proof (rule ccontr)
    assume "\<not> y < 10 ^ 4"
    then have "days_before 10000 \<le> days_before y" by (intro days_before_mono) simp
    then show False using s assms(2) b by linarith
  qed
qed

lemma month_in_layout:
  assumes "0 \<le> e" "e < 365 + (if isLeap y then 1 else 0)" "month_day 1 (month_lengths y) e = (m, i)"
  shows "1 \<le> m" "m < 13" "0 \<le> i" "i < 31"
proof -
  have "e < sum_list (month_lengths y)" "\<forall>k \<in> set (month_lengths y). k \<le> 31" "length (month_lengths y) = 12"
    using assms(2) by (cases "isLeap y"; simp add: month_lengths_def)+
  with month_day_range [OF assms(3,1)] show "1 \<le> m" "m < 13" "0 \<le> i" "i < 31" by simp_all
qed

text \<open>The fields of a time within the layout, and its text as fields of fixed widths.\<close>

definition time_fields :: "int \<Rightarrow> (nat \<times> nat) list" where
  "time_fields ms =
     (let (y, e) = year_day (ms div 86400000); t = ms mod 86400000; (m, i) = month_day 1 (month_lengths y) e in
      [(4, nat y), (2, nat m), (2, nat (i + 1)), (2, nat (t div 3600000)), (2, nat (t div 60000 mod 60)),
       (2, nat (t div 1000 mod 60)), (3, nat (t mod 1000))])"

fun fields_text :: "(nat \<times> nat) list \<Rightarrow> string list \<Rightarrow> string" where
  "fields_text ((w, n) # fs) (sep # seps) = decimals w n @ sep @ fields_text fs seps"
| "fields_text _ _ = ''''"

definition layout_seps :: "string list" where
  "layout_seps = [''-'', ''-'', ''T'', '':'', '':'', ''.'', ''Z'']"

lemma fields_text_less:
  "list_all2 (\<lambda>f g. fst f = fst g) fs gs \<Longrightarrow> list_all (\<lambda>f. snd f < 10 ^ fst f) (fs @ gs) \<Longrightarrow>
   (\<exists>k < length fs. take k fs = take k gs \<and> snd (fs ! k) < snd (gs ! k)) \<Longrightarrow> length seps = length fs \<Longrightarrow>
   string_less (fields_text fs seps) (fields_text gs seps)"
proof (induction fs gs arbitrary: seps rule: list_all2_induct)
  case (Cons f fs g gs)
  obtain w a b where f: "f = (w, a)" "g = (w, b)" using Cons.hyps(1) by (cases f; cases g) auto
  obtain sep ss where seps: "seps = sep # ss" using Cons.prems(3) by (cases seps) auto
  have ab: "a < 10 ^ w" "b < 10 ^ w" using Cons.prems(1) by (simp_all add: f)
  obtain k where k: "k < Suc (length fs)" "take k (f # fs) = take k (g # gs)" "snd ((f # fs) ! k) < snd ((g # gs) ! k)"
    using Cons.prems(2) by auto
  have e: "fields_text (f # fs) seps = decimals w a @ sep @ fields_text fs ss"
    "fields_text (g # gs) seps = decimals w b @ sep @ fields_text gs ss" by (simp_all add: f seps)
  show ?case
  proof (cases k)
    case 0
    then have "a < b" using k(3) by (simp add: f)
    then show ?thesis unfolding e using decimals_less [OF ab] by (simp add: string_less_append)
  next
    case (Suc j)
    then have "a = b" using k(2) by (simp add: f)
    moreover have "string_less (fields_text fs ss) (fields_text gs ss)"
    proof (rule Cons.IH)
      show "list_all (\<lambda>f. snd f < 10 ^ fst f) (fs @ gs)" using Cons.prems(1) by simp
      show "\<exists>k < length fs. take k fs = take k gs \<and> snd (fs ! k) < snd (gs ! k)" using k Suc by auto
      show "length ss = length fs" using Cons.prems(3) seps by simp
    qed
    ultimately show ?thesis unfolding e by (simp add: string_less_append)
  qed
qed simp

lemma clock_fields:
  assumes "0 \<le> t" "t < (86400000 :: int)"
  shows "0 \<le> t div 3600000" "t div 3600000 < 10 ^ 2" "0 \<le> t div 60000 mod 60" "t div 60000 mod 60 < 10 ^ 2"
    "0 \<le> t div 1000 mod 60" "t div 1000 mod 60 < 10 ^ 2" "0 \<le> t mod 1000" "t mod 1000 < 10 ^ 3"
proof -
  have "t div 60000 mod 60 < 60" "t div 1000 mod 60 < 60" "t mod 1000 < 1000" by simp_all
  then show "t div 60000 mod 60 < 10 ^ 2" "t div 1000 mod 60 < 10 ^ 2" "t mod 1000 < 10 ^ 3" by simp_all
  show "t div 3600000 < 10 ^ 2" using assms by (simp add: zdiv_less)
qed (use assms in \<open>simp_all add: pos_imp_zdiv_nonneg_iff\<close>)

lemma time_text_fields:
  assumes "time_ok ms"
  shows "time_text ms = fields_text (time_fields ms) layout_seps"
    "list_all (\<lambda>f. snd f < 10 ^ fst f) (time_fields ms)" "map fst (time_fields ms) = [4, 2, 2, 2, 2, 2, 3]"
proof -
  define d t where "d = ms div 86400000" and "t = ms mod 86400000"
  have d: "0 \<le> d" "d < 3652059" using assms by (simp_all add: time_ok_def layout_end_def d_def pos_imp_zdiv_nonneg_iff zdiv_less)
  have t: "0 \<le> t" "t < 86400000" by (simp_all add: t_def)
  obtain y e where ye: "year_day d = (y, e)" by (cases "year_day d")
  obtain m i where mi: "month_day 1 (month_lengths y) e = (m, i)" by (cases "month_day 1 (month_lengths y) e")
  note y = year_in_layout [OF d ye] and m = month_in_layout [OF year_day_spec(2,3) [OF ye] mi] and c = clock_fields [OF t]
  have mm: "0 \<le> m" "m < 10 ^ 2" and ii: "0 \<le> i + 1" "i + 1 < 10 ^ 2" using m by simp_all
  note a = appendInt_fixed [OF _ _ zero_less_numeral]
  have tf: "time_fields ms = [(4, nat y), (2, nat m), (2, nat (i + 1)), (2, nat (t div 3600000)), (2, nat (t div 60000 mod 60)),
       (2, nat (t div 1000 mod 60)), (3, nat (t mod 1000))]"
    by (simp add: time_fields_def Let_def d_def [symmetric] t_def [symmetric] ye mi)
  have "time_text ms = appendInt 4 y @ ''-'' @ appendInt 2 m @ ''-'' @ appendInt 2 (i + 1) @ ''T'' @
      appendInt 2 (t div 3600000) @ '':'' @ appendInt 2 (t div 60000 mod 60) @ '':'' @
      appendInt 2 (t div 1000 mod 60) @ ''.'' @ appendInt 3 (t mod 1000) @ ''Z''"
    by (simp add: time_text_def Let_def d_def [symmetric] t_def [symmetric] ye mi)
  also have "\<dots> = decimals 4 (nat y) @ ''-'' @ decimals 2 (nat m) @ ''-'' @ decimals 2 (nat (i + 1)) @ ''T'' @
      decimals 2 (nat (t div 3600000)) @ '':'' @ decimals 2 (nat (t div 60000 mod 60)) @ '':'' @
      decimals 2 (nat (t div 1000 mod 60)) @ ''.'' @ decimals 3 (nat (t mod 1000)) @ ''Z''"
    unfolding a [OF y] a [OF mm] a [OF ii] a [OF c(1,2)] a [OF c(3,4)] a [OF c(5,6)] a [OF c(7,8)] ..
  finally show "time_text ms = fields_text (time_fields ms) layout_seps" by (simp add: tf layout_seps_def)
  show "list_all (\<lambda>f. snd f < 10 ^ fst f) (time_fields ms)" using y mm ii c unfolding tf by (simp only: list.pred_inject snd_conv fst_conv nat_less_iff of_nat_power of_nat_numeral simp_thms)
  show "map fst (time_fields ms) = [4, 2, 2, 2, 2, 2, 3]" by (simp add: tf)
qed

lemma clock_order:
  assumes "0 \<le> s" "s < (t :: int)"
  shows "s div 3600000 < t div 3600000 \<or> (s div 3600000 = t div 3600000 \<and>
    (s div 60000 mod 60 < t div 60000 mod 60 \<or> (s div 60000 mod 60 = t div 60000 mod 60 \<and>
      (s div 1000 mod 60 < t div 1000 mod 60 \<or> (s div 1000 mod 60 = t div 1000 mod 60 \<and> s mod 1000 < t mod 1000)))))"
proof -
  have dd: "a div 60000 div 60 = a div 3600000" "a div 1000 div 60 = a div 60000" for a :: int
    by (simp_all add: zdiv_zmult2_eq [symmetric])
  have "s div 1000 < t div 1000 \<or> (s div 1000 = t div 1000 \<and> s mod 1000 < t mod 1000)"
    using div_order [OF _ assms(2)] by simp
  moreover have "s div 60000 < t div 60000 \<or> (s div 60000 = t div 60000 \<and> s div 1000 mod 60 < t div 1000 mod 60)"
    if "s div 1000 < t div 1000" using div_order [OF _ that, of 60] unfolding dd by simp
  moreover have "s div 3600000 < t div 3600000 \<or> (s div 3600000 = t div 3600000 \<and> s div 60000 mod 60 < t div 60000 mod 60)"
    if "s div 60000 < t div 60000" using div_order [OF _ that, of 60] unfolding dd by simp
  moreover have "s div 60000 = t div 60000" if "s div 1000 = t div 1000" using that dd(2) by metis
  moreover have "s div 3600000 = t div 3600000" if "s div 60000 = t div 60000" using that dd(1) by metis
  ultimately show ?thesis by metis
qed

lemma time_text_less:
  assumes "time_ok a" "time_ok b" "a < b"
  shows "string_less (time_text a) (time_text b)"
proof -
  define d t d' t' where "d = a div 86400000" and "t = a mod 86400000" and "d' = b div 86400000" and "t' = b mod 86400000"
  obtain y e where ye: "year_day d = (y, e)" by (cases "year_day d")
  obtain y' e' where ye': "year_day d' = (y', e')" by (cases "year_day d'")
  obtain m i where mi: "month_day 1 (month_lengths y) e = (m, i)" by (cases "month_day 1 (month_lengths y) e")
  obtain m' i' where mi': "month_day 1 (month_lengths y') e' = (m', i')" by (cases "month_day 1 (month_lengths y') e'")
  let ?f = "\<lambda>y m i h n s u. [(4, nat y), (2, nat m), (2, nat (i + 1)), (2, nat h), (2, nat n), (2, nat s), (3, nat u)]"
  define h n s u where "h = t div 3600000" and "n = t div 60000 mod 60" and "s = t div 1000 mod 60" and "u = t mod 1000"
  define h' n' s' u' where "h' = t' div 3600000" and "n' = t' div 60000 mod 60" and "s' = t' div 1000 mod 60" and "u' = t' mod 1000"
  note clock = h_def n_def s_def u_def h'_def n'_def s'_def u'_def
  have f: "time_fields a = ?f y m i h n s u" "time_fields b = ?f y' m' i' h' n' s' u'"
    unfolding clock
    by (simp_all add: time_fields_def Let_def d_def [symmetric] t_def [symmetric] ye mi d'_def [symmetric] t'_def [symmetric] ye' mi')
  have d0: "0 \<le> d" "0 \<le> d'" using assms by (simp_all add: time_ok_def d_def d'_def pos_imp_zdiv_nonneg_iff)
  have t: "0 \<le> t" "0 \<le> t'" by (simp_all add: t_def t'_def)
  have dt: "d < d' \<or> (d = d' \<and> t < t')"
    unfolding d_def d'_def t_def t'_def by (rule div_order) (use assms(3) in simp_all)
  note m = month_in_layout [OF year_day_spec(2,3) [OF ye] mi] and m' = month_in_layout [OF year_day_spec(2,3) [OF ye'] mi']
  have y: "0 \<le> y" by (rule year_in_layout(1) [OF d0(1) _ ye]) (use assms(1) in \<open>simp add: time_ok_def layout_end_def d_def zdiv_less\<close>)
  have "\<exists>k < 7. take k (time_fields a) = take k (time_fields b) \<and> snd (time_fields a ! k) < snd (time_fields b ! k)"
  proof -
    consider "y < y'" | "y = y'" "e < e'" | "d = d'" "t < t'" using dt year_day_mono [OF ye ye'] by blast
    then show ?thesis
    proof cases
      case 1
      then show ?thesis using y by (intro exI [of _ 0]) (simp add: f)
    next
      case 2
      then consider "m < m'" | "m = m'" "i < i'" using month_day_mono [OF mi mi' [folded 2(1)]] by blast
      then show ?thesis
      proof cases
        case 1
        then show ?thesis using 2 m' by (intro exI [of _ 1]) (simp add: f)
      next
        case 2
        then show ?thesis using \<open>y = y'\<close> m' by (intro exI [of _ 2]) (simp add: f)
      qed
    next
      case 3
      then have eq: "y' = y" "m' = m" "i' = i" using ye ye' mi mi' by simp_all
      have lt: "t < 86400000" "t' < 86400000" by (simp_all add: t_def t'_def)
      note c = clock_fields(1,3,5,7) [OF t(1) lt(1), folded clock]
      from clock_order [OF t(1) 3(2), folded clock] consider "h < h'" | "h = h'" "n < n'"
        | "h = h'" "n = n'" "s < s'" | "h = h'" "n = n'" "s = s'" "u < u'" by blast
      then show ?thesis
      proof cases
        case 1
        then show ?thesis using c by (intro exI [of _ 3]) (simp add: f eq nat_less_eq_zless)
      next
        case 2
        then show ?thesis using c by (intro exI [of _ 4]) (simp add: f eq nat_less_eq_zless)
      next
        case 3
        then show ?thesis using c by (intro exI [of _ 5]) (simp add: f eq nat_less_eq_zless)
      next
        case 4
        then show ?thesis using c by (intro exI [of _ 6]) (simp add: f eq nat_less_eq_zless)
      qed
    qed
  qed
  moreover have "length (time_fields a) = 7" by (simp add: f)
  ultimately have "\<exists>k < length (time_fields a). take k (time_fields a) = take k (time_fields b) \<and> snd (time_fields a ! k) < snd (time_fields b ! k)"
    by simp
  moreover have "list_all2 (\<lambda>f g. fst f = fst g) (time_fields a) (time_fields b)" by (simp add: f)
  moreover have "length layout_seps = length (time_fields a)" by (simp add: f layout_seps_def)
  ultimately show ?thesis
    unfolding time_text_fields(1) [OF assms(1)] time_text_fields(1) [OF assms(2)]
    using time_text_fields(2) [OF assms(1)] time_text_fields(2) [OF assms(2)]
    by (intro fields_text_less) simp_all
qed

lemma decimals_no_nul: "CHR 0x00 \<notin> set (decimals w n)"
proof (induction w arbitrary: n)
  case (Suc w)
  have "CHR 0x00 \<noteq> char_of (48 + n mod 10)"
  proof
    assume "CHR 0x00 = (char_of (48 + n mod 10) :: char)"
    then have "(of_char (CHR 0x00) :: nat) = of_char (char_of (48 + n mod 10) :: char)" by simp
    then show False by simp
  qed
  with Suc show ?case by simp
qed simp

lemma fields_text_shape:
  "length fs = length seps \<Longrightarrow> length (fields_text fs seps) = sum_list (map fst fs) + length (concat seps)"
  "CHR 0x00 \<notin> set (concat seps) \<Longrightarrow> CHR 0x00 \<notin> set (fields_text fs seps)"
  by (induction fs seps rule: fields_text.induct) (auto simp: decimals_no_nul)

lemma time_text_shape:
  assumes "time_ok a" shows "length (time_text a) = 24" "CHR 0x00 \<notin> set (time_text a)"
proof -
  have "length (time_fields a) = 7" using arg_cong [OF time_text_fields(3) [OF assms], of length] by simp
  then show "length (time_text a) = 24" "CHR 0x00 \<notin> set (time_text a)"
    using time_text_fields [OF assms] fields_text_shape [where fs = "time_fields a" and seps = layout_seps]
    by (simp_all add: layout_seps_def)
qed

lemma time_text_less_iff: "time_ok a \<Longrightarrow> time_ok b \<Longrightarrow> string_less (time_text a) (time_text b) \<longleftrightarrow> a < b"
  using time_text_less string_less_asym by (metis linorder_less_linear string_less_irrefl)

lemma time_text_eq_iff: "time_ok a \<Longrightarrow> time_ok b \<Longrightarrow> time_text a = time_text b \<longleftrightarrow> a = b"
  using time_text_less_iff by (metis linorder_less_linear string_less_irrefl)

text \<open>
  Timestamps compare as text the way they compare as times. The fixed-width layout the
  program stores and sorts by has, for every two times before the year 10000, texts in the order
  of the times, so that equal texts are equal times; each is 24 bytes with no NUL among them.
\<close>

theorem time_text_order:
  assumes "time_ok a" "time_ok b"
  shows "(string_less (time_text a) (time_text b) \<longleftrightarrow> a < b) \<and> (time_text a = time_text b \<longleftrightarrow> a = b)
    \<and> length (time_text a) = 24 \<and> CHR 0x00 \<notin> set (time_text a)"
  using time_text_less_iff [OF assms] time_text_eq_iff [OF assms] time_text_shape [OF assms(1)] by blast

lemma time_text_order_witness:
  "time_text 63902963247089 = ''2026-01-02T15:07:27.089Z'' \<and>
   string_less ''2026-01-02T15:07:27.089Z'' (time_text 63902963247090)"
proof -
  have t: "time_text 63902963247089 = ''2026-01-02T15:07:27.089Z''" by code_simp
  show ?thesis using time_text_order [of 63902963247089 63902963247090] unfolding t
    by (simp add: time_ok_def layout_end_def)
qed

end
