(* ===== verification/Go_Base64_URL.thy ===== *)
theory Go_Base64_URL
  imports Go_Base64
begin

text \<open>
  Go's \<open>base64.RawURLEncoding\<close>: the URL alphabet, without padding. Its decoder skips carriage
  returns and newlines, and leaves the unused bits of a last partial quantum unread.
\<close>

definition raw_char :: "nat \<Rightarrow> byte" where
  "raw_char n =
     of_nat (if n < 26 then n + 65 else if n < 52 then n + 71 else if n < 62 then n - 4
             else if n = 62 then 45 else 95)"

definition raw_value :: "byte \<Rightarrow> nat option" where
  "raw_value c =
     (let m = unat c in
      if 65 \<le> m \<and> m \<le> 90 then Some (m - 65)
      else if 97 \<le> m \<and> m \<le> 122 then Some (m - 71)
      else if 48 \<le> m \<and> m \<le> 57 then Some (m + 4)
      else if m = 45 then Some 62
      else if m = 95 then Some 63
      else None)"

fun raw_encode :: "bytes \<Rightarrow> bytes" where
  "raw_encode [] = []"
| "raw_encode [x] = (let a = unat x in [raw_char (a div 4), raw_char (a mod 4 * 16)])"
| "raw_encode [x, y] =
     (let a = unat x; b = unat y in
      [raw_char (a div 4), raw_char (a mod 4 * 16 + b div 16), raw_char (b mod 16 * 4)])"
| "raw_encode (x # y # z # zs) =
     (let a = unat x; b = unat y; c = unat z in
      [raw_char (a div 4), raw_char (a mod 4 * 16 + b div 16), raw_char (b mod 16 * 4 + c div 64),
       raw_char (c mod 64)] @ raw_encode zs)"

definition first_byte :: "nat \<Rightarrow> nat \<Rightarrow> byte" where
  "first_byte u v = of_nat (u * 4 + v div 16)"

definition second_byte :: "nat \<Rightarrow> nat \<Rightarrow> byte" where
  "second_byte v w = of_nat (v mod 16 * 16 + w div 4)"

definition third_byte :: "nat \<Rightarrow> nat \<Rightarrow> byte" where
  "third_byte w t = of_nat (w mod 4 * 64 + t)"

fun raw_quanta :: "bytes \<Rightarrow> bytes option" where
  "raw_quanta [] = Some []"
| "raw_quanta [p] = None"
| "raw_quanta [p, q] =
     (case (raw_value p, raw_value q) of (Some u, Some v) \<Rightarrow> Some [first_byte u v] | _ \<Rightarrow> None)"
| "raw_quanta [p, q, r] =
     (case (raw_value p, raw_value q, raw_value r) of
        (Some u, Some v, Some w) \<Rightarrow> Some [first_byte u v, second_byte v w]
      | _ \<Rightarrow> None)"
| "raw_quanta (p # q # r # s # rest) =
     (case (raw_value p, raw_value q, raw_value r, raw_value s) of
        (Some u, Some v, Some w, Some t) \<Rightarrow>
          map_option (\<lambda>bs. first_byte u v # second_byte v w # third_byte w t # bs) (raw_quanta rest)
      | _ \<Rightarrow> None)"

definition raw_decode :: "bytes \<Rightarrow> bytes option" where
  "raw_decode t = raw_quanta (filter (\<lambda>c. c \<noteq> 10 \<and> c \<noteq> 13) t)"

lemma unat_raw_char:
  "n < 64 \<Longrightarrow> unat (raw_char n) =
     (if n < 26 then n + 65 else if n < 52 then n + 71 else if n < 62 then n - 4
      else if n = 62 then 45 else 95)"
  unfolding raw_char_def by (rule unat_of_nat_byte) auto

lemma raw_value_char [simp]: "n < 64 \<Longrightarrow> raw_value (raw_char n) = Some n"
  unfolding raw_value_def unat_raw_char Let_def by auto

lemma raw_char_line: "n < 64 \<Longrightarrow> raw_char n \<noteq> 10 \<and> raw_char n \<noteq> 13"
proof -
  assume n: "n < 64"
  have "unat (raw_char n) \<noteq> 10 \<and> unat (raw_char n) \<noteq> 13" unfolding unat_raw_char [OF n] using n by auto
  then show ?thesis by auto
qed

lemma raw_encode_chars: "c \<in> set (raw_encode s) \<Longrightarrow> c \<noteq> 10 \<and> c \<noteq> 13"
proof (induction s rule: raw_encode.induct)
  case (2 x)
  then show ?case using sextets [of "unat x" 0 0] by (auto simp: Let_def raw_char_line)
next
  case (3 x y)
  then show ?case using sextets [of "unat x" "unat y" 0] by (auto simp: Let_def raw_char_line)
next
  case (4 x y z zs)
  then show ?case using sextets [of "unat x" "unat y" "unat z"] by (auto simp: Let_def raw_char_line)
qed simp

lemmas raw_bytes = first_byte_def second_byte_def third_byte_def

lemma raw_quanta_chars:
  "u < 64 \<Longrightarrow> v < 64 \<Longrightarrow> w < 64 \<Longrightarrow> t < 64 \<Longrightarrow>
   raw_quanta (raw_char u # raw_char v # raw_char w # raw_char t # rest) =
     map_option (\<lambda>bs. of_nat (u * 4 + v div 16) # of_nat (v mod 16 * 16 + w div 4) #
       of_nat (w mod 4 * 64 + t) # bs) (raw_quanta rest)"
  by (simp add: raw_bytes)

lemma raw_quanta_encode: "raw_quanta (raw_encode s) = Some s"
proof (induction s rule: raw_encode.induct)
  case (2 x)
  show ?case using sextets [of "unat x" 0 0] by (simp add: Let_def raw_bytes)
next
  case (3 x y)
  show ?case using sextets [of "unat x" "unat y" 0] by (simp add: Let_def raw_bytes)
next
  case (4 x y z zs)
  note S = sextets [OF unat_byte_less [of x] unat_byte_less [of y] unat_byte_less [of z]]
  show ?case
    unfolding raw_encode.simps Let_def append_Cons append_Nil raw_quanta_chars [OF S(1-4)] S(7-9)
    using 4 by simp
qed simp

lemma raw_decode_encode [simp, codec_simps]: "raw_decode (raw_encode s) = Some s"
proof -
  have "filter (\<lambda>c. c \<noteq> 10 \<and> c \<noteq> 13) (raw_encode s) = raw_encode s"
    by (auto simp: filter_id_conv dest: raw_encode_chars)
  then show ?thesis by (simp add: raw_decode_def raw_quanta_encode)
qed

lemma raw_encode_Nil_iff [simp]: "raw_encode s = [] \<longleftrightarrow> s = []"
  by (cases s rule: raw_encode.cases) (auto simp: Let_def)

end
