(* ===== verification/Local_Records.thy ===== *)
theory Local_Records
  imports Local_Ranking Go_Time Go_Base64_URL
begin

text \<open>
  Listing records by their metadata (\<open>local/records.go\<close>): the query, the cursor that names the
  last row of a page, and the page a query returns.
\<close>

section \<open>Queries and rows\<close>

record RecordQuery =
  rqy_Kinds :: "Kind list"
  rqy_Types :: "RecType list"
  rqy_Tags :: "string list"
  rqy_IncludeSuperseded :: bool
  rqy_Limit :: int
  rqy_Cursor :: string

record RecordRow =
  rrw_ID :: ID
  rrw_Kind :: Kind
  rrw_Type :: RecType
  rrw_Tags :: "string list"
  rrw_Created :: int
  rrw_Superseded :: bool

definition DefaultRecordLimit :: int where "DefaultRecordLimit = 20"
definition MaxRecordLimit :: int where "MaxRecordLimit = 200"

definition record_limit :: "RecordQuery \<Rightarrow> nat" where
  "record_limit q =
     (let limit = (if rqy_Limit q \<le> 0 then DefaultRecordLimit else rqy_Limit q) in
      nat (if limit > MaxRecordLimit then MaxRecordLimit else limit))"

section \<open>Cursors\<close>

definition cursorSeparator :: string where
  "cursorSeparator = [CHR 0x00]"

definition encodeCursor :: "int \<Rightarrow> ID \<Rightarrow> string" where
  "encodeCursor created i =
     bytes_string (raw_encode (string_bytes (time_text created @ cursorSeparator @ ID_String i)))"

definition Cursor_decode :: "string \<Rightarrow> (local_error, string \<times> string) result" where
  "Cursor_decode c =
     (if c = '''' then Inr ('''', '''')
      else case raw_decode (string_bytes c) of
        None \<Rightarrow> Inl BadCursor
      | Some raw \<Rightarrow>
          case Cut cursorSeparator (bytes_string raw) of
            None \<Rightarrow> Inl BadCursor
          | Some (created, i) \<Rightarrow> case ParseID i of Inl _ \<Rightarrow> Inl BadCursor | Inr _ \<Rightarrow> Inr (created, i))"

section \<open>A page\<close>

definition superseded_row :: "MetaRow list \<Rightarrow> MetaRow \<Rightarrow> bool" where
  "superseded_row metas m \<longleftrightarrow> list_ex (\<lambda>r. mr_Supersedes r = Some (mr_ID m)) metas"

text \<open>The conditions of the \<open>WHERE\<close> clause but the cursor's.\<close>

definition record_matches :: "(string \<Rightarrow> string) \<Rightarrow> RecordQuery \<Rightarrow> MetaRow list \<Rightarrow> (ID \<times> string) list \<Rightarrow> MetaRow \<Rightarrow> bool" where
  "record_matches u q metas tags m \<longleftrightarrow>
     (rqy_Kinds q = [] \<or> mr_Kind m \<in> set (rqy_Kinds q)) \<and>
     (rqy_Types q = [] \<or> mr_Type m \<in> set (rqy_Types q)) \<and>
     list_all (\<lambda>tag. (mr_ID m, tag) \<in> set tags) (NormalizeTags u (rqy_Tags q)) \<and>
     (rqy_IncludeSuperseded q \<or> \<not> superseded_row metas m)"

definition cursor_past :: "string \<Rightarrow> string \<Rightarrow> MetaRow \<Rightarrow> bool" where
  "cursor_past created i m \<longleftrightarrow>
     created = '''' \<or> string_less (time_text (mr_CreatedAt m)) created \<or>
     (time_text (mr_CreatedAt m) = created \<and> string_less i (ID_String (mr_ID m)))"

text \<open>\<open>ORDER BY created_at DESC, record_id ASC\<close>.\<close>

definition record_before :: "MetaRow \<Rightarrow> MetaRow \<Rightarrow> bool" where
  "record_before a b \<longleftrightarrow>
     string_less (time_text (mr_CreatedAt b)) (time_text (mr_CreatedAt a)) \<or>
     (time_text (mr_CreatedAt a) = time_text (mr_CreatedAt b) \<and> string_less (ID_String (mr_ID a)) (ID_String (mr_ID b)))"

definition record_listing :: "(string \<Rightarrow> string) \<Rightarrow> RecordQuery \<Rightarrow> string \<Rightarrow> string \<Rightarrow> MetaRow list \<Rightarrow> (ID \<times> string) list \<Rightarrow> MetaRow list" where
  "record_listing u q created i metas tags =
     SliceStable record_before (filter (\<lambda>m. record_matches u q metas tags m \<and> cursor_past created i m) metas)"

definition record_row :: "MetaRow list \<Rightarrow> MetaRow \<Rightarrow> RecordRow" where
  "record_row metas m =
     \<lparr>rrw_ID = mr_ID m, rrw_Kind = mr_Kind m, rrw_Type = mr_Type m, rrw_Tags = [], rrw_Created = mr_CreatedAt m,
      rrw_Superseded = superseded_row metas m\<rparr>"

definition attachTags :: "RecordRow list \<Rightarrow> ('z, RecordRow list) local_op" where
  "attachTags page =
     (if page = [] then ret_io page
      else bind_io (sql_query dv_record_tags) (\<lambda>tags.
        ret_io (map (\<lambda>r. r\<lparr>rrw_Tags := rrw_Tags r @ tags_of tags (rrw_ID r)\<rparr>) page)))"

definition ListRecords :: "(string \<Rightarrow> string) \<Rightarrow> RecordQuery \<Rightarrow> ('z, RecordRow list \<times> string) local_op" where
  "ListRecords u q =
     (let limit = record_limit q in
      bind_io (lift_io (Cursor_decode (rqy_Cursor q))) (\<lambda>(created, i).
      bind_io (sql_query (\<lambda>s. map (record_row (dv_record_meta s))
         (take (limit + 1) (record_listing u q created i (dv_record_meta s) (dv_record_tags s))))) (\<lambda>rows.
      let more = limit < length rows in
      bind_io (attachTags (take limit rows)) (\<lambda>out.
      if \<not> more \<or> out = [] then ret_io (out, '''')
      else ret_io (out, encodeCursor (rrw_Created (last out)) (rrw_ID (last out)))))))"

definition CountRecordsByKind :: "('z, Kind \<rightharpoonup> nat) local_op" where
  "CountRecordsByKind =
     sql_query (\<lambda>s kind. let n = length (filter (\<lambda>m. mr_Kind m = kind) (dv_record_meta s)) in if n = 0 then None else Some n)"

section \<open>A cursor names a row\<close>

lemma Cut_first: "c \<notin> set a \<Longrightarrow> Cut [c] (a @ c # b) = Some (a, b)"
  by (induction a) auto

lemma Cursor_decode_encode:
  assumes "time_ok t" "wf_id i"
  shows "Cursor_decode (encodeCursor t i) = Inr (time_text t, ID_String i)" "encodeCursor t i \<noteq> ''''"
proof -
  have n: "CHR 0x00 \<notin> set (time_text t)"
    by (rule time_text_shape(2) [OF assms(1)])
  have "string_bytes (encodeCursor t i) = raw_encode (string_bytes (time_text t @ cursorSeparator @ ID_String i))"
    by (simp add: encodeCursor_def)
  moreover show "encodeCursor t i \<noteq> ''''"
    by (simp add: encodeCursor_def bytes_string_def string_bytes_def cursorSeparator_def)
  ultimately show "Cursor_decode (encodeCursor t i) = Inr (time_text t, ID_String i)"
    using Cut_first [OF n, of "ID_String i"] ParseID_ID_String [OF assms(2)]
    by (simp add: Cursor_decode_def cursorSeparator_def)
qed

text \<open>The order of rows in terms of times and ids.\<close>

definition row_ok :: "MetaRow \<Rightarrow> bool" where
  "row_ok m \<longleftrightarrow> time_ok (mr_CreatedAt m) \<and> wf_id (mr_ID m)"

definition key_before :: "int \<times> ID \<Rightarrow> int \<times> ID \<Rightarrow> bool" where
  "key_before a b \<longleftrightarrow> fst b < fst a \<or> (fst a = fst b \<and> string_less (ID_String (snd a)) (ID_String (snd b)))"

lemma key_before_asym: "key_before a b \<Longrightarrow> \<not> key_before b a"
  using string_less_asym by (auto simp: key_before_def)

lemma key_before_trans: "key_before a b \<Longrightarrow> key_before b c \<Longrightarrow> key_before a c"
  using string_less_trans by (auto simp: key_before_def)

lemma key_before_linear: "key_before a b \<or> a = b \<or> key_before b a"
  using string_less_linear [of "ID_String (snd a)" "ID_String (snd b)"] by (cases a; cases b) (auto simp: key_before_def)

lemma key_before_neg_trans: "\<not> key_before a b \<Longrightarrow> \<not> key_before b c \<Longrightarrow> \<not> key_before a c"
  using key_before_linear [of a b] key_before_linear [of b c] key_before_trans [of c b a] key_before_asym by blast

lemma key_sorted_strict: "sorted_wrt (\<lambda>a b. \<not> key_before b a) ks \<Longrightarrow> distinct ks \<Longrightarrow> sorted_wrt key_before ks"
proof (induction ks)
  case (Cons k ks)
  have "key_before k x" if "x \<in> set ks" for x
    using that Cons.prems key_before_linear [of k x] by auto
  with Cons show ?case by simp
qed simp

definition meta_key :: "MetaRow \<Rightarrow> int \<times> ID" where
  "meta_key m = (mr_CreatedAt m, mr_ID m)"

lemma record_before_key: "row_ok a \<Longrightarrow> row_ok b \<Longrightarrow> record_before a b \<longleftrightarrow> key_before (meta_key a) (meta_key b)"
  by (simp add: record_before_def key_before_def meta_key_def row_ok_def time_text_less_iff time_text_eq_iff)

lemma cursor_past_key:
  "row_ok m \<Longrightarrow> time_ok t \<Longrightarrow> cursor_past (time_text t) (ID_String i) m \<longleftrightarrow> key_before (t, i) (meta_key m)"
proof -
  assume a: "row_ok m" "time_ok t"
  have "time_text t \<noteq> ''''"
    using time_text_shape(1) [OF a(2)] by auto
  then show ?thesis using a
    by (simp add: cursor_past_def key_before_def meta_key_def row_ok_def time_text_less_iff time_text_eq_iff) blast
qed

interpretation records: weak_order record_before row_ok
proof
  show "\<not> record_before b a" if "row_ok a" "row_ok b" "record_before a b" for a b
    using that key_before_asym by (simp add: record_before_key)
  show "\<not> record_before a c" if "row_ok a" "row_ok b" "row_ok c" "\<not> record_before a b" "\<not> record_before b c" for a b c
    using key_before_neg_trans [OF that(4,5) [unfolded record_before_key [OF that(1,2)] record_before_key [OF that(2,3)]]]
    by (simp add: record_before_key that)
qed

section \<open>Paging\<close>

lemma bind_io_run: "m s = (Inr x, s1) \<Longrightarrow> bind_io m f s = f x s1"
  by (simp add: bind_io_def)

lemma list_records_run:
  assumes "ListRecords u q s = (Inr (page, c), s')"
  shows "\<exists>created i. Cursor_decode (rqy_Cursor q) = Inr (created, i) \<and>
    (let rows = record_listing u q created i (dv_record_meta s) (dv_record_tags s); n = record_limit q in
     map rrw_ID page = map mr_ID (take n rows) \<and> map rrw_Created page = map mr_CreatedAt (take n rows) \<and>
     map rrw_Superseded page = map (superseded_row (dv_record_meta s)) (take n rows) \<and>
     c = (if n < length rows then encodeCursor (rrw_Created (last page)) (rrw_ID (last page)) else ''''))"
proof -
  obtain created i where dec: "Cursor_decode (rqy_Cursor q) = Inr (created, i)"
    using assms by (cases "Cursor_decode (rqy_Cursor q)") (auto simp: ListRecords_def bind_io_def lift_io_def Let_def fail_io_def)
  let ?n = "record_limit q" and ?L = "record_listing u q created i (dv_record_meta s) (dv_record_tags s)"
  let ?rows = "map (record_row (dv_record_meta s)) (take (?n + 1) ?L)"
  have "0 < ?n" by (simp add: record_limit_def Let_def DefaultRecordLimit_def MaxRecordLimit_def)
  have t: "take ?n ?rows = map (record_row (dv_record_meta s)) (take ?n ?L)" by (simp add: take_map)
  have r: "ListRecords u q s = bind_io (sql_query (\<lambda>s. map (record_row (dv_record_meta s))
         (take (?n + 1) (record_listing u q created i (dv_record_meta s) (dv_record_tags s))))) (\<lambda>rows.
      bind_io (attachTags (take ?n rows)) (\<lambda>out.
      if \<not> ?n < length rows \<or> out = [] then ret_io (out, '''')
      else ret_io (out, encodeCursor (rrw_Created (last out)) (rrw_ID (last out))))) s"
    by (simp add: ListRecords_def dec Let_def bind_io_def lift_io_def ret_io_def)
  let ?read = "sql_query (\<lambda>s. map (record_row (dv_record_meta s))
         (take (?n + 1) (record_listing u q created i (dv_record_meta s) (dv_record_tags s))))"
  obtain s1 where s1: "?read s = (Inr ?rows, s1)"
    using assms unfolding r by (auto simp: bind_io_def sql_query_runs split: if_splits)
  have "bind_io (attachTags (take ?n ?rows)) (\<lambda>out.
      if \<not> ?n < length ?rows \<or> out = [] then ret_io (out, '''')
      else ret_io (out, encodeCursor (rrw_Created (last out)) (rrw_ID (last out)))) s1 = (Inr (page, c), s')"
    using assms unfolding r bind_io_run [where m = ?read and s = s and x = ?rows and ?s1.0 = s1, OF s1] .
  then obtain s2 where att: "attachTags (take ?n ?rows) s1 = (Inr page, s2)"
    and c: "c = (if \<not> ?n < length ?rows \<or> page = [] then '''' else encodeCursor (rrw_Created (last page)) (rrw_ID (last page)))"
    by (auto simp: bind_io_def ret_io_def split: prod.splits sum.splits if_splits)
  have m: "map rrw_ID page = map rrw_ID (take ?n ?rows)" "map rrw_Created page = map rrw_Created (take ?n ?rows)"
    "map rrw_Superseded page = map rrw_Superseded (take ?n ?rows)"
    using att by (auto simp: attachTags_def bind_io_def ret_io_def sql_query_runs o_def split: if_splits)
  have "page = [] \<longleftrightarrow> ?L = []"
    using m(1) \<open>0 < ?n\<close> by (metis (no_types, lifting) length_map length_0_conv take_eq_Nil t not_less0)
  then have "c = (if ?n < length ?L then encodeCursor (rrw_Created (last page)) (rrw_ID (last page)) else '''')"
    unfolding c by auto
  with m dec show ?thesis unfolding t by (simp add: Let_def record_row_def o_def)
qed

text \<open>A listing read page by page, from one state of the device to the next.\<close>

inductive paging :: "(string \<Rightarrow> string) \<Rightarrow> RecordQuery \<Rightarrow> string \<Rightarrow> 'z device_scheme list \<Rightarrow> RecordRow list \<Rightarrow> string \<Rightarrow> bool"
  for u q where
  last_page: "ListRecords u (q\<lparr>rqy_Cursor := c\<rparr>) s = (Inr (page, c'), s') \<Longrightarrow> paging u q c [s] page c'"
| next_page: "ListRecords u (q\<lparr>rqy_Cursor := c\<rparr>) s = (Inr (page, c'), s') \<Longrightarrow> c' \<noteq> '''' \<Longrightarrow>
    paging u q c' ss rows d \<Longrightarrow> paging u q c (s # ss) (page @ rows) d"

definition records_ok :: "'z device_scheme \<Rightarrow> bool" where
  "records_ok s \<longleftrightarrow> distinct (map mr_ID (dv_record_meta s)) \<and> (\<forall>m \<in> set (dv_record_meta s). row_ok m)"

definition listed :: "(string \<Rightarrow> string) \<Rightarrow> RecordQuery \<Rightarrow> 'z device_scheme \<Rightarrow> MetaRow \<Rightarrow> bool" where
  "listed u q s m \<longleftrightarrow> m \<in> set (dv_record_meta s) \<and> record_matches u q (dv_record_meta s) (dv_record_tags s) m"

definition row_key :: "RecordRow \<Rightarrow> int \<times> ID" where
  "row_key r = (rrw_Created r, rrw_ID r)"

text \<open>What a cursor stands for: the beginning, or a row.\<close>

definition cursor_at :: "string \<Rightarrow> (int \<times> ID) option \<Rightarrow> bool" where
  "cursor_at c pos \<longleftrightarrow> (case pos of None \<Rightarrow> c = '''' | Some (t, i) \<Rightarrow> time_ok t \<and> wf_id i \<and> c = encodeCursor t i)"

definition past :: "(int \<times> ID) option \<Rightarrow> int \<times> ID \<Rightarrow> bool" where
  "past pos k \<longleftrightarrow> (case pos of None \<Rightarrow> True | Some p \<Rightarrow> key_before p k)"

lemma record_matches_cursor [simp]: "record_matches u (q\<lparr>rqy_Cursor := c\<rparr>) = record_matches u q"
  by (simp add: record_matches_def fun_eq_iff)

lemma record_limit_cursor [simp]: "record_limit (q\<lparr>rqy_Cursor := c\<rparr>) = record_limit q"
  by (simp add: record_limit_def)

lemma page_rows:
  assumes "ListRecords u (q\<lparr>rqy_Cursor := c\<rparr>) s = (Inr (page, c'), s')" "cursor_at c pos" "records_ok s"
  obtains rows where
    "map row_key page = take (record_limit q) (map meta_key rows)"
    "sorted_wrt key_before (map meta_key rows)"
    "set rows = {m. listed u q s m \<and> past pos (meta_key m)}"
    "c' = (if record_limit q < length rows then encodeCursor (rrw_Created (last page)) (rrw_ID (last page)) else '''')"
proof -
  let ?M = "dv_record_meta s" and ?T = "dv_record_tags s"
  obtain created i where dec: "Cursor_decode c = Inr (created, i)"
    and page: "map rrw_ID page = map mr_ID (take (record_limit q) (record_listing u (q\<lparr>rqy_Cursor := c\<rparr>) created i ?M ?T))"
      "map rrw_Created page = map mr_CreatedAt (take (record_limit q) (record_listing u (q\<lparr>rqy_Cursor := c\<rparr>) created i ?M ?T))"
      "c' = (if record_limit q < length (record_listing u (q\<lparr>rqy_Cursor := c\<rparr>) created i ?M ?T)
         then encodeCursor (rrw_Created (last page)) (rrw_ID (last page)) else '''')"
    using list_records_run [OF assms(1)] by (auto simp: Let_def)
  define rows where "rows = record_listing u (q\<lparr>rqy_Cursor := c\<rparr>) created i ?M ?T"
  have after: "cursor_past created i m \<longleftrightarrow> past pos (meta_key m)" if "m \<in> set ?M" for m
  proof (cases pos)
    case None
    then show ?thesis using assms(2) dec by (auto simp: cursor_at_def Cursor_decode_def cursor_past_def past_def)
  next
    case (Some p)
    then obtain t j where p: "pos = Some (t, j)" "time_ok t" "wf_id j" "c = encodeCursor t j"
      using assms(2) by (cases p) (auto simp: cursor_at_def)
    then have "created = time_text t" "i = ID_String j" using dec Cursor_decode_encode(1) [OF p(2,3)] by simp_all
    then show ?thesis using cursor_past_key [OF _ p(2)] assms(3) that by (simp add: p(1) past_def records_ok_def)
  qed
  have ok: "\<forall>m \<in> set (filter (\<lambda>m. record_matches u (q\<lparr>rqy_Cursor := c\<rparr>) ?M ?T m \<and> cursor_past created i m) ?M). row_ok m"
    using assms(3) by (simp add: records_ok_def)
  have set_rows: "set rows = {m. listed u q s m \<and> past pos (meta_key m)}"
    using after by (auto simp: rows_def record_listing_def listed_def)
  have "distinct (map mr_ID rows)"
  proof -
    have "mset (map mr_ID rows) = mset (map mr_ID (filter (\<lambda>m. record_matches u (q\<lparr>rqy_Cursor := c\<rparr>) ?M ?T m \<and> cursor_past created i m) ?M))"
      unfolding rows_def record_listing_def mset_map mset_SliceStable ..
    then show ?thesis using assms(3) distinct_map_filter mset_eq_imp_distinct_iff unfolding records_ok_def by blast
  qed
  then have dist: "distinct (map meta_key rows)" by (auto simp: distinct_map inj_on_def meta_key_def)
  have "sorted_wrt (\<lambda>a b. \<not> record_before b a) rows"
    using records.arranged_SliceStable [OF ok] by (simp add: records.arranged_def rows_def record_listing_def)
  moreover have "\<forall>m \<in> set rows. row_ok m" using set_rows assms(3) by (auto simp: listed_def records_ok_def)
  ultimately have "sorted_wrt (\<lambda>a b. \<not> key_before b a) (map meta_key rows)"
    by (auto simp: sorted_wrt_map record_before_key intro: sorted_wrt_mono_rel [rotated])
  with dist have "sorted_wrt key_before (map meta_key rows)"
    by (rule key_sorted_strict [rotated])
  moreover have "map row_key page = take (record_limit q) (map meta_key rows)"
  proof -
    have "map row_key page = zip (map rrw_Created page) (map rrw_ID page)" by (simp add: row_key_def zip_map_map zip_same_conv_map o_def)
    also have "\<dots> = map meta_key (take (record_limit q) rows)"
      unfolding page(1,2) rows_def [symmetric] by (simp add: meta_key_def zip_map_map zip_same_conv_map o_def)
    finally show ?thesis by (simp add: take_map)
  qed
  ultimately show ?thesis using that set_rows page(3) unfolding rows_def by blast
qed

lemma record_limit_bounds: "0 < record_limit q" "record_limit q \<le> 200"
  by (auto simp: record_limit_def Let_def DefaultRecordLimit_def MaxRecordLimit_def nat_le_iff)

text \<open>One page: the first rows past the position, and where the next page starts.\<close>

lemma page_step:
  assumes "ListRecords u (q\<lparr>rqy_Cursor := c\<rparr>) s = (Inr (page, c'), s')" "cursor_at c pos" "records_ok s"
  shows "sorted_wrt key_before (map row_key page)"
    "r \<in> set page \<Longrightarrow> past pos (row_key r) \<and> (\<exists>m. listed u q s m \<and> meta_key m = row_key r)"
    "c' \<noteq> '''' \<Longrightarrow> length page = record_limit q \<and> cursor_at c' (Some (row_key (last page)))"
    "listed u q s m \<Longrightarrow> past pos (meta_key m) \<Longrightarrow>
     meta_key m \<in> row_key ` set page \<or> (c' \<noteq> '''' \<and> key_before (row_key (last page)) (meta_key m))"
proof -
  obtain rows where rows: "map row_key page = take (record_limit q) (map meta_key rows)"
      "sorted_wrt key_before (map meta_key rows)" "set rows = {m. listed u q s m \<and> past pos (meta_key m)}"
      "c' = (if record_limit q < length rows then encodeCursor (rrw_Created (last page)) (rrw_ID (last page)) else '''')"
    using page_rows [OF assms] .
  let ?n = "record_limit q"
  have split: "map meta_key rows = map row_key page @ drop ?n (map meta_key rows)" using rows(1) by simp
  have len: "length page = min ?n (length rows)" using arg_cong [OF rows(1), of length] by simp
  have keys: "row_key ` set page \<subseteq> meta_key ` set rows" by (metis rows(1) set_map set_take_subset)
  show "sorted_wrt key_before (map row_key page)" using rows(2) by (subst (asm) split) (simp add: sorted_wrt_append)
  show row: "past pos (row_key r) \<and> (\<exists>m. listed u q s m \<and> meta_key m = row_key r)" if "r \<in> set page" for r
  proof -
    from that keys obtain m where "m \<in> set rows" "row_key r = meta_key m" by blast
    then show ?thesis using rows(3) by auto
  qed
  have ne: "page \<noteq> []" if "?n < length rows" using len that record_limit_bounds(1) [of q] by auto
  have last_ok: "cursor_at (encodeCursor (rrw_Created (last page)) (rrw_ID (last page))) (Some (row_key (last page)))"
    if "page \<noteq> []"
  proof -
    from row [OF last_in_set [OF that]] obtain m where m: "listed u q s m" "meta_key m = row_key (last page)" by blast
    then have "row_ok m" using assms(3) by (simp add: records_ok_def listed_def)
    then show ?thesis using m(2) by (auto simp: cursor_at_def row_key_def meta_key_def row_ok_def)
  qed
  show "length page = ?n \<and> cursor_at c' (Some (row_key (last page)))" if "c' \<noteq> ''''"
  proof -
    have lt: "?n < length rows" using that rows(4) by (auto split: if_splits)
    then show ?thesis using len last_ok [OF ne [OF lt]] rows(4) by simp
  qed
  show "meta_key m \<in> row_key ` set page \<or> (c' \<noteq> '''' \<and> key_before (row_key (last page)) (meta_key m))"
    if "listed u q s m" "past pos (meta_key m)"
  proof -
    have "meta_key m \<in> set (map meta_key rows)" using that rows(3) by auto
    then consider "meta_key m \<in> row_key ` set page" | "meta_key m \<in> set (drop ?n (map meta_key rows))"
      using split by (metis Un_iff set_append set_map)
    then show ?thesis
    proof cases
      case 2
      then have lt: "?n < length rows" by (metis drop_map drop_eq_Nil empty_iff leI list.set(1) length_map map_is_Nil_conv)
      have "row_key (last page) \<in> set (map row_key page)" using ne [OF lt] by simp
      moreover have "\<forall>x \<in> set (map row_key page). \<forall>y \<in> set (drop ?n (map meta_key rows)). key_before x y"
        using rows(2) by (subst (asm) split) (simp add: sorted_wrt_append)
      ultimately have "key_before (row_key (last page)) (meta_key m)" using 2 by blast
      moreover have "c' \<noteq> ''''"
      proof -
        obtain t i where k: "row_key (last page) = (t, i)" by (cases "row_key (last page)")
        then have "time_ok t" "wf_id i" using last_ok [OF ne [OF lt]] by (simp_all add: cursor_at_def)
        then show ?thesis using Cursor_decode_encode(2) [of t i] rows(4) lt k by (simp add: row_key_def)
      qed
      ultimately show ?thesis by simp
    qed simp
  qed
qed

lemma past_trans: "past pos k \<Longrightarrow> past (Some k) j \<Longrightarrow> past pos j"
  using key_before_trans [of "the pos" k j] by (cases pos) (simp_all add: past_def)

lemma sorted_last: "sorted_wrt key_before ks \<Longrightarrow> k \<in> set ks \<Longrightarrow> k = last ks \<or> key_before k (last ks)"
  by (induction ks) (auto split: if_splits)

lemma paging_spec:
  assumes "paging u q c ss rows d" "cursor_at c pos" "\<forall>s \<in> set ss. records_ok s"
  shows "sorted_wrt key_before (map row_key rows) \<and>
    (\<forall>r \<in> set rows. past pos (row_key r) \<and> (\<exists>s \<in> set ss. \<exists>m. listed u q s m \<and> meta_key m = row_key r)) \<and>
    (d = '''' \<longrightarrow> (\<forall>k. past pos k \<longrightarrow> (\<forall>s \<in> set ss. \<exists>m. listed u q s m \<and> meta_key m = k) \<longrightarrow> k \<in> row_key ` set rows)) \<and>
    (d \<noteq> '''' \<longrightarrow> length rows = length ss * record_limit q)"
  using assms
proof (induction arbitrary: pos rule: paging.induct)
  case (last_page c s page c' s')
  have "records_ok s" using last_page.prems(2) by simp
  note p = page_step [OF last_page.hyps last_page.prems(1) this]
  have "k \<in> row_key ` set page" if "c' = ''''" "past pos k" "\<exists>m. listed u q s m \<and> meta_key m = k" for k
    using that p(4) by blast
  then show ?case using p(1,2,3) by auto
next
  case (next_page c s page c' s' ss rows d)
  have ok: "records_ok s" "\<forall>s \<in> set ss. records_ok s" using next_page.prems(2) by simp_all
  note p = page_step [OF next_page.hyps(1) next_page.prems(1) ok(1)]
  let ?p = "row_key (last page)"
  have full: "length page = record_limit q" "cursor_at c' (Some ?p)" using p(3) next_page.hyps(2) by simp_all
  note ih = next_page.IH [OF full(2) ok(2)]
  have ne: "page \<noteq> []" using full(1) record_limit_bounds(1) [of q] by auto
  have lp: "past pos ?p" using p(2) [OF last_in_set [OF ne]] by blast
  have "sorted_wrt key_before (map row_key (page @ rows))"
  proof -
    have "key_before (row_key r) (row_key r')" if "r \<in> set page" "r' \<in> set rows" for r r'
    proof -
      have "row_key r = last (map row_key page) \<or> key_before (row_key r) (last (map row_key page))"
        by (rule sorted_last [OF p(1)]) (use that(1) in simp)
      then have "row_key r = ?p \<or> key_before (row_key r) ?p" by (simp add: last_map ne)
      moreover have "key_before ?p (row_key r')" using ih that(2) by (simp add: past_def)
      ultimately show ?thesis using key_before_trans by metis
    qed
    then show ?thesis using p(1) ih by (simp add: sorted_wrt_append)
  qed
  moreover have "past pos (row_key r) \<and> (\<exists>s' \<in> set (s # ss). \<exists>m. listed u q s' m \<and> meta_key m = row_key r)"
    if "r \<in> set (page @ rows)" for r
  proof (cases "r \<in> set page")
    case True
    then show ?thesis using p(2) by auto
  next
    case False
    then show ?thesis using that ih past_trans [OF lp] by auto
  qed
  moreover have "k \<in> row_key ` set (page @ rows)"
    if "d = ''''" "past pos k" "\<forall>s' \<in> set (s # ss). \<exists>m. listed u q s' m \<and> meta_key m = k" for k
  proof -
    from that(3) obtain m where m: "listed u q s m" "meta_key m = k" by auto
    with p(4) [OF m(1)] that(2) have "k \<in> row_key ` set page \<or> past (Some ?p) k" by (auto simp: past_def)
    moreover have "\<forall>s' \<in> set ss. \<exists>m. listed u q s' m \<and> meta_key m = k" using that(3) by simp
    ultimately show ?thesis using ih that(1) unfolding set_append image_Un by blast
  qed
  moreover have "length (page @ rows) = length (s # ss) * record_limit q" if "d \<noteq> ''''"
    using ih that full(1) by simp
  ultimately show ?case by blast
qed

text \<open>
  C31. Paging through a vault that is being written to repeats no record and skips none. Follow
  cursors from the beginning, each page read from whatever state the device is in by then: the
  rows come newest first with ties by id, strictly, so no row is shown twice; every row was a
  match in some state a page was read from; when the listing ends, every row that matched in all
  of those states has been shown; and a listing that has not ended has shown full pages only, so
  it ends once the matches do.
\<close>

theorem listing_pages:
  assumes "paging u q '''' ss rows d" "\<forall>s \<in> set ss. records_ok s"
  shows "sorted_wrt key_before (map row_key rows) \<and>
    (\<forall>r \<in> set rows. \<exists>s \<in> set ss. \<exists>m. listed u q s m \<and> meta_key m = row_key r) \<and>
    (d = '''' \<longrightarrow> (\<forall>k. (\<forall>s \<in> set ss. \<exists>m. listed u q s m \<and> meta_key m = k) \<longrightarrow> k \<in> row_key ` set rows)) \<and>
    (d \<noteq> '''' \<longrightarrow> length rows = length ss * record_limit q)"
proof -
  have "cursor_at '''' None" by (simp add: cursor_at_def)
  from paging_spec [OF assms(1) this assms(2)] show ?thesis unfolding past_def option.case by blast
qed

text \<open>Three records and a page of two; a fourth is stored before the second page is read.\<close>

definition sample_meta :: "byte \<Rightarrow> int \<Rightarrow> MetaRow" where
  "sample_meta b t = \<lparr>mr_ID = replicate 16 b, mr_Kind = ''memory'', mr_Type = ''fact'', mr_Supersedes = None, mr_CreatedAt = t\<rparr>"

definition sample_listing :: "MetaRow list \<Rightarrow> device" where
  "sample_listing metas = ranking_sample\<lparr>dv_record_meta := metas, dv_record_tags := [], dv_record_lexical := []\<rparr>"

definition listing_before :: device where
  "listing_before = sample_listing [sample_meta 1 1000, sample_meta 2 3000, sample_meta 3 2000]"

definition listing_after :: device where
  "listing_after = sample_listing [sample_meta 1 1000, sample_meta 2 3000, sample_meta 3 2000, sample_meta 4 4000]"

definition sample_query :: RecordQuery where
  "sample_query = \<lparr>rqy_Kinds = [], rqy_Types = [], rqy_Tags = [], rqy_IncludeSuperseded = False, rqy_Limit = 2, rqy_Cursor = ''''\<rparr>"

definition sample_page :: "byte \<Rightarrow> int \<Rightarrow> RecordRow" where
  "sample_page b t = \<lparr>rrw_ID = replicate 16 b, rrw_Kind = ''memory'', rrw_Type = ''fact'', rrw_Tags = [], rrw_Created = t, rrw_Superseded = False\<rparr>"

lemma list_records_eval:
  assumes "Cursor_decode (rqy_Cursor q) = Inr (created, i)" "mc_plan s = (\<lambda>_. NoFault)" "dv_record_tags s = []"
    and L: "record_listing u q created i (dv_record_meta s) [] = L" "L \<noteq> []" "record_limit q = n"
  shows "\<exists>s'. ListRecords u q s = (Inr (map (record_row (dv_record_meta s)) (take n L),
      if n < length L then encodeCursor (mr_CreatedAt (L ! (n - 1))) (mr_ID (L ! (n - 1))) else ''''), s')"
proof -
  have n: "0 < n" using record_limit_bounds(1) [of q] L(3) by simp
  let ?p = "map (record_row (dv_record_meta s)) (take n L)"
  have l: "take n L \<noteq> []" using n L(2) by auto
  have e: "rrw_Created (last ?p) = mr_CreatedAt (last (take n L))" "rrw_ID (last ?p) = mr_ID (last (take n L))"
    by (simp_all add: last_map [OF l] record_row_def)
  have "last (take n L) = L ! (n - 1)" if "n < length L" using that n by (simp add: last_conv_nth [OF l])
  moreover have "map (\<lambda>r. r\<lparr>rrw_Tags := rrw_Tags r @ tags_of [] (rrw_ID r)\<rparr>) ?p = ?p"
    by (simp add: record_row_def tags_of_def SliceStable_def o_def)
  moreover have "take n (take (n + 1) L) = take n L" by simp
  ultimately show ?thesis using assms n l e
    by (simp add: ListRecords_def bind_io_def lift_io_def ret_io_def sql_query_runs attachTags_def Let_def take_map del: map_map)
qed

lemma listing_pages_witness:
  "paging id sample_query '''' [listing_before, listing_after] [sample_page 2 3000, sample_page 3 2000, sample_page 1 1000] '''' \<and>
   (1000, replicate 16 1) \<in> row_key ` {sample_page 2 3000, sample_page 3 2000, sample_page 1 1000}"
proof -
  let ?c = "encodeCursor 2000 (replicate 16 3)"
  note defs = listing_before_def listing_after_def sample_listing_def ranking_sample_def
  have l1: "record_listing id (sample_query\<lparr>rqy_Cursor := ''''\<rparr>) '''' '''' (dv_record_meta listing_before) [] =
      [sample_meta 2 3000, sample_meta 3 2000, sample_meta 1 1000]" by code_simp
  have l2: "record_listing id (sample_query\<lparr>rqy_Cursor := ?c\<rparr>) (time_text 2000) (ID_String (replicate 16 3)) (dv_record_meta listing_after) [] =
      [sample_meta 1 1000]"
    unfolding record_listing_def record_matches_cursor by code_simp
  have n: "record_limit (sample_query\<lparr>rqy_Cursor := c\<rparr>) = 2" for c
    by (simp add: record_limit_def sample_query_def Let_def DefaultRecordLimit_def MaxRecordLimit_def)
  have cd: "Cursor_decode (rqy_Cursor (sample_query\<lparr>rqy_Cursor := ?c\<rparr>)) = Inr (time_text 2000, ID_String (replicate 16 3))"
    by (simp add: Cursor_decode_encode(1) time_ok_def layout_end_def wf_id_def IDSize_def)
  have "\<exists>s1. ListRecords id (sample_query\<lparr>rqy_Cursor := ''''\<rparr>) listing_before = (Inr ([sample_page 2 3000, sample_page 3 2000], ?c), s1)"
    using list_records_eval [OF _ _ _ l1 _ n]
    by (simp add: Cursor_decode_def defs record_row_def sample_page_def sample_meta_def superseded_row_def numeral_2_eq_2)
  then obtain s1 where p1: "ListRecords id (sample_query\<lparr>rqy_Cursor := ''''\<rparr>) listing_before = (Inr ([sample_page 2 3000, sample_page 3 2000], ?c), s1)" ..
  have "\<exists>s2. ListRecords id (sample_query\<lparr>rqy_Cursor := ?c\<rparr>) listing_after = (Inr ([sample_page 1 1000], ''''), s2)"
    using list_records_eval [OF cd _ _ l2 _ n]
    by (simp add: defs record_row_def sample_page_def sample_meta_def superseded_row_def numeral_2_eq_2)
  then obtain s2 where p2: "ListRecords id (sample_query\<lparr>rqy_Cursor := ?c\<rparr>) listing_after = (Inr ([sample_page 1 1000], ''''), s2)" ..
  have "?c \<noteq> ''''" by (rule Cursor_decode_encode(2)) (simp_all add: time_ok_def layout_end_def wf_id_def IDSize_def)
  from next_page [OF p1 this last_page [OF p2]]
  have run: "paging id sample_query '''' [listing_before, listing_after] [sample_page 2 3000, sample_page 3 2000, sample_page 1 1000] ''''"
    by simp
  have ok: "\<forall>s \<in> set [listing_before, listing_after]. records_ok s"
    by (simp add: records_ok_def row_ok_def time_ok_def layout_end_def wf_id_def IDSize_def listing_before_def
        listing_after_def sample_listing_def sample_meta_def)
  have "\<exists>m. listed id sample_query s m \<and> meta_key m = (1000, replicate 16 1)" if "s \<in> {listing_before, listing_after}" for s
    using that by (intro exI [of _ "sample_meta 1 1000"])
      (auto simp: listed_def record_matches_def superseded_row_def sample_query_def listing_before_def listing_after_def
        sample_listing_def sample_meta_def meta_key_def NormalizeTags_def)
  with listing_pages [OF run ok] have "(1000, replicate 16 1) \<in> row_key ` set [sample_page 2 3000, sample_page 3 2000, sample_page 1 1000]"
    by simp
  with run show ?thesis by simp
qed

end
