(* ===== verification/Local_Sessions.thy ===== *)
theory Local_Sessions
  imports Local_Ranking
begin

text \<open>
  Session heads on the device (\<open>local/sessions.go\<close>): the one mutable record of the vault, written
  whole against the version its writer read, and the listing of their columns.
\<close>

section \<open>Writing a head\<close>

definition ProjectKey :: "Project \<Rightarrow> string" where
  "ProjectKey p = (if prj_Repo p \<noteq> '''' then prj_Repo p else prj_CWD p)"

definition head_row :: "Session \<Rightarrow> bytes \<Rightarrow> HeadRow" where
  "head_row ses head =
     \<lparr>hr_ID = ses_ID ses, hr_Version = ses_Version ses, hr_Title = ses_Title ses, hr_Summary = ses_Summary ses,
      hr_Kind = ses_Kind ses, hr_Project = ProjectKey (ses_Project ses), hr_Agent = agt_Name (ses_Agent ses),
      hr_Parent = lin_ParentSession (ses_Lineage ses), hr_Created = ses_Created ses, hr_Updated = ses_Updated ses,
      hr_Archived = ses_Archived ses, hr_Messages = cnt_Messages (ses_Counts ses), hr_Chunks = int (length (ses_Chunks ses)),
      hr_Bytes = cnt_Bytes (ses_Counts ses), hr_Head = head\<rparr>"

text \<open>The columns an update sets: all but the id and the time of creation.\<close>

definition head_update :: "Session \<Rightarrow> bytes \<Rightarrow> HeadRow \<Rightarrow> HeadRow" where
  "head_update ses head r = (head_row ses head)\<lparr>hr_ID := hr_ID r, hr_Created := hr_Created r\<rparr>"

text \<open>A statement whose result says how many rows it changed.\<close>

definition sql_affect :: "('z device_scheme \<Rightarrow> nat) \<Rightarrow> ('z device_scheme \<Rightarrow> 'z device_scheme) \<Rightarrow> ('z, nat) local_op" where
  "sql_affect rows f = bind_io (sql_query rows) (\<lambda>n. bind_io (put_io f) (\<lambda>_. ret_io n))"

definition heads_of :: "ID \<Rightarrow> 'z device_scheme \<Rightarrow> nat" where
  "heads_of i s = length (filter (\<lambda>r. hr_ID r = i) (dv_session_heads s))"

definition headWritten :: "ID \<Rightarrow> nat \<Rightarrow> int \<Rightarrow> ('z, unit) local_op" where
  "headWritten i written expect =
     (if written > 0 then ret_io ()
      else if expect > 0 then
        bind_io (sql_query (heads_of i)) (\<lambda>n. if n = 0 then fail_io ErrNotFound else fail_io ErrStaleHead)
      else fail_io ErrStaleHead)"

definition at_version :: "ID \<Rightarrow> int \<Rightarrow> HeadRow \<Rightarrow> bool" where
  "at_version i v r \<longleftrightarrow> hr_ID r = i \<and> hr_Version r = v"

definition PutSessionHead :: "Session \<Rightarrow> bytes \<Rightarrow> int \<Rightarrow> ('z, unit) local_op" where
  "PutSessionHead ses head expect =
     (if expect = 0 then
        bind_io (sql_affect (\<lambda>s. if heads_of (ses_ID ses) s = 0 then 1 else 0)
            (\<lambda>s. if heads_of (ses_ID ses) s = 0 then s\<lparr>dv_session_heads := dv_session_heads s @ [head_row ses head]\<rparr> else s))
          (\<lambda>n. headWritten (ses_ID ses) n expect)
      else
        bind_io (sql_affect (\<lambda>s. length (filter (at_version (ses_ID ses) expect) (dv_session_heads s)))
            (\<lambda>s. s\<lparr>dv_session_heads := sql_update (at_version (ses_ID ses) expect) (head_update ses head) (dv_session_heads s)\<rparr>))
          (\<lambda>n. headWritten (ses_ID ses) n expect))"

definition GetSessionHead :: "ID \<Rightarrow> ('z, bytes) local_op" where
  "GetSessionHead i =
     bind_io (sql_query (\<lambda>s. sql_row hr_ID i (dv_session_heads s))) (\<lambda>r.
       case r of None \<Rightarrow> fail_io ErrNotFound | Some row \<Rightarrow> ret_io (hr_Head row))"

definition SessionTitle :: "ID \<Rightarrow> ('z, string) local_op" where
  "SessionTitle i =
     bind_io (sql_query (\<lambda>s. sql_row hr_ID i (dv_session_heads s))) (\<lambda>r.
       case r of None \<Rightarrow> fail_io ErrNotFound | Some row \<Rightarrow> ret_io (hr_Title row))"

definition ForgetSessionHead :: "ID \<Rightarrow> ('z, unit) local_op" where
  "ForgetSessionHead i = sql_exec (\<lambda>s. s\<lparr>dv_session_heads := filter (\<lambda>r. hr_ID r \<noteq> i) (dv_session_heads s)\<rparr>)"

definition ForgetSessionHeadAt :: "ID \<Rightarrow> int \<Rightarrow> ('z, unit) local_op" where
  "ForgetSessionHeadAt i version =
     bind_io (sql_affect (\<lambda>s. length (filter (at_version i version) (dv_session_heads s)))
         (\<lambda>s. s\<lparr>dv_session_heads := filter (\<lambda>r. \<not> at_version i version r) (dv_session_heads s)\<rparr>)) (\<lambda>n.
     if n > 0 then ret_io ()
     else bind_io (sql_query (heads_of i)) (\<lambda>m. if m > 0 then fail_io ErrStaleHead else ret_io ()))"

definition CountSessions :: "('z, nat) local_op" where
  "CountSessions = sql_query (\<lambda>s. length (dv_session_heads s))"

section \<open>Listing\<close>

record SessionRow =
  srw_ID :: ID
  srw_Version :: int
  srw_Title :: string
  srw_Summary :: string
  srw_Kind :: SessionKind
  srw_Project :: string
  srw_Agent :: string
  srw_Parent :: "ID option"
  srw_Created :: int
  srw_Updated :: int
  srw_Archived :: bool
  srw_Messages :: int
  srw_Chunks :: int
  srw_Bytes :: int

record SessionQuery =
  sqy_Kinds :: "SessionKind list"
  sqy_Parent :: "ID option"
  sqy_Project :: string
  sqy_Tags :: "string list"
  sqy_Since :: "int option"
  sqy_Until :: "int option"
  sqy_IncludeArchived :: bool
  sqy_Limit :: int
  sqy_Offset :: int

definition DefaultSessionLimit :: int where "DefaultSessionLimit = 100"

definition sessionFilter :: "(string \<Rightarrow> string) \<Rightarrow> SessionQuery \<Rightarrow> (ID \<times> string) list \<Rightarrow> HeadRow \<Rightarrow> bool" where
  "sessionFilter u q tags r \<longleftrightarrow>
     (sqy_IncludeArchived q \<or> \<not> hr_Archived r) \<and>
     (sqy_Kinds q = [] \<or> hr_Kind r \<in> set (sqy_Kinds q)) \<and>
     (case sqy_Parent q of None \<Rightarrow> True | Some p \<Rightarrow> hr_Parent r = Some p) \<and>
     (sqy_Project q = '''' \<or> hr_Project r = sqy_Project q) \<and>
     (case sqy_Since q of None \<Rightarrow> True | Some t \<Rightarrow> t \<le> hr_Updated r) \<and>
     (case sqy_Until q of None \<Rightarrow> True | Some t \<Rightarrow> hr_Updated r \<le> t) \<and>
     list_all (\<lambda>tag. (hr_ID r, tag) \<in> set tags) (NormalizeTags u (sqy_Tags q))"

text \<open>\<open>ORDER BY updated_at DESC, session_id ASC\<close>.\<close>

definition session_before :: "HeadRow \<Rightarrow> HeadRow \<Rightarrow> bool" where
  "session_before a b \<longleftrightarrow> hr_Updated b < hr_Updated a \<or>
     (hr_Updated a = hr_Updated b \<and> string_less (ID_String (hr_ID a)) (ID_String (hr_ID b)))"

definition session_row :: "HeadRow \<Rightarrow> SessionRow" where
  "session_row r =
     \<lparr>srw_ID = hr_ID r, srw_Version = hr_Version r, srw_Title = hr_Title r, srw_Summary = hr_Summary r, srw_Kind = hr_Kind r,
      srw_Project = hr_Project r, srw_Agent = hr_Agent r, srw_Parent = hr_Parent r, srw_Created = hr_Created r,
      srw_Updated = hr_Updated r, srw_Archived = hr_Archived r, srw_Messages = hr_Messages r, srw_Chunks = hr_Chunks r,
      srw_Bytes = hr_Bytes r\<rparr>"

definition session_listing :: "(string \<Rightarrow> string) \<Rightarrow> SessionQuery \<Rightarrow> 'z device_scheme \<Rightarrow> SessionRow list" where
  "session_listing u q s =
     map session_row (SliceStable session_before (filter (sessionFilter u q (dv_record_tags s)) (dv_session_heads s)))"

definition CountMatchingSessions :: "(string \<Rightarrow> string) \<Rightarrow> SessionQuery \<Rightarrow> ('z, nat) local_op" where
  "CountMatchingSessions u q =
     sql_query (\<lambda>s. length (filter (sessionFilter u q (dv_record_tags s)) (dv_session_heads s)))"

definition ListSessions :: "(string \<Rightarrow> string) \<Rightarrow> SessionQuery \<Rightarrow> ('z, SessionRow list) local_op" where
  "ListSessions u q =
     (let limit = (if sqy_Limit q \<le> 0 then DefaultSessionLimit else sqy_Limit q) in
      sql_query (\<lambda>s. take (nat limit) (drop (nat (max (sqy_Offset q) 0)) (session_listing u q s))))"

definition SessionLexicalText :: "Session \<Rightarrow> string" where
  "SessionLexicalText s =
     (let parts0 = (if ses_Title s \<noteq> '''' then [ses_Title s] else []);
          parts1 = (if ses_Summary s \<noteq> '''' then parts0 @ [ses_Summary s] else parts0);
          parts2 = (if length (ses_Tags s) > 0 then parts1 @ [Join '' '' (ses_Tags s)] else parts1)
      in Join [CHR 0x0A] parts2)"

section \<open>A head is a register written by compare and swap\<close>

definition heads_view :: "'z device_scheme \<Rightarrow> ID \<rightharpoonup> int \<times> bytes" where
  "heads_view s i = map_option (\<lambda>r. (hr_Version r, hr_Head r)) (sql_row hr_ID i (dv_session_heads s))"

definition heads_ok :: "'z device_scheme \<Rightarrow> bool" where
  "heads_ok s \<longleftrightarrow> distinct (map hr_ID (dv_session_heads s))"

lemma heads_ok_step [simp]: "heads_ok (s\<lparr>mc_step := k\<rparr>) \<longleftrightarrow> heads_ok s"
  by (simp add: heads_ok_def)

lemma heads_view_step [simp]: "heads_view (s\<lparr>mc_step := k\<rparr>) = heads_view s"
  by (simp add: heads_view_def fun_eq_iff)

lemma heads_of_view: "heads_of i s = 0 \<longleftrightarrow> heads_view s i = None"
  by (auto simp: heads_of_def heads_view_def sql_row_None filter_empty_conv)

lemma at_version_view:
  assumes "heads_ok s"
  shows "filter (at_version i v) (dv_session_heads s) = [] \<longleftrightarrow> \<not> (\<exists>h. heads_view s i = Some (v, h))"
proof -
  have "(\<exists>r \<in> set (dv_session_heads s). at_version i v r) \<longleftrightarrow> (\<exists>h. heads_view s i = Some (v, h))"
  proof
    assume "\<exists>r \<in> set (dv_session_heads s). at_version i v r"
    then obtain r where r: "r \<in> set (dv_session_heads s)" "hr_ID r = i" "hr_Version r = v" by (auto simp: at_version_def)
    with sql_row_unique [of hr_ID "dv_session_heads s" r] assms have "sql_row hr_ID i (dv_session_heads s) = Some r"
      by (simp add: heads_ok_def)
    with r show "\<exists>h. heads_view s i = Some (v, h)" by (simp add: heads_view_def)
  next
    assume "\<exists>h. heads_view s i = Some (v, h)"
    then obtain r where "sql_row hr_ID i (dv_session_heads s) = Some r" "hr_Version r = v" by (auto simp: heads_view_def)
    with sql_row_Some [of hr_ID i "dv_session_heads s" r] show "\<exists>r \<in> set (dv_session_heads s). at_version i v r"
      by (auto simp: at_version_def)
  qed
  then show ?thesis by (auto simp: filter_empty_conv)
qed

lemma sql_affect_runs:
  "sql_affect rows f s =
     (if mc_plan s (mc_step s) = NoFault then (Inr (rows (s\<lparr>mc_step := mc_step s + 1\<rparr>)), f (s\<lparr>mc_step := mc_step s + 1\<rparr>))
      else (Inl DbError, s\<lparr>mc_step := mc_step s + 1\<rparr>))"
  by (simp add: sql_affect_def bind_io_def sql_query_runs put_io_def ret_io_def)

lemma head_written_run:
  "headWritten i n v s = (r, s') \<Longrightarrow>
   (\<exists>k. s' = s\<lparr>mc_step := k\<rparr>) \<and> (0 < n \<longrightarrow> r = Inr ()) \<and>
   (n = 0 \<longrightarrow> r = Inl DbError \<and> 0 < v \<or>
      r = Inl (if 0 < v \<and> heads_view s i = None then ErrNotFound else ErrStaleHead))"
proof -
  have h: "heads_of i (s\<lparr>mc_step := k\<rparr>) = heads_of i s" for k by (simp add: heads_of_def)
  have "\<exists>k. s = s\<lparr>mc_step := k\<rparr>" by (rule exI [of _ "mc_step s"]) simp
  then show "headWritten i n v s = (r, s') \<Longrightarrow> ?thesis"
    by (auto simp: headWritten_def bind_io_def sql_query_runs ret_io_def fail_io_def h heads_of_view [symmetric] split: if_splits)
qed

lemma row_create:
  assumes "heads_view s (ses_ID ses) = None"
  shows "heads_view (s\<lparr>dv_session_heads := dv_session_heads s @ [head_row ses head]\<rparr>) =
      (heads_view s)(ses_ID ses \<mapsto> (ses_Version ses, head))"
    "heads_ok s \<Longrightarrow> heads_ok (s\<lparr>dv_session_heads := dv_session_heads s @ [head_row ses head]\<rparr>)"
proof -
  have "find P (xs @ [x]) = (case find P xs of None \<Rightarrow> if P x then Some x else None | Some y \<Rightarrow> Some y)" for P xs and x :: HeadRow
    by (induction xs) auto
  then show "heads_view (s\<lparr>dv_session_heads := dv_session_heads s @ [head_row ses head]\<rparr>) =
      (heads_view s)(ses_ID ses \<mapsto> (ses_Version ses, head))"
    using assms by (auto simp: heads_view_def sql_row_def head_row_def fun_eq_iff split: option.splits)
  show "heads_ok s \<Longrightarrow> heads_ok (s\<lparr>dv_session_heads := dv_session_heads s @ [head_row ses head]\<rparr>)"
    using assms by (auto simp: heads_ok_def heads_view_def head_row_def sql_row_None)
qed

lemma row_replace:
  assumes "heads_ok s" "heads_view s (ses_ID ses) = Some (v, h)"
  shows "heads_view (s\<lparr>dv_session_heads := sql_update (at_version (ses_ID ses) v) (head_update ses head) (dv_session_heads s)\<rparr>) =
      (heads_view s)(ses_ID ses \<mapsto> (ses_Version ses, head))"
    "heads_ok (s\<lparr>dv_session_heads := sql_update (at_version (ses_ID ses) v) (head_update ses head) (dv_session_heads s)\<rparr>)"
proof -
  let ?rows = "dv_session_heads s"
  have key: "hr_ID (if at_version (ses_ID ses) v r then head_update ses head r else r) = hr_ID r" for r
    by (simp add: head_update_def)
  have find: "sql_row hr_ID i (sql_update (at_version (ses_ID ses) v) (head_update ses head) rows) =
      map_option (\<lambda>r. if at_version (ses_ID ses) v r then head_update ses head r else r) (sql_row hr_ID i rows)" for i rows
    by (induction rows) (simp_all add: sql_row_def sql_update_def head_update_def)
  show "heads_view (s\<lparr>dv_session_heads := sql_update (at_version (ses_ID ses) v) (head_update ses head) ?rows\<rparr>) =
      (heads_view s)(ses_ID ses \<mapsto> (ses_Version ses, head))"
  proof
    fix i
    obtain r where r: "sql_row hr_ID (ses_ID ses) ?rows = Some r" "hr_Version r = v" using assms(2) by (auto simp: heads_view_def)
    then have "hr_ID r = ses_ID ses" using sql_row_Some by metis
    then show "heads_view (s\<lparr>dv_session_heads := sql_update (at_version (ses_ID ses) v) (head_update ses head) ?rows\<rparr>) i =
      ((heads_view s)(ses_ID ses \<mapsto> (ses_Version ses, head))) i"
    proof (cases "i = ses_ID ses")
      case True
      then show ?thesis using r \<open>hr_ID r = ses_ID ses\<close> by (simp add: heads_view_def find at_version_def head_update_def head_row_def)
    next
      case False
      have "at_version (ses_ID ses) v r' = False" if "sql_row hr_ID i ?rows = Some r'" for r'
        using False sql_row_Some [OF that] by (simp add: at_version_def)
      then show ?thesis using False by (cases "sql_row hr_ID i ?rows") (simp_all add: heads_view_def find)
    qed
  qed
  show "heads_ok (s\<lparr>dv_session_heads := sql_update (at_version (ses_ID ses) v) (head_update ses head) ?rows\<rparr>)"
    using assms(1) by (simp add: heads_ok_def sql_update_def o_def key del: if_distrib)
qed

text \<open>What a write did: the register moved from the expected version, or nothing changed.\<close>

lemma put_head_run:
  assumes "heads_ok s" "PutSessionHead ses head v s = (r, s')"
  shows "heads_ok s' \<and>
    (case r of
       Inr _ \<Rightarrow> (if v = 0 then heads_view s (ses_ID ses) = None else \<exists>h. heads_view s (ses_ID ses) = Some (v, h)) \<and>
         heads_view s' = (heads_view s)(ses_ID ses \<mapsto> (ses_Version ses, head))
     | Inl e \<Rightarrow> heads_view s' = heads_view s \<and>
         (e = ErrNotFound \<longrightarrow> 0 < v \<and> heads_view s (ses_ID ses) = None) \<and>
         (e = ErrStaleHead \<longrightarrow> (if v = 0 then heads_view s (ses_ID ses) \<noteq> None else \<not> (\<exists>h. heads_view s (ses_ID ses) = Some (v, h)))))"
proof (cases "mc_plan s (mc_step s) = NoFault")
  case False
  then have "r = Inl DbError" "s' = s\<lparr>mc_step := mc_step s + 1\<rparr>"
    using assms(2) by (auto simp: PutSessionHead_def bind_io_def sql_affect_runs split: if_splits)
  then show ?thesis using assms(1) by simp
next
  case True
  let ?i = "ses_ID ses" and ?s = "s\<lparr>mc_step := mc_step s + 1\<rparr>"
  show ?thesis
  proof (cases "v = 0")
    case True
    show ?thesis
    proof (cases "heads_view s ?i = None")
      case True
      then have "heads_of ?i ?s = 0" using heads_of_view [of ?i ?s] by simp
      then have "headWritten ?i 1 v (?s\<lparr>dv_session_heads := dv_session_heads ?s @ [head_row ses head]\<rparr>) = (r, s')"
        using assms(2) \<open>v = 0\<close> \<open>mc_plan s (mc_step s) = NoFault\<close> by (simp add: PutSessionHead_def bind_io_def sql_affect_runs)
      from head_written_run [OF this] have "r = Inr ()"
        "\<exists>k. s' = (?s\<lparr>dv_session_heads := dv_session_heads ?s @ [head_row ses head]\<rparr>)\<lparr>mc_step := k\<rparr>" by simp_all
      then show ?thesis using row_create [of s ses head] True assms(1) \<open>v = 0\<close> by auto
    next
      case False
      then have "heads_of ?i ?s \<noteq> 0" using heads_of_view [of ?i ?s] by simp
      then have "headWritten ?i 0 v ?s = (r, s')"
        using assms(2) \<open>v = 0\<close> \<open>mc_plan s (mc_step s) = NoFault\<close> by (simp add: PutSessionHead_def bind_io_def sql_affect_runs)
      from head_written_run [OF this] \<open>v = 0\<close> have "r = Inl ErrStaleHead" "\<exists>k. s' = ?s\<lparr>mc_step := k\<rparr>" by auto
      then show ?thesis using False assms(1) \<open>v = 0\<close> by auto
    qed
  next
    case False
    let ?f = "filter (at_version ?i v) (dv_session_heads s)"
    have run: "headWritten ?i (length ?f) v
        (?s\<lparr>dv_session_heads := sql_update (at_version ?i v) (head_update ses head) (dv_session_heads s)\<rparr>) = (r, s')"
      using assms(2) False \<open>mc_plan s (mc_step s) = NoFault\<close> by (simp add: PutSessionHead_def bind_io_def sql_affect_runs)
    show ?thesis
    proof (cases "?f = []")
      case False
      then obtain h where h: "heads_view s ?i = Some (v, h)" using at_version_view [OF assms(1)] by blast
      from head_written_run [OF run] False have "r = Inr ()"
        "\<exists>k. s' = (?s\<lparr>dv_session_heads := sql_update (at_version ?i v) (head_update ses head) (dv_session_heads s)\<rparr>)\<lparr>mc_step := k\<rparr>"
        by auto
      then show ?thesis using row_replace [of s ses v h head] h assms(1) \<open>v \<noteq> 0\<close> by auto
    next
      case True
      then have none: "\<not> (\<exists>h. heads_view s ?i = Some (v, h))" using at_version_view [OF assms(1)] by blast
      have "sql_update (at_version ?i v) (head_update ses head) (dv_session_heads s) = dv_session_heads s"
        using True by (auto simp: sql_update_def filter_empty_conv intro: map_idI)
      then have "headWritten ?i 0 v ?s = (r, s')" using run True by simp
      from head_written_run [OF this] none \<open>v \<noteq> 0\<close> assms(1) show ?thesis by (auto split: if_splits)
    qed
  qed
qed

lemma row_remove:
  assumes "heads_ok s"
  shows "heads_view (s\<lparr>dv_session_heads := filter (\<lambda>r. hr_ID r \<noteq> i) (dv_session_heads s)\<rparr>) = (heads_view s)(i := None)"
    "heads_ok (s\<lparr>dv_session_heads := filter (\<lambda>r. hr_ID r \<noteq> i) (dv_session_heads s)\<rparr>)"
  using assms by (auto simp: heads_view_def sql_row_filter heads_ok_def distinct_map_filter fun_eq_iff)

lemma drop_version:
  assumes "heads_ok s" "heads_view s i = Some (v, h)"
  shows "filter (\<lambda>r. \<not> at_version i v r) (dv_session_heads s) = filter (\<lambda>r. hr_ID r \<noteq> i) (dv_session_heads s)"
proof (rule filter_cong [OF refl])
  fix r assume r: "r \<in> set (dv_session_heads s)"
  obtain q where q: "sql_row hr_ID i (dv_session_heads s) = Some q" "hr_Version q = v" using assms(2) by (auto simp: heads_view_def)
  have "hr_ID r = i \<Longrightarrow> r = q" using sql_row_unique [of hr_ID "dv_session_heads s" r] assms(1) r q(1) by (simp add: heads_ok_def)
  then show "\<not> at_version i v r \<longleftrightarrow> hr_ID r \<noteq> i" using q(2) by (auto simp: at_version_def)
qed

lemma forget_head_run:
  assumes "heads_ok s" "ForgetSessionHeadAt i v s = (r, s')"
  shows "heads_ok s' \<and>
    (r = Inr () \<longrightarrow> heads_view s' = (heads_view s)(i := None) \<and> (heads_view s i = None \<or> (\<exists>h. heads_view s i = Some (v, h)))) \<and>
    (r = Inl ErrStaleHead \<longrightarrow> heads_view s' = heads_view s \<and> (\<exists>w h. heads_view s i = Some (w, h) \<and> w \<noteq> v)) \<and>
    (\<not> is_ok r \<longrightarrow> heads_view s' = heads_view s)"
proof (cases "mc_plan s (mc_step s) = NoFault")
  case False
  then have "r = Inl DbError" "s' = s\<lparr>mc_step := mc_step s + 1\<rparr>"
    using assms(2) by (auto simp: ForgetSessionHeadAt_def bind_io_def sql_affect_runs split: if_splits)
  then show ?thesis using assms(1) by simp
next
  case True
  let ?s = "s\<lparr>mc_step := mc_step s + 1\<rparr>" and ?f = "filter (at_version i v) (dv_session_heads s)"
  let ?t = "?s\<lparr>dv_session_heads := filter (\<lambda>r. \<not> at_version i v r) (dv_session_heads s)\<rparr>"
  have run: "(if length ?f > 0 then ret_io ()
     else bind_io (sql_query (heads_of i)) (\<lambda>m. if m > 0 then fail_io ErrStaleHead else ret_io ())) ?t = (r, s')"
    using assms(2) True by (simp add: ForgetSessionHeadAt_def bind_io_def sql_affect_runs)
  show ?thesis
  proof (cases "?f = []")
    case False
    then obtain h where h: "heads_view s i = Some (v, h)" using at_version_view [OF assms(1)] by blast
    have "r = Inr ()" "s' = ?t" using run False by (simp_all add: ret_io_def)
    then show ?thesis using row_remove [of ?s i] h assms(1) by (simp add: drop_version [OF assms(1) h])
  next
    case True
    have none: "\<not> (\<exists>h. heads_view s i = Some (v, h))" using at_version_view [OF assms(1)] True by blast
    have "filter (\<lambda>r. \<not> at_version i v r) (dv_session_heads s) = dv_session_heads s"
      using True by (auto simp: filter_empty_conv filter_id_conv)
    then have "bind_io (sql_query (heads_of i)) (\<lambda>m. if m > 0 then fail_io ErrStaleHead else ret_io ()) ?s = (r, s')"
      using run True by simp
    then have "\<exists>k. s' = s\<lparr>mc_step := k\<rparr>" "r = Inl DbError \<or> r = (if heads_view s i = None then Inr () else Inl ErrStaleHead)"
      by (auto simp: bind_io_def sql_query_runs ret_io_def fail_io_def heads_of_view [symmetric] heads_of_def split: if_splits)
    then show ?thesis using none assms(1) by (auto simp: fun_eq_iff split: if_splits)
  qed
qed

section \<open>Writers sharing a vault\<close>

datatype head_call = HPut Session bytes int | HForget ID int

definition head_run :: "head_call \<Rightarrow> ('z, unit) local_op" where
  "head_run c = (case c of HPut ses head v \<Rightarrow> PutSessionHead ses head v | HForget i v \<Rightarrow> ForgetSessionHeadAt i v)"

text \<open>Calls of any number of writers in the order their statements ran, with their results.\<close>

fun head_runs :: "head_call list \<Rightarrow> 'z device_scheme \<Rightarrow> (local_error + unit) list" where
  "head_runs [] s = []"
| "head_runs (c # cs) s = (case head_run c s of (r, s') \<Rightarrow> r # head_runs cs s')"

definition bumps :: "head_call \<Rightarrow> bool" where
  "bumps c \<longleftrightarrow> (case c of HPut ses _ v \<Rightarrow> 0 \<le> v \<and> ses_Version ses = v + 1 | HForget _ _ \<Rightarrow> True)"

definition at_least :: "ID \<Rightarrow> int \<Rightarrow> 'z device_scheme \<Rightarrow> bool" where
  "at_least i v s \<longleftrightarrow> (\<exists>w h. heads_view s i = Some (w, h) \<and> v \<le> w)"

lemma put_accepted:
  assumes "heads_ok s" "PutSessionHead ses head v s = (Inr (), s')" "ses_Version ses = v + 1"
  shows "at_least (ses_ID ses) (v + 1) s'"
  using put_head_run [OF assms(1,2)] assms(3) by (simp add: at_least_def)

lemma at_least_kept:
  assumes "heads_ok s" "at_least i v s" "0 < v" "bumps c" "head_run c s = (r, s')"
    "\<not> (\<exists>w. c = HForget i w \<and> is_ok r)"
  shows "at_least i v s' \<and> heads_ok s'"
proof (cases c)
  case (HPut ses head w)
  have run: "PutSessionHead ses head w s = (r, s')" using assms(5) HPut by (simp add: head_run_def)
  note p = put_head_run [OF assms(1) run]
  show ?thesis
  proof (cases r)
    case (Inr x)
    with p have "if w = 0 then heads_view s (ses_ID ses) = None else \<exists>h. heads_view s (ses_ID ses) = Some (w, h)"
      "heads_view s' = (heads_view s)(ses_ID ses \<mapsto> (ses_Version ses, head))" by simp_all
    moreover have "ses_Version ses = w + 1" "0 \<le> w" using assms(4) HPut by (simp_all add: bumps_def)
    ultimately have "at_least i v s'" using assms(2) by (auto simp: at_least_def split: if_splits)
    then show ?thesis using p by blast
  next
    case (Inl e)
    then show ?thesis using p assms(2) by (simp add: at_least_def)
  qed
next
  case (HForget j w)
  have run: "ForgetSessionHeadAt j w s = (r, s')" using assms(5) HForget by (simp add: head_run_def)
  note p = forget_head_run [OF assms(1) run]
  show ?thesis
  proof (cases "is_ok r")
    case True
    then have "r = Inr ()" "j \<noteq> i" using assms(6) HForget by (auto simp: is_ok_iff)
    then show ?thesis using p assms(2) by (simp add: at_least_def)
  next
    case False
    then show ?thesis using p assms(2) by (simp add: at_least_def)
  qed
qed

lemma stays_ahead:
  "heads_ok s \<Longrightarrow> at_least i v s \<Longrightarrow> 0 < v \<Longrightarrow> list_all bumps cs \<Longrightarrow> j < length cs \<Longrightarrow>
   cs ! j = HPut ses head w \<Longrightarrow> ses_ID ses = i \<Longrightarrow> head_runs cs s ! j = Inr () \<Longrightarrow> w < v \<Longrightarrow>
   \<exists>k < j. \<exists>x. cs ! k = HForget i x \<and> head_runs cs s ! k = Inr ()"
proof (induction cs arbitrary: s j)
  case (Cons c cs)
  obtain r s' where run: "head_run c s = (r, s')" by (cases "head_run c s")
  show ?case
  proof (cases "\<exists>x. c = HForget i x \<and> is_ok r")
    case True
    then have "0 < j" using Cons.prems(6) by (cases j) auto
    with True show ?thesis by (intro exI [of _ 0]) (auto simp: run is_ok_iff)
  next
    case False
    have kept: "at_least i v s' \<and> heads_ok s'"
      using at_least_kept [OF Cons.prems(1,2,3) _ run False] Cons.prems(4) by simp
    show ?thesis
    proof (cases j)
      case 0
      then have "PutSessionHead ses head w s = (Inr (), s')" using Cons.prems(6,8) run by (simp add: head_run_def)
      from put_head_run [OF Cons.prems(1) this] Cons.prems(2,7,9) show ?thesis by (auto simp: at_least_def split: if_splits)
    next
      case (Suc j')
      then obtain k x where "k < j'" "cs ! k = HForget i x" "head_runs cs s' ! k = Inr ()"
        using Cons.IH [of s' j'] kept Cons.prems(3-9) by (auto simp: run)
      then show ?thesis using Suc by (intro exI [of _ "Suc k"]) (simp add: run)
    qed
  qed
qed simp

lemma head_run_ok: "heads_ok s \<Longrightarrow> head_run c s = (r, s') \<Longrightarrow> heads_ok s'"
proof (cases c)
  case (HPut ses head v)
  then show "heads_ok s \<Longrightarrow> head_run c s = (r, s') \<Longrightarrow> heads_ok s'"
    using put_head_run [of s ses head v r s'] by (simp add: head_run_def)
next
  case (HForget i v)
  then show "heads_ok s \<Longrightarrow> head_run c s = (r, s') \<Longrightarrow> heads_ok s'"
    using forget_head_run [of s i v r s'] by (simp add: head_run_def)
qed

lemma no_lost_update_aux:
  "heads_ok s \<Longrightarrow> list_all bumps cs \<Longrightarrow> i < j \<Longrightarrow> j < length cs \<Longrightarrow> cs ! i = HPut a ha v \<Longrightarrow> cs ! j = HPut b hb w \<Longrightarrow>
   ses_ID b = ses_ID a \<Longrightarrow> head_runs cs s ! i = Inr () \<Longrightarrow> head_runs cs s ! j = Inr () \<Longrightarrow> w \<le> v \<Longrightarrow>
   \<exists>k. i < k \<and> k < j \<and> (\<exists>x. cs ! k = HForget (ses_ID a) x) \<and> head_runs cs s ! k = Inr ()"
proof (induction cs arbitrary: s i j)
  case (Cons c cs)
  obtain r s' where run: "head_run c s = (r, s')" by (cases "head_run c s")
  have ok: "heads_ok s'" using head_run_ok [OF Cons.prems(1) run] .
  obtain j' where j: "j = Suc j'" using Cons.prems(3) by (cases j) auto
  show ?case
  proof (cases i)
    case 0
    then have put: "PutSessionHead a ha v s = (Inr (), s')" and b: "0 \<le> v" "ses_Version a = v + 1"
      using Cons.prems(2,5,8) run by (auto simp: head_run_def bumps_def)
    have "\<exists>k < j'. \<exists>x. cs ! k = HForget (ses_ID a) x \<and> head_runs cs s' ! k = Inr ()"
      using stays_ahead [OF ok put_accepted [OF Cons.prems(1) put b(2)], of cs j' b hb w] Cons.prems(2,4,6,7,9,10) b(1)
      by (simp add: run j)
    then obtain k x where "k < j'" "cs ! k = HForget (ses_ID a) x" "head_runs cs s' ! k = Inr ()" by blast
    then show ?thesis using 0 j by (intro exI [of _ "Suc k"]) (simp add: run)
  next
    case (Suc i')
    then obtain k x where "i' < k" "k < j'" "cs ! k = HForget (ses_ID a) x" "head_runs cs s' ! k = Inr ()"
      using Cons.IH [OF ok, of i' j'] Cons.prems(2-10) j by (auto simp: run)
    then show ?thesis using Suc j by (intro exI [of _ "Suc k"]) (simp add: run)
  qed
qed simp

text \<open>
  C32. Writers sharing a vault lose no session update. Any number of writers write session heads,
  each naming the version it read and writing the next one, and forget heads at the version they
  read, in any interleaving and with any statements failing. If two writes of one session are
  both accepted, the later one started from a strictly later version, so it was based on what
  the earlier wrote; the only exception is a session that was forgotten in between.
\<close>

theorem heads_no_lost_update:
  assumes "heads_ok s" "list_all bumps cs" "i < j" "j < length cs"
    and "cs ! i = HPut a ha v" "head_runs cs s ! i = Inr ()"
    and "cs ! j = HPut b hb w" "head_runs cs s ! j = Inr ()" "ses_ID b = ses_ID a"
  shows "v < w \<or> (\<exists>k. i < k \<and> k < j \<and> (\<exists>x. cs ! k = HForget (ses_ID a) x) \<and> head_runs cs s ! k = Inr ())"
  using no_lost_update_aux [OF assms(1-5,7,9,6,8)] by (cases "w \<le> v") auto

definition sample_session :: "int \<Rightarrow> Session" where
  "sample_session v =
     \<lparr>ses_ID = [1], ses_Schema = '''', ses_SchemaVersion = 1, ses_Version = v, ses_Title = ''t'', ses_Summary = '''', ses_Tags = [],
      ses_Project = \<lparr>prj_CWD = '''', prj_Repo = '''', prj_Branch = ''''\<rparr>, ses_Created = 0, ses_Updated = 0, ses_Archived = False,
      ses_Agent = \<lparr>agt_Name = '''', agt_Version = ''''\<rparr>, ses_Models = [],
      ses_Counts = \<lparr>cnt_Messages = 0, cnt_Chunks = 0, cnt_Bytes = 0, cnt_TokensIn = 0, cnt_TokensOut = 0, cnt_DurationMS = 0\<rparr>,
      ses_Kind = SessionMain, ses_AgentRef = None,
      ses_Lineage = \<lparr>lin_ParentSession = None, lin_ForkedFrom = None, lin_ResumedFrom = None, lin_Children = []\<rparr>,
      ses_HeadMessage = '''', ses_PreservedTail = [], ses_Chunks = [], ses_Links = \<lparr>lnk_Memories = []\<rparr>, ses_Embedding = undefined\<rparr>"

definition two_writers :: "head_call list" where
  "two_writers = [HPut (sample_session 1) [1] 0, HPut (sample_session 2) [2] 1, HPut (sample_session 2) [3] 1, HPut (sample_session 3) [4] 2]"

lemma heads_no_lost_update_witness:
  "head_runs two_writers ranking_sample = [Inr (), Inr (), Inl ErrStaleHead, Inr ()] \<and> (1 :: int) < 2"
proof -
  have run: "head_runs two_writers ranking_sample = [Inr (), Inr (), Inl ErrStaleHead, Inr ()]"
    by (simp add: two_writers_def head_run_def PutSessionHead_def bind_io_def sql_affect_runs sql_query_runs headWritten_def
        ret_io_def fail_io_def heads_of_def at_version_def sql_update_def head_row_def head_update_def ranking_sample_def sample_session_def)
  have nth: "two_writers ! 1 = HPut (sample_session 2) [2] 1" "two_writers ! 3 = HPut (sample_session 3) [4] 2"
    and len: "length two_writers = 4" by (simp_all add: two_writers_def)
  have "heads_ok ranking_sample" by (simp add: heads_ok_def ranking_sample_def)
  moreover have "list_all bumps two_writers" by (simp add: two_writers_def bumps_def sample_session_def)
  ultimately have "(1 :: int) < 2 \<or> (\<exists>k. 1 < k \<and> k < (3 :: nat) \<and> (\<exists>x. two_writers ! k = HForget (ses_ID (sample_session 2)) x) \<and>
      head_runs two_writers ranking_sample ! k = Inr ())"
    by (rule heads_no_lost_update [of _ _ 1 3 "sample_session 2" "[2]" 1 "sample_session 3" "[4]" 2])
      (simp_all only: run nth len, simp_all add: sample_session_def)
  with run show ?thesis by simp
qed

end
