(* ===== verification/Sia_Location.thy ===== *)
theory Sia_Location
  imports Sia
begin

text \<open>
  Cached locations (\<open>sia/envelope.go\<close>, \<open>sia/location.go\<close>): the binary layout of the part of a
  location unique to an object and of the part every object in a slab shares, the reader that
  walks the layout and keeps its first failure, the split of a location and its reassembly, and
  the check a reassembled location passes before the SDK reads from it.

  Fixed-size arrays are byte strings of their length. The digest of a slab slice and the text of
  a slab id are the SDK's and are arguments. The text of an error is not modelled; an index out
  of range, which ends the process, is the error \<open>Panic\<close>.
\<close>

section \<open>Values\<close>

record PinnedSector =
  pst_Root :: bytes
  pst_HostKey :: bytes

record SlabSlice =
  sli_EncryptionKey :: bytes
  sli_MinShards :: nat
  sli_Sectors :: "PinnedSector list"
  sli_Offset :: nat
  sli_Length :: nat

record SealedObject =
  sea_EncryptedDataKey :: bytes
  sea_DataSignature :: bytes
  sea_EncryptedMetadataKey :: bytes
  sea_EncryptedMetadata :: bytes
  sea_MetadataSignature :: bytes
  sea_Slabs :: "SlabSlice list"
  sea_CreatedAt :: int
  sea_UpdatedAt :: int

record SlabLocation =
  slo_ID :: string
  slo_Bytes :: bytes

record Location =
  loc_Ref :: string
  loc_Slabs :: "string list"
  loc_Bytes :: bytes

datatype location_error = Panic | ErrStaleLocation | SdkError string

section \<open>Writing\<close>

text \<open>Big-endian integers of \<open>k\<close> bytes, which wrap around.\<close>

definition be_bytes :: "nat \<Rightarrow> nat \<Rightarrow> bytes" where
  "be_bytes k x = rev (le_bytes k x)"

definition be_nat :: "bytes \<Rightarrow> nat" where
  "be_nat b = le_nat (rev b)"

definition envelopeVersion :: byte where
  "envelopeVersion = 1"

definition appendBytes :: "bytes \<Rightarrow> bytes" where
  "appendBytes b = be_bytes 4 (length b) @ b"

definition int64_bits :: "int \<Rightarrow> nat" where
  "int64_bits x = nat (x mod 2 ^ 64)"

definition encode_range :: "(SlabSlice \<Rightarrow> bytes) \<Rightarrow> SlabSlice \<Rightarrow> bytes" where
  "encode_range digest s = digest s @ be_bytes 4 (sli_Offset s) @ be_bytes 4 (sli_Length s)"

definition encodeObject :: "(SlabSlice \<Rightarrow> bytes) \<Rightarrow> SealedObject \<Rightarrow> bytes" where
  "encodeObject digest sealed =
     [envelopeVersion] @ appendBytes (sea_EncryptedDataKey sealed) @ sea_DataSignature sealed @
     appendBytes (sea_EncryptedMetadataKey sealed) @ appendBytes (sea_EncryptedMetadata sealed) @ sea_MetadataSignature sealed @
     be_bytes 8 (int64_bits (sea_CreatedAt sealed)) @ be_bytes 8 (int64_bits (sea_UpdatedAt sealed)) @
     be_bytes 2 (length (sea_Slabs sealed)) @ concat (map (encode_range digest) (sea_Slabs sealed))"

definition encode_sector :: "PinnedSector \<Rightarrow> bytes" where
  "encode_sector s = pst_Root s @ pst_HostKey s"

definition encodeSlab :: "SlabSlice \<Rightarrow> bytes" where
  "encodeSlab s =
     [envelopeVersion] @ sli_EncryptionKey s @ be_bytes 2 (sli_MinShards s) @ be_bytes 2 (length (sli_Sectors s)) @
     concat (map encode_sector (sli_Sectors s))"

section \<open>Reading\<close>

text \<open>A reader is the bytes left and whether a read has failed.\<close>

type_synonym reader = "bytes \<times> bool"
type_synonym 'a rd = "reader \<Rightarrow> 'a \<times> reader"

definition bind_rd :: "'a rd \<Rightarrow> ('a \<Rightarrow> 'b rd) \<Rightarrow> 'b rd" where
  "bind_rd p f r = (case p r of (x, r') \<Rightarrow> f x r')"

definition ret_rd :: "'a \<Rightarrow> 'a rd" where
  "ret_rd x r = (x, r)"

definition reader_take :: "nat \<Rightarrow> bytes rd" where
  "reader_take n r =
     (if snd r then (replicate n 0, r)
      else if length (fst r) < n then (replicate n 0, (fst r, True))
      else (take n (fst r), (drop n (fst r), False)))"

definition byteAt :: "byte rd" where
  "byteAt = bind_rd (reader_take 1) (\<lambda>b. ret_rd (b ! 0))"

definition reader_uint :: "nat \<Rightarrow> nat rd" where
  "reader_uint k = bind_rd (reader_take k) (\<lambda>b. ret_rd (be_nat b))"

definition failed_rd :: "bool rd" where
  "failed_rd r = (snd r, r)"

definition reader_bytes :: "bytes rd" where
  "reader_bytes =
     bind_rd (reader_uint 4) (\<lambda>n. bind_rd failed_rd (\<lambda>err. if err \<or> n = 0 then ret_rd [] else reader_take n))"

fun repeat_rd :: "nat \<Rightarrow> 'a rd \<Rightarrow> 'a list rd" where
  "repeat_rd 0 p = ret_rd []"
| "repeat_rd (Suc n) p = bind_rd p (\<lambda>x. bind_rd (repeat_rd n p) (\<lambda>xs. ret_rd (x # xs)))"

definition int64_of :: "nat \<Rightarrow> int" where
  "int64_of n = (if n < 2 ^ 63 then int n else int n - 2 ^ 64)"

definition blank_slice :: SlabSlice where
  "blank_slice = \<lparr>sli_EncryptionKey = replicate 32 0, sli_MinShards = 0, sli_Sectors = [], sli_Offset = 0, sli_Length = 0\<rparr>"

definition read_range :: "(bytes \<Rightarrow> string) \<Rightarrow> (string \<times> SlabSlice) rd" where
  "read_range idtext =
     bind_rd (reader_take 32) (\<lambda>digest. bind_rd (reader_uint 4) (\<lambda>off. bind_rd (reader_uint 4) (\<lambda>len.
     ret_rd (idtext digest, blank_slice\<lparr>sli_Offset := off, sli_Length := len\<rparr>))))"

definition read_object :: "(bytes \<Rightarrow> string) \<Rightarrow> (SealedObject \<times> string list) rd" where
  "read_object idtext =
     bind_rd reader_bytes (\<lambda>dataKey. bind_rd (reader_take 64) (\<lambda>dataSig.
     bind_rd reader_bytes (\<lambda>metaKey. bind_rd reader_bytes (\<lambda>meta. bind_rd (reader_take 64) (\<lambda>metaSig.
     bind_rd (reader_uint 8) (\<lambda>created. bind_rd (reader_uint 8) (\<lambda>updated.
     bind_rd (reader_uint 2) (\<lambda>cnt. bind_rd (repeat_rd cnt (read_range idtext)) (\<lambda>ranges.
     ret_rd (\<lparr>sea_EncryptedDataKey = dataKey, sea_DataSignature = dataSig, sea_EncryptedMetadataKey = metaKey,
       sea_EncryptedMetadata = meta, sea_MetadataSignature = metaSig, sea_Slabs = map snd ranges,
       sea_CreatedAt = int64_of created, sea_UpdatedAt = int64_of updated\<rparr>, map fst ranges))))))))))"

text \<open>
  The error of a layout of another version names the version, \<open>b[0]\<close>, which an empty buffer does
  not have.
\<close>

definition decode_with :: "'a rd \<Rightarrow> bytes \<Rightarrow> (location_error, 'a) result" where
  "decode_with body b =
     (case byteAt (b, False) of (v, r) \<Rightarrow>
        if v \<noteq> envelopeVersion then (if b = [] then Inl Panic else Inl ErrStaleLocation)
        else case body r of (x, r') \<Rightarrow> if snd r' then Inl ErrStaleLocation else Inr x)"

definition decodeObject :: "(bytes \<Rightarrow> string) \<Rightarrow> bytes \<Rightarrow> (location_error, SealedObject \<times> string list) result" where
  "decodeObject idtext b = decode_with (read_object idtext) b"

definition read_sector :: "PinnedSector rd" where
  "read_sector = bind_rd (reader_take 32) (\<lambda>root. bind_rd (reader_take 32) (\<lambda>host. ret_rd \<lparr>pst_Root = root, pst_HostKey = host\<rparr>))"

definition read_slab :: "SlabSlice rd" where
  "read_slab =
     bind_rd (reader_take 32) (\<lambda>key. bind_rd (reader_uint 2) (\<lambda>shards. bind_rd (reader_uint 2) (\<lambda>cnt.
     bind_rd (repeat_rd cnt read_sector) (\<lambda>sectors.
     ret_rd \<lparr>sli_EncryptionKey = key, sli_MinShards = shards, sli_Sectors = sectors, sli_Offset = 0, sli_Length = 0\<rparr>))))"

definition decodeSlab :: "bytes \<Rightarrow> (location_error, SlabSlice) result" where
  "decodeSlab b = decode_with read_slab b"

section \<open>Splitting a location and putting it together\<close>

definition splitLocation ::
  "(SlabSlice \<Rightarrow> bytes) \<Rightarrow> (bytes \<Rightarrow> string) \<Rightarrow> string \<Rightarrow> SealedObject \<Rightarrow> Location \<times> SlabLocation list" where
  "splitLocation digest idtext ref sealed =
     (\<lparr>loc_Ref = ref, loc_Slabs = map (\<lambda>s. idtext (digest s)) (sea_Slabs sealed), loc_Bytes = encodeObject digest sealed\<rparr>,
      map (\<lambda>s. \<lparr>slo_ID = idtext (digest s), slo_Bytes = encodeSlab s\<rparr>) (sea_Slabs sealed))"

fun join_loop :: "(string \<rightharpoonup> bytes) \<Rightarrow> string list \<Rightarrow> SlabSlice list \<Rightarrow> (location_error, SlabSlice list) result" where
  "join_loop shared (i # ids) (rng # ranges) =
     (case shared i of
        None \<Rightarrow> Inl ErrStaleLocation
      | Some encoded \<Rightarrow>
          bind_result (decodeSlab encoded) (\<lambda>slc.
          bind_result (join_loop shared ids ranges) (\<lambda>rest.
          Inr (slc\<lparr>sli_Offset := sli_Offset rng, sli_Length := sli_Length rng\<rparr> # rest))))"
| "join_loop shared _ _ = Inr []"

definition joinLocation :: "(bytes \<Rightarrow> string) \<Rightarrow> Location \<Rightarrow> (string \<rightharpoonup> bytes) \<Rightarrow> (location_error, SealedObject) result" where
  "joinLocation idtext location shared =
     (if loc_Bytes location = [] then Inl ErrStaleLocation
      else bind_result (decodeObject idtext (loc_Bytes location)) (\<lambda>(sealed, ids).
        bind_result (join_loop shared ids (sea_Slabs sealed)) (\<lambda>slices. Inr (sealed\<lparr>sea_Slabs := slices\<rparr>))))"

section \<open>Hosts, and what may be read\<close>

text \<open>The hosts the client remembers and when it fetched them, in nanoseconds.\<close>

record host_set =
  hs_hosts :: "bytes set option"
  hs_at :: int

definition HostSetTTL :: int where "HostSetTTL = 300000000000"

text \<open>\<open>hosts offset limit\<close> is a page of the network's hosts.\<close>

partial_function (option) host_pages ::
  "(nat \<Rightarrow> nat \<Rightarrow> 'n \<Rightarrow> (string, bytes list) result \<times> 'n) \<Rightarrow> nat \<Rightarrow> bytes set \<Rightarrow> 'n \<Rightarrow> ((location_error, bytes set) result \<times> 'n) option" where
  "host_pages hosts offset known n =
     (case hosts offset 100 n of
        (Inl e, n') \<Rightarrow> Some (Inl (SdkError e), n')
      | (Inr batch, n') \<Rightarrow>
          if length batch < 100 then Some (Inr (known \<union> set batch), n')
          else host_pages hosts (offset + 100) (known \<union> set batch) n')"

definition knownHosts ::
  "(nat \<Rightarrow> nat \<Rightarrow> 'n \<Rightarrow> (string, bytes list) result \<times> 'n) \<Rightarrow> int \<Rightarrow> int \<Rightarrow> host_set \<Rightarrow> 'n \<Rightarrow>
   ((location_error, bytes set) result \<times> host_set \<times> 'n) option" where
  "knownHosts hosts now fetched h n =
     (case hs_hosts h of
        Some known \<Rightarrow>
          if now - hs_at h < HostSetTTL then Some (Inr known, h, n)
          else map_option (\<lambda>(r, n'). (r, (case r of Inl _ \<Rightarrow> h | Inr known \<Rightarrow> \<lparr>hs_hosts = Some known, hs_at = fetched\<rparr>), n'))
            (host_pages hosts 0 {} n)
      | None \<Rightarrow>
          map_option (\<lambda>(r, n'). (r, (case r of Inl _ \<Rightarrow> h | Inr known \<Rightarrow> \<lparr>hs_hosts = Some known, hs_at = fetched\<rparr>), n'))
            (host_pages hosts 0 {} n))"

definition slice_reachable :: "bytes set \<Rightarrow> SlabSlice \<Rightarrow> bool" where
  "slice_reachable known s \<longleftrightarrow>
     \<not> (sli_MinShards s = 0 \<or> length (sli_Sectors s) < sli_MinShards s) \<and>
     \<not> length (filter (\<lambda>t. pst_HostKey t \<in> known) (sli_Sectors s)) < sli_MinShards s"

definition checkReachable ::
  "(nat \<Rightarrow> nat \<Rightarrow> 'n \<Rightarrow> (string, bytes list) result \<times> 'n) \<Rightarrow> int \<Rightarrow> int \<Rightarrow> SlabSlice list \<Rightarrow> host_set \<Rightarrow> 'n \<Rightarrow>
   ((location_error, unit) result \<times> host_set \<times> 'n) option" where
  "checkReachable hosts now fetched slices h n =
     map_option (\<lambda>(r, h', n'). (bind_result r (\<lambda>known. if list_all (slice_reachable known) slices then Inr () else Inl ErrStaleLocation), h', n'))
       (knownHosts hosts now fetched h n)"

text \<open>
  \<open>open_sealed\<close> is the SDK's opening of a sealed object and \<open>read_object_body\<close> its download.
\<close>

definition DownloadAt ::
  "(bytes \<Rightarrow> string) \<Rightarrow> (nat \<Rightarrow> nat \<Rightarrow> 'n \<Rightarrow> (string, bytes list) result \<times> 'n) \<Rightarrow> (SealedObject \<Rightarrow> 'o option) \<Rightarrow>
   ('o \<Rightarrow> 'n \<Rightarrow> (string, bytes) result \<times> 'n) \<Rightarrow> int \<Rightarrow> int \<Rightarrow> Location \<Rightarrow> (string \<rightharpoonup> bytes) \<Rightarrow> host_set \<Rightarrow> 'n \<Rightarrow>
   ((location_error, bytes) result \<times> host_set \<times> 'n) option" where
  "DownloadAt idtext hosts open_sealed read_body now fetched location shared h n =
     (case joinLocation idtext location shared of
        Inl e \<Rightarrow> Some (Inl e, h, n)
      | Inr sealed \<Rightarrow>
          (case checkReachable hosts now fetched (sea_Slabs sealed) h n of
             None \<Rightarrow> None
           | Some (Inl e, h', n') \<Rightarrow> Some (Inl e, h', n')
           | Some (Inr _, h', n') \<Rightarrow>
               (case open_sealed sealed of
                  None \<Rightarrow> Some (Inl ErrStaleLocation, h', n')
                | Some object \<Rightarrow>
                    (case read_body object n' of
                       (Inl e, n'') \<Rightarrow> Some (Inl (SdkError e), h', n'')
                     | (Inr body, n'') \<Rightarrow> Some (Inr body, h', n'')))))"

section \<open>Reading what was written\<close>

definition parses :: "'a rd \<Rightarrow> bytes \<Rightarrow> 'a \<Rightarrow> bool" where
  "parses p enc x \<longleftrightarrow> (\<forall>rest. p (enc @ rest, False) = (x, (rest, False)))"

text \<open>
  A reader that succeeds on some bytes does the same when more follow, and one that has failed
  stays failed.
\<close>

definition monotone_rd :: "'a rd \<Rightarrow> bool" where
  "monotone_rd p \<longleftrightarrow>
     (\<forall>b x b' ext. p (b, False) = (x, (b', False)) \<longrightarrow> p (b @ ext, False) = (x, (b' @ ext, False))) \<and>
     (\<forall>b. snd (snd (p (b, True))))"

lemma parses_bind: "parses p e x \<Longrightarrow> parses (f x) e' y \<Longrightarrow> parses (bind_rd p f) (e @ e') y"
  by (simp add: parses_def bind_rd_def)

lemma parses_ret: "parses (ret_rd x) [] x"
  by (simp add: parses_def ret_rd_def)

lemma parses_take: "length e = n \<Longrightarrow> parses (reader_take n) e e"
  by (auto simp: parses_def reader_take_def)

lemma be_nat_bytes: "x < 256 ^ k \<Longrightarrow> be_nat (be_bytes k x) = x"
  by (simp add: be_nat_def be_bytes_def)

lemma length_be_bytes [simp]: "length (be_bytes k x) = k"
  by (simp add: be_bytes_def)

lemma parses_uint: "x < 256 ^ k \<Longrightarrow> parses (reader_uint k) (be_bytes k x) x"
  using parses_bind [OF parses_take [of "be_bytes k x" k] parses_ret, of be_nat]
  by (simp add: reader_uint_def be_nat_bytes)

lemma parses_bytes: "length b < 2 ^ 32 \<Longrightarrow> parses reader_bytes (appendBytes b) b"
  using parses_uint [of "length b" 4] parses_take [of b "length b"]
  by (auto simp: parses_def reader_bytes_def appendBytes_def bind_rd_def failed_rd_def ret_rd_def)

lemma parses_repeat:
  "list_all2 (parses p) es xs \<Longrightarrow> parses (repeat_rd (length xs) p) (concat es) xs"
proof (induction es xs rule: list_all2_induct)
  case Nil
  show ?case by (simp add: parses_ret)
next
  case (Cons e es x xs)
  have "parses (bind_rd (repeat_rd (length xs) p) (\<lambda>xs. ret_rd (x # xs))) (concat es @ []) (x # xs)"
    by (rule parses_bind [OF Cons.IH parses_ret])
  from parses_bind [where f = "\<lambda>x. bind_rd (repeat_rd (length xs) p) (\<lambda>xs. ret_rd (x # xs))", OF Cons.hyps(1) this]
  show ?case by simp
qed

lemma monotone_bind:
  assumes "monotone_rd p" "\<And>x. monotone_rd (f x)" shows "monotone_rd (bind_rd p f)"
proof -
  have "bind_rd p f (b @ ext, False) = (y, (c @ ext, False))" if "bind_rd p f (b, False) = (y, (c, False))" for b y c ext
  proof -
    obtain x b1 e1 where p: "p (b, False) = (x, (b1, e1))" by (cases "p (b, False)") auto
    with that have f: "f x (b1, e1) = (y, (c, False))" by (simp add: bind_rd_def)
    have "\<not> e1"
    proof
      assume e1
      then have "snd (snd (f x (b1, e1)))" using assms(2) [of x] by (simp add: monotone_rd_def)
      with f show False by simp
    qed
    with p f assms(1) assms(2) [of x] show ?thesis by (simp add: monotone_rd_def bind_rd_def)
  qed
  moreover have "snd (snd (bind_rd p f (b, True)))" for b
  proof -
    obtain x b1 e1 where p: "p (b, True) = (x, (b1, e1))" by (cases "p (b, True)") auto
    moreover have "snd (snd (p (b, True)))" using assms(1) by (simp add: monotone_rd_def)
    ultimately show ?thesis using assms(2) [of x] by (simp add: monotone_rd_def bind_rd_def)
  qed
  ultimately show ?thesis by (simp add: monotone_rd_def)
qed

lemma monotone_ret: "monotone_rd (ret_rd x)"
  by (simp add: monotone_rd_def ret_rd_def)

lemma monotone_take: "monotone_rd (reader_take n)"
  by (auto simp: monotone_rd_def reader_take_def split: if_splits)

lemma monotone_failed: "monotone_rd failed_rd"
  by (simp add: monotone_rd_def failed_rd_def)

lemma monotone_uint: "monotone_rd (reader_uint k)"
  by (simp add: reader_uint_def monotone_bind monotone_take monotone_ret)

lemma monotone_bytes: "monotone_rd reader_bytes"
  by (simp add: reader_bytes_def monotone_bind monotone_uint monotone_failed monotone_take monotone_ret)

lemma monotone_repeat: "monotone_rd p \<Longrightarrow> monotone_rd (repeat_rd n p)"
  by (induction n) (simp_all add: monotone_bind monotone_ret)

lemmas monotone_rds = monotone_bind monotone_ret monotone_take monotone_uint monotone_bytes monotone_repeat

lemma monotone_slab: "monotone_rd read_slab"
  by (simp add: read_slab_def read_sector_def monotone_rds)

lemma monotone_object: "monotone_rd (read_object idtext)"
  by (simp add: read_object_def read_range_def monotone_rds)

text \<open>A layout cut short is refused, and only an empty buffer is a panic.\<close>

lemma byteAt_Cons: "byteAt (v # b, False) = (v, (b, False))"
  by (simp add: byteAt_def bind_rd_def reader_take_def ret_rd_def)

lemma decode_with_Cons:
  "decode_with body (v # b) =
     (if v \<noteq> envelopeVersion then Inl ErrStaleLocation
      else case body (b, False) of (x, r') \<Rightarrow> if snd r' then Inl ErrStaleLocation else Inr x)"
  by (simp add: decode_with_def byteAt_Cons)

lemma decode_with_Nil: "decode_with body [] = Inl Panic"
  by (simp add: decode_with_def byteAt_def bind_rd_def reader_take_def ret_rd_def envelopeVersion_def)

lemma decode_with_panic: "decode_with body b = Inl Panic \<longleftrightarrow> b = []"
  by (cases b) (auto simp: decode_with_Nil decode_with_Cons split: prod.splits)

lemma decode_with_parses: "parses body enc x \<Longrightarrow> decode_with body (envelopeVersion # enc) = Inr x"
  using spec [of "\<lambda>rest. body (enc @ rest, False) = (x, (rest, False))" "[]"]
  by (simp add: decode_with_Cons parses_def)

lemma decode_with_truncated:
  assumes "parses body enc x" "monotone_rd body" "0 < k" "k < length (envelopeVersion # enc)"
  shows "decode_with body (take k (envelopeVersion # enc)) = Inl ErrStaleLocation"
proof -
  obtain j where k: "k = Suc j" using assms(3) by (cases k) auto
  obtain y b' e where run: "body (take j enc, False) = (y, (b', e))" by (cases "body (take j enc, False)") auto
  have e
  proof (rule ccontr)
    assume "\<not> e"
    then have "body (take j enc @ drop j enc, False) = (y, (b' @ drop j enc, False))"
      using run assms(2) unfolding monotone_rd_def by (metis (full_types))
    moreover have "body (enc @ [], False) = (x, ([], False))" using assms(1) unfolding parses_def by blast
    ultimately have "drop j enc = []" by simp
    then show False using assms(4) k by simp
  qed
  then show ?thesis using run by (simp add: k decode_with_Cons)
qed

section \<open>Objects and slabs of the network\<close>

definition slice_fits :: "SlabSlice \<Rightarrow> bool" where
  "slice_fits s \<longleftrightarrow> length (sli_EncryptionKey s) = 32 \<and> sli_MinShards s < 2 ^ 16 \<and> length (sli_Sectors s) < 2 ^ 16 \<and>
     (\<forall>t \<in> set (sli_Sectors s). length (pst_Root t) = 32 \<and> length (pst_HostKey t) = 32) \<and>
     sli_Offset s < 2 ^ 32 \<and> sli_Length s < 2 ^ 32"

definition sealed_fits :: "SealedObject \<Rightarrow> bool" where
  "sealed_fits obj \<longleftrightarrow> length (sea_EncryptedDataKey obj) < 2 ^ 32 \<and> length (sea_DataSignature obj) = 64 \<and>
     length (sea_EncryptedMetadataKey obj) < 2 ^ 32 \<and> length (sea_EncryptedMetadata obj) < 2 ^ 32 \<and>
     length (sea_MetadataSignature obj) = 64 \<and> length (sea_Slabs obj) < 2 ^ 16 \<and> (\<forall>s \<in> set (sea_Slabs obj). slice_fits s) \<and>
     - (2 ^ 63) \<le> sea_CreatedAt obj \<and> sea_CreatedAt obj < 2 ^ 63 \<and> - (2 ^ 63) \<le> sea_UpdatedAt obj \<and> sea_UpdatedAt obj < 2 ^ 63"

lemma int64_bits_of:
  assumes "- (2 ^ 63) \<le> x" "x < (2 ^ 63 :: int)"
  shows "int64_of (int64_bits x) = x" "int64_bits x < 256 ^ 8"
proof -
  have p: "(256 :: nat) ^ 8 = nat (2 ^ 64)" by simp
  show "int64_bits x < 256 ^ 8" unfolding int64_bits_def p by (subst nat_less_eq_zless) simp_all
  show "int64_of (int64_bits x) = x"
  proof (cases "0 \<le> x")
    case True
    then have "x mod 2 ^ 64 = x" using assms by (intro mod_pos_pos_trivial) simp_all
    then show ?thesis using True assms by (simp add: int64_of_def int64_bits_def nat_less_iff)
  next
    case False
    then have "x mod 2 ^ 64 = x + 2 ^ 64" using assms
      by (intro int_mod_pos_eq [where q = "- 1"]) simp_all
    then show ?thesis using False assms by (simp add: int64_of_def int64_bits_def nat_less_iff)
  qed
qed

lemma parses_slab:
  assumes "slice_fits s"
  shows "parses read_slab (tl (encodeSlab s)) (s\<lparr>sli_Offset := 0, sli_Length := 0\<rparr>)"
proof -
  note wf = assms [unfolded slice_fits_def]
  have "parses read_sector (encode_sector t) t" if "t \<in> set (sli_Sectors s)" for t
  proof -
    have "parses read_sector (pst_Root t @ (pst_HostKey t @ [])) t"
      unfolding read_sector_def
      by (rule parses_bind [OF parses_take], use assms that in \<open>simp add: slice_fits_def\<close>,
          rule parses_bind [OF parses_take], use assms that in \<open>simp add: slice_fits_def\<close>)
        (cases t, simp add: parses_ret)
    then show ?thesis by (simp add: encode_sector_def)
  qed
  then have "list_all2 (parses read_sector) (map encode_sector (sli_Sectors s)) (sli_Sectors s)"
    by (simp add: list_all2_map1 list.rel_refl_strong)
  note sectors = parses_repeat [OF this]
  have "parses read_slab (sli_EncryptionKey s @ be_bytes 2 (sli_MinShards s) @ be_bytes 2 (length (sli_Sectors s)) @
      concat (map encode_sector (sli_Sectors s)) @ []) (s\<lparr>sli_Offset := 0, sli_Length := 0\<rparr>)"
    unfolding read_slab_def
    by (rule parses_bind [OF parses_take], use wf in simp, rule parses_bind [OF parses_uint], use wf in simp,
        rule parses_bind [OF parses_uint], use wf in simp, rule parses_bind [OF sectors])
      (cases s, simp add: parses_ret)
  then show ?thesis by (simp add: encodeSlab_def)
qed

lemma parses_object:
  assumes "sealed_fits obj" "\<And>s. length (digest s) = 32"
  shows "parses (read_object idtext) (tl (encodeObject digest obj))
    (obj\<lparr>sea_Slabs := map (\<lambda>s. blank_slice\<lparr>sli_Offset := sli_Offset s, sli_Length := sli_Length s\<rparr>) (sea_Slabs obj)\<rparr>,
     map (\<lambda>s. idtext (digest s)) (sea_Slabs obj))"
proof -
  let ?range = "\<lambda>s. (idtext (digest s), blank_slice\<lparr>sli_Offset := sli_Offset s, sli_Length := sli_Length s\<rparr>)"
  note wf = assms(1) [unfolded sealed_fits_def]
  have "parses (read_range idtext) (encode_range digest s) (?range s)" if "s \<in> set (sea_Slabs obj)" for s
  proof -
    have "parses (read_range idtext) (digest s @ be_bytes 4 (sli_Offset s) @ be_bytes 4 (sli_Length s) @ []) (?range s)"
      unfolding read_range_def
      by (rule parses_bind [OF parses_take], rule assms(2), rule parses_bind [OF parses_uint], use wf that in \<open>simp add: slice_fits_def\<close>,
          rule parses_bind [OF parses_uint], use wf that in \<open>simp add: slice_fits_def\<close>) (rule parses_ret)
    then show ?thesis by (simp add: encode_range_def)
  qed
  then have "list_all2 (parses (read_range idtext)) (map (encode_range digest) (sea_Slabs obj)) (map ?range (sea_Slabs obj))"
    by (simp add: list_all2_map1 list_all2_map2 list.rel_refl_strong)
  note ranges = parses_repeat [OF this, simplified length_map]
  have "parses (read_object idtext) (appendBytes (sea_EncryptedDataKey obj) @ sea_DataSignature obj @
     appendBytes (sea_EncryptedMetadataKey obj) @ appendBytes (sea_EncryptedMetadata obj) @ sea_MetadataSignature obj @
     be_bytes 8 (int64_bits (sea_CreatedAt obj)) @ be_bytes 8 (int64_bits (sea_UpdatedAt obj)) @
     be_bytes 2 (length (sea_Slabs obj)) @ concat (map (encode_range digest) (sea_Slabs obj)) @ [])
    (obj\<lparr>sea_Slabs := map (\<lambda>s. blank_slice\<lparr>sli_Offset := sli_Offset s, sli_Length := sli_Length s\<rparr>) (sea_Slabs obj)\<rparr>,
     map (\<lambda>s. idtext (digest s)) (sea_Slabs obj))"
    unfolding read_object_def
    by (rule parses_bind [OF parses_bytes], use wf in simp, rule parses_bind [OF parses_take], use wf in simp,
        rule parses_bind [OF parses_bytes], use wf in simp, rule parses_bind [OF parses_bytes], use wf in simp,
        rule parses_bind [OF parses_take], use wf in simp,
        rule parses_bind [OF parses_uint], rule int64_bits_of(2), use wf in simp, use wf in simp,
        rule parses_bind [OF parses_uint], rule int64_bits_of(2), use wf in simp, use wf in simp,
        rule parses_bind [OF parses_uint], use wf in simp, rule parses_bind [OF ranges])
      (use wf in \<open>cases obj, simp add: parses_ret int64_bits_of(1) o_def\<close>)
  then show ?thesis by (simp add: encodeObject_def)
qed

lemma encode_version: "encodeSlab s = envelopeVersion # tl (encodeSlab s)" "encodeObject digest obj = envelopeVersion # tl (encodeObject digest obj)"
  by (simp_all add: encodeSlab_def encodeObject_def)

lemma decodeSlab_encode: "slice_fits s \<Longrightarrow> decodeSlab (encodeSlab s) = Inr (s\<lparr>sli_Offset := 0, sli_Length := 0\<rparr>)"
  unfolding decodeSlab_def by (subst encode_version(1)) (rule decode_with_parses [OF parses_slab])

lemma join_loop_split:
  assumes "\<forall>s \<in> set slices. slice_fits s \<and> shared (idof s) = Some (encodeSlab s)"
  shows "join_loop shared (map idof slices) (map (\<lambda>s. blank_slice\<lparr>sli_Offset := sli_Offset s, sli_Length := sli_Length s\<rparr>) slices) = Inr slices"
  using assms by (induction slices) (simp_all add: decodeSlab_encode)

lemma split_join:
  assumes "sealed_fits obj" "\<And>s. length (digest s) = 32"
    and "\<forall>s \<in> set (sea_Slabs obj). \<forall>t \<in> set (sea_Slabs obj). idtext (digest s) = idtext (digest t) \<longrightarrow> encodeSlab s = encodeSlab t"
    and "splitLocation digest idtext ref obj = (location, parts)"
  shows "joinLocation idtext location (map_of (map (\<lambda>p. (slo_ID p, slo_Bytes p)) parts)) = Inr obj"
proof -
  let ?id = "\<lambda>s. idtext (digest s)"
  have l: "loc_Bytes location = encodeObject digest obj" and p: "parts = map (\<lambda>s. \<lparr>slo_ID = ?id s, slo_Bytes = encodeSlab s\<rparr>) (sea_Slabs obj)"
    using assms(4) by (auto simp: splitLocation_def)
  have dec: "decodeObject idtext (encodeObject digest obj) =
      Inr (obj\<lparr>sea_Slabs := map (\<lambda>s. blank_slice\<lparr>sli_Offset := sli_Offset s, sli_Length := sli_Length s\<rparr>) (sea_Slabs obj)\<rparr>,
        map ?id (sea_Slabs obj))"
    unfolding decodeObject_def
    by (subst encode_version(2)) (rule decode_with_parses [OF parses_object [OF assms(1,2)]])
  have "map_of (map (\<lambda>s. (?id s, encodeSlab s)) ss) (?id s) = Some (encodeSlab s)"
    if "s \<in> set ss" "set ss \<subseteq> set (sea_Slabs obj)" for s ss
    using that
  proof (induction ss)
    case (Cons t ss)
    show ?case
    proof (cases "?id t = ?id s")
      case True
      then have "encodeSlab t = encodeSlab s" using assms(3) Cons.prems by auto
      then show ?thesis using True by simp
    next
      case False
      then show ?thesis using Cons by auto
    qed
  qed simp
  then have "\<forall>s \<in> set (sea_Slabs obj). slice_fits s \<and> map_of (map (\<lambda>p. (slo_ID p, slo_Bytes p)) parts) (?id s) = Some (encodeSlab s)"
    using assms(1) by (simp add: p o_def sealed_fits_def)
  note joined = join_loop_split [OF this]
  have "encodeObject digest obj \<noteq> []" by (simp add: encodeObject_def)
  then show ?thesis unfolding joinLocation_def l dec by (simp add: joined)
qed

text \<open>
  C33. A cached location is put together as it was taken apart. Splitting the location of a
  well-formed object into its own part and the parts its slabs share, in their binary layouts,
  and joining them again gives the object back, field for field, so long as two of its slices
  with the same id share the same parts, which is what the digest naming a slab stands for.
\<close>

theorem location_roundtrip:
  assumes "sealed_fits obj" "\<And>s. length (digest s) = 32"
    and "\<forall>s \<in> set (sea_Slabs obj). \<forall>t \<in> set (sea_Slabs obj). idtext (digest s) = idtext (digest t) \<longrightarrow> encodeSlab s = encodeSlab t"
    and "splitLocation digest idtext ref obj = (location, parts)"
  shows "joinLocation idtext location (map_of (map (\<lambda>p. (slo_ID p, slo_Bytes p)) parts)) = Inr obj"
  by (rule split_join [OF assms])

text \<open>
  C34. Damage to a cached location is refused, never misread as a shorter one: any proper prefix
  of what was cached of an object or of a slab, down to one byte, is a stale location, on which
  the indexer is asked again. Only an empty buffer is worse: the decoders index its first byte
  to report its version, which panics.
\<close>

theorem truncated_location_refused:
  assumes "sealed_fits obj" "\<And>s. length (digest s) = 32" "slice_fits slc"
  shows "(0 < k \<and> k < length (encodeObject digest obj) \<longrightarrow> decodeObject idtext (take k (encodeObject digest obj)) = Inl ErrStaleLocation)
    \<and> (0 < k \<and> k < length (encodeSlab slc) \<longrightarrow> decodeSlab (take k (encodeSlab slc)) = Inl ErrStaleLocation)
    \<and> (decodeSlab b = Inl Panic \<longleftrightarrow> b = []) \<and> (decodeObject idtext b = Inl Panic \<longleftrightarrow> b = [])"
proof (intro conjI impI)
  show "decodeObject idtext (take k (encodeObject digest obj)) = Inl ErrStaleLocation"
    if "0 < k \<and> k < length (encodeObject digest obj)"
    unfolding decodeObject_def
    by (subst encode_version(2)) (rule decode_with_truncated [OF parses_object [OF assms(1,2)] monotone_object],
      use that in \<open>simp_all add: encodeObject_def\<close>)
  show "decodeSlab (take k (encodeSlab slc)) = Inl ErrStaleLocation" if "0 < k \<and> k < length (encodeSlab slc)"
    unfolding decodeSlab_def
    by (subst encode_version(1)) (rule decode_with_truncated [OF parses_slab [OF assms(3)] monotone_slab],
      use that in \<open>simp_all add: encodeSlab_def\<close>)
qed (simp_all add: decodeSlab_def decodeObject_def decode_with_panic)

definition sample_slice :: SlabSlice where
  "sample_slice = \<lparr>sli_EncryptionKey = replicate 32 7, sli_MinShards = 1,
     sli_Sectors = [\<lparr>pst_Root = replicate 32 1, pst_HostKey = replicate 32 2\<rparr>], sli_Offset = 3, sli_Length = 300\<rparr>"

definition sample_sealed :: SealedObject where
  "sample_sealed = \<lparr>sea_EncryptedDataKey = [1, 2], sea_DataSignature = replicate 64 3, sea_EncryptedMetadataKey = [],
     sea_EncryptedMetadata = [9], sea_MetadataSignature = replicate 64 4, sea_Slabs = [sample_slice],
     sea_CreatedAt = - 5, sea_UpdatedAt = 1700000000000000000\<rparr>"

lemma sample_wf: "sealed_fits sample_sealed" "slice_fits sample_slice"
  by (simp_all add: sealed_fits_def slice_fits_def sample_sealed_def sample_slice_def)

lemma location_roundtrip_witness:
  "joinLocation (\<lambda>_. ''slab'') (fst (splitLocation (\<lambda>_. replicate 32 0) (\<lambda>_. ''slab'') ''ref'' sample_sealed))
     [''slab'' \<mapsto> encodeSlab sample_slice] = Inr sample_sealed"
proof -
  obtain location parts where s: "splitLocation (\<lambda>_. replicate 32 0) (\<lambda>_. ''slab'') ''ref'' sample_sealed = (location, parts)"
    by (cases "splitLocation (\<lambda>_. replicate 32 0) (\<lambda>_. ''slab'') ''ref'' sample_sealed")
  have "joinLocation (\<lambda>_. ''slab'') location (map_of (map (\<lambda>p. (slo_ID p, slo_Bytes p)) parts)) = Inr sample_sealed"
    by (rule location_roundtrip [OF sample_wf(1) _ _ s]) (simp_all add: sample_sealed_def)
  moreover have "map_of (map (\<lambda>p. (slo_ID p, slo_Bytes p)) parts) = [''slab'' \<mapsto> encodeSlab sample_slice]"
    using s by (auto simp: splitLocation_def sample_sealed_def)
  ultimately show ?thesis by (simp add: s)
qed

lemma truncated_location_refused_witness:
  "decodeSlab (take 40 (encodeSlab sample_slice)) = Inl ErrStaleLocation"
proof -
  have "40 < length (encodeSlab sample_slice)" by (simp add: encodeSlab_def encode_sector_def sample_slice_def)
  with truncated_location_refused [where digest = "\<lambda>_. replicate 32 0" and k = 40, OF sample_wf(1) _ sample_wf(2)]
  show ?thesis by simp
qed

section \<open>What reaches the SDK's reader\<close>

text \<open>The hosts of a network that has finitely many, in pages of a hundred.\<close>

definition host_pages_of :: "(nat \<Rightarrow> nat \<Rightarrow> 'n \<Rightarrow> (string, bytes list) result \<times> 'n) \<Rightarrow> 'n \<Rightarrow> bytes list \<Rightarrow> bool" where
  "host_pages_of hosts n ids \<longleftrightarrow> (\<forall>offset k. hosts offset k n = (Inr (take k (drop offset ids)), n))"

lemma host_pages_list:
  assumes "host_pages_of hosts n ids" shows "host_pages hosts offset (set (take offset ids)) n = Some (Inr (set ids), n)"
proof (induction "length ids - offset" arbitrary: offset rule: less_induct)
  case less
  have page: "hosts offset 100 n = (Inr (take 100 (drop offset ids)), n)" using assms by (simp add: host_pages_of_def)
  show ?case
  proof (cases "length (take 100 (drop offset ids)) < 100")
    case True
    then have "take offset ids @ take 100 (drop offset ids) = ids" by (auto simp: min_def split: if_splits)
    then have "set (take offset ids) \<union> set (take 100 (drop offset ids)) = set ids" by (metis set_append)
    then show ?thesis using page True by (subst host_pages.simps) (simp del: length_take)
  next
    case False
    then have "length ids - (offset + 100) < length ids - offset" by auto
    note less.hyps [OF this]
    moreover have "set (take offset ids) \<union> set (take 100 (drop offset ids)) = set (take (offset + 100) ids)"
      by (metis set_append take_add)
    ultimately show ?thesis using page False by (subst host_pages.simps) simp
  qed
qed

lemma knownHosts_result:
  assumes "knownHosts hosts now fetched h n = Some (Inr known, h', n')"
  shows "hs_hosts h' = Some known \<and> (h' = h \<and> now - hs_at h < HostSetTTL \<or> hs_at h' = fetched)"
  using assms by (auto simp: knownHosts_def split: option.splits if_splits sum.splits)

lemma read_was_reachable:
  assumes "DownloadAt idtext hosts open_sealed read_body now fetched location shared h n = Some (Inr body, h', n')"
  shows "\<exists>sealed known obj. joinLocation idtext location shared = Inr sealed \<and> open_sealed sealed = Some obj \<and>
    hs_hosts h' = Some known \<and> (h' = h \<and> now - hs_at h < HostSetTTL \<or> hs_at h' = fetched) \<and>
    (\<forall>s \<in> set (sea_Slabs sealed). 0 < sli_MinShards s \<and>
       sli_MinShards s \<le> length (filter (\<lambda>t. pst_HostKey t \<in> known) (sli_Sectors s))) \<and>
    (\<forall>ids. host_pages_of hosts n ids \<and> \<not> (h' = h \<and> now - hs_at h < HostSetTTL) \<longrightarrow> known = set ids)"
proof -
  obtain sealed where join: "joinLocation idtext location shared = Inr sealed"
    using assms by (cases "joinLocation idtext location shared") (auto simp: DownloadAt_def)
  obtain n1 where check: "checkReachable hosts now fetched (sea_Slabs sealed) h n = Some (Inr (), h', n1)"
    and opened: "\<exists>obj. open_sealed sealed = Some obj"
    using assms join by (auto simp: DownloadAt_def split: option.splits sum.splits prod.splits)
  obtain known where known: "knownHosts hosts now fetched h n = Some (Inr known, h', n1)"
    and ok: "list_all (slice_reachable known) (sea_Slabs sealed)"
    using check by (auto simp: checkReachable_def bind_result_Inr_iff split: if_splits)
  have "known = set ids" if "host_pages_of hosts n ids" "\<not> (h' = h \<and> now - hs_at h < HostSetTTL)" for ids
    using known that host_pages_list [OF that(1), of 0]
    by (auto simp: knownHosts_def split: option.splits if_splits sum.splits)
  moreover have "0 < sli_MinShards s \<and> sli_MinShards s \<le> length (filter (\<lambda>t. pst_HostKey t \<in> known) (sli_Sectors s))"
    if "s \<in> set (sea_Slabs sealed)" for s
    using ok that by (auto simp: list_all_iff slice_reachable_def)
  ultimately show ?thesis using join opened knownHosts_result [OF known] by blast
qed

lemma read_asks_reachable:
  assumes "\<And>sealed obj known h1 n1. joinLocation idtext location shared = Inr sealed \<Longrightarrow> open_sealed sealed = Some obj \<Longrightarrow>
      knownHosts hosts now fetched h n = Some (Inr known, h1, n1) \<Longrightarrow> list_all (slice_reachable known) (sea_Slabs sealed) \<Longrightarrow>
      read_body obj n1 = other_body obj n1"
  shows "DownloadAt idtext hosts open_sealed read_body now fetched location shared h n =
    DownloadAt idtext hosts open_sealed other_body now fetched location shared h n"
proof (cases "joinLocation idtext location shared")
  case (Inr sealed)
  have "read_body obj n1 = other_body obj n1"
    if "checkReachable hosts now fetched (sea_Slabs sealed) h n = Some (Inr (), h1, n1)" "open_sealed sealed = Some obj" for obj h1 n1
    using that assms [OF Inr that(2)]
    by (auto simp: checkReachable_def bind_result_Inr_iff split: if_splits)
  then show ?thesis using Inr by (auto simp: DownloadAt_def split: option.split sum.split prod.split)
qed (simp add: DownloadAt_def)

text \<open>
  C35. A cached location reaches the SDK's reader, which crashes the process on a slab with too
  few usable hosts, only when every slab has enough. Two readers that agree on the objects whose every
  slab has at least one shard to find and that many sectors on hosts the client knows at that moment,
  from the network as it is after the hosts were fetched, give the same read: what a reader does with
  any other object, at any earlier moment, is never seen, so it is never asked. If a read from the cache
  returns a body, the location joined to an object the key opens, with such slabs, and the hosts were
  known from a set younger than five minutes or fetched for this read. On a network with finitely many
  hosts the fetch ends, with all of them.
\<close>

theorem cached_read_reachable:
  assumes "\<And>sealed obj known h1 n1. joinLocation idtext location shared = Inr sealed \<Longrightarrow> open_sealed sealed = Some obj \<Longrightarrow>
      knownHosts hosts now fetched h n = Some (Inr known, h1, n1) \<Longrightarrow>
      \<forall>s \<in> set (sea_Slabs sealed). 0 < sli_MinShards s \<and>
        sli_MinShards s \<le> length (filter (\<lambda>t. pst_HostKey t \<in> known) (sli_Sectors s)) \<Longrightarrow>
      read_body obj n1 = other_body obj n1"
  shows "DownloadAt idtext hosts open_sealed read_body now fetched location shared h n =
      DownloadAt idtext hosts open_sealed other_body now fetched location shared h n \<and>
    (\<forall>body h' n'. DownloadAt idtext hosts open_sealed read_body now fetched location shared h n = Some (Inr body, h', n') \<longrightarrow>
      (\<exists>sealed known obj. joinLocation idtext location shared = Inr sealed \<and> open_sealed sealed = Some obj \<and>
        hs_hosts h' = Some known \<and> (h' = h \<and> now - hs_at h < HostSetTTL \<or> hs_at h' = fetched) \<and>
        (\<forall>s \<in> set (sea_Slabs sealed). 0 < sli_MinShards s \<and>
           sli_MinShards s \<le> length (filter (\<lambda>t. pst_HostKey t \<in> known) (sli_Sectors s))) \<and>
        (\<forall>ids. host_pages_of hosts n ids \<and> \<not> (h' = h \<and> now - hs_at h < HostSetTTL) \<longrightarrow> known = set ids)))"
proof (intro conjI allI impI)
  show "DownloadAt idtext hosts open_sealed read_body now fetched location shared h n =
      DownloadAt idtext hosts open_sealed other_body now fetched location shared h n"
  proof (rule read_asks_reachable)
    fix sealed obj known h1 n1
    assume a: "joinLocation idtext location shared = Inr sealed" "open_sealed sealed = Some obj"
      "knownHosts hosts now fetched h n = Some (Inr known, h1, n1)" "list_all (slice_reachable known) (sea_Slabs sealed)"
    have "\<forall>s \<in> set (sea_Slabs sealed). 0 < sli_MinShards s \<and>
        sli_MinShards s \<le> length (filter (\<lambda>t. pst_HostKey t \<in> known) (sli_Sectors s))"
      using a(4) by (auto simp: list_all_iff slice_reachable_def)
    then show "read_body obj n1 = other_body obj n1" by (rule assms [OF a(1-3)])
  qed
next
  fix body h' n'
  assume "DownloadAt idtext hosts open_sealed read_body now fetched location shared h n = Some (Inr body, h', n')"
  then show "\<exists>sealed known obj. joinLocation idtext location shared = Inr sealed \<and> open_sealed sealed = Some obj \<and>
        hs_hosts h' = Some known \<and> (h' = h \<and> now - hs_at h < HostSetTTL \<or> hs_at h' = fetched) \<and>
        (\<forall>s \<in> set (sea_Slabs sealed). 0 < sli_MinShards s \<and>
           sli_MinShards s \<le> length (filter (\<lambda>t. pst_HostKey t \<in> known) (sli_Sectors s))) \<and>
        (\<forall>ids. host_pages_of hosts n ids \<and> \<not> (h' = h \<and> now - hs_at h < HostSetTTL) \<longrightarrow> known = set ids)"
    by (rule read_was_reachable)
qed

lemma sample_joins:
  "joinLocation (\<lambda>_. ''slab'') (fst (splitLocation (\<lambda>_. replicate 32 0) (\<lambda>_. ''slab'') ''ref'' sample_sealed))
     [''slab'' \<mapsto> encodeSlab sample_slice] = Inr sample_sealed"
  using split_join [OF sample_wf(1), of "\<lambda>_. replicate 32 0" "\<lambda>_. ''slab''" "''ref''"]
  by (simp add: splitLocation_def sample_sealed_def)

definition one_host :: "nat \<Rightarrow> nat \<Rightarrow> unit \<Rightarrow> (string, bytes list) result \<times> unit" where
  "one_host offset k n = (Inr (take k (drop offset [replicate 32 2])), n)"

text \<open>
  With its one host known the object is read. With none known it is not: a reader that would mark the
  network leaves it as it was.
\<close>

definition no_host :: "nat \<Rightarrow> nat \<Rightarrow> bool \<Rightarrow> (string, bytes list) result \<times> bool" where
  "no_host offset k n = (Inr [], n)"

definition sample_location :: Location where
  "sample_location = fst (splitLocation (\<lambda>_. replicate 32 0) (\<lambda>_. ''slab'') ''ref'' sample_sealed)"

lemma cached_read_reachable_witness:
  "(\<exists>h' known. DownloadAt (\<lambda>_. ''slab'') one_host Some (\<lambda>_ n. (Inr [1], n)) 5 6 sample_location
       [''slab'' \<mapsto> encodeSlab sample_slice] \<lparr>hs_hosts = None, hs_at = 0\<rparr> () = Some (Inr [1], h', ()) \<and>
     hs_hosts h' = Some known \<and> replicate 32 2 \<in> known) \<and>
   (\<exists>h'. DownloadAt (\<lambda>_. ''slab'') no_host Some (\<lambda>_ n. (Inr [1], True)) 5 6 sample_location
       [''slab'' \<mapsto> encodeSlab sample_slice] \<lparr>hs_hosts = None, hs_at = 0\<rparr> False = Some (Inl ErrStaleLocation, h', False))"
proof
  let ?loc = sample_location
  let ?h = "\<lparr>hs_hosts = None, hs_at = 0\<rparr>" and ?h' = "\<lparr>hs_hosts = Some {replicate 32 2}, hs_at = 6\<rparr>"
  have dec: "joinLocation (\<lambda>_. ''slab'') ?loc [''slab'' \<mapsto> encodeSlab sample_slice] = Inr sample_sealed"
    unfolding sample_location_def by (rule sample_joins)
  have pages: "host_pages_of one_host () [replicate 32 2]" by (simp add: host_pages_of_def one_host_def)
  have "checkReachable one_host 5 6 (sea_Slabs sample_sealed) ?h () = Some (Inr (), ?h', ())"
    using host_pages_list [OF pages, of 0]
    by (simp add: checkReachable_def knownHosts_def slice_reachable_def sample_sealed_def sample_slice_def)
  then have "DownloadAt (\<lambda>_. ''slab'') one_host Some (\<lambda>_ n. (Inr [1], n)) 5 6 ?loc [''slab'' \<mapsto> encodeSlab sample_slice] ?h () =
      Some (Inr [1], ?h', ())"
    by (simp add: DownloadAt_def dec)
  then show "\<exists>h' known. DownloadAt (\<lambda>_. ''slab'') one_host Some (\<lambda>_ n. (Inr [1], n)) 5 6 ?loc
       [''slab'' \<mapsto> encodeSlab sample_slice] ?h () = Some (Inr [1], h', ()) \<and> hs_hosts h' = Some known \<and> replicate 32 2 \<in> known"
    by (intro exI [of _ ?h'] exI [of _ "{replicate 32 2}"]) simp
  have empty: "host_pages_of no_host False []" by (simp add: host_pages_of_def no_host_def)
  have none: "knownHosts no_host 5 6 ?h False = Some (Inr {}, \<lparr>hs_hosts = Some {}, hs_at = 6\<rparr>, False)"
    using host_pages_list [OF empty, of 0] by (simp add: knownHosts_def)
  have "DownloadAt (\<lambda>_. ''slab'') no_host Some (\<lambda>_ n. (Inr [1], True)) 5 6 ?loc [''slab'' \<mapsto> encodeSlab sample_slice] ?h False =
      DownloadAt (\<lambda>_. ''slab'') no_host Some (\<lambda>_ n. (Inl ''crashed'', n)) 5 6 ?loc [''slab'' \<mapsto> encodeSlab sample_slice] ?h False"
    by (rule conjunct1 [OF cached_read_reachable]) (simp add: dec none, auto simp: sample_sealed_def sample_slice_def)
  also have "\<dots> = Some (Inl ErrStaleLocation, \<lparr>hs_hosts = Some {}, hs_at = 6\<rparr>, False)"
    by (simp add: DownloadAt_def dec checkReachable_def none) (simp add: sample_sealed_def sample_slice_def slice_reachable_def)
  finally show "\<exists>h'. DownloadAt (\<lambda>_. ''slab'') no_host Some (\<lambda>_ n. (Inr [1], True)) 5 6 ?loc
       [''slab'' \<mapsto> encodeSlab sample_slice] ?h False = Some (Inl ErrStaleLocation, h', False)" by blast
qed

end
