(* ===== verification/Vault_Core.thy ===== *)
theory Vault_Core
  imports Vault_Reclaim Manifest_Spec Index_Spec Ix_Core Ix_Store Local_Records Local_Sessions Local_Caches Sia_Location Recall
begin

text \<open>
  The vault (\<open>vault/vault.go\<close>): the state it orchestrates, how an operation of one component runs
  inside it, and the operations the others share: the vectors (\<open>vault/vectors.go\<close>), the ranking
  metadata (\<open>vault/catalog.go\<close>), the catalogue of a flush (\<open>vault/remember.go\<close>) and the heads of
  sessions (\<open>vault/session.go\<close>).

  The device's store and the queue are those of \<open>world\<close>; what that record calls the network is here
  the rest of the vault: the network itself, the catalog and its files, the vectors and theirs, and
  the vault's own fields. The catalog and the vectors keep a fault plan each, so a call may fail in
  any of the three. A \<open>venv\<close> is what opening the vault settles: the keys, the model and the client,
  with the third-party code as its parameters. The durations a report carries and the progress
  events are left out.
\<close>

section \<open>The state\<close>

record IndexHealth =
  ih_Model :: string
  ih_Dim :: nat
  ih_Indexed :: int
  ih_Foreign :: "(string \<times> int) list"

record sessionCounters =
  sc_HeadReads :: int
  sc_ChunkReads :: int
  sc_ChunkBytes :: int

record 'm vrest =
  vs_net :: 'm
  vs_man :: man_state
  vs_ix :: ix_state
  vs_index :: Index
  vs_health :: IndexHealth
  vs_ready :: bool
  vs_hosts :: host_set
  vs_reads :: sessionCounters

record ('m, 'o) venv =
  ve_u :: "string \<Rightarrow> string"
  ve_uw :: "string \<Rightarrow> bool"
  ve_crypto :: crypto
  ve_sealer :: Sealer
  ve_codec :: codec
  ve_Model :: string
  ve_Dim :: nat
  ve_EmbedOne :: "nat \<Rightarrow> string \<Rightarrow> (string, float32 list) result"
  ve_jsonMemory :: "Memory \<Rightarrow> bytes option"
  ve_memoryJSON :: "bytes \<Rightarrow> Memory option"
  ve_jsonChunk :: "Chunk \<Rightarrow> bytes option"
  ve_chunkJSON :: "bytes \<Rightarrow> Chunk option"
  ve_jsonSession :: "Session \<Rightarrow> bytes option"
  ve_sessionJSON :: "bytes \<Rightarrow> Session option"
  ve_jsonMessage :: "Message \<Rightarrow> bytes option"
  ve_client :: "('m, 'o) sdk option"
  ve_Sealed :: "string \<Rightarrow> 'm \<Rightarrow> (string, SealedObject) result \<times> 'm"
  ve_ReadObject :: "StoredObject \<Rightarrow> 'm \<Rightarrow> (string, bytes) result \<times> 'm"
  ve_digest :: "SlabSlice \<Rightarrow> bytes"
  ve_idtext :: "bytes \<Rightarrow> string"
  ve_hosts :: "nat \<Rightarrow> nat \<Rightarrow> 'm \<Rightarrow> (string, bytes list) result \<times> 'm"
  ve_openSealed :: "SealedObject \<Rightarrow> 'o option"
  ve_readBody :: "'o \<Rightarrow> 'm \<Rightarrow> (string, bytes) result \<times> 'm"
  ve_policy :: Policy
  ve_owner :: string
  ve_SlabMetaTTL :: int

datatype verr =
    VeLocal local_error
  | VeMan man_error
  | VeIx ix_error
  | VeIndex index_error
  | VeSeal seal_error
  | VePack pk_error
  | VeInvalid invalid
  | VeJSON
  | VeID id_error
  | VeRand
  | VeNet string
  | VeRef string
  | VeLocation location_error
  | VeEmbed string
  | VeOffline
  | VeWrongPhrase
  | VeNotReady
  | VeNoSession ID
  | VeClaimed ID
  | VeNotRecallable ID Kind
  | VeNotMemory ID
  | VeNotChunk ID Kind
  | VeIdentity ID ID
  | VeNoMessage ID string
  | VeNoSource ID
  | VeNoTurns ID
  | VeNoChunks ID
  | VeRepeated string ID
  | VeBadDepth string
  | VeNoObject ID
  | VeJoined verr "verr list"

type_synonym 'm vworld = "'m vrest world"
type_synonym ('m, 'a) vop = "('m vworld, verr, 'a) io"
type_synonym ('m, 'a) vpop = "('m vworld, verr, 'a) pio"

section \<open>Running a component's operation inside the vault\<close>

definition on_local :: "('m vworld, local_error, 'a) io \<Rightarrow> ('m, 'a) vop" where
  "on_local m = wrap_io VeLocal m"

definition on_man :: "'a man_op \<Rightarrow> ('m, 'a) vop" where
  "on_man m = wrap_io VeMan (\<lambda>s.
     case m (vs_man (wl_net s)) of (r, ms) \<Rightarrow> (r, s\<lparr>wl_net := (wl_net s)\<lparr>vs_man := ms\<rparr>\<rparr>))"

definition on_ix :: "'a ix_op \<Rightarrow> ('m, 'a) vop" where
  "on_ix m = wrap_io VeIx (\<lambda>s.
     case m (vs_ix (wl_net s)) of (r, xs) \<Rightarrow> (r, s\<lparr>wl_net := (wl_net s)\<lparr>vs_ix := xs\<rparr>\<rparr>))"

definition over_net :: "('m \<Rightarrow> 'r \<times> 'm) \<Rightarrow> 'm vrest \<Rightarrow> 'r \<times> 'm vrest" where
  "over_net f n = (case f (vs_net n) of (r, m) \<Rightarrow> (r, n\<lparr>vs_net := m\<rparr>))"

definition on_net :: "('m \<Rightarrow> (string, 'a) result \<times> 'm) \<Rightarrow> ('m, 'a) vop" where
  "on_net f = wrap_io VeNet (net_io (over_net f))"

definition over_sdk :: "('m, 'o) sdk \<Rightarrow> ('m vrest, 'o) sdk" where
  "over_sdk c =
     \<lparr>sk_Upload = (\<lambda>ps. over_net (sk_Upload c ps)), sk_PinSlabs = (\<lambda>ss. over_net (sk_PinSlabs c ss)),
      sk_PinObject = (\<lambda>ob. over_net (sk_PinObject c ob)), sk_DeleteObject = (\<lambda>r. over_net (sk_DeleteObject c r)),
      sk_ObjectNotFound = sk_ObjectNotFound c, sk_parseSlabID = sk_parseSlabID c, sk_SlabNotFound = sk_SlabNotFound c,
      sk_UnpinSlab = (\<lambda>i. over_net (sk_UnpinSlab c i)),
      sk_ListObjects = (\<lambda>cur k. over_net (sk_ListObjects c cur k)),
      sk_SlabIDs = (\<lambda>off k. over_net (sk_SlabIDs c off k)), sk_Open = sk_Open c,
      sk_Account = over_net (sk_Account c), sk_Download = (\<lambda>r. over_net (sk_Download c r)),
      sk_OptimalDataSize = over_net (sk_OptimalDataSize c), sk_order = (\<lambda>n. sk_order c (vs_net n))\<rparr>"

text \<open>A call whose error the source drops or inspects: its outcome is its value.\<close>

definition outcome :: "('s, 'e, 'a) io \<Rightarrow> ('s, 'f, ('e, 'a) result) io" where
  "outcome m s = (case m s of (r, s') \<Rightarrow> (Inr r, s'))"

definition json_io :: "'a option \<Rightarrow> ('m, 'a) vop" where
  "json_io v = (case v of None \<Rightarrow> fail_io VeJSON | Some x \<Rightarrow> ret_io x)"

definition seal_io :: "(seal_error, 'a) result \<Rightarrow> ('m, 'a) vop" where
  "seal_io r = (case r of Inl e \<Rightarrow> fail_io (VeSeal e) | Inr x \<Rightarrow> ret_io x)"

text \<open>\<open>record.NewID\<close> reads 16 random bytes, \<open>Sealer.Seal\<close> a nonce.\<close>

definition NewID :: "('m, ID) vop" where
  "NewID = bind_io read_rand (\<lambda>r. case r of None \<Rightarrow> fail_io VeRand | Some b \<Rightarrow> ret_io (take IDSize b))"

definition Vault_Seal :: "('m, 'o) venv \<Rightarrow> bytes \<Rightarrow> ('m, bytes) vop" where
  "Vault_Seal E body = bind_io read_rand (\<lambda>nonce. seal_io (Seal (ve_crypto E) (ve_sealer E) nonce body))"

definition Vault_EmbedOne :: "('m, 'o) venv \<Rightarrow> string \<Rightarrow> ('m, float32 list) vop" where
  "Vault_EmbedOne E txt s =
     (map_sum VeEmbed id (ve_EmbedOne E (mc_step s) txt), s\<lparr>mc_step := mc_step s + 1\<rparr>)"

section \<open>Opening\<close>

definition checkPhrase :: "bytes \<Rightarrow> ('m, unit) vop" where
  "checkPhrase check =
     bind_io (outcome (GetMeta ''phraseCheck'')) (\<lambda>got.
     case got of
       Inl ErrNotFound \<Rightarrow> on_local (PutMeta ''phraseCheck'' (hex_encode check))
     | Inl e \<Rightarrow> fail_io (VeLocal e)
     | Inr v \<Rightarrow> if v \<noteq> hex_encode check then fail_io VeWrongPhrase else ret_io ())"

fun count_foreign :: "string \<Rightarrow> (string \<times> int) list \<Rightarrow> (string \<times> int) list" where
  "count_foreign k [] = [(k, 1)]"
| "count_foreign k ((m, n) # rest) = (if k = m then (m, n + 1) # rest else (m, n) # count_foreign k rest)"

fun classify_loop :: "string \<Rightarrow> nat \<Rightarrow> IxEntry list \<Rightarrow> IxEntry list \<Rightarrow> IndexHealth \<Rightarrow> IxEntry list \<times> IndexHealth" where
  "classify_loop model dim [] usable health = (usable, health)"
| "classify_loop model dim (vector # stored) usable health =
     (if ie_Model vector \<noteq> model \<or> ie_Dim vector \<noteq> dim
      then classify_loop model dim stored usable (health\<lparr>ih_Foreign := count_foreign (ie_Model vector) (ih_Foreign health)\<rparr>)
      else classify_loop model dim stored (usable @ [vector]) (health\<lparr>ih_Indexed := ih_Indexed health + 1\<rparr>))"

definition classifyVectors :: "string \<Rightarrow> nat \<Rightarrow> IxEntry list \<Rightarrow> IxEntry list \<times> IndexHealth" where
  "classifyVectors model dim stored =
     classify_loop model dim stored [] \<lparr>ih_Model = model, ih_Dim = dim, ih_Indexed = 0, ih_Foreign = []\<rparr>"

definition IndexHealth_Mixed :: "IndexHealth \<Rightarrow> bool" where
  "IndexHealth_Mixed h \<longleftrightarrow> length (ih_Foreign h) > 0"

definition IndexHealth_Stale :: "IndexHealth \<Rightarrow> int" where
  "IndexHealth_Stale h = fold (\<lambda>(m, k) n. n + k) (ih_Foreign h) 0"

definition index_add :: "ID \<Rightarrow> string \<Rightarrow> float32 list \<Rightarrow> ('m, unit) vop" where
  "index_add i model vector s =
     (case Index_Add (vs_index (wl_net s)) i model vector of
        Inl e \<Rightarrow> (Inl (VeIndex e), s)
      | Inr ix \<Rightarrow> (Inr (), s\<lparr>wl_net := (wl_net s)\<lparr>vs_index := ix\<rparr>\<rparr>))"

fun add_vectors :: "IxEntry list \<Rightarrow> ('m, unit) vop" where
  "add_vectors [] = ret_io ()"
| "add_vectors (vector # usable) =
     bind_io (index_add (ie_ID vector) (ie_Model vector) (ie_Vector vector)) (\<lambda>_. add_vectors usable)"

definition openIndex :: "('m, 'o) venv \<Rightarrow> ('m, unit) vop" where
  "openIndex E =
     bind_io (put_io (\<lambda>s. s\<lparr>wl_net := (wl_net s)\<lparr>vs_index := Index_New (ve_Model E) (ve_Dim E)\<rparr>\<rparr>)) (\<lambda>_.
     bind_io (on_ix (OpenStore (ve_crypto E) (ve_sealer E))) (\<lambda>_.
     bind_io (on_ix (IxStore_Hydrate (ve_crypto E) (ve_sealer E))) (\<lambda>stored.
     case classifyVectors (ve_Model E) (ve_Dim E) stored of
       (usable, health) \<Rightarrow>
         bind_io (add_vectors usable) (\<lambda>_.
         put_io (\<lambda>s. s\<lparr>wl_net := (wl_net s)\<lparr>vs_health := health\<rparr>\<rparr>)))))"

section \<open>The vectors\<close>

definition compactVectorsIfDue :: "('m, 'o) venv \<Rightarrow> ('m, unit) vop" where
  "compactVectorsIfDue E = bind_io (on_ix (CompactIfDue (ve_crypto E) (ve_sealer E))) (\<lambda>_. ret_io ())"

definition add_indexed :: "int \<Rightarrow> 'm vworld \<Rightarrow> 'm vworld" where
  "add_indexed d s =
     s\<lparr>wl_net := (wl_net s)\<lparr>vs_health := (vs_health (wl_net s))\<lparr>ih_Indexed := ih_Indexed (vs_health (wl_net s)) + d\<rparr>\<rparr>\<rparr>"

definition putVector :: "('m, 'o) venv \<Rightarrow> ID \<Rightarrow> float32 list \<Rightarrow> ('m, unit) vop" where
  "putVector E i vector =
     bind_io (on_ix (IxStore_Append (ve_crypto E) (ve_sealer E)
       [\<lparr>ie_ID = i, ie_Model = ve_Model E, ie_Dim = ve_Dim E, ie_Vector = vector\<rparr>])) (\<lambda>_.
     bind_io (index_add i (ve_Model E) vector) (\<lambda>_.
     bind_io (put_io (add_indexed 1)) (\<lambda>_.
     compactVectorsIfDue E)))"

definition removeVector :: "('m, 'o) venv \<Rightarrow> ID \<Rightarrow> ('m, unit) vop" where
  "removeVector E i =
     bind_io (on_ix (IxStore_Remove (ve_crypto E) (ve_sealer E) [i])) (\<lambda>_ s.
       case Index_Remove (vs_index (wl_net s)) i of
         (gone, ix) \<Rightarrow>
           (let s' = s\<lparr>wl_net := (wl_net s)\<lparr>vs_index := ix\<rparr>\<rparr> in (Inr (), if gone then add_indexed (- 1) s' else s')))"

definition CompactIndex :: "('m, 'o) venv \<Rightarrow> ('m, unit) vop" where
  "CompactIndex E = on_ix (IxStore_Fold (ve_crypto E) (ve_sealer E))"

section \<open>Ranking metadata\<close>

definition Vault_Describe :: "ID list \<Rightarrow> ('m, Described) vop" where
  "Vault_Describe ids =
     bind_io (on_local (Store_Describe ids)) (\<lambda>described.
     ret_io \<lparr>ds_Meta = (\<lambda>i. map_option (\<lambda>m. \<lparr>mta_Kind = rm_Kind m, mta_Type = rm_Type m, mta_Tags = rm_Tags m\<rparr>)
               (ld_Meta described i)),
             ds_Superseded = (\<lambda>i. i \<in> ld_Superseded described)\<rparr>)"

definition rankingMeta :: "Memory \<Rightarrow> RankingMeta" where
  "rankingMeta memory =
     \<lparr>rm_ID = mem_ID memory, rm_Kind = KindMemory, rm_Type = mem_Type memory, rm_Tags = mem_Tags memory,
      rm_Supersedes = mem_Supersedes memory, rm_Text = LexicalText memory\<rparr>"

definition sessionRankingMeta :: "Session \<Rightarrow> RankingMeta" where
  "sessionRankingMeta session =
     \<lparr>rm_ID = ses_ID session, rm_Kind = KindSession, rm_Type = '''', rm_Tags = ses_Tags session,
      rm_Supersedes = None, rm_Text = SessionLexicalText session\<rparr>"

definition put_ranking :: "('m, 'o) venv \<Rightarrow> RankingMeta \<Rightarrow> ('m, unit) vop" where
  "put_ranking E meta = on_local (PutRankingMeta (ve_u E) (ve_uw E) meta)"

section \<open>The heads of sessions\<close>

definition count_read :: "(sessionCounters \<Rightarrow> sessionCounters) \<Rightarrow> ('m, unit) vop" where
  "count_read f = put_io (\<lambda>s. s\<lparr>wl_net := (wl_net s)\<lparr>vs_reads := f (vs_reads (wl_net s))\<rparr>\<rparr>)"

definition Vault_session :: "('m, 'o) venv \<Rightarrow> ID \<Rightarrow> ('m, Session) vop" where
  "Vault_session E i =
     bind_io (on_local (GetSessionHead i)) (\<lambda>head.
     bind_io (count_read (\<lambda>c. c\<lparr>sc_HeadReads := sc_HeadReads c + 1\<rparr>)) (\<lambda>_.
     json_io (ve_sessionJSON E head)))"

definition no_session :: "ID \<Rightarrow> ('m, 'a) vop \<Rightarrow> ('m, 'a) vop" where
  "no_session i m = catch_io m (\<lambda>e. if e = VeLocal ErrNotFound then fail_io (VeNoSession i) else fail_io e)"

definition Vault_Session :: "('m, 'o) venv \<Rightarrow> ID \<Rightarrow> ('m, Session) vop" where
  "Vault_Session E i = no_session i (Vault_session E i)"

definition Vault_embedding :: "('m, 'o) venv \<Rightarrow> Embedding" where
  "Vault_embedding E = \<lparr>emb_Model = ve_Model E, emb_Dim = int (ve_Dim E)\<rparr>"

text \<open>
  A head is written at the version it was read at. One forgotten since is refused as no session.
\<close>

definition putHead :: "('m, 'o) venv \<Rightarrow> Session \<Rightarrow> int \<Rightarrow> ('m, unit) vop" where
  "putHead E session from_version =
     bind_io (json_io (ve_jsonSession E session)) (\<lambda>head.
     no_session (ses_ID session) (on_local (PutSessionHead session head from_version)))"

definition indexHead :: "('m, 'o) venv \<Rightarrow> Session \<Rightarrow> float32 list \<Rightarrow> ('m, unit) vop" where
  "indexHead E session vector =
     bind_io (putVector E (ses_ID session) vector) (\<lambda>_. put_ranking E (sessionRankingMeta session))"

definition reviseHead :: "('m, 'o) venv \<Rightarrow> Session \<Rightarrow> ('m, unit) vop" where
  "reviseHead E session =
     bind_io (on_local record_Now) (\<lambda>now.
     putHead E (session\<lparr>ses_Version := ses_Version session + 1, ses_Updated := now\<rparr>) (ses_Version session))"

definition headRevisions :: nat where "headRevisions = 16"

text \<open>
  An edge is written onto the head as it now is. Other writers may move the head on between the
  read and the write of an attempt: \<open>others\<close> is what they do to the device then, given the number
  of attempts left, which is the source's \<open>headRevisions - attempt\<close>.
\<close>

fun revise_loop ::
  "('m, 'o) venv \<Rightarrow> (nat \<Rightarrow> 'm vworld \<Rightarrow> 'm vworld) \<Rightarrow> ID \<Rightarrow> (Session \<Rightarrow> Session option) \<Rightarrow> nat \<Rightarrow> ('m, unit) vop" where
  "revise_loop E others i change left =
     bind_io (Vault_session E i) (\<lambda>session.
     case change session of
       None \<Rightarrow> ret_io ()
     | Some changed \<Rightarrow>
         bind_io (put_io (others left)) (\<lambda>_.
         catch_io (reviseHead E changed) (\<lambda>e.
           case left of
             0 \<Rightarrow> fail_io e
           | Suc n \<Rightarrow> if e = VeLocal ErrStaleHead then revise_loop E others i change n else fail_io e)))"

declare revise_loop.simps [simp del]

definition reviseEdges ::
  "('m, 'o) venv \<Rightarrow> (nat \<Rightarrow> 'm vworld \<Rightarrow> 'm vworld) \<Rightarrow> ID \<Rightarrow> (Session \<Rightarrow> Session option) \<Rightarrow> ('m, unit) vop" where
  "reviseEdges E others i change = revise_loop E others i change (headRevisions - 1)"

definition link_memory :: "ID \<Rightarrow> Session \<Rightarrow> Session option" where
  "link_memory memoryID session =
     (if memoryID \<in> set (lnk_Memories (ses_Links session)) then None
      else Some (session\<lparr>ses_Links := (ses_Links session)\<lparr>lnk_Memories := lnk_Memories (ses_Links session) @ [memoryID]\<rparr>\<rparr>))"

definition LinkMemory :: "('m, 'o) venv \<Rightarrow> (nat \<Rightarrow> 'm vworld \<Rightarrow> 'm vworld) \<Rightarrow> ID \<Rightarrow> ID \<Rightarrow> ('m, unit) vop" where
  "LinkMemory E others sessionID memoryID = no_session sessionID (reviseEdges E others sessionID (link_memory memoryID))"

definition adopt_child :: "ID \<Rightarrow> Session \<Rightarrow> Session option" where
  "adopt_child child session =
     (if child \<in> set (lin_Children (ses_Lineage session)) then None
      else Some (session\<lparr>ses_Lineage := (ses_Lineage session)\<lparr>lin_Children := lin_Children (ses_Lineage session) @ [child]\<rparr>\<rparr>))"

definition adoptChild :: "('m, 'o) venv \<Rightarrow> (nat \<Rightarrow> 'm vworld \<Rightarrow> 'm vworld) \<Rightarrow> ID \<Rightarrow> ID \<Rightarrow> ('m, unit) vop" where
  "adoptChild E others parent child = no_session parent (reviseEdges E others parent (adopt_child child))"

definition disown_child :: "ID \<Rightarrow> Session \<Rightarrow> Session option" where
  "disown_child child session =
     (let kept = filter (\<lambda>existing. existing \<noteq> child) (lin_Children (ses_Lineage session)) in
      if length kept = length (lin_Children (ses_Lineage session)) then None
      else Some (session\<lparr>ses_Lineage := (ses_Lineage session)\<lparr>lin_Children := kept\<rparr>\<rparr>))"

definition disownChild :: "('m, 'o) venv \<Rightarrow> (nat \<Rightarrow> 'm vworld \<Rightarrow> 'm vworld) \<Rightarrow> ID \<Rightarrow> ID \<Rightarrow> ('m, unit) vop" where
  "disownChild E others parent child =
     catch_io (reviseEdges E others parent (disown_child child)) (\<lambda>e.
       case e of
         VeLocal le \<Rightarrow> if le = ErrNotFound then ret_io () else fail_io e
       | VeNoSession _ \<Rightarrow> ret_io ()
       | _ \<Rightarrow> fail_io e)"

section \<open>Writing the queue\<close>

text \<open>
  The catalog entry of a flushed record. A record whose metadata cannot be read is catalogued
  without it. Of two objects with one content address the later is the one the map holds.
\<close>

fun written_by :: "string \<Rightarrow> Written list \<Rightarrow> Written option" where
  "written_by cid [] = None"
| "written_by cid (w # ws) =
     (case written_by cid ws of Some v \<Rightarrow> Some v | None \<Rightarrow> if wr_CID w = cid then Some w else None)"

definition flush_entry :: "Queued \<Rightarrow> CID \<Rightarrow> Written \<Rightarrow> Time \<Rightarrow> (local_error, RankingMeta) result \<Rightarrow> Entry" where
  "flush_entry queued cid written now meta =
     \<lparr>me_ID = qd_ID queued, me_Kind = qd_Kind queued,
      me_Type = (case meta of Inr m \<Rightarrow> rm_Type m | Inl _ \<Rightarrow> ''''), me_Version = 1, me_CID = cid,
      me_ObjectRef = wr_ObjectRef written, me_SlabID = wr_SlabID written, me_Bytes = wr_Bytes written,
      me_Tags = (case meta of Inr m \<Rightarrow> rm_Tags m | Inl _ \<Rightarrow> []), me_WrittenAt = now, me_Deleted = False\<rparr>"

fun catalogue_each :: "('m, 'o) venv \<Rightarrow> Written list \<Rightarrow> Queued list \<Rightarrow> ('m, unit) vop" where
  "catalogue_each E written [] = ret_io ()"
| "catalogue_each E written (queued # records) =
     (case written_by (bl_CID (qd_Blob queued)) written of
        None \<Rightarrow> fail_io (VeNoObject (qd_ID queued))
      | Some w \<Rightarrow>
          bind_io (seal_io (ParseCID (bl_CID (qd_Blob queued)))) (\<lambda>cid.
          bind_io (on_local record_Now) (\<lambda>now.
          bind_io (outcome (RankingMetaFor (qd_ID queued))) (\<lambda>meta.
          bind_io (on_man (Manifest_Append (ve_codec E) (flush_entry queued cid w now meta))) (\<lambda>_.
          catalogue_each E written records)))))"

definition recordFlush :: "('m, 'o) venv \<Rightarrow> PkResult \<Rightarrow> ('m, unit) vop" where
  "recordFlush E result = catalogue_each E (fu_Written (ps_Flush result)) (ps_Records result)"

text \<open>The queue as the vault opens it (\<open>openPacker\<close>): its store writes through the ledger.\<close>

definition Vault_store :: "('m, 'o) venv \<Rightarrow> 'm vrest Store option" where
  "Vault_store E = map_option (\<lambda>c. Store_New (over_sdk c) recordSlabs) (ve_client E)"

definition Vault_packer :: "('m, 'o) venv \<Rightarrow> 'm vrest Packer" where
  "Vault_packer E =
     Packer_OnFlush (\<lambda>result. wrap_io (\<lambda>_. ''catalog'') (recordFlush E result))
       \<lparr>pk_store = Vault_store E, pk_policy = ve_policy E, pk_owner = ve_owner E, pk_onFlush = None\<rparr>"

definition queue_record :: "('m, 'o) venv \<Rightarrow> ID \<Rightarrow> Kind \<Rightarrow> string \<Rightarrow> bytes \<Rightarrow> ('m, PkResult) vop" where
  "queue_record E i kind cid sealed_frame =
     wrap_io VePack (Packer_Add (Vault_packer E)
       \<lparr>qd_ID = i, qd_Kind = kind, qd_Blob = \<lparr>bl_CID = cid, bl_Payload = sealed_frame\<rparr>, qd_Since = 0\<rparr>)"

section \<open>The first write\<close>

text \<open>
  \<open>Client.WaitReady\<close> (\<open>sia/account.go\<close>): the account is asked once a second until it is ready or the
  budget is spent. The context is never cancelled.
\<close>

partial_function (option) wait_ready ::
  "('m, 'o) sdk \<Rightarrow> int \<Rightarrow> 'm vworld \<Rightarrow> ((verr, Account) result \<times> 'm vworld) option" where
  "wait_ready c deadline s =
     (case on_net (Client_Account c) s of (r, s1) \<Rightarrow>
        (case r of
           Inl e \<Rightarrow> Some (Inl e, s1)
         | Inr account \<Rightarrow>
             if ac_Ready account then Some (Inr account, s1)
             else if deadline < dv_clock s1 (mc_step s1) then Some (Inl VeNotReady, s1\<lparr>mc_step := mc_step s1 + 1\<rparr>)
             else wait_ready c deadline (s1\<lparr>mc_step := mc_step s1 + 1\<rparr>)))"

definition Client_WaitReady :: "('m, 'o) sdk \<Rightarrow> int \<Rightarrow> ('m, Account) vpop" where
  "Client_WaitReady c budget =
     bind_pio (run_pio (on_local time_Now)) (\<lambda>now. wait_ready c (now + budget))"

definition set_ready :: "('m, unit) vop" where
  "set_ready = put_io (\<lambda>s. s\<lparr>wl_net := (wl_net s)\<lparr>vs_ready := True\<rparr>\<rparr>)"

definition Vault_WaitReady :: "('m, 'o) venv \<Rightarrow> int \<Rightarrow> ('m, Account) vpop" where
  "Vault_WaitReady E budget =
     (case ve_client E of
        None \<Rightarrow> fail_pio VeOffline
      | Some c \<Rightarrow> bind_pio (Client_WaitReady c budget) (\<lambda>account. bind_pio (run_pio set_ready) (\<lambda>_. ret_pio account)))"

definition FirstWriteBudget :: int where "FirstWriteBudget = 90 * Second"

definition awaitFirstWrite :: "('m, 'o) venv \<Rightarrow> ('m, unit) vpop" where
  "awaitFirstWrite E s =
     (case ve_client E of
        None \<Rightarrow> ret_pio () s
      | Some c \<Rightarrow>
          if vs_ready (wl_net s) then ret_pio () s
          else bind_pio (run_pio (on_net (Client_Account c))) (\<lambda>account.
            if ac_Ready account then run_pio set_ready
            else bind_pio (Vault_WaitReady E FirstWriteBudget) (\<lambda>_. ret_pio ())) s)"

definition Vault_Flush :: "('m, 'o) venv \<Rightarrow> ('m, Flush option) vpop" where
  "Vault_Flush E =
     bind_pio (awaitFirstWrite E) (\<lambda>_.
     bind_pio (run_pio (wrap_io VePack (Packer_Flush (Vault_packer E)))) (\<lambda>result.
     ret_pio (if Result_Empty result then None else Some (ps_Flush result))))"

text \<open>\<open>relocate\<close> (\<open>vault/reclaim.go\<close>): where the catalog points after a repack.\<close>

definition manifest_Lookup :: "ID \<Rightarrow> ('m, Entry) vop" where
  "manifest_Lookup i =
     bind_io (get_io (\<lambda>s. Manifest_Lookup (st_man (vs_man (wl_net s))) i)) (\<lambda>found.
     case found of Inl e \<Rightarrow> fail_io (VeMan e) | Inr entry \<Rightarrow> ret_io entry)"

fun relocate :: "('m, 'o) venv \<Rightarrow> Moved list \<Rightarrow> ('m, unit) vop" where
  "relocate E [] = ret_io ()"
| "relocate E (move # moved) =
     bind_io (manifest_Lookup (mv_ID move)) (\<lambda>entry.
     bind_io (on_local record_Now) (\<lambda>now.
     bind_io (on_man (Manifest_Append (ve_codec E)
       (entry\<lparr>me_ObjectRef := mv_To move, me_SlabID := mv_SlabID move, me_Bytes := mv_Bytes move, me_WrittenAt := now\<rparr>))) (\<lambda>_.
     bind_io (on_local (ForgetLocation (mv_From move))) (\<lambda>_. relocate E moved))))"

section \<open>Forgetting a record\<close>

definition manifest_Remove :: "('m, 'o) venv \<Rightarrow> ID \<Rightarrow> ('m, unit) vop" where
  "manifest_Remove E i =
     bind_io (on_local record_Now) (\<lambda>now. on_man (Manifest_Remove (ve_codec E) now i))"

definition not_catalogued :: "verr \<Rightarrow> bool" where
  "not_catalogued e \<longleftrightarrow> (case e of VeMan (EntryNotFound _) \<Rightarrow> True | _ \<Rightarrow> False)"

definition Vault_Forget :: "('m, 'o) venv \<Rightarrow> ID \<Rightarrow> ('m, unit) vop" where
  "Vault_Forget E i =
     bind_io (catch_io (on_local (Packer_Withdraw (Vault_packer E) i))
       (\<lambda>e. if e = VeLocal ErrClaimed then fail_io (VeClaimed i) else fail_io e)) (\<lambda>withdrawn.
     bind_io (catch_io (manifest_Remove E i)
       (\<lambda>e. if withdrawn \<and> not_catalogued e then ret_io () else fail_io e)) (\<lambda>_.
     bind_io (on_local (ForgetBody i)) (\<lambda>_.
     bind_io (removeVector E i) (\<lambda>_.
     on_local (ForgetRankingMeta i)))))"

end
