(* ===== verification/Vault_Fetch.thy ===== *)
theory Vault_Fetch
  imports Vault_Core
begin

text \<open>
  Reading a record (\<open>vault/fetch.go\<close>): from the device, from the network by a cached location, or by
  asking the indexer, cheapest first. The clock is read once for the age of the host set and once
  for when it was refreshed.
\<close>

definition outcome_pio :: "('s, 'e, 'a) pio \<Rightarrow> ('s, 'f, ('e, 'a) result) pio" where
  "outcome_pio m s = map_option (\<lambda>(r, s'). (Inr r, s')) (m s)"

definition TierLocal :: Tier where "TierLocal = ''local''"
definition TierCached :: Tier where "TierCached = ''cached''"
definition TierNetwork :: Tier where "TierNetwork = ''network''"

definition countRead :: "Tier \<Rightarrow> int \<Rightarrow> ('m, unit) vop" where
  "countRead tier start =
     bind_io (on_local (time_Since start)) (\<lambda>took.
     bind_io (outcome (RecordRead tier took)) (\<lambda>_. ret_io ()))"

definition countMiss :: "Tier \<Rightarrow> ('m, unit) vop" where
  "countMiss tier = bind_io (outcome (RecordMiss tier)) (\<lambda>_. ret_io ())"

section \<open>Locations\<close>

fun put_shared :: "SlabLocation list \<Rightarrow> ('m, unit) vop" where
  "put_shared [] = ret_io ()"
| "put_shared (slab # shared) =
     bind_io (on_local (PutSlabMeta (slo_ID slab) (slo_Bytes slab))) (\<lambda>_. put_shared shared)"

definition cacheLocation :: "Location \<Rightarrow> SlabLocation list \<Rightarrow> ('m, unit) vop" where
  "cacheLocation location shared =
     bind_io (put_shared shared) (\<lambda>_.
     on_local (PutLocation (loc_Ref location) (loc_Slabs location) (loc_Bytes location)))"

fun forget_shared :: "string list \<Rightarrow> ('m, unit) vop" where
  "forget_shared [] = ret_io ()"
| "forget_shared (slabID # slabIDs) = bind_io (on_local (ForgetSlabMeta slabID)) (\<lambda>_. forget_shared slabIDs)"

definition forgetLocation :: "CachedLocation \<Rightarrow> ('m, unit) vop" where
  "forgetLocation cached =
     bind_io (on_local (ForgetLocation (cl_ObjectRef cached))) (\<lambda>_. forget_shared (cl_SlabIDs cached))"

text \<open>The slabs' halves of a cached location, or \<open>None\<close> when one is missing or has expired.\<close>

fun shared_of :: "int \<Rightarrow> string list \<Rightarrow> (string \<rightharpoonup> bytes) \<Rightarrow> ('m, (string \<rightharpoonup> bytes) option) vop" where
  "shared_of ttl [] shared = ret_io (Some shared)"
| "shared_of ttl (slabID # slabIDs) shared =
     bind_io (outcome (GetSlabMeta slabID)) (\<lambda>got.
     case got of
       Inl e \<Rightarrow> if e = ErrNotFound then ret_io None else fail_io (VeLocal e)
     | Inr slab \<Rightarrow>
         bind_io (on_local (CachedSlab_Age slab)) (\<lambda>age.
         if ttl \<le> age then ret_io None else shared_of ttl slabIDs (shared(slabID \<mapsto> cs_Meta slab))))"

definition download_at ::
  "('m, 'o) venv \<Rightarrow> Location \<Rightarrow> (string \<rightharpoonup> bytes) \<Rightarrow> ('m vworld, location_error, bytes) pio" where
  "download_at E location shared s =
     (let now = dv_clock s (mc_step s); fetched = dv_clock s (mc_step s + 1) in
      map_option (\<lambda>(r, hosts, net). (r, s\<lparr>mc_step := mc_step s + 2,
          wl_net := (wl_net s)\<lparr>vs_hosts := hosts, vs_net := net\<rparr>\<rparr>))
        (DownloadAt (ve_idtext E) (ve_hosts E) (ve_openSealed E) (ve_readBody E) now fetched location shared
          (vs_hosts (wl_net s)) (vs_net (wl_net s))))"

definition drop_or_keep :: "CachedLocation \<Rightarrow> (location_error, bytes) result \<Rightarrow> ('m, bytes option) vop" where
  "drop_or_keep cached r =
     (case r of
        Inr payload \<Rightarrow> ret_io (Some payload)
      | Inl e \<Rightarrow> if e = Panic then fail_io (VeLocation Panic) else bind_io (forgetLocation cached) (\<lambda>_. ret_io None))"

definition fetchCached :: "('m, 'o) venv \<Rightarrow> Entry \<Rightarrow> string \<Rightarrow> ('m, bytes option) vpop" where
  "fetchCached E entry ref =
     bind_pio (run_pio (outcome (GetLocation (me_ObjectRef entry)))) (\<lambda>got.
     case got of
       Inl e \<Rightarrow> if e = ErrNotFound then ret_pio None else fail_pio (VeLocal e)
     | Inr cached \<Rightarrow>
         bind_pio (run_pio (on_local (CachedLocation_Age cached))) (\<lambda>age.
         if ve_SlabMetaTTL E \<le> age then ret_pio None
         else bind_pio (run_pio (shared_of (ve_SlabMetaTTL E) (cl_SlabIDs cached) Map.empty)) (\<lambda>found.
           case found of
             None \<Rightarrow> ret_pio None
           | Some shared \<Rightarrow>
               (\<lambda>s. case download_at E \<lparr>loc_Ref = ref, loc_Slabs = cl_SlabIDs cached, loc_Bytes = cl_Meta cached\<rparr> shared s of
                  None \<Rightarrow> None
                | Some (r, s') \<Rightarrow> Some (drop_or_keep cached r s')))))"

section \<open>The network\<close>

definition LocationFor :: "('m, 'o) venv \<Rightarrow> string \<Rightarrow> ('m, Location \<times> SlabLocation list) vop" where
  "LocationFor E ref =
     bind_io (on_net (ve_Sealed E ref)) (\<lambda>sealed. ret_io (splitLocation (ve_digest E) (ve_idtext E) ref sealed))"

definition fetchRemote :: "('m, 'o) venv \<Rightarrow> ('m, 'o) sdk \<Rightarrow> Entry \<Rightarrow> string \<Rightarrow> ('m, bytes \<times> Tier) vpop" where
  "fetchRemote E c entry ref =
     bind_pio (fetchCached E entry ref) (\<lambda>cached.
     case cached of
       Some payload \<Rightarrow> ret_pio (payload, TierCached)
     | None \<Rightarrow> run_pio (
         bind_io (countMiss TierCached) (\<lambda>_.
         bind_io (LocationFor E ref) (\<lambda>(location, shared).
         bind_io (on_net (Client_Download c ref)) (\<lambda>payload.
         bind_io (cacheLocation location shared) (\<lambda>_.
         ret_io (payload, TierNetwork)))))))"

definition openBody :: "('m, 'o) venv \<Rightarrow> ID \<Rightarrow> bytes \<Rightarrow> (verr, bytes) result" where
  "openBody E i payload =
     (case Unframe payload of
        Inl e \<Rightarrow> Inl (VeSeal e)
      | Inr (frame, rest) \<Rightarrow>
          if frm_ID frame \<noteq> i then Inl (VeIdentity i (frm_ID frame))
          else case Open (ve_crypto E) (ve_sealer E) (frm_Sealed frame) of
            Inl e \<Rightarrow> Inl (VeSeal e)
          | Inr body \<Rightarrow> Inr body)"

definition parse_ref :: "Entry \<Rightarrow> ('m, string) vop" where
  "parse_ref entry = (case ParseObjectRef (me_ObjectRef entry) of Inl e \<Rightarrow> fail_io (VeRef e) | Inr ref \<Rightarrow> ret_io ref)"

definition fetchBody :: "('m, 'o) venv \<Rightarrow> ID \<Rightarrow> ('m, Kind \<times> bytes \<times> Tier) vpop" where
  "fetchBody E i =
     bind_pio (run_pio (on_local time_Now)) (\<lambda>start.
     bind_pio (run_pio (outcome (GetRecord i))) (\<lambda>got.
     case got of
       Inr (kind, body) \<Rightarrow> run_pio (bind_io (countRead TierLocal start) (\<lambda>_. ret_io (kind, body, TierLocal)))
     | Inl e \<Rightarrow>
         if e \<noteq> ErrNotFound then fail_pio (VeLocal e)
         else bind_pio (run_pio (countMiss TierLocal)) (\<lambda>_.
         bind_pio (run_pio (manifest_Lookup i)) (\<lambda>entry.
         case ve_client E of
           None \<Rightarrow> fail_pio VeOffline
         | Some c \<Rightarrow>
             bind_pio (run_pio (parse_ref entry)) (\<lambda>ref.
             bind_pio (fetchRemote E c entry ref) (\<lambda>(payload, tier). run_pio (
             bind_io (lift_io (openBody E i payload)) (\<lambda>body.
             bind_io (on_local (PutBody i (me_Kind entry) body)) (\<lambda>_.
             bind_io (countRead tier start) (\<lambda>_.
             ret_io (me_Kind entry, body, tier)))))))))))"

section \<open>Records and memories\<close>

definition Vault_Fetch :: "('m, 'o) venv \<Rightarrow> ID \<Rightarrow> ('m, Found \<times> Tier) vpop" where
  "Vault_Fetch E i =
     bind_pio (run_pio (outcome (Vault_session E i))) (\<lambda>got.
     case got of
       Inr session \<Rightarrow> ret_pio (\<lparr>fd_Memory = None, fd_Session = Some session\<rparr>, TierLocal)
     | Inl e \<Rightarrow>
         if e \<noteq> VeLocal ErrNotFound then fail_pio e
         else bind_pio (fetchBody E i) (\<lambda>(kind, body, tier).
           if kind = KindMemory
           then run_pio (bind_io (json_io (ve_memoryJSON E body)) (\<lambda>memory.
             ret_io (\<lparr>fd_Memory = Some memory, fd_Session = None\<rparr>, tier)))
           else fail_pio (VeNotRecallable i kind)))"

definition FetchMemory :: "('m, 'o) venv \<Rightarrow> ID \<Rightarrow> ('m, Memory \<times> Tier) vpop" where
  "FetchMemory E i =
     bind_pio (Vault_Fetch E i) (\<lambda>(found, tier).
     case fd_Memory found of None \<Rightarrow> fail_pio (VeNotMemory i) | Some memory \<Rightarrow> ret_pio (memory, tier))"

definition StoredBytes :: "('m, 'o) venv \<Rightarrow> ID \<Rightarrow> ('m, bytes) vop" where
  "StoredBytes E i =
     (case ve_client E of
        None \<Rightarrow> fail_io VeOffline
      | Some c \<Rightarrow>
          bind_io (manifest_Lookup i) (\<lambda>entry.
          bind_io (parse_ref entry) (\<lambda>ref.
          on_net (Client_Download c ref))))"

definition BodyFromNetwork :: "('m, 'o) venv \<Rightarrow> ID \<Rightarrow> ('m, bytes) vop" where
  "BodyFromNetwork E i = bind_io (StoredBytes E i) (\<lambda>payload. lift_io (openBody E i payload))"

definition openPayload :: "('m, 'o) venv \<Rightarrow> ID \<Rightarrow> bytes \<Rightarrow> ('m, Memory) vop" where
  "openPayload E i payload = bind_io (lift_io (openBody E i payload)) (\<lambda>body. json_io (ve_memoryJSON E body))"

definition FetchMemoryFromNetwork :: "('m, 'o) venv \<Rightarrow> ID \<Rightarrow> ('m, Memory) vop" where
  "FetchMemoryFromNetwork E i = bind_io (StoredBytes E i) (\<lambda>payload. openPayload E i payload)"

text \<open>One chunk of a transcript (\<open>vault/session.go\<close>).\<close>

definition Vault_chunk :: "('m, 'o) venv \<Rightarrow> ID \<Rightarrow> ('m, Chunk) vpop" where
  "Vault_chunk E i =
     bind_pio (fetchBody E i) (\<lambda>(kind, body, tier). run_pio (
       if kind \<noteq> KindChunk then fail_io (VeNotChunk i kind)
       else bind_io (json_io (ve_chunkJSON E body)) (\<lambda>chunk.
         bind_io (count_read (\<lambda>c. c\<lparr>sc_ChunkReads := sc_ChunkReads c + 1, sc_ChunkBytes := sc_ChunkBytes c + int (length body)\<rparr>)) (\<lambda>_.
         ret_io chunk))))"

end
