(* ===== verification/Vault_Load.thy ===== *)
theory Vault_Load
  imports Vault_Fetch
begin

text \<open>
  Loading a stored conversation (\<open>vault/session_load.go\<close>): the page of the transcript a request asks
  for, the runs the conversation delegated, and the turns a memory came from.
\<close>

record LoadSessionRequest =
  lq_ID :: ID
  lq_Transcript :: bool
  lq_From :: string
  lq_Limit :: int
  lq_IncludeSubagents :: bool

record Subagent =
  sa_ID :: ID
  sa_Title :: string
  sa_Kind :: SessionKind
  sa_Messages :: int
  sa_Session :: "Session option"
  sa_Transcript :: "Message list"

definition Subagent_Inlined :: "Subagent \<Rightarrow> bool" where
  "Subagent_Inlined s \<longleftrightarrow> sa_Session s \<noteq> None"

record LoadedSession =
  ls_Session :: Session
  ls_Messages :: "Message list"
  ls_More :: bool
  ls_NextFrom :: string
  ls_Subagents :: "Subagent list"
  ls_ChunksRead :: int

section \<open>The transcript\<close>

fun start_loop :: "string \<Rightarrow> nat \<Rightarrow> ChunkRef list \<Rightarrow> nat option" where
  "start_loop from_id i [] = None"
| "start_loop from_id i (ref # refs) =
     (if ref_First ref = from_id \<or> ref_Last ref = from_id then Some i else start_loop from_id (i + 1) refs)"

definition startChunk :: "Session \<Rightarrow> string \<Rightarrow> nat" where
  "startChunk session from_id =
     (if from_id = '''' then 0
      else case start_loop from_id 0 (ses_Chunks session) of Some i \<Rightarrow> i | None \<Rightarrow> 0)"

definition full :: "int \<Rightarrow> Message list \<Rightarrow> bool" where
  "full limit out \<longleftrightarrow> limit > 0 \<and> int (length out) \<ge> limit"

text \<open>The messages of one chunk: what the page holds after it, and where it stopped if it was full.\<close>

fun page_chunk :: "string \<Rightarrow> int \<Rightarrow> Message list \<Rightarrow> bool \<Rightarrow> Message list \<Rightarrow> Message list \<times> bool \<times> string option" where
  "page_chunk from_id limit [] started out = (out, started, None)"
| "page_chunk from_id limit (m # ms) started out =
     (if \<not> started \<and> msg_ID m \<noteq> from_id then page_chunk from_id limit ms started out
      else if full limit out then (out, True, Some (msg_ID m))
      else page_chunk from_id limit ms True (out @ [m]))"

fun transcript_loop ::
  "('m, 'o) venv \<Rightarrow> ID \<Rightarrow> string \<Rightarrow> int \<Rightarrow> ChunkRef list \<Rightarrow> bool \<Rightarrow> Message list \<Rightarrow>
   ('m, Message list \<times> bool \<times> string) vpop" where
  "transcript_loop E i from_id limit [] started out =
     (if \<not> started then fail_pio (VeNoMessage i from_id) else ret_pio (out, False, ''''))"
| "transcript_loop E i from_id limit (ref # refs) started out =
     (if full limit out then ret_pio (out, True, ref_First ref)
      else bind_pio (Vault_chunk E (ref_ID ref)) (\<lambda>chunk.
        case page_chunk from_id limit (chk_Messages chunk) started out of
          (out', started', Some next_id) \<Rightarrow> ret_pio (out', True, next_id)
        | (out', started', None) \<Rightarrow> transcript_loop E i from_id limit refs started' out'))"

definition Vault_transcript ::
  "('m, 'o) venv \<Rightarrow> Session \<Rightarrow> string \<Rightarrow> int \<Rightarrow> ('m, Message list \<times> bool \<times> string) vpop" where
  "Vault_transcript E session from_id limit =
     transcript_loop E (ses_ID session) from_id limit (drop (startChunk session from_id) (ses_Chunks session))
       (from_id = '''') []"

section \<open>Sub-agents\<close>

definition Vault_subagent :: "('m, 'o) venv \<Rightarrow> LoadSessionRequest \<Rightarrow> ID \<Rightarrow> ('m, Subagent) vpop" where
  "Vault_subagent E req i =
     bind_pio (run_pio (Vault_Session E i)) (\<lambda>child.
     let subagent = \<lparr>sa_ID = ses_ID child, sa_Title = ses_Title child, sa_Kind = ses_Kind child,
           sa_Messages = cnt_Messages (ses_Counts child), sa_Session = None, sa_Transcript = []\<rparr> in
     if \<not> lq_IncludeSubagents req then ret_pio subagent
     else if \<not> lq_Transcript req then ret_pio (subagent\<lparr>sa_Session := Some child\<rparr>)
     else bind_pio (Vault_transcript E child '''' 0) (\<lambda>(messages, more, nxt).
       ret_pio (subagent\<lparr>sa_Session := Some child, sa_Transcript := messages\<rparr>)))"

fun subagents_each :: "('m, 'o) venv \<Rightarrow> LoadSessionRequest \<Rightarrow> ID list \<Rightarrow> ('m, Subagent list) vpop" where
  "subagents_each E req [] = ret_pio []"
| "subagents_each E req (child # children) =
     bind_pio (Vault_subagent E req child) (\<lambda>subagent.
     bind_pio (subagents_each E req children) (\<lambda>rest. ret_pio (subagent # rest)))"

definition chunk_reads :: "'m vworld \<Rightarrow> int" where
  "chunk_reads s = sc_ChunkReads (vs_reads (wl_net s))"

definition LoadSession :: "('m, 'o) venv \<Rightarrow> LoadSessionRequest \<Rightarrow> ('m, LoadedSession) vpop" where
  "LoadSession E req =
     bind_pio (run_pio (Vault_Session E (lq_ID req))) (\<lambda>session.
     bind_pio (run_pio (get_io chunk_reads)) (\<lambda>before.
     bind_pio (if lq_Transcript req then Vault_transcript E session (lq_From req) (lq_Limit req)
               else ret_pio ([], False, '''')) (\<lambda>(messages, more, nxt).
     bind_pio (run_pio (get_io chunk_reads)) (\<lambda>after.
     bind_pio (subagents_each E req (lin_Children (ses_Lineage session))) (\<lambda>subagents.
     ret_pio \<lparr>ls_Session = session, ls_Messages = messages, ls_More = more, ls_NextFrom = nxt,
       ls_Subagents = subagents, ls_ChunksRead = after - before\<rparr>)))))"

section \<open>Where a memory came from\<close>

record SourceSpan =
  ss_Session :: Session
  ss_Messages :: "Message list"
  ss_Span :: Span

definition ResolveSource :: "('m, 'o) venv \<Rightarrow> Memory \<Rightarrow> ('m, SourceSpan) vpop" where
  "ResolveSource E memory =
     (if src_SessionID (mem_Source memory) = '''' then fail_pio (VeNoSource (mem_ID memory))
      else case ParseID (src_SessionID (mem_Source memory)) of
        Inl e \<Rightarrow> fail_pio (VeID e)
      | Inr i \<Rightarrow>
          bind_pio (run_pio (Vault_Session E i)) (\<lambda>session.
          let span = ParseSpan (src_Span (mem_Source memory));
              out = \<lparr>ss_Session = session, ss_Messages = [], ss_Span = span\<rparr> in
          if Span_Empty span then ret_pio out
          else bind_pio (Vault_transcript E session '''' 0) (\<lambda>(messages, more, nxt).
            let turns = Span_Select span messages in
            if turns = [] then fail_pio (VeNoTurns (mem_ID memory)) else ret_pio (out\<lparr>ss_Messages := turns\<rparr>))))"

end
