(* ===== verification/Vault_Rebuild.thy ===== *)
theory Vault_Rebuild
  imports Vault_Load
begin

text \<open>
  Reconstructing session heads from transcript chunks alone (\<open>vault/rebuild.go\<close>), with an account of
  where each field of a rebuilt head came from. A map of origins is partial; the groups of chunks
  keep the order their sessions were first seen in.
\<close>

section \<open>Titles\<close>

text \<open>\<open>strings.Fields\<close>: the text between runs of white space, rune by rune.\<close>

function strings_Fields :: "string \<Rightarrow> string \<Rightarrow> string list" where
  "strings_Fields cur s =
     (if s = [] then (if cur = [] then [] else [cur])
      else if space_rune (codes s) > 0 then
        (if cur = [] then strings_Fields [] (drop (space_rune (codes s)) s)
         else cur # strings_Fields [] (drop (space_rune (codes s)) s))
      else strings_Fields (cur @ take (rune_width s) s) (drop (rune_width s) s))"
  by pat_completeness auto
termination by (relation "measure (\<lambda>(cur, s). length s)") (auto simp: rune_width_pos)

declare strings_Fields.simps [simp del]

text \<open>
  The runes of a text. A byte that begins no rune decodes to the replacement character, which is
  what writing the runes back as a text gives it.
\<close>

function text_runes :: "string \<Rightarrow> string list" where
  "text_runes s =
     (if s = [] then []
      else (case take (rune_width s) s of
              [c] \<Rightarrow> if of_char c < (128 :: nat) then [c] else [CHR 0xEF, CHR 0xBF, CHR 0xBD]
            | r \<Rightarrow> r) # text_runes (drop (rune_width s) s))"
  by pat_completeness auto
termination by (relation "measure length") (auto simp: rune_width_pos)

declare text_runes.simps [simp del]

definition TitleFromTranscript :: nat where "TitleFromTranscript = 72"

definition ellipsis :: string where "ellipsis = [CHR 0xE2, CHR 0x80, CHR 0xA6]"

definition truncateTitle :: "string \<Rightarrow> string" where
  "truncateTitle txt0 =
     (let txt = Join '' '' (strings_Fields [] txt0); runes = text_runes txt in
      if length runes \<le> TitleFromTranscript then txt
      else TrimSpace (concat (take TitleFromTranscript runes)) @ ellipsis)"

function firstText :: "Part list \<Rightarrow> string" where
  "firstText [] = ''''"
| "firstText (p # ps) =
     (if part_Type p = ''text'' \<and> TrimSpace (part_Text p) \<noteq> '''' then TrimSpace (part_Text p)
      else let nested = firstText (part_Content p) in if nested \<noteq> '''' then nested else firstText ps)"
  by pat_completeness auto
termination
proof (relation "measure (size_list size)")
  fix p :: Part and ps :: "Part list"
  show "(part_Content p, p # ps) \<in> measure (size_list size)" by (cases p) simp
qed simp_all

fun first_said :: "Message list \<Rightarrow> string" where
  "first_said [] = ''''"
| "first_said (m # ms) =
     (if msg_Role m = ''user'' \<and> firstText (msg_Parts m) \<noteq> '''' then firstText (msg_Parts m) else first_said ms)"

definition synthesiseTitle :: "Chunk list \<Rightarrow> ID \<Rightarrow> string" where
  "synthesiseTitle chunks i =
     (let txt = first_said (concat (map chk_Messages chunks)) in
      if txt \<noteq> '''' then truncateTitle txt else ''Recovered session '' @ take 8 (ID_String i))"

section \<open>Origins\<close>

datatype FieldOrigin = OriginChunk | OriginDerived | OriginObserved | OriginReverse | OriginSynthesised | OriginLost

type_synonym origins = "string \<rightharpoonup> FieldOrigin"

fun originRank :: "FieldOrigin \<Rightarrow> nat" where
  "originRank OriginChunk = 0"
| "originRank OriginDerived = 1"
| "originRank OriginObserved = 2"
| "originRank OriginReverse = 3"
| "originRank OriginSynthesised = 4"
| "originRank OriginLost = 5"

definition HeadFields :: "string list" where
  "HeadFields =
     [''id'', ''schema'', ''schemaVersion'', ''version'', ''title'', ''summary'', ''tags'', ''project'',
      ''created'', ''updated'', ''archived'', ''agent'', ''agentRef'', ''models'', ''counts.messages'',
      ''counts.chunks'', ''counts.bytes'', ''counts.tokens'', ''counts.durationMs'', ''kind'', ''lineage'',
      ''headMessage'', ''preservedTail'', ''chunks'', ''links.memories'', ''embedding'']"

definition mergeOrigins :: "origins \<Rightarrow> origins \<Rightarrow> origins" where
  "mergeOrigins into_map from_map field =
     (case from_map field of
        None \<Rightarrow> into_map field
      | Some origin \<Rightarrow>
          (case into_map field of
             None \<Rightarrow> Some origin
           | Some existing \<Rightarrow> if originRank origin > originRank existing then Some origin else Some existing))"

section \<open>What the messages say\<close>

record transcriptFacts =
  tf_messages :: int
  tf_bytes :: int
  tf_tokensIn :: int
  tf_tokensOut :: int
  tf_first :: Time
  tf_last :: Time
  tf_models :: "string list"
  tf_memoryRefs :: "ID list"
  tf_headMessage :: string

definition no_facts :: transcriptFacts where
  "no_facts = \<lparr>tf_messages = 0, tf_bytes = 0, tf_tokensIn = 0, tf_tokensOut = 0, tf_first = 0, tf_last = 0,
     tf_models = [], tf_memoryRefs = [], tf_headMessage = ''''\<rparr>"

definition append_model :: "string list \<Rightarrow> string \<Rightarrow> string list" where
  "append_model models model = (if model = '''' \<or> model \<in> set models then models else models @ [model])"

definition observe_message :: "Message \<Rightarrow> transcriptFacts \<Rightarrow> transcriptFacts" where
  "observe_message m f =
     (let usage = meta_Usage (msg_Meta m) in
      f\<lparr>tf_messages := tf_messages f + 1,
        tf_tokensIn := tf_tokensIn f + use_InputTokens usage + use_CacheReadTokens usage,
        tf_tokensOut := tf_tokensOut f + use_OutputTokens usage,
        tf_first := (if time_IsZero (tf_first f) then msg_Created m else tf_first f),
        tf_last := (if time_IsZero (msg_Created m) then tf_last f else msg_Created m),
        tf_models := append_model (tf_models f) (meta_Model (msg_Meta m)),
        tf_memoryRefs := tf_memoryRefs f @ meta_MemoryRefs (msg_Meta m),
        tf_headMessage := msg_ID m\<rparr>)"

definition observe_chunk :: "('m, 'o) venv \<Rightarrow> Chunk \<Rightarrow> transcriptFacts \<Rightarrow> transcriptFacts" where
  "observe_chunk E chunk f =
     fold observe_message (chk_Messages chunk)
       (case ve_jsonChunk E chunk of None \<Rightarrow> f | Some body \<Rightarrow> f\<lparr>tf_bytes := tf_bytes f + int (length body)\<rparr>)"

definition observeTranscript :: "('m, 'o) venv \<Rightarrow> Chunk list \<Rightarrow> transcriptFacts" where
  "observeTranscript E chunks = fold (observe_chunk E) chunks no_facts"

definition mergeIDs :: "ID list \<Rightarrow> ID list \<Rightarrow> ID list" where
  "mergeIDs xs ys = firsts (xs @ ys)"

fun hasSequenceGap :: "nat \<Rightarrow> Chunk list \<Rightarrow> bool" where
  "hasSequenceGap i [] = False"
| "hasSequenceGap i (chunk # chunks) = (if chk_Seq chunk \<noteq> int i then True else hasSequenceGap (i + 1) chunks)"

section \<open>The head\<close>

definition chunkRef :: "('m, 'o) venv \<Rightarrow> Chunk \<Rightarrow> nat \<Rightarrow> (verr, ChunkRef) result" where
  "chunkRef E chunk position =
     (case ve_jsonChunk E chunk of
        None \<Rightarrow> Inl VeJSON
      | Some body \<Rightarrow>
          (case Sealer_CID (ve_crypto E) (ve_sealer E) body of
             Inl e \<Rightarrow> Inl (VeSeal e)
           | Inr cid \<Rightarrow>
               Inr \<lparr>ref_ID = chk_ID chunk, ref_Seq = int position,
                 ref_First = (if chk_Messages chunk = [] then '''' else msg_ID (hd (chk_Messages chunk))),
                 ref_Last = (if chk_Messages chunk = [] then '''' else msg_ID (last (chk_Messages chunk))),
                 ref_N = int (length (chk_Messages chunk)), ref_Bytes = int (length body), ref_CID = CID_String cid\<rparr>))"

fun chunk_refs :: "('m, 'o) venv \<Rightarrow> nat \<Rightarrow> Chunk list \<Rightarrow> (verr, ChunkRef list) result" where
  "chunk_refs E position [] = Inr []"
| "chunk_refs E position (chunk # chunks) =
     bind_result (chunkRef E chunk position) (\<lambda>ref.
     bind_result (chunk_refs E (position + 1) chunks) (\<lambda>refs. Inr (ref # refs)))"

record RebuiltHead =
  rh_Session :: Session
  rh_Origins :: origins
  rh_Chunks :: nat
  rh_Messages :: int
  rh_Existing :: bool

definition rebuilt_session :: "ID \<Rightarrow> Chunk list \<Rightarrow> ChunkRef list \<Rightarrow> transcriptFacts \<Rightarrow> ID list \<Rightarrow> Session" where
  "rebuilt_session i chunks refs f links =
     \<lparr>ses_ID = i, ses_Schema = chk_Schema (hd chunks), ses_SchemaVersion = chk_SchemaVersion (hd chunks),
      ses_Version = 1, ses_Title = synthesiseTitle chunks i, ses_Summary = '''', ses_Tags = [],
      ses_Project = \<lparr>prj_CWD = '''', prj_Repo = '''', prj_Branch = ''''\<rparr>,
      ses_Created = (if time_IsZero (tf_first f) then 0 else tf_first f),
      ses_Updated = (if time_IsZero (tf_first f) then 0 else tf_last f),
      ses_Archived = False, ses_Agent = \<lparr>agt_Name = '''', agt_Version = ''''\<rparr>, ses_Models = tf_models f,
      ses_Counts = \<lparr>cnt_Messages = tf_messages f, cnt_Chunks = int (length chunks), cnt_Bytes = tf_bytes f,
        cnt_TokensIn = tf_tokensIn f, cnt_TokensOut = tf_tokensOut f, cnt_DurationMS = 0\<rparr>,
      ses_Kind = SessionMain, ses_AgentRef = None,
      ses_Lineage = \<lparr>lin_ParentSession = None, lin_ForkedFrom = None, lin_ResumedFrom = None, lin_Children = []\<rparr>,
      ses_HeadMessage = tf_headMessage f, ses_PreservedTail = [], ses_Chunks = refs,
      ses_Links = \<lparr>lnk_Memories = links\<rparr>, ses_Embedding = \<lparr>emb_Model = '''', emb_Dim = 0\<rparr>\<rparr>"

definition rebuilt_origins :: "transcriptFacts \<Rightarrow> ID list \<Rightarrow> origins" where
  "rebuilt_origins f links =
     (map_of (map (\<lambda>field. (field, OriginLost)) HeadFields))
       (''id'' \<mapsto> OriginChunk, ''schema'' \<mapsto> OriginChunk, ''schemaVersion'' \<mapsto> OriginChunk,
        ''version'' \<mapsto> OriginSynthesised, ''kind'' \<mapsto> OriginSynthesised, ''chunks'' \<mapsto> OriginDerived,
        ''counts.messages'' \<mapsto> OriginDerived, ''counts.chunks'' \<mapsto> OriginDerived, ''counts.bytes'' \<mapsto> OriginDerived,
        ''counts.tokens'' \<mapsto> (if tf_tokensIn f > 0 \<or> tf_tokensOut f > 0 then OriginObserved else OriginLost),
        ''created'' \<mapsto> (if time_IsZero (tf_first f) then OriginLost else OriginObserved),
        ''updated'' \<mapsto> (if time_IsZero (tf_first f) then OriginLost else OriginObserved),
        ''models'' \<mapsto> (if length (tf_models f) > 0 then OriginObserved else OriginLost),
        ''headMessage'' \<mapsto> (if tf_headMessage f \<noteq> '''' then OriginDerived else OriginLost),
        ''links.memories'' \<mapsto> (if length links > 0 then OriginReverse else OriginLost),
        ''title'' \<mapsto> OriginSynthesised)"

definition rebuild_plan :: "('m, 'o) venv \<Rightarrow> ID \<Rightarrow> Chunk list \<Rightarrow> ID list \<Rightarrow> (verr, RebuiltHead) result" where
  "rebuild_plan E i chunks backlinks =
     (if length chunks = 0 then Inl (VeNoChunks i)
      else
        let observed = observeTranscript E chunks; links = mergeIDs backlinks (tf_memoryRefs observed) in
        bind_result (chunk_refs E 0 chunks) (\<lambda>refs.
        let session = rebuilt_session i chunks refs observed links in
        case Session_Validate session of
          Some e \<Rightarrow> Inl (VeInvalid e)
        | None \<Rightarrow>
            Inr \<lparr>rh_Session = session, rh_Origins = rebuilt_origins observed links, rh_Chunks = length chunks,
                 rh_Messages = tf_messages observed, rh_Existing = False\<rparr>))"

text \<open>
  A rebuilt head is written over whatever the device holds, at the version after it. The source
  marshals the head before it knows that version, and fails when that fails.
\<close>

definition storeRebuiltHead :: "('m, 'o) venv \<Rightarrow> Session \<Rightarrow> bool \<Rightarrow> ('m, Session) vop" where
  "storeRebuiltHead E session0 emb =
     (let session1 = (if emb then session0\<lparr>ses_Embedding := Vault_embedding E\<rparr> else session0) in
      bind_io (json_io (ve_jsonSession E session1)) (\<lambda>head0.
      bind_io (outcome (GetSessionHead (ses_ID session1))) (\<lambda>existing.
      bind_io (case existing of
          Inr found \<Rightarrow>
            bind_io (json_io (ve_sessionJSON E found)) (\<lambda>previous.
            let session = session1\<lparr>ses_Version := ses_Version previous + 1\<rparr> in
            bind_io (json_io (ve_jsonSession E session)) (\<lambda>head. ret_io (session, head, ses_Version previous)))
        | Inl e \<Rightarrow> if e = ErrNotFound then ret_io (session1, head0, 0) else fail_io (VeLocal e)) (\<lambda>(session, head, expect).
      bind_io (on_local (PutSessionHead session head expect)) (\<lambda>_.
      bind_io (put_ranking E (sessionRankingMeta session)) (\<lambda>_.
      if \<not> emb then ret_io session
      else bind_io (Vault_EmbedOne E (Session_IndexText session)) (\<lambda>vector.
        bind_io (putVector E (ses_ID session) vector) (\<lambda>_. ret_io session))))))))"

record RebuildRequest =
  bq_Overwrite :: bool
  bq_Embed :: bool

definition rebuildHead ::
  "('m, 'o) venv \<Rightarrow> ID \<Rightarrow> Chunk list \<Rightarrow> ID list \<Rightarrow> RebuildRequest \<Rightarrow> ('m, RebuiltHead) vop" where
  "rebuildHead E i chunks backlinks req =
     bind_io (lift_io (rebuild_plan E i chunks backlinks)) (\<lambda>built.
     bind_io (if bq_Overwrite req then ret_io False
       else bind_io (outcome (GetSessionHead i)) (\<lambda>got.
         case got of
           Inr head \<Rightarrow> ret_io True
         | Inl e \<Rightarrow> if e = ErrNotFound then ret_io False else fail_io (VeLocal e))) (\<lambda>existing.
     if existing then ret_io (built\<lparr>rh_Existing := True\<rparr>)
     else bind_io (storeRebuiltHead E (rh_Session built) (bq_Embed req)) (\<lambda>session.
       ret_io (if bq_Embed req
         then built\<lparr>rh_Session := session, rh_Origins := (rh_Origins built)(''embedding'' \<mapsto> OriginSynthesised)\<rparr>
         else built\<lparr>rh_Session := session\<rparr>))))"

section \<open>The sessions\<close>

record RebuildReport =
  rbr_Chunks :: nat
  rbr_Sessions :: nat
  rbr_Stored :: nat
  rbr_Skipped :: nat
  rbr_Gaps :: nat
  rbr_Unreadable :: nat
  rbr_Heads :: "RebuiltHead list"
  rbr_Origins :: origins

definition empty_report :: RebuildReport where
  "empty_report = \<lparr>rbr_Chunks = 0, rbr_Sessions = 0, rbr_Stored = 0, rbr_Skipped = 0, rbr_Gaps = 0, rbr_Unreadable = 0,
     rbr_Heads = [], rbr_Origins = Map.empty\<rparr>"

text \<open>The catalog's entries of a kind and then what the device holds of it, each once.\<close>

definition recordIDs :: "Kind \<Rightarrow> ('m, ID list) vop" where
  "recordIDs kind =
     bind_io (get_io (\<lambda>s. map me_ID (filter (\<lambda>e. me_Kind e = kind) (Manifest_Entries (st_man (vs_man (wl_net s))))))) (\<lambda>named.
     bind_io (on_local (BodyIDsOfKind kind)) (\<lambda>held_ids. ret_io (firsts (named @ held_ids))))"

fun file_chunk :: "Chunk \<Rightarrow> (ID \<times> Chunk list) list \<Rightarrow> (ID \<times> Chunk list) list" where
  "file_chunk chunk [] = [(chk_Session chunk, [chunk])]"
| "file_chunk chunk ((i, chunks) # groups) =
     (if i = chk_Session chunk then (i, chunks @ [chunk]) # groups else (i, chunks) # file_chunk chunk groups)"

fun group_loop ::
  "('m, 'o) venv \<Rightarrow> ID list \<Rightarrow> (ID \<times> Chunk list) list \<Rightarrow> RebuildReport \<Rightarrow> ('m, (ID \<times> Chunk list) list \<times> RebuildReport) vpop" where
  "group_loop E [] groups report = ret_pio (groups, report)"
| "group_loop E (i # ids) groups report =
     bind_pio (outcome_pio (Vault_chunk E i)) (\<lambda>got.
     case got of
       Inl e \<Rightarrow> group_loop E ids groups (report\<lparr>rbr_Unreadable := rbr_Unreadable report + 1\<rparr>)
     | Inr chunk \<Rightarrow>
         if ID_IsZero (chk_Session chunk) then group_loop E ids groups report
         else group_loop E ids (file_chunk chunk groups) (report\<lparr>rbr_Chunks := rbr_Chunks report + 1\<rparr>))"

definition by_seq :: "Chunk \<Rightarrow> Chunk \<Rightarrow> bool" where
  "by_seq a b \<longleftrightarrow> chk_Seq a < chk_Seq b"

definition groupChunksBySession :: "('m, 'o) venv \<Rightarrow> ('m, (ID \<times> Chunk list) list \<times> RebuildReport) vpop" where
  "groupChunksBySession E =
     bind_pio (run_pio (recordIDs KindChunk)) (\<lambda>ids.
     bind_pio (group_loop E ids [] empty_report) (\<lambda>(groups, report).
     ret_pio (map (\<lambda>(i, chunks). (i, SliceStable by_seq chunks)) groups, report)))"

definition backlink_of :: "Memory \<Rightarrow> ID option" where
  "backlink_of memory =
     (if src_SessionID (mem_Source memory) = '''' then None
      else case ParseID (src_SessionID (mem_Source memory)) of Inl _ \<Rightarrow> None | Inr i \<Rightarrow> Some i)"

fun backlink_loop :: "('m, 'o) venv \<Rightarrow> ID list \<Rightarrow> (ID \<Rightarrow> ID list) \<Rightarrow> ('m, ID \<Rightarrow> ID list) vop" where
  "backlink_loop E [] links = ret_io links"
| "backlink_loop E (i # ids) links =
     bind_io (outcome (GetBody i)) (\<lambda>got.
     case got of
       Inl e \<Rightarrow> if e = ErrNotFound then backlink_loop E ids links else fail_io (VeLocal e)
     | Inr body \<Rightarrow>
         bind_io (json_io (ve_memoryJSON E body)) (\<lambda>memory.
         backlink_loop E ids
           (case backlink_of memory of
              None \<Rightarrow> links
            | Some session \<Rightarrow> links(session := links session @ [mem_ID memory]))))"

definition memoryBacklinks :: "('m, 'o) venv \<Rightarrow> ('m, ID \<Rightarrow> ID list) vop" where
  "memoryBacklinks E = bind_io (recordIDs KindMemory) (\<lambda>ids. backlink_loop E ids (\<lambda>_. []))"

definition count_head :: "Chunk list \<Rightarrow> RebuiltHead \<Rightarrow> RebuildReport \<Rightarrow> RebuildReport" where
  "count_head chunks head report =
     report\<lparr>rbr_Gaps := rbr_Gaps report + (if hasSequenceGap 0 chunks then 1 else 0),
       rbr_Skipped := rbr_Skipped report + (if rh_Existing head then 1 else 0),
       rbr_Stored := rbr_Stored report + (if rh_Existing head then 0 else 1),
       rbr_Heads := rbr_Heads report @ [head],
       rbr_Origins := mergeOrigins (rbr_Origins report) (rh_Origins head)\<rparr>"

fun rebuild_each ::
  "('m, 'o) venv \<Rightarrow> (ID \<Rightarrow> ID list) \<Rightarrow> RebuildRequest \<Rightarrow> (ID \<times> Chunk list) list \<Rightarrow> RebuildReport \<Rightarrow> ('m, RebuildReport) vop" where
  "rebuild_each E backlinks req [] report = ret_io report"
| "rebuild_each E backlinks req ((i, chunks) # groups) report =
     bind_io (rebuildHead E i chunks (backlinks i) req) (\<lambda>head.
     rebuild_each E backlinks req groups (count_head chunks head report))"

definition RebuildSessions :: "('m, 'o) venv \<Rightarrow> RebuildRequest \<Rightarrow> ('m, RebuildReport) vpop" where
  "RebuildSessions E req =
     bind_pio (groupChunksBySession E) (\<lambda>(groups, report). run_pio (
     bind_io (memoryBacklinks E) (\<lambda>backlinks.
     rebuild_each E backlinks req groups (report\<lparr>rbr_Sessions := length groups\<rparr>))))"

end
