(* ===== verification/Vault_Sample.thy ===== *)
theory Vault_Sample
  imports Vault_Core
begin

text \<open>
  A concrete vault for the witnesses of the vault's properties: the sample cipher, encoders that
  write a record's id, a network that is the set of the slabs it bills, and a device with empty
  tables whose calls all succeed.
\<close>

definition sample_venv :: "(string set, unit) venv" where
  "sample_venv =
     \<lparr>ve_u = id, ve_uw = (\<lambda>_. False), ve_crypto = sample_crypto, ve_sealer = sample_sealer, ve_codec = sample_codec,
      ve_Model = ''m'', ve_Dim = 1, ve_EmbedOne = (\<lambda>_ _. Inr [1065353216]),
      ve_jsonMemory = (\<lambda>m. Some (mem_ID m)), ve_memoryJSON = (\<lambda>_. None), ve_jsonChunk = (\<lambda>c. Some (chk_ID c)),
      ve_chunkJSON = (\<lambda>_. None), ve_jsonSession = (\<lambda>s. Some (ses_ID s)), ve_sessionJSON = (\<lambda>_. None),
      ve_jsonMessage = (\<lambda>m. Some (string_bytes (msg_ID m))), ve_client = None,
      ve_Sealed = (\<lambda>_ n. (Inl ''down'', n)), ve_ReadObject = (\<lambda>_ n. (Inl ''down'', n)), ve_digest = (\<lambda>_. []),
      ve_idtext = (\<lambda>_. []), ve_hosts = (\<lambda>_ _ n. (Inl ''down'', n)), ve_openSealed = (\<lambda>_. None),
      ve_readBody = (\<lambda>_ n. (Inl ''down'', n)), ve_policy = DefaultPolicy 40, ve_owner = ''a'', ve_SlabMetaTTL = 0\<rparr>"

definition sample_rest :: "string set vrest" where
  "sample_rest =
     \<lparr>vs_net = {}, vs_man = sample_state, vs_ix = sample_ix_state, vs_index = Index_New ''m'' 1,
      vs_health = \<lparr>ih_Model = ''m'', ih_Dim = 1, ih_Indexed = 0, ih_Foreign = []\<rparr>, vs_ready = False,
      vs_hosts = \<lparr>hs_hosts = None, hs_at = 0\<rparr>,
      vs_reads = \<lparr>sc_HeadReads = 0, sc_ChunkReads = 0, sc_ChunkBytes = 0\<rparr>\<rparr>"

definition sample_vault :: "string set vworld" where
  "sample_vault =
     \<lparr>mc_plan = (\<lambda>_. NoFault), mc_rand = (\<lambda>n. replicate 24 (of_nat n)), mc_step = 0, dv_clock = (\<lambda>n. int n * 1000000),
      dv_queue = [], dv_slabs = [], dv_bodies = [], dv_record_meta = [], dv_record_tags = [], dv_record_lexical = [],
      dv_session_heads = [], dv_object_cache = [], dv_slab_cache = [], dv_read_stats = [], dv_meta = [],
      wl_net = sample_rest, wl_state = \<lparr>qs_Records = 0, qs_Bytes = 0, qs_Oldest = 0, qs_Newest = 0\<rparr>\<rparr>"

text \<open>Chunks of messages of one text part each.\<close>

definition said_message :: "string \<Rightarrow> string \<Rightarrow> Message" where
  "said_message i txt =
     (sample_message i)\<lparr>msg_Parts := [Part ''text'' txt [] [] [] [] [] False [] [] [] 0 [] [] Map.empty]\<rparr>"

definition said_chunk :: "byte \<Rightarrow> int \<Rightarrow> Message list \<Rightarrow> Chunk" where
  "said_chunk b sq ms =
     \<lparr>chk_ID = replicate 15 0 @ [b], chk_Kind = KindChunk, chk_Schema = MessageSchema, chk_SchemaVersion = 1,
      chk_Session = replicate 15 0 @ [9], chk_Seq = sq, chk_Messages = ms\<rparr>"

lemma said_texts: "TrimSpace ''a'' \<noteq> []" "TrimSpace ''b'' \<noteq> []" "TrimSpace ''c'' \<noteq> []" "TrimSpace ''d'' \<noteq> []"
  "TrimSpace ''e'' \<noteq> []" "TrimSpace ''text'' \<noteq> []"
  by code_simp+

lemma sample_id_not_zero: "b \<noteq> 0 \<Longrightarrow> \<not> ID_IsZero (replicate 15 0 @ [b])"
  by (simp add: ID_IsZero_def IDSize_def eval_nat_numeral)

lemmas sample_vault_defs = sample_venv_def sample_rest_def sample_vault_def

end
