(* ===== verification/Vault_Rules.thy ===== *)
theory Vault_Rules
  imports Vault_Core
begin

text \<open>
  Rules the properties of the vault share: a run that returned taken apart, and the triples of a
  component's operation carried to the vault it runs in.
\<close>

lemma bind_io_InrE:
  assumes "bind_io m f s = (Inr y, s')"
  obtains x s1 where "m s = (Inr x, s1)" "f x s1 = (Inr y, s')"
  using assms by (auto simp: bind_io_def split: prod.splits sum.splits)

lemma bind_pio_InrE:
  assumes "bind_pio m f s = Some (Inr y, s')"
  obtains x s1 where "m s = Some (Inr x, s1)" "f x s1 = Some (Inr y, s')"
  using assms by (auto simp: bind_pio_def split: option.splits prod.splits sum.splits)

lemma triple_on_local: "triple P m Q E \<Longrightarrow> triple P (on_local m) Q E"
  unfolding on_local_def by (rule triple_wrap)

text \<open>An operation of the catalog or of the vectors changes its own part of the vault only.\<close>

lemma triple_on_man:
  assumes "\<And>s. P s \<Longrightarrow> \<exists>P' Q' E'. triple P' m Q' E' \<and> P' (vs_man (wl_net s)) \<and>
      (\<forall>x ms. Q' x ms \<longrightarrow> Q x (s\<lparr>wl_net := (wl_net s)\<lparr>vs_man := ms\<rparr>\<rparr>)) \<and>
      (\<forall>ms. E' ms \<longrightarrow> E (s\<lparr>wl_net := (wl_net s)\<lparr>vs_man := ms\<rparr>\<rparr>))"
  shows "triple P (on_man m) Q E"
  unfolding on_man_def
proof (rule triple_wrap, rule tripleI)
  fix s x s' assume "P s" and run: "(case m (vs_man (wl_net s)) of (r, ms) \<Rightarrow> (r, s\<lparr>wl_net := (wl_net s)\<lparr>vs_man := ms\<rparr>\<rparr>)) = (Inr x, s')"
  with assms [of s] show "Q x s'" by (auto split: prod.splits dest: tripleD)
next
  fix s e s' assume "P s" and run: "(case m (vs_man (wl_net s)) of (r, ms) \<Rightarrow> (r, s\<lparr>wl_net := (wl_net s)\<lparr>vs_man := ms\<rparr>\<rparr>)) = (Inl e, s')"
  with assms [of s] show "E s'" by (auto split: prod.splits dest: tripleD)
qed

lemma triple_on_ix:
  assumes "\<And>s xs. P s \<Longrightarrow> E (s\<lparr>wl_net := (wl_net s)\<lparr>vs_ix := xs\<rparr>\<rparr>)"
    and "\<And>s x xs. P s \<Longrightarrow> m (vs_ix (wl_net s)) = (Inr x, xs) \<Longrightarrow> Q x (s\<lparr>wl_net := (wl_net s)\<lparr>vs_ix := xs\<rparr>\<rparr>)"
  shows "triple P (on_ix m) Q E"
  unfolding on_ix_def
proof (rule triple_wrap, rule tripleI)
  fix s x s' assume "P s" "(case m (vs_ix (wl_net s)) of (r, xs) \<Rightarrow> (r, s\<lparr>wl_net := (wl_net s)\<lparr>vs_ix := xs\<rparr>\<rparr>)) = (Inr x, s')"
  with assms(2) show "Q x s'" by (auto split: prod.splits)
next
  fix s e s' assume "P s" "(case m (vs_ix (wl_net s)) of (r, xs) \<Rightarrow> (r, s\<lparr>wl_net := (wl_net s)\<lparr>vs_ix := xs\<rparr>\<rparr>)) = (Inl e, s')"
  with assms(1) show "E s'" by (auto split: prod.splits)
qed

lemma triple_settled:
  assumes "triple P m (\<lambda>x. Q (Inr x)) E'" "\<And>e s. E' s \<Longrightarrow> Q (Inl e) s"
  shows "triple P (outcome m) Q E"
proof (rule tripleI)
  fix s x s' assume s: "P s" "outcome m s = (Inr x, s')"
  then have "m s = (x, s')" by (auto simp: outcome_def split: prod.splits)
  with s(1) assms(2) show "Q x s'" by (cases x) (auto dest: tripleD [OF assms(1)])
qed (auto simp: outcome_def split: prod.splits)

section \<open>What an operation leaves alone\<close>

text \<open>Whatever becomes of a run, this part of the state is after it what it was before.\<close>

definition leaves :: "('s \<Rightarrow> 'b) \<Rightarrow> ('s, 'e, 'a) io \<Rightarrow> bool" where
  "leaves f m \<longleftrightarrow> (\<forall>s. f (snd (m s)) = f s)"

definition leaves_pio :: "('s \<Rightarrow> 'b) \<Rightarrow> ('s, 'e, 'a) pio \<Rightarrow> bool" where
  "leaves_pio f m \<longleftrightarrow> (\<forall>s r s'. m s = Some (r, s') \<longrightarrow> f s' = f s)"

named_theorems frame \<open>operations that leave a part of the state alone\<close>

lemma leavesD: "leaves f m \<Longrightarrow> m s = (r, s') \<Longrightarrow> f s' = f s"
  by (metis leaves_def snd_conv)

lemma leaves_pioD: "leaves_pio f m \<Longrightarrow> m s = Some (r, s') \<Longrightarrow> f s' = f s"
  by (simp add: leaves_pio_def)

lemma leaves_bind:
  assumes "leaves f m" "\<And>x. leaves f (g x)" shows "leaves f (bind_io m g)"
  unfolding leaves_def
proof
  fix s
  obtain r s1 where m: "m s = (r, s1)" by (cases "m s")
  with assms(1) have "f s1 = f s" by (rule leavesD)
  with m assms(2) show "f (snd (bind_io m g s)) = f s" by (cases r) (simp_all add: bind_io_def leaves_def)
qed

lemma leaves_wrap: "leaves f m \<Longrightarrow> leaves f (wrap_io g m)"
  by (auto simp: leaves_def wrap_io_def split: prod.splits sum.splits) (metis snd_conv)+

lemma leaves_outcome: "leaves f m \<Longrightarrow> leaves f (outcome m)"
  by (auto simp: leaves_def outcome_def split: prod.splits) (metis snd_conv)

lemma leaves_catch:
  assumes "leaves f m" "\<And>e. leaves f (h e)" shows "leaves f (catch_io m h)"
  unfolding leaves_def
proof
  fix s
  obtain r s1 where m: "m s = (r, s1)" by (cases "m s")
  with assms(1) have "f s1 = f s" by (rule leavesD)
  with m assms(2) show "f (snd (catch_io m h s)) = f s" by (cases r) (simp_all add: catch_io_def leaves_def)
qed

lemma leaves_simple [frame]:
  "leaves f (ret_io x)" "leaves f (fail_io e)" "leaves f (lift_io r)" "leaves f (get_io g)"
  by (simp_all add: leaves_def ret_io_def fail_io_def lift_io_def get_io_def)

lemma leaves_put: "(\<And>s. f (g s) = f s) \<Longrightarrow> leaves f (put_io g)"
  by (simp add: leaves_def put_io_def)

lemma leaves_values [frame]: "leaves f (json_io v)" "leaves f (seal_io r)"
  by (simp_all add: leaves_def json_io_def seal_io_def fail_io_def ret_io_def split: option.split sum.split)

lemma leaves_bind_pio:
  assumes "leaves_pio f m" "\<And>x. leaves_pio f (g x)" shows "leaves_pio f (bind_pio m g)"
  unfolding leaves_pio_def
proof (intro allI impI)
  fix s r s' assume run: "bind_pio m g s = Some (r, s')"
  then obtain r1 s1 where m: "m s = Some (r1, s1)" by (auto simp: bind_pio_def split: option.splits)
  with assms(1) have "f s1 = f s" by (rule leaves_pioD)
  with m run show "f s' = f s" using leaves_pioD [OF assms(2)] by (cases r1) (auto simp: bind_pio_def)
qed

lemma leaves_run_pio: "leaves f m \<Longrightarrow> leaves_pio f (run_pio m)"
  by (auto simp: leaves_def leaves_pio_def run_pio_def) (metis snd_conv)

lemma leaves_simple_pio [frame]: "leaves_pio f (ret_pio x)" "leaves_pio f (fail_pio e)"
  by (simp_all add: ret_pio_def fail_pio_def leaves_run_pio leaves_simple)

lemmas leaves_rules = leaves_bind leaves_bind_pio leaves_run_pio leaves_outcome leaves_catch leaves_wrap

lemma leaves_sql_query: "(\<And>s k. f (s\<lparr>mc_step := k\<rparr>) = f s) \<Longrightarrow> leaves f (sql_query q)"
  by (simp add: leaves_def sql_query_runs)

lemma leaves_sql_exec:
  "(\<And>s k. f (s\<lparr>mc_step := k\<rparr>) = f s) \<Longrightarrow> (\<And>s. f (g s) = f s) \<Longrightarrow> leaves f (sql_exec g)"
  by (simp add: leaves_def sql_exec_runs)

lemma leaves_time: "(\<And>s k. f (s\<lparr>mc_step := k\<rparr>) = f s) \<Longrightarrow> leaves f time_Now"
  by (simp add: leaves_def time_Now_def)

lemma leaves_on_local: "leaves f m \<Longrightarrow> leaves f (on_local m)"
  unfolding on_local_def by (rule leaves_wrap)

section \<open>What a run that returns ends with\<close>

definition returns :: "('s \<Rightarrow> bool) \<Rightarrow> ('s, 'e, 'a) pio \<Rightarrow> ('a \<Rightarrow> 's \<Rightarrow> bool) \<Rightarrow> bool" where
  "returns P m Q \<longleftrightarrow> (\<forall>s x s'. P s \<longrightarrow> m s = Some (Inr x, s') \<longrightarrow> Q x s')"

lemma returnsD: "returns P m Q \<Longrightarrow> P s \<Longrightarrow> m s = Some (Inr x, s') \<Longrightarrow> Q x s'"
  by (simp add: returns_def)

lemma returns_bind:
  assumes "returns P m R" "\<And>x. returns (R x) (f x) Q" shows "returns P (bind_pio m f) Q"
  unfolding returns_def
proof (intro allI impI)
  fix s y s' assume s: "P s" "bind_pio m f s = Some (Inr y, s')"
  from s(2) obtain x s1 where x: "m s = Some (Inr x, s1)" "f x s1 = Some (Inr y, s')" by (rule bind_pio_InrE)
  from returnsD [OF assms(1) s(1) x(1)] show "Q y s'" by (rule returnsD [OF assms(2) _ x(2)])
qed

lemma returns_run: "triple P m Q (\<lambda>_. True) \<Longrightarrow> returns P (run_pio m) Q"
  by (simp add: returns_def run_pio_def triple_def)

lemma returns_fail [simp]: "returns P (fail_pio e) Q"
  by (simp add: returns_def fail_pio_def run_pio_def fail_io_def)

lemma returns_ret: "(\<And>s. P s \<Longrightarrow> Q x s) \<Longrightarrow> returns P (ret_pio x) Q"
  by (simp add: returns_def ret_pio_def run_pio_def ret_io_def)

lemma triple_leaves: "leaves f m \<Longrightarrow> triple (\<lambda>s. P (f s)) m (\<lambda>_ s. P (f s)) (\<lambda>_. True)"
  unfolding triple_def by (auto dest: leavesD)

lemma returns_leaves: "leaves_pio f m \<Longrightarrow> returns (\<lambda>s. P (f s)) m (\<lambda>_ s. P (f s))"
  unfolding returns_def by (auto dest: leaves_pioD)

end
