(* ===== verification/Vault_Rebuild_Spec.thy ===== *)
theory Vault_Rebuild_Spec
  imports Vault_Rebuild Vault_Sample Vault_Rules
begin

text \<open>
  What a rebuild promises: a head that can be stored, made of the chunks as they are, and a report
  that claims no more of a field than the weakest head does.
\<close>

section \<open>White space\<close>

declare trim_with.simps [simp del]

lemma spaces_lengths:
  "x \<in> set spaces2 \<Longrightarrow> length x = 2" "x \<in> set spaces3 \<Longrightarrow> length x = 3"
  by (auto simp: spaces2_def spaces3_def)

lemma trim_with_Nil: "trim_with f [] = []"
  by (subst trim_with.simps) simp

lemma trim_stops: "f (trim_with f xs) = 0 \<or> trim_with f xs = []"
proof (induction f xs rule: trim_with.induct)
  case (1 f xs)
  then show ?case by (subst (1 2) trim_with.simps) auto
qed

text \<open>A text that begins with no white space is not trimmed away from its end.\<close>

lemma space_rune_end_rev:
  assumes "space_rune_end (rev xs) \<ge> length xs" "xs \<noteq> []"
  shows "space_rune xs > 0"
proof -
  have ascii: "length xs = 1 \<Longrightarrow> ascii_space (hd (rev xs)) \<Longrightarrow> ascii_space (hd xs)" by (cases xs) auto
  have two: "rev (take 2 (rev xs)) = xs" if "length xs \<le> 2" using that by simp
  have three: "rev (take 3 (rev xs)) = xs" if "length xs \<le> 3" using that by simp
  have pos: "space_rune_end (rev xs) > 0" using assms by (meson length_greater_0_conv less_le_trans)
  consider (a) "ascii_space (hd (rev xs))" "space_rune_end (rev xs) = 1"
    | (b) "rev (take 2 (rev xs)) \<in> set spaces2" "space_rune_end (rev xs) = 2"
    | (c) "rev (take 3 (rev xs)) \<in> set spaces3" "space_rune_end (rev xs) = 3"
    using pos unfolding space_rune_end_def by (auto split: if_splits)
  then show ?thesis
  proof cases
    case a
    then have "length xs = 1" using assms by (cases xs) auto
    then show ?thesis using a ascii assms by (simp add: space_rune_def)
  next
    case b
    then have "xs \<in> set spaces2" "take 2 xs = xs" using two assms by auto
    then show ?thesis by (simp add: space_rune_def)
  next
    case c
    then have "xs \<in> set spaces3" "take 3 xs = xs" using three assms by auto
    then show ?thesis using assms by (simp add: space_rune_def)
  qed
qed

lemma space_rune_prefix:
  assumes "space_rune (xs @ ys) = 0"
  shows "space_rune xs = 0"
proof (rule ccontr)
  assume "space_rune xs \<noteq> 0"
  then consider "xs \<noteq> []" "ascii_space (hd xs)" | "take 2 xs \<in> set spaces2" | "take 3 xs \<in> set spaces3"
    by (auto simp: space_rune_def split: if_splits)
  then show False
  proof cases
    case 1 then show ?thesis using assms by (simp add: space_rune_def)
  next
    case 2
    then have "length (take 2 xs) = 2" by (rule spaces_lengths)
    then have "take 2 (xs @ ys) = take 2 xs" by simp
    then show ?thesis using assms 2 by (auto simp: space_rune_def split: if_splits)
  next
    case 3
    then have "length (take 3 xs) = 3" by (rule spaces_lengths)
    then have "take 3 (xs @ ys) = take 3 xs" by simp
    then show ?thesis using assms 3 by (auto simp: space_rune_def split: if_splits)
  qed
qed

lemma trim_end_keeps:
  "space_rune xs = 0 \<Longrightarrow> xs \<noteq> [] \<Longrightarrow> trim_with space_rune_end (rev xs) \<noteq> []"
proof (induction "length xs" arbitrary: xs rule: less_induct)
  case less
  let ?n = "space_rune_end (rev xs)"
  show ?case
  proof (cases "?n = 0")
    case True then show ?thesis using less.prems by (subst trim_with.simps) simp
  next
    case False
    have n: "?n < length xs"
    proof (rule ccontr)
      assume "\<not> ?n < length xs"
      then have "space_rune xs > 0" using space_rune_end_rev less.prems(2) by simp
      then show False using less.prems(1) by simp
    qed
    let ?ys = "take (length xs - ?n) xs"
    have "space_rune ?ys = 0" using space_rune_prefix [of ?ys "drop (length xs - ?n) xs"] less.prems by simp
    moreover have "?ys \<noteq> []" "length ?ys < length xs" using n False by auto
    ultimately have "trim_with space_rune_end (rev ?ys) \<noteq> []" using less.hyps by blast
    moreover have "drop ?n (rev xs) = rev ?ys" by (rule drop_rev)
    ultimately show ?thesis using False less.prems(2) trim_with.simps [of space_rune_end "rev xs"] by simp
  qed
qed

lemma TrimSpace_Nil_iff: "TrimSpace s = [] \<longleftrightarrow> trim_with space_rune (codes s) = []"
proof -
  let ?l = "trim_with space_rune (codes s)"
  have "?l = [] \<or> space_rune ?l = 0" using trim_stops [of space_rune "codes s"] by argo
  then have "trim_with space_rune_end (rev ?l) = [] \<longleftrightarrow> ?l = []"
    using trim_end_keeps [of ?l] by (auto simp: trim_with_Nil)
  then show ?thesis by (simp add: TrimSpace_def of_codes_def)
qed

lemma trim_with_drop: "\<exists>k. trim_with f xs = drop k xs"
proof (induction f xs rule: trim_with.induct)
  case (1 f xs)
  show ?case
  proof (cases "xs = [] \<or> f xs = 0")
    case True
    then have "trim_with f xs = drop 0 xs" by (subst trim_with.simps) simp
    then show ?thesis by blast
  next
    case False
    from 1 [OF this] obtain k where "trim_with f (drop (f xs) xs) = drop k (drop (f xs) xs)" ..
    then have "trim_with f xs = drop (k + f xs) xs" using False by (subst trim_with.simps) simp
    then show ?thesis by blast
  qed
qed

lemma codes_take_drop: "of_codes (take n (drop k (codes s))) = take n (drop k s)"
  by (simp add: of_codes_def codes_def take_map drop_map comp_def)

lemma TrimSpace_slice:
  "\<exists>n k. TrimSpace s = take n (drop k s) \<and> trim_with space_rune (codes s) = drop k (codes s)"
proof -
  obtain k where k: "trim_with space_rune (codes s) = drop k (codes s)" using trim_with_drop by blast
  obtain j where "trim_with space_rune_end (rev (drop k (codes s))) = drop j (rev (drop k (codes s)))"
    using trim_with_drop by blast
  then have "TrimSpace s = of_codes (take (length (drop k (codes s)) - j) (drop k (codes s)))"
    by (simp add: TrimSpace_def k drop_rev)
  then show ?thesis using k codes_take_drop by metis
qed

lemma TrimSpace_length: "length (TrimSpace s) \<le> length s"
proof -
  obtain n k where "TrimSpace s = take n (drop k s)" using TrimSpace_slice by blast
  then show ?thesis by simp
qed

lemma TrimSpace_word: "s \<noteq> [] \<Longrightarrow> space_rune (codes s) = 0 \<Longrightarrow> TrimSpace s \<noteq> []"
  unfolding TrimSpace_Nil_iff by (subst trim_with.simps) (simp add: codes_def)

lemma TrimSpace_starts:
  assumes "TrimSpace s \<noteq> []" shows "space_rune (codes (TrimSpace s)) = 0"
proof -
  obtain n k where t: "TrimSpace s = take n (drop k s)" "trim_with space_rune (codes s) = drop k (codes s)"
    using TrimSpace_slice by blast
  have "drop k (codes s) \<noteq> []" using assms TrimSpace_Nil_iff [of s] t by simp
  then have "space_rune (drop k (codes s)) = 0" using trim_stops [of space_rune "codes s"] t by simp
  then have "space_rune (take n (drop k (codes s)) @ drop n (drop k (codes s))) = 0" by (simp only: append_take_drop_id)
  then have "space_rune (take n (drop k (codes s))) = 0" by (rule space_rune_prefix)
  then show ?thesis by (simp add: t codes_def take_map drop_map)
qed

section \<open>Titles\<close>

lemma space_rune_extend:
  assumes "space_rune (a @ b) = 0" "a \<noteq> []" "r = [] \<or> hd r = 32"
  shows "space_rune (a @ r) = 0"
proof -
  have no: "\<not> ascii_space (hd (a @ b))" "take 2 (a @ b) \<notin> set spaces2" "take 3 (a @ b) \<notin> set spaces3"
    using assms(1,2) by (auto simp: space_rune_def split: if_splits)
  have hd: "hd (a @ r) = hd (a @ b)" using assms(2) by simp
  have two: "take 2 (a @ r) \<notin> set spaces2"
  proof (cases "length a \<ge> 2")
    case True then show ?thesis using no(2) by simp
  next
    case False
    then obtain x where "a = [x]" using assms(2) by (cases a; cases "tl a") auto
    then show ?thesis using assms(3) by (cases r) (auto simp: spaces2_def)
  qed
  have three: "take 3 (a @ r) \<notin> set spaces3"
  proof (cases "length a \<ge> 3")
    case True then show ?thesis using no(3) by simp
  next
    case False
    then consider x where "a = [x]" | x y where "a = [x, y]"
      using assms(2) by (cases a; cases "tl a"; cases "tl (tl a)") auto
    then show ?thesis
    proof cases
      case 1 then show ?thesis using assms(3) by (cases r) (auto simp: spaces3_def)
    next
      case 2 then show ?thesis using assms(3) by (cases r) (auto simp: spaces3_def)
    qed
  qed
  show ?thesis using no(1) two three hd by (simp add: space_rune_def)
qed

lemma strings_Fields_first:
  "cur \<noteq> [] \<Longrightarrow> \<exists>v t ws. strings_Fields cur s = (cur @ v) # ws \<and> s = v @ t"
proof (induction cur s rule: strings_Fields.induct)
  case (1 cur s)
  consider "s = []" | "s \<noteq> []" "space_rune (codes s) > 0" | "s \<noteq> []" "\<not> space_rune (codes s) > 0" by blast
  then show ?case
  proof cases
    case 1
    then have "strings_Fields cur s = (cur @ []) # []" using "1.prems" by (subst strings_Fields.simps) simp
    then show ?thesis using 1 by blast
  next
    case 2
    then have "strings_Fields cur s = (cur @ []) # strings_Fields [] (drop (space_rune (codes s)) s)"
      using "1.prems" by (subst strings_Fields.simps) simp
    then show ?thesis by blast
  next
    case 3
    let ?w = "rune_width s"
    have "cur @ take ?w s \<noteq> []" using "1.prems" by simp
    with "1.IH"(3) [OF 3] obtain v t ws where
      IH: "strings_Fields (cur @ take ?w s) (drop ?w s) = ((cur @ take ?w s) @ v) # ws" "drop ?w s = v @ t" by blast
    have "strings_Fields cur s = (cur @ (take ?w s @ v)) # ws" using IH(1) 3 by (subst strings_Fields.simps) simp
    moreover have "s = (take ?w s @ v) @ t" using IH(2) by (metis append_assoc append_take_drop_id)
    ultimately show ?thesis by blast
  qed
qed

lemma Join_first: "\<exists>r. Join '' '' (w # ws) = w @ r \<and> (r = [] \<or> hd r = CHR '' '')"
  by (cases ws) auto

lemma codes_append: "codes (a @ b) = codes a @ codes b"
  by (simp add: codes_def)

lemma words_start:
  assumes "s \<noteq> []" "space_rune (codes s) = 0"
  shows "Join '' '' (strings_Fields [] s) \<noteq> []" "space_rune (codes (Join '' '' (strings_Fields [] s))) = 0"
proof -
  let ?w = "rune_width s"
  have cur: "take ?w s \<noteq> []" using rune_width_pos [OF assms(1)] assms(1) by auto
  have "strings_Fields [] s = strings_Fields (take ?w s) (drop ?w s)"
    using assms by (subst strings_Fields.simps) simp
  with strings_Fields_first [OF cur, of "drop ?w s"] obtain v t ws where
    f: "strings_Fields [] s = (take ?w s @ v) # ws" "drop ?w s = v @ t" by auto
  obtain r where r: "Join '' '' ((take ?w s @ v) # ws) = (take ?w s @ v) @ r" "r = [] \<or> hd r = CHR '' ''" using Join_first by blast
  have s: "s = (take ?w s @ v) @ t" using f(2) by (metis append_assoc append_take_drop_id)
  have hd: "codes r = [] \<or> hd (codes r) = 32" using r(2) by (cases r) (auto simp: codes_def)
  have "space_rune (codes (take ?w s @ v) @ codes t) = 0" using assms(2) s by (metis codes_append)
  moreover have "codes (take ?w s @ v) \<noteq> []" using cur by (simp add: codes_def)
  ultimately have "space_rune (codes (take ?w s @ v) @ codes r) = 0" using hd by (rule space_rune_extend)
  then show "space_rune (codes (Join '' '' (strings_Fields [] s))) = 0" using f r by (simp add: codes_append)
  show "Join '' '' (strings_Fields [] s) \<noteq> []" using f r cur by simp
qed

lemma rune_width_four: "rune_width s \<le> 4"
  by (cases s) (auto simp: rune_width_def lead_width_def Let_def)

lemma text_runes_bounds:
  "length s \<le> length (concat (text_runes s)) \<and> (\<forall>r \<in> set (text_runes s). length r \<le> 4)"
proof (induction s rule: text_runes.induct)
  case (1 s)
  show ?case
  proof (cases "s = []")
    case True
    then have "text_runes s = []" by (subst text_runes.simps) simp
    then show ?thesis using True by simp
  next
    case False
    let ?t = "take (rune_width s) s" and ?d = "drop (rune_width s) s"
    let ?r = "case ?t of [c] \<Rightarrow> if of_char c < (128 :: nat) then [c] else [CHR 0xEF, CHR 0xBF, CHR 0xBD] | r \<Rightarrow> r"
    have r: "text_runes s = ?r # text_runes ?d" using False by (subst text_runes.simps) simp
    have "length ?t \<le> 4" using rune_width_four [of s] by simp
    then have "length ?t \<le> length ?r \<and> length ?r \<le> 4" by (cases ?t; cases "tl ?t") auto
    then obtain R where R: "text_runes s = R # text_runes ?d" "length ?t \<le> length R" "length R \<le> 4" using r by blast
    have s: "length s = length ?t + length ?d" by simp
    have IH: "length ?d \<le> length (concat (text_runes ?d)) \<and> (\<forall>r \<in> set (text_runes ?d). length r \<le> 4)"
      by (rule 1 [OF False])
    have "length s \<le> length (concat (R # text_runes ?d))"
      unfolding concat.simps length_append using s R(2) IH by linarith
    then show ?thesis using R(3) IH by (simp only: R(1) list.set ball_simps) blast
  qed
qed

lemma concat_length: "\<forall>r \<in> set rs. length r \<le> 4 \<Longrightarrow> length (concat rs) \<le> 4 * length rs"
  by (induction rs) auto

definition dots :: "nat list" where "dots = [226, 128, 166]"

lemma space_rune_dots: "space_rune (ys @ dots) \<le> length ys"
proof (cases "length ys \<ge> 3")
  case True
  then show ?thesis by (auto simp: space_rune_def)
next
  case False
  then consider "ys = []" | a where "ys = [a]" | a b where "ys = [a, b]"
    by (cases ys; cases "tl ys"; cases "tl (tl ys)") auto
  then show ?thesis
    by cases (auto simp: dots_def space_rune_def ascii_space_def spaces2_def spaces3_def)
qed

lemma trim_dots: "trim_with space_rune (ys @ dots) \<noteq> []"
proof (induction "length ys" arbitrary: ys rule: less_induct)
  case less
  let ?n = "space_rune (ys @ dots)"
  show ?case
  proof (cases "?n = 0")
    case True then show ?thesis by (subst trim_with.simps) (simp add: dots_def)
  next
    case False
    have n: "?n \<le> length ys" by (rule space_rune_dots)
    have "trim_with space_rune (drop ?n ys @ dots) \<noteq> []" using False n by (intro less.hyps) simp
    moreover have "trim_with space_rune (ys @ dots) = trim_with space_rune (drop ?n ys @ dots)"
      using False n by (subst trim_with.simps) (simp add: dots_def)
    ultimately show ?thesis by simp
  qed
qed

lemma ellipsis_kept: "TrimSpace (x @ ellipsis) \<noteq> []"
proof -
  have "codes ellipsis = dots" by (simp add: codes_def ellipsis_def dots_def)
  then show ?thesis using trim_dots [of "codes x"] by (simp add: TrimSpace_Nil_iff codes_append)
qed

lemma truncateTitle_ok:
  assumes "s \<noteq> []" "space_rune (codes s) = 0"
  shows "TrimSpace (truncateTitle s) \<noteq> []" "length (truncateTitle s) \<le> 291"
proof -
  let ?t = "Join '' '' (strings_Fields [] s)"
  have t: "TrimSpace ?t \<noteq> []" using words_start [OF assms] TrimSpace_word by blast
  have rs: "\<forall>r \<in> set (text_runes ?t). length r \<le> 4" "length ?t \<le> length (concat (text_runes ?t))"
    using text_runes_bounds by auto
  have "length (concat (take 72 (text_runes ?t))) \<le> 4 * length (take 72 (text_runes ?t))"
    using rs(1) by (intro concat_length) (meson in_set_takeD)
  then have cut: "length (TrimSpace (concat (take 72 (text_runes ?t)))) \<le> 288"
    using TrimSpace_length [of "concat (take 72 (text_runes ?t))"] by simp
  have short: "length ?t \<le> 288" if "length (text_runes ?t) \<le> 72"
    using concat_length [OF rs(1)] rs(2) that by simp
  show "TrimSpace (truncateTitle s) \<noteq> []"
    using t ellipsis_kept by (simp add: truncateTitle_def Let_def TitleFromTranscript_def)
  show "length (truncateTitle s) \<le> 291"
    using short cut by (auto simp: truncateTitle_def Let_def TitleFromTranscript_def ellipsis_def)
qed

lemma firstText_trimmed: "firstText ps \<noteq> [] \<Longrightarrow> \<exists>t. firstText ps = TrimSpace t"
proof (induction ps rule: firstText.induct)
  case (2 p ps)
  then show ?case by (auto simp: Let_def split: if_splits)
qed simp

lemma first_said_trimmed: "first_said ms \<noteq> [] \<Longrightarrow> \<exists>t. first_said ms = TrimSpace t"
  by (induction ms) (auto dest: firstText_trimmed split: if_splits)

lemma recovered_title:
  "TrimSpace (''Recovered session '' @ x) \<noteq> []"
proof (rule TrimSpace_word)
  show "space_rune (codes (''Recovered session '' @ x)) = 0"
    by (simp add: codes_def space_rune_def ascii_space_def spaces2_def spaces3_def)
qed simp

lemma synthesiseTitle_ok:
  "TrimSpace (synthesiseTitle chunks i) \<noteq> []" "length (synthesiseTitle chunks i) \<le> MaxTitleBytes"
proof -
  let ?t = "first_said (concat (map chk_Messages chunks))"
  have t: "space_rune (codes ?t) = 0" if "?t \<noteq> []" using first_said_trimmed that TrimSpace_starts by metis
  show "TrimSpace (synthesiseTitle chunks i) \<noteq> []"
    using truncateTitle_ok(1) [OF _ t] recovered_title by (auto simp: synthesiseTitle_def Let_def)
  show "length (synthesiseTitle chunks i) \<le> MaxTitleBytes"
    using truncateTitle_ok(2) [OF _ t] by (auto simp: synthesiseTitle_def Let_def MaxTitleBytes_def)
qed

section \<open>The rebuilt head\<close>

lemma fold_observe_message:
  "tf_messages (fold observe_message ms f) = tf_messages f + int (length ms)"
  "tf_bytes (fold observe_message ms f) = tf_bytes f"
  "tf_headMessage (fold observe_message ms f) = (if ms = [] then tf_headMessage f else msg_ID (last ms))"
  by (induction ms arbitrary: f) (auto simp: observe_message_def Let_def)

definition chunk_size :: "('m, 'o) venv \<Rightarrow> Chunk \<Rightarrow> int" where
  "chunk_size E c = (case ve_jsonChunk E c of None \<Rightarrow> 0 | Some body \<Rightarrow> int (length body))"

definition transcript_of :: "Chunk list \<Rightarrow> Message list" where
  "transcript_of chunks = concat (map chk_Messages chunks)"

lemma fold_observe_chunk:
  "tf_messages (fold (observe_chunk E) cs f) = tf_messages f + int (length (transcript_of cs)) \<and>
   tf_bytes (fold (observe_chunk E) cs f) = tf_bytes f + sum_list (map (chunk_size E) cs) \<and>
   tf_headMessage (fold (observe_chunk E) cs f) =
     (if transcript_of cs = [] then tf_headMessage f else msg_ID (last (transcript_of cs)))"
proof (induction cs arbitrary: f)
  case (Cons c cs)
  have "tf_messages (observe_chunk E c f) = tf_messages f + int (length (chk_Messages c))"
    "tf_bytes (observe_chunk E c f) = tf_bytes f + chunk_size E c"
    "tf_headMessage (observe_chunk E c f) = (if chk_Messages c = [] then tf_headMessage f else msg_ID (last (chk_Messages c)))"
    by (auto simp: observe_chunk_def fold_observe_message chunk_size_def split: option.split)
  then show ?case by (simp_all add: Cons.IH transcript_of_def)
qed (simp_all add: transcript_of_def)

definition ref_of :: "Chunk \<Rightarrow> ChunkRef \<Rightarrow> bool" where
  "ref_of c ref \<longleftrightarrow> ref_ID ref = chk_ID c \<and> ref_N ref = int (length (chk_Messages c)) \<and>
     (chk_Messages c \<noteq> [] \<longrightarrow> ref_First ref = msg_ID (hd (chk_Messages c)) \<and> ref_Last ref = msg_ID (last (chk_Messages c)))"

lemma chunk_refs_ok:
  "chunk_refs E n cs = Inr refs \<Longrightarrow>
     list_all2 ref_of cs refs \<and> map ref_Bytes refs = map (chunk_size E) cs \<and>
     (\<forall>j < length refs. ref_Seq (refs ! j) = int (n + j))"
proof (induction cs arbitrary: n refs)
  case (Cons c cs)
  obtain ref rest where r: "chunkRef E c n = Inr ref" "chunk_refs E (n + 1) cs = Inr rest" "refs = ref # rest"
    using Cons.prems by (auto simp: bind_result_def split: sum.splits)
  have "ref_of c ref \<and> ref_Bytes ref = chunk_size E c \<and> ref_Seq ref = int n"
    using r(1) by (auto simp: chunkRef_def ref_of_def chunk_size_def split: option.splits sum.splits)
  moreover note Cons.IH [OF r(2)]
  ultimately show ?case by (auto simp: r(3) nth_Cons split: nat.split)
qed simp

lemma chunk_refs_error:
  "chunk_refs E n cs = Inl e \<Longrightarrow> (e = VeJSON \<and> (\<exists>c \<in> set cs. ve_jsonChunk E c = None)) \<or> e = VeSeal CIDKey"
proof (induction cs arbitrary: n)
  case (Cons c cs)
  show ?case
  proof (cases "chunkRef E c n")
    case (Inl e')
    then show ?thesis using Cons.prems
      by (auto simp: chunkRef_def bind_result_def Sealer_CID_def split: option.splits sum.splits if_splits)
  next
    case (Inr ref)
    then show ?thesis using Cons by (auto simp: bind_result_def split: sum.splits)
  qed
qed simp

definition rebuildable :: "ID \<Rightarrow> Chunk list \<Rightarrow> bool" where
  "rebuildable i chunks \<longleftrightarrow> chunks \<noteq> [] \<and> (\<forall>c \<in> set chunks. wf_chunk c \<and> chk_Session c = i)"

definition restores :: "('m, 'o) venv \<Rightarrow> ID \<Rightarrow> Chunk list \<Rightarrow> Session \<Rightarrow> bool" where
  "restores E i chunks session \<longleftrightarrow>
     ses_ID session = i \<and> list_all2 ref_of chunks (ses_Chunks session) \<and>
     cnt_Messages (ses_Counts session) = int (length (transcript_of chunks)) \<and>
     cnt_Chunks (ses_Counts session) = int (length chunks) \<and>
     cnt_Bytes (ses_Counts session) = Session_ChunkBytes session \<and>
     cnt_Messages (ses_Counts session) = Session_Messages session \<and>
     ses_HeadMessage session = msg_ID (last (transcript_of chunks))"

lemma refs_total: "list_all2 ref_of cs refs \<Longrightarrow> sum_list (map ref_N refs) = int (length (transcript_of cs))"
  by (induction rule: list_all2_induct) (auto simp: ref_of_def transcript_of_def)

lemma refs_nth_ID:
  assumes "list_all2 ref_of cs refs" "j < length refs"
  shows "j < length cs" "ref_ID (refs ! j) = chk_ID (cs ! j)"
  using assms by (auto simp: list_all2_conv_all_nth ref_of_def)

lemma rebuild_plan_restores:
  assumes "rebuildable i chunks"
  shows "case rebuild_plan E i chunks backlinks of
           Inl e \<Rightarrow> (e = VeJSON \<and> (\<exists>c \<in> set chunks. ve_jsonChunk E c = None)) \<or> e = VeSeal CIDKey
         | Inr built \<Rightarrow> wf_session (rh_Session built) \<and> restores E i chunks (rh_Session built)"
proof (cases "chunk_refs E 0 chunks")
  case (Inl e)
  then show ?thesis using chunk_refs_error [OF Inl] assms
    by (auto simp: rebuild_plan_def rebuildable_def bind_result_def Let_def)
next
  case (Inr refs)
  let ?f = "observeTranscript E chunks"
  let ?links = "mergeIDs backlinks (tf_memoryRefs ?f)"
  let ?s = "rebuilt_session i chunks refs ?f ?links"
  note refs = chunk_refs_ok [OF Inr]
  have first: "wf_chunk (hd chunks)" "chk_Session (hd chunks) = i" "chunks \<noteq> []" using assms by (auto simp: rebuildable_def)
  then have i: "\<not> ID_IsZero i" by (auto simp: wf_chunk_def)
  have said: "transcript_of chunks \<noteq> []" using first by (cases chunks) (auto simp: transcript_of_def wf_chunk_def)
  have all_wf: "wf_chunk (chunks ! j)" if "j < length chunks" for j using assms that by (auto simp: rebuildable_def)
  have ids: "\<not> ID_IsZero (ref_ID (refs ! j))" if j: "j < length refs" for j
    using refs_nth_ID [of chunks refs j] refs j all_wf [of j] by (auto simp: wf_chunk_def)
  have seqs: "ref_Seq (refs ! j) = int j" if "j < length refs" for j using refs that by simp
  have tags: "wf_tags []" by (simp add: wf_tags_def)
  have kind: "SessionMain \<in> set SessionKinds" "SessionMain \<noteq> SessionSubagent"
    by (simp_all add: SessionKinds_def SessionMain_def SessionSubagent_def)
  have head: "ses_ID ?s = i" "ses_Schema ?s = chk_Schema (hd chunks)" "ses_SchemaVersion ?s = chk_SchemaVersion (hd chunks)"
    "ses_Version ?s = 1" "ses_Kind ?s = SessionMain" "ses_Title ?s = synthesiseTitle chunks i" "ses_Summary ?s = ''''"
    "ses_Tags ?s = []" "ses_Chunks ?s = refs"
    by (simp_all add: rebuilt_session_def)
  have wf: "wf_session ?s"
    unfolding wf_session_def head using first(1) i ids seqs tags kind synthesiseTitle_ok [of chunks i]
    by (auto simp: wf_chunk_def)
  have "restores E i chunks ?s"
    using refs refs_total [of chunks refs] said
    by (auto simp: restores_def rebuilt_session_def observeTranscript_def fold_observe_chunk no_facts_def Session_totals)
  then show ?thesis using wf first(3) Inr Session_Validate_None_iff [of ?s]
    by (simp add: rebuild_plan_def bind_result_def Let_def)
qed

text \<open>
  C19. A conversation is always rebuilt from its chunks into a head that can be stored. For chunks
  that are well formed and name one session, a rebuild never refuses the head it made: it fails only
  when a chunk cannot be marshalled or the content key is unusable. The head is well formed, its
  invented title is not blank and within its limit, it names the chunks one for one in order with
  the ids, ends and sizes they have, numbered from zero whatever gaps their own numbers have, and
  its counts and its last message are those of the transcript.
\<close>

theorem rebuild_restores:
  assumes "rebuildable i chunks"
  shows "case rebuild_plan E i chunks backlinks of
           Inl e \<Rightarrow> (e = VeJSON \<and> (\<exists>c \<in> set chunks. ve_jsonChunk E c = None)) \<or> e = VeSeal CIDKey
         | Inr built \<Rightarrow> wf_session (rh_Session built) \<and> restores E i chunks (rh_Session built)"
  by (rule rebuild_plan_restores [OF assms])

definition two_chunks :: "Chunk list" where
  "two_chunks = [said_chunk 1 0 [said_message ''a'' ''hello  there'', said_message ''b'' ''x''], said_chunk 2 3 [said_message ''c'' ''y'']]"

section \<open>The report\<close>

definition weakest :: "origins list \<Rightarrow> origins \<Rightarrow> bool" where
  "weakest os verdict \<longleftrightarrow>
     (\<forall>field. case verdict field of
        None \<Rightarrow> (\<forall>m \<in> set os. m field = None)
      | Some w \<Rightarrow> (\<exists>m \<in> set os. m field = Some w) \<and> (\<forall>m \<in> set os. \<forall>x. m field = Some x \<longrightarrow> originRank x \<le> originRank w))"

lemma weakest_merge:
  assumes "weakest os verdict" shows "weakest (os @ [m]) (mergeOrigins verdict m)"
  unfolding weakest_def
proof
  fix field
  note before = assms [unfolded weakest_def, rule_format, of field]
  show "case mergeOrigins verdict m field of
      None \<Rightarrow> \<forall>m' \<in> set (os @ [m]). m' field = None
    | Some w \<Rightarrow> (\<exists>m' \<in> set (os @ [m]). m' field = Some w) \<and>
        (\<forall>m' \<in> set (os @ [m]). \<forall>x. m' field = Some x \<longrightarrow> originRank x \<le> originRank w)"
  proof (cases "m field")
    case None
    then show ?thesis using before by (cases "verdict field") (auto simp: mergeOrigins_def)
  next
    case (Some x)
    show ?thesis
    proof (cases "verdict field")
      case None
      then show ?thesis using before Some by (auto simp: mergeOrigins_def)
    next
      case (Some w)
      with \<open>m field = Some x\<close> before show ?thesis
        by (cases "originRank x > originRank w") (fastforce simp: mergeOrigins_def)+
    qed
  qed
qed

definition report_true :: "RebuildReport \<Rightarrow> bool" where
  "report_true r \<longleftrightarrow>
     rbr_Stored r + rbr_Skipped r = length (rbr_Heads r) \<and> weakest (map rh_Origins (rbr_Heads r)) (rbr_Origins r)"

lemma rebuild_each_report:
  "report_true report \<Longrightarrow> rebuild_each E backlinks req groups report s = (Inr report', s') \<Longrightarrow>
     report_true report' \<and> length (rbr_Heads report') = length (rbr_Heads report) + length groups \<and>
     rbr_Sessions report' = rbr_Sessions report \<and> rbr_Chunks report' = rbr_Chunks report"
proof (induction groups arbitrary: report s)
  case (Cons g groups)
  obtain i chunks where g: "g = (i, chunks)" by (cases g)
  obtain head s1 where r: "rebuild_each E backlinks req groups (count_head chunks head report) s1 = (Inr report', s')"
    using Cons.prems(2) by (auto simp: g bind_io_def split: prod.splits sum.splits)
  have "report_true (count_head chunks head report)"
    using Cons.prems(1) weakest_merge by (auto simp: report_true_def count_head_def)
  from Cons.IH [OF this r] show ?case by (simp add: count_head_def)
qed (simp add: ret_io_def)

lemma group_loop_report:
  "group_loop E ids groups report s = Some (Inr (groups', report'), s') \<Longrightarrow>
     rbr_Stored report' = rbr_Stored report \<and> rbr_Skipped report' = rbr_Skipped report \<and>
     rbr_Heads report' = rbr_Heads report \<and> rbr_Origins report' = rbr_Origins report \<and>
     rbr_Chunks report' + rbr_Unreadable report' \<le> rbr_Chunks report + rbr_Unreadable report + length ids"
proof (induction ids arbitrary: groups report s)
  case Nil
  then show ?case by (simp add: ret_pio_def run_pio_def ret_io_def)
next
  case (Cons i ids)
  obtain r s1 where v: "Vault_chunk E i s = Some (r, s1)"
    using Cons.prems by (cases "Vault_chunk E i s") (auto simp: bind_pio_def outcome_pio_def)
  show ?case
  proof (cases r)
    case (Inl e)
    then have "group_loop E ids groups (report\<lparr>rbr_Unreadable := rbr_Unreadable report + 1\<rparr>) s1 = Some (Inr (groups', report'), s')"
      using Cons.prems v by (simp add: bind_pio_def outcome_pio_def)
    from Cons.IH [OF this] show ?thesis by simp
  next
    case (Inr chunk)
    show ?thesis
    proof (cases "ID_IsZero (chk_Session chunk)")
      case True
      then have "group_loop E ids groups report s1 = Some (Inr (groups', report'), s')"
        using Cons.prems v Inr by (simp add: bind_pio_def outcome_pio_def)
      from Cons.IH [OF this] show ?thesis by simp
    next
      case False
      then have "group_loop E ids (file_chunk chunk groups) (report\<lparr>rbr_Chunks := rbr_Chunks report + 1\<rparr>) s1 = Some (Inr (groups', report'), s')"
        using Cons.prems v Inr by (simp add: bind_pio_def outcome_pio_def)
      from Cons.IH [OF this] show ?thesis by simp
    qed
  qed
qed

text \<open>Every chunk that was read is filed under one session.\<close>

definition filed :: "(ID \<times> Chunk list) list \<Rightarrow> nat" where
  "filed groups = sum_list (map (\<lambda>(i, chunks). length chunks) groups)"

lemma file_chunk_keys: "set (map fst (file_chunk chunk groups)) = insert (chk_Session chunk) (set (map fst groups))"
  by (induction chunk groups rule: file_chunk.induct) auto

lemma file_chunk_filed:
  "distinct (map fst groups) \<Longrightarrow>
     distinct (map fst (file_chunk chunk groups)) \<and> filed (file_chunk chunk groups) = filed groups + 1"
proof (induction chunk groups rule: file_chunk.induct)
  case (2 chunk i chunks groups)
  then show ?case using file_chunk_keys [of chunk groups] by (auto simp: filed_def)
qed (simp add: filed_def)

lemma group_loop_filed:
  "group_loop E ids groups report s = Some (Inr (groups', report'), s') \<Longrightarrow> distinct (map fst groups) \<Longrightarrow>
     distinct (map fst groups') \<and> rbr_Chunks report' + filed groups = rbr_Chunks report + filed groups'"
proof (induction ids arbitrary: groups report s)
  case Nil
  then show ?case by (simp add: ret_pio_def run_pio_def ret_io_def)
next
  case (Cons i ids)
  obtain r s1 where v: "Vault_chunk E i s = Some (r, s1)"
    using Cons.prems(1) by (cases "Vault_chunk E i s") (auto simp: bind_pio_def outcome_pio_def)
  show ?case
  proof (cases "\<exists>chunk. r = Inr chunk \<and> \<not> ID_IsZero (chk_Session chunk)")
    case True
    then obtain chunk where r: "r = Inr chunk" "\<not> ID_IsZero (chk_Session chunk)" by blast
    then have rest: "group_loop E ids (file_chunk chunk groups) (report\<lparr>rbr_Chunks := rbr_Chunks report + 1\<rparr>) s1 =
        Some (Inr (groups', report'), s')"
      using Cons.prems(1) v by (simp add: bind_pio_def outcome_pio_def)
    note step = file_chunk_filed [OF Cons.prems(2), of chunk]
    from Cons.IH [OF rest] step show ?thesis by simp
  next
    case False
    then have "\<exists>r1. group_loop E ids groups r1 s1 = Some (Inr (groups', report'), s') \<and> rbr_Chunks r1 = rbr_Chunks report"
      using Cons.prems(1) v by (cases r) (auto simp: bind_pio_def outcome_pio_def split: if_splits)
    then obtain r1 where r1: "group_loop E ids groups r1 s1 = Some (Inr (groups', report'), s')"
      "rbr_Chunks r1 = rbr_Chunks report" by blast
    from Cons.IH [OF r1(1) Cons.prems(2)] r1(2) show ?thesis by simp
  qed
qed

lemma existing_head_ID:
  assumes "(case existing of
       Inr found \<Rightarrow>
          bind_io (json_io (ve_sessionJSON E found)) (\<lambda>previous.
          let session = session1\<lparr>ses_Version := ses_Version previous + 1\<rparr> in
          bind_io (json_io (ve_jsonSession E session)) (\<lambda>head. ret_io (session, head, ses_Version previous)))
     | Inl e \<Rightarrow> if e = ErrNotFound then ret_io (session1, head0, 0) else fail_io (VeLocal e)) s = (Inr (stored, rest), s')"
  shows "ses_ID stored = ses_ID session1"
  using assms
  by (auto simp: bind_io_def json_io_def ret_io_def fail_io_def Let_def split: sum.splits option.splits if_splits prod.splits)

lemma storeRebuiltHead_ID:
  assumes "storeRebuiltHead E session emb s = (Inr stored, s')" shows "ses_ID stored = ses_ID session"
proof (cases emb)
  case True
  from assms [unfolded storeRebuiltHead_def Let_def] True show ?thesis
    by (elim bind_io_InrE) (auto simp: ret_io_def elim!: bind_io_InrE dest!: existing_head_ID [unfolded Let_def])
next
  case False
  from assms [unfolded storeRebuiltHead_def Let_def] False show ?thesis
    by (elim bind_io_InrE) (auto simp: ret_io_def elim!: bind_io_InrE dest!: existing_head_ID [unfolded Let_def])
qed

lemma rebuildHead_head:
  assumes "rebuildHead E i chunks backlinks req s = (Inr head, s')"
  shows "rh_Chunks head = length chunks \<and> ses_ID (rh_Session head) = i"
proof -
  obtain built s1 where p: "rebuild_plan E i chunks backlinks = Inr built"
    using assms by (auto simp: rebuildHead_def bind_io_def lift_io_def split: prod.splits sum.splits)
  have b: "rh_Chunks built = length chunks" "ses_ID (rh_Session built) = i"
    using p by (auto simp: rebuild_plan_def bind_result_def Let_def rebuilt_session_def split: if_splits sum.splits option.splits)
  from assms p b show ?thesis
    by (auto simp: rebuildHead_def ret_io_def dest!: storeRebuiltHead_ID split: if_splits elim!: bind_io_InrE)
qed

lemma rebuild_each_heads:
  "rebuild_each E backlinks req groups report s = (Inr report', s') \<Longrightarrow>
     map (\<lambda>h. (ses_ID (rh_Session h), rh_Chunks h)) (rbr_Heads report') =
       map (\<lambda>h. (ses_ID (rh_Session h), rh_Chunks h)) (rbr_Heads report) @ map (\<lambda>(i, chunks). (i, length chunks)) groups"
proof (induction groups arbitrary: report s)
  case (Cons g groups)
  obtain i chunks where g: "g = (i, chunks)" by (cases g)
  from Cons.prems obtain head s1 where h: "rebuildHead E i chunks (backlinks i) req s = (Inr head, s1)"
    and r: "rebuild_each E backlinks req groups (count_head chunks head report) s1 = (Inr report', s')"
    unfolding g rebuild_each.simps by (rule bind_io_InrE)
  from Cons.IH [OF r] rebuildHead_head [OF h] show ?case by (simp add: count_head_def g)
qed (simp add: ret_io_def)

text \<open>What a report says of the heads it lists.\<close>

definition accounts :: "RebuildReport \<Rightarrow> bool" where
  "accounts r \<longleftrightarrow>
     report_true r \<and> rbr_Sessions r = length (rbr_Heads r) \<and> distinct (map (\<lambda>h. ses_ID (rh_Session h)) (rbr_Heads r)) \<and>
     rbr_Chunks r = sum_list (map rh_Chunks (rbr_Heads r))"

lemma rebuild_accounts:
  assumes "RebuildSessions E req s = Some (Inr report, s')" shows "accounts report"
proof -
  obtain groups r1 s1 where g: "groupChunksBySession E s = Some (Inr (groups, r1), s1)"
    and rest: "bind_io (memoryBacklinks E) (\<lambda>backlinks.
       rebuild_each E backlinks req groups (r1\<lparr>rbr_Sessions := length groups\<rparr>)) s1 = (Inr report, s')"
    using assms by (auto simp: RebuildSessions_def run_pio_def elim!: bind_pio_InrE)
  obtain backlinks s2 where each: "rebuild_each E backlinks req groups (r1\<lparr>rbr_Sessions := length groups\<rparr>) s2 = (Inr report, s')"
    using rest by (rule bind_io_InrE)
  obtain ids gs s0 s4 where loop: "group_loop E ids [] empty_report s0 = Some (Inr (gs, r1), s4)"
    and sorted: "groups = map (\<lambda>(i, chunks). (i, SliceStable by_seq chunks)) gs"
    using g by (auto simp: groupChunksBySession_def ret_pio_def run_pio_def ret_io_def elim!: bind_pio_InrE)
  from group_loop_report [OF loop] have "report_true (r1\<lparr>rbr_Sessions := length groups\<rparr>)" "rbr_Heads r1 = []"
    by (simp_all add: report_true_def empty_report_def weakest_def)
  note end_of = rebuild_each_report [OF this(1) each] this(2)
  from group_loop_filed [OF loop] have filed: "distinct (map fst gs)" "rbr_Chunks r1 = filed gs"
    by (simp_all add: empty_report_def filed_def)
  have heads: "map (\<lambda>h. (ses_ID (rh_Session h), rh_Chunks h)) (rbr_Heads report) = map (\<lambda>(i, chunks). (i, length chunks)) groups"
    using rebuild_each_heads [OF each] end_of(2) by simp
  have "map (fst \<circ> (\<lambda>h. (ses_ID (rh_Session h), rh_Chunks h))) (rbr_Heads report) = map fst gs"
    using arg_cong [OF heads, of "map fst"] sorted by (simp add: comp_def split_def)
  moreover have "map (snd \<circ> (\<lambda>h. (ses_ID (rh_Session h), rh_Chunks h))) (rbr_Heads report) = map (\<lambda>(i, chunks). length chunks) gs"
    using arg_cong [OF heads, of "map snd"] sorted by (simp add: comp_def split_def)
  ultimately show ?thesis
    using end_of filed by (simp add: accounts_def comp_def filed_def split_def)
qed

text \<open>
  C20. The report of a rebuild is a true account. It lists one head for each session it found and no
  session twice; each was either stored or left as it was; every chunk it read and counted went into
  exactly one of them; and the origin it gives a field is the weakest any of those heads has for it.
\<close>

theorem rebuild_report_true:
  "case RebuildSessions E req s of
     None \<Rightarrow> True
   | Some (Inl e, s') \<Rightarrow> True
   | Some (Inr report, s') \<Rightarrow>
       rbr_Stored report + rbr_Skipped report = length (rbr_Heads report) \<and>
       rbr_Sessions report = length (rbr_Heads report) \<and>
       distinct (map (\<lambda>h. ses_ID (rh_Session h)) (rbr_Heads report)) \<and>
       rbr_Chunks report = sum_list (map rh_Chunks (rbr_Heads report)) \<and>
       weakest (map rh_Origins (rbr_Heads report)) (rbr_Origins report)"
  using rebuild_accounts [of E req s]
  by (auto simp: accounts_def report_true_def split: option.split sum.split prod.split)

lemma two_chunks_rebuildable: "rebuildable (replicate 15 0 @ [9]) two_chunks"
  by (simp add: rebuildable_def two_chunks_def said_chunk_def said_message_def sample_message_def wf_chunk_def wf_message_def wf_part_def
    MessageSchema_def KindChunk_def MaxMessageIDBytes_def MaxPartsPerMessage_def Roles_def
    PartToolCall_def PartToolResult_def said_texts sample_id_not_zero)

theorem rebuild_restores_witness:
  "\<exists>built. rebuild_plan sample_venv (replicate 15 0 @ [9]) two_chunks [] = Inr built \<and>
     wf_session (rh_Session built) \<and> restores sample_venv (replicate 15 0 @ [9]) two_chunks (rh_Session built)"
proof -
  have key: "rebuild_plan sample_venv (replicate 15 0 @ [9]) two_chunks [] \<noteq> Inl (VeSeal CIDKey)"
    by (simp add: rebuild_plan_def bind_result_def Let_def two_chunks_def chunkRef_def Sealer_CID_def sample_venv_def
      sample_sealer_def split: option.split)
  show ?thesis
    using rebuild_restores [OF two_chunks_rebuildable, of sample_venv "[]"] key
    by (auto simp: sample_venv_def split: sum.splits)
qed

lemma two_chunks_gap: "hasSequenceGap 0 two_chunks"
  by (simp add: two_chunks_def said_chunk_def)

end
