(* ===== verification/Vault_Browse.thy ===== *)
theory Vault_Browse
  imports Vault_Core
begin

text \<open>
  What the vault holds, by metadata (\<open>vault/browse.go\<close>), and what a write is told about the records
  around it (\<open>vault/neighbours.go\<close>).
\<close>

section \<open>Listing\<close>

record BrowseRow =
  bw_ID :: ID
  bw_Kind :: Kind
  bw_Type :: RecType
  bw_Tags :: "string list"
  bw_Created :: Time
  bw_Label :: string
  bw_Superseded :: bool

record RecordCounts =
  rc_Total :: nat
  rc_ByKind :: "Kind \<rightharpoonup> nat"

text \<open>The total is a sum over the kinds of the map: the kinds of a vault are those a record can have.\<close>

definition CountRecords :: "('m, RecordCounts) vop" where
  "CountRecords =
     bind_io (on_local CountRecordsByKind) (\<lambda>byKind.
     ret_io \<lparr>rc_Total = (\<Sum>k \<in> dom byKind. the (byKind k)), rc_ByKind = byKind\<rparr>)"

definition Vault_label :: "('m, 'o) venv \<Rightarrow> RecordRow \<Rightarrow> ('m, string) vop" where
  "Vault_label E r =
     (if rrw_Kind r = KindSession
      then bind_io (outcome (SessionTitle (rrw_ID r))) (\<lambda>got. ret_io (case got of Inl _ \<Rightarrow> '''' | Inr title \<Rightarrow> title))
      else bind_io (outcome (GetBody (rrw_ID r))) (\<lambda>got.
        ret_io (case got of
          Inl _ \<Rightarrow> ''''
        | Inr body \<Rightarrow> (case ve_memoryJSON E body of None \<Rightarrow> '''' | Some memory \<Rightarrow> mem_Statement memory))))"

fun label_rows :: "('m, 'o) venv \<Rightarrow> RecordRow list \<Rightarrow> ('m, BrowseRow list) vop" where
  "label_rows E [] = ret_io []"
| "label_rows E (r # rows) =
     bind_io (Vault_label E r) (\<lambda>label.
     bind_io (label_rows E rows) (\<lambda>rest.
     ret_io (\<lparr>bw_ID = rrw_ID r, bw_Kind = rrw_Kind r, bw_Type = rrw_Type r, bw_Tags = rrw_Tags r,
       bw_Created = rrw_Created r, bw_Label = label, bw_Superseded = rrw_Superseded r\<rparr> # rest)))"

definition Vault_Browse :: "('m, 'o) venv \<Rightarrow> RecordQuery \<Rightarrow> ('m, BrowseRow list \<times> string) vop" where
  "Vault_Browse E query =
     bind_io (on_local (ListRecords (ve_u E) query)) (\<lambda>(rows, nxt).
     bind_io (label_rows E rows) (\<lambda>out. ret_io (out, nxt)))"

section \<open>Neighbours\<close>

definition NeighbourLimit :: nat where "NeighbourLimit = 5"

text \<open>The \<open>float32\<close> value nearest to 0.90.\<close>

definition ConflictSimilarity :: float32 where "ConflictSimilarity = 1063675494"

definition TagAdviceMinRecords :: nat where "TagAdviceMinRecords = 30"

record Neighbour =
  nb_ID :: ID
  nb_Type :: RecType
  nb_Tags :: "string list"
  nb_Statement :: string
  nb_Similarity :: float32
  nb_Conflict :: bool

definition neighbour_statement :: "('m, 'o) venv \<Rightarrow> ID \<Rightarrow> ('m, string) vop" where
  "neighbour_statement E i =
     bind_io (outcome (GetBody i)) (\<lambda>got.
     ret_io (case got of
       Inl _ \<Rightarrow> ''''
     | Inr body \<Rightarrow> (case ve_memoryJSON E body of None \<Rightarrow> '''' | Some memory \<Rightarrow> mem_Statement memory)))"

fun neighbour_loop ::
  "('m, 'o) venv \<Rightarrow> ID \<Rightarrow> (ID \<rightharpoonup> RankingMeta) \<Rightarrow> Match list \<Rightarrow> Neighbour list \<Rightarrow> ('m, Neighbour list) vop" where
  "neighbour_loop E self metas [] out = ret_io out"
| "neighbour_loop E self metas (match # matches) out =
     (if mt_ID match = self \<or> length out = NeighbourLimit then neighbour_loop E self metas matches out
      else bind_io (neighbour_statement E (mt_ID match)) (\<lambda>statement.
        neighbour_loop E self metas matches
          (out @ [\<lparr>nb_ID = mt_ID match,
             nb_Type = (case metas (mt_ID match) of None \<Rightarrow> '''' | Some m \<Rightarrow> rm_Type m),
             nb_Tags = (case metas (mt_ID match) of None \<Rightarrow> [] | Some m \<Rightarrow> rm_Tags m),
             nb_Statement = statement, nb_Similarity = mt_Score match,
             nb_Conflict = (f32_lt ConflictSimilarity (mt_Score match) \<or> f32_eq ConflictSimilarity (mt_Score match))\<rparr>])))"

definition Vault_neighbours :: "('m, 'o) venv \<Rightarrow> ID \<Rightarrow> float32 list \<Rightarrow> ('m, Neighbour list) vop" where
  "Vault_neighbours E self vector =
     bind_io (get_io (\<lambda>s. Index_Search (vs_index (wl_net s)) vector (int (NeighbourLimit + 1)))) (\<lambda>found.
     case found of
       Inl e \<Rightarrow> fail_io (VeIndex e)
     | Inr matches \<Rightarrow>
         bind_io (on_local (Store_Describe (filter (\<lambda>i. i \<noteq> self) (map mt_ID matches)))) (\<lambda>described.
         neighbour_loop E self (ld_Meta described) matches []))"

section \<open>Tags\<close>

text \<open>
  \<open>Share > TagCommonShare\<close> compares a quotient of two counts rounded to \<open>float64\<close> with a quarter.
  Rounding to nearest is monotone and a quarter is a \<open>float64\<close>, so a quotient above it never rounds
  below it, and for counts under 2^51 never to it, since the quotient differs from a quarter by at
  least \<open>1 / (4 * total)\<close>: the comparison is \<open>total < 4 * records\<close>.
\<close>

record TagSpecificity =
  ts_Tag :: string
  ts_Records :: nat
  ts_Share :: "nat \<times> nat"
  ts_TooCommon :: bool
  ts_New :: bool

record TagAdvice =
  ta_Records :: nat
  ta_Tags :: "TagSpecificity list"
  ta_Discriminating :: nat

definition common_share :: "nat \<Rightarrow> nat \<Rightarrow> bool" where
  "common_share records entries \<longleftrightarrow> entries > 0 \<and> entries < 4 * records"

definition NeedsNarrowerTags :: "TagAdvice \<Rightarrow> bool" where
  "NeedsNarrowerTags a \<longleftrightarrow> ta_Records a \<ge> TagAdviceMinRecords \<and> length (ta_Tags a) > 0 \<and> ta_Discriminating a = 0"

definition specificity :: "nat \<Rightarrow> TagCount \<Rightarrow> TagSpecificity" where
  "specificity entries c =
     \<lparr>ts_Tag = tc_Tag c, ts_Records = tc_Records c, ts_Share = (if entries > 0 then (tc_Records c, entries) else (0, 1)),
      ts_TooCommon = (tc_Records c \<noteq> 0 \<and> entries \<ge> TagAdviceMinRecords \<and> common_share (tc_Records c) entries),
      ts_New = (tc_Records c = 0)\<rparr>"

definition advise :: "nat \<Rightarrow> TagCount list \<Rightarrow> TagAdvice" where
  "advise entries counts =
     \<lparr>ta_Records = entries, ta_Tags = map (specificity entries) counts,
      ta_Discriminating = length (filter (\<lambda>c. \<not> ts_TooCommon (specificity entries c)) counts)\<rparr>"

definition Vault_tagAdvice :: "('m, 'o) venv \<Rightarrow> ID \<Rightarrow> string list \<Rightarrow> ('m, TagAdvice) vop" where
  "Vault_tagAdvice E self tags =
     bind_io (on_local (TagFrequencies (ve_u E) self tags)) (\<lambda>(counts, entries). ret_io (advise entries counts))"

definition TagVocabulary :: "int \<Rightarrow> ('m, TagSpecificity list) vop" where
  "TagVocabulary limit =
     bind_io (on_local (VocabularyTags limit)) (\<lambda>counts.
     bind_io (on_local CountRecordMeta) (\<lambda>entries.
     ret_io (map (\<lambda>c. (specificity entries c)\<lparr>ts_New := False\<rparr>) counts)))"

end
