(* ===== verification/Vault_Remember.thy ===== *)
theory Vault_Remember
  imports Vault_Browse
begin

text \<open>Storing a memory (\<open>vault/remember.go\<close>).\<close>

record RememberRequest =
  rb_Statement :: string
  rb_Context :: string
  rb_Type :: RecType
  rb_Tags :: "string list"
  rb_Source :: Source
  rb_Supersedes :: "ID option"
  rb_Importance :: float64
  rb_Confidence :: float64
  rb_Links :: "string list"
  rb_ValidFrom :: "Time option"
  rb_ValidUntil :: "Time option"
  rb_Entities :: "Entity list"
  rb_Keywords :: "string list"

record RememberResult =
  rs_ID :: ID
  rs_CID :: CID
  rs_Stored :: Time
  rs_OnNetwork :: bool
  rs_Flushed :: "Flush option"
  rs_Neighbours :: "Neighbour list"
  rs_Conflicts :: "Neighbour list"
  rs_Tags :: TagAdvice
  rs_LinkedSession :: "ID option"

definition new_memory :: "('m, 'o) venv \<Rightarrow> RememberRequest \<Rightarrow> ID \<Rightarrow> Time \<Rightarrow> Memory" where
  "new_memory E req i now =
     \<lparr>mem_ID = i, mem_Kind = KindMemory, mem_Type = rb_Type req, mem_SchemaVersion = SchemaVersion, mem_Version = 1,
      mem_Statement = rb_Statement req, mem_Context = rb_Context req, mem_Keywords = rb_Keywords req,
      mem_Tags = NormalizeTags (ve_u E) (rb_Tags req), mem_Entities = rb_Entities req, mem_CreatedAt = now,
      mem_UpdatedAt = now, mem_ValidFrom = rb_ValidFrom req, mem_ValidUntil = rb_ValidUntil req,
      mem_LastRecalledAt = None, mem_RecallCount = 0, mem_Importance = rb_Importance req,
      mem_Confidence = rb_Confidence req, mem_Supersedes = rb_Supersedes req, mem_SupersededBy = None,
      mem_Links = rb_Links req, mem_Source = rb_Source req, mem_Embedding = Vault_embedding E\<rparr>"

definition validate_io :: "invalid option \<Rightarrow> ('m, unit) vop" where
  "validate_io v = (case v of Some e \<Rightarrow> fail_io (VeInvalid e) | None \<Rightarrow> ret_io ())"

text \<open>What a memory names has to be here before any of it is written.\<close>

definition check_supersedes :: "Memory \<Rightarrow> ('m, unit) vop" where
  "check_supersedes memory =
     (case mem_Supersedes memory of
        None \<Rightarrow> ret_io ()
      | Some older \<Rightarrow> bind_io (on_local (RankingMetaFor older)) (\<lambda>_. ret_io ()))"

definition check_source :: "('m, 'o) venv \<Rightarrow> Memory \<Rightarrow> ('m, ID option) vop" where
  "check_source E memory =
     (if src_SessionID (mem_Source memory) = '''' then ret_io None
      else case ParseID (src_SessionID (mem_Source memory)) of
        Inl e \<Rightarrow> fail_io (VeID e)
      | Inr sessionID \<Rightarrow> bind_io (Vault_Session E sessionID) (\<lambda>_. ret_io (Some sessionID)))"

text \<open>A record sealed and framed, and its content address.\<close>

definition seal_record :: "('m, 'o) venv \<Rightarrow> Kind \<Rightarrow> ID \<Rightarrow> bytes \<Rightarrow> ('m, CID \<times> bytes) vop" where
  "seal_record E kind i body =
     bind_io (seal_io (Sealer_CID (ve_crypto E) (ve_sealer E) body)) (\<lambda>cid.
     bind_io (Vault_Seal E body) (\<lambda>sealed.
     bind_io (seal_io (FrameRecord kind i sealed)) (\<lambda>fr.
     ret_io (cid, fr))))"

definition written_cids :: "PkResult \<Rightarrow> string list" where
  "written_cids result = map wr_CID (fu_Written (ps_Flush result))"

definition link_source :: "('m, 'o) venv \<Rightarrow> (nat \<Rightarrow> 'm vworld \<Rightarrow> 'm vworld) \<Rightarrow> ID option \<Rightarrow> ID \<Rightarrow> ('m, unit) vop" where
  "link_source E others src i = (case src of None \<Rightarrow> ret_io () | Some sessionID \<Rightarrow> LinkMemory E others sessionID i)"

text \<open>Everything up to the queue, then the queue, then the report.\<close>

definition write_memory :: "('m, 'o) venv \<Rightarrow> Memory \<Rightarrow> float32 list \<Rightarrow> ('m, CID \<times> bytes) vop" where
  "write_memory E memory vector =
     bind_io (json_io (ve_jsonMemory E memory)) (\<lambda>body.
     bind_io (seal_record E KindMemory (mem_ID memory) body) (\<lambda>(cid, fr).
     bind_io (on_local (PutBody (mem_ID memory) KindMemory body)) (\<lambda>_.
     bind_io (putVector E (mem_ID memory) vector) (\<lambda>_.
     bind_io (put_ranking E (rankingMeta memory)) (\<lambda>_.
     ret_io (cid, fr))))))"

definition report_memory ::
  "('m, 'o) venv \<Rightarrow> Memory \<Rightarrow> float32 list \<Rightarrow> Time \<Rightarrow> CID \<Rightarrow> ID option \<Rightarrow> PkResult \<Rightarrow> ('m, RememberResult) vop" where
  "report_memory E memory vector now cid src flushed =
     bind_io (Vault_neighbours E (mem_ID memory) vector) (\<lambda>neighbours.
     bind_io (Vault_tagAdvice E (mem_ID memory) (mem_Tags memory)) (\<lambda>advice.
     let written = CID_String cid \<in> set (written_cids flushed) in
     ret_io \<lparr>rs_ID = mem_ID memory, rs_CID = cid, rs_Stored = now, rs_OnNetwork = written,
       rs_Flushed = (if written then Some (ps_Flush flushed) else None), rs_Neighbours = neighbours,
       rs_Conflicts = filter nb_Conflict neighbours, rs_Tags = advice, rs_LinkedSession = src\<rparr>))"

definition Remember ::
  "('m, 'o) venv \<Rightarrow> (nat \<Rightarrow> 'm vworld \<Rightarrow> 'm vworld) \<Rightarrow> RememberRequest \<Rightarrow> ('m, RememberResult) vop" where
  "Remember E others req =
     bind_io NewID (\<lambda>i.
     bind_io (on_local record_Now) (\<lambda>now.
     let memory = new_memory E req i now in
     bind_io (validate_io (Memory_Validate memory)) (\<lambda>_.
     bind_io (check_supersedes memory) (\<lambda>_.
     bind_io (check_source E memory) (\<lambda>src.
     bind_io (Vault_EmbedOne E (Memory_IndexText memory)) (\<lambda>vector.
     bind_io (write_memory E memory vector) (\<lambda>(cid, fr).
     bind_io (queue_record E i KindMemory (CID_String cid) fr) (\<lambda>flushed.
     bind_io (link_source E others src i) (\<lambda>_.
     report_memory E memory vector now cid src flushed)))))))))"

end
