(* ===== verification/Vault_Save.thy ===== *)
theory Vault_Save
  imports Vault_Remember
begin

text \<open>
  Storing and forgetting a conversation (\<open>vault/session.go\<close>): a small head and ordered immutable
  chunks. A save seals and queues its chunks before it writes the head that names them, and takes
  them back when it stops before that.
\<close>

record SaveSessionRequest =
  sv_ID :: ID
  sv_Title :: string
  sv_Summary :: string
  sv_Tags :: "string list"
  sv_Project :: Project
  sv_Agent :: Agent
  sv_Models :: "string list"
  sv_Kind :: SessionKind
  sv_AgentRef :: "AgentRef option"
  sv_Lineage :: Lineage
  sv_Messages :: "Message list"
  sv_PreservedTail :: "string list"
  sv_TokensIn :: int
  sv_TokensOut :: int
  sv_DurationMS :: int
  sv_Archived :: bool
  sv_Unarchive :: bool
  sv_Durable :: bool

record SaveSessionResult =
  sx_ID :: ID
  sx_Version :: int
  sx_Title :: string
  sx_Chunks :: "ChunkRef list"
  sx_Messages :: int
  sx_Bytes :: int
  sx_OnNetwork :: bool
  sx_Flushed :: "Flush option"

section \<open>The head being written\<close>

definition empty_session :: "('m, 'o) venv \<Rightarrow> SaveSessionRequest \<Rightarrow> ID \<Rightarrow> Time \<Rightarrow> Session" where
  "empty_session E req i now =
     \<lparr>ses_ID = i, ses_Schema = MessageSchema, ses_SchemaVersion = SchemaVersion, ses_Version = 1, ses_Title = '''',
      ses_Summary = '''', ses_Tags = [], ses_Project = \<lparr>prj_CWD = '''', prj_Repo = '''', prj_Branch = ''''\<rparr>,
      ses_Created = now, ses_Updated = now, ses_Archived = False, ses_Agent = \<lparr>agt_Name = '''', agt_Version = ''''\<rparr>,
      ses_Models = [],
      ses_Counts = \<lparr>cnt_Messages = 0, cnt_Chunks = 0, cnt_Bytes = 0, cnt_TokensIn = 0, cnt_TokensOut = 0, cnt_DurationMS = 0\<rparr>,
      ses_Kind = (if sv_Kind req = '''' then SessionMain else sv_Kind req), ses_AgentRef = sv_AgentRef req,
      ses_Lineage = sv_Lineage req, ses_HeadMessage = '''', ses_PreservedTail = [], ses_Chunks = [],
      ses_Links = \<lparr>lnk_Memories = []\<rparr>, ses_Embedding = Vault_embedding E\<rparr>"

definition openSession :: "('m, 'o) venv \<Rightarrow> SaveSessionRequest \<Rightarrow> ('m, Session \<times> int) vop" where
  "openSession E req =
     (if \<not> ID_IsZero (sv_ID req) then
        bind_io (Vault_Session E (sv_ID req)) (\<lambda>session.
        ret_io (session\<lparr>ses_Version := ses_Version session + 1, ses_Embedding := Vault_embedding E\<rparr>, ses_Version session))
      else
        bind_io NewID (\<lambda>i.
        bind_io (on_local record_Now) (\<lambda>now. ret_io (empty_session E req i now, 0))))"

definition appendUnique :: "string list \<Rightarrow> string \<Rightarrow> string list" where
  "appendUnique list v = (if v \<in> set list then list else list @ [v])"

definition message_models :: "Message list \<Rightarrow> string list" where
  "message_models messages = filter (\<lambda>model. model \<noteq> '''') (map (\<lambda>m. meta_Model (msg_Meta m)) messages)"

definition applyHeadUpdates :: "(string \<Rightarrow> string) \<Rightarrow> Session \<Rightarrow> SaveSessionRequest \<Rightarrow> Time \<Rightarrow> Session" where
  "applyHeadUpdates u session req now =
     session\<lparr>ses_Title := (if sv_Title req \<noteq> '''' then sv_Title req else ses_Title session),
       ses_Summary := (if sv_Summary req \<noteq> '''' then sv_Summary req else ses_Summary session),
       ses_Tags := (if length (sv_Tags req) > 0 then NormalizeTags u (sv_Tags req) else ses_Tags session),
       ses_Project := (if \<not> Project_Empty (sv_Project req) then sv_Project req else ses_Project session),
       ses_Agent := (if agt_Name (sv_Agent req) \<noteq> '''' then sv_Agent req else ses_Agent session),
       ses_AgentRef := (if sv_AgentRef req \<noteq> None then sv_AgentRef req else ses_AgentRef session),
       ses_Models := foldl appendUnique (foldl appendUnique (ses_Models session) (sv_Models req)) (message_models (sv_Messages req)),
       ses_PreservedTail := (if length (sv_PreservedTail req) > 0 then sv_PreservedTail req else ses_PreservedTail session),
       ses_HeadMessage := (if length (sv_Messages req) > 0 then msg_ID (last (sv_Messages req)) else ses_HeadMessage session),
       ses_Counts := (ses_Counts session)\<lparr>cnt_Chunks := int (length (ses_Chunks session)),
         cnt_TokensIn := cnt_TokensIn (ses_Counts session) + sv_TokensIn req,
         cnt_TokensOut := cnt_TokensOut (ses_Counts session) + sv_TokensOut req,
         cnt_DurationMS := cnt_DurationMS (ses_Counts session) + sv_DurationMS req\<rparr>,
       ses_Archived := (if sv_Archived req then True else if sv_Unarchive req then False else ses_Archived session),
       ses_Updated := now\<rparr>"

fun check_append :: "ID \<Rightarrow> string set \<Rightarrow> Message list \<Rightarrow> verr option" where
  "check_append i seen [] = None"
| "check_append i seen (m # messages) =
     (case Message_Validate m of
        Some e \<Rightarrow> Some (VeInvalid e)
      | None \<Rightarrow>
          if msg_ID m \<in> seen then Some (VeRepeated (msg_ID m) i)
          else check_append i (insert (msg_ID m) seen) messages)"

definition chunk_ends :: "ChunkRef list \<Rightarrow> string set" where
  "chunk_ends refs = (set (map ref_First refs) \<union> set (map ref_Last refs)) - {''''}"

definition validateAppend :: "Session \<Rightarrow> Message list \<Rightarrow> verr option" where
  "validateAppend session messages =
     (if length messages = 0 then None
      else check_append (ses_ID session) (chunk_ends (ses_Chunks session)) messages)"

section \<open>Chunks\<close>

record writtenChunk =
  wc_ref :: ChunkRef
  wc_flushed :: PkResult

definition discardChunk :: "('m, 'o) venv \<Rightarrow> ID \<Rightarrow> ('m, unit) vop" where
  "discardChunk E i =
     bind_io (on_local (Packer_Withdraw (Vault_packer E) i)) (\<lambda>_.
     bind_io (catch_io (manifest_Remove E i) (\<lambda>e. if not_catalogued e then ret_io () else fail_io e)) (\<lambda>_.
     on_local (ForgetBody i)))"

fun discard_each :: "('m, 'o) venv \<Rightarrow> ID list \<Rightarrow> ('m, verr list) vop" where
  "discard_each E [] = ret_io []"
| "discard_each E (i # ids) =
     bind_io (outcome (discardChunk E i)) (\<lambda>r.
     bind_io (discard_each E ids) (\<lambda>errs.
     ret_io (case r of Inl e \<Rightarrow> e # errs | Inr _ \<Rightarrow> errs)))"

definition abandon :: "('m, 'o) venv \<Rightarrow> verr \<Rightarrow> ChunkRef list \<Rightarrow> ('m, 'a) vop" where
  "abandon E cause chunks =
     bind_io (discard_each E (map ref_ID chunks)) (\<lambda>errs.
     fail_io (if errs = [] then cause else VeJoined cause errs))"

definition new_chunk :: "Session \<Rightarrow> ID \<Rightarrow> Message list \<Rightarrow> Chunk" where
  "new_chunk session i messages =
     \<lparr>chk_ID = i, chk_Kind = KindChunk, chk_Schema = MessageSchema, chk_SchemaVersion = SchemaVersion,
      chk_Session = ses_ID session, chk_Seq = int (length (ses_Chunks session)), chk_Messages = messages\<rparr>"

definition written_ref :: "Chunk \<Rightarrow> bytes \<Rightarrow> CID \<Rightarrow> ChunkRef" where
  "written_ref chunk body cid =
     \<lparr>ref_ID = chk_ID chunk, ref_Seq = chk_Seq chunk, ref_First = msg_ID (hd (chk_Messages chunk)),
      ref_Last = msg_ID (last (chk_Messages chunk)), ref_N = int (length (chk_Messages chunk)),
      ref_Bytes = int (length body), ref_CID = CID_String cid\<rparr>"

definition queue_chunk :: "('m, 'o) venv \<Rightarrow> ID \<Rightarrow> string \<Rightarrow> bytes \<Rightarrow> ('m, PkResult) vop" where
  "queue_chunk E i cid fr =
     catch_io (queue_record E i KindChunk cid fr) (\<lambda>e.
       bind_io (outcome (discardChunk E i)) (\<lambda>discarded.
       fail_io (case discarded of Inl e' \<Rightarrow> VeJoined e [e'] | Inr _ \<Rightarrow> e)))"

definition writeChunk :: "('m, 'o) venv \<Rightarrow> Session \<Rightarrow> Message list \<Rightarrow> ('m, writtenChunk) vop" where
  "writeChunk E session messages =
     bind_io NewID (\<lambda>i.
     let chunk = new_chunk session i messages in
     bind_io (validate_io (Chunk_Validate chunk)) (\<lambda>_.
     bind_io (json_io (ve_jsonChunk E chunk)) (\<lambda>body.
     bind_io (seal_record E KindChunk i body) (\<lambda>(cid, fr).
     bind_io (on_local (PutBody i KindChunk body)) (\<lambda>_.
     bind_io (queue_chunk E i (CID_String cid) fr) (\<lambda>flushed.
     ret_io \<lparr>wc_ref = written_ref chunk body cid, wc_flushed = flushed\<rparr>))))))"

section \<open>Saving\<close>

definition settle_owed :: "string set \<Rightarrow> Flush option \<Rightarrow> string set" where
  "settle_owed owed flush =
     (case flush of None \<Rightarrow> owed | Some f \<Rightarrow> owed - set (map wr_CID (fu_Written f)))"

definition add_chunk :: "ChunkRef \<Rightarrow> Session \<Rightarrow> Session" where
  "add_chunk ref session =
     session\<lparr>ses_Chunks := ses_Chunks session @ [ref],
       ses_Counts := (ses_Counts session)\<lparr>cnt_Messages := cnt_Messages (ses_Counts session) + ref_N ref,
         cnt_Bytes := cnt_Bytes (ses_Counts session) + ref_Bytes ref\<rparr>\<rparr>"

fun write_groups ::
  "('m, 'o) venv \<Rightarrow> Message list list \<Rightarrow> Session \<Rightarrow> ChunkRef list \<Rightarrow> string set \<Rightarrow> ('m, Session \<times> ChunkRef list \<times> string set) vop" where
  "write_groups E [] session chunks owed = ret_io (session, chunks, owed)"
| "write_groups E (messages # groups) session chunks owed =
     bind_io (catch_io (writeChunk E session messages) (\<lambda>e. abandon E e chunks)) (\<lambda>written.
     write_groups E groups (add_chunk (wc_ref written) session) (chunks @ [wc_ref written])
       (settle_owed (insert (ref_CID (wc_ref written)) owed) (Some (ps_Flush (wc_flushed written)))))"

definition check_parent :: "('m, 'o) venv \<Rightarrow> Session \<Rightarrow> int \<Rightarrow> ('m, unit) vop" where
  "check_parent E session from_version =
     (case lin_ParentSession (ses_Lineage session) of
        None \<Rightarrow> ret_io ()
      | Some parent \<Rightarrow> if from_version = 0 then bind_io (Vault_Session E parent) (\<lambda>_. ret_io ()) else ret_io ())"

definition split_io :: "('m, 'o) venv \<Rightarrow> Message list \<Rightarrow> ('m, Message list list) vop" where
  "split_io E messages =
     (case SplitMessages (\<lambda>m. case ve_jsonMessage E m of None \<Rightarrow> Inl VeJSON | Some b \<Rightarrow> Inr b) messages ChunkTargetBytes of
        Inl e \<Rightarrow> fail_io e
      | Inr groups \<Rightarrow> ret_io groups)"

definition adopt_run :: "('m, 'o) venv \<Rightarrow> (nat \<Rightarrow> 'm vworld \<Rightarrow> 'm vworld) \<Rightarrow> Session \<Rightarrow> int \<Rightarrow> ('m, unit) vop" where
  "adopt_run E others session from_version =
     (case lin_ParentSession (ses_Lineage session) of
        None \<Rightarrow> ret_io ()
      | Some parent \<Rightarrow> if from_version = 0 then adoptChild E others parent (ses_ID session) else ret_io ())"

text \<open>
  The save up to its head, which is written last. Each step before the head abandons the chunks
  when it fails. A write by another process between the read of the head and the write back is
  \<open>others\<close> again.
\<close>

definition write_head ::
  "('m, 'o) venv \<Rightarrow> (nat \<Rightarrow> 'm vworld \<Rightarrow> 'm vworld) \<Rightarrow> SaveSessionRequest \<Rightarrow> Session \<Rightarrow> int \<Rightarrow> ('m, Session \<times> float32 list) vop" where
  "write_head E others req session0 from_version =
     bind_io (on_local record_Now) (\<lambda>now.
     let session = applyHeadUpdates (ve_u E) session0 req now in
     bind_io (validate_io (Session_Validate session)) (\<lambda>_.
     bind_io (Vault_EmbedOne E (Session_IndexText session)) (\<lambda>vector.
     bind_io (put_io (others 0)) (\<lambda>_.
     bind_io (putHead E session from_version) (\<lambda>_.
     ret_io (session, vector))))))"

definition save_transcript ::
  "('m, 'o) venv \<Rightarrow> (nat \<Rightarrow> 'm vworld \<Rightarrow> 'm vworld) \<Rightarrow> SaveSessionRequest \<Rightarrow>
   ('m, Session \<times> int \<times> float32 list \<times> ChunkRef list \<times> string set) vop" where
  "save_transcript E others req =
     bind_io (openSession E req) (\<lambda>(session0, from_version).
     bind_io (case validateAppend session0 (sv_Messages req) of Some e \<Rightarrow> fail_io e | None \<Rightarrow> ret_io ()) (\<lambda>_.
     bind_io (check_parent E session0 from_version) (\<lambda>_.
     bind_io (split_io E (sv_Messages req)) (\<lambda>groups.
     bind_io (write_groups E groups session0 [] {}) (\<lambda>(session1, chunks, owed).
     bind_io (catch_io (write_head E others req session1 from_version) (\<lambda>e. abandon E e chunks)) (\<lambda>(session, vector).
     ret_io (session, from_version, vector, chunks, owed)))))))"

definition save_result :: "Session \<Rightarrow> ChunkRef list \<Rightarrow> string set \<Rightarrow> Flush option \<Rightarrow> SaveSessionResult" where
  "save_result session chunks owed flushed =
     \<lparr>sx_ID = ses_ID session, sx_Version = ses_Version session, sx_Title = ses_Title session, sx_Chunks = chunks,
      sx_Messages = sum_list (map ref_N chunks), sx_Bytes = sum_list (map ref_Bytes chunks),
      sx_OnNetwork = (owed = {}), sx_Flushed = flushed\<rparr>"

text \<open>A durable save whose flush fails has its result beside the error in the source; here the error stands alone.\<close>

definition SaveSession ::
  "('m, 'o) venv \<Rightarrow> (nat \<Rightarrow> 'm vworld \<Rightarrow> 'm vworld) \<Rightarrow> SaveSessionRequest \<Rightarrow> ('m, SaveSessionResult) vpop" where
  "SaveSession E others req =
     bind_pio (run_pio (
       bind_io (save_transcript E others req) (\<lambda>(session, from_version, vector, chunks, owed).
       bind_io (indexHead E session vector) (\<lambda>_.
       bind_io (adopt_run E others session from_version) (\<lambda>_.
       ret_io (session, chunks, owed)))))) (\<lambda>(session, chunks, owed).
     if sv_Durable req \<and> owed \<noteq> {} then
       bind_pio (Vault_Flush E) (\<lambda>flushed. ret_pio (save_result session chunks (settle_owed owed flushed) flushed))
     else ret_pio (save_result session chunks owed None))"

section \<open>Forgetting\<close>

fun forget_chunks :: "('m, 'o) venv \<Rightarrow> ID list \<Rightarrow> ('m, unit) vop" where
  "forget_chunks E [] = ret_io ()"
| "forget_chunks E (i # ids) =
     bind_io (catch_io (manifest_Remove E i) (\<lambda>e. if not_catalogued e then ret_io () else fail_io e)) (\<lambda>_.
     bind_io (on_local (ForgetBody i)) (\<lambda>_. forget_chunks E ids))"

definition ForgetSession :: "('m, 'o) venv \<Rightarrow> (nat \<Rightarrow> 'm vworld \<Rightarrow> 'm vworld) \<Rightarrow> ID \<Rightarrow> ('m, unit) vop" where
  "ForgetSession E others i =
     bind_io (Vault_Session E i) (\<lambda>session.
     let chunks = map ref_ID (ses_Chunks session) in
     bind_io (catch_io (on_local (Packer_WithdrawAll (Vault_packer E) chunks))
       (\<lambda>e. if e = VeLocal ErrClaimed then fail_io (VeClaimed i) else fail_io e)) (\<lambda>_.
     bind_io (forget_chunks E chunks) (\<lambda>_.
     bind_io (case lin_ParentSession (ses_Lineage session) of
         None \<Rightarrow> ret_io () | Some parent \<Rightarrow> disownChild E others parent i) (\<lambda>_.
     bind_io (removeVector E i) (\<lambda>_.
     bind_io (on_local (ForgetRankingMeta i)) (\<lambda>_.
     on_local (ForgetSessionHeadAt i (ses_Version session))))))))"

end
