(* ===== verification/Vault_Load_Spec.thy ===== *)
theory Vault_Load_Spec
  imports Vault_Save Vault_Load Vault_Sample Vault_Rules
begin

text \<open>
  The transcript of a conversation comes back in pages. A page is a stretch of the transcript from
  the message asked for; the pages followed from the first cover it exactly once, provided no two
  messages of the conversation share an id.
\<close>

section \<open>One page of a list of messages\<close>

definition since :: "string \<Rightarrow> bool \<Rightarrow> Message list \<Rightarrow> Message list" where
  "since from_id started ms = (if started then ms else dropWhile (\<lambda>m. msg_ID m \<noteq> from_id) ms)"

lemma since_simps [simp]:
  "since f True ms = ms" "since f st [] = []"
  "since f False (m # ms) = (if msg_ID m = f then m # ms else since f False ms)"
  by (simp_all add: since_def)

lemma page_chunk_append:
  "page_chunk f l (xs @ ys) st out =
     (case page_chunk f l xs st out of
        (o1, st1, Some n) \<Rightarrow> (o1, st1, Some n)
      | (o1, st1, None) \<Rightarrow> page_chunk f l ys st1 o1)"
  by (induction f l xs st out rule: page_chunk.induct) auto

lemma page_chunk_started:
  "page_chunk f l ms True out =
     (if l > 0 \<and> int (length out + length ms) > l \<and> length out \<le> nat l
      then (out @ take (nat l - length out) ms, True, Some (msg_ID (ms ! (nat l - length out))))
      else if l > 0 \<and> length out > nat l \<and> ms \<noteq> [] then (out, True, Some (msg_ID (hd ms)))
      else (out @ ms, True, None))"
proof (induction ms arbitrary: out)
  case (Cons m ms)
  show ?case
  proof (cases "full l out")
    case True
    then show ?thesis by (auto simp: full_def)
  next
    case False
    then have "page_chunk f l (m # ms) True out = page_chunk f l ms True (out @ [m])" by simp
    with Cons [of "out @ [m]"] False show ?thesis
      by (auto simp: full_def take_Cons' nth_Cons' split: nat.splits)
  qed
qed auto

lemma page_chunk_page:
  assumes "l \<le> 0 \<or> int (length out) \<le> l" "st \<or> out = []"
  shows "page_chunk f l ms st out =
     (let r = since f st ms; k = nat l - length out in
      if l > 0 \<and> length r > k then (out @ take k r, True, Some (msg_ID (r ! k)))
      else (out @ r, st \<or> r \<noteq> [], None))"
  using assms
proof (induction ms arbitrary: out st)
  case (Cons m ms)
  show ?case
  proof (cases st)
    case True
    with Cons.prems show ?thesis by (auto simp: page_chunk_started Let_def)
  next
    case False
    then have out: "out = []" using Cons.prems by simp
    show ?thesis
    proof (cases "msg_ID m = f")
      case True
      then have "page_chunk f l (m # ms) st out = page_chunk f l (m # ms) True out" using False by simp
      with True False out show ?thesis by (auto simp: page_chunk_started Let_def)
    next
      case neq: False
      have "l \<le> 0 \<or> 0 \<le> l" by arith
      with Cons.IH [of "[]" False] neq False out show ?thesis by (simp add: Let_def)
    qed
  qed
qed (simp add: Let_def)

lemma page_chunk_end:
  "page_chunk f l ms st out = (o1, st1, None) \<Longrightarrow> st \<or> out = [] \<Longrightarrow> st1 \<or> o1 = []"
  by (induction f l ms st out rule: page_chunk.induct) (auto split: if_splits)

section \<open>A conversation on the device\<close>

text \<open>Every chunk the head names is on the device, holds the messages given, and begins with the one the head says.\<close>

definition chunk_held :: "('m, 'o) venv \<Rightarrow> 'm vworld \<Rightarrow> ChunkRef \<Rightarrow> Message list \<Rightarrow> bool" where
  "chunk_held E s ref ms \<longleftrightarrow>
     (\<exists>b c. sql_row br_ID (ref_ID ref) (dv_bodies s) = Some b \<and> br_Kind b = KindChunk \<and> ve_chunkJSON E (br_Body b) = Some c \<and>
        chk_Messages c = ms) \<and>
     ms \<noteq> [] \<and> ref_First ref = msg_ID (hd ms) \<and> ref_Last ref = msg_ID (last ms)"

definition transcript_held :: "('m, 'o) venv \<Rightarrow> 'm vworld \<Rightarrow> Session \<Rightarrow> Message list list \<Rightarrow> bool" where
  "transcript_held E s session mss \<longleftrightarrow> list_all2 (chunk_held E s) (ses_Chunks session) mss"

lemma chunk_held_cong: "dv_bodies s' = dv_bodies s \<Longrightarrow> chunk_held E s' = chunk_held E s"
  by (auto simp: chunk_held_def fun_eq_iff)

lemma countRead_keeps: "\<exists>s'. countRead tier start s = (Inr (), s') \<and> dv_bodies s' = dv_bodies s"
  by (simp add: countRead_def bind_io_def on_local_def wrap_io_def time_Since_def time_Now_def ret_io_def outcome_def RecordRead_def
    sql_exec_runs)

lemma Vault_chunk_held:
  assumes "chunk_held E s ref ms"
  shows "\<exists>r s'. Vault_chunk E (ref_ID ref) s = Some (r, s') \<and> dv_bodies s' = dv_bodies s \<and>
    (r = Inl (VeLocal DbError) \<or> (\<exists>c. r = Inr c \<and> chk_Messages c = ms))"
proof -
  obtain b c where b: "sql_row br_ID (ref_ID ref) (dv_bodies s) = Some b" "br_Kind b = KindChunk"
    "ve_chunkJSON E (br_Body b) = Some c" "chk_Messages c = ms"
    using assms by (auto simp: chunk_held_def)
  let ?s1 = "s\<lparr>mc_step := mc_step s + 1\<rparr>" and ?s2 = "s\<lparr>mc_step := mc_step s + 2\<rparr>"
  have now: "run_pio (on_local time_Now) s = Some (Inr (dv_clock s (mc_step s)), ?s1)"
    by (simp add: run_pio_def on_local_def wrap_io_def time_Now_def)
  have got: "outcome (GetRecord (ref_ID ref)) ?s1 =
      (Inr (if mc_plan s (mc_step s + 1) = NoFault then Inr (br_Kind b, br_Body b) else Inl DbError), ?s2)"
    using b by (simp add: outcome_def GetRecord_def sql_query_runs bind_io_def ret_io_def)
  show ?thesis
  proof (cases "mc_plan s (mc_step s + 1) = NoFault")
    case False
    then have "fetchBody E (ref_ID ref) s = Some (Inl (VeLocal DbError), ?s2)"
      unfolding fetchBody_def bind_pio_def now by (simp add: run_pio_def got [simplified] fail_pio_def fail_io_def)
    then show ?thesis by (simp add: Vault_chunk_def bind_pio_def)
  next
    case True
    obtain s3 where s3: "countRead TierLocal (dv_clock s (mc_step s)) ?s2 = (Inr (), s3)" "dv_bodies s3 = dv_bodies s"
      using countRead_keeps [of TierLocal "dv_clock s (mc_step s)" ?s2] by auto
    from True have "fetchBody E (ref_ID ref) s = Some (Inr (br_Kind b, br_Body b, TierLocal), s3)"
      unfolding fetchBody_def bind_pio_def now by (simp add: run_pio_def got [simplified] bind_io_def s3 [simplified] ret_io_def)
    then show ?thesis using b s3(2)
      by (simp add: Vault_chunk_def bind_pio_def run_pio_def bind_io_def json_io_def ret_io_def count_read_def put_io_def)
  qed
qed

lemma transcript_loop_held:
  "list_all2 (chunk_held E s) refs mss \<Longrightarrow> st \<or> out = [] \<Longrightarrow>
   \<exists>r s'. transcript_loop E i f l refs st out s = Some (r, s') \<and> dv_bodies s' = dv_bodies s \<and>
     (r = Inl (VeLocal DbError) \<or>
      r = (case page_chunk f l (concat mss) st out of
             (o1, st1, Some n) \<Rightarrow> Inr (o1, True, n)
           | (o1, st1, None) \<Rightarrow> if st1 then Inr (o1, False, '''') else Inl (VeNoMessage i f)))"
proof (induction refs arbitrary: mss st out s)
  case Nil
  then show ?case by (auto simp: fail_pio_def ret_pio_def run_pio_def fail_io_def ret_io_def)
next
  case (Cons ref refs)
  then obtain ms mss' where mss: "mss = ms # mss'" and ref: "chunk_held E s ref ms" and rest: "list_all2 (chunk_held E s) refs mss'"
    by (auto simp: list_all2_Cons1)
  show ?case
  proof (cases "full l out")
    case True
    then have st: st using Cons.prems(2) by (auto simp: full_def)
    have first: "ref_First ref = msg_ID (hd ms)" "ms \<noteq> []" using ref by (auto simp: chunk_held_def)
    have "page_chunk f l (concat mss) st out = (out, True, Some (msg_ID (hd ms)))"
      using True st first(2) by (cases ms) (auto simp: mss)
    then show ?thesis using True first(1) by (simp add: ret_pio_def run_pio_def ret_io_def)
  next
    case False
    obtain r s1 where v: "Vault_chunk E (ref_ID ref) s = Some (r, s1)" "dv_bodies s1 = dv_bodies s"
      and r: "r = Inl (VeLocal DbError) \<or> (\<exists>c. r = Inr c \<and> chk_Messages c = ms)"
      using Vault_chunk_held [OF ref] by blast
    from r show ?thesis
    proof
      assume "r = Inl (VeLocal DbError)"
      then show ?thesis using False v by (simp add: bind_pio_def)
    next
      assume "\<exists>c. r = Inr c \<and> chk_Messages c = ms"
      then obtain c where c: "r = Inr c" "chk_Messages c = ms" by blast
      obtain o1 st1 nx where p: "page_chunk f l ms st out = (o1, st1, nx)" by (cases "page_chunk f l ms st out")
      show ?thesis
      proof (cases nx)
        case (Some n)
        then show ?thesis using False v c p by (simp add: bind_pio_def mss page_chunk_append ret_pio_def run_pio_def ret_io_def)
      next
        case None
        have "st1 \<or> o1 = []" by (rule page_chunk_end [OF p [unfolded None] Cons.prems(2)])
        moreover have held1: "list_all2 (chunk_held E s1) refs mss'" using rest by (simp add: chunk_held_cong [OF v(2)])
        ultimately obtain r2 s2 where r2: "transcript_loop E i f l refs st1 o1 s1 = Some (r2, s2)" "dv_bodies s2 = dv_bodies s1"
          "r2 = Inl (VeLocal DbError) \<or>
           r2 = (case page_chunk f l (concat mss') st1 o1 of
                  (o1, st1, Some n) \<Rightarrow> Inr (o1, True, n)
                | (o1, st1, None) \<Rightarrow> if st1 then Inr (o1, False, '''') else Inl (VeNoMessage i f))"
          using Cons.IH [OF held1, of st1 o1] by blast
        have "transcript_loop E i f l (ref # refs) st out s = Some (r2, s2)"
          using False v(1) c p None r2(1) by (simp add: bind_pio_def)
        moreover have "page_chunk f l (concat mss) st out = page_chunk f l (concat mss') st1 o1"
          using p None by (simp add: mss page_chunk_append)
        ultimately show ?thesis using r2(2,3) v(2) by simp
      qed
    qed
  qed
qed

section \<open>A page of the transcript\<close>

definition page_of :: "ID \<Rightarrow> string \<Rightarrow> int \<Rightarrow> Message list \<Rightarrow> (verr, Message list \<times> bool \<times> string) result" where
  "page_of i from_id limit ms =
     (if from_id \<noteq> '''' \<and> from_id \<notin> set (map msg_ID ms) then Inl (VeNoMessage i from_id)
      else let r = since from_id (from_id = '''') ms in
        if limit > 0 \<and> length r > nat limit then Inr (take (nat limit) r, True, msg_ID (r ! nat limit)) else Inr (r, False, ''''))"

lemma since_Nil_iff: "since f False ms = [] \<longleftrightarrow> f \<notin> set (map msg_ID ms)"
  by (auto simp: since_def)

lemma page_chunk_page_of:
  "(case page_chunk f l ms (f = '''') [] of
      (o1, st1, Some n) \<Rightarrow> Inr (o1, True, n)
    | (o1, st1, None) \<Rightarrow> if st1 then Inr (o1, False, '''') else Inl (VeNoMessage i f)) = page_of i f l ms"
proof -
  have room: "l \<le> 0 \<or> int (length ([] :: Message list)) \<le> l" by auto
  note run = page_chunk_page [OF room, of "f = ''''" f ms]
  show ?thesis
  proof (cases "f = ''''")
    case True
    then show ?thesis using run by (simp add: page_of_def Let_def)
  next
    case False
    then show ?thesis using run since_Nil_iff [of f ms] by (auto simp: page_of_def Let_def)
  qed
qed

lemma start_loop_at:
  "start_loop f k refs = Some n \<Longrightarrow>
     k \<le> n \<and> n - k < length refs \<and> (ref_First (refs ! (n - k)) = f \<or> ref_Last (refs ! (n - k)) = f)"
proof (induction f k refs rule: start_loop.induct)
  case (2 f k ref refs)
  then show ?case
  proof (cases "ref_First ref = f \<or> ref_Last ref = f")
    case False
    with 2 have "Suc k \<le> n \<and> n - Suc k < length refs \<and> (ref_First (refs ! (n - Suc k)) = f \<or> ref_Last (refs ! (n - Suc k)) = f)"
      by simp
    moreover from this have "n - k = Suc (n - Suc k)" by linarith
    ultimately show ?thesis by simp
  qed auto
qed simp

text \<open>Starting at the chunk whose end the head names skips messages that come before the one asked for.\<close>

lemma since_startChunk:
  assumes held: "list_all2 (chunk_held E s) (ses_Chunks session) mss" and ids: "distinct (map msg_ID (concat mss))" and f: "f \<noteq> ''''"
  shows "page_of i f l (concat (drop (startChunk session f) mss)) = page_of i f l (concat mss)"
proof (cases "start_loop f 0 (ses_Chunks session)")
  case None
  then show ?thesis using f by (simp add: startChunk_def)
next
  case (Some n)
  note at = start_loop_at [OF Some]
  have n: "n < length mss" using at list_all2_lengthD [OF held] by simp
  have "chunk_held E s (ses_Chunks session ! n) (mss ! n)" using list_all2_nthD [OF held] at by simp
  then have "f \<in> set (map msg_ID (mss ! n))"
    using at by (auto simp: chunk_held_def)
  moreover have "mss ! n \<in> set (drop n mss)" using Cons_nth_drop_Suc [OF n] by (metis list.set_intros(1))
  ultimately have in_rest: "f \<in> set (map msg_ID (concat (drop n mss)))" by auto
  have split: "concat mss = concat (take n mss) @ concat (drop n mss)" by (metis append_take_drop_id concat_append)
  have not_before: "f \<notin> set (map msg_ID (concat (take n mss)))" using ids in_rest unfolding split by auto
  then have "since f False (concat mss) = since f False (concat (drop n mss))"
    unfolding since_def split by (subst dropWhile_append2) auto
  moreover have "f \<in> set (map msg_ID (concat mss))" using in_rest unfolding split by auto
  ultimately show ?thesis using in_rest f Some by (simp add: page_of_def startChunk_def del: set_map)
qed

lemma Vault_transcript_page:
  assumes held: "transcript_held E s session mss" and ids: "distinct (map msg_ID (concat mss))"
  shows "\<exists>r s'. Vault_transcript E session f l s = Some (r, s') \<and> dv_bodies s' = dv_bodies s \<and>
    (r = Inl (VeLocal DbError) \<or> r = page_of (ses_ID session) f l (concat mss))"
proof -
  let ?n = "startChunk session f"
  have "list_all2 (chunk_held E s) (drop ?n (ses_Chunks session)) (drop ?n mss)"
    using held by (simp add: transcript_held_def list_all2_dropI)
  from transcript_loop_held [OF this, of "f = ''''" "[]" "ses_ID session" f l]
  obtain r s' where r: "Vault_transcript E session f l s = Some (r, s')" "dv_bodies s' = dv_bodies s"
    "r = Inl (VeLocal DbError) \<or> r = page_of (ses_ID session) f l (concat (drop ?n mss))"
    unfolding Vault_transcript_def page_chunk_page_of by blast
  have "page_of (ses_ID session) f l (concat (drop ?n mss)) = page_of (ses_ID session) f l (concat mss)"
    using since_startChunk [OF held [unfolded transcript_held_def] ids] by (cases "f = ''''") (simp_all add: startChunk_def)
  then show ?thesis using r by auto
qed

section \<open>Following the pages\<close>

text \<open>A reader that asks for a page from where the last one ended, at most \<open>n\<close> times. It says whether it got to the end.\<close>

fun replay :: "('m, 'o) venv \<Rightarrow> Session \<Rightarrow> int \<Rightarrow> nat \<Rightarrow> string \<Rightarrow> ('m, Message list \<times> bool) vpop" where
  "replay E session limit 0 from_id = ret_pio ([], False)"
| "replay E session limit (Suc n) from_id =
     bind_pio (Vault_transcript E session from_id limit) (\<lambda>(messages, more, nxt).
     if more then bind_pio (replay E session limit n nxt) (\<lambda>(rest, finished). ret_pio (messages @ rest, finished))
     else ret_pio (messages, True))"

lemma since_nth:
  assumes "distinct (map msg_ID ms)" "k < length ms"
  shows "since (msg_ID (ms ! k)) False ms = drop k ms"
proof -
  let ?P = "\<lambda>m. msg_ID m \<noteq> msg_ID (ms ! k)"
  have before: "?P m" if m: "m \<in> set (take k ms)" for m
  proof -
    obtain j where "j < k" "m = ms ! j" using m assms(2) by (auto simp: in_set_conv_nth)
    then show ?thesis using nth_eq_iff_index_eq [OF assms(1), of j k] assms(2) by auto
  qed
  have "since (msg_ID (ms ! k)) False ms = dropWhile ?P (take k ms @ drop k ms)" by (simp add: since_def)
  also have "\<dots> = dropWhile ?P (drop k ms)" using before by (rule dropWhile_append2)
  also have "\<dots> = drop k ms" unfolding Cons_nth_drop_Suc [OF assms(2), symmetric] by simp
  finally show ?thesis .
qed

text \<open>A page that starts at the \<open>k\<close>-th message: either it is the last or it says where the next one starts.\<close>

definition starts_at :: "string \<Rightarrow> nat \<Rightarrow> Message list \<Rightarrow> bool" where
  "starts_at f k ms \<longleftrightarrow> (f = '''' \<and> k = 0) \<or> (f \<noteq> '''' \<and> k < length ms \<and> f = msg_ID (ms ! k))"

lemma page_of_at:
  assumes "distinct (map msg_ID ms)" "starts_at f k ms" "l > 0"
  shows "page_of i f l ms =
    (if k + nat l < length ms then Inr (take (nat l) (drop k ms), True, msg_ID (ms ! (k + nat l))) else Inr (drop k ms, False, ''''))"
proof (cases "f = ''''")
  case True
  then show ?thesis using assms by (simp add: page_of_def starts_at_def)
next
  case False
  then have k: "k < length ms" "f = msg_ID (ms ! k)" using assms(2) by (auto simp: starts_at_def)
  then have "f \<in> set (map msg_ID ms)" by auto
  then show ?thesis using False assms(3) since_nth [OF assms(1) k(1)] k
    by (auto simp: page_of_def less_diff_conv add.commute)
qed

lemma replay_reads_from:
  assumes ids: "distinct (map msg_ID (concat mss))" "'''' \<notin> set (map msg_ID (concat mss))" and l: "l > 0"
  shows "transcript_held E s session mss \<Longrightarrow> starts_at f k (concat mss) \<Longrightarrow> n > 0 \<Longrightarrow> length (concat mss) \<le> k + n * nat l \<Longrightarrow>
    \<exists>r s'. replay E session l n f s = Some (r, s') \<and>
      (r = Inl (VeLocal DbError) \<or> r = Inr (drop k (concat mss), True))"
proof (induction n arbitrary: f k s)
  case (Suc n)
  let ?ms = "concat mss"
  obtain r s1 where v: "Vault_transcript E session f l s = Some (r, s1)" "dv_bodies s1 = dv_bodies s"
    and r: "r = Inl (VeLocal DbError) \<or> r = page_of (ses_ID session) f l ?ms"
    using Vault_transcript_page [OF Suc.prems(1) ids(1)] by blast
  note at = page_of_at [OF ids(1) Suc.prems(2) l, of "ses_ID session"]
  from r consider "r = Inl (VeLocal DbError)"
    | "r = Inr (drop k ?ms, False, '''')" "\<not> k + nat l < length ?ms"
    | "r = Inr (take (nat l) (drop k ?ms), True, msg_ID (?ms ! (k + nat l)))" "k + nat l < length ?ms"
    unfolding at by (cases "k + nat l < length ?ms") auto
  then show ?case
  proof cases
    case 1
    then show ?thesis using v(1) by (simp add: bind_pio_def)
  next
    case 2
    then show ?thesis using v(1) by (simp add: bind_pio_def ret_pio_def run_pio_def ret_io_def)
  next
    case 3
    have held1: "transcript_held E s1 session mss"
      using Suc.prems(1) by (simp add: transcript_held_def chunk_held_cong [OF v(2)])
    have "msg_ID (?ms ! (k + nat l)) \<in> set (map msg_ID ?ms)" using nth_mem [OF 3(2)] by (simp del: set_concat)
    then have nonempty: "msg_ID (?ms ! (k + nat l)) \<noteq> ''''" using ids(2) by metis
    have nat_l: "0 < nat l" using l by simp
    have bound: "length ?ms \<le> (k + nat l) + n * nat l" using Suc.prems(4) by (simp add: add.assoc)
    then have n: "n > 0" using 3(2) by (cases n) simp_all
    have "starts_at (msg_ID (?ms ! (k + nat l))) (k + nat l) ?ms" using 3(2) nonempty by (simp add: starts_at_def)
    from Suc.IH [OF held1 this n bound] obtain r2 s2
      where r2: "replay E session l n (msg_ID (?ms ! (k + nat l))) s1 = Some (r2, s2)"
        "r2 = Inl (VeLocal DbError) \<or> r2 = Inr (drop (k + nat l) ?ms, True)" by blast
    have "take (nat l) (drop k ?ms) @ drop (k + nat l) ?ms = drop k ?ms"
      by (metis append_take_drop_id drop_drop add.commute)
    then show ?thesis using v(1) 3(1) r2 by (auto simp: bind_pio_def ret_pio_def run_pio_def ret_io_def)
  qed
qed simp

lemma replay_reads_all:
  assumes "transcript_held E s session mss" "distinct (map msg_ID (concat mss))" "'''' \<notin> set (map msg_ID (concat mss))"
    and "l > 0" "n > 0" "length (concat mss) \<le> n * nat l"
  shows "\<exists>r s'. replay E session l n '''' s = Some (r, s') \<and>
    (r = Inl (VeLocal DbError) \<or> r = Inr (concat mss, True))"
  using replay_reads_from [OF assms(2,3,4,1), of "''''" 0 n] assms(5,6) by (simp add: starts_at_def)

text \<open>
  C17. A stored conversation no two of whose messages share an id is read back in pages that lose
  nothing and repeat nothing. (Appends do not enforce the condition, and without it the pages can lose
  messages or never end, as the last section shows.) With every chunk on the device, a page is the stretch of the transcript from
  the message asked for, cut at the limit, with the message the next page starts at; a message the
  conversation does not hold is refused; and a reader that follows the pages from the first gets the
  whole transcript, in order, in as many pages as its length needs. The only other outcome is a
  statement the device refused.
\<close>

theorem session_pages:
  assumes "transcript_held E s session mss" "distinct (map msg_ID (concat mss))" "'''' \<notin> set (map msg_ID (concat mss))"
    and "limit > 0" "n > 0" "length (concat mss) \<le> n * nat limit"
  shows "(\<exists>r s'. Vault_transcript E session from_id limit s = Some (r, s') \<and>
      (r = Inl (VeLocal DbError) \<or> r = page_of (ses_ID session) from_id limit (concat mss))) \<and>
    (\<exists>r s'. replay E session limit n '''' s = Some (r, s') \<and> (r = Inl (VeLocal DbError) \<or> r = Inr (concat mss, True)))"
  using Vault_transcript_page [OF assms(1,2)] replay_reads_all [OF assms] by blast

text \<open>A conversation of two chunks on the sample device.\<close>

definition said_ref :: "Chunk \<Rightarrow> ChunkRef" where
  "said_ref c = \<lparr>ref_ID = chk_ID c, ref_Seq = chk_Seq c, ref_First = msg_ID (hd (chk_Messages c)),
     ref_Last = msg_ID (last (chk_Messages c)), ref_N = int (length (chk_Messages c)), ref_Bytes = 16, ref_CID = ''''\<rparr>"

definition said_session :: "Chunk list \<Rightarrow> Session" where
  "said_session cs = (sample_session 1)\<lparr>ses_Chunks := map said_ref cs\<rparr>"

definition said_venv :: "Chunk list \<Rightarrow> (string set, unit) venv" where
  "said_venv cs = sample_venv\<lparr>ve_chunkJSON := (\<lambda>b. find (\<lambda>c. chk_ID c = b) cs)\<rparr>"

definition said_vault :: "Chunk list \<Rightarrow> string set vworld" where
  "said_vault cs = sample_vault\<lparr>dv_bodies := map (\<lambda>c. \<lparr>br_ID = chk_ID c, br_Kind = KindChunk, br_Body = chk_ID c, br_CreatedAt = 0\<rparr>) cs\<rparr>"

definition short_talk :: "Chunk list" where
  "short_talk = [said_chunk 1 0 [said_message ''a'' ''hello'', said_message ''b'' ''x''], said_chunk 2 1 [said_message ''c'' ''y'']]"

lemmas said_defs = said_chunk_def said_message_def sample_message_def said_ref_def said_session_def said_venv_def said_vault_def

lemma short_talk_held: "transcript_held (said_venv short_talk) (said_vault short_talk) (said_session short_talk) (map chk_Messages short_talk)"
  by (simp add: transcript_held_def chunk_held_def short_talk_def said_defs sql_row_def)

theorem session_pages_witness:
  "\<exists>r s'. replay (said_venv short_talk) (said_session short_talk) 2 2 '''' (said_vault short_talk) = Some (r, s') \<and>
     (r = Inl (VeLocal DbError) \<or> r = Inr (concat (map chk_Messages short_talk), True))"
proof -
  have "distinct (map msg_ID (concat (map chk_Messages short_talk)))" "'''' \<notin> set (map msg_ID (concat (map chk_Messages short_talk)))"
    "length (concat (map chk_Messages short_talk)) \<le> 2 * nat 2"
    by (simp_all add: short_talk_def said_defs)
  from session_pages [OF short_talk_held this(1,2) _ _ this(3), of "''b''"] show ?thesis by simp
qed

section \<open>A conversation with a repeated id\<close>

text \<open>
  Only the ids at the ends of the stored chunks are checked, so a message that repeats an id from the
  middle of one is accepted. The reader can then go round, or miss what lies between the two.
\<close>

definition first_turns :: Chunk where
  "first_turns = said_chunk 1 0 [said_message ''a'' ''x'', said_message ''b'' ''x'', said_message ''c'' ''x'']"

definition later_turns :: "Message list" where
  "later_turns = [said_message ''d'' ''x'', said_message ''b'' ''x'', said_message ''e'' ''x'']"

definition round_talk :: "Chunk list" where "round_talk = [first_turns, said_chunk 2 1 later_turns]"

lemma round_talk_held:
  "transcript_held (said_venv round_talk) (said_vault round_talk) (said_session round_talk) (map chk_Messages round_talk)"
  by (simp add: transcript_held_def chunk_held_def round_talk_def first_turns_def later_turns_def said_defs sql_row_def)

lemma round_talk_page:
  assumes held: "transcript_held E s (said_session round_talk) (map chk_Messages round_talk)"
    and f: "(f, nxt) \<in> {('''', ''b''), (''b'', ''c''), (''c'', ''d''), (''d'', ''b'')}"
  shows "\<exists>r s' m. Vault_transcript E (said_session round_talk) f 1 s = Some (r, s') \<and> dv_bodies s' = dv_bodies s \<and>
    (r = Inl (VeLocal DbError) \<or> r = Inr ([m], True, nxt))"
proof -
  let ?n = "startChunk (said_session round_talk) f"
  have "list_all2 (chunk_held E s) (drop ?n (ses_Chunks (said_session round_talk))) (drop ?n (map chk_Messages round_talk))"
    using held unfolding transcript_held_def by (rule list_all2_dropI)
  from transcript_loop_held [OF this, of "f = ''''" "[]" "ses_ID (said_session round_talk)" f 1] f
  show ?thesis
    by (auto simp: Vault_transcript_def startChunk_def round_talk_def first_turns_def later_turns_def said_defs full_def)
qed

lemma round_talk_round:
  "transcript_held E s (said_session round_talk) (map chk_Messages round_talk) \<Longrightarrow>
   f \<in> {'''', ''b'', ''c'', ''d''} \<Longrightarrow>
   \<exists>r s'. replay E (said_session round_talk) 1 n f s = Some (r, s') \<and> (\<forall>ms. r \<noteq> Inr (ms, True))"
proof (induction n arbitrary: f s)
  case 0
  then show ?case by (simp add: ret_pio_def run_pio_def ret_io_def)
next
  case (Suc n)
  obtain nxt where nxt: "(f, nxt) \<in> {('''', ''b''), (''b'', ''c''), (''c'', ''d''), (''d'', ''b'')}" using Suc.prems(2) by auto
  obtain r s1 m where v: "Vault_transcript E (said_session round_talk) f 1 s = Some (r, s1)" "dv_bodies s1 = dv_bodies s"
    and r: "r = Inl (VeLocal DbError) \<or> r = Inr ([m], True, nxt)"
    using round_talk_page [OF Suc.prems(1) nxt] by blast
  have held1: "transcript_held E s1 (said_session round_talk) (map chk_Messages round_talk)"
    using Suc.prems(1) by (simp add: transcript_held_def chunk_held_cong [OF v(2)])
  have "nxt \<in> {'''', ''b'', ''c'', ''d''}" using nxt by auto
  from Suc.IH [OF held1 this] obtain r2 s2
    where r2: "replay E (said_session round_talk) 1 n nxt s1 = Some (r2, s2)" "\<forall>ms. r2 \<noteq> Inr (ms, True)" by blast
  from r show ?case
  proof
    assume "r = Inl (VeLocal DbError)"
    then show ?thesis using v(1) by (simp add: bind_pio_def)
  next
    assume "r = Inr ([m], True, nxt)"
    then show ?thesis using v(1) r2
      by (cases r2) (auto simp: bind_pio_def ret_pio_def run_pio_def ret_io_def)
  qed
qed

text \<open>
  The other way round: an append that begins with the repeated id. The reader that asks for the
  message after the first one is given the chunk the id begins, and what lies between is skipped.
\<close>

definition skipping_turns :: "Message list" where
  "skipping_turns = [said_message ''b'' ''x'', said_message ''d'' ''x'', said_message ''e'' ''x'']"

definition skipping_talk :: "Chunk list" where "skipping_talk = [first_turns, said_chunk 2 1 skipping_turns]"

lemma skipping_talk_held:
  "transcript_held (said_venv skipping_talk) (said_vault skipping_talk) (said_session skipping_talk) (map chk_Messages skipping_talk)"
  by (simp add: transcript_held_def chunk_held_def skipping_talk_def first_turns_def skipping_turns_def said_defs sql_row_def)

lemma skipping_talk_replay:
  "case replay (said_venv skipping_talk) (said_session skipping_talk) 1 4 [] (said_vault skipping_talk) of
     None \<Rightarrow> False
   | Some (r, s') \<Rightarrow> (case r of Inl e \<Rightarrow> False | Inr (ms, whole) \<Rightarrow> whole \<and> map msg_ID ms = [''a'', ''b'', ''d'', ''e''])"
  by code_simp

lemma accepted_turns:
  "validateAppend (said_session [first_turns]) later_turns = None" "validateAppend (said_session [first_turns]) skipping_turns = None"
proof -
  have "wf_message (said_message ''d'' ''x'')" "wf_message (said_message ''b'' ''x'')" "wf_message (said_message ''e'' ''x'')"
    by (simp_all add: wf_message_def wf_part_def said_message_def sample_message_def MaxMessageIDBytes_def MaxPartsPerMessage_def
      Roles_def PartToolCall_def PartToolResult_def said_texts)
  then have "check_append i seen later_turns = (if ''d'' \<in> seen then Some (VeRepeated ''d'' i)
      else if ''b'' \<in> seen then Some (VeRepeated ''b'' i) else if ''e'' \<in> seen then Some (VeRepeated ''e'' i) else None)"
    and "check_append i seen skipping_turns = (if ''b'' \<in> seen then Some (VeRepeated ''b'' i)
      else if ''d'' \<in> seen then Some (VeRepeated ''d'' i) else if ''e'' \<in> seen then Some (VeRepeated ''e'' i) else None)" for i seen
    by (simp_all add: later_turns_def skipping_turns_def Message_Validate_None_iff [THEN iffD2])
      (simp_all add: said_message_def sample_message_def)
  then show "validateAppend (said_session [first_turns]) later_turns = None" "validateAppend (said_session [first_turns]) skipping_turns = None"
    by (simp_all add: validateAppend_def chunk_ends_def first_turns_def said_defs)
qed

text \<open>
  C21. There are conversations that appends the vault accepts make and that no reader of single messages
  reads as they are stored. An append that repeats the id of a message from the middle of a stored chunk
  is accepted, because only the ids at the ends of the chunks are compared. After \<open>a, b, c\<close>, the messages
  \<open>d, b, e\<close>: the page that stops before the repeated message names an id that the next page finds earlier
  in the transcript, and however many pages the reader takes it does not reach the end. After \<open>a, b, c\<close>,
  the messages \<open>b, d, e\<close>: the reader reaches the end with \<open>a, b, d, e\<close>, and was never given the stored
  \<open>c\<close>.
\<close>

theorem repeated_id_breaks_paging:
  "(\<exists>stored appended talk. validateAppend (said_session [stored]) appended = None \<and>
      map msg_ID (chk_Messages stored) = [''a'', ''b'', ''c''] \<and> map msg_ID appended = [''d'', ''b'', ''e''] \<and>
      map chk_Messages talk = [chk_Messages stored, appended] \<and>
      transcript_held (said_venv talk) (said_vault talk) (said_session talk) (map chk_Messages talk) \<and>
      (\<forall>n. \<exists>r s'. replay (said_venv talk) (said_session talk) 1 n '''' (said_vault talk) = Some (r, s') \<and>
         (\<forall>ms. r \<noteq> Inr (ms, True)))) \<and>
   (\<exists>stored appended talk. validateAppend (said_session [stored]) appended = None \<and>
      map msg_ID (chk_Messages stored) = [''a'', ''b'', ''c''] \<and> map msg_ID appended = [''b'', ''d'', ''e''] \<and>
      map chk_Messages talk = [chk_Messages stored, appended] \<and>
      transcript_held (said_venv talk) (said_vault talk) (said_session talk) (map chk_Messages talk) \<and>
      (\<exists>ms s'. replay (said_venv talk) (said_session talk) 1 4 '''' (said_vault talk) = Some (Inr (ms, True), s') \<and>
         map msg_ID ms = [''a'', ''b'', ''d'', ''e'']))"
proof (intro conjI)
  show "\<exists>stored appended talk. validateAppend (said_session [stored]) appended = None \<and>
      map msg_ID (chk_Messages stored) = [''a'', ''b'', ''c''] \<and> map msg_ID appended = [''d'', ''b'', ''e''] \<and>
      map chk_Messages talk = [chk_Messages stored, appended] \<and>
      transcript_held (said_venv talk) (said_vault talk) (said_session talk) (map chk_Messages talk) \<and>
      (\<forall>n. \<exists>r s'. replay (said_venv talk) (said_session talk) 1 n '''' (said_vault talk) = Some (r, s') \<and>
         (\<forall>ms. r \<noteq> Inr (ms, True)))"
    by (intro exI [of _ first_turns] exI [of _ later_turns] exI [of _ round_talk] conjI allI accepted_turns round_talk_held
      round_talk_round [OF round_talk_held]) (simp_all add: later_turns_def first_turns_def round_talk_def said_defs)
next
  obtain ms s' where "replay (said_venv skipping_talk) (said_session skipping_talk) 1 4 '''' (said_vault skipping_talk) =
      Some (Inr (ms, True), s')" "map msg_ID ms = [''a'', ''b'', ''d'', ''e'']"
    using skipping_talk_replay by (auto split: option.splits prod.splits sum.splits)
  moreover have ids: "map msg_ID (chk_Messages first_turns) = [''a'', ''b'', ''c'']" "map msg_ID skipping_turns = [''b'', ''d'', ''e'']"
    "map chk_Messages skipping_talk = [chk_Messages first_turns, skipping_turns]"
    by (simp_all add: skipping_turns_def first_turns_def skipping_talk_def said_defs)
  ultimately show "\<exists>stored appended talk. validateAppend (said_session [stored]) appended = None \<and>
      map msg_ID (chk_Messages stored) = [''a'', ''b'', ''c''] \<and> map msg_ID appended = [''b'', ''d'', ''e''] \<and>
      map chk_Messages talk = [chk_Messages stored, appended] \<and>
      transcript_held (said_venv talk) (said_vault talk) (said_session talk) (map chk_Messages talk) \<and>
      (\<exists>ms s'. replay (said_venv talk) (said_session talk) 1 4 '''' (said_vault talk) = Some (Inr (ms, True), s') \<and>
         map msg_ID ms = [''a'', ''b'', ''d'', ''e''])"
    using accepted_turns(2) skipping_talk_held ids
    by (intro exI [of _ first_turns] exI [of _ skipping_turns] exI [of _ skipping_talk] conjI exI [of _ ms] exI [of _ s']) assumption+
qed

end
