(* ===== verification/Vault_Fetch_Spec.thy ===== *)
theory Vault_Fetch_Spec
  imports Vault_Fetch Vault_Save Vault_Sample Vault_Rules
begin

text \<open>
  What a read promises: the bytes a write framed open to the record that was written and under no
  other id, and a record that was read is on the device afterwards, so the next read of it needs no
  network.
\<close>

section \<open>What a write seals\<close>

lemma openBody_frame:
  assumes "FrameRecord kind i sealed = Inr fr" "wf_id i" "21 + length sealed < 2 ^ 64"
  shows "openBody E j fr =
    (if j = i then (case Open (ve_crypto E) (ve_sealer E) sealed of Inl e \<Rightarrow> Inl (VeSeal e) | Inr body \<Rightarrow> Inr body)
     else Inl (VeIdentity j i))"
proof -
  have "is_ok (kindCode kind)" using assms(1) by (cases "kindCode kind") (simp_all add: FrameRecord_def)
  then have w: "wf_frame \<lparr>frm_Kind = kind, frm_ID = i, frm_Sealed = sealed\<rparr>"
    using assms(2,3) by (simp add: wf_frame_def kindCode_ok_iff)
  have "FrameRecord kind i sealed = Inr (frame_bytes \<lparr>frm_Kind = kind, frm_ID = i, frm_Sealed = sealed\<rparr>)"
    by (rule FrameRecord_layout [OF w]) (simp only: Frame.select_convs)
  then have "fr = frame_bytes \<lparr>frm_Kind = kind, frm_ID = i, frm_Sealed = sealed\<rparr>" using assms(1) by simp
  then have "Unframe fr = Inr (\<lparr>frm_Kind = kind, frm_ID = i, frm_Sealed = sealed\<rparr>, [])"
    using Unframe_frame_bytes [OF w, of "[]"] by (simp only: append_Nil2)
  then show ?thesis by (auto simp: openBody_def split: sum.split)
qed

text \<open>The keys and the cipher are in order, and a sealed body is of a size a machine can hold.\<close>

definition sealing_ok :: "('m, 'o) venv \<Rightarrow> bytes \<Rightarrow> bool" where
  "sealing_ok E body \<longleftrightarrow>
     crypto_ok (ve_crypto E) \<and> wf_sealer (ve_sealer E) \<and> length (zstd_encode (ve_crypto E) body) < 2 ^ 63"

lemma seal_record_runs:
  assumes "seal_record E kind i body s = (Inr (cid, fr), s')"
  shows "\<exists>sealed. Seal (ve_crypto E) (ve_sealer E)
        (if mc_plan s (mc_step s) = NoFault then Some (mc_rand s (mc_step s)) else None) body = Inr sealed \<and>
     FrameRecord kind i sealed = Inr fr \<and> Sealer_CID (ve_crypto E) (ve_sealer E) body = Inr cid"
proof -
  let ?n = "if mc_plan s (mc_step s) = NoFault then Some (mc_rand s (mc_step s)) else None"
  have run: "Vault_Seal E body s = (case Seal (ve_crypto E) (ve_sealer E) ?n body of
      Inl e \<Rightarrow> (Inl (VeSeal e), s\<lparr>mc_step := mc_step s + 1\<rparr>) | Inr b \<Rightarrow> (Inr b, s\<lparr>mc_step := mc_step s + 1\<rparr>))"
    by (simp add: Vault_Seal_def bind_io_def read_rand_def seal_io_def fail_io_def ret_io_def split: sum.split)
  from assms obtain s1 where c: "Sealer_CID (ve_crypto E) (ve_sealer E) body = Inr cid" "s1 = s"
    and r: "bind_io (Vault_Seal E body) (\<lambda>sealed. bind_io (seal_io (FrameRecord kind i sealed)) (\<lambda>fr. ret_io (cid, fr))) s1 = (Inr (cid, fr), s')"
    unfolding seal_record_def
    by (elim bind_io_InrE) (auto simp: seal_io_def ret_io_def fail_io_def bind_io_def split: sum.splits prod.splits)
  from r [unfolded c(2)] obtain sealed s2 where v: "Vault_Seal E body s = (Inr sealed, s2)"
    and f: "bind_io (seal_io (FrameRecord kind i sealed)) (\<lambda>fr. ret_io (cid, fr)) s2 = (Inr (cid, fr), s')"
    by (rule bind_io_InrE)
  have "Seal (ve_crypto E) (ve_sealer E) ?n body = Inr sealed" using v run by (cases "Seal (ve_crypto E) (ve_sealer E) ?n body") simp_all
  moreover have "FrameRecord kind i sealed = Inr fr"
    using f by (cases "FrameRecord kind i sealed") (simp_all add: bind_io_def seal_io_def ret_io_def fail_io_def)
  ultimately show ?thesis using c(1) by blast
qed

lemma sealed_opens_under_its_id:
  assumes "seal_record E kind i body s = (Inr (cid, fr), s')" "sealing_ok E body" "wf_id i"
    and nonce: "length (mc_rand s (mc_step s)) = NonceSize"
  shows "openBody E i fr = Inr body \<and> Sealer_CID (ve_crypto E) (ve_sealer E) body = Inr cid \<and>
    (\<forall>j. j \<noteq> i \<longrightarrow> openBody E j fr = Inl (VeIdentity j i))"
proof -
  let ?n = "if mc_plan s (mc_step s) = NoFault then Some (mc_rand s (mc_step s)) else None"
  have ok: "crypto_ok (ve_crypto E)" "wf_sealer (ve_sealer E)" "length (zstd_encode (ve_crypto E) body) < 2 ^ 63"
    using assms(2) by (simp_all add: sealing_ok_def)
  obtain sealed where b: "Seal (ve_crypto E) (ve_sealer E) ?n body = Inr sealed" "FrameRecord kind i sealed = Inr fr"
    "Sealer_CID (ve_crypto E) (ve_sealer E) body = Inr cid"
    using seal_record_runs [OF assms(1)] by blast
  have n: "wf_nonce ?n"
    using b(1) nonce ok(2) by (auto simp: wf_nonce_def Seal_def wf_sealer_def split: if_splits)
  have "21 + length sealed < 2 ^ 64" using length_Seal [OF ok(1,2) n b(1)] ok(3) by (simp add: size_defs)
  from openBody_frame [OF b(2) assms(3) this, of E] Open_Seal [OF ok(1,2) n b(1)] b(3) show ?thesis by simp
qed

text \<open>
  C16. What is written is what is read back, and only as what it is. The bytes that go to the network
  for a record open under its id to exactly the body that was sealed, whatever nonce was drawn, with
  the content address the catalog leaves computed from that body; under any other id the same bytes
  are refused by name, and a payload whose frame does not open is an error and never a body.
\<close>

theorem sealed_record_opens:
  assumes "seal_record E kind i body s = (Inr (cid, fr), s')" "sealing_ok E body" "wf_id i"
    and "length (mc_rand s (mc_step s)) = NonceSize"
  shows "openBody E i fr = Inr body \<and> Sealer_CID (ve_crypto E) (ve_sealer E) body = Inr cid \<and>
    (\<forall>j. j \<noteq> i \<longrightarrow> openBody E j fr = Inl (VeIdentity j i)) \<and>
    (\<forall>payload. (\<exists>e. Unframe payload = Inl e) \<longrightarrow> (\<exists>e. openBody E i payload = Inl e))"
  using sealed_opens_under_its_id [OF assms] by (auto simp: openBody_def)

theorem sealed_record_opens_witness:
  "\<exists>cid fr s'. seal_record sample_venv KindMemory (replicate 15 0 @ [1]) [1, 2, 3] sample_vault = (Inr (cid, fr), s') \<and>
     openBody sample_venv (replicate 15 0 @ [1]) fr = Inr [1, 2, 3] \<and>
     openBody sample_venv (replicate 15 0 @ [2]) fr = Inl (VeIdentity (replicate 15 0 @ [2]) (replicate 15 0 @ [1]))"
proof -
  have id1: "wf_id (replicate 15 0 @ [1 :: byte])" by (simp add: wf_id_def IDSize_def)
  have ok: "sealing_ok sample_venv [1, 2, 3]" "length (mc_rand sample_vault (mc_step sample_vault)) = NonceSize"
    using sample_crypto_ok sample_sealer_ok by (simp_all add: sealing_ok_def sample_venv_def sample_vault_def sample_crypto_def NonceSize_def)
  have code: "\<exists>fr. FrameRecord KindMemory (replicate 15 0 @ [1]) sealed = Inr fr" for sealed
    by (simp add: FrameRecord_def kindCode_def)
  have nonce: "wf_nonce (Some (replicate 24 0))" by (simp add: wf_nonce_def NonceSize_def)
  obtain sealed where "Seal sample_crypto sample_sealer (Some (replicate 24 0)) [1, 2, 3] = Inr sealed"
    using Seal_total [OF sample_sealer_ok nonce] by blast
  moreover obtain fr where "FrameRecord KindMemory (replicate 15 0 @ [1]) sealed = Inr fr" using code by blast
  ultimately have "seal_record sample_venv KindMemory (replicate 15 0 @ [1]) [1, 2, 3] sample_vault =
      (Inr (blake2b256 sample_crypto (slr_content sample_sealer) [1, 2, 3], fr), sample_vault\<lparr>mc_step := 1\<rparr>)"
    by (simp add: seal_record_def Vault_Seal_def bind_io_def read_rand_def seal_io_def ret_io_def Sealer_CID_def sample_venv_def
      sample_vault_def) (simp add: sample_sealer_def)
  from this sealed_record_opens [OF this ok(1) id1 ok(2)] show ?thesis by auto
qed

section \<open>A read leaves the record on the device\<close>

lemma bodies_frame [frame]:
  "leaves dv_bodies (on_local time_Now)" "leaves dv_bodies (on_local (time_Since t))"
  "leaves dv_bodies (RecordRead tier took)" "leaves dv_bodies (RecordMiss tier)"
  "leaves dv_bodies (GetLocation ref)" "leaves dv_bodies (GetSlabMeta d)" "leaves dv_bodies (GetRecord i)"
  "leaves dv_bodies (on_local (PutSlabMeta d meta))" "leaves dv_bodies (on_local (PutLocation ref ids meta))"
  "leaves dv_bodies (on_local (ForgetLocation ref))" "leaves dv_bodies (on_local (ForgetSlabMeta d))"
  "leaves dv_bodies (on_local (CachedLocation_Age l))" "leaves dv_bodies (on_local (CachedSlab_Age c))"
  by (simp_all add: leaves_on_local leaves_bind leaves_time leaves_sql_exec leaves_sql_query leaves_simple time_Since_def RecordRead_def
    RecordMiss_def GetLocation_def GetSlabMeta_def GetRecord_def PutSlabMeta_def PutLocation_def ForgetLocation_def
    ForgetSlabMeta_def CachedLocation_Age_def CachedSlab_Age_def split: option.split)

lemma bodies_net [frame]: "leaves dv_bodies (on_net f)"
  unfolding on_net_def by (rule leaves_wrap) (simp add: leaves_def net_io_def split: prod.split)

lemma bodies_count [frame]: "leaves dv_bodies (countRead tier start)" "leaves dv_bodies (countMiss tier)"
  unfolding countRead_def countMiss_def by (intro leaves_rules frame)+

lemma bodies_lookup [frame]: "leaves dv_bodies (manifest_Lookup i)" "leaves dv_bodies (parse_ref entry)"
  by (auto simp: manifest_Lookup_def parse_ref_def split: sum.split intro!: leaves_rules frame)

lemma bodies_put_shared [frame]: "leaves dv_bodies (put_shared shared)"
  by (induction shared) (auto intro!: leaves_rules frame)

lemma bodies_forget_shared [frame]: "leaves dv_bodies (forget_shared ids)"
  by (induction ids) (auto intro!: leaves_rules frame)

lemma bodies_shared_of [frame]: "leaves dv_bodies (shared_of ttl ids shared)"
  by (induction ids arbitrary: shared) (auto intro!: leaves_rules frame split: sum.split)

lemma bodies_locations [frame]: "leaves dv_bodies (cacheLocation l shared)" "leaves dv_bodies (forgetLocation cached)"
  "leaves dv_bodies (drop_or_keep cached r)" "leaves dv_bodies (LocationFor E ref)"
  unfolding cacheLocation_def forgetLocation_def drop_or_keep_def LocationFor_def
  by (auto intro!: leaves_rules frame split: sum.split)

lemma bodies_fetchCached: "leaves_pio dv_bodies (fetchCached E entry ref)"
proof -
  have at: "leaves_pio dv_bodies (\<lambda>s. case download_at E l shared s of None \<Rightarrow> None | Some (r, s') \<Rightarrow> Some (drop_or_keep cached r s'))"
    for l shared cached
    unfolding leaves_pio_def
  proof (intro allI impI)
    fix s r s' assume "(case download_at E l shared s of None \<Rightarrow> None | Some (r, s') \<Rightarrow> Some (drop_or_keep cached r s')) = Some (r, s')"
    then obtain r1 s1 where "download_at E l shared s = Some (r1, s1)" "drop_or_keep cached r1 s1 = (r, s')"
      by (auto split: option.splits)
    moreover from this(1) have "dv_bodies s1 = dv_bodies s" by (auto simp: download_at_def Let_def)
    ultimately show "dv_bodies s' = dv_bodies s" using leavesD [OF bodies_locations(3)] by metis
  qed
  show ?thesis
    unfolding fetchCached_def by (auto intro!: leaves_rules frame at split: sum.split option.split)
qed

lemma bodies_fetchRemote: "leaves_pio dv_bodies (fetchRemote E c entry ref)"
  unfolding fetchRemote_def by (auto intro!: leaves_rules frame bodies_fetchCached split: option.split prod.split)

text \<open>What the device holds of a record.\<close>

definition held_record :: "'z device_scheme \<Rightarrow> ID \<Rightarrow> (Kind \<times> bytes) option" where
  "held_record s i = map_option (\<lambda>row. (br_Kind row, br_Body row)) (sql_row br_ID i (dv_bodies s))"

lemma GetRecord_runs:
  "GetRecord i s = (if mc_plan s (mc_step s) = NoFault
     then (case held_record s i of None \<Rightarrow> Inl ErrNotFound | Some r \<Rightarrow> Inr r) else Inl DbError, s\<lparr>mc_step := mc_step s + 1\<rparr>)"
  by (simp add: GetRecord_def sql_query_runs bind_io_def held_record_def fail_io_def ret_io_def split: option.split)

definition holds :: "ID \<Rightarrow> BodyRow list \<Rightarrow> (Kind \<times> bytes) option \<Rightarrow> bool" where
  "holds i rows r \<longleftrightarrow> map_option (\<lambda>row. (br_Kind row, br_Body row)) (sql_row br_ID i rows) = r"

lemma holds_held: "holds i (dv_bodies s) r \<longleftrightarrow> held_record s i = r"
  by (simp add: holds_def held_record_def)

lemma GetRecord_held:
  "triple (\<lambda>s. holds i (dv_bodies s) h) (outcome (GetRecord i))
     (\<lambda>got s. holds i (dv_bodies s) h \<and> (\<forall>r. got = Inr r \<longrightarrow> h = Some r) \<and> (got = Inl ErrNotFound \<longrightarrow> h = None)) (\<lambda>_. True)"
  unfolding triple_def
  by (auto simp: outcome_def GetRecord_runs holds_held held_record_def split: if_splits option.splits)

lemma PutBody_held:
  "triple (\<lambda>s. holds i (dv_bodies s) None) (on_local (PutBody i kind body)) (\<lambda>_ s. holds i (dv_bodies s) (Some (kind, body))) (\<lambda>_. True)"
  unfolding triple_def
  by (auto simp: on_local_def wrap_io_def PutBody_def record_Now_def time_Now_def bind_io_def ret_io_def sql_exec_runs holds_def
    sql_row_upsert split: if_splits)

text \<open>What the device held is returned as it is; what it did not hold it holds afterwards.\<close>

definition read_of :: "(Kind \<times> bytes) option \<Rightarrow> ID \<Rightarrow> Kind \<times> bytes \<times> Tier \<Rightarrow> BodyRow list \<Rightarrow> bool" where
  "read_of h i r rows \<longleftrightarrow>
     (case r of (kind, body, tier) \<Rightarrow>
        holds i rows (Some (kind, body)) \<and> (h = Some (kind, body) \<and> tier = TierLocal \<or> h = None \<and> tier \<in> {TierCached, TierNetwork}))"

lemma countRead_returns:
  "(\<And>rows. P rows \<Longrightarrow> Q x rows) \<Longrightarrow>
   triple (\<lambda>s. P (dv_bodies s)) (bind_io (countRead tier start) (\<lambda>_. ret_io x)) (\<lambda>x s. Q x (dv_bodies s)) (\<lambda>_. True)"
  by (rule triple_bind [OF triple_leaves [OF bodies_count(1)]]) (simp add: triple_ret)

lemma remote_read:
  "returns (\<lambda>s. holds i (dv_bodies s) None) (fetchRemote E c entry ref)
     (\<lambda>(payload, tier) s. holds i (dv_bodies s) None \<and> tier \<in> {TierCached, TierNetwork})"
  unfolding fetchRemote_def
proof (rule returns_bind [OF returns_leaves [OF bodies_fetchCached]])
  fix cached :: "bytes option"
  let ?P = "\<lambda>rows. holds i rows None"
  show "returns (\<lambda>s. ?P (dv_bodies s)) (case cached of Some payload \<Rightarrow> ret_pio (payload, TierCached)
      | None \<Rightarrow> run_pio (bind_io (countMiss TierCached) (\<lambda>_. bind_io (LocationFor E ref) (\<lambda>(location, shared).
         bind_io (on_net (Client_Download c ref)) (\<lambda>payload. bind_io (cacheLocation location shared) (\<lambda>_.
         ret_io (payload, TierNetwork)))))))
      (\<lambda>(payload, tier) s. ?P (dv_bodies s) \<and> tier \<in> {TierCached, TierNetwork})"
    by (cases cached)
      (auto intro!: returns_ret returns_run triple_bind [OF triple_leaves [where f = dv_bodies]] triple_ret frame split: prod.split)
qed

lemma stored_read:
  "returns (\<lambda>s. holds i (dv_bodies s) None \<and> tier \<in> {TierCached, TierNetwork})
     (run_pio (bind_io (lift_io (openBody E i payload)) (\<lambda>body. bind_io (on_local (PutBody i kind body)) (\<lambda>_.
       bind_io (countRead tier start) (\<lambda>_. ret_io (kind, body, tier))))))
     (\<lambda>r s. read_of None i r (dv_bodies s))"
proof (cases "tier \<in> {TierCached, TierNetwork}")
  case True
  have "triple (\<lambda>s. holds i (dv_bodies s) None) (bind_io (on_local (PutBody i kind body)) (\<lambda>_.
       bind_io (countRead tier start) (\<lambda>_. ret_io (kind, body, tier)))) (\<lambda>r s. read_of None i r (dv_bodies s)) (\<lambda>_. True)" for body
    using True by (intro triple_bind [OF PutBody_held] countRead_returns) (simp add: read_of_def)
  then show ?thesis using True
    by (cases "openBody E i payload") (auto intro!: returns_run triple_fail)
next
  case False
  then show ?thesis by (simp add: returns_def)
qed

lemma fetchBody_read:
  "returns (\<lambda>s. holds i (dv_bodies s) h) (fetchBody E i) (\<lambda>r s. read_of h i r (dv_bodies s))"
  unfolding fetchBody_def
proof (rule returns_bind [OF returns_run [OF triple_leaves [OF bodies_frame(1)]]], rule returns_bind [OF returns_run [OF GetRecord_held]],
    goal_cases)
  case (1 start got)
  show ?case
  proof (cases got)
    case (Inr r)
    then show ?thesis
      by (cases r) (auto intro!: returns_run countRead_returns simp: read_of_def)
  next
    case (Inl e)
    let ?none = "\<lambda>s. holds i (dv_bodies s) None"
    have miss: "returns ?none
        (bind_pio (run_pio (countMiss TierLocal)) (\<lambda>_. bind_pio (run_pio (manifest_Lookup i)) (\<lambda>entry.
         case ve_client E of None \<Rightarrow> fail_pio VeOffline
         | Some c \<Rightarrow> bind_pio (run_pio (parse_ref entry)) (\<lambda>ref. bind_pio (fetchRemote E c entry ref) (\<lambda>(payload, tier). run_pio (
             bind_io (lift_io (openBody E i payload)) (\<lambda>body. bind_io (on_local (PutBody i (me_Kind entry) body)) (\<lambda>_.
             bind_io (countRead tier start) (\<lambda>_. ret_io (me_Kind entry, body, tier))))))))))
        (\<lambda>r s. read_of None i r (dv_bodies s))"
    proof (rule returns_bind [OF returns_run [OF triple_leaves [OF bodies_count(2)]]],
        rule returns_bind [OF returns_run [OF triple_leaves [OF bodies_lookup(1)]]], goal_cases)
      case (1 u entry)
      show ?case
      proof (cases "ve_client E")
        case (Some c)
        have "returns ?none (bind_pio (run_pio (parse_ref entry)) (\<lambda>ref. bind_pio (fetchRemote E c entry ref) (\<lambda>(payload, tier). run_pio (
             bind_io (lift_io (openBody E i payload)) (\<lambda>body. bind_io (on_local (PutBody i (me_Kind entry) body)) (\<lambda>_.
             bind_io (countRead tier start) (\<lambda>_. ret_io (me_Kind entry, body, tier)))))))) (\<lambda>r s. read_of None i r (dv_bodies s))"
          by (rule returns_bind [OF returns_run [OF triple_leaves [OF bodies_lookup(2)]]], rule returns_bind [OF remote_read])
            (simp add: stored_read [simplified] split: prod.split)
        then show ?thesis by (simp add: Some)
      qed simp
    qed
    show ?thesis
    proof (cases "e = ErrNotFound \<and> h = None")
      case True
      then show ?thesis using miss by (simp add: Inl)
    next
      case False
      then show ?thesis by (auto simp: Inl returns_def fail_pio_def run_pio_def fail_io_def)
    qed
  qed
qed

lemma countRead_ends: "\<exists>s'. countRead tier start s = (Inr (), s')"
  by (simp add: countRead_def bind_io_def on_local_def wrap_io_def time_Since_def time_Now_def ret_io_def outcome_def split: prod.split)

lemma fetchBody_local:
  assumes "held_record s i = Some (kind, body)"
  shows "\<exists>s'. fetchBody E i s =
    Some (if mc_plan s (mc_step s + 1) = NoFault then Inr (kind, body, TierLocal) else Inl (VeLocal DbError), s')"
proof -
  let ?s1 = "s\<lparr>mc_step := mc_step s + 1\<rparr>"
  have now: "run_pio (on_local time_Now) s = Some (Inr (dv_clock s (mc_step s)), ?s1)"
    by (simp add: run_pio_def on_local_def wrap_io_def time_Now_def)
  have h1: "held_record ?s1 i = Some (kind, body)" using assms by (simp add: held_record_def)
  obtain s3 where s3: "countRead TierLocal (dv_clock s (mc_step s)) (?s1\<lparr>mc_step := mc_step ?s1 + 1\<rparr>) = (Inr (), s3)"
    using countRead_ends by blast
  show ?thesis
    unfolding fetchBody_def bind_pio_def now
    using h1 s3
    by (simp add: run_pio_def outcome_def GetRecord_runs fail_pio_def fail_io_def bind_io_def ret_io_def)
qed

text \<open>
  C18. A record that was read is on the device, with the bytes that were returned. What the device
  already held is returned as it is and read nowhere else; what it did not hold was read by a cached
  location or from the network and is held from then on, so that the same read made again returns the
  same bytes from the device, or the device refuses the statement.
\<close>

theorem read_writes_through:
  assumes "fetchBody E i s = Some (Inr (kind, body, tier), s')"
  shows "held_record s' i = Some (kind, body) \<and>
    (held_record s i = Some (kind, body) \<and> tier = TierLocal \<or>
     held_record s i = None \<and> tier \<in> {TierCached, TierNetwork}) \<and>
    (\<exists>r s''. fetchBody E' i s' = Some (r, s'') \<and> (r = Inl (VeLocal DbError) \<or> r = Inr (kind, body, TierLocal)))"
proof -
  have "read_of (held_record s i) i (kind, body, tier) (dv_bodies s')"
    using returnsD [OF fetchBody_read _ assms, of "held_record s i"] by (simp add: holds_held)
  then have r: "held_record s' i = Some (kind, body)"
    "held_record s i = Some (kind, body) \<and> tier = TierLocal \<or> held_record s i = None \<and> tier \<in> {TierCached, TierNetwork}"
    by (auto simp: read_of_def holds_held)
  moreover have "\<exists>r s''. fetchBody E' i s' = Some (r, s'') \<and> (r = Inl (VeLocal DbError) \<or> r = Inr (kind, body, TierLocal))"
    using fetchBody_local [OF r(1), of E'] by (auto split: if_splits)
  ultimately show ?thesis by blast
qed

definition held_vault :: "string set vworld" where
  "held_vault = sample_vault\<lparr>dv_bodies := [\<lparr>br_ID = replicate 16 1, br_Kind = KindMemory, br_Body = [7], br_CreatedAt = 0\<rparr>]\<rparr>"

theorem read_writes_through_witness:
  "\<exists>s'. fetchBody sample_venv (replicate 16 1) held_vault = Some (Inr (KindMemory, [7], TierLocal), s') \<and>
     held_record s' (replicate 16 1) = Some (KindMemory, [7])"
proof -
  have held: "held_record held_vault (replicate 16 1) = Some (KindMemory, [7])"
    by (simp add: held_record_def held_vault_def sql_row_def)
  have "mc_plan held_vault (mc_step held_vault + 1) = NoFault" by (simp add: held_vault_def sample_vault_def)
  then obtain s' where s': "fetchBody sample_venv (replicate 16 1) held_vault = Some (Inr (KindMemory, [7], TierLocal), s')"
    using fetchBody_local [OF held, of sample_venv] by auto
  from s' read_writes_through [OF s', of sample_venv] show ?thesis by blast
qed

end
