(* ===== verification/Man_Errors.thy ===== *)
theory Man_Errors
  imports Manifest_Spec
begin

text \<open>
  Only a lookup says that a record is not in the catalog: the files never do. So an error of that
  kind from a removal means that there was nothing to remove.
\<close>

definition missing :: "man_error \<Rightarrow> bool" where
  "missing e \<longleftrightarrow> (\<exists>i. e = EntryNotFound i)"

lemma missing_simps [simp]:
  "missing (EntryNotFound i)" "\<not> missing (IOFailed m)" "\<not> missing NoLineBreak" "\<not> missing (LineTooLong n)"
  "\<not> missing (LineUnreadable n k x)" "\<not> missing (MarshalFailed i)" "\<not> missing (SealFailed i y)"
  by (simp_all add: missing_def)

definition of_files :: "'a man_op \<Rightarrow> bool" where
  "of_files m \<longleftrightarrow> (\<forall>s e s'. m s = (Inl e, s') \<longrightarrow> \<not> missing e)"

named_theorems file_errors \<open>operations whose errors are those of the files\<close>

lemma of_files_basic [file_errors]:
  "of_files (ret_io x)" "of_files (get_io g)" "of_files (put_io f)" "of_files next_fault" "of_files read_rand"
  "\<not> missing e \<Longrightarrow> of_files (fail_io e)" "\<not> missing e \<Longrightarrow> of_files (syscall e)" "\<not> missing e \<Longrightarrow> of_files (effect e f)"
  "(\<And>e. r = Inl e \<Longrightarrow> \<not> missing e) \<Longrightarrow> of_files (lift_io r)"
  by (auto simp: of_files_def ret_io_def get_io_def put_io_def next_fault_def read_rand_def fail_io_def syscall_runs effect_def
    bind_io_def lift_io_def split: if_splits)

lemma of_files_bind [file_errors]: "of_files m \<Longrightarrow> (\<And>x. of_files (f x)) \<Longrightarrow> of_files (bind_io m f)"
  unfolding of_files_def bind_io_def by (fastforce split: prod.splits sum.splits)

lemma of_files_handlers [file_errors]:
  "of_files m \<Longrightarrow> of_files c \<Longrightarrow> of_files (finally_io m c)"
  "\<not> missing e \<Longrightarrow> of_files (fail_after e c)"
  unfolding of_files_def finally_io_def fail_after_def by (fastforce split: prod.splits sum.splits)+

lemma of_files_catch [file_errors]:
  assumes "of_files m" "\<And>e. \<not> missing e \<Longrightarrow> of_files (h e)" shows "of_files (catch_io m h)"
  unfolding of_files_def
proof (intro allI impI)
  fix s e s' assume run: "catch_io m h s = (Inl e, s')"
  then obtain e1 s1 where m: "m s = (Inl e1, s1)" "h e1 s1 = (Inl e, s')" by (auto simp: catch_io_def split: prod.splits sum.splits)
  with assms(1) have "\<not> missing e1" unfolding of_files_def by blast
  from assms(2) [OF this] m(2) show "\<not> missing e" unfolding of_files_def by blast
qed

lemma encodeEntry_errors: "encodeEntry C n e = Inl x \<Longrightarrow> \<not> missing x"
  by (auto simp: encodeEntry_def split: option.splits sum.splits)

lemma of_files_log [file_errors]: "of_files (write_log bs)" "of_files (Log_cut n)" "of_files (write_pending bs)"
  "of_files rename_pending" "of_files remove_pending" "of_files (encode_io C e)"
  unfolding write_log_def Log_cut_def write_pending_def rename_pending_def remove_pending_def encode_io_def
  by (auto intro!: file_errors dest: encodeEntry_errors split: fault.split)

lemma of_files_lineStart [file_errors]: "of_files (Log_lineStart sz pos)"
proof (induction pos rule: less_induct)
  case (less pos)
  show ?case
    unfolding Log_lineStart_unfold [of sz pos]
    by (auto intro!: file_errors less.IH simp: Let_def blockBytes_def split: option.split)
qed

lemma of_files_settle [file_errors]: "of_files (Log_settle C)"
  unfolding Log_settle_def by (intro file_errors) (auto intro!: file_errors)

lemma of_files_Append [file_errors]: "of_files (Log_Append C e)"
  unfolding Log_Append_def by (auto intro!: file_errors)

definition clean_read :: "(man_error, catalog \<times> replay) result \<Rightarrow> bool" where
  "clean_read r \<longleftrightarrow> (case r of Inl e \<Rightarrow> \<not> missing e | Inr (c, rd) \<Rightarrow> (\<forall>e. rp_cutOff rd = Some e \<longrightarrow> \<not> missing e))"

lemma read_lines_errors:
  "(\<forall>e. rp_cutOff read = Some e \<longrightarrow> \<not> missing e) \<Longrightarrow> clean_read (read_lines C name line offset tokens cat read)"
proof (induction tokens arbitrary: line offset cat read)
  case Nil
  then show ?case by (simp add: clean_read_def)
next
  case (Cons token tokens)
  show ?case
  proof (cases "length (trimLine token) = 0")
    case True
    then show ?thesis using Cons.IH [OF Cons.prems] by (simp add: Let_def)
  next
    case long: False
    show ?thesis
    proof (cases "rp_cutOff read")
      case (Some e)
      then show ?thesis using long Cons.prems by (simp add: Let_def clean_read_def)
    next
      case None
      then show ?thesis using long Cons.IH by (cases "decodeLine C (trimLine token)") (simp_all add: Let_def)
    qed
  qed
qed

lemma readEntries_clean: "clean_read (readEntries C name data cat)"
proof -
  have "clean_read (read_lines C name 1 0 (fst (scan_lines data)) cat \<lparr>rp_end = 0, rp_cutOff = None\<rparr>)"
    by (rule read_lines_errors) simp
  then show ?thesis
    by (cases "read_lines C name 1 0 (fst (scan_lines data)) cat \<lparr>rp_end = 0, rp_cutOff = None\<rparr>")
      (simp_all add: readEntries_def Let_def split_def clean_read_def)
qed

lemma readEntries_errors:
  "readEntries C name data cat = Inl e \<Longrightarrow> missing e \<Longrightarrow> False"
  "readEntries C name data cat = Inr (c, rd) \<Longrightarrow> rp_cutOff rd = Some e \<Longrightarrow> missing e \<Longrightarrow> False"
  using readEntries_clean [of C name data cat] by (auto simp: clean_read_def)

lemma of_files_lift_bind:
  "(\<And>e. r = Inl e \<Longrightarrow> \<not> missing e) \<Longrightarrow> (\<And>x. r = Inr x \<Longrightarrow> of_files (f x)) \<Longrightarrow> of_files (bind_io (lift_io r) f)"
  by (cases r) (auto intro: file_errors)

lemma of_files_replay [file_errors]: "of_files (Log_replay C)"
proof -
  have "of_files (read_snapshot C)"
    unfolding read_snapshot_def
    by (auto intro!: file_errors of_files_lift_bind split: option.split prod.split) (metis readEntries_errors)+
  then show ?thesis unfolding Log_replay_def
    by (auto intro!: file_errors of_files_lift_bind split: prod.split) (metis readEntries_errors)
qed

lemma of_files_write_entries [file_errors]: "of_files (write_entries C es n)"
  by (induction es arbitrary: n) (auto intro!: file_errors)

lemma of_files_compact [file_errors]: "of_files (Log_compact C)"
  unfolding Log_compact_def by (auto intro!: file_errors split: prod.split)

lemma of_files_Manifest_Append: "of_files (Manifest_Append C e)"
  unfolding Manifest_Append_def Manifest_append_def by (auto intro!: file_errors)

end
