(* ===== verification/Vault_Places.thy ===== *)
theory Vault_Places
  imports Vault_Save Vault_Rules Vault_Sample Man_Errors
begin

text \<open>
  Where a record can be: in the queue, among the bodies, live in the catalog. This theory says what
  each operation of a save and of a forget does to the three, whatever calls fail in between.
\<close>

section \<open>How a run ends\<close>

definition ends :: "('s \<Rightarrow> bool) \<Rightarrow> ('s, 'e, 'a) io \<Rightarrow> (('e, 'a) result \<Rightarrow> 's \<Rightarrow> bool) \<Rightarrow> bool" where
  "ends P m Q \<longleftrightarrow> (\<forall>s r s'. P s \<longrightarrow> m s = (r, s') \<longrightarrow> Q r s')"

lemma endsD: "ends P m Q \<Longrightarrow> P s \<Longrightarrow> m s = (r, s') \<Longrightarrow> Q r s'"
  by (simp add: ends_def)

lemma ends_conseq: "ends P m Q \<Longrightarrow> (\<And>s. P' s \<Longrightarrow> P s) \<Longrightarrow> (\<And>r s. Q r s \<Longrightarrow> Q' r s) \<Longrightarrow> ends P' m Q'"
  unfolding ends_def by blast

lemma ends_bind:
  assumes m: "ends P m R" and f: "\<And>x. ends (R (Inr x)) (f x) Q" and e: "\<And>e s. R (Inl e) s \<Longrightarrow> Q (Inl e) s"
  shows "ends P (bind_io m f) Q"
  unfolding ends_def
proof (intro allI impI)
  fix s r s' assume s: "P s" "bind_io m f s = (r, s')"
  obtain r1 s1 where r1: "m s = (r1, s1)" by (cases "m s")
  with m s(1) have R: "R r1 s1" by (rule endsD)
  show "Q r s'"
  proof (cases r1)
    case (Inl x)
    then have "r = Inl x" "s' = s1" using s(2) r1 by (auto simp: bind_io_def)
    then show ?thesis using R e Inl by simp
  next
    case (Inr x)
    then have "f x s1 = (r, s')" using s(2) r1 by (simp add: bind_io_def)
    then show ?thesis using R Inr by (auto intro: endsD [OF f])
  qed
qed

lemma ends_catch:
  assumes m: "ends P m R" and h: "\<And>e. ends (R (Inl e)) (h e) Q" and x: "\<And>x s. R (Inr x) s \<Longrightarrow> Q (Inr x) s"
  shows "ends P (catch_io m h) Q"
  unfolding ends_def
proof (intro allI impI)
  fix s r s' assume s: "P s" "catch_io m h s = (r, s')"
  obtain r1 s1 where r1: "m s = (r1, s1)" by (cases "m s")
  with m s(1) have R: "R r1 s1" by (rule endsD)
  show "Q r s'"
  proof (cases r1)
    case (Inr y)
    then have "r = Inr y" "s' = s1" using s(2) r1 by (auto simp: catch_io_def)
    then show ?thesis using R x Inr by simp
  next
    case (Inl e)
    then have "h e s1 = (r, s')" using s(2) r1 by (simp add: catch_io_def)
    then show ?thesis using R Inl by (auto intro: endsD [OF h])
  qed
qed

lemma ends_wrap: "ends P m (\<lambda>r. Q (case r of Inl e \<Rightarrow> Inl (g e) | Inr x \<Rightarrow> Inr x)) \<Longrightarrow> ends P (wrap_io g m) Q"
  unfolding ends_def wrap_io_def by (auto split: prod.splits sum.splits)

lemma ends_outcome: "ends P m (\<lambda>r. Q (Inr r)) \<Longrightarrow> ends P (outcome m) Q"
  unfolding ends_def outcome_def by (auto split: prod.splits)

lemma ends_ret: "(\<And>s. P s \<Longrightarrow> Q (Inr x) s) \<Longrightarrow> ends P (ret_io x) Q"
  by (simp add: ends_def ret_io_def)

lemma ends_fail: "(\<And>s. P s \<Longrightarrow> Q (Inl e) s) \<Longrightarrow> ends P (fail_io e) Q"
  by (simp add: ends_def fail_io_def)

lemma ends_any: "(\<And>s r s'. m s = (r, s') \<Longrightarrow> Q r s') \<Longrightarrow> ends P m Q"
  by (simp add: ends_def)

lemma ends_leaves: "leaves f m \<Longrightarrow> ends (\<lambda>s. P (f s)) m (\<lambda>_ s. P (f s))"
  unfolding ends_def by (auto dest: leavesD)

section \<open>The three places\<close>

definition live_in :: "Manifest \<Rightarrow> ID set" where
  "live_in m = {i. \<exists>e. Manifest_Lookup m i = Inr e}"

definition man_named :: "Manifest \<Rightarrow> bool" where
  "man_named m \<longleftrightarrow> (\<forall>i e. mf_entries m i = Some e \<longrightarrow> me_ID e = i)"

record places =
  pl_queued :: "QueueRow list"
  pl_bodies :: "BodyRow list"
  pl_manifest :: Manifest

definition places_of :: "'m vworld \<Rightarrow> places" where
  "places_of s = \<lparr>pl_queued = dv_queue s, pl_bodies = dv_bodies s, pl_manifest = st_man (vs_man (wl_net s))\<rparr>"

text \<open>
  Everything there was there at \<open>a\<close> or is one of \<open>T\<close>. A queued record may have been catalogued since.
\<close>

definition within :: "places \<Rightarrow> ID set \<Rightarrow> places \<Rightarrow> bool" where
  "within a T p \<longleftrightarrow>
     qr_ID ` set (pl_queued p) \<subseteq> qr_ID ` set (pl_queued a) \<union> T \<and>
     br_ID ` set (pl_bodies p) \<subseteq> br_ID ` set (pl_bodies a) \<union> T \<and>
     live_in (pl_manifest p) \<subseteq> live_in (pl_manifest a) \<union> qr_ID ` set (pl_queued a) \<union> T \<and>
     man_named (pl_manifest p) \<and> distinct (map qr_ID (pl_queued p))"

definition absent :: "ID \<Rightarrow> places \<Rightarrow> bool" where
  "absent i p \<longleftrightarrow> i \<notin> qr_ID ` set (pl_queued p) \<and> i \<notin> br_ID ` set (pl_bodies p) \<and> i \<notin> live_in (pl_manifest p)"

lemma within_mono: "within a T p \<Longrightarrow> T \<subseteq> U \<Longrightarrow> within a U p"
  unfolding within_def by blast

lemma within_start: "man_named (pl_manifest p) \<Longrightarrow> distinct (map qr_ID (pl_queued p)) \<Longrightarrow> within p {} p"
  by (simp add: within_def)

lemma within_absent: "within a (insert i T) p \<Longrightarrow> absent i p \<Longrightarrow> within a T p"
  unfolding within_def absent_def by blast

section \<open>What leaves the places alone\<close>

lemma places_step [simp]: "places_of (s\<lparr>mc_step := k\<rparr>) = places_of s"
  by (simp add: places_of_def)

lemma places_query [frame]: "leaves places_of (sql_query q)"
  by (rule leaves_sql_query) simp

lemma places_exec: "(\<And>s. places_of (g s) = places_of s) \<Longrightarrow> leaves places_of (sql_exec g)"
  by (rule leaves_sql_exec) simp_all

lemma places_clock [frame]: "leaves places_of time_Now" "leaves places_of record_Now" "leaves places_of (on_local record_Now)"
  unfolding record_Now_def by (auto intro!: leaves_rules leaves_on_local leaves_time frame)

lemma places_rand [frame]: "leaves places_of read_rand"
  by (simp add: leaves_def read_rand_def)

lemma places_random [frame]: "leaves places_of NewID" "leaves places_of (Vault_Seal E body)"
  unfolding NewID_def Vault_Seal_def by (auto intro!: leaves_bind frame split: option.split)

lemma places_embed [frame]: "leaves places_of (Vault_EmbedOne E txt)"
  by (simp add: leaves_def Vault_EmbedOne_def)

lemma places_ix [frame]: "leaves places_of (on_ix m)"
  unfolding on_ix_def by (rule leaves_wrap) (simp add: leaves_def places_of_def split: prod.split)

lemma places_index [frame]: "leaves places_of (index_add i model v)"
  by (simp add: leaves_def index_add_def places_of_def split: sum.split)

lemma places_reads [frame]: "leaves places_of (GetSessionHead i)" "leaves places_of (RankingMetaFor i)"
  "leaves places_of (count_read f)"
  by (auto simp: GetSessionHead_def RankingMetaFor_def count_read_def places_of_def
    intro!: leaves_rules frame places_query leaves_put split: option.split)

lemma places_affect:
  "(\<And>s. places_of (g s) = places_of s) \<Longrightarrow> leaves places_of (sql_affect n g)"
  unfolding sql_affect_def by (auto intro!: leaves_rules places_query leaves_put frame)

lemma places_written [frame]: "leaves places_of (headWritten i n expect)"
  unfolding headWritten_def
  by (auto intro!: leaves_rules frame)

lemma places_heads [frame]: "leaves places_of (PutSessionHead ses head expect)" "leaves places_of (ForgetSessionHeadAt i v)"
  unfolding PutSessionHead_def ForgetSessionHeadAt_def
  by (auto intro!: leaves_rules frame places_affect simp: places_of_def)

lemma places_ranking [frame]: "leaves places_of (PutRankingMeta u uw meta)" "leaves places_of (ForgetRankingMeta i)"
  unfolding PutRankingMeta_def ForgetRankingMeta_def
  by (auto intro!: leaves_rules frame places_exec simp: places_of_def)

lemma places_session [frame]: "leaves places_of (Vault_session E i)" "leaves places_of (Vault_Session E i)"
  unfolding Vault_Session_def no_session_def Vault_session_def
  by (auto intro!: leaves_rules frame leaves_on_local)

lemma places_putHead [frame]: "leaves places_of (putHead E session v)"
  unfolding putHead_def no_session_def by (auto intro!: leaves_rules frame leaves_on_local)

section \<open>The catalog\<close>

lemma live_in_note:
  "live_in (Manifest_note e m) = (if me_Deleted e then live_in m - {me_ID e} else insert (me_ID e) (live_in m))"
  by (auto simp: live_in_def Lookup_note)

lemma man_named_note: "man_named m \<Longrightarrow> man_named (Manifest_note e m)"
  by (simp add: man_named_def Manifest_note_def)

lemma Manifest_Append_ends:
  assumes "Manifest_Append C e s = (r, s')"
  shows "st_man s' = Manifest_note e (st_man s) \<or> (st_man s' = st_man s \<and> r \<noteq> Inr ())"
proof -
  obtain r1 s1 where a: "Log_Append C e s = (r1, s1)" by (cases "Log_Append C e s")
  have same: "st_man s1 = st_man s" using a keeps_Append [of C e] by (metis keeps_def snd_conv)
  show ?thesis
  proof (cases r1)
    case (Inl x)
    then show ?thesis using assms a same by (auto simp: Manifest_Append_def Manifest_append_def bind_io_def)
  next
    case (Inr x)
    let ?s2 = "s1\<lparr>st_man := Manifest_note e (st_man s1)\<rparr>"
    have "s' = snd (Log_compact C ?s2) \<or> s' = ?s2"
      using assms a Inr by (auto simp: Manifest_Append_def Manifest_append_def bind_io_def put_io_def get_io_def ret_io_def
        split: if_splits prod.splits sum.splits)
    then show ?thesis using same keeps_compact [of C, unfolded keeps_def, rule_format, of ?s2] by auto
  qed
qed

lemma on_man_append:
  assumes "on_man (Manifest_Append C e) s = (r, s')"
  shows "\<exists>m. places_of s' = (places_of s)\<lparr>pl_manifest := m\<rparr> \<and>
    (m = Manifest_note e (pl_manifest (places_of s)) \<or> (m = pl_manifest (places_of s) \<and> r \<noteq> Inr ()))"
proof -
  obtain r1 ms where a: "Manifest_Append C e (vs_man (wl_net s)) = (r1, ms)" by (cases "Manifest_Append C e (vs_man (wl_net s))")
  then have "places_of s' = (places_of s)\<lparr>pl_manifest := st_man ms\<rparr>" "r = (case r1 of Inl e \<Rightarrow> Inl (VeMan e) | Inr x \<Rightarrow> Inr x)"
    using assms by (auto simp: on_man_def wrap_io_def places_of_def split: sum.splits)
  then show ?thesis using Manifest_Append_ends [OF a] by (auto simp: places_of_def split: sum.splits)
qed

lemma append_within:
  "ends (\<lambda>s. within a T (places_of s)) (on_man (Manifest_Append C e)) (\<lambda>r s. within a (if me_Deleted e then T else insert (me_ID e) T) (places_of s))"
  unfolding ends_def
proof (intro allI impI)
  fix s r s' assume s: "within a T (places_of s)" "on_man (Manifest_Append C e) s = (r, s')"
  from on_man_append [OF s(2)] obtain m where m: "places_of s' = (places_of s)\<lparr>pl_manifest := m\<rparr>"
    "m = Manifest_note e (pl_manifest (places_of s)) \<or> m = pl_manifest (places_of s)" by blast
  then show "within a (if me_Deleted e then T else insert (me_ID e) T) (places_of s')"
    using s(1) by (auto simp: within_def live_in_note man_named_note)
qed

lemma not_catalogued_iff: "not_catalogued e \<longleftrightarrow> (\<exists>j. e = VeMan (EntryNotFound j))"
proof (cases e)
  case (VeMan x)
  then show ?thesis by (cases x) (simp_all add: not_catalogued_def)
qed (simp_all add: not_catalogued_def)

text \<open>Removing a record takes it out of the catalog, and whatever becomes of it, no other comes in.\<close>

lemma manifest_Remove_ends:
  "ends (\<lambda>s. within a T (places_of s)) (manifest_Remove E i) (\<lambda>r s. within a T (places_of s) \<and>
     (r = Inr () \<or> (\<exists>e. r = Inl e \<and> not_catalogued e) \<longrightarrow> i \<notin> live_in (pl_manifest (places_of s))))"
  unfolding ends_def
proof (intro allI impI)
  fix s r s' assume s: "within a T (places_of s)" "manifest_Remove E i s = (r, s')"
  let ?m = "pl_manifest (places_of s)"
  obtain now s1 where now: "on_local record_Now s = (Inr now, s1)" "places_of s1 = places_of s"
    by (simp add: on_local_def wrap_io_def record_Now_def time_Now_def bind_io_def ret_io_def)
  then have run: "on_man (Manifest_Remove (ve_codec E) now i) s1 = (r, s')" using s(2) by (simp add: manifest_Remove_def bind_io_def)
  have m1: "st_man (vs_man (wl_net s1)) = ?m" using now(2) by (simp add: places_of_def)
  show "within a T (places_of s') \<and> (r = Inr () \<or> (\<exists>e. r = Inl e \<and> not_catalogued e) \<longrightarrow> i \<notin> live_in (pl_manifest (places_of s')))"
  proof (cases "Manifest_Lookup ?m i")
    case (Inl e)
    then have "s' = s1\<lparr>wl_net := (wl_net s1)\<lparr>vs_man := vs_man (wl_net s1)\<rparr>\<rparr>"
      using run m1 by (auto simp: on_man_def wrap_io_def Manifest_Remove_def bind_io_def get_io_def lift_io_def split: sum.splits)
    then have "places_of s' = places_of s" using now(2) by simp
    then show ?thesis using s(1) Inl by (simp add: live_in_def)
  next
    case (Inr e)
    let ?e = "e\<lparr>me_Deleted := True, me_WrittenAt := now\<rparr>"
    have i: "me_ID e = i" using Inr s(1) by (auto simp: Lookup_Inr_iff within_def man_named_def)
    have app: "on_man (Manifest_Append (ve_codec E) ?e) s1 = (r, s')"
      using run Inr m1 by (simp add: on_man_def wrap_io_def Manifest_Remove_def bind_io_def get_io_def lift_io_def)
    have "within a T (places_of s')" using endsD [OF append_within _ app, of a T] s(1) now(2) by simp
    moreover from on_man_append [OF app] obtain m where m: "places_of s' = (places_of s1)\<lparr>pl_manifest := m\<rparr>"
      "m = Manifest_note ?e (pl_manifest (places_of s1)) \<or> (m = pl_manifest (places_of s1) \<and> r \<noteq> Inr ())" by blast
    moreover have "\<not> (\<exists>e. r = Inl e \<and> not_catalogued e)"
    proof
      assume "\<exists>x. r = Inl x \<and> not_catalogued x"
      then obtain j where "r = Inl (VeMan (EntryNotFound j))"
        by (auto simp: not_catalogued_iff)
      then obtain ms where "Manifest_Append (ve_codec E) ?e (vs_man (wl_net s1)) = (Inl (EntryNotFound j), ms)"
        using app by (auto simp: on_man_def wrap_io_def split: prod.splits sum.splits)
      then have "\<not> missing (EntryNotFound j)"
        using of_files_Manifest_Append [of "ve_codec E" ?e] unfolding of_files_def by blast
      then show False by simp
    qed
    ultimately show ?thesis using i by (auto simp: live_in_note)
  qed
qed

section \<open>The flush\<close>

text \<open>The network of the vault's client is a part of the state the catalog is not in.\<close>

definition net_keeps :: "('m vrest \<Rightarrow> 'r \<times> 'm vrest) \<Rightarrow> bool" where
  "net_keeps f \<longleftrightarrow> (\<forall>n. st_man (vs_man (snd (f n))) = st_man (vs_man n))"

lemma net_keepsD: "net_keeps f \<Longrightarrow> f n = (r, n') \<Longrightarrow> st_man (vs_man n') = st_man (vs_man n)"
  by (metis net_keeps_def snd_conv)

lemma net_keeps_over [simp]: "net_keeps (over_net f)"
  by (simp add: net_keeps_def over_net_def split: prod.split)

lemma net_keeps_calls:
  "(\<And>i. net_keeps (f i)) \<Longrightarrow> run_calls f ks n = (errs, n') \<Longrightarrow> st_man (vs_man n') = st_man (vs_man n)"
proof (induction ks arbitrary: n errs n')
  case (Cons k ks)
  obtain r n1 where r: "f k n = (r, n1)" by (cases "f k n")
  obtain errs1 n2 where c: "run_calls f ks n1 = (errs1, n2)" by (cases "run_calls f ks n1")
  have "n' = n2" using Cons.prems(2) r c by simp
  then show ?case using net_keepsD [OF Cons.prems(1) r] Cons.IH [OF Cons.prems(1) c] by simp
qed simp

lemma net_keeps_inFlight:
  assumes "\<And>i. net_keeps (f i)" shows "net_keeps (\<lambda>n. inFlight (order n) k f n)"
  unfolding net_keeps_def inFlight_def Let_def
  using net_keeps_calls [OF assms] by (auto split: prod.split)

lemma net_keeps_upload: "net_keeps (boundary_Upload (over_sdk c) ps)"
proof -
  have "st_man (vs_man n') = st_man (vs_man n)" if u: "UploadPacked (over_sdk c) ps n = (r, n')" for n n' and r :: "(string, Batch) result"
  proof -
    have "n' = n \<or> (\<exists>x. over_net (sk_Upload c ps) n = (x, n'))"
      using u by (auto simp: UploadPacked_def over_sdk_def split: if_splits prod.splits sum.splits)
    then show ?thesis using net_keepsD [OF net_keeps_over] by metis
  qed
  then show ?thesis by (auto simp: net_keeps_def boundary_Upload_def split: prod.split sum.split)
qed

lemma net_keeps_pins: "net_keeps (Client_PinSlabs (over_sdk c) b)" "net_keeps (Client_PinObjects (over_sdk c) b)"
proof -
  show "net_keeps (Client_PinSlabs (over_sdk c) b)"
    by (auto simp: net_keeps_def Client_PinSlabs_def Let_def over_sdk_def over_net_def split: prod.split)
  have "net_keeps (\<lambda>n. inFlight (sk_order (over_sdk c) n (length (ba_objects b))) (length (ba_objects b))
       (\<lambda>i. sk_PinObject (over_sdk c) (ba_objects b ! i)) n)"
    by (rule net_keeps_inFlight) (simp add: over_sdk_def)
  then show "net_keeps (Client_PinObjects (over_sdk c) b)" by (simp add: net_keeps_def Client_PinObjects_def)
qed

lemma places_net_io: "net_keeps f \<Longrightarrow> leaves places_of (net_io f)"
  by (auto simp: leaves_def net_io_def places_of_def net_keeps_def split: prod.split) (metis snd_conv)

lemma places_on_net [frame]: "leaves places_of (on_net f)"
  unfolding on_net_def by (intro leaves_wrap places_net_io) simp

lemma places_slabs [frame]: "leaves places_of (Track d n b)" "leaves places_of (recordSlabs w)"
proof -
  have t: "leaves places_of (Track d n b :: ('m vworld, local_error, unit) io)" for d n b
    unfolding Track_def TrackSlab_def trackSlab_def
    by (auto intro!: leaves_rules frame places_exec simp: places_of_def)
  then show "leaves places_of (Track d n b :: ('m vworld, local_error, unit) io)" .
  have "leaves places_of (recordSlabs_loop ss n b :: ('m vworld, local_error, unit) io)" for ss n b
    by (induction ss) (auto intro!: leaves_rules frame t)
  then show "leaves places_of (recordSlabs w :: ('m vworld, local_error, unit) io)" by (simp add: recordSlabs_def)
qed

lemma places_PutBatch: "leaves places_of (PutBatch (Store_New (over_sdk c) recordSlabs) blobs)"
proof -
  have "leaves places_of (wrap_io UploadFailed (net_io (boundary_Upload (over_sdk c) ps)))" for ps
    by (intro leaves_wrap places_net_io net_keeps_upload)
  moreover have "leaves places_of (wrap_io PinFailed (net_io (Client_PinSlabs (over_sdk c) b)))"
    "leaves places_of (wrap_io PinFailed (net_io (Client_PinObjects (over_sdk c) b)))" for b
    by (intro leaves_wrap places_net_io net_keeps_pins)+
  ultimately show ?thesis
    unfolding PutBatch_def Store_New_def siaBoundary_def Let_def
    by (auto intro!: leaves_bind leaves_wrap [OF places_slabs(2)] frame)
qed

text \<open>Cataloguing a flush: only records of the batch come in.\<close>

definition known :: "places \<Rightarrow> ID set \<Rightarrow> ID set" where
  "known a T = qr_ID ` set (pl_queued a) \<union> T"

lemma append_known:
  assumes "me_ID e \<in> known a T"
  shows "ends (\<lambda>s. within a T (places_of s)) (on_man (Manifest_Append C e)) (\<lambda>r s. within a T (places_of s))"
  unfolding ends_def
proof (intro allI impI)
  fix s r s' assume s: "within a T (places_of s)" "on_man (Manifest_Append C e) s = (r, s')"
  from on_man_append [OF s(2)] obtain m where m: "places_of s' = (places_of s)\<lparr>pl_manifest := m\<rparr>"
    "m = Manifest_note e (pl_manifest (places_of s)) \<or> m = pl_manifest (places_of s)" by blast
  from m(2) show "within a T (places_of s')"
  proof
    assume m': "m = Manifest_note e (pl_manifest (places_of s))"
    have "live_in m \<subseteq> insert (me_ID e) (live_in (pl_manifest (places_of s)))" by (auto simp: m' live_in_note)
    moreover have "man_named m" using s(1) by (simp add: m' man_named_note within_def)
    ultimately show ?thesis using s(1) assms m(1) unfolding within_def known_def by auto
  next
    assume "m = pl_manifest (places_of s)"
    then show ?thesis using s(1) m(1) by simp
  qed
qed

lemma catalogue_each_within:
  "set (map qd_ID records) \<subseteq> known a T \<Longrightarrow>
   ends (\<lambda>s. within a T (places_of s)) (catalogue_each E ws records) (\<lambda>r s. within a T (places_of s))"
proof (induction records)
  case (Cons q records)
  have app: "ends (\<lambda>s. within a T (places_of s)) (on_man (Manifest_Append (ve_codec E) (flush_entry q cid w now meta)))
      (\<lambda>r s. within a T (places_of s))" for cid w now meta
    using Cons.prems by (intro append_known) (simp add: flush_entry_def)
  show ?case
  proof (cases "written_by (bl_CID (qd_Blob q)) ws")
    case None
    then show ?thesis by (simp add: ends_fail)
  next
    case (Some w)
    then show ?thesis using Cons
      by (simp, intro ends_bind [OF ends_leaves [where f = places_of]] ends_bind [OF app] frame leaves_outcome leaves_on_local) auto
  qed
qed (simp add: ends_ret)

definition Wi :: "places \<Rightarrow> ID set \<Rightarrow> 'm vworld \<Rightarrow> bool" where
  "Wi a T s \<longleftrightarrow> within a T (places_of s)"

lemma Wi_leaves: "leaves places_of m \<Longrightarrow> ends (Wi a T) m (\<lambda>_. Wi a T)"
  unfolding Wi_def [abs_def] by (rule ends_leaves)

lemma claim_ids_known:
  assumes "ClaimQueued owner st lim s = (Inr out, s')" shows "qb_ID ` set out \<subseteq> qr_ID ` set (dv_queue s)"
proof -
  have "\<exists>now. out = claimed_blobs st lim now (dv_queue s)"
    using assms by (auto simp: ClaimQueued_def local_defs split: if_splits)
  then show ?thesis by (auto simp: claimed_blobs_def row_blob_def)
qed

lemma queue_change:
  "Wi a T s \<Longrightarrow> qr_ID ` set (dv_queue s') \<subseteq> qr_ID ` set (dv_queue s) \<Longrightarrow>
   (distinct (map qr_ID (dv_queue s)) \<Longrightarrow> distinct (map qr_ID (dv_queue s'))) \<Longrightarrow>
   dv_bodies s' = dv_bodies s \<Longrightarrow> wl_net s' = wl_net s \<Longrightarrow> Wi a T s'"
  unfolding Wi_def within_def places_of_def by auto

lemma update_ids: "(\<And>r. qr_ID (f r) = qr_ID r) \<Longrightarrow> qr_ID ` set (sql_update p f rows) = qr_ID ` set rows"
  by (metis list.set_map sql_update_keys)

lemma claim_within:
  "ends (Wi a T) (ClaimQueued owner st lim) (\<lambda>r s. Wi a T s \<and> (\<forall>out. r = Inr out \<longrightarrow> qb_ID ` set out \<subseteq> known a T))"
  unfolding ends_def
proof (intro allI impI)
  fix s r s' assume s: "Wi a T s" "ClaimQueued owner st lim s = (r, s')"
  have ids: "qr_ID ` set (claim_rows owner st lim now (dv_queue s)) = qr_ID ` set (dv_queue s)" for now
    unfolding claim_rows_def by (rule update_ids) simp
  have q: "dv_queue s' = dv_queue s \<or> (\<exists>now. dv_queue s' = claim_rows owner st lim now (dv_queue s))"
    and rest: "dv_bodies s' = dv_bodies s" "wl_net s' = wl_net s"
    using s(2) by (auto simp: ClaimQueued_def local_defs split: if_splits)
  have "qr_ID ` set (dv_queue s') = qr_ID ` set (dv_queue s)" using q ids by metis
  moreover have "map qr_ID (dv_queue s') = map qr_ID (dv_queue s)" using q by (auto simp: claim_rows_def sql_update_keys)
  ultimately have "Wi a T s'" by (intro queue_change [OF s(1)] rest) simp_all
  moreover have "qb_ID ` set out \<subseteq> known a T" if "r = Inr out" for out
    using claim_ids_known [of owner st lim s out s'] s that by (auto simp: Wi_def within_def places_of_def known_def)
  ultimately show "Wi a T s' \<and> (\<forall>out. r = Inr out \<longrightarrow> qb_ID ` set out \<subseteq> known a T)" by blast
qed

lemma each_within:
  assumes rows: "\<And>rows. qr_ID ` set (fold stmt ids rows) \<subseteq> qr_ID ` set rows"
    and once: "\<And>rows. distinct (map qr_ID rows) \<Longrightarrow> distinct (map qr_ID (fold stmt ids rows))"
  shows "ends (Wi a T) (eachQueued stmt ids) (\<lambda>_. Wi a T)"
  unfolding ends_def
proof (intro allI impI)
  fix s r s' assume s: "Wi a T s" "eachQueued stmt ids s = (r, s')"
  have "dv_queue s' = dv_queue s \<or> dv_queue s' = fold stmt ids (dv_queue s)" "dv_bodies s' = dv_bodies s" "wl_net s' = wl_net s"
    using s(2) by (auto simp: eachQueued_def ret_io_def sql_exec_runs split: if_splits)
  with rows [of "dv_queue s"] once [of "dv_queue s"] show "Wi a T s'" by (intro queue_change [OF s(1)]) auto
qed

lemma queue_settled:
  "ends (Wi a T) (DropQueued ids) (\<lambda>_. Wi a T)" "ends (Wi a T) (ReleaseQueued ids) (\<lambda>_. Wi a T)"
  unfolding DropQueued_def ReleaseQueued_def
  by (rule each_within; auto simp: fold_drop fold_release sql_update_keys distinct_map_filter update_ids)+

lemma refresh_leaves [frame]: "leaves places_of Packer_refresh"
  unfolding Packer_refresh_def Store_QueueState_def
  by (auto intro!: leaves_rules frame leaves_put simp: places_of_def)

section \<open>The queue of the vault\<close>

lemma ends_same:
  "ends P m (\<lambda>_. P) \<Longrightarrow> (\<And>x. ends P (f x) (\<lambda>_. P)) \<Longrightarrow> ends P (bind_io m f) (\<lambda>_. P)"
  "ends P m (\<lambda>_. P) \<Longrightarrow> ends P (wrap_io g m) (\<lambda>_. P)"
  "ends P (ret_io x) (\<lambda>_. P)" "ends P (fail_io e) (\<lambda>_. P)"
  by (auto intro: ends_bind ends_wrap ends_ret ends_fail)

lemma ends_pure: "(p \<Longrightarrow> ends P m Q) \<Longrightarrow> ends (\<lambda>s. P s \<and> p) m Q"
  unfolding ends_def by blast

lemma Wi_mono: "Wi a T s \<Longrightarrow> T \<subseteq> U \<Longrightarrow> Wi a U s"
  unfolding Wi_def by (rule within_mono)

lemma settle_within:
  assumes "set (map qd_ID (ps_Records result)) \<subseteq> known a T"
  shows "ends (Wi a T) (Packer_settle (Vault_packer E) result ids) (\<lambda>_. Wi a T)"
proof -
  have "ends (Wi a T) (recordFlush E result) (\<lambda>_. Wi a T)"
    unfolding recordFlush_def Wi_def [abs_def] using assms by (rule catalogue_each_within)
  then show ?thesis
    unfolding Packer_settle_def Vault_packer_def Packer_OnFlush_def
    by (simp, intro ends_same queue_settled Wi_leaves [OF refresh_leaves])
qed

lemma put_or_release_within:
  "ends (Wi a T) (put_or_release (Store_New (over_sdk c) recordSlabs) blobs ids) (\<lambda>_. Wi a T)"
  unfolding ends_def
proof (intro allI impI)
  fix s r s' assume s: "Wi a T s" "put_or_release (Store_New (over_sdk c) recordSlabs) blobs ids s = (r, s')"
  obtain r1 s1 where put: "PutBatch (Store_New (over_sdk c) recordSlabs) blobs s = (r1, s1)"
    by (cases "PutBatch (Store_New (over_sdk c) recordSlabs) blobs s")
  have s1: "Wi a T s1" using leavesD [OF places_PutBatch put] s(1) by (simp add: Wi_def)
  show "Wi a T s'"
  proof (cases r1)
    case (Inl e)
    obtain r2 s2 where rel: "ReleaseQueued ids s1 = (r2, s2)" by (cases "ReleaseQueued ids s1")
    then have "s' = s2" using s(2) put Inl by (cases r2) (auto simp: put_or_release_def)
    then show ?thesis using endsD [OF queue_settled(2) s1 rel] by simp
  next
    case (Inr f)
    then show ?thesis using s(2) put s1 by (auto simp: put_or_release_def)
  qed
qed

lemma queued_of_id [simp]: "qd_ID (queued_of b) = qb_ID b"
  by (simp add: queued_of_def)

lemma flush_within: "ends (Wi a T) (Packer_flush (Vault_packer E) reason) (\<lambda>_. Wi a T)"
proof (cases "ve_client E")
  case None
  then show ?thesis by (simp add: Packer_flush_def Vault_packer_def Packer_OnFlush_def Vault_store_def ends_fail)
next
  case (Some c)
  let ?p = "Vault_packer E" and ?st = "Store_New (over_sdk c) recordSlabs"
  have settle: "ends (Wi a T) (Packer_settle ?p \<lparr>ps_Reason = Some reason, ps_Records = map queued_of out, ps_Flush = fl\<rparr> ids) (\<lambda>_. Wi a T)"
    if "qb_ID ` set out \<subseteq> known a T" for out fl ids
    by (rule settle_within) (use that in simp)
  have wr: "ends (\<lambda>s. Wi a T s \<and> qb_ID ` set out \<subseteq> known a T)
      (if out = [] then ret_io no_result
       else let batch = map queued_of out; ids = map qb_ID out in
         bind_io (put_or_release ?st (map qd_Blob batch) ids) (\<lambda>flushed.
         Packer_settle ?p \<lparr>ps_Reason = Some reason, ps_Records = batch, ps_Flush = flushed\<rparr> ids)) (\<lambda>_. Wi a T)" for out
    by (rule ends_pure) (auto simp: Let_def intro!: ends_same put_or_release_within settle)
  have claim: "ends (Wi a T) (wrap_io QueueFailed (ClaimQueued (pk_owner ?p) (claimTimeout (pk_policy ?p)) 0))
      (\<lambda>r s. Wi a T s \<and> (\<forall>out. r = Inr out \<longrightarrow> qb_ID ` set out \<subseteq> known a T))"
    by (rule ends_wrap, rule ends_conseq [OF claim_within]) (auto split: sum.splits)
  have st: "pk_store ?p = Some ?st" by (simp add: Vault_packer_def Packer_OnFlush_def Vault_store_def Some)
  show ?thesis unfolding Packer_flush_def st option.case
    by (rule ends_bind [OF claim]) (rule ends_conseq [OF wr], auto)
qed

lemma enqueue_ids: "qr_ID ` set (enqueue_rows b rows) \<subseteq> insert (qb_ID b) (qr_ID ` set rows)"
  by (auto simp: enqueue_rows_def sql_upsert_def sql_update_def)

lemma sets_grow: "A \<subseteq> B \<union> T \<Longrightarrow> C \<subseteq> insert i A \<Longrightarrow> C \<subseteq> B \<union> insert i T" for A B C T :: "'x set"
  by blast

lemma queue_grows:
  assumes "Wi a T s" "qr_ID ` set (dv_queue s') \<subseteq> insert i (qr_ID ` set (dv_queue s))"
    "distinct (map qr_ID (dv_queue s)) \<Longrightarrow> distinct (map qr_ID (dv_queue s'))"
    "dv_bodies s' = dv_bodies s" "wl_net s' = wl_net s"
  shows "Wi a (insert i T) s'"
proof -
  have p: "pl_bodies (places_of s') = pl_bodies (places_of s)" "pl_manifest (places_of s') = pl_manifest (places_of s)"
    using assms(4,5) by (simp_all add: places_of_def)
  have q: "qr_ID ` set (pl_queued (places_of s')) \<subseteq> insert i (qr_ID ` set (pl_queued (places_of s)))"
    using assms(2) by (simp add: places_of_def)
  have w: "within a (insert i T) (places_of s)"
    using assms(1) unfolding Wi_def by (rule within_mono) (rule subset_insertI)
  have "qr_ID ` set (pl_queued (places_of s)) \<subseteq> qr_ID ` set (pl_queued a) \<union> T"
    using assms(1) by (simp add: Wi_def within_def)
  moreover have "distinct (map qr_ID (pl_queued (places_of s')))"
    using assms(1,3) by (simp add: Wi_def within_def places_of_def)
  ultimately show ?thesis using w sets_grow [OF _ q] unfolding Wi_def within_def p by simp
qed

lemma enqueue_within: "ends (Wi a T) (Enqueue b) (\<lambda>_. Wi a (insert (qb_ID b) T))"
proof -
  have row: "ends (Wi a T) (sql_exec (\<lambda>s. s\<lparr>dv_queue := enqueue_rows b' (dv_queue s)\<rparr>)) (\<lambda>_. Wi a (insert (qb_ID b) T))"
    if "qb_ID b' = qb_ID b" for b'
    unfolding ends_def
  proof (intro allI impI)
    fix s r s' assume s: "Wi a T s" "sql_exec (\<lambda>s. s\<lparr>dv_queue := enqueue_rows b' (dv_queue s)\<rparr>) s = (r, s')"
    have q: "dv_queue s' = dv_queue s \<or> dv_queue s' = enqueue_rows b' (dv_queue s)"
      and rest: "dv_bodies s' = dv_bodies s" "wl_net s' = wl_net s"
      using s(2) by (auto simp: sql_exec_runs split: if_splits)
    have "qr_ID ` set (dv_queue s') \<subseteq> insert (qb_ID b) (qr_ID ` set (dv_queue s))"
      using q enqueue_ids [of b' "dv_queue s"] that by (elim disjE) (simp_all only: subset_insertI)
    moreover have "distinct (map qr_ID (dv_queue s')) \<or> \<not> distinct (map qr_ID (dv_queue s))"
      using q by (auto simp: enqueue_rows_def sql_upsert_distinct)
    ultimately show "Wi a (insert (qb_ID b) T) s'" using rest by (intro queue_grows [OF s(1)]) blast+
  qed
  have since: "ends (Wi a T) (if time_IsZero (qb_QueuedAt b) then bind_io time_Now (\<lambda>t. ret_io (b\<lparr>qb_QueuedAt := t\<rparr>)) else ret_io b)
      (\<lambda>r s. Wi a T s \<and> (\<forall>b'. r = Inr b' \<longrightarrow> qb_ID b' = qb_ID b))"
    by (auto simp: ends_def bind_io_def ret_io_def time_Now_def Wi_def)
  show ?thesis unfolding Enqueue_def
    by (rule ends_bind [OF since]) (auto intro: Wi_mono ends_pure [OF row])
qed

lemma queue_record_within: "ends (Wi a T) (queue_record E i kind cid fr) (\<lambda>_. Wi a (insert i T))"
proof -
  let ?U = "insert i T"
  have flush: "ends (Wi a ?U) (case d of None \<Rightarrow> ret_io no_result
      | Some reason \<Rightarrow> if pk_store p = None then ret_io no_result else Packer_flush (Vault_packer E) reason) (\<lambda>_. Wi a ?U)" for d and p :: "'a vrest Packer"
    by (cases d) (simp_all add: ends_same flush_within)
  have enq: "ends (Wi a T) (Enqueue b) (\<lambda>_. Wi a ?U)" if "qb_ID b = i" for b
    using enqueue_within [of a T b] that by simp
  have view: "leaves places_of (put_io (\<lambda>s. s\<lparr>wl_state := f s\<rparr>) :: ('a vworld, pk_error, unit) io)" for f
    by (rule leaves_put) (simp add: places_of_def)
  have now: "leaves places_of (wrap_io QueueFailed time_Now :: ('a vworld, pk_error, int) io)"
    by (intro leaves_wrap places_clock)
  have since: "ends (Wi a T) (if time_IsZero (qd_Since it)
        then wrap_io QueueFailed (bind_io time_Now (\<lambda>t. ret_io (it\<lparr>qd_Since := t\<rparr>))) else ret_io it)
      (\<lambda>r s. Wi a T s \<and> (\<forall>it'. r = Inr it' \<longrightarrow> qd_ID it' = qd_ID it))" for it
    by (auto simp: ends_def bind_io_def ret_io_def time_Now_def Wi_def wrap_io_def)
  have more: "Wi a T s \<Longrightarrow> Wi a ?U s" for s :: "'a vworld" by (rule Wi_mono) auto
  have rest: "ends (\<lambda>s. Wi a T s \<and> qd_ID it = i)
     (bind_io (wrap_io QueueFailed (Enqueue
       \<lparr>qb_ID = qd_ID it, qb_Kind = qd_Kind it, qb_CID = bl_CID (qd_Blob it), qb_Payload = bl_Payload (qd_Blob it),
        qb_QueuedAt = qd_Since it, qb_Seq = 0\<rparr>)) (\<lambda>_.
     bind_io (put_io (\<lambda>s. s\<lparr>wl_state := note_added it (wl_state s)\<rparr>)) (\<lambda>_.
     bind_io (wrap_io QueueFailed time_Now) (\<lambda>now.
     bind_io (get_io (\<lambda>s. due (pk_policy (Vault_packer E)) (wl_state s) now)) (\<lambda>d.
     case d of
       None \<Rightarrow> ret_io no_result
     | Some reason \<Rightarrow> if pk_store (Vault_packer E) = None then ret_io no_result
                      else Packer_flush (Vault_packer E) reason))))) (\<lambda>_. Wi a ?U)" for it
    by (rule ends_pure, rule ends_bind [where R = "\<lambda>_. Wi a ?U"], rule ends_wrap, rule enq, simp)
      (intro ends_same(1) flush Wi_leaves [OF view] Wi_leaves [OF now] Wi_leaves [OF leaves_simple(4)], assumption)
  show ?thesis
    unfolding queue_record_def Packer_Add_def
    by (rule ends_wrap, rule ends_bind [OF since]) (auto intro: ends_conseq [OF rest] more)
qed


section \<open>Taking a record back\<close>

text \<open>A withdrawal that succeeds leaves the record out of the queue; one that fails may have taken it out all the same.\<close>

lemma withdraw_ends:
  "ends (Wi a T) (Packer_Withdraw p i) (\<lambda>r s. Wi a T s \<and> (\<forall>b. r = Inr b \<longrightarrow> i \<notin> qr_ID ` set (dv_queue s)))"
proof -
  have row: "ends (Wi a T) (WithdrawQueued i st) (\<lambda>r s. Wi a T s \<and> (\<forall>b. r = Inr b \<longrightarrow> i \<notin> qr_ID ` set (dv_queue s)))" for st
    unfolding ends_def
  proof (intro allI impI)
    fix s r s' assume s: "Wi a T s" "WithdrawQueued i st s = (r, s')"
    have q: "dv_queue s' = dv_queue s \<or> (\<exists>now. dv_queue s' = filter (\<lambda>r. \<not> (qr_ID r = i \<and> claimable st now r)) (dv_queue s))"
      and rest: "dv_bodies s' = dv_bodies s" "wl_net s' = wl_net s"
      using s(2) by (auto simp: WithdrawQueued_def local_defs split: if_splits)
    have "qr_ID ` set (dv_queue s') \<subseteq> qr_ID ` set (dv_queue s)" using q by (elim disjE exE) (simp_all, blast)
    moreover have "distinct (map qr_ID (dv_queue s')) \<or> \<not> distinct (map qr_ID (dv_queue s))"
      using q by (auto simp: distinct_map_filter)
    ultimately have "Wi a T s'" using rest by (intro queue_change [OF s(1)]) blast+
    moreover have "i \<notin> qr_ID ` set (dv_queue s')" if "r = Inr b" for b
    proof -
      have "distinct (map qr_ID (dv_queue s))" using s(1) by (simp add: Wi_def within_def places_of_def)
      then have same: "x = y" if "x \<in> set (dv_queue s)" "y \<in> set (dv_queue s)" "qr_ID x = qr_ID y" for x y
        using that by (metis distinct_map inj_onD)
      show ?thesis
        using s(2) that by (auto simp: WithdrawQueued_def local_defs filter_empty_conv split: if_splits dest: same)
    qed
    ultimately show "Wi a T s' \<and> (\<forall>b. r = Inr b \<longrightarrow> i \<notin> qr_ID ` set (dv_queue s'))" by blast
  qed
  have refresh: "ends (\<lambda>s. Wi a T s \<and> i \<notin> qr_ID ` set (dv_queue s)) Packer_refresh
      (\<lambda>_ s. Wi a T s \<and> i \<notin> qr_ID ` set (dv_queue s))"
    using ends_leaves [OF refresh_leaves, of "\<lambda>p. within a T p \<and> i \<notin> qr_ID ` set (pl_queued p)"]
    by (simp add: Wi_def places_of_def)
  show ?thesis
    unfolding Packer_Withdraw_def
    by (rule ends_bind [OF row])
      (auto intro!: ends_ret ends_bind [where R = "\<lambda>_ s. Wi a T s \<and> i \<notin> qr_ID ` set (dv_queue s)"] intro: ends_conseq [OF refresh])
qed

section \<open>The bodies\<close>

lemma body_put: "ends (Wi a T) (on_local (PutBody i kind body)) (\<lambda>r s. if r = Inr () then Wi a (insert i T) s else Wi a T s)"
  unfolding ends_def
proof (intro allI impI)
  fix s r s' assume s: "Wi a T s" "on_local (PutBody i kind body) s = (r, s')"
  have ids: "br_ID ` set (sql_upsert br_ID \<lparr>br_ID = i, br_Kind = kind, br_Body = body, br_CreatedAt = now\<rparr>
      (\<lambda>r. r\<lparr>br_Body := body\<rparr>) rows) \<subseteq> insert i (br_ID ` set rows)" for now rows
    by (auto simp: sql_upsert_def sql_update_def)
  let ?up = "\<lambda>now. sql_upsert br_ID \<lparr>br_ID = i, br_Kind = kind, br_Body = body, br_CreatedAt = now\<rparr>
      (\<lambda>r. r\<lparr>br_Body := body\<rparr>) (dv_bodies s)"
  have up: "(r \<noteq> Inr () \<and> dv_bodies s' = dv_bodies s) \<or> (r = Inr () \<and> (\<exists>now. dv_bodies s' = ?up now))"
    and p: "dv_queue s' = dv_queue s" "wl_net s' = wl_net s"
    using s(2) by (auto simp: PutBody_def on_local_def wrap_io_def record_Now_def time_Now_def bind_io_def ret_io_def
      sql_exec_runs split: if_splits)
  from up have q: "(r \<noteq> Inr () \<and> dv_bodies s' = dv_bodies s) \<or>
      (r = Inr () \<and> br_ID ` set (dv_bodies s') \<subseteq> insert i (br_ID ` set (dv_bodies s)))"
    using ids by (elim disjE conjE exE) simp_all
  from q show "if r = Inr () then Wi a (insert i T) s' else Wi a T s'"
  proof
    assume "r \<noteq> Inr () \<and> dv_bodies s' = dv_bodies s"
    then show ?thesis using s(1) p by (simp add: Wi_def places_of_def)
  next
    assume b: "r = Inr () \<and> br_ID ` set (dv_bodies s') \<subseteq> insert i (br_ID ` set (dv_bodies s))"
    have w: "Wi a (insert i T) s" using s(1) by (rule Wi_mono) (rule subset_insertI)
    have "br_ID ` set (dv_bodies s) \<subseteq> br_ID ` set (pl_bodies a) \<union> T"
      using s(1) by (simp add: Wi_def within_def places_of_def)
    from sets_grow [OF this conjunct2 [OF b]] show ?thesis
      using w b by (simp add: Wi_def within_def places_of_def p)
  qed
qed

lemma body_gone:
  "ends (\<lambda>s. Wi a T s \<and> P (dv_queue s) (st_man (vs_man (wl_net s)))) (on_local (ForgetBody i))
     (\<lambda>r s. Wi a T s \<and> P (dv_queue s) (st_man (vs_man (wl_net s))) \<and> (r = Inr () \<longrightarrow> i \<notin> br_ID ` set (dv_bodies s)))"
  unfolding ends_def
proof (intro allI impI)
  fix s r s' assume s: "Wi a T s \<and> P (dv_queue s) (st_man (vs_man (wl_net s)))" "on_local (ForgetBody i) s = (r, s')"
  have q: "(r \<noteq> Inr () \<and> dv_bodies s' = dv_bodies s) \<or> dv_bodies s' = filter (\<lambda>r. br_ID r \<noteq> i) (dv_bodies s)"
    and p: "dv_queue s' = dv_queue s" "wl_net s' = wl_net s"
    using s(2) by (auto simp: ForgetBody_def on_local_def wrap_io_def sql_exec_runs split: if_splits)
  have "br_ID ` set (dv_bodies s') \<subseteq> br_ID ` set (dv_bodies s)" using q by (elim disjE conjE) (simp_all, blast)
  moreover have "br_ID ` set (dv_bodies s) \<subseteq> br_ID ` set (pl_bodies a) \<union> T"
    using conjunct1 [OF s(1)] by (simp add: Wi_def within_def places_of_def)
  ultimately have "br_ID ` set (dv_bodies s') \<subseteq> br_ID ` set (pl_bodies a) \<union> T" by (rule subset_trans)
  then have "Wi a T s'" using conjunct1 [OF s(1)] p by (simp add: Wi_def within_def places_of_def)
  then show "Wi a T s' \<and> P (dv_queue s') (st_man (vs_man (wl_net s'))) \<and> (r = Inr () \<longrightarrow> i \<notin> br_ID ` set (dv_bodies s'))"
    using s(1) p q by auto
qed

section \<open>Taking back a chunk\<close>

lemma queue_man_Remove: "leaves dv_queue (manifest_Remove E i)"
  unfolding manifest_Remove_def record_Now_def on_man_def
  by (intro leaves_rules leaves_on_local leaves_time leaves_simple) (simp_all add: leaves_def split: prod.split)

lemma remove_ends:
  "ends (\<lambda>s. Wi a T s \<and> P (dv_queue s)) (manifest_Remove E i) (\<lambda>r s. Wi a T s \<and> P (dv_queue s) \<and>
     (r = Inr () \<or> (\<exists>e. r = Inl e \<and> not_catalogued e) \<longrightarrow> i \<notin> live_in (st_man (vs_man (wl_net s)))))"
  unfolding ends_def
proof (intro allI impI)
  fix s r s' assume s: "Wi a T s \<and> P (dv_queue s)" "manifest_Remove E i s = (r, s')"
  have "dv_queue s' = dv_queue s" using leavesD [OF queue_man_Remove s(2)] .
  then show "Wi a T s' \<and> P (dv_queue s') \<and>
     (r = Inr () \<or> (\<exists>e. r = Inl e \<and> not_catalogued e) \<longrightarrow> i \<notin> live_in (st_man (vs_man (wl_net s'))))"
    using endsD [OF manifest_Remove_ends _ s(2), of a T] s(1) by (simp add: Wi_def places_of_def)
qed

lemma Wi_absent:
  "Wi a (insert i T) s \<Longrightarrow> i \<notin> qr_ID ` set (dv_queue s) \<Longrightarrow> i \<notin> br_ID ` set (dv_bodies s) \<Longrightarrow>
   i \<notin> live_in (st_man (vs_man (wl_net s))) \<Longrightarrow> Wi a T s"
  unfolding Wi_def by (erule within_absent) (simp add: absent_def places_of_def)

lemma discard_ends:
  "ends (Wi a (insert i T)) (discardChunk E i) (\<lambda>r s. if r = Inr () then Wi a T s else Wi a (insert i T) s)"
proof -
  let ?U = "insert i T" and ?q = "\<lambda>s. i \<notin> qr_ID ` set (dv_queue s)" and ?m = "\<lambda>s. i \<notin> live_in (st_man (vs_man (wl_net s)))"
  have wd: "ends (Wi a ?U) (on_local (Packer_Withdraw (Vault_packer E) i)) (\<lambda>r s. Wi a ?U s \<and> (\<forall>b. r = Inr b \<longrightarrow> ?q s))"
    unfolding on_local_def by (rule ends_wrap, rule ends_conseq [OF withdraw_ends]) (auto split: sum.splits)
  have rm: "ends (\<lambda>s. Wi a ?U s \<and> ?q s) (catch_io (manifest_Remove E i) (\<lambda>e. if not_catalogued e then ret_io () else fail_io e))
      (\<lambda>r s. Wi a ?U s \<and> ?q s \<and> (r = Inr () \<longrightarrow> ?m s))"
    by (rule ends_catch [OF remove_ends]) (auto intro: ends_ret ends_fail)
  have bd: "ends (\<lambda>s. Wi a ?U s \<and> ?q s \<and> ?m s) (on_local (ForgetBody i)) (\<lambda>r s. if r = Inr () then Wi a T s else Wi a ?U s)"
    by (rule ends_conseq [OF body_gone [where a = a and T = "insert i T" and P = "\<lambda>q m. i \<notin> qr_ID ` set q \<and> i \<notin> live_in m"]])
      (simp_all add: Wi_absent [of a i])
  show ?thesis
    unfolding discardChunk_def
  proof (rule ends_bind [OF wd])
    fix x
    show "ends (\<lambda>s. Wi a ?U s \<and> (\<forall>b. Inr x = Inr b \<longrightarrow> ?q s))
       (bind_io (catch_io (manifest_Remove E i) (\<lambda>e. if not_catalogued e then ret_io () else fail_io e)) (\<lambda>_. on_local (ForgetBody i)))
       (\<lambda>r s. if r = Inr () then Wi a T s else Wi a ?U s)"
    proof (rule ends_conseq [where P = "\<lambda>s. Wi a ?U s \<and> ?q s"])
      show "ends (\<lambda>s. Wi a ?U s \<and> ?q s)
         (bind_io (catch_io (manifest_Remove E i) (\<lambda>e. if not_catalogued e then ret_io () else fail_io e)) (\<lambda>_. on_local (ForgetBody i)))
         (\<lambda>r s. if r = Inr () then Wi a T s else Wi a ?U s)"
        by (rule ends_bind [OF rm], rule ends_conseq [OF bd], simp_all)
    qed simp_all
  qed simp
qed

definition joined :: "verr \<Rightarrow> bool" where
  "joined e \<longleftrightarrow> (\<exists>c es. e = VeJoined c es)"

lemma discard_each_ends:
  "ends (Wi a (set ids \<union> T)) (discard_each E ids) (\<lambda>r s. r = Inr [] \<longrightarrow> Wi a T s)"
proof (induction ids arbitrary: T)
  case (Cons i ids)
  have one: "ends (Wi a (insert i (set ids \<union> T))) (outcome (discardChunk E i))
      (\<lambda>r s. case r of Inr (Inr u) \<Rightarrow> Wi a (set ids \<union> T) s | _ \<Rightarrow> True)"
    by (rule ends_outcome, rule ends_conseq [OF discard_ends]) (auto split: sum.splits if_splits)
  have rest: "ends (\<lambda>s. case x of Inr (u :: unit) \<Rightarrow> Wi a (set ids \<union> T) s | _ \<Rightarrow> True)
      (bind_io (discard_each E ids) (\<lambda>errs. ret_io (case x of Inl e \<Rightarrow> e # errs | Inr _ \<Rightarrow> errs)))
      (\<lambda>r s. r = Inr [] \<longrightarrow> Wi a T s)" for x
  proof (cases x)
    case (Inl e)
    then show ?thesis by (auto simp: ends_def bind_io_def ret_io_def split: prod.splits sum.splits)
  next
    case (Inr u)
    then show ?thesis
      by (simp, intro ends_bind [OF Cons.IH]) (auto intro!: ends_ret)
  qed
  show ?case
    by (simp, rule ends_bind [OF one], rule ends_conseq [OF rest]) auto
qed (simp add: ends_ret)

lemma discard_each_total: "\<exists>errs. fst (discard_each E ids s) = Inr errs"
proof (induction ids arbitrary: s)
  case (Cons i ids)
  obtain r s1 where d: "outcome (discardChunk E i) s = ((Inr r :: (verr, (verr, unit) result) result), s1)"
    by (cases "discardChunk E i s") (simp add: outcome_def)
  from Cons.IH [of s1] obtain errs s2 where "discard_each E ids s1 = (Inr errs, s2)" by (metis prod.collapse)
  with d show ?case by (simp add: bind_io_def ret_io_def)
qed (simp add: ret_io_def)

text \<open>A save that gives up either has all its chunks taken back or says which it could not.\<close>

lemma abandon_ends:
  "ends (Wi a (ref_ID ` set chunks)) (abandon E cause chunks) (\<lambda>r s. \<exists>e. r = Inl e \<and> (joined e \<or> Wi a {} s))"
proof -
  have d: "ends (Wi a (ref_ID ` set chunks)) (discard_each E (map ref_ID chunks)) (\<lambda>r s. (\<exists>x. r = Inr x) \<and> (r = Inr [] \<longrightarrow> Wi a {} s))"
    using discard_each_ends [of a "map ref_ID chunks" "{}" E] discard_each_total [of E "map ref_ID chunks"]
    unfolding ends_def by (auto simp: prod_eq_iff)
  show ?thesis unfolding abandon_def
    by (rule ends_bind [OF d]) (auto simp: joined_def intro!: ends_fail)
qed

lemma abandon_joined: "joined cause \<Longrightarrow> \<exists>e. fst (abandon E cause chunks s) = Inl e \<and> joined e"
proof -
  assume j: "joined cause"
  obtain errs s1 where "discard_each E (map ref_ID chunks) s = (Inr errs, s1)"
    using discard_each_total [of E "map ref_ID chunks" s] by (metis prod.collapse)
  then show ?thesis using j by (auto simp: abandon_def bind_io_def fail_io_def joined_def)
qed

lemma NewID_leaves: "leaves places_of NewID"
  by (rule places_random)

lemma queue_chunk_ends:
  "ends (Wi a (insert i T)) (queue_chunk E i cid fr)
     (\<lambda>r s. case r of Inl e \<Rightarrow> joined e \<or> Wi a T s | Inr _ \<Rightarrow> Wi a (insert i T) s)"
proof -
  have q: "ends (Wi a (insert i T)) (queue_record E i KindChunk cid fr) (\<lambda>_. Wi a (insert i T))"
    using queue_record_within [of a "insert i T" E i KindChunk cid fr] by simp
  have d: "ends (Wi a (insert i T)) (outcome (discardChunk E i))
      (\<lambda>r s. (\<exists>x. r = Inr x) \<and> (r = Inr (Inr ()) \<longrightarrow> Wi a T s))"
    by (rule ends_outcome, rule ends_conseq [OF discard_ends]) auto
  show ?thesis
    unfolding queue_chunk_def
  proof (rule ends_catch [OF q])
    fix e
    show "ends (Wi a (insert i T)) (bind_io (outcome (discardChunk E i)) (\<lambda>discarded.
        fail_io (case discarded of Inl e' \<Rightarrow> VeJoined e [e'] | Inr _ \<Rightarrow> e)))
      (\<lambda>r s. case r of Inl e \<Rightarrow> joined e \<or> Wi a T s | Inr _ \<Rightarrow> Wi a (insert i T) s)"
    proof (rule ends_bind [OF d])
      fix x :: "(verr, unit) result"
      show "ends (\<lambda>s. (\<exists>y. Inr x = (Inr y :: (verr, (verr, unit) result) result)) \<and> (Inr x = (Inr (Inr ()) :: (verr, (verr, unit) result) result) \<longrightarrow> Wi a T s))
         (fail_io (case x of Inl e' \<Rightarrow> VeJoined e [e'] | Inr _ \<Rightarrow> e))
         (\<lambda>r s. case r of Inl e \<Rightarrow> joined e \<or> Wi a T s | Inr _ \<Rightarrow> Wi a (insert i T) s)"
        by (cases x) (simp_all add: ends_fail joined_def)
    qed (simp add: joined_def)
  qed simp
qed

lemma writeChunk_ends:
  "ends (Wi a T) (writeChunk E session messages)
     (\<lambda>r s. case r of Inl e \<Rightarrow> joined e \<or> Wi a T s | Inr w \<Rightarrow> Wi a (insert (ref_ID (wc_ref w)) T) s)"
proof -
  let ?Q = "\<lambda>r s. case r of Inl e \<Rightarrow> joined e \<or> Wi a T s | Inr w \<Rightarrow> Wi a (insert (ref_ID (wc_ref w)) T) s"
  have queue: "ends (\<lambda>s. if u = () then Wi a (insert i T) s else Wi a T s)
      (bind_io (queue_chunk E i cid fr) (\<lambda>flushed. ret_io \<lparr>wc_ref = written_ref (new_chunk session i messages) body c, wc_flushed = flushed\<rparr>)) ?Q"
    for u i cid fr body c
    by (simp, rule ends_bind [OF queue_chunk_ends]) (auto intro!: ends_ret simp: written_ref_def new_chunk_def)
  show ?thesis
    unfolding writeChunk_def Let_def
  proof (rule ends_bind [OF Wi_leaves [OF NewID_leaves]])
    fix i
    let ?c = "new_chunk session i messages"
    have cid: "leaves places_of (seal_record E KindChunk i body)" for body
      unfolding seal_record_def by (auto intro!: leaves_rules frame split: prod.split)
    have checked: "leaves places_of (validate_io (Chunk_Validate ?c))"
      by (auto simp: validate_io_def intro: frame split: option.split)
    have tail: "ends (Wi a T) (bind_io (on_local (PutBody i KindChunk body)) (\<lambda>_.
        bind_io (queue_chunk E i (CID_String c) fr) (\<lambda>flushed. ret_io \<lparr>wc_ref = written_ref ?c body c, wc_flushed = flushed\<rparr>))) ?Q" for body c fr
      by (rule ends_bind [OF body_put]) (auto intro: ends_conseq [OF queue])
    show "ends (Wi a T) (bind_io (validate_io (Chunk_Validate ?c)) (\<lambda>_.
        bind_io (json_io (ve_jsonChunk E ?c)) (\<lambda>body.
        bind_io (seal_record E KindChunk i body) (\<lambda>(cid, fr).
        bind_io (on_local (PutBody i KindChunk body)) (\<lambda>_.
        bind_io (queue_chunk E i (CID_String cid) fr) (\<lambda>flushed.
        ret_io \<lparr>wc_ref = written_ref ?c body cid, wc_flushed = flushed\<rparr>)))))) ?Q"
      by (intro ends_bind [OF Wi_leaves [OF checked]] ends_bind [OF Wi_leaves [OF leaves_values(1)]] ends_bind [OF Wi_leaves [OF cid]])
        (auto simp: tail)
  qed simp
qed

section \<open>A save that gives up\<close>

lemma write_groups_ends:
  "ends (Wi a (ref_ID ` set chunks)) (write_groups E groups session chunks owed)
     (\<lambda>r s. case r of Inl e \<Rightarrow> joined e \<or> Wi a {} s | Inr (session', chunks', owed') \<Rightarrow> Wi a (ref_ID ` set chunks') s)"
proof (induction groups arbitrary: session chunks owed)
  case (Cons messages groups)
  have chunk: "ends (Wi a (ref_ID ` set chunks)) (catch_io (writeChunk E session messages) (\<lambda>e. abandon E e chunks))
      (\<lambda>r s. case r of Inl e \<Rightarrow> joined e \<or> Wi a {} s | Inr w \<Rightarrow> Wi a (insert (ref_ID (wc_ref w)) (ref_ID ` set chunks)) s)"
  proof (rule ends_catch [OF writeChunk_ends])
    fix e
    show "ends (\<lambda>s. case Inl e of Inl e \<Rightarrow> joined e \<or> Wi a (ref_ID ` set chunks) s | Inr w \<Rightarrow> Wi a (insert (ref_ID (wc_ref w)) (ref_ID ` set chunks)) s)
        (abandon E e chunks)
        (\<lambda>r s. case r of Inl e \<Rightarrow> joined e \<or> Wi a {} s | Inr (w :: writtenChunk) \<Rightarrow> Wi a (insert (ref_ID (wc_ref w)) (ref_ID ` set chunks)) s)"
    proof (cases "joined e")
      case True
      show ?thesis
      proof (rule ends_any)
        fix s s' and r :: "(verr, writtenChunk) result"
        assume run: "abandon E e chunks s = (r, s')"
        have "\<exists>e'. fst (abandon E e chunks s) = (Inl e' :: (verr, writtenChunk) result) \<and> joined e'"
          by (rule abandon_joined) (rule True)
        then obtain e' where "r = Inl e'" "joined e'" using run by auto
        then show "case r of Inl e \<Rightarrow> joined e \<or> Wi a {} s' | Inr w \<Rightarrow> Wi a (insert (ref_ID (wc_ref w)) (ref_ID ` set chunks)) s'" by simp
      qed
    next
      case False
      then show ?thesis by (intro ends_conseq [OF abandon_ends]) auto
    qed
  qed simp
  have more: "ends (Wi a (insert (ref_ID (wc_ref w)) (ref_ID ` set chunks)))
      (write_groups E groups session' (chunks @ [wc_ref w]) owed')
      (\<lambda>r s. case r of Inl e \<Rightarrow> joined e \<or> Wi a {} s | Inr (session', chunks', owed') \<Rightarrow> Wi a (ref_ID ` set chunks') s)" for w session' owed'
    using Cons.IH [where chunks = "chunks @ [wc_ref w]"] by simp
  show ?case
    by (simp, rule ends_bind [OF chunk]) (simp_all add: more)
qed (simp add: ends_ret)

lemma write_head_leaves:
  assumes "\<And>s. places_of (others 0 s) = places_of s"
  shows "leaves places_of (write_head E others req session from_version)"
proof -
  have checked: "leaves places_of (validate_io v)" for v :: "invalid option"
    by (auto simp: validate_io_def intro: frame split: option.split)
  show ?thesis unfolding write_head_def Let_def
    by (intro leaves_bind frame checked leaves_put assms)
qed

lemma save_ends:
  assumes calm: "\<And>s. places_of (others 0 s) = places_of s"
  shows "ends (Wi a {}) (save_transcript E others req) (\<lambda>r s. \<forall>e. r = Inl e \<longrightarrow> joined e \<or> Wi a {} s)"
proof -
  let ?Q = "\<lambda>r s. \<forall>e. r = Inl e \<longrightarrow> joined e \<or> Wi a {} s"
  have opened: "leaves places_of (openSession E req)"
    unfolding openSession_def by (auto intro!: leaves_rules frame)
  have valid: "leaves places_of (case v of Some e \<Rightarrow> fail_io e | None \<Rightarrow> ret_io ())" for v :: "verr option"
    by (auto intro: frame split: option.split)
  have parent: "leaves places_of (check_parent E session v)" for session v
    unfolding check_parent_def by (auto intro!: leaves_rules frame split: option.split)
  have cut: "leaves places_of (split_io E messages)" for messages
    unfolding split_io_def by (auto intro: frame split: sum.split)
  have hl: "leaves places_of (write_head E others req session1 v)" for session1 v
    by (rule write_head_leaves) (rule calm)
  have head: "ends (Wi a (ref_ID ` set chunks)) (catch_io (write_head E others req session1 v) (\<lambda>e. abandon E e chunks))
      (\<lambda>r s. case r of Inl e \<Rightarrow> joined e \<or> Wi a {} s | Inr _ \<Rightarrow> True)" for chunks session1 v
    by (rule ends_catch [OF Wi_leaves [OF hl]])
      (auto intro: ends_conseq [OF abandon_ends])
  have tail: "ends (\<lambda>s. case Inr x of Inl e \<Rightarrow> joined e \<or> Wi a {} s | Inr (session', chunks', owed') \<Rightarrow> Wi a (ref_ID ` set chunks') s)
      (case x of (session1, chunks, owed) \<Rightarrow>
         bind_io (catch_io (write_head E others req session1 v) (\<lambda>e. abandon E e chunks)) (\<lambda>(session, vector).
         ret_io (session, v, vector, chunks, owed))) ?Q" for x v
    by (cases x, simp, rule ends_bind [OF head]) (auto intro!: ends_ret)
  have gr: "ends (Wi a {}) (write_groups E gs session0 [] {})
     (\<lambda>r s. case r of Inl e \<Rightarrow> joined e \<or> Wi a {} s | Inr (session', chunks', owed') \<Rightarrow> Wi a (ref_ID ` set chunks') s)" for gs session0
    using write_groups_ends [of a "[]" E gs session0 "{}"] by simp
  have groups: "ends (Wi a {}) (bind_io (write_groups E gs session0 [] {}) (\<lambda>x. case x of (session1, chunks, owed) \<Rightarrow>
         bind_io (catch_io (write_head E others req session1 v) (\<lambda>e. abandon E e chunks)) (\<lambda>(session, vector).
         ret_io (session, v, vector, chunks, owed)))) ?Q" for gs session0 v
    by (rule ends_bind [OF gr tail]) simp
  show ?thesis
    unfolding save_transcript_def
    by (rule ends_bind [OF Wi_leaves [OF opened]])
      (auto intro!: ends_bind [OF Wi_leaves [OF valid]] ends_bind [OF Wi_leaves [OF parent]] ends_bind [OF Wi_leaves [OF cut]] groups)
qed

text \<open>
  C13. A save that stops before its head is written leaves nothing behind. Unless the error it returns
  joins the errors of taking its chunks back (\<open>errors.Join\<close>), there is no record in the queue and no
  body on the device that was not there before, and none live in the catalog that was not live or
  queued before: the flush a full queue sets off may have catalogued those. Any call may fail, and the
  writes of other processes in the middle concern neither queue, bodies nor catalog.
\<close>

theorem save_leaves_nothing:
  assumes run: "save_transcript E others req s = (Inl e, s')" and whole: "\<And>c es. e \<noteq> VeJoined c es"
    and calm: "\<And>s. places_of (others 0 s) = places_of s"
    and named: "\<And>i x. mf_entries (st_man (vs_man (wl_net s))) i = Some x \<Longrightarrow> me_ID x = i"
    and once: "distinct (map qr_ID (dv_queue s))"
  shows "qr_ID ` set (dv_queue s') \<subseteq> qr_ID ` set (dv_queue s) \<and>
    br_ID ` set (dv_bodies s') \<subseteq> br_ID ` set (dv_bodies s) \<and>
    live_in (st_man (vs_man (wl_net s'))) \<subseteq> live_in (st_man (vs_man (wl_net s))) \<union> qr_ID ` set (dv_queue s)"
proof -
  have "Wi (places_of s) {} s" using named once
    by (auto simp: Wi_def places_of_def man_named_def intro: within_start)
  moreover have "ends (Wi (places_of s) {}) (save_transcript E others req) (\<lambda>r s'. \<forall>e. r = Inl e \<longrightarrow> joined e \<or> Wi (places_of s) {} s')"
    by (rule save_ends) (rule calm)
  ultimately have "joined e \<or> Wi (places_of s) {} s'" using run by (simp add: ends_def)
  with whole have "Wi (places_of s) {} s'" by (simp add: joined_def)
  then show ?thesis by (simp add: Wi_def within_def places_of_def)
qed

text \<open>A save whose chunk is held and then refused by the queue's table, on a device that was empty.\<close>

definition sample_save :: SaveSessionRequest where
  "sample_save =
     \<lparr>sv_ID = replicate 16 0, sv_Title = '''', sv_Summary = '''', sv_Tags = [],
      sv_Project = \<lparr>prj_CWD = '''', prj_Repo = '''', prj_Branch = ''''\<rparr>, sv_Agent = \<lparr>agt_Name = '''', agt_Version = ''''\<rparr>,
      sv_Models = [], sv_Kind = '''', sv_AgentRef = None,
      sv_Lineage = \<lparr>lin_ParentSession = None, lin_ForkedFrom = None, lin_ResumedFrom = None, lin_Children = []\<rparr>,
      sv_Messages = [said_message ''u'' ''a''], sv_PreservedTail = [], sv_TokensIn = 0, sv_TokensOut = 0,
      sv_DurationMS = 0, sv_Archived = False, sv_Unarchive = False, sv_Durable = False\<rparr>"

definition refusing_vault :: "string set vworld" where
  "refusing_vault = sample_vault\<lparr>mc_step := 5, mc_plan := (\<lambda>k. if k = 12 then Fault 0 else NoFault)\<rparr>"

lemma sample_save_refused:
  "case save_transcript sample_venv (\<lambda>_ s. s) sample_save refusing_vault of
     (Inl (VePack (QueueFailed DbError)), s') \<Rightarrow> True | _ \<Rightarrow> False"
  by code_simp

theorem save_leaves_nothing_witness:
  "\<exists>s'. save_transcript sample_venv (\<lambda>_ s. s) sample_save refusing_vault = (Inl (VePack (QueueFailed DbError)), s') \<and>
     dv_queue s' = [] \<and> dv_bodies s' = [] \<and> live_in (st_man (vs_man (wl_net s'))) = {}"
proof -
  obtain s' where s': "save_transcript sample_venv (\<lambda>_ s. s) sample_save refusing_vault = (Inl (VePack (QueueFailed DbError)), s')"
    using sample_save_refused by (auto split: prod.splits sum.splits verr.splits pk_error.splits local_error.splits)
  from save_leaves_nothing [OF s'] have "dv_queue s' = [] \<and> dv_bodies s' = [] \<and> live_in (st_man (vs_man (wl_net s'))) = {}"
    by (simp add: refusing_vault_def sample_vault_defs sample_state_def live_in_def Manifest_Lookup_def)
  with s' show ?thesis by blast
qed

end
