(* ===== verification/Vault_Forget.thy ===== *)
theory Vault_Forget
  imports Vault_Places
begin

text \<open>
  Forgetting (\<open>vault/reclaim.go\<close> \<open>Forget\<close>, \<open>vault/session.go\<close> \<open>ForgetSession\<close>): what is left of a
  record once its forgetting returned, and of a record another flush holds.
\<close>

section \<open>A memory\<close>






















section \<open>A conversation\<close>
















end
