(* ===== verification/Vault_Flush.thy ===== *)
theory Vault_Flush
  imports Vault_Places Packer_Spec
begin

text \<open>
  The flush of the vault (\<open>vault/core.go\<close> \<open>recordFlush\<close> handed to the packer by \<open>openPacker\<close>): the
  catalogue meets the contract the packer's flush rests on, so a record leaves the queue of a vault
  only for an object the store wrote and a live entry of the catalog that names it.
\<close>

section \<open>The catalogue of a batch\<close>

text \<open>The record's live entry is of its content, and names an object the batch was written to.\<close>

definition named_in :: "Queued \<Rightarrow> Written list \<Rightarrow> Manifest \<Rightarrow> bool" where
  "named_in q written m \<longleftrightarrow>
     (\<exists>w entry. w \<in> set written \<and> wr_CID w = bl_CID (qd_Blob q) \<and> Manifest_Lookup m (qd_ID q) = Inr entry \<and>
        me_Kind entry = qd_Kind q \<and> ParseCID (wr_CID w) = Inr (me_CID entry) \<and>
        me_ObjectRef entry = wr_ObjectRef w \<and> me_SlabID entry = wr_SlabID w)"

lemma written_by_in: "written_by cid ws = Some w \<Longrightarrow> w \<in> set ws \<and> wr_CID w = cid"
  by (induction ws) (auto split: option.splits if_splits)

lemma named_in_other: "me_ID e \<noteq> qd_ID q \<Longrightarrow> named_in q ws (Manifest_note e m) = named_in q ws m"
  by (simp add: named_in_def Lookup_note)

text \<open>One record of a batch: whatever fails, the queue is left alone; a record that was catalogued is named.\<close>

lemma queue_of_places: "leaves places_of m \<Longrightarrow> keeps_queue m"
  unfolding leaves_def keeps_queue_def places_of_def by (metis places.select_convs(1))

lemma append_quiet: "keeps_queue (on_man (Manifest_Append C e))"
  unfolding keeps_queue_def
proof
  fix s
  obtain r s' where run: "on_man (Manifest_Append C e) s = (r, s')" by (cases "on_man (Manifest_Append C e) s")
  from on_man_append [OF run] show "dv_queue (snd (on_man (Manifest_Append C e) s)) = dv_queue s"
    using run by (auto simp: places_of_def)
qed

lemma catalogue_quiet: "keeps_queue (catalogue_each E ws records)"
proof (induction records)
  case (Cons q records)
  then show ?case
    by (auto intro!: keeps_queue_bind append_quiet keeps_queue_ret queue_of_places [OF leaves_values(2)]
      queue_of_places [OF places_clock(3)] queue_of_places [OF leaves_outcome [OF places_reads(2)]] split: option.split)
qed (simp add: keeps_queue_ret)

lemma catalogue_step:
  assumes run: "catalogue_each E ws (q # records) s = (Inr (), s')"
  obtains w entry s1 s2 where "written_by (bl_CID (qd_Blob q)) ws = Some w"
    "me_ID entry = qd_ID q" "named_in q ws (Manifest_note entry (pl_manifest (places_of s)))"
    "pl_manifest (places_of s2) = Manifest_note entry (pl_manifest (places_of s))"
    "catalogue_each E ws records s2 = (Inr (), s')"
proof -
  from run obtain w where w: "written_by (bl_CID (qd_Blob q)) ws = Some w"
    by (cases "written_by (bl_CID (qd_Blob q)) ws") (auto simp: fail_io_def)
  from run have "bind_io (seal_io (ParseCID (bl_CID (qd_Blob q)))) (\<lambda>cid.
      bind_io (on_local record_Now) (\<lambda>now. bind_io (outcome (RankingMetaFor (qd_ID q))) (\<lambda>meta.
      bind_io (on_man (Manifest_Append (ve_codec E) (flush_entry q cid w now meta))) (\<lambda>_. catalogue_each E ws records)))) s = (Inr (), s')"
    by (simp add: w)
  then obtain cid sa where cid: "seal_io (ParseCID (bl_CID (qd_Blob q))) s = (Inr cid, sa)"
    and run: "bind_io (on_local record_Now) (\<lambda>now. bind_io (outcome (RankingMetaFor (qd_ID q))) (\<lambda>meta.
      bind_io (on_man (Manifest_Append (ve_codec E) (flush_entry q cid w now meta))) (\<lambda>_. catalogue_each E ws records))) sa = (Inr (), s')"
    by (rule bind_io_InrE)
  from run obtain now sb where now: "on_local record_Now sa = (Inr now, sb)"
    and run: "bind_io (outcome (RankingMetaFor (qd_ID q))) (\<lambda>meta.
      bind_io (on_man (Manifest_Append (ve_codec E) (flush_entry q cid w now meta))) (\<lambda>_. catalogue_each E ws records)) sb = (Inr (), s')"
    by (rule bind_io_InrE)
  from run obtain meta sc where meta: "outcome (RankingMetaFor (qd_ID q)) sb = (Inr meta :: (verr, (local_error, RankingMeta) result) result, sc)"
    and run: "bind_io (on_man (Manifest_Append (ve_codec E) (flush_entry q cid w now meta))) (\<lambda>_. catalogue_each E ws records) sc = (Inr (), s')"
    by (rule bind_io_InrE)
  let ?e = "flush_entry q cid w now meta"
  from run obtain u sd where app: "on_man (Manifest_Append (ve_codec E) ?e) sc = (Inr u, sd)"
    and run: "catalogue_each E ws records sd = (Inr (), s')" by (rule bind_io_InrE)
  have "places_of sc = places_of s"
    using leavesD [OF leaves_values(2) cid, of places_of] leavesD [OF places_clock(3) now]
      leavesD [OF leaves_outcome [OF places_reads(2)] meta] by simp
  with on_man_append [OF app] have m: "pl_manifest (places_of sd) = Manifest_note ?e (pl_manifest (places_of s))" by auto
  have "ParseCID (bl_CID (qd_Blob q)) = Inr cid"
    using cid by (auto simp: seal_io_def ret_io_def fail_io_def split: sum.splits)
  then have "named_in q ws (Manifest_note ?e (pl_manifest (places_of s)))"
    using written_by_in [OF w]
    by (intro named_in_def [THEN iffD2] exI [of _ w] exI [of _ ?e]) (simp add: Lookup_note flush_entry_def)
  then show ?thesis by (intro that [OF w _ _ m run]) (simp_all add: flush_entry_def)
qed

lemma catalogue_names:
  assumes "catalogue_each E ws records s = (Inr (), s')" and "distinct (map qd_ID records)"
  shows "(\<forall>q \<in> set records. named_in q ws (st_man (vs_man (wl_net s')))) \<and>
    (\<forall>q. qd_ID q \<notin> qd_ID ` set records \<longrightarrow>
       named_in q ws (st_man (vs_man (wl_net s'))) = named_in q ws (st_man (vs_man (wl_net s))))"
  using assms
proof (induction records arbitrary: s)
  case (Cons q records)
  from Cons.prems(1) obtain w entry s2 where step: "me_ID entry = qd_ID q"
    "named_in q ws (Manifest_note entry (pl_manifest (places_of s)))"
    "pl_manifest (places_of s2) = Manifest_note entry (pl_manifest (places_of s))"
    "catalogue_each E ws records s2 = (Inr (), s')" by (rule catalogue_step)
  have m: "st_man (vs_man (wl_net s2)) = Manifest_note entry (st_man (vs_man (wl_net s)))" using step(3) by (simp add: places_of_def)
  note rest = Cons.IH [OF step(4)]
  have "qd_ID q \<notin> qd_ID ` set records" using Cons.prems(2) by simp
  then have "named_in q ws (st_man (vs_man (wl_net s')))"
    using rest Cons.prems(2) step(2) m by (simp add: places_of_def)
  then show ?case using rest Cons.prems(2) m step(1) by (auto simp: named_in_other)
qed (simp add: ret_io_def)

section \<open>The vault's packer meets the contract\<close>

lemma vault_ledger: "pred_option ledger_keeps (pk_store (Vault_packer E))"
  by (cases "ve_client E")
    (auto simp: Vault_packer_def Packer_OnFlush_def Vault_store_def Store_New_def ledger_keeps_def keeps_recordSlabs)

interpretation vault_flush: flush_callback "Vault_packer E" "\<lambda>result. wrap_io (\<lambda>_. ''catalog'') (recordFlush E result)"
  "\<lambda>q flushed n. named_in q (fu_Written flushed) (st_man (vs_man n))" for E :: "('m, 'o) venv"
proof unfold_locales
  show "pk_onFlush (Vault_packer E) = Some (\<lambda>result. wrap_io (\<lambda>_. ''catalog'') (recordFlush E result))"
    by (simp add: Vault_packer_def Packer_OnFlush_def)
  show "pred_option ledger_keeps (pk_store (Vault_packer E))" by (rule vault_ledger)
  show "keeps_queue (wrap_io (\<lambda>_. ''catalog'') (recordFlush E res))" for res
    unfolding recordFlush_def by (rule keeps_queue_wrap [OF catalogue_quiet])
  fix res and s s' :: "'m vworld" and q
  assume run: "wrap_io (\<lambda>_. ''catalog'') (recordFlush E res) s = (Inr (), s')" and once: "distinct (map qd_ID (ps_Records res))"
    and here: "q \<in> set (ps_Records res)"
  have "catalogue_each E (fu_Written (ps_Flush res)) (ps_Records res) s = (Inr (), s')"
    using run by (auto simp: wrap_io_def recordFlush_def split: prod.splits sum.splits)
  from catalogue_names [OF this once] here
  show "named_in q (fu_Written (ps_Flush res)) (st_man (vs_man (wl_net s')))" by simp
qed

section \<open>What a flush does to the queue\<close>

text \<open>
  C12. However a flush of the vault ends, whichever of its calls fails, every record that was queued is
  still queued with its payload, or it is safe: it is one of the rows the flush claimed, the batch of
  exactly those rows was written to the network without an error, and the live entry of the catalog under
  its id is of its kind and its content and names an object that write reports for it. And a flush that
  returns without an error leaves in the queue no record it could have claimed.
\<close>

theorem flush_loses_nothing:
  assumes "distinct (map qr_ID (dv_queue s))" and "Packer_flush (Vault_packer E) reason s = (r, s')"
  shows "(\<forall>q \<in> set (dv_queue s).
      row_blob q \<in> row_blob ` set (dv_queue s') \<or>
      (\<exists>c claimed s1 flushed s2. ve_client E = Some c \<and>
         ClaimQueued (ve_owner E) (claimTimeout (ve_policy E)) 0 s = (Inr claimed, s1) \<and> row_blob q \<in> set claimed \<and>
         PutBatch (Store_New (over_sdk c) recordSlabs) (map (qd_Blob \<circ> queued_of) claimed) s1 = (Inr flushed, s2) \<and>
         named_in (queued_of (row_blob q)) (fu_Written flushed) (st_man (vs_man (wl_net s'))))) \<and>
    (\<forall>result. r = Inr result \<longrightarrow> (\<forall>q \<in> set (dv_queue s).
      claimable (claimTimeout (ve_policy E)) (dv_clock s (mc_step s)) q \<longrightarrow> qr_ID q \<notin> qr_ID ` set (dv_queue s')))"
proof (intro conjI ballI allI impI)
  fix q assume q: "q \<in> set (dv_queue s)"
  show "row_blob q \<in> row_blob ` set (dv_queue s') \<or>
      (\<exists>c claimed s1 flushed s2. ve_client E = Some c \<and>
         ClaimQueued (ve_owner E) (claimTimeout (ve_policy E)) 0 s = (Inr claimed, s1) \<and> row_blob q \<in> set claimed \<and>
         PutBatch (Store_New (over_sdk c) recordSlabs) (map (qd_Blob \<circ> queued_of) claimed) s1 = (Inr flushed, s2) \<and>
         named_in (queued_of (row_blob q)) (fu_Written flushed) (st_man (vs_man (wl_net s'))))"
    using vault_flush.flush_keeps [OF assms(2,1) q]
    by (auto simp: Vault_packer_def Packer_OnFlush_def Vault_store_def)
next
  fix result q assume r: "r = Inr result" and q: "q \<in> set (dv_queue s)"
    "claimable (claimTimeout (ve_policy E)) (dv_clock s (mc_step s)) q"
  show "qr_ID q \<notin> qr_ID ` set (dv_queue s')"
  proof
    assume "qr_ID q \<in> qr_ID ` set (dv_queue s')"
    then obtain v where "v \<in> set (dv_queue s')" "qr_ID q = qr_ID v" by auto
    with vault_flush.flush_empties [OF assms(2) [unfolded r], of v] q show False
      by (simp add: Vault_packer_def Packer_OnFlush_def)
  qed
qed

text \<open>
  A vault with one record in its queue, and a network that writes a batch of one as one object. The
  flush writes the record, catalogues it and lets it out of the queue.
\<close>

definition flush_row :: QueueRow where
  "flush_row = sample_row\<lparr>qr_CID := hex_encode (replicate 32 7)\<rparr>"

definition flush_venv :: "(string, unit) result \<Rightarrow> (string set, unit) venv" where
  "flush_venv pinned = sample_venv\<lparr>ve_client := Some (sample_sdk [one_object] pinned),
     ve_codec := sample_codec\<lparr>cd_marshal := (\<lambda>e. Some (me_ID e))\<rparr>\<rparr>"

definition flush_vault :: "string set vworld" where
  "flush_vault = sample_vault\<lparr>dv_queue := [flush_row]\<rparr>"

lemma flush_drops:
  "case Packer_flush (Vault_packer (flush_venv (Inr ()))) ReasonManual flush_vault of (r, s') \<Rightarrow> dv_queue s' = []"
  by code_simp

theorem flush_loses_nothing_witness:
  "\<exists>s' entry. snd (Packer_flush (Vault_packer (flush_venv (Inr ()))) ReasonManual flush_vault) = s' \<and> dv_queue s' = [] \<and>
     Manifest_Lookup (st_man (vs_man (wl_net s'))) [7] = Inr entry \<and> ParseCID (qr_CID flush_row) = Inr (me_CID entry)"
proof -
  obtain r s' where run: "Packer_flush (Vault_packer (flush_venv (Inr ()))) ReasonManual flush_vault = (r, s')"
    by (cases "Packer_flush (Vault_packer (flush_venv (Inr ()))) ReasonManual flush_vault")
  have empty: "dv_queue s' = []" using flush_drops run by simp
  have "distinct (map qr_ID (dv_queue flush_vault))" by (simp add: flush_vault_def)
  from conjunct1 [OF flush_loses_nothing [OF this run]] empty
  obtain flushed :: Flush where "named_in (queued_of (row_blob flush_row)) (fu_Written flushed) (st_man (vs_man (wl_net s')))"
    by (auto simp: flush_vault_def)
  then obtain entry where "Manifest_Lookup (st_man (vs_man (wl_net s'))) [7] = Inr entry" "ParseCID (qr_CID flush_row) = Inr (me_CID entry)"
    by (auto simp: named_in_def queued_of_def row_blob_def flush_row_def sample_row_def)
  then show ?thesis using run empty by auto
qed

end
