(* ===== verification/Vault_Hydrate.thy ===== *)
theory Vault_Hydrate
  imports Vault_Rebuild
begin

text \<open>
  Putting a vault back from the recovery phrase and the indexer alone: \<open>vault/hydrate.go\<close>, to the depth
  asked for, and \<open>vault/recover.go\<close>. The walk reads the whole change feed and then hands over one
  object at a time. A run that fails returns the report so far beside its error in the source; here
  the error stands alone.
\<close>

section \<open>Depths\<close>

type_synonym HydrateDepth = string

definition HydrateCatalog :: HydrateDepth where "HydrateCatalog = ''catalog''"
definition HydrateMetadata :: HydrateDepth where "HydrateMetadata = ''metadata''"
definition HydrateIndex :: HydrateDepth where "HydrateIndex = ''index''"

definition hydrateRank :: "HydrateDepth \<rightharpoonup> nat" where
  "hydrateRank = [HydrateCatalog \<mapsto> 0, HydrateMetadata \<mapsto> 1, HydrateIndex \<mapsto> 2]"

definition depth_rank :: "HydrateDepth \<Rightarrow> nat" where
  "depth_rank d = (case hydrateRank d of None \<Rightarrow> 0 | Some n \<Rightarrow> n)"

definition depth_includes :: "HydrateDepth \<Rightarrow> HydrateDepth \<Rightarrow> bool" where
  "depth_includes d other \<longleftrightarrow> depth_rank d \<ge> depth_rank other"

definition HydrateDepth_Valid :: "HydrateDepth \<Rightarrow> bool" where
  "HydrateDepth_Valid d \<longleftrightarrow> hydrateRank d \<noteq> None"

record HydrateReport =
  hy_Depth :: HydrateDepth
  hy_Objects :: nat
  hy_Frames :: nat
  hy_Bytes :: nat
  hy_Records :: nat
  hy_Bodies :: nat
  hy_Sessions :: nat
  hy_Embedded :: nat
  hy_Slabs :: nat
  hy_Foreign :: nat
  hy_Damaged :: nat
  hy_Unreadable :: nat
  hy_Rebuild :: RebuildReport

definition hydrate_start :: "HydrateDepth \<Rightarrow> HydrateReport" where
  "hydrate_start d = \<lparr>hy_Depth = d, hy_Objects = 0, hy_Frames = 0, hy_Bytes = 0, hy_Records = 0, hy_Bodies = 0,
     hy_Sessions = 0, hy_Embedded = 0, hy_Slabs = 0, hy_Foreign = 0, hy_Damaged = 0, hy_Unreadable = 0,
     hy_Rebuild = empty_report\<rparr>"

text \<open>The errors \<open>errors.Is (err, seal.ErrCorrupt)\<close> holds of.\<close>

definition corrupt :: "verr \<Rightarrow> bool" where
  "corrupt e \<longleftrightarrow>
     (case e of
        VeSeal x \<Rightarrow> is_corrupt x
      | VeMan (LineUnreadable _ _ (BadSeal x)) \<Rightarrow> is_corrupt x
      | _ \<Rightarrow> False)"

section \<open>One record\<close>

definition frame_entry :: "Frame \<Rightarrow> StoredObject \<Rightarrow> CID \<Rightarrow> Time \<Rightarrow> Entry" where
  "frame_entry frame object cid written =
     \<lparr>me_ID = frm_ID frame, me_Kind = frm_Kind frame, me_Type = '''', me_Version = 1, me_CID = cid,
      me_ObjectRef = ob_Ref object, me_SlabID = ob_Slab object, me_Bytes = int (length (frm_Sealed frame)), me_Tags = [],
      me_WrittenAt = written, me_Deleted = False\<rparr>"

definition memory_entry :: "Frame \<Rightarrow> StoredObject \<Rightarrow> CID \<Rightarrow> Memory \<Rightarrow> Entry" where
  "memory_entry frame object cid memory =
     (frame_entry frame object cid (mem_UpdatedAt memory))\<lparr>me_Type := mem_Type memory, me_Version := mem_Version memory,
       me_Tags := mem_Tags memory\<rparr>"

definition check_chunk :: "('m, 'o) venv \<Rightarrow> Frame \<Rightarrow> bytes \<Rightarrow> (verr, Chunk) result" where
  "check_chunk E frame body =
     (case ve_chunkJSON E body of
        None \<Rightarrow> Inl VeJSON
      | Some chunk \<Rightarrow> if chk_ID chunk \<noteq> frm_ID frame then Inl (VeIdentity (frm_ID frame) (chk_ID chunk)) else Inr chunk)"

definition check_memory :: "('m, 'o) venv \<Rightarrow> Frame \<Rightarrow> bytes \<Rightarrow> (verr, Memory) result" where
  "check_memory E frame body =
     (case ve_memoryJSON E body of
        None \<Rightarrow> Inl VeJSON
      | Some memory \<Rightarrow> if mem_ID memory \<noteq> frm_ID frame then Inl (VeIdentity (frm_ID frame) (mem_ID memory)) else Inr memory)"

definition catalogEntry :: "('m, 'o) venv \<Rightarrow> Frame \<Rightarrow> StoredObject \<Rightarrow> bytes \<Rightarrow> CID \<Rightarrow> (verr, Entry) result" where
  "catalogEntry E frame object body cid =
     (if frm_Kind frame = KindChunk
      then bind_result (check_chunk E frame body) (\<lambda>_. Inr (frame_entry frame object cid (stamp (ob_UpdatedAt object))))
      else bind_result (check_memory E frame body) (\<lambda>memory. Inr (memory_entry frame object cid memory)))"

text \<open>The catalog and the ledger, and the body when the depth asks for it.\<close>

definition hydrate_record ::
  "('m, 'o) venv \<Rightarrow> HydrateDepth \<Rightarrow> Frame \<Rightarrow> StoredObject \<Rightarrow> ('m, bytes) vop" where
  "hydrate_record E d frame object =
     bind_io (seal_io (Open (ve_crypto E) (ve_sealer E) (frm_Sealed frame))) (\<lambda>body.
     bind_io (seal_io (Sealer_CID (ve_crypto E) (ve_sealer E) body)) (\<lambda>cid.
     bind_io (lift_io (catalogEntry E frame object body cid)) (\<lambda>entry.
     bind_io (on_man (Manifest_Append (ve_codec E) entry)) (\<lambda>_.
     bind_io (on_local (Adopt (ob_Slab object) 1 (int (length (frm_Sealed frame))))) (\<lambda>_.
     if \<not> depth_includes d HydrateMetadata then ret_io body
     else bind_io (on_local (PutBody (frm_ID frame) (frm_Kind frame) body)) (\<lambda>_. ret_io body))))))"

text \<open>What ranks a memory, and its vector when the depth asks for it.\<close>

definition hydrate_memory :: "('m, 'o) venv \<Rightarrow> HydrateDepth \<Rightarrow> Frame \<Rightarrow> bytes \<Rightarrow> ('m, bool) vop" where
  "hydrate_memory E d frame body =
     bind_io (json_io (ve_memoryJSON E body)) (\<lambda>memory.
     bind_io (put_ranking E (rankingMeta memory)) (\<lambda>_.
     if \<not> depth_includes d HydrateIndex then ret_io False
     else bind_io (Vault_EmbedOne E (Memory_IndexText memory)) (\<lambda>vector.
       bind_io (putVector E (frm_ID frame) vector) (\<lambda>_. ret_io True))))"

definition hydrateFrame ::
  "('m, 'o) venv \<Rightarrow> HydrateDepth \<Rightarrow> Frame \<Rightarrow> StoredObject \<Rightarrow> HydrateReport \<Rightarrow> ('m, (verr, unit) result \<times> HydrateReport) vop" where
  "hydrateFrame E d frame object report =
     bind_io (outcome (hydrate_record E d frame object)) (\<lambda>got.
     case got of
       Inl e \<Rightarrow> ret_io (Inl e, report)
     | Inr body \<Rightarrow>
         if \<not> depth_includes d HydrateMetadata then ret_io (Inr (), report)
         else
           let restored = report\<lparr>hy_Bodies := hy_Bodies report + 1\<rparr> in
           if frm_Kind frame = KindChunk then ret_io (Inr (), restored)
           else bind_io (outcome (hydrate_memory E d frame body)) (\<lambda>r.
             case r of
               Inl e \<Rightarrow> ret_io (Inl e, restored)
             | Inr emb \<Rightarrow>
                 ret_io (Inr (), if emb then restored\<lparr>hy_Embedded := hy_Embedded restored + 1\<rparr> else restored)))"

section \<open>The walk\<close>

fun hydrate_frames ::
  "('m, 'o) venv \<Rightarrow> HydrateDepth \<Rightarrow> StoredObject \<Rightarrow> Frame list \<Rightarrow> HydrateReport \<Rightarrow> string list \<Rightarrow>
   ('m, HydrateReport \<times> string list) vop" where
  "hydrate_frames E d object [] report slabs = ret_io (report, slabs)"
| "hydrate_frames E d object (frame # frames) report slabs =
     bind_io (hydrateFrame E d frame object report) (\<lambda>(r, report').
     case r of
       Inl e \<Rightarrow>
         if corrupt e then hydrate_frames E d object frames (report'\<lparr>hy_Foreign := hy_Foreign report' + 1\<rparr>) slabs
         else fail_io e
     | Inr _ \<Rightarrow>
         hydrate_frames E d object frames (report'\<lparr>hy_Records := hy_Records report' + 1\<rparr>) (List.insert (ob_Slab object) slabs))"

fun hydrate_objects ::
  "('m, 'o) venv \<Rightarrow> HydrateDepth \<Rightarrow> StoredObject list \<Rightarrow> HydrateReport \<Rightarrow> string list \<Rightarrow>
   ('m, HydrateReport \<times> string list) vop" where
  "hydrate_objects E d [] report slabs = ret_io (report, slabs)"
| "hydrate_objects E d (object # objects) report slabs =
     bind_io (on_net (ve_ReadObject E object)) (\<lambda>payload.
     case Frames payload of
       (frames, parseErr) \<Rightarrow>
         bind_io (hydrate_frames E d object frames
           (report\<lparr>hy_Objects := hy_Objects report + 1, hy_Bytes := hy_Bytes report + length payload,
              hy_Damaged := hy_Damaged report + (if parseErr = None then 0 else 1),
              hy_Frames := hy_Frames report + length frames\<rparr>) slabs) (\<lambda>(report', slabs').
         hydrate_objects E d objects report' slabs'))"

definition walk_objects_op :: "('m, 'o) sdk \<Rightarrow> ('m, StoredObject list \<times> walk) vpop" where
  "walk_objects_op c s =
     (case WalkObjectsStats c (vs_net (wl_net s)) of
        None \<Rightarrow> None
      | Some (r, m) \<Rightarrow> Some (map_sum VeNet id r, s\<lparr>wl_net := (wl_net s)\<lparr>vs_net := m\<rparr>\<rparr>))"

definition hydrate_walk :: "('m, 'o) venv \<Rightarrow> ('m, 'o) sdk \<Rightarrow> HydrateDepth \<Rightarrow> ('m, HydrateReport) vpop" where
  "hydrate_walk E c d =
     bind_pio (walk_objects_op c) (\<lambda>(objects, stats). run_pio (
     bind_io (hydrate_objects E d objects (hydrate_start d) []) (\<lambda>(report, slabs).
     ret_io (report\<lparr>hy_Unreadable := length (wk_Unreadable stats), hy_Slabs := length slabs\<rparr>))))"

definition Hydrate :: "('m, 'o) venv \<Rightarrow> HydrateDepth \<Rightarrow> ('m, HydrateReport) vpop" where
  "Hydrate E d0 =
     (case ve_client E of
        None \<Rightarrow> fail_pio VeOffline
      | Some c \<Rightarrow>
          let d = (if d0 = '''' then HydrateMetadata else d0) in
          if \<not> HydrateDepth_Valid d then fail_pio (VeBadDepth d)
          else bind_pio (hydrate_walk E c d) (\<lambda>report.
            if \<not> depth_includes d HydrateMetadata then ret_pio report
            else bind_pio (RebuildSessions E \<lparr>bq_Overwrite = False, bq_Embed = depth_includes d HydrateIndex\<rparr>) (\<lambda>rebuilt.
              ret_pio (report\<lparr>hy_Rebuild := rebuilt, hy_Sessions := rbr_Stored rebuilt\<rparr>))))"

section \<open>What the device has restored\<close>

record Restoration =
  rt_Untouched :: bool
  rt_Memories :: nat
  rt_Chunks :: nat

definition Restoration_Complete :: "Restoration \<Rightarrow> bool" where
  "Restoration_Complete r \<longleftrightarrow> rt_Memories r = 0 \<and> rt_Chunks r = 0"

definition missing_of :: "Kind \<Rightarrow> ID set \<Rightarrow> Entry list \<Rightarrow> nat" where
  "missing_of kind restored entries = length (filter (\<lambda>e. me_ID e \<notin> restored \<and> me_Kind e = kind) entries)"

definition Vault_Restoration :: "('m, Restoration) vop" where
  "Vault_Restoration =
     bind_io (get_io (\<lambda>s. st_man (vs_man (wl_net s)))) (\<lambda>m.
     if Manifest_Named m = 0 then
       bind_io (on_local TrackedSlabs) (\<lambda>slabs. ret_io \<lparr>rt_Untouched = (length slabs = 0), rt_Memories = 0, rt_Chunks = 0\<rparr>)
     else if length (Manifest_Entries m) = 0 then ret_io \<lparr>rt_Untouched = False, rt_Memories = 0, rt_Chunks = 0\<rparr>
     else
       bind_io (on_local (RankingMetaIDs KindMemory)) (\<lambda>described.
       bind_io (on_local (BodyIDsOfKind KindChunk)) (\<lambda>held_ids.
       let restored = set described \<union> set held_ids in
       ret_io \<lparr>rt_Untouched = False, rt_Memories = missing_of KindMemory restored (Manifest_Entries m),
         rt_Chunks = missing_of KindChunk restored (Manifest_Entries m)\<rparr>)))"

section \<open>Recovering\<close>

record RecoveryReport =
  rv_Objects :: nat
  rv_Frames :: nat
  rv_Recovered :: nat
  rv_Foreign :: nat
  rv_Damaged :: nat
  rv_Unreadable :: nat
  rv_Embedded :: nat

definition recovery_start :: RecoveryReport where
  "recovery_start = \<lparr>rv_Objects = 0, rv_Frames = 0, rv_Recovered = 0, rv_Foreign = 0, rv_Damaged = 0, rv_Unreadable = 0,
     rv_Embedded = 0\<rparr>"

definition recoverChunk :: "('m, 'o) venv \<Rightarrow> Frame \<Rightarrow> StoredObject \<Rightarrow> bytes \<Rightarrow> ('m, unit) vop" where
  "recoverChunk E frame object body =
     bind_io (lift_io (check_chunk E frame body)) (\<lambda>_.
     bind_io (on_local (PutBody (frm_ID frame) (frm_Kind frame) body)) (\<lambda>_.
     bind_io (seal_io (Sealer_CID (ve_crypto E) (ve_sealer E) body)) (\<lambda>cid.
     bind_io (on_local record_Now) (\<lambda>now.
     bind_io (on_man (Manifest_Append (ve_codec E) (frame_entry frame object cid now))) (\<lambda>_.
     on_local (Track (ob_Slab object) 1 (int (length (frm_Sealed frame)))))))))"

definition recoverMemory :: "('m, 'o) venv \<Rightarrow> bool \<Rightarrow> Frame \<Rightarrow> StoredObject \<Rightarrow> bytes \<Rightarrow> ('m, bool) vop" where
  "recoverMemory E emb frame object body =
     bind_io (lift_io (check_memory E frame body)) (\<lambda>memory.
     bind_io (on_local (PutBody (frm_ID frame) (frm_Kind frame) body)) (\<lambda>_.
     bind_io (put_ranking E (rankingMeta memory)) (\<lambda>_.
     bind_io (seal_io (Sealer_CID (ve_crypto E) (ve_sealer E) body)) (\<lambda>cid.
     bind_io (on_man (Manifest_Append (ve_codec E) (memory_entry frame object cid memory))) (\<lambda>_.
     bind_io (on_local (Track (ob_Slab object) 1 (int (length (frm_Sealed frame))))) (\<lambda>_.
     if \<not> emb then ret_io False
     else bind_io (Vault_EmbedOne E (Memory_IndexText memory)) (\<lambda>vector.
       bind_io (putVector E (frm_ID frame) vector) (\<lambda>_. ret_io True))))))))"

definition recoverFrame :: "('m, 'o) venv \<Rightarrow> bool \<Rightarrow> Frame \<Rightarrow> StoredObject \<Rightarrow> ('m, bool) vop" where
  "recoverFrame E emb frame object =
     bind_io (seal_io (Open (ve_crypto E) (ve_sealer E) (frm_Sealed frame))) (\<lambda>body.
     if frm_Kind frame = KindChunk then bind_io (recoverChunk E frame object body) (\<lambda>_. ret_io False)
     else recoverMemory E emb frame object body)"

fun recover_frames ::
  "('m, 'o) venv \<Rightarrow> bool \<Rightarrow> StoredObject \<Rightarrow> Frame list \<Rightarrow> RecoveryReport \<Rightarrow> ('m, RecoveryReport) vop" where
  "recover_frames E emb object [] report = ret_io report"
| "recover_frames E emb object (frame # frames) report =
     bind_io (outcome (recoverFrame E emb frame object)) (\<lambda>r.
     case r of
       Inl e \<Rightarrow>
         if corrupt e then recover_frames E emb object frames (report\<lparr>rv_Foreign := rv_Foreign report + 1\<rparr>) else fail_io e
     | Inr recovered \<Rightarrow>
         recover_frames E emb object frames
           (report\<lparr>rv_Recovered := rv_Recovered report + 1, rv_Embedded := rv_Embedded report + (if recovered then 1 else 0)\<rparr>))"

fun recover_objects ::
  "('m, 'o) venv \<Rightarrow> bool \<Rightarrow> StoredObject list \<Rightarrow> RecoveryReport \<Rightarrow> ('m, RecoveryReport) vop" where
  "recover_objects E emb [] report = ret_io report"
| "recover_objects E emb (object # objects) report =
     bind_io (on_net (ve_ReadObject E object)) (\<lambda>payload.
     case Frames payload of
       (frames, parseErr) \<Rightarrow>
         bind_io (recover_frames E emb object frames
           (report\<lparr>rv_Objects := rv_Objects report + 1, rv_Damaged := rv_Damaged report + (if parseErr = None then 0 else 1),
              rv_Frames := rv_Frames report + length frames\<rparr>)) (recover_objects E emb objects))"

definition Recover :: "('m, 'o) venv \<Rightarrow> bool \<Rightarrow> ('m, RecoveryReport) vpop" where
  "Recover E emb =
     (case ve_client E of
        None \<Rightarrow> fail_pio VeOffline
      | Some c \<Rightarrow>
          bind_pio (walk_objects_op c) (\<lambda>(objects, stats). run_pio (
          bind_io (recover_objects E emb objects recovery_start) (\<lambda>report.
          ret_io (report\<lparr>rv_Unreadable := length (wk_Unreadable stats)\<rparr>)))))"

end
