(* ===== verification/Spec2Isabelle.thy ===== *)
theory Spec2Isabelle
  imports Rec_Session Manifest_Spec Index_Spec Ix_Core Recall_Spec Packer_System Vault_Reclaim Local_Records Local_Sessions Sia_Location Vault_Rebuild_Spec Vault_Load_Spec
    Vault_Fetch_Spec Vault_Forget Vault_Flush Vault_Hydrate
begin

text \<open>
  sennit keeps an agent's memories and conversations: sealed records, packed into slabs of a storage
  network, with everything needed to find them kept on the device. This development models the Go
  code below \<open>src/\<close> that does so, from the record types up to the operations of the vault, and
  proves what each part promises.

  \<^bold>\<open>The parts and how they interact.\<close> A record (\<open>record\<close>) is marshalled, sealed and framed
  (\<open>seal\<close>), held as a body and queued on the device (\<open>local\<close>), and written with others as one batch
  when a policy says so (\<open>store/packer\<close>, \<open>store\<close>) through the adapter of the network (\<open>sia\<close>). What was
  written is catalogued in an append-only log with a snapshot (\<open>manifest\<close>). Memories and heads of
  conversations have a vector (\<open>index\<close>) and ranking rows; a recall fuses both (\<open>recall\<close>). Slabs with
  nothing live in them are released and sparse ones repacked (\<open>store/reclaim\<close>). The vault (\<open>vault\<close>)
  orchestrates all of these: store, fetch, page, forget, rebuild, hydrate, recover, reclaim.

  \<^bold>\<open>Theories and sources.\<close>

  \<^item> What is used of Go: \<open>Prelude\<close>, \<open>Go_Bytes\<close>, \<open>Go_Strings\<close>, \<open>Go_Base64\<close>, \<open>Go_Base64_URL\<close>, \<open>Go_Sort\<close>,
    \<open>Go_Heap\<close>, \<open>Go_Float\<close> (float32 and float64 as their bit patterns), \<open>Go_Time\<close>, \<open>Go_IO\<close> (operations
    that may fail at any system call), \<open>Go_Partial\<close> (operations that may not return).
  \<^item> \<open>record/\<close>: \<open>Rec_Core\<close>, \<open>Rec_Message\<close>, \<open>Rec_Chunk\<close>, \<open>Rec_Session\<close>: ids, vocabularies, memories,
    messages and their parts, chunks, spans, heads, with every \<open>Validate\<close>.
  \<^item> \<open>seal/\<close>: \<open>Seal_Frame\<close>, an interpretation of the locale of \<open>Framing\<close>.
  \<^item> \<open>manifest/\<close>: \<open>Man_Lines\<close> and \<open>Man_Log\<close> are the code, \<open>Man_Catalog\<close> what its files hold, \<open>Man_Safety\<close>
    and \<open>Manifest_Spec\<close> its properties, \<open>Man_Errors\<close> which errors it can return. \<open>Journal\<close> is the
    interface of a store of files changed by operations that may fail; the catalog and the vectors
    interpret it.
  \<^item> \<open>index/\<close>: \<open>Ix_Core\<close> (the matrix and its search), \<open>Ix_File\<close>, \<open>Ix_Store\<close> (the files), \<open>Ix_Disk\<close>,
    \<open>Ix_Safety\<close>, \<open>Index_Spec\<close>.
  \<^item> \<open>local/\<close>: \<open>Local_Store\<close> (tables and statements), \<open>Local_Queue\<close>, \<open>Local_Slabs\<close>, \<open>Local_Caches\<close>,
    \<open>Local_Ranking\<close>, \<open>Local_Records\<close>, \<open>Local_Sessions\<close>.
  \<^item> \<open>sia/\<close>: \<open>Sia\<close> and \<open>Sia_Location\<close>. \<open>store/\<close>: \<open>Store_Put\<close>. \<open>store/packer/\<close>: \<open>Packer\<close>, \<open>Packer_Spec\<close>, and
    \<open>Packer_System\<close>, several processes over one queue. \<open>store/reclaim/\<close>: \<open>Reclaim\<close>, \<open>Reclaim_Spec\<close>.
  \<^item> \<open>recall/\<close>: \<open>Recall\<close>, \<open>Recall_Spec\<close>.
  \<^item> \<open>vault/\<close>: \<open>Vault_Core\<close> (\<open>vault.go\<close>, \<open>vectors.go\<close>, \<open>catalog.go\<close>, what the operations share),
    \<open>Vault_Fetch\<close> (\<open>fetch.go\<close>), \<open>Vault_Load\<close> (\<open>session_load.go\<close>), \<open>Vault_Browse\<close> (\<open>browse.go\<close>,
    \<open>neighbours.go\<close>), \<open>Vault_Remember\<close> (\<open>remember.go\<close>), \<open>Vault_Save\<close> (\<open>session.go\<close>), \<open>Vault_Rebuild\<close>
    (\<open>rebuild.go\<close>), \<open>Vault_Hydrate\<close> (\<open>hydrate.go\<close>, \<open>recover.go\<close>), \<open>Vault_Reclaim\<close> (\<open>reclaim.go\<close>). Their
    properties are in \<open>Vault_Rebuild_Spec\<close>, \<open>Vault_Load_Spec\<close>, \<open>Vault_Fetch_Spec\<close>, \<open>Vault_Places\<close> (a save
    that gives up), \<open>Vault_Forget\<close> and \<open>Vault_Flush\<close> (the catalogue meets the contract, the locale of
    \<open>Packer_Spec\<close>, on which a flush rests); \<open>Vault_Rules\<close> has the rules they share and \<open>Vault_Sample\<close> the
    concrete vault of their witnesses.

  \<^bold>\<open>How state and operations are written.\<close> Definitions have the names of the source, with the
  receiver's type in front where two types share a name. A Go string is a list of bytes, a byte slice
  a list of 8-bit words; other machine integers keep their width where it matters. Record times are
  milliseconds since Go's zero time, the clock of a process nanoseconds. An operation with effects is a
  function from a state to a result and a state, where a result is an error or a value. Tables are lists of rows,
  and a statement or a transaction is atomic.

  \<^bold>\<open>Failures.\<close> Which calls fail is a parameter of the state (\<open>mc_plan\<close>): the n-th call of the machine
  is refused, or it writes a first part of its bytes, as the plan says. The properties hold for every
  plan unless they say otherwise. The device, the catalog and the vectors have a plan each inside the
  vault. A crash is a plan that refuses everything from some call on.

  \<^bold>\<open>Concurrency.\<close> A lock makes its section one step. Processes over one queue are a list of steps in
  any order (\<open>Packer_System\<close>); writers of one session head are a list of calls, or a function \<open>others\<close>
  that is what they do between a read and a write; which concurrent uploads were made before one
  failed is a parameter. The order in which Go walks a map is a parameter where it shows.

  \<^bold>\<open>Loops.\<close> A loop over a slice is recursion on the list. Optimistic writes are retried as often as the
  source retries (\<open>headRevisions\<close>). Loops whose end is another party's affair (pages of the network, the
  wait for an account) are partial functions, with \<open>None\<close> for a run that never ends; the walk of a
  finite change feed is proved to end. The replay of a conversation page by page takes the number of
  pages as its bound, and the theorem about it says how many are enough.

  \<^bold>\<open>What the groups of lemmas show.\<close> Catalog and vectors: over any history of operations with any
  failures, nothing acknowledged is lost and nothing is invented; without failures they return. (For
  the vectors, a process that takes over from another must not find an unfinished record at exactly
  the size it knows, which the code cannot tell from its own tail.)
  Seals and frames: they open to what was sealed, and damage costs only what lies after it. Queue and
  packer: nothing leaves the queue before it is written and catalogued, flights within the claim
  timeout never share a record, a full queue is noticed in bounded time. Ledger and reclaim: every
  slab a write is billed for is in the ledger, but for one an object crosses into and none begins on,
  and a reclaim releases nothing under a catalogued object whose slabs the catalog names; that an
  object crossing into a slab it does not name is lost is proved too. Recall: fusion, ranking and the
  account of what was left out. Device: ranking tables as a map, listings by cursor, versions of heads,
  cached locations. Vault: what is written is what is read; a save that gives up and a record that is
  forgotten leave nothing behind; pages of a conversation without repeated ids lose nothing and repeat
  nothing, and repeated ids, which are accepted, break them; a rebuild restores what the
  chunks hold and reports it truly.

  \<^bold>\<open>Parameters.\<close> Encoders of JSON, the cipher, the hash and the compressor, the embedding model, the
  storage SDK, the full-text match of the database and Unicode's case tables are arguments of the
  definitions that use them; what is relied on of them is a hypothesis of the theorem, and the
  witnesses instantiate it.

  \<^bold>\<open>Not modelled.\<close> Loss of data that was written but not synced when power fails; opening the
  database and its migrations, which are SQL; opening a vault (wiring connection, keys and embedder);
  approving a device; starting and stopping the packer's goroutine; the watermark of a reclaim; fused
  multiply-add; progress events and the durations in reports. A durable save whose flush fails returns
  its result beside the error in the source and the error alone here. Key derivation (\<open>keys\<close>) and the
  runtime of the embedder (\<open>embed\<close>) are calls of third-party libraries; the tool server (\<open>mcp\<close>) and
  the commands (\<open>cmd\<close>) are presentation over the vault; \<open>internal/filelock\<close> and \<open>internal/rename\<close> are
  operating-system calls, whose effect is a step of the model.
\<close>

end
